(* ===== verification/Prelude.thy ===== *)
theory Prelude
  imports Main "HOL-Library.Word"
begin

text \<open>
  Shared vocabulary of the BB kernel development: the integer types of
  \<open>include/types.h\<close> as machine words, the little-endian memory layout of the packed
  structures the kernel writes to disk, the linear table search that every static table of
  the kernel uses, and the circular-buffer indexing shared by the keyboard, power, network
  and console queues.  The collections declared here carry the automation of the component
  theories: \<open>layout_simps\<close> for byte layouts, \<open>table_simps\<close> for table searches and
  \<open>ring_simps\<close> for circular buffers.
\<close>

unbundle bit_operations_syntax

named_theorems layout_simps \<open>lengths and decodings of packed structures\<close>
named_theorems table_simps \<open>linear search and update of static tables\<close>
named_theorems ring_simps \<open>circular buffers read as lists\<close>

section \<open>Machine integers\<close>

type_synonym u8 = "8 word"
type_synonym u16 = "16 word"
type_synonym u32 = "32 word"
type_synonym u64 = "64 word"

abbreviation NUL :: char where
  "NUL \<equiv> CHR 0x00"

abbreviation LF :: char where
  "LF \<equiv> CHR 0x0A"

text \<open>A C truth value stored in an \<open>int\<close> or \<open>u32\<close>.\<close>

definition c_bool :: "bool \<Rightarrow> 'a::len word" where
  "c_bool b = (if b then 1 else 0)"

lemma c_bool_simps [simp]: "c_bool True = 1" "c_bool False = 0" "c_bool b = 0 \<longleftrightarrow> \<not> b"
  by (simp_all add: c_bool_def)

lemma unat_word_of_nat_less: "n < 2 ^ LENGTH('a) \<Longrightarrow> unat (word_of_nat n :: 'a::len word) = n"
  by (simp add: unat_of_nat take_bit_nat_eq_self)

lemma unat_add_no_wrap:
  fixes a b :: "'a::len word"
  assumes "unat a + unat b < 2 ^ LENGTH('a)"
  shows "unat (a + b) = unat a + unat b"
  using assms by (rule unat_add_lem [THEN iffD1])

lemma unat_minus_no_wrap:
  fixes a b :: "'a::len word"
  assumes "b \<le> a"
  shows "unat (a - b) = unat a - unat b"
  using assms by (rule unat_sub)

lemma unat_drop_bit_word:
  fixes x :: "'a::len word"
  shows "unat (drop_bit k x) = unat x div 2 ^ k"
  by (simp only: unsigned_drop_bit_eq) (simp add: drop_bit_eq_div take_bit_eq_mod)

section \<open>Little-endian layout\<close>

text \<open>
  A C scalar of \<open>n\<close> bytes in memory on x86-64: least significant byte first.
\<close>

primrec le_bytes :: "nat \<Rightarrow> nat \<Rightarrow> u8 list" where
  "le_bytes 0 x = []"
| "le_bytes (Suc n) x = word_of_nat (x mod 256) # le_bytes n (x div 256)"

primrec le_nat :: "u8 list \<Rightarrow> nat" where
  "le_nat [] = 0"
| "le_nat (b # bs) = unat b + 256 * le_nat bs"

lemma length_le_bytes [simp, layout_simps]: "length (le_bytes n x) = n"
  by (induction n arbitrary: x) auto

lemma le_nat_le_bytes: "le_nat (le_bytes n x) = x mod 256 ^ n"
proof (induction n arbitrary: x)
  case 0
  then show ?case by simp
next
  case (Suc n)
  have "le_nat (le_bytes (Suc n) x) = x mod 256 + 256 * (x div 256 mod 256 ^ n)"
    by (simp add: Suc.IH unat_word_of_nat_less)
  also have "\<dots> = x mod (256 * 256 ^ n)"
    by (simp add: mod_mult2_eq)
  finally show ?case by simp
qed

lemma le_nat_bound: "le_nat bs < 256 ^ length bs"
proof (induction bs)
  case Nil
  then show ?case by simp
next
  case (Cons b bs)
  have "unat b < 256" using unsigned_less [of b, where 'a = nat] by simp
  with Cons show ?case by simp
qed

lemma le_bytes_le_nat: "le_bytes (length bs) (le_nat bs) = bs"
proof (induction bs)
  case Nil
  then show ?case by simp
next
  case (Cons b bs)
  have b: "unat b < 256" using unsigned_less [of b, where 'a = nat] by simp
  then have "(unat b + 256 * le_nat bs) mod 256 = unat b"
    and "(unat b + 256 * le_nat bs) div 256 = le_nat bs" by simp_all
  with Cons show ?case by simp
qed

definition put16 :: "u16 \<Rightarrow> u8 list" where "put16 w = le_bytes 2 (unat w)"
definition put32 :: "u32 \<Rightarrow> u8 list" where "put32 w = le_bytes 4 (unat w)"
definition put64 :: "u64 \<Rightarrow> u8 list" where "put64 w = le_bytes 8 (unat w)"

text \<open>Reading a scalar at a byte offset of a memory image.\<close>

definition get16 :: "u8 list \<Rightarrow> nat \<Rightarrow> u16" where
  "get16 m off = word_of_nat (le_nat (take 2 (drop off m)))"
definition get32 :: "u8 list \<Rightarrow> nat \<Rightarrow> u32" where
  "get32 m off = word_of_nat (le_nat (take 4 (drop off m)))"
definition get64 :: "u8 list \<Rightarrow> nat \<Rightarrow> u64" where
  "get64 m off = word_of_nat (le_nat (take 8 (drop off m)))"

lemma length_put [simp, layout_simps]:
  "length (put16 a) = 2" "length (put32 b) = 4" "length (put64 c) = 8"
  by (simp_all add: put16_def put32_def put64_def)

lemma unat_mod_256_pow:
  fixes w :: "'a::len word"
  assumes "LENGTH('a) = 8 * n"
  shows "unat w mod 256 ^ n = unat w"
proof -
  have "(256::nat) ^ n = 2 ^ LENGTH('a)"
    by (simp add: assms power_mult)
  then show ?thesis using unsigned_less [of w, where 'a = nat] by simp
qed

lemma get_put_here [layout_simps]:
  "get16 (put16 a @ m) 0 = a" "get32 (put32 b @ m) 0 = b" "get64 (put64 c @ m) 0 = c"
  by (simp_all add: get16_def get32_def get64_def put16_def put32_def put64_def
      le_nat_le_bytes unat_mod_256_pow [where n = 2] unat_mod_256_pow [where n = 4]
      unat_mod_256_pow [where n = 8] del: le_bytes.simps power_numeral)

lemma get_skip:
  assumes "length p \<le> off"
  shows "get16 (p @ m) off = get16 m (off - length p)"
    and "get32 (p @ m) off = get32 m (off - length p)"
    and "get64 (p @ m) off = get64 m (off - length p)"
  using assms by (simp_all add: get16_def get32_def get64_def)

lemma get_skip_put [layout_simps]:
  "2 \<le> off \<Longrightarrow> get16 (put16 a @ m) off = get16 m (off - 2)"
  "2 \<le> off \<Longrightarrow> get32 (put16 a @ m) off = get32 m (off - 2)"
  "2 \<le> off \<Longrightarrow> get64 (put16 a @ m) off = get64 m (off - 2)"
  "4 \<le> off \<Longrightarrow> get16 (put32 b @ m) off = get16 m (off - 4)"
  "4 \<le> off \<Longrightarrow> get32 (put32 b @ m) off = get32 m (off - 4)"
  "4 \<le> off \<Longrightarrow> get64 (put32 b @ m) off = get64 m (off - 4)"
  "8 \<le> off \<Longrightarrow> get16 (put64 c @ m) off = get16 m (off - 8)"
  "8 \<le> off \<Longrightarrow> get32 (put64 c @ m) off = get32 m (off - 8)"
  "8 \<le> off \<Longrightarrow> get64 (put64 c @ m) off = get64 m (off - 8)"
  by (simp_all add: get_skip)

section \<open>Static tables\<close>

text \<open>
  The kernel's tables (tasks, address spaces, inodes, descriptors, jobs) are searched by
  \<open>for (i = 0; i < N; ++i) if (P(table[i])) return i;\<close>: the index of the first entry that
  satisfies the test.
\<close>

fun find_index :: "('a \<Rightarrow> bool) \<Rightarrow> 'a list \<Rightarrow> nat option" where
  "find_index P [] = None"
| "find_index P (x # xs) = (if P x then Some 0 else map_option Suc (find_index P xs))"

lemma find_index_None [table_simps]: "find_index P xs = None \<longleftrightarrow> (\<forall>x \<in> set xs. \<not> P x)"
  by (induction xs) auto

lemma find_index_SomeD:
  assumes "find_index P xs = Some i"
  shows "i < length xs" and "P (xs ! i)" and "\<And>j. j < i \<Longrightarrow> \<not> P (xs ! j)"
proof -
  have "i < length xs \<and> P (xs ! i) \<and> (\<forall>j < i. \<not> P (xs ! j))"
    using assms
  proof (induction xs arbitrary: i)
    case Nil
    then show ?case by simp
  next
    case (Cons x xs)
    show ?case
    proof (cases "P x")
      case True
      with Cons.prems show ?thesis by auto
    next
      case False
      with Cons.prems obtain k where k: "find_index P xs = Some k" "i = Suc k" by auto
      from Cons.IH [OF k(1)] show ?thesis
        unfolding k(2) using False by (auto simp: less_Suc_eq_0_disj)
    qed
  qed
  then show "i < length xs" and "P (xs ! i)" and "\<And>j. j < i \<Longrightarrow> \<not> P (xs ! j)" by blast+
qed

lemma find_index_eq_SomeI:
  assumes "i < length xs" and "P (xs ! i)" and "\<And>j. j < i \<Longrightarrow> \<not> P (xs ! j)"
  shows "find_index P xs = Some i"
proof (cases "find_index P xs")
  case None
  with assms show ?thesis by (auto simp: find_index_None)
next
  case (Some k)
  with find_index_SomeD [OF Some] assms show ?thesis
    by (metis linorder_neqE_nat)
qed

lemma find_index_Some_iff [table_simps]:
  "find_index P xs = Some i \<longleftrightarrow> i < length xs \<and> P (xs ! i) \<and> (\<forall>j < i. \<not> P (xs ! j))"
  by (auto dest: find_index_SomeD intro: find_index_eq_SomeI)

lemma find_index_update_other:
  assumes "\<not> P (xs ! k)" and "\<not> P y" and "k < length xs"
  shows "find_index P (xs[k := y]) = find_index P xs"
  using assms
proof (induction xs arbitrary: k)
  case Nil
  then show ?case by simp
next
  case (Cons x xs)
  then show ?case by (cases k) auto
qed

lemma find_index_unique:
  assumes "i < length xs" and "P (xs ! i)"
    and "\<And>j. j < length xs \<Longrightarrow> P (xs ! j) \<Longrightarrow> j = i"
  shows "find_index P xs = Some i"
proof (rule find_index_eq_SomeI)
  show "i < length xs" and "P (xs ! i)" by (fact assms)+
next
  fix j assume "j < i"
  then show "\<not> P (xs ! j)" using assms(1) assms(3) [of j] by linarith
qed

section \<open>Circular buffers\<close>

text \<open>
  The queues of the kernel are arrays of \<open>cap\<close> cells with a start index and a count: cell
  \<open>i\<close> of the queue is \<open>buf[(head + i) % cap]\<close>.
\<close>

definition ring_list :: "nat \<Rightarrow> 'a list \<Rightarrow> nat \<Rightarrow> nat \<Rightarrow> 'a list" where
  "ring_list cap buf head n = map (\<lambda>i. buf ! ((head + i) mod cap)) [0..<n]"

lemma length_ring_list [simp]: "length (ring_list cap buf head n) = n"
  by (simp add: ring_list_def)

lemma ring_list_0 [simp, ring_simps]: "ring_list cap buf head 0 = []"
  by (simp add: ring_list_def)

lemma ring_list_nth [ring_simps]:
  "i < n \<Longrightarrow> ring_list cap buf head n ! i = buf ! ((head + i) mod cap)"
  by (simp add: ring_list_def)

lemma ring_list_Suc:
  "ring_list cap buf head (Suc n) = ring_list cap buf head n @ [buf ! ((head + n) mod cap)]"
  by (simp add: ring_list_def)

lemma ring_index_neq:
  fixes head n i cap :: nat
  assumes "i < n" and "n < cap"
  shows "(head + i) mod cap \<noteq> (head + n) mod cap"
proof
  assume "(head + i) mod cap = (head + n) mod cap"
  then have "cap dvd (head + n) - (head + i)"
    using assms by (metis add_le_cancel_left less_imp_le mod_eq_dvd_iff_nat)
  then have "cap dvd n - i" by (metis diff_cancel2 add.commute)
  moreover have "0 < n - i" and "n - i < cap" using assms by simp_all
  ultimately show False using dvd_imp_le by fastforce
qed

text \<open>Appending: write the cell after the last one.\<close>

lemma ring_list_push [ring_simps]:
  assumes "n < cap" and "length buf = cap"
  shows "ring_list cap (buf[(head + n) mod cap := x]) head (Suc n) = ring_list cap buf head n @ [x]"
proof -
  have "(head + n) mod cap < length buf" using assms by simp
  moreover have "ring_list cap (buf[(head + n) mod cap := x]) head n = ring_list cap buf head n"
    unfolding ring_list_def
  proof (rule map_cong [OF refl])
    fix i assume "i \<in> set [0..<n]"
    then have "(head + n) mod cap \<noteq> (head + i) mod cap"
      using assms ring_index_neq [of i n cap head] by auto
    then show "buf[(head + n) mod cap := x] ! ((head + i) mod cap) = buf ! ((head + i) mod cap)"
      by (rule nth_list_update_neq)
  qed
  ultimately show ?thesis by (simp add: ring_list_Suc)
qed

text \<open>Removing the oldest: advance the start index.\<close>

lemma ring_list_pop [ring_simps]:
  assumes "0 < cap"
  shows "ring_list cap buf head (Suc n)
    = buf ! (head mod cap) # ring_list cap buf ((head + 1) mod cap) n"
proof -
  have "[0..<Suc n] = 0 # map Suc [0..<n]"
    by (simp add: upt_conv_Cons map_Suc_upt)
  then show ?thesis by (simp add: ring_list_def mod_add_left_eq comp_def)
qed

lemma ring_list_head_mod [ring_simps]:
  "ring_list cap buf (head mod cap) n = ring_list cap buf head n"
  by (simp add: ring_list_def mod_add_left_eq)

section \<open>Tactical list facts\<close>

lemma sum_list_update_nat:
  fixes xs :: "nat list"
  shows "k < length xs \<Longrightarrow> sum_list (xs[k := y]) + xs ! k = sum_list xs + y"
proof (induction xs arbitrary: k)
  case Nil
  then show ?case by simp
next
  case (Cons x xs)
  then show ?case by (cases k) auto
qed

lemma list_all_update:
  "list_all P xs \<Longrightarrow> P y \<Longrightarrow> list_all P (xs[k := y])"
  by (auto simp: list_all_iff dest!: subsetD [OF set_update_subset_insert])

lemma sint_nonneg_u32: "unat (n :: u32) < 2 ^ 31 \<Longrightarrow> \<not> sint n < 0"
proof -
  assume "unat n < 2 ^ 31"
  then have "unat (n div 2 ^ 31) = 0" by (simp add: unat_div)
  then have "\<not> bit n 31" by (simp add: bit_iff_odd unat_eq_zero)
  then show ?thesis using bit_last_iff [of n] by simp
qed

end
