(* ===== verification/C_String.thy ===== *)
theory C_String
  imports Prelude
begin

text \<open>
  The freestanding string routines of \<open>kernel/string.c\<close>.  A C string is a \<open>char list\<close>;
  the byte behind its last element is the terminator, and an explicit \<open>NUL\<close> inside the list
  ends the string there, so the same definitions serve literals and fixed-size \<open>char\<close>
  arrays.  The lemmas show that on terminator-free strings the routines are the length, the
  equality test and the prefix test that the rest of the kernel uses them for, and that
  \<open>memcpy\<close> and \<open>memset\<close> touch exactly the first \<open>n\<close> cells.
\<close>

section \<open>Definitions\<close>

text \<open>\<open>*s\<close>: the terminator behind the last element.\<close>

definition cdref :: "char list \<Rightarrow> char" where
  "cdref s = (case s of [] \<Rightarrow> NUL | c # _ \<Rightarrow> c)"

text \<open>\<open>(unsigned char)c\<close> as an \<open>int\<close>.\<close>

definition uchar :: "char \<Rightarrow> int" where
  "uchar c = of_char c"

fun strlen :: "char list \<Rightarrow> nat" where
  "strlen [] = 0"
| "strlen (c # s) = (if c = NUL then 0 else Suc (strlen s))"

fun strcmp :: "char list \<Rightarrow> char list \<Rightarrow> int" where
  "strcmp [] b = uchar NUL - uchar (cdref b)"
| "strcmp (c # a) b =
     (if c \<noteq> NUL \<and> c = cdref b then strcmp a (tl b) else uchar c - uchar (cdref b))"

fun strncmp :: "char list \<Rightarrow> char list \<Rightarrow> nat \<Rightarrow> int" where
  "strncmp a b 0 = 0"
| "strncmp a b (Suc n) =
     (if cdref a \<noteq> cdref b \<or> cdref a = NUL \<or> cdref b = NUL
      then uchar (cdref a) - uchar (cdref b)
      else strncmp (tl a) (tl b) n)"

text \<open>
  \<open>memcpy\<close> and \<open>memset\<close> return the destination array after the loop
  \<open>for (i = 0; i < n; ++i) d[i] = \<dots>\<close>.
\<close>

primrec memcpy_loop :: "'a list \<Rightarrow> 'a list \<Rightarrow> nat \<Rightarrow> 'a list" where
  "memcpy_loop d s 0 = d"
| "memcpy_loop d s (Suc n) = (memcpy_loop d s n)[n := s ! n]"

definition memcpy :: "'a list \<Rightarrow> 'a list \<Rightarrow> nat \<Rightarrow> 'a list" where
  "memcpy dst src n = memcpy_loop dst src n"

primrec memset_loop :: "'a list \<Rightarrow> 'a \<Rightarrow> nat \<Rightarrow> 'a list" where
  "memset_loop d v 0 = d"
| "memset_loop d v (Suc n) = (memset_loop d v n)[n := v]"

definition memset :: "'a list \<Rightarrow> 'a \<Rightarrow> nat \<Rightarrow> 'a list" where
  "memset dst value n = memset_loop dst value n"

definition isspace :: "char \<Rightarrow> bool" where
  "isspace ch \<longleftrightarrow> ch = CHR '' '' \<or> ch = CHR 0x09 \<or> ch = CHR 0x0A \<or> ch = CHR 0x0D"

text \<open>Terminator-free strings, and the string held in a \<open>char\<close> array.\<close>

definition is_cstr :: "char list \<Rightarrow> bool" where
  "is_cstr s \<longleftrightarrow> NUL \<notin> set s"

definition c_str :: "char list \<Rightarrow> char list" where
  "c_str buf = takeWhile (\<lambda>c. c \<noteq> NUL) buf"

section \<open>Lemmas\<close>

lemma is_cstr_simps [simp]:
  "is_cstr []" "is_cstr (c # s) \<longleftrightarrow> c \<noteq> NUL \<and> is_cstr s" "is_cstr (s @ t) \<longleftrightarrow> is_cstr s \<and> is_cstr t"
  by (auto simp: is_cstr_def)

lemma is_cstr_take [simp]: "is_cstr s \<Longrightarrow> is_cstr (take n s)"
  by (auto simp: is_cstr_def dest: in_set_takeD)

lemma is_cstr_c_str [simp]: "is_cstr (c_str s)"
  by (auto simp: is_cstr_def c_str_def dest: set_takeWhileD)

lemma uchar_eq [simp]: "uchar c = uchar d \<longleftrightarrow> c = d"
  by (simp add: uchar_def)

lemma strlen_c_str: "strlen s = length (c_str s)"
  by (induction s) (auto simp: c_str_def)

lemma strlen_cstr: "is_cstr s \<Longrightarrow> strlen s = length s"
  by (induction s) auto

lemma c_str_cstr [simp]: "is_cstr s \<Longrightarrow> c_str s = s"
  by (auto simp: c_str_def is_cstr_def takeWhile_eq_all_conv)

lemma c_str_terminated [simp]: "is_cstr s \<Longrightarrow> c_str (s @ NUL # r) = s"
  by (induction s) (auto simp: c_str_def)

lemma cdref_simps [simp]: "cdref [] = NUL" "cdref (c # s) = c"
  by (simp_all add: cdref_def)

lemma strcmp_eq_0_iff_c_str: "strcmp a b = 0 \<longleftrightarrow> c_str a = c_str b"
proof (induction a b rule: strcmp.induct)
  case (1 b)
  then show ?case by (cases b) (auto simp: c_str_def)
next
  case (2 c a b)
  then show ?case by (cases b) (auto simp: c_str_def)
qed

lemma strncmp_eq_0_iff_prefix:
  "is_cstr p \<Longrightarrow> strncmp s p (length p) = 0 \<longleftrightarrow> take (length p) s = p"
proof (induction p arbitrary: s)
  case Nil
  then show ?case by simp
next
  case (Cons c p)
  then show ?case by (cases s) auto
qed

lemma length_memcpy_loop [simp]: "length (memcpy_loop d s n) = length d"
  by (induction n) auto

lemma length_memset_loop [simp]: "length (memset_loop d v n) = length d"
  by (induction n) auto

lemma memcpy_eq:
  assumes "n \<le> length dst" and "n \<le> length src"
  shows "memcpy dst src n = take n src @ drop n dst"
proof -
  have "memcpy_loop dst src n = take n src @ drop n dst" using assms
  proof (induction n)
    case 0
    then show ?case by simp
  next
    case (Suc n)
    then have "drop n dst = dst ! n # drop (Suc n) dst" by (simp add: Cons_nth_drop_Suc)
    with Suc show ?case by (simp add: list_update_append take_Suc_conv_app_nth)
  qed
  then show ?thesis by (simp add: memcpy_def)
qed

lemma memset_eq:
  assumes "n \<le> length dst"
  shows "memset dst v n = replicate n v @ drop n dst"
proof -
  have "memset_loop dst v n = replicate n v @ drop n dst" using assms
  proof (induction n)
    case 0
    then show ?case by simp
  next
    case (Suc n)
    then have "drop n dst = dst ! n # drop (Suc n) dst" by (simp add: Cons_nth_drop_Suc)
    with Suc show ?case by (simp add: list_update_append replicate_append_same)
  qed
  then show ?thesis by (simp add: memset_def)
qed

end
