(* ===== verification/Fmt.thy ===== *)
theory Fmt
  imports C_String
begin

text \<open>
  The formatted printer of \<open>kernel/fmt.c\<close>.  The callback \<open>emit(c, ctx)\<close> is called once per
  output character and returns nothing, so a run of the printer is the list of characters it
  emits.  A variadic argument is an eight-byte slot (\<open>Num\<close>) or a string (\<open>Str\<close>); reading a
  \<open>u32\<close> or \<open>s32\<close> takes the low half of the slot.  \<open>fmt_vprintf\<close> returns \<open>None\<close> where the
  C code is undefined: an argument of the wrong kind or missing, or a format that ends in the
  middle of a directive (the loop then steps over the terminator).
\<close>

section \<open>Definitions\<close>

datatype fmt_arg = Str "char list" | Num u64

definition emit_string :: "char list \<Rightarrow> char list" where
  "emit_string s = c_str s"

definition digit_chars :: "char list" where
  "digit_chars = ''0123456789abcdef''"

text \<open>
  The digit loop fills \<open>buf\<close> with the digits of \<open>value\<close>, least significant first.
\<close>

function digit_loop :: "nat \<Rightarrow> nat \<Rightarrow> char list" where
  "digit_loop value base =
     (if value = 0 \<or> base < 2 then []
      else digit_chars ! (value mod base) # digit_loop (value div base) base)"
  by pat_completeness auto
termination
  by (relation "measure (\<lambda>(value, base). value)") (auto intro: div_less_dividend)

declare digit_loop.simps [simp del]

definition emit_unsigned :: "u64 \<Rightarrow> nat \<Rightarrow> char list" where
  "emit_unsigned value base =
     (if value = 0 then [CHR ''0''] else rev (digit_loop (unat value) base))"

definition emit_signed :: "u64 \<Rightarrow> char list" where
  "emit_signed value =
     (if sint value < 0 then CHR ''-'' # emit_unsigned (- value) 10
      else emit_unsigned value 10)"

text \<open>\<open>va_arg\<close>: the next argument of the expected kind.\<close>

definition va_num :: "fmt_arg list \<Rightarrow> (u64 \<times> fmt_arg list) option" where
  "va_num ap = (case ap of Num v # ap' \<Rightarrow> Some (v, ap') | _ \<Rightarrow> None)"

definition va_str :: "fmt_arg list \<Rightarrow> (char list \<times> fmt_arg list) option" where
  "va_str ap = (case ap of Str s # ap' \<Rightarrow> Some (s, ap') | _ \<Rightarrow> None)"

definition low32 :: "u64 \<Rightarrow> u64" where
  "low32 v = ucast (ucast v :: u32)"

definition sext32 :: "u64 \<Rightarrow> u64" where
  "sext32 v = scast (ucast v :: u32)"

text \<open>One directive: the character after \<open>%\<close> (after \<open>%l\<close> for the long forms).\<close>

definition fmt_directive :: "char \<Rightarrow> fmt_arg list \<Rightarrow> (char list \<times> fmt_arg list) option" where
  "fmt_directive c ap =
     (if c = CHR ''s'' then map_option (\<lambda>(s, ap'). (emit_string s, ap')) (va_str ap)
      else if c = CHR ''c'' then map_option (\<lambda>(v, ap'). ([char_of (unat (ucast v :: u8))], ap')) (va_num ap)
      else if c = CHR ''u'' then map_option (\<lambda>(v, ap'). (emit_unsigned (low32 v) 10, ap')) (va_num ap)
      else if c = CHR ''d'' then map_option (\<lambda>(v, ap'). (emit_signed (sext32 v), ap')) (va_num ap)
      else if c = CHR ''x'' then map_option (\<lambda>(v, ap'). (emit_unsigned (low32 v) 16, ap')) (va_num ap)
      else if c = CHR ''%'' then Some (''%'', ap)
      else Some (''?'', ap))"

definition fmt_long :: "char \<Rightarrow> fmt_arg list \<Rightarrow> (char list \<times> fmt_arg list) option" where
  "fmt_long c ap =
     (if c = CHR ''u'' then map_option (\<lambda>(v, ap'). (emit_unsigned v 10, ap')) (va_num ap)
      else if c = CHR ''d'' then map_option (\<lambda>(v, ap'). (emit_signed v, ap')) (va_num ap)
      else if c = CHR ''x'' then map_option (\<lambda>(v, ap'). (emit_unsigned v 16, ap')) (va_num ap)
      else Some ([], ap))"

fun fmt_vprintf :: "char list \<Rightarrow> fmt_arg list \<Rightarrow> char list option" where
  "fmt_vprintf [] ap = Some []"
| "fmt_vprintf (c # f) ap =
     (if c \<noteq> CHR ''%'' then map_option ((#) c) (fmt_vprintf f ap)
      else (case f of
          [] \<Rightarrow> None
        | d # f' \<Rightarrow>
            if d = CHR ''l'' then
              (case f' of
                [] \<Rightarrow> None
              | e # f'' \<Rightarrow>
                  (case fmt_long e ap of
                    None \<Rightarrow> None
                  | Some (out, ap') \<Rightarrow> map_option ((@) out) (fmt_vprintf f'' ap')))
            else
              (case fmt_directive d ap of
                None \<Rightarrow> None
              | Some (out, ap') \<Rightarrow> map_option ((@) out) (fmt_vprintf f' ap'))))"

text \<open>
  The number written by a digit string, most significant digit first: the specification the
  printed digits are checked against.
\<close>

definition digit_value :: "char \<Rightarrow> nat" where
  "digit_value c = (case find_index ((=) c) digit_chars of None \<Rightarrow> 0 | Some i \<Rightarrow> i)"

fun read_digits :: "nat \<Rightarrow> nat \<Rightarrow> char list \<Rightarrow> nat" where
  "read_digits base acc [] = acc"
| "read_digits base acc (c # s) = read_digits base (acc * base + digit_value c) s"

section \<open>Lemmas\<close>

lemma digit_value_digit: "d < 16 \<Longrightarrow> digit_value (digit_chars ! d) = d"
proof -
  have "\<forall>d < 16. digit_value (digit_chars ! d) = d" by code_simp
  then show "d < 16 \<Longrightarrow> ?thesis" by blast
qed

lemma read_digits_append:
  "read_digits base acc (s @ t) = read_digits base (read_digits base acc s) t"
  by (induction s arbitrary: acc) auto

lemma read_digits_rev_loop:
  assumes "2 \<le> base" and "base \<le> 16"
  shows "read_digits base 0 (rev (digit_loop v base)) = v"
  using assms
proof (induction v base rule: digit_loop.induct)
  case (1 v base)
  show ?case
  proof (cases "v = 0")
    case True
    then show ?thesis by (simp add: digit_loop.simps)
  next
    case False
    have "v mod base < base" using 1 by simp
    then have "v mod base < 16" using 1 by linarith
    with False 1 show ?thesis
      by (simp add: digit_loop.simps [of v base] read_digits_append digit_value_digit
          div_mult_mod_eq not_less)
  qed
qed

lemma digit_loop_set: "set (digit_loop v base) \<subseteq> set (take base digit_chars)" if "2 \<le> base" "base \<le> 16"
  using that
proof (induction v base rule: digit_loop.induct)
  case (1 v base)
  show ?case
  proof (cases "v = 0")
    case True
    then show ?thesis by (simp add: digit_loop.simps)
  next
    case False
    have len: "length digit_chars = 16" by (simp add: digit_chars_def)
    have "v mod base < base" using 1 by simp
    then have "digit_chars ! (v mod base) \<in> set (take base digit_chars)"
      using 1 len by (metis in_set_conv_nth length_take min.absorb2 nth_take)
    with False 1 show ?thesis
      by (simp add: digit_loop.simps [of v base] not_less)
  qed
qed

lemma length_digit_loop: "2 \<le> base \<Longrightarrow> v < base ^ n \<Longrightarrow> length (digit_loop v base) \<le> n"
proof (induction n arbitrary: v)
  case 0
  then show ?case by (simp add: digit_loop.simps)
next
  case (Suc n)
  have "v div base < base ^ n"
    using Suc.prems by (simp add: less_mult_imp_div_less mult.commute)
  with Suc show ?case by (simp add: digit_loop.simps [of v base])
qed

lemma read_emit_unsigned:
  assumes "2 \<le> base" and "base \<le> 16"
  shows "read_digits base 0 (emit_unsigned v base) = unat v"
proof (cases "v = 0")
  case True
  moreover have "digit_value CHR ''0'' = 0" by code_simp
  ultimately show ?thesis by (simp add: emit_unsigned_def)
next
  case False
  then show ?thesis using assms by (simp add: emit_unsigned_def read_digits_rev_loop)
qed

lemma uint_eq_sint_mod: "uint (v :: u64) = sint v mod 2 ^ 64"
  by (subst uint_sint) (simp add: take_bit_eq_mod)

lemma unat_nonneg_sint: "0 \<le> sint v \<Longrightarrow> nat (sint v) = unat (v :: u64)"
  using sint_lt [of v] by (simp add: unat_eq_nat_uint uint_eq_sint_mod mod_pos_pos_trivial)

lemma unat_uminus_sint:
  fixes v :: u64
  assumes "sint v < 0"
  shows "unat (- v) = nat (- sint v)"
proof -
  have r: "- (2 ^ 63) \<le> sint v" using sint_ge [of v] by simp
  have "uint (- v) = (- (sint v mod 2 ^ 64)) mod 2 ^ 64"
    unfolding uint_eq_sint_mod [symmetric, of v] by (simp add: uint_word_ariths(4))
  also have "\<dots> = (- sint v) mod 2 ^ 64" by (rule mod_minus_eq)
  also have "\<dots> = - sint v" using r assms by (simp add: mod_pos_pos_trivial)
  finally show ?thesis by (simp add: unat_eq_nat_uint)
qed

section \<open>Correctness\<close>

text \<open>Numbers are printed correctly and without overrunning the digit buffer.  For every 64-bit
  value the decimal and the hexadecimal digits read back as the value, a negative number is a
  minus sign and the digits of its absolute value, and the digits take at most 20 (decimal) and
  16 (hexadecimal) of the 32 characters of \<open>buf\<close>.\<close>

theorem fmt_numbers_read_back:
  "read_digits 10 0 (emit_unsigned v 10) = unat v \<and> read_digits 16 0 (emit_unsigned v 16) = unat v \<and>
   length (emit_unsigned v 10) \<le> 20 \<and> length (emit_unsigned v 16) \<le> 16 \<and>
   (if sint v < 0 then \<exists>ds. emit_signed v = CHR ''-'' # ds \<and> read_digits 10 0 ds = nat (- sint v)
    else read_digits 10 0 (emit_signed v) = nat (sint v))"
proof -
  have b: "unat v < 2 ^ 64" using unsigned_less [of v, where 'a = nat] by simp
  have "length (digit_loop (unat v) 10) \<le> 20" by (rule length_digit_loop) (use b in simp_all)
  moreover have "length (digit_loop (unat v) 16) \<le> 16" by (rule length_digit_loop) (use b in simp_all)
  moreover have "nat (sint v) = unat v" if "\<not> sint v < 0"
    using that by (simp add: unat_nonneg_sint)
  ultimately show ?thesis
    using read_emit_unsigned [of 10 v] read_emit_unsigned [of 16 v] read_emit_unsigned [of 10 "- v"] unat_uminus_sint [of v]
    by (auto simp: emit_unsigned_def emit_signed_def)
qed

end
