(* ===== verification/Memory.thy ===== *)
theory Memory
  imports Prelude
begin

text \<open>
  The physical page allocator of \<open>kernel/memory.c\<close>.  The static variables are the record
  \<open>memory_state\<close>; all arithmetic is on 64-bit words, as in the source.  \<open>memory_init\<close> takes
  the E820 table the boot loader left behind \<open>boot_info\<close>.  The allocator only moves
  \<open>alloc_next\<close> upwards, so the theory shows which pages it can hand out, that no two of them
  overlap, and how the byte counters follow.
\<close>

section \<open>Definitions\<close>

record e820_entry =
  e_base :: u64
  e_length :: u64
  e_type :: u32
  e_acpi :: u32

record memory_state =
  total_bytes :: u64
  used_bytes :: u64
  page_faults :: u64
  region_count :: u64
  alloc_base :: u64
  alloc_next :: u64
  alloc_limit :: u64

definition memory_zero :: memory_state where
  "memory_zero = \<lparr>total_bytes = 0, used_bytes = 0, page_faults = 0, region_count = 0,
     alloc_base = 0, alloc_next = 0, alloc_limit = 0\<rparr>"

text \<open>The body of the loop over the E820 entries.\<close>

definition memory_scan :: "e820_entry \<Rightarrow> memory_state \<Rightarrow> memory_state" where
  "memory_scan e m =
     (if e_type e = 1 then
        (let m1 = m\<lparr>total_bytes := total_bytes m + e_length e\<rparr> in
         if e_base e \<ge> 0x100000 \<and> e_length e > alloc_limit m1 - alloc_base m1
         then m1\<lparr>alloc_base := e_base e, alloc_limit := e_base e + e_length e\<rparr>
         else m1)
      else m)"

definition memory_init :: "e820_entry list \<Rightarrow> memory_state \<Rightarrow> memory_state" where
  "memory_init entries m =
     (let m0 = m\<lparr>total_bytes := 0, region_count := word_of_nat (length entries),
                  alloc_base := 0, alloc_next := 0, alloc_limit := 0\<rparr>;
          m1 = fold memory_scan entries m0;
          m2 = (if alloc_base m1 < 0x200000 then m1\<lparr>alloc_base := 0x200000\<rparr> else m1)
      in m2\<lparr>alloc_next := (alloc_base m2 + 0xfff) AND NOT 0xfff, used_bytes := 0\<rparr>)"

text \<open>\<open>NULL\<close> is the address 0.\<close>

definition page_alloc :: "memory_state \<Rightarrow> u64 \<times> memory_state" where
  "page_alloc m =
     (if alloc_next m + 4096 > alloc_limit m then (0, m)
      else (alloc_next m,
            m\<lparr>alloc_next := alloc_next m + 4096, used_bytes := used_bytes m + 4096\<rparr>))"

definition memory_record_page_fault :: "memory_state \<Rightarrow> memory_state" where
  "memory_record_page_fault m = m\<lparr>page_faults := page_faults m + 1\<rparr>"

definition memory_free_bytes :: "memory_state \<Rightarrow> u64" where
  "memory_free_bytes m =
     (if alloc_limit m \<le> alloc_next m then 0 else alloc_limit m - alloc_next m)"

text \<open>\<open>n\<close> successive calls, oldest page first.\<close>

fun page_allocs :: "nat \<Rightarrow> memory_state \<Rightarrow> u64 list \<times> memory_state" where
  "page_allocs 0 m = ([], m)"
| "page_allocs (Suc n) m =
     (let (p, m1) = page_alloc m; (ps, m2) = page_allocs n m1 in (p # ps, m2))"

text \<open>
  The allocator's invariant: the next page is page aligned, not below the 2 MiB boundary, and
  the window does not reach the top of the address space.
\<close>

definition memory_inv :: "memory_state \<Rightarrow> bool" where
  "memory_inv m \<longleftrightarrow>
     unat (alloc_next m) mod 4096 = 0 \<and> 0x200000 \<le> unat (alloc_next m) \<and>
     unat (alloc_next m) + 4096 < 2 ^ 64 \<and> unat (alloc_limit m) + 4096 < 2 ^ 64"

text \<open>An E820 map whose regions end below the top 4 GiB of the address space.\<close>

definition e820_sane :: "e820_entry \<Rightarrow> bool" where
  "e820_sane e \<longleftrightarrow> unat (e_base e) + unat (e_length e) < 2 ^ 64 - 2 ^ 32"

section \<open>Lemmas\<close>

lemma page_alloc_cases:
  assumes inv: "memory_inv m"
  shows "(unat (alloc_limit m) < unat (alloc_next m) + 4096 \<and> page_alloc m = (0, m)) \<or>
    (unat (alloc_next m) + 4096 \<le> unat (alloc_limit m) \<and>
     page_alloc m = (alloc_next m,
       m\<lparr>alloc_next := alloc_next m + 4096, used_bytes := used_bytes m + 4096\<rparr>) \<and>
     unat (alloc_next m + 4096) = unat (alloc_next m) + 4096)"
proof -
  have nw: "unat (alloc_next m + 4096) = unat (alloc_next m) + 4096"
    using inv by (subst unat_add_no_wrap) (simp_all add: memory_inv_def)
  then show ?thesis
    by (auto simp: page_alloc_def word_less_nat_alt)
qed

lemma page_alloc_inv: "memory_inv m \<Longrightarrow> memory_inv (snd (page_alloc m))"
  using page_alloc_cases [of m] by (auto simp: memory_inv_def mod_add_eq)

lemma page_alloc_limit [simp]: "alloc_limit (snd (page_alloc m)) = alloc_limit m"
  by (simp add: page_alloc_def)

lemma page_alloc_success:
  assumes "memory_inv m" and "fst (page_alloc m) \<noteq> 0"
  shows "unat (fst (page_alloc m)) = unat (alloc_next m)"
    and "unat (alloc_next (snd (page_alloc m))) = unat (alloc_next m) + 4096"
    and "unat (alloc_next m) + 4096 \<le> unat (alloc_limit m)"
  using page_alloc_cases [OF assms(1)] assms(2) by auto

lemma page_alloc_next_mono:
  "memory_inv m \<Longrightarrow> unat (alloc_next m) \<le> unat (alloc_next (snd (page_alloc m)))"
  using page_alloc_cases [of m] by auto

lemma page_allocs_from:
  assumes "memory_inv m" and "p \<in> set (fst (page_allocs n m))" and "p \<noteq> 0"
  shows "unat (alloc_next m) \<le> unat p \<and> unat p mod 4096 = 0 \<and> unat p + 4096 \<le> unat (alloc_limit m)"
  using assms
proof (induction n arbitrary: m)
  case 0
  then show ?case by simp
next
  case (Suc n)
  obtain q m1 where q: "page_alloc m = (q, m1)" by force
  obtain ps m2 where ps: "page_allocs n m1 = (ps, m2)" by force
  have m1: "m1 = snd (page_alloc m)" by (simp add: q)
  from Suc.prems(2) q ps consider "p = q" | "p \<in> set ps" by auto
  then show ?case
  proof cases
    case 1
    with page_alloc_success [OF Suc.prems(1)] Suc.prems(1,3) q show ?thesis
      by (auto simp: memory_inv_def)
  next
    case 2
    have inv1: "memory_inv m1"
      unfolding m1 using Suc.prems(1) by (rule page_alloc_inv)
    have "unat (alloc_next m1) \<le> unat p \<and> unat p mod 4096 = 0 \<and> unat p + 4096 \<le> unat (alloc_limit m1)"
      using Suc.IH [OF inv1 _ Suc.prems(3)] 2 ps by simp
    then show ?thesis
      using page_alloc_next_mono [OF Suc.prems(1)] by (simp add: m1)
  qed
qed

lemma page_allocs_disjoint:
  assumes "memory_inv m" and "fst (page_allocs n m) = ps"
    and "i < j" and "j < length ps" and "ps ! i \<noteq> 0" and "ps ! j \<noteq> 0"
  shows "unat (ps ! i) + 4096 \<le> unat (ps ! j)"
  using assms
proof (induction n arbitrary: m ps i j)
  case 0
  then show ?case by auto
next
  case (Suc n)
  obtain q m1 where q: "page_alloc m = (q, m1)" by force
  obtain qs m2 where qs: "page_allocs n m1 = (qs, m2)" by force
  have inv1: "memory_inv m1" using page_alloc_inv [OF Suc.prems(1)] q by simp
  have ps: "ps = q # qs" using Suc.prems(2) q qs by simp
  obtain j' where j': "j = Suc j'" using Suc.prems(3) by (cases j) auto
  show ?case
  proof (cases i)
    case 0
    have "qs ! j' \<in> set (fst (page_allocs n m1))" using Suc.prems(4) ps j' qs by simp
    with page_allocs_from [OF inv1 this] Suc.prems(6) ps j'
    have "unat (alloc_next m1) \<le> unat (qs ! j')" by simp
    moreover have "unat (alloc_next m1) = unat q + 4096"
      using page_alloc_success [OF Suc.prems(1)] Suc.prems(5) ps 0 q by simp
    ultimately show ?thesis by (simp add: ps 0 j')
  next
    case (Suc i')
    with Suc.IH [OF inv1, of qs i' j'] qs Suc.prems ps j' show ?thesis by simp
  qed
qed

text \<open>Rounding up to a page.\<close>

lemma unat_and_not_fff: "unat ((x::u64) AND NOT 0xfff) = unat x div 4096 * 4096"
proof -
  have "(x AND NOT 0xfff) = (x AND NOT (mask 12))" by (simp add: mask_eq_decr_exp)
  also have "\<dots> = push_bit 12 (drop_bit 12 x)"
    by (simp add: bit_eq_iff bit_and_iff bit_not_iff bit_mask_iff bit_push_bit_iff bit_drop_bit_eq)
      (metis le_add_diff_inverse bit_imp_le_length not_less)
  finally have "unat (x AND NOT 0xfff) = unat (push_bit 12 (drop_bit 12 x))" by simp
  also have "\<dots> = take_bit 64 (push_bit 12 (unat (drop_bit 12 x)))"
    by (simp add: unsigned_push_bit_eq)
  also have "unat (drop_bit 12 x) = unat x div 4096"
    by (simp add: drop_bit_eq_div unat_div)
  also have "take_bit 64 (push_bit 12 (unat x div 4096)) = unat x div 4096 * 4096"
  proof -
    have "unat x div 4096 * 4096 \<le> unat x" by simp
    also have "unat x < 2 ^ 64" using unsigned_less [of x, where 'a = nat] by simp
    finally show ?thesis by (simp add: push_bit_eq_mult take_bit_nat_eq_self)
  qed
  finally show ?thesis .
qed

text \<open>
  What the scan of the E820 table has chosen: nothing yet, or exactly one usable region that
  starts at or above 1 MiB.
\<close>

definition scan_choice :: "e820_entry list \<Rightarrow> memory_state \<Rightarrow> bool" where
  "scan_choice es m \<longleftrightarrow>
     (alloc_base m = 0 \<and> alloc_limit m = 0) \<or>
     (\<exists>e \<in> set es. e_type e = 1 \<and> alloc_base m = e_base e \<and> alloc_limit m = e_base e + e_length e)"

lemma memory_scan_choice:
  assumes "scan_choice es m" and "e \<in> set es"
  shows "scan_choice es (memory_scan e m)"
  using assms by (auto simp: scan_choice_def memory_scan_def Let_def)

lemma memory_fold_choice:
  assumes "scan_choice es m" and "set xs \<subseteq> set es"
  shows "scan_choice es (fold memory_scan xs m)"
  using assms by (induction xs arbitrary: m) (auto intro: memory_scan_choice)

lemma memory_init_next:
  assumes "unat (alloc_base (memory_init es m)) + 0xfff < 2 ^ 64"
  shows "unat (alloc_next (memory_init es m)) =
    (unat (alloc_base (memory_init es m)) + 0xfff) div 4096 * 4096"
proof -
  have "alloc_next (memory_init es m) = (alloc_base (memory_init es m) + 0xfff) AND NOT 0xfff"
    by (simp add: memory_init_def Let_def)
  then show ?thesis
    using assms by (simp only: unat_and_not_fff) (simp add: unat_add_no_wrap)
qed

text \<open>After initialisation the window is the part above 2 MiB of one usable region, or empty.\<close>

lemma memory_init_window:
  fixes m :: memory_state
  assumes sane: "list_all e820_sane es"
  defines "m' \<equiv> memory_init es m"
  shows "0x200000 \<le> unat (alloc_base m')"
    and "unat (alloc_base m') < 2 ^ 64 - 2 ^ 32"
    and "alloc_limit m' = 0 \<or>
      (\<exists>e \<in> set es. e_type e = 1 \<and> unat (e_base e) \<le> unat (alloc_base m') \<and>
         unat (alloc_limit m') = unat (e_base e) + unat (e_length e) \<and>
         unat (alloc_limit m') < 2 ^ 64 - 2 ^ 32)"
proof -
  define m0 where "m0 = m\<lparr>total_bytes := 0, region_count := word_of_nat (length es),
    alloc_base := 0, alloc_next := 0, alloc_limit := 0\<rparr>"
  define m1 where "m1 = fold memory_scan es m0"
  have "scan_choice es m0" by (simp add: scan_choice_def m0_def)
  then have choice: "scan_choice es m1"
    unfolding m1_def by (rule memory_fold_choice) simp
  have base: "alloc_base m' = (if alloc_base m1 < 0x200000 then 0x200000 else alloc_base m1)"
    and limit: "alloc_limit m' = alloc_limit m1"
    by (simp_all add: m'_def memory_init_def Let_def m1_def m0_def)
  show lo: "0x200000 \<le> unat (alloc_base m')"
    by (simp add: base word_less_nat_alt not_less)
  consider (none) "alloc_base m1 = 0" "alloc_limit m1 = 0"
    | (some) e where "e \<in> set es" "e_type e = 1" "alloc_base m1 = e_base e"
        "alloc_limit m1 = e_base e + e_length e"
    using choice by (auto simp: scan_choice_def)
  then show "unat (alloc_base m') < 2 ^ 64 - 2 ^ 32"
    and "alloc_limit m' = 0 \<or>
      (\<exists>e \<in> set es. e_type e = 1 \<and> unat (e_base e) \<le> unat (alloc_base m') \<and>
         unat (alloc_limit m') = unat (e_base e) + unat (e_length e) \<and>
         unat (alloc_limit m') < 2 ^ 64 - 2 ^ 32)"
  proof (atomize (full), cases)
    case none
    then show "unat (alloc_base m') < 2 ^ 64 - 2 ^ 32 \<and> (alloc_limit m' = 0 \<or>
      (\<exists>e \<in> set es. e_type e = 1 \<and> unat (e_base e) \<le> unat (alloc_base m') \<and>
         unat (alloc_limit m') = unat (e_base e) + unat (e_length e) \<and>
         unat (alloc_limit m') < 2 ^ 64 - 2 ^ 32))"
      by (simp add: base limit)
  next
    case some
    then have e: "unat (e_base e) + unat (e_length e) < 2 ^ 64 - 2 ^ 32"
      using sane by (simp add: list_all_iff e820_sane_def)
    have lim: "unat (alloc_limit m') = unat (e_base e) + unat (e_length e)"
      using e by (simp add: limit some unat_add_no_wrap)
    have "unat (e_base e) \<le> unat (alloc_base m')"
      by (simp add: base some word_less_nat_alt)
    moreover have "unat (alloc_base m') < 2 ^ 64 - 2 ^ 32"
      using e by (simp add: base some)
    ultimately show "unat (alloc_base m') < 2 ^ 64 - 2 ^ 32 \<and> (alloc_limit m' = 0 \<or>
      (\<exists>e \<in> set es. e_type e = 1 \<and> unat (e_base e) \<le> unat (alloc_base m') \<and>
         unat (alloc_limit m') = unat (e_base e) + unat (e_length e) \<and>
         unat (alloc_limit m') < 2 ^ 64 - 2 ^ 32))"
      using lim e some by auto
  qed
qed

lemma memory_init_inv:
  assumes "list_all e820_sane es"
  shows "memory_inv (memory_init es m)"
    and "unat (alloc_base (memory_init es m)) \<le> unat (alloc_next (memory_init es m))"
proof -
  note w = memory_init_window [OF assms, of m]
  have nxt: "unat (alloc_next (memory_init es m)) =
      (unat (alloc_base (memory_init es m)) + 0xfff) div 4096 * 4096"
    using w(2) by (intro memory_init_next) simp
  then show "unat (alloc_base (memory_init es m)) \<le> unat (alloc_next (memory_init es m))"
    by simp
  then have "0x200000 \<le> unat (alloc_next (memory_init es m))" using w(1) by linarith
  moreover have "unat (alloc_next (memory_init es m)) + 4096 < 2 ^ 64"
    using w(2) by (simp add: nxt)
  moreover have "unat (alloc_limit (memory_init es m)) + 4096 < 2 ^ 64"
    using w(3) by auto
  ultimately show "memory_inv (memory_init es m)"
    by (simp add: memory_inv_def nxt)
qed

section \<open>Properties\<close>

text \<open>C30: every page \<open>page_alloc\<close> hands out after \<open>memory_init\<close> is page aligned, lies at or
  above 2 MiB, lies inside one usable region of the boot loader's E820 map, and does not overlap
  any page handed out before it.\<close>

theorem page_alloc_safe:
  assumes sane: "list_all e820_sane es"
    and ps: "fst (page_allocs n (memory_init es m)) = ps"
    and i: "i < length ps" "ps ! i \<noteq> 0"
  shows "unat (ps ! i) mod 4096 = 0 \<and> 0x200000 \<le> unat (ps ! i) \<and>
    (\<exists>e \<in> set es. e_type e = 1 \<and> unat (e_base e) \<le> unat (ps ! i) \<and>
       unat (ps ! i) + 4096 \<le> unat (e_base e) + unat (e_length e)) \<and>
    (\<forall>j < i. ps ! j \<noteq> 0 \<longrightarrow> unat (ps ! j) + 4096 \<le> unat (ps ! i))"
proof (intro conjI)
  let ?m = "memory_init es m"
  note inv = memory_init_inv [OF sane, of m] and w = memory_init_window [OF sane, of m]
  have "ps ! i \<in> set (fst (page_allocs n ?m))" using ps i by simp
  from page_allocs_from [OF inv(1) this i(2)]
  have p: "unat (alloc_next ?m) \<le> unat (ps ! i)" "unat (ps ! i) mod 4096 = 0"
    "unat (ps ! i) + 4096 \<le> unat (alloc_limit ?m)" by auto
  show "unat (ps ! i) mod 4096 = 0" by (fact p)
  show "0x200000 \<le> unat (ps ! i)" using w(1) inv(2) p(1) by linarith
  have "alloc_limit ?m \<noteq> 0" using p(3) by auto
  with w(3) obtain e where "e \<in> set es" "e_type e = 1" "unat (e_base e) \<le> unat (alloc_base ?m)"
    "unat (alloc_limit ?m) = unat (e_base e) + unat (e_length e)" by auto
  with p inv(2) show "\<exists>e \<in> set es. e_type e = 1 \<and> unat (e_base e) \<le> unat (ps ! i) \<and>
      unat (ps ! i) + 4096 \<le> unat (e_base e) + unat (e_length e)"
    by (intro bexI [of _ e]) auto
  show "\<forall>j < i. ps ! j \<noteq> 0 \<longrightarrow> unat (ps ! j) + 4096 \<le> unat (ps ! i)"
    using page_allocs_disjoint [OF inv(1) ps _ i(1) _ i(2)] by blast
qed

theorem page_alloc_safe_witness:
  "\<exists>e \<in> set [\<lparr>e_base = 0x100000, e_length = 0x7ee0000, e_type = 1, e_acpi = 1\<rparr>].
     unat (e_base e) \<le> unat (fst (page_allocs 2 (memory_init
       [\<lparr>e_base = 0x100000, e_length = 0x7ee0000, e_type = 1, e_acpi = 1\<rparr>] memory_zero)) ! 1)"
proof -
  let ?es = "[\<lparr>e_base = 0x100000, e_length = 0x7ee0000, e_type = 1, e_acpi = 1\<rparr>]"
  let ?ps = "fst (page_allocs 2 (memory_init ?es memory_zero))"
  have sane: "list_all e820_sane ?es" by (simp add: e820_sane_def)
  have "?ps = [0x200000, 0x201000]" by code_simp
  then have "1 < length ?ps" and "?ps ! 1 \<noteq> 0" by simp_all
  from page_alloc_safe [OF sane refl this] show ?thesis by blast
qed

text \<open>The allocator fails exactly when less than one page is left, leaving its state as it
  was; otherwise it moves exactly one page from the free to the used byte count.\<close>

theorem page_alloc_accounting:
  assumes inv: "memory_inv m"
  shows "if unat (memory_free_bytes m) < 4096
         then page_alloc m = (0, m)
         else \<exists>p m'. page_alloc m = (p, m') \<and> p = alloc_next m \<and> p \<noteq> 0 \<and> memory_inv m' \<and>
                used_bytes m' = used_bytes m + 4096 \<and>
                unat (memory_free_bytes m') + 4096 = unat (memory_free_bytes m)"
proof -
  have free: "unat (memory_free_bytes m) = unat (alloc_limit m) - unat (alloc_next m)"
    by (simp add: memory_free_bytes_def word_le_nat_alt unat_minus_no_wrap)
  have nz: "alloc_next m \<noteq> 0" using inv by (auto simp: memory_inv_def)
  show ?thesis
    using page_alloc_cases [OF inv]
  proof
    assume "unat (alloc_limit m) < unat (alloc_next m) + 4096 \<and> page_alloc m = (0, m)"
    with free show ?thesis by auto
  next
    let ?m' = "m\<lparr>alloc_next := alloc_next m + 4096, used_bytes := used_bytes m + 4096\<rparr>"
    assume a: "unat (alloc_next m) + 4096 \<le> unat (alloc_limit m) \<and>
      page_alloc m = (alloc_next m, ?m') \<and> unat (alloc_next m + 4096) = unat (alloc_next m) + 4096"
    have "unat (memory_free_bytes ?m') = unat (alloc_limit m) - unat (alloc_next m + 4096)"
      by (simp add: memory_free_bytes_def word_le_nat_alt unat_minus_no_wrap)
    moreover have "memory_inv ?m'" using page_alloc_inv [OF inv] a by simp
    ultimately show ?thesis using a free nz by auto
  qed
qed

theorem page_alloc_accounting_witness:
  "used_bytes (snd (page_alloc (memory_zero\<lparr>alloc_next := 0x200000, alloc_limit := 0x300000\<rparr>))) = 4096"
proof -
  let ?m = "memory_zero\<lparr>alloc_next := 0x200000, alloc_limit := 0x300000\<rparr>"
  have inv: "memory_inv ?m" by (simp add: memory_inv_def memory_zero_def)
  have "\<not> unat (memory_free_bytes ?m) < 4096"
    by (simp add: memory_free_bytes_def memory_zero_def)
  with page_alloc_accounting [OF inv] show ?thesis by (auto simp: memory_zero_def)
qed

end
