(* ===== verification/Console.thy ===== *)
theory Console
  imports Fmt
begin

text \<open>
  The text console of \<open>kernel/console.c\<close>: a circular log of 512 lines of at most 159
  characters, the scroll position, and the hardware cursor.  \<open>render_output\<close> runs after every
  operation; the cursor position that it leaves in \<open>row\<close> and \<open>col\<close> is part of the state, while the
  VGA frame that it redraws is a write-only device and is the subject of \<open>Frame\<close> and \<open>Screen\<close>.
  Indices and counts stay far below \<open>2 ^ 32\<close> (\<open>console_inv\<close>) and are natural numbers.

  The log is shown to refine \<open>log_view\<close>, the list of lines a reader scrolls through.
\<close>

section \<open>Definitions\<close>

definition SCREEN_W :: nat where "SCREEN_W = 80"
definition SCREEN_H :: nat where "SCREEN_H = 25"
definition GUI_LEFT :: nat where "GUI_LEFT = 4"
definition GUI_TOP :: nat where "GUI_TOP = 3"
definition GUI_RIGHT :: nat where "GUI_RIGHT = 76"
definition GUI_BOTTOM :: nat where "GUI_BOTTOM = 21"
definition LOG_LINES :: nat where "LOG_LINES = 512"
definition LOG_LINE_MAX :: nat where "LOG_LINE_MAX = 160"

lemmas console_consts = SCREEN_W_def SCREEN_H_def GUI_LEFT_def GUI_TOP_def GUI_RIGHT_def
  GUI_BOTTOM_def LOG_LINES_def LOG_LINE_MAX_def

record console_state =
  gui_mode :: bool
  log_lines :: "char list list"
  log_lens :: "nat list"
  log_start :: nat
  log_count :: nat
  viewport_offset :: nat
  row :: nat
  col :: nat

definition current_log_index :: "console_state \<Rightarrow> nat" where
  "current_log_index c = (log_start c + log_count c - 1) mod LOG_LINES"

definition visible_width :: "console_state \<Rightarrow> nat" where
  "visible_width c = (if gui_mode c then GUI_RIGHT - GUI_LEFT + 1 else SCREEN_W)"

definition visible_height :: "console_state \<Rightarrow> nat" where
  "visible_height c = (if gui_mode c then GUI_BOTTOM - GUI_TOP + 1 else SCREEN_H)"

definition max_viewport_offset :: "console_state \<Rightarrow> nat" where
  "max_viewport_offset c =
     (if log_count c > visible_height c then log_count c - visible_height c else 0)"

definition content_row0 :: "console_state \<Rightarrow> nat" where
  "content_row0 c = (if gui_mode c then GUI_TOP else 0)"

definition content_col0 :: "console_state \<Rightarrow> nat" where
  "content_col0 c = (if gui_mode c then GUI_LEFT else 0)"

text \<open>The cursor part of \<open>render_output\<close>; the drawing is \<open>Screen.draw_output\<close>.\<close>

definition render_output :: "console_state \<Rightarrow> console_state" where
  "render_output c =
     (let width = visible_width c; height = visible_height c in
      if viewport_offset c = 0 then
        (let current_len = log_lens c ! current_log_index c;
             used0 = (if log_count c < height then log_count c else height);
             used_lines = (if used0 = 0 then 1 else used0)
         in c\<lparr>row := content_row0 c + used_lines - 1,
               col := content_col0 c + (if current_len < width then current_len else width - 1)\<rparr>)
      else c\<lparr>row := content_row0 c + height - 1, col := content_col0 c\<rparr>)"

definition log_reset :: "console_state \<Rightarrow> console_state" where
  "log_reset c = c\<lparr>log_lines := replicate LOG_LINES (replicate LOG_LINE_MAX NUL),
     log_lens := replicate LOG_LINES 0, log_start := 0, log_count := 1, viewport_offset := 0\<rparr>"

text \<open>\<open>log_lens[idx] = 0; log_lines[idx][0] = '\0';\<close>\<close>

definition clear_line :: "nat \<Rightarrow> console_state \<Rightarrow> console_state" where
  "clear_line idx c = c\<lparr>log_lens := (log_lens c)[idx := 0],
     log_lines := (log_lines c)[idx := (log_lines c ! idx)[0 := NUL]]\<rparr>"

definition log_newline :: "console_state \<Rightarrow> console_state" where
  "log_newline c0 =
     (let c = c0\<lparr>viewport_offset := 0\<rparr> in
      if log_count c < LOG_LINES then
        (let idx = (log_start c + log_count c) mod LOG_LINES
         in clear_line idx (c\<lparr>log_count := log_count c + 1\<rparr>))
      else
        (let c1 = c\<lparr>log_start := (log_start c + 1) mod LOG_LINES\<rparr>
         in clear_line (current_log_index c1) c1))"

text \<open>\<open>log_lines[idx][pos] = ch; log_lens[idx] = pos + 1; log_lines[idx][pos + 1] = '\0';\<close>\<close>

definition set_char :: "nat \<Rightarrow> nat \<Rightarrow> char \<Rightarrow> console_state \<Rightarrow> console_state" where
  "set_char idx pos ch c = c\<lparr>log_lens := (log_lens c)[idx := pos + 1],
     log_lines := (log_lines c)[idx := (log_lines c ! idx)[pos := ch, pos + 1 := NUL]]\<rparr>"

definition log_put_char :: "char \<Rightarrow> console_state \<Rightarrow> console_state" where
  "log_put_char ch c =
     (let idx = current_log_index c; width = visible_width c;
          c1 = (if log_lens c ! idx \<ge> width then log_newline c
                else if log_lens c ! idx = width - 1 then
                  log_newline (if width > 3 then set_char idx (width - 2) CHR 0x5C c else c)
                else c);
          idx1 = current_log_index c1
      in if log_lens c1 ! idx1 + 1 < LOG_LINE_MAX
         then set_char idx1 (log_lens c1 ! idx1) ch c1 else c1)"

definition console_clear :: "console_state \<Rightarrow> console_state" where
  "console_clear c = render_output (log_reset c)"

definition console_init :: "console_state \<Rightarrow> console_state" where
  "console_init c = log_reset (c\<lparr>row := 0, col := 0\<rparr>)"

definition console_putc :: "char \<Rightarrow> console_state \<Rightarrow> console_state" where
  "console_putc ch c = render_output
     (if ch = LF then log_newline c
      else if ch = CHR 0x0D then clear_line (current_log_index c) c
      else if ch = CHR 0x08 then
        (let idx = current_log_index c in
         if log_lens c ! idx > 0 then
           (let n = log_lens c ! idx - 1 in
            c\<lparr>log_lens := (log_lens c)[idx := n],
              log_lines := (log_lines c)[idx := (log_lines c ! idx)[n := NUL]]\<rparr>)
         else c)
      else log_put_char ch c)"

definition console_write :: "char list \<Rightarrow> console_state \<Rightarrow> console_state" where
  "console_write s c = fold console_putc (c_str s) c"

definition console_set_gui :: "bool \<Rightarrow> console_state \<Rightarrow> console_state" where
  "console_set_gui enabled c = render_output (c\<lparr>gui_mode := enabled, viewport_offset := 0\<rparr>)"

definition console_scroll :: "int \<Rightarrow> console_state \<Rightarrow> console_state" where
  "console_scroll delta c =
     (let max_offset = max_viewport_offset c in
      render_output
        (if delta < 0 then
           (let amount = nat (- delta) in
            if viewport_offset c + amount > max_offset then c\<lparr>viewport_offset := max_offset\<rparr>
            else c\<lparr>viewport_offset := viewport_offset c + amount\<rparr>)
         else if delta > 0 then
           (let amount = nat delta in
            if amount > viewport_offset c then c\<lparr>viewport_offset := 0\<rparr>
            else c\<lparr>viewport_offset := viewport_offset c - amount\<rparr>)
         else c))"

definition console_scroll_top :: "console_state \<Rightarrow> console_state" where
  "console_scroll_top c = render_output (c\<lparr>viewport_offset := max_viewport_offset c\<rparr>)"

definition console_scroll_bottom :: "console_state \<Rightarrow> console_state" where
  "console_scroll_bottom c = render_output (c\<lparr>viewport_offset := 0\<rparr>)"

text \<open>The static initial values, before \<open>console_init\<close>.\<close>

definition console_boot :: console_state where
  "console_boot = \<lparr>gui_mode = True, log_lines = replicate LOG_LINES (replicate LOG_LINE_MAX NUL),
     log_lens = replicate LOG_LINES 0, log_start = 0, log_count = 0, viewport_offset = 0,
     row = 0, col = 0\<rparr>"

subsection \<open>Invariant and abstract view\<close>

definition console_inv :: "console_state \<Rightarrow> bool" where
  "console_inv c \<longleftrightarrow>
     length (log_lines c) = LOG_LINES \<and> length (log_lens c) = LOG_LINES \<and>
     list_all (\<lambda>l. length l = LOG_LINE_MAX) (log_lines c) \<and>
     list_all (\<lambda>n. n \<le> SCREEN_W) (log_lens c) \<and>
     log_start c < LOG_LINES \<and> 1 \<le> log_count c \<and> log_count c \<le> LOG_LINES \<and>
     viewport_offset c \<le> max_viewport_offset c"

text \<open>The text of every stored line, and the lines of the log in reading order.\<close>

definition line_texts :: "console_state \<Rightarrow> char list list" where
  "line_texts c = map (\<lambda>(n, l). take n l) (zip (log_lens c) (log_lines c))"

definition log_view :: "console_state \<Rightarrow> char list list" where
  "log_view c = ring_list LOG_LINES (line_texts c) (log_start c) (log_count c)"

text \<open>The abstract terminal: operations on the list of lines.\<close>

definition view_newline :: "char list list \<Rightarrow> char list list" where
  "view_newline v = (if length v < LOG_LINES then v else tl v) @ [[]]"

definition view_snoc :: "char list list \<Rightarrow> char \<Rightarrow> char list list" where
  "view_snoc v ch = butlast v @ [last v @ [ch]]"

definition view_put :: "nat \<Rightarrow> char list list \<Rightarrow> char \<Rightarrow> char list list" where
  "view_put width v ch =
     (if length (last v) \<ge> width then view_snoc (view_newline v) ch
      else if length (last v) = width - 1 then
        view_snoc (view_newline (butlast v @ [take (width - 2) (last v) @ [CHR 0x5C]])) ch
      else view_snoc v ch)"

definition view_putc :: "nat \<Rightarrow> char list list \<Rightarrow> char \<Rightarrow> char list list" where
  "view_putc width v ch =
     (if ch = LF then view_newline v
      else if ch = CHR 0x0D then butlast v @ [[]]
      else if ch = CHR 0x08 then butlast v @ [butlast (last v)]
      else view_put width v ch)"

section \<open>Lemmas\<close>

lemma visible_width_bounds: "73 \<le> visible_width c" "visible_width c \<le> 80"
  by (simp_all add: visible_width_def console_consts)

lemma render_output_fields [simp]:
  "gui_mode (render_output c) = gui_mode c" "log_lines (render_output c) = log_lines c"
  "log_lens (render_output c) = log_lens c" "log_start (render_output c) = log_start c"
  "log_count (render_output c) = log_count c"
  "viewport_offset (render_output c) = viewport_offset c"
  by (simp_all add: render_output_def Let_def)

lemma render_output_view [simp]:
  "console_inv (render_output c) = console_inv c" "log_view (render_output c) = log_view c"
  by (simp_all add: console_inv_def max_viewport_offset_def visible_height_def log_view_def
      line_texts_def)

lemma console_inv_lens:
  assumes "console_inv c" and "i < LOG_LINES"
  shows "log_lens c ! i \<le> 80" and "length (log_lines c ! i) = 160"
  using assms by (auto simp: console_inv_def list_all_length console_consts)

lemma current_log_index_less [simp]: "current_log_index c < LOG_LINES"
  by (simp add: current_log_index_def console_consts)

lemma line_texts_length: "console_inv c \<Longrightarrow> length (line_texts c) = LOG_LINES"
  by (simp add: console_inv_def line_texts_def)

lemma line_texts_nth:
  assumes "console_inv c" and "i < LOG_LINES"
  shows "line_texts c ! i = take (log_lens c ! i) (log_lines c ! i)"
    and "length (line_texts c ! i) = log_lens c ! i"
proof -
  show *: "line_texts c ! i = take (log_lens c ! i) (log_lines c ! i)"
    using assms by (simp add: line_texts_def console_inv_def)
  show "length (line_texts c ! i) = log_lens c ! i"
    using console_inv_lens [OF assms] by (simp add: *)
qed

lemma line_texts_update:
  assumes "length (log_lens c) = length (log_lines c)"
  shows "line_texts (c\<lparr>log_lens := (log_lens c)[i := n], log_lines := (log_lines c)[i := l]\<rparr>)
    = (line_texts c)[i := take n l]"
  using assms by (simp add: line_texts_def zip_update map_update)

lemma length_log_view [simp]: "length (log_view c) = log_count c"
  by (simp add: log_view_def)

lemma log_view_split:
  assumes "console_inv c"
  shows "log_view c =
      ring_list LOG_LINES (line_texts c) (log_start c) (log_count c - 1)
      @ [line_texts c ! current_log_index c]"
proof -
  obtain k where k: "log_count c = Suc k" using assms by (cases "log_count c") (auto simp: console_inv_def)
  then show ?thesis by (simp add: log_view_def ring_list_Suc current_log_index_def)
qed

lemma log_view_last:
  assumes "console_inv c"
  shows "last (log_view c) = line_texts c ! current_log_index c"
    and "length (last (log_view c)) = log_lens c ! current_log_index c"
  using log_view_split [OF assms] line_texts_nth(2) [OF assms] by simp_all

text \<open>Changing the current line in place.\<close>

lemma ring_list_update_last:
  assumes "length buf = cap" and "0 < n" and "n \<le> cap"
  shows "ring_list cap (buf[(head + n - 1) mod cap := x]) head n
    = butlast (ring_list cap buf head n) @ [x]"
proof -
  obtain k where k: "n = Suc k" using assms(2) by (cases n) auto
  have "ring_list cap (buf[(head + k) mod cap := x]) head (Suc k) = ring_list cap buf head k @ [x]"
    using assms k by (intro ring_list_push) simp_all
  then show ?thesis by (simp add: k ring_list_Suc [of cap buf])
qed

lemma log_view_set_current:
  assumes inv: "console_inv c" and i: "i = current_log_index c"
  shows "log_view (c\<lparr>log_lens := (log_lens c)[i := n], log_lines := (log_lines c)[i := l]\<rparr>)
    = butlast (log_view c) @ [take n l]"
proof -
  have "length (log_lens c) = length (log_lines c)" using inv by (simp add: console_inv_def)
  then have "log_view (c\<lparr>log_lens := (log_lens c)[i := n], log_lines := (log_lines c)[i := l]\<rparr>)
    = ring_list LOG_LINES ((line_texts c)[i := take n l]) (log_start c) (log_count c)"
    by (simp add: log_view_def line_texts_update)
  also have "\<dots> = butlast (log_view c) @ [take n l]"
    unfolding log_view_def i current_log_index_def
    by (rule ring_list_update_last) (use inv in \<open>auto simp: line_texts_length console_inv_def\<close>)
  finally show ?thesis .
qed

lemma console_inv_set_current:
  assumes "console_inv c" and "n \<le> 80" and "length l = 160"
  shows "console_inv (c\<lparr>log_lens := (log_lens c)[i := n], log_lines := (log_lines c)[i := l]\<rparr>)"
  using assms
  by (auto simp: console_inv_def max_viewport_offset_def visible_height_def console_consts
      intro!: list_all_update)

text \<open>A new line.\<close>

lemma clear_line_inv: "console_inv c \<Longrightarrow> i < LOG_LINES \<Longrightarrow> console_inv (clear_line i c)"
  unfolding clear_line_def
  by (rule console_inv_set_current) (simp_all add: console_inv_lens(2) [simplified])

lemma log_newline_inv:
  assumes inv: "console_inv c"
  shows "console_inv (log_newline c)"
proof (cases "log_count c < LOG_LINES")
  case True
  then have "console_inv (c\<lparr>viewport_offset := 0, log_count := log_count c + 1\<rparr>)"
    using inv by (simp add: console_inv_def)
  with True show ?thesis
    by (simp add: log_newline_def Let_def clear_line_inv console_consts)
next
  case False
  have "console_inv (c\<lparr>viewport_offset := 0, log_start := (log_start c + 1) mod LOG_LINES\<rparr>)"
    using inv by (simp add: console_inv_def console_consts)
  with False show ?thesis
    by (simp add: log_newline_def Let_def clear_line_inv)
qed

lemma line_texts_clear:
  assumes "length (log_lens c) = length (log_lines c)"
  shows "line_texts (clear_line i c) = (line_texts c)[i := []]"
  using line_texts_update [OF assms, where i = i and n = 0 and l = "(log_lines c ! i)[0 := NUL]"]
  by (simp add: clear_line_def line_texts_def)

lemma clear_line_fields [simp]:
  "log_start (clear_line i c) = log_start c" "log_count (clear_line i c) = log_count c"
  "gui_mode (clear_line i c) = gui_mode c"
  by (simp_all add: clear_line_def)

lemma line_texts_other_fields [simp]:
  "line_texts (c\<lparr>viewport_offset := v\<rparr>) = line_texts c"
  "line_texts (c\<lparr>log_count := v\<rparr>) = line_texts c"
  "line_texts (c\<lparr>log_start := v\<rparr>) = line_texts c"
  by (simp_all add: line_texts_def)

lemma ring_list_rotate_full:
  assumes "length buf = Suc k"
  shows "ring_list (Suc k) (buf[(h + k) mod Suc k := x]) (h mod Suc k) (Suc k)
    = ring_list (Suc k) buf h k @ [x]"
  using ring_list_push [of k "Suc k" buf h x] assms by (simp add: ring_list_head_mod)

lemma tl_ring_list:
  "tl (ring_list (Suc k) buf h (Suc n)) = ring_list (Suc k) buf (h + 1) n"
  using ring_list_head_mod [of "Suc k" buf "h + 1" n] by (simp only: ring_list_pop zero_less_Suc list.sel)

lemma log_newline_view:
  assumes inv: "console_inv c"
  shows "log_view (log_newline c) = view_newline (log_view c)"
proof -
  have len: "length (log_lens c) = length (log_lines c)" and lt: "length (line_texts c) = LOG_LINES"
    using inv by (simp_all add: console_inv_def line_texts_def)
  show ?thesis
  proof (cases "log_count c < LOG_LINES")
    case True
    then show ?thesis
      using len lt by (simp add: log_newline_def Let_def view_newline_def log_view_def
          line_texts_clear ring_list_push)
  next
    case False
    then have full: "log_count c = Suc 511" "LOG_LINES = Suc 511"
      using inv by (simp_all add: console_inv_def console_consts)
    have pop: "tl (log_view c) = ring_list (Suc 511) (line_texts c) (log_start c + 1) 511"
      unfolding log_view_def full by (rule tl_ring_list)
    have idx: "((s + 1) mod Suc 511 + Suc 511 - 1) mod Suc 511 = (s + 1 + 511) mod Suc 511" for s
      by (simp add: mod_simps)
    have "log_view (log_newline c) = ring_list (Suc 511)
        ((line_texts c)[(log_start c + 1 + 511) mod Suc 511 := []])
        ((log_start c + 1) mod Suc 511) (Suc 511)"
      using False len unfolding log_newline_def Let_def log_view_def current_log_index_def full
      by (simp add: line_texts_clear full(1) idx [simplified])
    also have "\<dots> = ring_list (Suc 511) (line_texts c) (log_start c + 1) 511 @ [[]]"
      by (rule ring_list_rotate_full) (use lt full(2) in simp)
    finally show ?thesis using False by (simp add: view_newline_def pop)
  qed
qed

text \<open>Writing one character at the end of the current line.\<close>

lemma take_update_snoc:
  assumes "n < length l" shows "take (Suc n) (l[n := x, Suc n := y]) = take n l @ [x]"
proof -
  have "take (Suc n) (l[n := x, Suc n := y]) = take (Suc n) (l[n := x])"
    by (simp add: take_update_swap [symmetric])
  then show ?thesis using assms by (simp add: take_Suc_conv_app_nth)
qed

lemma set_char_current:
  assumes inv: "console_inv c" and i: "i = current_log_index c" and p: "p < 80"
  shows "console_inv (set_char i p ch c)"
    and "log_view (set_char i p ch c)
      = butlast (log_view c) @ [take p (log_lines c ! current_log_index c) @ [ch]]"
proof -
  have len: "length (log_lines c ! i) = 160" using console_inv_lens(2) [OF inv] i by simp
  show "console_inv (set_char i p ch c)"
    unfolding set_char_def using inv p len by (intro console_inv_set_current) simp_all
  have "take (p + 1) ((log_lines c ! i)[p := ch, p + 1 := NUL]) = take p (log_lines c ! i) @ [ch]"
    using take_update_snoc [of p "log_lines c ! i" ch NUL] len p by simp
  then show "log_view (set_char i p ch c)
      = butlast (log_view c) @ [take p (log_lines c ! current_log_index c) @ [ch]]"
    unfolding set_char_def log_view_set_current [OF inv i] using i by simp
qed

lemma append_current:
  assumes inv: "console_inv c" and n: "log_lens c ! current_log_index c < 80"
  shows "console_inv (set_char (current_log_index c) (log_lens c ! current_log_index c) ch c)"
    and "log_view (set_char (current_log_index c) (log_lens c ! current_log_index c) ch c)
      = view_snoc (log_view c) ch"
  using set_char_current [OF inv refl n, of ch] log_view_last [OF inv]
    line_texts_nth(1) [OF inv, of "current_log_index c"]
  by (simp_all add: view_snoc_def)

lemma log_newline_current:
  assumes inv: "console_inv c"
  shows "log_lens (log_newline c) ! current_log_index (log_newline c) = 0"
proof -
  have "length (last (log_view (log_newline c))) = 0"
    by (simp add: log_newline_view [OF inv] view_newline_def)
  then show ?thesis using log_view_last(2) [OF log_newline_inv [OF inv]] by simp
qed

lemma log_newline_fields [simp]: "gui_mode (log_newline c) = gui_mode c"
  by (simp add: log_newline_def Let_def)

lemma set_char_fields [simp]:
  "gui_mode (set_char i p ch c) = gui_mode c"
  "current_log_index (set_char i p ch c) = current_log_index c"
  by (simp_all add: set_char_def current_log_index_def)

lemma newline_append:
  assumes inv: "console_inv c"
  defines "c1 \<equiv> log_newline c"
  shows "console_inv (set_char (current_log_index c1) (log_lens c1 ! current_log_index c1) ch c1)"
    and "log_view (set_char (current_log_index c1) (log_lens c1 ! current_log_index c1) ch c1)
      = view_snoc (view_newline (log_view c)) ch"
  using append_current [OF log_newline_inv [OF inv]] log_newline_current [OF inv]
    log_newline_view [OF inv] by (simp_all add: c1_def)

lemma log_put_char_refines:
  assumes inv: "console_inv c"
  shows "console_inv (log_put_char ch c)"
    and "log_view (log_put_char ch c) = view_put (visible_width c) (log_view c) ch"
proof -
  let ?i = "current_log_index c" and ?w = "visible_width c"
  let ?n = "log_lens c ! ?i"
  have n: "?n \<le> 80" using console_inv_lens(1) [OF inv] by simp
  have last: "length (last (log_view c)) = ?n" by (rule log_view_last(2) [OF inv])
  have cur: "last (log_view c) = take ?n (log_lines c ! ?i)"
    using log_view_last(1) [OF inv] line_texts_nth(1) [OF inv] by simp
  have w: "73 \<le> ?w" "?w \<le> 80" by (rule visible_width_bounds)+
  consider (full) "?w \<le> ?n" | (mark) "?n = ?w - 1" | (room) "?n < ?w - 1" by linarith
  then have "console_inv (log_put_char ch c) \<and>
    log_view (log_put_char ch c) = view_put ?w (log_view c) ch"
  proof cases
    case full
    then show ?thesis
      using newline_append [OF inv, of ch] log_newline_current [OF inv]
      by (simp add: log_put_char_def Let_def view_put_def last console_consts)
  next
    case mark
    let ?c1 = "set_char ?i (?w - 2) CHR 0x5C c"
    have "take (?w - 2) (log_lines c ! ?i) = take (?w - 2) (last (log_view c))"
      using cur mark w by (simp add: min_def)
    with set_char_current [OF inv refl, of "?w - 2" "CHR 0x5C"] w
    have c1: "console_inv ?c1"
      "log_view ?c1 = butlast (log_view c) @ [take (?w - 2) (last (log_view c)) @ [CHR 0x5C]]"
      by simp_all
    let ?c2 = "log_newline ?c1"
    have nn: "\<not> ?w \<le> ?n" "3 < ?w" using mark w by linarith+
    have "log_put_char ch c = set_char (current_log_index ?c2) (log_lens ?c2 ! current_log_index ?c2) ch ?c2"
      unfolding log_put_char_def Let_def using nn mark log_newline_current [OF c1(1)]
      by (simp only: if_False if_True console_consts) simp
    moreover have "view_put ?w (log_view c) ch = view_snoc (view_newline (log_view ?c1)) ch"
      unfolding view_put_def c1(2) using nn mark last by (simp only: if_False if_True simp_thms)
    ultimately show ?thesis using newline_append [OF c1(1), of ch] by simp
  next
    case room
    then have nn: "\<not> ?w \<le> ?n" "?n \<noteq> ?w - 1" "?n < 80" "?n + 1 < LOG_LINE_MAX"
      using w by (simp_all add: console_consts)
    then have "log_put_char ch c = set_char ?i ?n ch c"
      by (simp add: log_put_char_def Let_def)
    moreover have "view_put ?w (log_view c) ch = view_snoc (log_view c) ch"
      using nn last by (simp add: view_put_def)
    ultimately show ?thesis using append_current [OF inv nn(3), of ch] by simp
  qed
  then show "console_inv (log_put_char ch c)"
    and "log_view (log_put_char ch c) = view_put ?w (log_view c) ch" by blast+
qed

lemma clear_line_current:
  assumes inv: "console_inv c"
  shows "console_inv (clear_line (current_log_index c) c)"
    and "log_view (clear_line (current_log_index c) c) = butlast (log_view c) @ [[]]"
  unfolding clear_line_def
  using console_inv_set_current [OF inv] log_view_set_current [OF inv refl] console_inv_lens [OF inv]
  by simp_all

lemma backspace_current:
  assumes inv: "console_inv c"
  defines "i \<equiv> current_log_index c"
  defines "n \<equiv> log_lens c ! i - 1"
  defines "c1 \<equiv> c\<lparr>log_lens := (log_lens c)[i := n], log_lines := (log_lines c)[i := (log_lines c ! i)[n := NUL]]\<rparr>"
  shows "console_inv c1" and "log_view c1 = butlast (log_view c) @ [butlast (last (log_view c))]"
proof -
  have b: "log_lens c ! i \<le> 80" "length (log_lines c ! i) = 160"
    using console_inv_lens [OF inv] by (simp_all add: i_def)
  show "console_inv c1"
    unfolding c1_def using b by (intro console_inv_set_current [OF inv]) (simp_all add: n_def)
  have "last (log_view c) = take (log_lens c ! i) (log_lines c ! i)"
    using log_view_last(1) [OF inv] line_texts_nth(1) [OF inv] by (simp add: i_def)
  then have "butlast (last (log_view c)) = take n (log_lines c ! i)"
    using b by (simp add: butlast_take n_def min_def)
  then show "log_view c1 = butlast (log_view c) @ [butlast (last (log_view c))]"
    unfolding c1_def by (subst log_view_set_current [OF inv i_def [THEN meta_eq_to_obj_eq]]) simp
qed

lemma render_output_cursor:
  shows "row (render_output c) < SCREEN_H" and "col (render_output c) < SCREEN_W"
  by (auto simp: render_output_def Let_def content_row0_def content_col0_def visible_height_def
      visible_width_def console_consts)

lemma set_viewport_max [simp]: "max_viewport_offset (c\<lparr>viewport_offset := n\<rparr>) = max_viewport_offset c"
  by (simp add: max_viewport_offset_def visible_height_def)

lemma set_viewport_inv:
  "console_inv c \<Longrightarrow> n \<le> max_viewport_offset c \<Longrightarrow> console_inv (c\<lparr>viewport_offset := n\<rparr>)"
  by (simp add: console_inv_def)

lemma console_scroll_inv:
  assumes inv: "console_inv c"
  shows "console_inv (console_scroll delta c)" and "console_inv (console_scroll_top c)"
    and "console_inv (console_scroll_bottom c)" and "console_inv (console_set_gui b c)"
proof -
  have v: "viewport_offset c \<le> max_viewport_offset c" using inv by (simp add: console_inv_def)
  show "console_inv (console_scroll delta c)"
    using v set_viewport_inv [OF inv] inv by (simp add: console_scroll_def Let_def)
  show "console_inv (console_scroll_top c)" and "console_inv (console_scroll_bottom c)"
    using set_viewport_inv [OF inv] by (simp_all add: console_scroll_top_def console_scroll_bottom_def)
  show "console_inv (console_set_gui b c)"
    using inv by (simp add: console_set_gui_def console_inv_def)
qed

lemma console_putc_step:
  assumes inv: "console_inv c"
  shows "console_inv (console_putc ch c)"
    and "log_view (console_putc ch c) = view_putc (visible_width c) (log_view c) ch"
proof -
  let ?i = "current_log_index c"
  have empty: "log_lens c ! ?i = 0 \<Longrightarrow> last (log_view c) = []"
    using log_view_last(2) [OF inv] by simp
  have ne: "log_view c \<noteq> []"
    using inv length_log_view [of c] by (auto simp: console_inv_def simp del: length_log_view)
  then have id: "log_lens c ! ?i = 0 \<Longrightarrow> butlast (log_view c) @ [butlast (last (log_view c))] = log_view c"
    using empty by (metis append_butlast_last_id butlast.simps(1))
  show "console_inv (console_putc ch c)"
    using log_newline_inv [OF inv] clear_line_current(1) [OF inv] backspace_current(1) [OF inv]
      log_put_char_refines(1) [OF inv] inv
    by (simp add: console_putc_def Let_def)
  show "log_view (console_putc ch c) = view_putc (visible_width c) (log_view c) ch"
    using log_newline_view [OF inv] clear_line_current(2) [OF inv] backspace_current(2) [OF inv]
      log_put_char_refines(2) [OF inv] id
    by (simp add: console_putc_def view_putc_def Let_def)
qed

lemma console_putc_width [simp]: "visible_width (console_putc ch c) = visible_width c"
  by (simp add: visible_width_def console_putc_def log_put_char_def Let_def)

lemma console_putc_short:
  assumes "console_inv c" and "\<forall>ch \<in> set cs. ch \<notin> {LF, CHR 0x0D, CHR 0x08}"
    and "length (last (log_view c)) + length cs \<le> visible_width c - 1" and "log_view c \<noteq> []"
  shows "console_inv (fold console_putc cs c) \<and>
    visible_width (fold console_putc cs c) = visible_width c \<and>
    log_view (fold console_putc cs c) = butlast (log_view c) @ [last (log_view c) @ cs]"
  using assms
proof (induction cs arbitrary: c)
  case Nil
  then show ?case by simp
next
  case (Cons ch cs)
  have "log_view (console_putc ch c) = view_snoc (log_view c) ch"
  proof -
    have "\<not> visible_width c \<le> length (last (log_view c))"
      and "length (last (log_view c)) \<noteq> visible_width c - 1"
      using Cons.prems(3) visible_width_bounds [of c] by simp_all
    then show ?thesis
      using console_putc_step(2) [OF Cons.prems(1), of ch] Cons.prems(2)
      by (simp add: view_putc_def view_put_def)
  qed
  then show ?case
    using Cons.IH [of "console_putc ch c"] Cons.prems console_putc_step(1) [OF Cons.prems(1), of ch]
    by (simp add: view_snoc_def)
qed

lemma console_pos [simp]: "0 < LOG_LINES" "0 < LOG_LINE_MAX"
  by (simp_all add: console_consts)

lemma console_init_view:
  "console_inv (console_init c)" "log_view (console_init c) = [[]]"
proof -
  have texts: "line_texts (console_init c) = replicate LOG_LINES []"
    by (simp add: console_init_def log_reset_def line_texts_def)
  then show "log_view (console_init c) = [[]]"
    by (simp add: log_view_def ring_list_def) (simp add: console_init_def log_reset_def)
  show "console_inv (console_init c)"
    by (simp add: console_init_def log_reset_def console_inv_def list_all_iff max_viewport_offset_def
        Suc_le_eq)
qed

lemma console_init_fields [simp]:
  "gui_mode (console_init c) = gui_mode c" "log_count (console_init c) = 1"
  "viewport_offset (console_init c) = 0" "visible_width (console_init c) = visible_width c"
  by (simp_all add: console_init_def log_reset_def visible_width_def)

section \<open>Properties\<close>

text \<open>C32: \<open>console_putc\<close> implements a terminal on a list of at most 512 lines: line feed
  opens a line and drops the oldest one when the log is full, carriage return and backspace edit
  the current line, any other character is appended with wrapping at the visible width; the
  array bounds, the ring indices and the scroll position stay valid.\<close>

theorem console_putc_refines:
  assumes "console_inv c"
  shows "console_inv (console_putc ch c) \<and>
    log_view (console_putc ch c) = view_putc (visible_width c) (log_view c) ch"
  using console_putc_step [OF assms] by blast

theorem console_putc_refines_witness:
  "log_view (console_putc CHR ''a'' (console_init console_boot)) = [''a'']"
  using console_putc_refines [OF console_init_view(1), of "CHR ''a''" console_boot]
    visible_width_bounds [of "console_init console_boot"]
  by (simp add: console_init_view view_putc_def view_put_def view_snoc_def)

text \<open>When the current line is one short of the visible width, the next ordinary character
  does not only move to a new line: the continuation mark overwrites the last character already
  on the line, which is lost from the log.\<close>

theorem console_wrap_overwrites:
  assumes inv: "console_inv c" and room: "length (log_view c) < LOG_LINES"
    and len: "length (last (log_view c)) = visible_width c - 1"
    and ch: "ch \<notin> {LF, CHR 0x0D, CHR 0x08}"
  shows "log_view (console_putc ch c)
    = butlast (log_view c) @ [butlast (last (log_view c)) @ [CHR 0x5C], [ch]]"
proof -
  have w: "73 \<le> visible_width c" by (rule visible_width_bounds)
  then have "take (visible_width c - 2) (last (log_view c)) = butlast (last (log_view c))"
    using len by (simp add: butlast_conv_take numeral_2_eq_2)
  moreover have "\<not> visible_width c \<le> visible_width c - 1" using w by linarith
  moreover have "Suc (log_count c - 1) < LOG_LINES"
    using room inv by (simp add: console_inv_def)
  ultimately show ?thesis
    using console_putc_step(2) [OF inv, of ch] ch len
    by (simp add: view_putc_def view_put_def view_newline_def view_snoc_def butlast_append)
qed

theorem console_wrap_overwrites_witness:
  "log_view (console_putc CHR ''b'' (fold console_putc (replicate 72 CHR ''a'') (console_init console_boot)))
     = [replicate 71 CHR ''a'' @ [CHR 0x5C], ''b'']"
proof -
  let ?ini = "console_init console_boot"
  let ?c = "fold console_putc (replicate 72 CHR ''a'') ?ini"
  have w: "visible_width ?ini = 73"
    by (simp add: visible_width_def console_boot_def GUI_RIGHT_def GUI_LEFT_def)
  then have c: "console_inv ?c" "visible_width ?c = 73" "log_view ?c = [replicate 72 CHR ''a'']"
    using console_putc_short [OF console_init_view(1), of "replicate 72 CHR ''a''" console_boot]
    by (simp_all add: console_init_view del: fold_replicate)
  have "butlast (replicate 72 CHR ''a'') = replicate 71 CHR ''a''"
    by (simp add: butlast_conv_take)
  then show ?thesis
    using console_wrap_overwrites [OF c(1), of "CHR ''b''"] c(2,3) unfolding c(3)
    by (simp add: LOG_LINES_def length_log_view [symmetric] del: length_log_view fold_replicate)
qed

text \<open>Scrolling keeps the console valid for any step, never moves the view past the first
  or the last stored line, and leaves the hardware cursor on the screen.\<close>

theorem console_scroll_safe:
  assumes "console_inv c"
  shows "console_inv (console_scroll delta c) \<and>
    viewport_offset (console_scroll delta c) =
      nat (max 0 (min (int (max_viewport_offset c)) (int (viewport_offset c) - delta))) \<and>
    (row (console_scroll delta c) < SCREEN_H \<and> col (console_scroll delta c) < SCREEN_W)"
proof (intro conjI [of "console_inv _"] conjI [of "viewport_offset _ = _"])
  show "console_inv (console_scroll delta c)" using assms by (rule console_scroll_inv)
  show "viewport_offset (console_scroll delta c) =
      nat (max 0 (min (int (max_viewport_offset c)) (int (viewport_offset c) - delta)))"
    using assms by (auto simp: console_scroll_def Let_def console_inv_def max_def min_def)
  show "row (console_scroll delta c) < SCREEN_H \<and> col (console_scroll delta c) < SCREEN_W"
    by (simp add: console_scroll_def Let_def render_output_cursor)
qed

theorem console_scroll_safe_witness:
  "viewport_offset (console_scroll (-5) (console_init console_boot)) = 0"
  using console_scroll_safe [OF console_init_view(1), of "-5" console_boot]
  by (simp add: max_viewport_offset_def visible_height_def console_consts)

end
