(* ===== verification/Elf.thy ===== *)
theory Elf
  imports Prelude
begin

text \<open>
  The ELF parser of \<open>kernel/elf.c\<close>.  An image is the byte list of the caller's buffer of
  \<open>size\<close> bytes; header fields are read at their packed offsets.  The result distinguishes the
  parser's error return (\<open>Elf_Reject\<close>) from a read outside the buffer (\<open>Elf_OOB\<close>), which the
  C code does not notice.  The theory shows when such a read is impossible, what a parsed image
  says about its loadable segments, and that the parser's own bound check can wrap around.
\<close>

section \<open>Definitions\<close>

definition ELF_MACHINE_X86_64 :: u16 where "ELF_MACHINE_X86_64 = 62"
definition EHDR_SIZE :: nat where "EHDR_SIZE = 64"
definition PHDR_SIZE :: nat where "PHDR_SIZE = 56"

record elf64_phdr =
  ph_type :: u32
  ph_flags :: u32
  ph_offset :: u64
  ph_vaddr :: u64
  ph_paddr :: u64
  ph_filesz :: u64
  ph_memsz :: u64
  ph_align :: u64

record elf64_ehdr =
  eh_ident :: "u8 list"
  eh_type :: u16
  eh_machine :: u16
  eh_version :: u32
  eh_entry :: u64
  eh_phoff :: u64
  eh_shoff :: u64
  eh_flags :: u32
  eh_ehsize :: u16
  eh_phentsize :: u16
  eh_phnum :: u16
  eh_shentsize :: u16
  eh_shnum :: u16
  eh_shstrndx :: u16

record elf_info =
  ei_type :: u16
  ei_machine :: u16
  ei_phnum :: u16
  ei_entry :: u64
  ei_first_vaddr :: u64
  ei_last_vaddr :: u64
  ei_load_offset :: u64
  ei_load_filesz :: u64
  ei_load_memsz :: u64

datatype elf_result = Elf_Reject | Elf_OOB | Elf_Parsed elf_info

text \<open>The packed layouts.\<close>

definition read_ehdr :: "u8 list \<Rightarrow> elf64_ehdr" where
  "read_ehdr m = \<lparr>eh_ident = take 16 m, eh_type = get16 m 16, eh_machine = get16 m 18,
     eh_version = get32 m 20, eh_entry = get64 m 24, eh_phoff = get64 m 32,
     eh_shoff = get64 m 40, eh_flags = get32 m 48, eh_ehsize = get16 m 52,
     eh_phentsize = get16 m 54, eh_phnum = get16 m 56, eh_shentsize = get16 m 58,
     eh_shnum = get16 m 60, eh_shstrndx = get16 m 62\<rparr>"

definition write_ehdr :: "elf64_ehdr \<Rightarrow> u8 list" where
  "write_ehdr h = eh_ident h @ put16 (eh_type h) @ put16 (eh_machine h) @ put32 (eh_version h) @
     put64 (eh_entry h) @ put64 (eh_phoff h) @ put64 (eh_shoff h) @ put32 (eh_flags h) @
     put16 (eh_ehsize h) @ put16 (eh_phentsize h) @ put16 (eh_phnum h) @ put16 (eh_shentsize h) @
     put16 (eh_shnum h) @ put16 (eh_shstrndx h)"

definition read_phdr :: "u8 list \<Rightarrow> elf64_phdr" where
  "read_phdr m = \<lparr>ph_type = get32 m 0, ph_flags = get32 m 4, ph_offset = get64 m 8,
     ph_vaddr = get64 m 16, ph_paddr = get64 m 24, ph_filesz = get64 m 32,
     ph_memsz = get64 m 40, ph_align = get64 m 48\<rparr>"

definition write_phdr :: "elf64_phdr \<Rightarrow> u8 list" where
  "write_phdr p = put32 (ph_type p) @ put32 (ph_flags p) @ put64 (ph_offset p) @
     put64 (ph_vaddr p) @ put64 (ph_paddr p) @ put64 (ph_filesz p) @ put64 (ph_memsz p) @
     put64 (ph_align p)"

text \<open>
  \<open>phdr[i]\<close>, read through the pointer \<open>image + phoff\<close>; \<open>None\<close> when the entry is not inside
  the buffer.
\<close>

definition phdr_at :: "u8 list \<Rightarrow> u64 \<Rightarrow> nat \<Rightarrow> elf64_phdr option" where
  "phdr_at img phoff i =
     (let off = unat phoff + PHDR_SIZE * i in
      if off + PHDR_SIZE \<le> length img then Some (read_phdr (drop off img)) else None)"

text \<open>The loop that reads the program headers \<open>i, i + 1, \<dots>\<close>.\<close>

fun phdrs_from :: "u8 list \<Rightarrow> u64 \<Rightarrow> nat \<Rightarrow> nat \<Rightarrow> elf64_phdr list option" where
  "phdrs_from img phoff i 0 = Some []"
| "phdrs_from img phoff i (Suc n) =
     (case phdr_at img phoff i of
        None \<Rightarrow> None
      | Some p \<Rightarrow> map_option ((#) p) (phdrs_from img phoff (Suc i) n))"

text \<open>One iteration of the range loop on \<open>(first_vaddr, last_vaddr)\<close>.\<close>

definition scan_phdr :: "elf64_phdr \<Rightarrow> u64 \<times> u64 \<Rightarrow> u64 \<times> u64" where
  "scan_phdr p r =
     (if ph_type p \<noteq> 1 then r
      else (if fst r = 0 \<or> ph_vaddr p < fst r then ph_vaddr p else fst r,
            if ph_vaddr p + ph_memsz p > snd r then ph_vaddr p + ph_memsz p else snd r))"

text \<open>
  The writes to \<open>out->load_*\<close> inside the first loop are erased by the \<open>memset\<close> that follows
  it; the second loop sets them from the first segment at \<open>first_vaddr\<close>.
\<close>

definition elf_summary :: "elf64_ehdr \<Rightarrow> elf64_phdr list \<Rightarrow> elf_info" where
  "elf_summary h ps =
     (let (first, last) = fold scan_phdr ps (0, 0);
          base = \<lparr>ei_type = eh_type h, ei_machine = eh_machine h, ei_phnum = eh_phnum h,
            ei_entry = eh_entry h, ei_first_vaddr = first, ei_last_vaddr = last,
            ei_load_offset = 0, ei_load_filesz = 0, ei_load_memsz = 0\<rparr>
      in if first = 0 then base
         else (case find (\<lambda>p. ph_type p = 1 \<and> ph_vaddr p = first) ps of
            None \<Rightarrow> base
          | Some p \<Rightarrow> base\<lparr>ei_load_offset := ph_offset p, ei_load_filesz := ph_filesz p,
                          ei_load_memsz := ph_memsz p\<rparr>))"

definition elf_parse_image :: "u8 list \<Rightarrow> elf_result" where
  "elf_parse_image img =
     (if length img < EHDR_SIZE then Elf_Reject
      else
        (let h = read_ehdr img; id = eh_ident h in
         if id ! 0 \<noteq> 0x7f \<or> id ! 1 \<noteq> 0x45 \<or> id ! 2 \<noteq> 0x4c \<or> id ! 3 \<noteq> 0x46 then Elf_Reject
         else if id ! 4 \<noteq> 2 \<or> id ! 5 \<noteq> 1 then Elf_Reject
         else if eh_machine h \<noteq> ELF_MACHINE_X86_64 \<or> eh_phentsize h \<noteq> word_of_nat PHDR_SIZE then Elf_Reject
         else if eh_phoff h + ucast (eh_phnum h) * word_of_nat PHDR_SIZE > word_of_nat (length img)
         then Elf_Reject
         else
           (case phdrs_from img (eh_phoff h) 0 (unat (eh_phnum h)) of
              None \<Rightarrow> Elf_OOB
            | Some ps \<Rightarrow> Elf_Parsed (elf_summary h ps))))"

text \<open>The loadable segments.\<close>

abbreviation is_load :: "elf64_phdr \<Rightarrow> bool" where
  "is_load p \<equiv> ph_type p = 1"

section \<open>Lemmas\<close>

lemma length_write_hdr [simp, layout_simps]:
  "length (eh_ident h) = 16 \<Longrightarrow> length (write_ehdr h) = 64" "length (write_phdr p) = 56"
  by (simp_all add: write_ehdr_def write_phdr_def)

lemma read_write_phdr [layout_simps]: "read_phdr (write_phdr p @ m) = p"
  by (simp add: read_phdr_def write_phdr_def layout_simps)

lemma read_write_ehdr [layout_simps]:
  assumes "length (eh_ident h) = 16"
  shows "read_ehdr (write_ehdr h @ m) = h"
  using assms by (simp add: read_ehdr_def write_ehdr_def get_skip layout_simps)

lemma phdrs_from_Some:
  assumes "unat phoff + PHDR_SIZE * (i + n) \<le> length img"
  shows "\<exists>ps. phdrs_from img phoff i n = Some ps \<and> length ps = n"
  using assms
proof (induction n arbitrary: i)
  case 0
  then show ?case by simp
next
  case (Suc n)
  have "unat phoff + PHDR_SIZE * i + PHDR_SIZE \<le> length img"
    using Suc.prems by (simp add: PHDR_SIZE_def)
  then have "phdr_at img phoff i \<noteq> None" by (simp add: phdr_at_def Let_def)
  moreover obtain ps where "phdrs_from img phoff (Suc i) n = Some ps" "length ps = n"
    using Suc.IH [of "Suc i"] Suc.prems by (auto simp: PHDR_SIZE_def)
  ultimately show ?case by auto
qed

lemma Min_insert_min:
  fixes a b :: "'a::linorder"
  assumes "finite A" shows "Min (insert (min a b) A) = Min (insert a (insert b A))"
  using assms by (cases "A = {}") (simp_all add: min.assoc)

lemma Max_insert_max:
  fixes a b :: "'a::linorder"
  assumes "finite A" shows "Max (insert (max a b) A) = Max (insert a (insert b A))"
  using assms by (cases "A = {}") (simp_all add: max.assoc)

text \<open>The range loop computes the least start and the greatest end.\<close>

lemma fold_scan_phdr:
  assumes "\<forall>p \<in> set ps. is_load p \<longrightarrow> ph_vaddr p \<noteq> 0"
  shows "fold scan_phdr ps (f, l) =
    (let V = ph_vaddr ` {p \<in> set ps. is_load p} \<union> (if f = 0 then {} else {f});
         E = (\<lambda>p. ph_vaddr p + ph_memsz p) ` {p \<in> set ps. is_load p} \<union> {l}
     in (if V = {} then 0 else Min V, Max E))"
  using assms
proof (induction ps arbitrary: f l)
  case Nil
  then show ?case by simp
next
  case (Cons p ps)
  show ?case
  proof (cases "is_load p")
    case False
    then have "{q \<in> set (p # ps). is_load q} = {q \<in> set ps. is_load q}" by auto
    with False Cons show ?thesis by (simp add: scan_phdr_def)
  next
    case True
    let ?f = "if f = 0 \<or> ph_vaddr p < f then ph_vaddr p else f"
    let ?l = "if ph_vaddr p + ph_memsz p > l then ph_vaddr p + ph_memsz p else l"
    let ?L = "{q \<in> set ps. is_load q}"
    have L: "{q \<in> set (p # ps). is_load q} = insert p ?L" using True by auto
    have nz: "ph_vaddr p \<noteq> 0" using Cons.prems True by simp
    have f: "?f \<noteq> 0" using nz by auto
    have v: "Min (ph_vaddr ` ?L \<union> {?f}) = Min (ph_vaddr ` insert p ?L \<union> (if f = 0 then {} else {f}))"
    proof (cases "f = 0")
      case True
      then show ?thesis by simp
    next
      case False
      then have "?f = min (ph_vaddr p) f" by (auto simp: min_def)
      with False Min_insert_min [of "ph_vaddr ` ?L" "ph_vaddr p" f] show ?thesis
        by (simp add: insert_commute)
    qed
    have e: "Max ((\<lambda>p. ph_vaddr p + ph_memsz p) ` ?L \<union> {?l})
        = Max ((\<lambda>p. ph_vaddr p + ph_memsz p) ` insert p ?L \<union> {l})"
    proof -
      have "?l = max (ph_vaddr p + ph_memsz p) l" by (auto simp: max_def)
      with Max_insert_max [of "(\<lambda>p. ph_vaddr p + ph_memsz p) ` ?L" "ph_vaddr p + ph_memsz p" l]
      show ?thesis by (simp add: insert_commute)
    qed
    have "fold scan_phdr (p # ps) (f, l) = fold scan_phdr ps (?f, ?l)"
      using True by (simp add: scan_phdr_def)
    also have "\<dots> = (Min (ph_vaddr ` ?L \<union> {?f}), Max ((\<lambda>p. ph_vaddr p + ph_memsz p) ` ?L \<union> {?l}))"
      using Cons.IH [of ?f ?l] Cons.prems f by (simp add: Let_def)
    finally show ?thesis unfolding v e L by (simp add: Let_def)
  qed
qed

text \<open>The parser's bound check, read without wrap-around.\<close>

lemma phdr_table_bound:
  fixes phoff :: u64
  assumes len: "length img < 2 ^ 64" and nowrap: "unat phoff + PHDR_SIZE * unat phnum < 2 ^ 64"
    and chk: "\<not> (phoff + ucast (phnum :: u16) * word_of_nat PHDR_SIZE > word_of_nat (length img))"
  shows "unat phoff + PHDR_SIZE * unat phnum \<le> length img"
proof -
  have n: "unat phnum < 2 ^ 16" using unsigned_less [of phnum, where 'a = nat] by simp
  then have "unat (ucast phnum * (word_of_nat PHDR_SIZE :: u64)) = PHDR_SIZE * unat phnum"
    by (simp add: unat_word_ariths PHDR_SIZE_def unsigned_ucast_eq take_bit_nat_eq_self mult.commute)
  then have "unat (phoff + ucast phnum * word_of_nat PHDR_SIZE) = unat phoff + PHDR_SIZE * unat phnum"
    using nowrap by (subst unat_add_no_wrap) simp_all
  then show ?thesis
    using chk len by (simp add: word_less_nat_alt unat_word_of_nat_less)
qed

text \<open>What a parsed image has passed.\<close>

lemma elf_parse_phdrs:
  assumes "elf_parse_image img = Elf_Parsed info"
  shows "\<exists>ps. phdrs_from img (eh_phoff (read_ehdr img)) 0 (unat (eh_phnum (read_ehdr img))) = Some ps
    \<and> info = elf_summary (read_ehdr img) ps"
  using assms by (auto simp: elf_parse_image_def Let_def split: if_splits option.splits)

lemma elf_summary_segments:
  assumes nz: "\<forall>p \<in> set ps. is_load p \<longrightarrow> ph_vaddr p \<noteq> 0" and ex: "\<exists>p \<in> set ps. is_load p"
  defines "L \<equiv> {p \<in> set ps. is_load p}"
  shows "ei_first_vaddr (elf_summary h ps) = Min (ph_vaddr ` L)"
    and "ei_last_vaddr (elf_summary h ps) = Max ((\<lambda>p. ph_vaddr p + ph_memsz p) ` L \<union> {0})"
    and "\<exists>p \<in> L. ph_vaddr p = Min (ph_vaddr ` L) \<and>
      ei_load_offset (elf_summary h ps) = ph_offset p \<and>
      ei_load_filesz (elf_summary h ps) = ph_filesz p \<and>
      ei_load_memsz (elf_summary h ps) = ph_memsz p"
proof -
  let ?V = "ph_vaddr ` L" and ?E = "(\<lambda>p. ph_vaddr p + ph_memsz p) ` L \<union> {0}"
  have ne: "?V \<noteq> {}" and fin: "finite ?V" using ex by (auto simp: L_def)
  have fold: "fold scan_phdr ps (0, 0) = (Min ?V, Max ?E)"
    using fold_scan_phdr [OF nz, of 0 0] ne unfolding Let_def L_def [symmetric]
    by (simp only: simp_thms if_True Un_empty_right if_False)
  have mem: "Min ?V \<in> ?V" using ne fin by (rule Min_in [rotated])
  have first: "Min ?V \<noteq> 0" using mem nz by (auto simp: L_def)
  obtain p where p: "find (\<lambda>p. ph_type p = 1 \<and> ph_vaddr p = Min ?V) ps = Some p"
    using mem by (cases "find (\<lambda>p. ph_type p = 1 \<and> ph_vaddr p = Min ?V) ps")
      (auto simp: find_None_iff L_def)
  then have pL: "p \<in> L" "ph_vaddr p = Min ?V" by (auto simp: find_Some_iff L_def)
  show "ei_first_vaddr (elf_summary h ps) = Min ?V" and "ei_last_vaddr (elf_summary h ps) = Max ?E"
    using first p by (simp_all add: elf_summary_def fold Let_def)
  show "\<exists>p \<in> L. ph_vaddr p = Min ?V \<and> ei_load_offset (elf_summary h ps) = ph_offset p \<and>
      ei_load_filesz (elf_summary h ps) = ph_filesz p \<and> ei_load_memsz (elf_summary h ps) = ph_memsz p"
    using first p pL by (intro bexI [of _ p]) (simp_all add: elf_summary_def fold Let_def)
qed

section \<open>Properties\<close>

text \<open>A sample image: one header and one loadable segment.\<close>

definition sample_ehdr :: elf64_ehdr where
  "sample_ehdr = \<lparr>eh_ident = [0x7f, 0x45, 0x4c, 0x46, 2, 1, 1, 0, 0, 0, 0, 0, 0, 0, 0, 0],
     eh_type = 2, eh_machine = 62, eh_version = 1, eh_entry = 0x401000, eh_phoff = 64,
     eh_shoff = 0, eh_flags = 0, eh_ehsize = 64, eh_phentsize = 56, eh_phnum = 1,
     eh_shentsize = 0, eh_shnum = 0, eh_shstrndx = 0\<rparr>"

definition sample_phdr :: elf64_phdr where
  "sample_phdr = \<lparr>ph_type = 1, ph_flags = 5, ph_offset = 0, ph_vaddr = 0x401000,
     ph_paddr = 0x401000, ph_filesz = 120, ph_memsz = 120, ph_align = 0x1000\<rparr>"

lemma sample_parse:
  "elf_parse_image (write_ehdr sample_ehdr @ write_phdr sample_phdr)
     = Elf_Parsed (elf_summary sample_ehdr [sample_phdr])"
proof -
  have id: "length (eh_ident sample_ehdr) = 16" by (simp add: sample_ehdr_def)
  have at: "phdr_at (write_ehdr sample_ehdr @ write_phdr sample_phdr) 64 0 = Some sample_phdr"
    using id read_write_phdr [of sample_phdr "[]"] by (simp add: phdr_at_def PHDR_SIZE_def)
  have h: "read_ehdr (write_ehdr sample_ehdr @ write_phdr sample_phdr) = sample_ehdr"
    using id by (rule read_write_ehdr)
  have f: "eh_phoff sample_ehdr = 64" "eh_phnum sample_ehdr = 1" "eh_machine sample_ehdr = 62"
    "eh_phentsize sample_ehdr = 56" by (simp_all add: sample_ehdr_def)
  show ?thesis
    using id at f unfolding elf_parse_image_def Let_def h
    by (simp add: EHDR_SIZE_def PHDR_SIZE_def ELF_MACHINE_X86_64_def)
      (simp add: sample_ehdr_def)
qed

text \<open>C34: if the program-header table described by the header does not run past the end of the
  64-bit address space, the parser never reads outside the image buffer.\<close>

theorem elf_parse_in_bounds:
  assumes len: "length img < 2 ^ 64"
    and nowrap: "unat (eh_phoff (read_ehdr img)) + PHDR_SIZE * unat (eh_phnum (read_ehdr img)) < 2 ^ 64"
  shows "elf_parse_image img \<noteq> Elf_OOB"
proof
  let ?h = "read_ehdr img"
  assume oob: "elf_parse_image img = Elf_OOB"
  then have chk: "\<not> (eh_phoff ?h + ucast (eh_phnum ?h) * word_of_nat PHDR_SIZE > word_of_nat (length img))"
    and none: "phdrs_from img (eh_phoff ?h) 0 (unat (eh_phnum ?h)) = None"
    by (auto simp: elf_parse_image_def Let_def split: if_splits option.splits)
  from phdrs_from_Some [of "eh_phoff ?h" 0 "unat (eh_phnum ?h)" img]
    phdr_table_bound [OF len nowrap chk] none
  show False by auto
qed

theorem elf_parse_in_bounds_witness:
  "elf_parse_image (write_ehdr sample_ehdr @ write_phdr sample_phdr) \<noteq> Elf_OOB"
proof -
  have id: "length (eh_ident sample_ehdr) = 16" by (simp add: sample_ehdr_def)
  show ?thesis
    by (rule elf_parse_in_bounds)
      (simp_all add: read_write_ehdr [OF id] id, simp add: sample_ehdr_def PHDR_SIZE_def)
qed

text \<open>The parser's table bound check wraps around: a 64-byte image whose \<open>phoff\<close> is
  \<open>2 ^ 64 - 56\<close> with one program header passes the check, and the parser then reads a header
  that lies outside the buffer.\<close>

theorem elf_bound_check_wraps:
  "elf_parse_image (write_ehdr (sample_ehdr\<lparr>eh_phoff := - 56\<rparr>)) = Elf_OOB"
proof -
  let ?h = "sample_ehdr\<lparr>eh_phoff := - 56\<rparr>"
  have id: "length (eh_ident ?h) = 16" by (simp add: sample_ehdr_def)
  have h: "read_ehdr (write_ehdr ?h) = ?h" using read_write_ehdr [OF id, of "[]"] by simp
  have f: "eh_phoff ?h = - 56" "eh_phnum ?h = 1" "eh_machine ?h = 62" "eh_phentsize ?h = 56"
    by (simp_all add: sample_ehdr_def)
  have "phdr_at (write_ehdr ?h) (- 56) 0 = None"
    using id by (simp add: phdr_at_def Let_def PHDR_SIZE_def)
  then show ?thesis
    using id f unfolding elf_parse_image_def Let_def h
    by (simp add: EHDR_SIZE_def PHDR_SIZE_def ELF_MACHINE_X86_64_def)
      (simp add: sample_ehdr_def)
qed

text \<open>A parsed image with at least one loadable segment, none of them at address 0, reports
  the least segment start, the greatest segment end, and the file extent of a segment that starts
  at the least address.\<close>

theorem elf_parse_segments:
  assumes parsed: "elf_parse_image img = Elf_Parsed info"
    and ps: "phdrs_from img (eh_phoff (read_ehdr img)) 0 (unat (eh_phnum (read_ehdr img))) = Some ps"
    and nz: "\<forall>p \<in> set ps. is_load p \<longrightarrow> ph_vaddr p \<noteq> 0" and ex: "\<exists>p \<in> set ps. is_load p"
  shows "ei_first_vaddr info = Min (ph_vaddr ` {p \<in> set ps. is_load p}) \<and>
    ei_last_vaddr info = Max ((\<lambda>p. ph_vaddr p + ph_memsz p) ` {p \<in> set ps. is_load p} \<union> {0}) \<and>
    (\<exists>p \<in> set ps. is_load p \<and> ph_vaddr p = ei_first_vaddr info \<and>
      ei_load_offset info = ph_offset p \<and> ei_load_filesz info = ph_filesz p \<and>
      ei_load_memsz info = ph_memsz p)"
proof (intro conjI)
  have info: "info = elf_summary (read_ehdr img) ps" using elf_parse_phdrs [OF parsed] ps by auto
  note seg = elf_summary_segments [OF nz ex, of "read_ehdr img"]
  show "ei_first_vaddr info = Min (ph_vaddr ` {p \<in> set ps. is_load p})"
    and "ei_last_vaddr info = Max ((\<lambda>p. ph_vaddr p + ph_memsz p) ` {p \<in> set ps. is_load p} \<union> {0})"
    using seg(1,2) by (simp_all add: info)
  show "\<exists>p \<in> set ps. is_load p \<and> ph_vaddr p = ei_first_vaddr info \<and>
      ei_load_offset info = ph_offset p \<and> ei_load_filesz info = ph_filesz p \<and>
      ei_load_memsz info = ph_memsz p"
    using seg(1,3) by (auto simp: info)
qed

theorem elf_parse_segments_witness:
  "ei_first_vaddr (elf_summary sample_ehdr [sample_phdr]) = 0x401000"
proof -
  let ?img = "write_ehdr sample_ehdr @ write_phdr sample_phdr"
  have id: "length (eh_ident sample_ehdr) = 16" by (simp add: sample_ehdr_def)
  have h: "read_ehdr ?img = sample_ehdr" using id by (rule read_write_ehdr)
  have "phdr_at ?img 64 0 = Some sample_phdr"
    using id read_write_phdr [of sample_phdr "[]"] by (simp add: phdr_at_def PHDR_SIZE_def)
  then have ps: "phdrs_from ?img (eh_phoff (read_ehdr ?img)) 0 (unat (eh_phnum (read_ehdr ?img))) = Some [sample_phdr]"
    unfolding h by (simp add: sample_ehdr_def)
  have seg: "{p \<in> set [sample_phdr]. is_load p} = {sample_phdr}" "ph_vaddr sample_phdr = 0x401000"
    by (auto simp: sample_phdr_def)
  show ?thesis
    using elf_parse_segments [OF sample_parse ps] seg by (simp add: sample_phdr_def)
qed

end
