(* ===== verification/Trace_Types.thy ===== *)
theory Trace_Types
  imports Prelude
begin

text \<open>
  The data of \<open>include/trace.h\<close>: trace events, session descriptions and statistics, and the
  40-byte memory layout in which \<open>trace_stop\<close> hands the event buffer to the filesystem and
  \<open>trace_replay_begin\<close> reads it back.
\<close>

section \<open>Definitions\<close>

definition TRACE_EVENT_IRQ :: u16 where "TRACE_EVENT_IRQ = 1"
definition TRACE_EVENT_KEYBOARD :: u16 where "TRACE_EVENT_KEYBOARD = 2"
definition TRACE_EVENT_SCHED :: u16 where "TRACE_EVENT_SCHED = 3"
definition TRACE_EVENT_SHELL :: u16 where "TRACE_EVENT_SHELL = 4"
definition TRACE_EVENT_PAGE_FAULT :: u16 where "TRACE_EVENT_PAGE_FAULT = 5"
definition TRACE_EVENT_WORKLOAD :: u16 where "TRACE_EVENT_WORKLOAD = 6"
definition TRACE_EVENT_NET :: u16 where "TRACE_EVENT_NET = 7"
definition TRACE_EVENT_POWER :: u16 where "TRACE_EVENT_POWER = 8"

lemmas trace_event_types = TRACE_EVENT_IRQ_def TRACE_EVENT_KEYBOARD_def TRACE_EVENT_SCHED_def
  TRACE_EVENT_SHELL_def TRACE_EVENT_PAGE_FAULT_def TRACE_EVENT_WORKLOAD_def TRACE_EVENT_NET_def
  TRACE_EVENT_POWER_def

record trace_event =
  ev_id :: u64
  ev_timestamp :: u64
  ev_pid :: u32
  ev_type :: u16
  ev_size :: u16
  ev_data0 :: u64
  ev_data1 :: u64

record trace_stats =
  st_events :: u64
  st_dropped :: u64
  st_bytes :: u64
  st_sessions :: u64
  st_last_duration_ticks :: u64
  st_last_hash :: u64
  st_last_buffer_peak :: u64

record trace_session_info =
  si_session_id :: u32
  si_size_bytes :: u32
  si_event_count :: u32
  si_profile_id :: u32
  si_start_ticks :: u64
  si_duration_ticks :: u64
  si_sequence_hash :: u64

definition EVENT_SIZE :: nat where "EVENT_SIZE = 40"

definition event_zero :: trace_event where
  "event_zero = \<lparr>ev_id = 0, ev_timestamp = 0, ev_pid = 0, ev_type = 0, ev_size = 0,
     ev_data0 = 0, ev_data1 = 0\<rparr>"

definition session_info_zero :: trace_session_info where
  "session_info_zero = \<lparr>si_session_id = 0, si_size_bytes = 0, si_event_count = 0,
     si_profile_id = 0, si_start_ticks = 0, si_duration_ticks = 0, si_sequence_hash = 0\<rparr>"

definition put_event :: "trace_event \<Rightarrow> u8 list" where
  "put_event e = put64 (ev_id e) @ put64 (ev_timestamp e) @ put32 (ev_pid e) @
     put16 (ev_type e) @ put16 (ev_size e) @ put64 (ev_data0 e) @ put64 (ev_data1 e)"

definition get_event :: "u8 list \<Rightarrow> trace_event" where
  "get_event m = \<lparr>ev_id = get64 m 0, ev_timestamp = get64 m 8, ev_pid = get32 m 16,
     ev_type = get16 m 20, ev_size = get16 m 22, ev_data0 = get64 m 24, ev_data1 = get64 m 32\<rparr>"

text \<open>An event array in memory, and the first \<open>n\<close> events of a byte buffer.\<close>

definition put_events :: "trace_event list \<Rightarrow> u8 list" where
  "put_events es = concat (map put_event es)"

fun get_events :: "nat \<Rightarrow> u8 list \<Rightarrow> trace_event list" where
  "get_events 0 m = []"
| "get_events (Suc n) m = get_event m # get_events n (drop EVENT_SIZE m)"

section \<open>Lemmas\<close>

lemma length_put_event [simp, layout_simps]: "length (put_event e) = EVENT_SIZE"
  by (simp add: put_event_def EVENT_SIZE_def)

lemma get_put_event [layout_simps]: "get_event (put_event e @ m) = e"
  by (simp add: get_event_def put_event_def layout_simps)

lemma length_put_events [simp, layout_simps]: "length (put_events es) = EVENT_SIZE * length es"
  by (induction es) (simp_all add: put_events_def)

lemma put_events_append: "put_events (es @ fs) = put_events es @ put_events fs"
  by (simp add: put_events_def)

lemma get_put_events [layout_simps]: "get_events (length es) (put_events es @ m) = es"
  by (induction es) (simp_all add: put_events_def get_put_event)

end
