(* ===== verification/Block_Device.thy ===== *)
theory Block_Device
  imports Prelude
begin

text \<open>
  The block interface between \<open>kernel/fs.c\<close> and the ATA driver: \<open>ata_init\<close>,
  \<open>ata_is_ready\<close>, \<open>ata_read28\<close> and \<open>ata_write28\<close> as functions of a device state.  A read
  reports success and the bytes it has transferred, which a failing transfer may leave
  incomplete.  The locale \<open>block_device\<close> states what the filesystem relies on: a successful
  read returns the sectors, a read changes no sector, a successful write replaces exactly its
  sectors, and no write touches another sector.  \<open>reliable_block_device\<close> adds that transfers
  inside the disk succeed.
\<close>

definition SECTOR_SIZE :: nat where "SECTOR_SIZE = 512"

record 'd blockdev =
  bd_init :: "'d \<Rightarrow> 'd"
  bd_ready :: "'d \<Rightarrow> bool"
  bd_read :: "u32 \<Rightarrow> u8 \<Rightarrow> 'd \<Rightarrow> bool \<times> u8 list \<times> 'd"
  bd_write :: "u32 \<Rightarrow> u8 \<Rightarrow> u8 list \<Rightarrow> 'd \<Rightarrow> bool \<times> 'd"

text \<open>Sector \<open>k\<close> of a transfer buffer.\<close>

definition sector_of :: "u8 list \<Rightarrow> nat \<Rightarrow> u8 list" where
  "sector_of bs k = take SECTOR_SIZE (drop (SECTOR_SIZE * k) bs)"

definition write_sectors :: "nat \<Rightarrow> nat \<Rightarrow> u8 list \<Rightarrow> (nat \<Rightarrow> u8 list) \<Rightarrow> nat \<Rightarrow> u8 list" where
  "write_sectors lba n bs disk = (\<lambda>l. if lba \<le> l \<and> l < lba + n then sector_of bs (l - lba) else disk l)"

definition read_sectors :: "nat \<Rightarrow> nat \<Rightarrow> (nat \<Rightarrow> u8 list) \<Rightarrow> u8 list" where
  "read_sectors lba n disk = concat (map disk [lba..<lba + n])"

lemma concat_sectors:
  "length bs = SECTOR_SIZE * n \<Longrightarrow> concat (map (sector_of bs) [0..<n]) = bs"
proof (induction n arbitrary: bs)
  case 0
  then show ?case by simp
next
  case (Suc n)
  let ?bs = "take (SECTOR_SIZE * n) bs"
  have "map (sector_of bs) [0..<n] = map (sector_of ?bs) [0..<n]"
  proof (rule map_cong [OF refl])
    fix k assume "k \<in> set [0..<n]"
    then have "SECTOR_SIZE * Suc k \<le> SECTOR_SIZE * n" by (intro mult_le_mono2) simp
    then show "sector_of bs k = sector_of ?bs k"
      by (simp add: sector_of_def take_drop min_def)
  qed
  moreover have "concat (map (sector_of ?bs) [0..<n]) = ?bs"
    using Suc.prems by (intro Suc.IH) simp
  ultimately have "concat (map (sector_of bs) [0..<n]) = ?bs" by metis
  moreover have "sector_of bs n = drop (SECTOR_SIZE * n) bs"
    using Suc.prems by (simp add: sector_of_def)
  ultimately show ?case by simp
qed

lemma read_write_sectors:
  assumes "length bs = SECTOR_SIZE * n"
  shows "read_sectors lba n (write_sectors lba n bs disk) = bs"
proof -
  have "map (write_sectors lba n bs disk) [lba..<lba + n] = map (sector_of bs) [0..<n]"
    by (rule nth_equalityI) (auto simp: write_sectors_def)
  then show ?thesis using concat_sectors [OF assms] by (simp add: read_sectors_def)
qed

lemma read_write_sectors_other:
  assumes "l + m \<le> lba \<or> lba + n \<le> l"
  shows "read_sectors l m (write_sectors lba n bs disk) = read_sectors l m disk"
proof -
  have "map (write_sectors lba n bs disk) [l..<l + m] = map disk [l..<l + m]"
    using assms by (auto simp: write_sectors_def)
  then show ?thesis unfolding read_sectors_def by (rule arg_cong)
qed

lemma write_sectors_single:
  assumes "length bs = SECTOR_SIZE"
  shows "write_sectors lba 1 bs disk = disk(lba := bs)"
  using assms by (auto simp: write_sectors_def sector_of_def fun_eq_iff)

locale block_device =
  fixes B :: "'d blockdev" and sec :: "'d \<Rightarrow> nat \<Rightarrow> u8 list"
  assumes sec_length: "length (sec d l) = SECTOR_SIZE"
    and read_ok: "bd_read B lba n d = (True, bs, d') \<Longrightarrow> bs = read_sectors (unat lba) (unat n) (sec d)"
    and read_frame: "bd_read B lba n d = (ok, bs, d') \<Longrightarrow> sec d' = sec d"
    and write_ok: "bd_write B lba n bs d = (True, d') \<Longrightarrow> length bs = SECTOR_SIZE * unat n \<Longrightarrow>
      sec d' = write_sectors (unat lba) (unat n) bs (sec d)"
    and write_frame: "bd_write B lba n bs d = (ok, d') \<Longrightarrow> l < unat lba \<or> unat lba + unat n \<le> l \<Longrightarrow>
      sec d' l = sec d l"
    and init_frame: "sec (bd_init B d) = sec d"
begin

lemma read_one: "bd_read B lba 1 d = (True, bs, d') \<Longrightarrow> bs = sec d (unat lba)"
  using read_ok [of lba 1 d bs d'] by (simp add: read_sectors_def)

lemma length_read:
  assumes "bd_read B lba n d = (True, bs, d')"
  shows "length bs = SECTOR_SIZE * unat n"
proof -
  have "length (concat (map (sec d) xs)) = SECTOR_SIZE * length xs" for xs
    by (induction xs) (simp_all add: sec_length)
  then show ?thesis using read_ok [OF assms] by (simp add: read_sectors_def)
qed

lemma write_one:
  assumes "bd_write B lba 1 bs d = (True, d')" and "length bs = SECTOR_SIZE"
  shows "sec d' = (sec d)(unat lba := bs)"
  using write_ok [OF assms(1)] assms(2) write_sectors_single [OF assms(2)] by simp

end

locale reliable_block_device = block_device +
  fixes good :: "'a \<Rightarrow> bool" and disk_size :: nat
  assumes read_succeeds: "good d \<Longrightarrow> 0 < n \<Longrightarrow> unat lba + unat n \<le> disk_size \<Longrightarrow>
      \<exists>bs d'. bd_read B lba n d = (True, bs, d') \<and> good d'"
    and write_succeeds: "good d \<Longrightarrow> 0 < n \<Longrightarrow> unat lba + unat n \<le> disk_size \<Longrightarrow>
      length bs = SECTOR_SIZE * unat n \<Longrightarrow> \<exists>d'. bd_write B lba n bs d = (True, d') \<and> good d'"
    and init_succeeds: "good (bd_init B d) \<longleftrightarrow> bd_ready B (bd_init B d)"

end
