(* ===== verification/Aspace.thy ===== *)
theory Aspace
  imports Memory C_String
begin

text \<open>
  Address spaces (\<open>kernel/aspace.c\<close>): a table of 16 reference-counted slots, and the page
  tables they own.  Physical memory is identity mapped in the kernel, so a pointer is an index
  of the byte store \<open>vm_phys\<close>; the CR3 register is \<open>vm_cr3\<close>, and \<open>page_alloc\<close> works on the
  allocator state \<open>vm_mem\<close>.  The table is seen as a map from ids to descriptions
  (\<open>aspace_map\<close>), which the operations implement.
\<close>

section \<open>Definitions\<close>

definition ASPACE_KIND_KERNEL :: u32 where "ASPACE_KIND_KERNEL = 1"
definition ASPACE_KIND_USER_SHARED :: u32 where "ASPACE_KIND_USER_SHARED = 2"
definition ASPACE_USER_BASE :: u64 where "ASPACE_USER_BASE = 0x40000000"
definition ASPACE_USER_WINDOW_SIZE :: u64 where "ASPACE_USER_WINDOW_SIZE = 0x00200000"
definition ASPACE_USER_STACK_TOP :: u64 where "ASPACE_USER_STACK_TOP = ASPACE_USER_BASE + ASPACE_USER_WINDOW_SIZE"
definition ASPACE_MAX :: nat where "ASPACE_MAX = 16"

record aspace_info =
  ai_id :: u32
  ai_kind :: u32
  ai_refcount :: u32
  ai_isolated :: u32
  ai_cr3 :: u64
  ai_user_stack_top :: u64
  ai_label :: "char list"

record aspace_slot =
  as_used :: bool
  as_info :: aspace_info
  as_user_pt :: u64

record vm =
  vm_mem :: memory_state
  vm_phys :: "u64 \<Rightarrow> u8"
  vm_cr3 :: u64
  aspace_table :: "aspace_slot list"
  next_aspace_id :: u32
  kernel_aspace_id :: u32
  kernel_cr3 :: u64

definition info_zero :: aspace_info where
  "info_zero = \<lparr>ai_id = 0, ai_kind = 0, ai_refcount = 0, ai_isolated = 0, ai_cr3 = 0,
     ai_user_stack_top = 0, ai_label = replicate 24 NUL\<rparr>"

definition slot_zero :: aspace_slot where
  "slot_zero = \<lparr>as_used = False, as_info = info_zero, as_user_pt = 0\<rparr>"

subsection \<open>Memory accesses\<close>

definition store_bytes :: "(u64 \<Rightarrow> u8) \<Rightarrow> u64 \<Rightarrow> u8 list \<Rightarrow> u64 \<Rightarrow> u8" where
  "store_bytes m a bs = (\<lambda>x. if unat (x - a) < length bs then bs ! unat (x - a) else m x)"

definition load_bytes :: "(u64 \<Rightarrow> u8) \<Rightarrow> u64 \<Rightarrow> nat \<Rightarrow> u8 list" where
  "load_bytes m a n = map (\<lambda>i. m (a + word_of_nat i)) [0..<n]"

text \<open>\<open>p[i]\<close> and \<open>p[i] = v\<close> for \<open>u64 *p\<close>.\<close>

definition load64 :: "(u64 \<Rightarrow> u8) \<Rightarrow> u64 \<Rightarrow> u64 \<Rightarrow> u64" where
  "load64 m p i = get64 (load_bytes m (p + 8 * i) 8) 0"

definition store64 :: "(u64 \<Rightarrow> u8) \<Rightarrow> u64 \<Rightarrow> u64 \<Rightarrow> u64 \<Rightarrow> u64 \<Rightarrow> u8" where
  "store64 m p i v = store_bytes m (p + 8 * i) (put64 v)"

definition vm_page_alloc :: "vm \<Rightarrow> u64 \<times> vm" where
  "vm_page_alloc v = (let (p, m) = page_alloc (vm_mem v) in (p, v\<lparr>vm_mem := m\<rparr>))"

definition page_of :: "u64 \<Rightarrow> u64" where
  "page_of a = a AND NOT 0xfff"

subsection \<open>The table\<close>

definition copy_label :: "char list \<Rightarrow> nat \<Rightarrow> char list option \<Rightarrow> char list" where
  "copy_label dst cap src =
     (let len0 = (case src of None \<Rightarrow> 0 | Some s \<Rightarrow> strlen s);
          len = (if len0 \<ge> cap then cap - 1 else len0);
          dst1 = (case src of None \<Rightarrow> dst | Some s \<Rightarrow> if len = 0 then dst else memcpy dst s len)
      in dst1[len := NUL])"

definition find_slot :: "u32 \<Rightarrow> vm \<Rightarrow> nat option" where
  "find_slot i v = find_index (\<lambda>s. as_used s \<and> ai_id (as_info s) = i) (aspace_table v)"

definition upd_slot :: "nat \<Rightarrow> (aspace_slot \<Rightarrow> aspace_slot) \<Rightarrow> vm \<Rightarrow> vm" where
  "upd_slot k f v = v\<lparr>aspace_table := (aspace_table v)[k := f (aspace_table v ! k)]\<rparr>"

text \<open>All four pages are requested before the results are checked.\<close>

definition clone_kernel_root :: "aspace_info \<Rightarrow> vm \<Rightarrow> aspace_info option \<times> vm" where
  "clone_kernel_root info v =
     (let src_pml4 = kernel_cr3 v;
          (new_pml4, v1) = vm_page_alloc v;
          (new_pdpt, v2) = vm_page_alloc v1;
          (new_pd, v3) = vm_page_alloc v2;
          (new_pt, v4) = vm_page_alloc v3
      in if src_pml4 = 0 \<or> new_pml4 = 0 \<or> new_pdpt = 0 \<or> new_pd = 0 \<or> new_pt = 0 then (None, v4)
         else
           (let m0 = vm_phys v4;
                m1 = store_bytes m0 new_pml4 (replicate 4096 0);
                m2 = store_bytes m1 new_pdpt (load_bytes m1 (page_of (load64 m1 src_pml4 0)) 4096);
                m3 = store_bytes m2 new_pd (replicate 4096 0);
                m4 = store_bytes m3 new_pt (replicate 4096 0);
                m5 = store64 m4 new_pd 0 (new_pt OR 7);
                m6 = store64 m5 new_pdpt (drop_bit 30 ASPACE_USER_BASE AND 0x1ff) (new_pd OR 7);
                m7 = store64 m6 new_pml4 0 (new_pdpt OR 7)
            in (Some (info\<lparr>ai_isolated := 1, ai_cr3 := new_pml4, ai_user_stack_top := ASPACE_USER_STACK_TOP\<rparr>),
                v4\<lparr>vm_phys := m7\<rparr>)))"

text \<open>The walk that finds the page table of the user window.\<close>

definition user_pt_of :: "u64 \<Rightarrow> (u64 \<Rightarrow> u8) \<Rightarrow> u64" where
  "user_pt_of pml4 m =
     (let pdpt = page_of (load64 m pml4 0);
          pd = page_of (load64 m pdpt (drop_bit 30 ASPACE_USER_BASE AND 0x1ff))
      in page_of (load64 m pd (drop_bit 21 ASPACE_USER_BASE AND 0x1ff)))"

definition aspace_create :: "u32 \<Rightarrow> char list option \<Rightarrow> vm \<Rightarrow> u32 \<times> vm" where
  "aspace_create kind label v =
     (case find_index (\<lambda>s. \<not> as_used s) (aspace_table v) of
        None \<Rightarrow> (0, v)
      | Some k \<Rightarrow>
          (let i = next_aspace_id v;
               info = info_zero\<lparr>ai_id := i, ai_kind := kind, ai_refcount := 1, ai_cr3 := kernel_cr3 v,
                 ai_user_stack_top := 0,
                 ai_label := copy_label (ai_label info_zero) 24
                   (Some (case label of None \<Rightarrow> ''anon'' | Some l \<Rightarrow> l))\<rparr>;
               v1 = (upd_slot k (\<lambda>s. \<lparr>as_used = True, as_info = info, as_user_pt = 0\<rparr>) v)
                      \<lparr>next_aspace_id := i + 1\<rparr>
           in if kind = ASPACE_KIND_KERNEL then (i, v1)
              else
                (case clone_kernel_root info v1 of
                   (None, v2) \<Rightarrow> (0, upd_slot k (\<lambda>s. slot_zero) v2)
                 | (Some info', v2) \<Rightarrow>
                     (i, upd_slot k (\<lambda>s. s\<lparr>as_info := info',
                            as_user_pt := user_pt_of (ai_cr3 info') (vm_phys v2)\<rparr>) v2))))"

text \<open>\<open>cr3\<close> is what \<open>memory_read_cr3\<close> returns at boot.\<close>

definition aspace_init :: "vm \<Rightarrow> vm" where
  "aspace_init v =
     (let v1 = v\<lparr>aspace_table := replicate ASPACE_MAX slot_zero, next_aspace_id := 1, kernel_cr3 := vm_cr3 v\<rparr>;
          (i, v2) = aspace_create ASPACE_KIND_KERNEL (Some ''kernel'') v1
      in v2\<lparr>kernel_aspace_id := i\<rparr>)"

definition aspace_retain :: "u32 \<Rightarrow> vm \<Rightarrow> bool \<times> vm" where
  "aspace_retain i v =
     (case find_slot i v of
        None \<Rightarrow> (False, v)
      | Some k \<Rightarrow> (True, upd_slot k (\<lambda>s. s\<lparr>as_info := (as_info s)\<lparr>ai_refcount := ai_refcount (as_info s) + 1\<rparr>\<rparr>) v))"

definition aspace_release :: "u32 \<Rightarrow> vm \<Rightarrow> bool \<times> vm" where
  "aspace_release i v =
     (case find_slot i v of
        None \<Rightarrow> (False, v)
      | Some k \<Rightarrow>
          (let s = aspace_table v ! k;
               rc = (if ai_refcount (as_info s) > 0 then ai_refcount (as_info s) - 1 else ai_refcount (as_info s));
               s1 = s\<lparr>as_info := (as_info s)\<lparr>ai_refcount := rc\<rparr>\<rparr>
           in (True, upd_slot k (\<lambda>_. if rc = 0 \<and> i \<noteq> kernel_aspace_id v then slot_zero else s1) v)))"

definition aspace_fork_clone :: "u32 \<Rightarrow> vm \<Rightarrow> u32 \<times> vm" where
  "aspace_fork_clone parent_id v =
     (case find_slot parent_id v of
        None \<Rightarrow> (0, v)
      | Some k \<Rightarrow>
          (let info = as_info (aspace_table v ! k) in
           if ai_kind info = ASPACE_KIND_KERNEL
           then (let (ok, v1) = aspace_retain parent_id v in if ok then (parent_id, v1) else (0, v1))
           else aspace_create (ai_kind info) (Some (ai_label info)) v))"

definition aspace_get :: "u32 \<Rightarrow> vm \<Rightarrow> aspace_info option" where
  "aspace_get i v = map_option (\<lambda>k. as_info (aspace_table v ! k)) (find_slot i v)"

definition aspace_snapshot :: "nat \<Rightarrow> vm \<Rightarrow> aspace_info list" where
  "aspace_snapshot max_entries v = take max_entries (map as_info (filter as_used (aspace_table v)))"

definition aspace_switch :: "u32 \<Rightarrow> vm \<Rightarrow> bool \<times> vm" where
  "aspace_switch i v =
     (case aspace_get i v of
        None \<Rightarrow> (False, v)
      | Some info \<Rightarrow> (True, if vm_cr3 v \<noteq> ai_cr3 info then v\<lparr>vm_cr3 := ai_cr3 info\<rparr> else v))"

subsection \<open>Writing into the user window\<close>

definition pt_index :: "u64 \<Rightarrow> u64" where
  "pt_index page = drop_bit 12 page AND 0x1ff"

definition ensure_user_page :: "aspace_slot \<Rightarrow> u64 \<Rightarrow> vm \<Rightarrow> bool \<times> vm" where
  "ensure_user_page s vaddr v =
     (let page = page_of vaddr in
      if as_user_pt s = 0 then (False, v)
      else if page < ASPACE_USER_BASE \<or> page \<ge> ASPACE_USER_BASE + ASPACE_USER_WINDOW_SIZE then (False, v)
      else if load64 (vm_phys v) (as_user_pt s) (pt_index page) AND 1 \<noteq> 0 then (True, v)
      else
        (let (phys, v1) = vm_page_alloc v in
         if phys = 0 then (False, v1)
         else (True, v1\<lparr>vm_phys := store64 (store_bytes (vm_phys v1) phys (replicate 4096 0))
                           (as_user_pt s) (pt_index page) (phys OR 7)\<rparr>)))"

definition chunk_at :: "u64 \<Rightarrow> nat \<Rightarrow> nat" where
  "chunk_at vaddr bytes = min (4096 - unat (vaddr AND 0xfff)) bytes"

lemma page_offset_bound: "unat (vaddr AND 0xfff :: u64) < 4096"
proof -
  have "vaddr AND 0xfff = take_bit 12 vaddr" by (simp add: take_bit_eq_mask mask_numeral)
  then have "unat (vaddr AND 0xfff) = unat vaddr mod 4096"
    by (simp only: unsigned_take_bit_eq) (simp add: take_bit_eq_mod)
  then show ?thesis by simp
qed

text \<open>Both loops store the bytes of the current chunk; \<open>aspace_zero\<close> stores zeros.\<close>

function aspace_store_loop :: "aspace_slot \<Rightarrow> u64 \<Rightarrow> u8 list \<Rightarrow> vm \<Rightarrow> bool \<times> vm" where
  "aspace_store_loop s vaddr data v =
     (if data = [] then (True, v)
      else
        (let page = page_of vaddr;
             chunk = chunk_at vaddr (length data);
             (ok, v1) = ensure_user_page s page v
         in if \<not> ok then (False, v1)
            else
              (let dst = page_of (load64 (vm_phys v1) (as_user_pt s) (pt_index page)) + (vaddr AND 0xfff)
               in aspace_store_loop s (vaddr + word_of_nat chunk) (drop chunk data)
                    (v1\<lparr>vm_phys := store_bytes (vm_phys v1) dst (take chunk data)\<rparr>))))"
  by pat_completeness auto
termination
proof (relation "measure (\<lambda>(s, vaddr, data, v). length data)", goal_cases)
  case 1
  then show ?case by simp
next
  case (2 s vaddr data v page chunk p ok v1 dst)
  have "0 < chunk" using 2(1,3) page_offset_bound [of vaddr] by (simp add: chunk_at_def)
  with 2(1) show ?case by simp
qed

declare aspace_store_loop.simps [simp del]

definition aspace_write :: "u32 \<Rightarrow> u64 \<Rightarrow> u8 list \<Rightarrow> vm \<Rightarrow> bool \<times> vm" where
  "aspace_write i vaddr data v =
     (case find_slot i v of
        None \<Rightarrow> (False, v)
      | Some k \<Rightarrow> aspace_store_loop (aspace_table v ! k) vaddr data v)"

definition aspace_zero :: "u32 \<Rightarrow> u64 \<Rightarrow> nat \<Rightarrow> vm \<Rightarrow> bool \<times> vm" where
  "aspace_zero i vaddr bytes v =
     (case find_slot i v of
        None \<Rightarrow> (False, v)
      | Some k \<Rightarrow> aspace_store_loop (aspace_table v ! k) vaddr (replicate bytes 0) v)"

section \<open>The table as a map\<close>

abbreviation slot_is :: "u32 \<Rightarrow> aspace_slot \<Rightarrow> bool" where
  "slot_is i s \<equiv> as_used s \<and> ai_id (as_info s) = i"

definition slot_map :: "aspace_slot list \<Rightarrow> u32 \<Rightarrow> aspace_info option" where
  "slot_map tbl i = map_option (\<lambda>k. as_info (tbl ! k)) (find_index (slot_is i) tbl)"

definition aspace_map :: "vm \<Rightarrow> u32 \<Rightarrow> aspace_info option" where
  "aspace_map v = slot_map (aspace_table v)"

definition table_ok :: "aspace_slot list \<Rightarrow> u32 \<Rightarrow> bool" where
  "table_ok tbl nxt \<longleftrightarrow> length tbl = ASPACE_MAX \<and> 0 < nxt \<and>
     (\<forall>k < length tbl. as_used (tbl ! k) \<longrightarrow> 0 < ai_id (as_info (tbl ! k)) \<and> ai_id (as_info (tbl ! k)) < nxt) \<and>
     (\<forall>j < length tbl. \<forall>k < length tbl. as_used (tbl ! j) \<and> as_used (tbl ! k) \<and> j \<noteq> k \<longrightarrow>
        ai_id (as_info (tbl ! j)) \<noteq> ai_id (as_info (tbl ! k)))"

definition aspace_inv :: "vm \<Rightarrow> bool" where
  "aspace_inv v \<longleftrightarrow> table_ok (aspace_table v) (next_aspace_id v)"

lemma aspace_get_map: "aspace_get i v = aspace_map v i"
  by (simp add: aspace_get_def aspace_map_def slot_map_def find_slot_def)

lemma find_slot_SomeD:
  assumes "find_slot i v = Some k"
  shows "k < length (aspace_table v)" "as_used (aspace_table v ! k)" "ai_id (as_info (aspace_table v ! k)) = i"
    "aspace_map v i = Some (as_info (aspace_table v ! k))"
  using find_index_SomeD(1,2) [OF assms [unfolded find_slot_def]] assms
  by (simp_all add: aspace_map_def slot_map_def find_slot_def)

lemma find_slot_None: "find_slot i v = None \<longleftrightarrow> aspace_map v i = None"
  by (simp add: find_slot_def aspace_map_def slot_map_def)

lemma slot_map_replace:
  assumes k: "find_index (slot_is i) tbl = Some k" and y: "slot_is i y"
  shows "slot_map (tbl[k := y]) = (slot_map tbl)(i \<mapsto> as_info y)"
proof
  fix j
  note f = find_index_SomeD [OF k]
  show "slot_map (tbl[k := y]) j = ((slot_map tbl)(i \<mapsto> as_info y)) j"
  proof (cases "j = i")
    case True
    have "find_index (slot_is i) (tbl[k := y]) = Some k"
      using f y by (intro find_index_eq_SomeI) auto
    with True f show ?thesis by (simp add: slot_map_def)
  next
    case False
    then have "find_index (slot_is j) (tbl[k := y]) = find_index (slot_is j) tbl"
      using f y by (intro find_index_update_other) auto
    moreover have "find_index (slot_is j) tbl = Some l \<Longrightarrow> l \<noteq> k" for l
      using find_index_SomeD(2) [of "slot_is j" tbl l] f(2) False by auto
    ultimately show ?thesis using False by (cases "find_index (slot_is j) tbl") (simp_all add: slot_map_def)
  qed
qed

lemma slot_map_remove:
  assumes k: "find_index (slot_is i) tbl = Some k" and ok: "table_ok tbl nxt" and y: "\<not> as_used y"
  shows "slot_map (tbl[k := y]) = (slot_map tbl)(i := None)"
proof
  fix j
  note f = find_index_SomeD [OF k]
  show "slot_map (tbl[k := y]) j = ((slot_map tbl)(i := None)) j"
  proof (cases "j = i")
    case True
    have "find_index (slot_is i) (tbl[k := y]) = None"
      unfolding find_index_None set_conv_nth using f y ok
      by (auto simp: nth_list_update table_ok_def split: if_splits)
    with True show ?thesis by (simp add: slot_map_def)
  next
    case False
    then have "find_index (slot_is j) (tbl[k := y]) = find_index (slot_is j) tbl"
      using f y by (intro find_index_update_other) auto
    moreover have "find_index (slot_is j) tbl = Some l \<Longrightarrow> l \<noteq> k" for l
      using find_index_SomeD(2) [of "slot_is j" tbl l] f(2) False by auto
    ultimately show ?thesis using False by (cases "find_index (slot_is j) tbl") (simp_all add: slot_map_def)
  qed
qed

lemma slot_map_insert:
  assumes k: "k < length tbl" "\<not> as_used (tbl ! k)" and y: "slot_is i y" and fresh: "slot_map tbl i = None"
  shows "slot_map (tbl[k := y]) = (slot_map tbl)(i \<mapsto> as_info y)"
proof
  fix j
  show "slot_map (tbl[k := y]) j = ((slot_map tbl)(i \<mapsto> as_info y)) j"
  proof (cases "j = i")
    case True
    have "\<not> slot_is i (tbl ! l)" if "l < length tbl" for l
      using fresh that by (auto simp: slot_map_def find_index_None)
    then have "find_index (slot_is i) (tbl[k := y]) = Some k"
      using k y by (intro find_index_unique) (auto simp: nth_list_update split: if_splits)
    with True k show ?thesis by (simp add: slot_map_def)
  next
    case False
    then have "find_index (slot_is j) (tbl[k := y]) = find_index (slot_is j) tbl"
      using k y by (intro find_index_update_other) auto
    moreover have "find_index (slot_is j) tbl = Some l \<Longrightarrow> l \<noteq> k" for l
      using find_index_SomeD(2) [of "slot_is j" tbl l] k(2) by auto
    ultimately show ?thesis using False by (cases "find_index (slot_is j) tbl") (simp_all add: slot_map_def)
  qed
qed

lemma slot_map_free:
  assumes k: "k < length tbl" "\<not> as_used (tbl ! k)" and y: "\<not> as_used y"
  shows "slot_map (tbl[k := y]) = slot_map tbl"
proof
  fix j
  have "find_index (slot_is j) (tbl[k := y]) = find_index (slot_is j) tbl"
    using k y by (intro find_index_update_other) auto
  moreover have "find_index (slot_is j) tbl = Some l \<Longrightarrow> l \<noteq> k" for l
    using find_index_SomeD(2) [of "slot_is j" tbl l] k(2) by auto
  ultimately show "slot_map (tbl[k := y]) j = slot_map tbl j"
    by (cases "find_index (slot_is j) tbl") (simp_all add: slot_map_def)
qed

lemma table_ok_fresh: "table_ok tbl nxt \<Longrightarrow> slot_map tbl nxt = None"
  by (auto simp: table_ok_def slot_map_def find_index_None set_conv_nth)

lemma table_ok_update:
  assumes "table_ok tbl nxt" and "nxt \<le> nxt'" and "k < length tbl"
    and "as_used y \<Longrightarrow> 0 < ai_id (as_info y) \<and> ai_id (as_info y) < nxt'"
    and "as_used y \<Longrightarrow> (as_used (tbl ! k) \<and> ai_id (as_info y) = ai_id (as_info (tbl ! k))) \<or> ai_id (as_info y) = nxt"
  shows "table_ok (tbl[k := y]) nxt'"
  using assms unfolding table_ok_def
  by (auto simp: nth_list_update split: if_splits dest: order.strict_trans2) (metis less_irrefl)

section \<open>The operations on the map\<close>

lemma vm_page_alloc_table [simp]:
  "aspace_table (snd (vm_page_alloc v)) = aspace_table v" "next_aspace_id (snd (vm_page_alloc v)) = next_aspace_id v"
  "kernel_aspace_id (snd (vm_page_alloc v)) = kernel_aspace_id v" "kernel_cr3 (snd (vm_page_alloc v)) = kernel_cr3 v"
  by (simp_all add: vm_page_alloc_def split: prod.splits)

lemma clone_kernel_root_fields:
  assumes "clone_kernel_root info v = (r, v')"
  shows "aspace_table v' = aspace_table v" "next_aspace_id v' = next_aspace_id v"
    "kernel_aspace_id v' = kernel_aspace_id v" "kernel_cr3 v' = kernel_cr3 v"
    "r = Some info' \<Longrightarrow> ai_id info' = ai_id info \<and> ai_kind info' = ai_kind info \<and>
       ai_refcount info' = ai_refcount info \<and> ai_isolated info' = 1 \<and> ai_user_stack_top info' = ASPACE_USER_STACK_TOP"
proof -
  obtain p1 v1 where 1: "vm_page_alloc v = (p1, v1)" by fastforce
  obtain p2 v2 where 2: "vm_page_alloc v1 = (p2, v2)" by fastforce
  obtain p3 v3 where 3: "vm_page_alloc v2 = (p3, v3)" by fastforce
  obtain p4 v4 where 4: "vm_page_alloc v3 = (p4, v4)" by fastforce
  note t = vm_page_alloc_table [of v] vm_page_alloc_table [of v1] vm_page_alloc_table [of v2] vm_page_alloc_table [of v3]
  note t' = t [unfolded 1 2 3 4 snd_conv]
  have "v' = v4\<lparr>vm_phys := vm_phys v'\<rparr>" and i: "r = None \<or> r = Some (info\<lparr>ai_isolated := 1, ai_cr3 := p1, ai_user_stack_top := ASPACE_USER_STACK_TOP\<rparr>)"
    using assms by (auto simp: clone_kernel_root_def 1 2 3 4 Let_def split: if_splits)
  then show "aspace_table v' = aspace_table v" "next_aspace_id v' = next_aspace_id v"
    "kernel_aspace_id v' = kernel_aspace_id v" "kernel_cr3 v' = kernel_cr3 v"
    using t' by (metis vm.select_convs vm.update_convs(2) vm.surjective)+
  show "r = Some info' \<Longrightarrow> ai_id info' = ai_id info \<and> ai_kind info' = ai_kind info \<and>
       ai_refcount info' = ai_refcount info \<and> ai_isolated info' = 1 \<and> ai_user_stack_top info' = ASPACE_USER_STACK_TOP"
    using i by auto
qed

lemma upd_slot_fields [simp]:
  "aspace_table (upd_slot k f v) = (aspace_table v)[k := f (aspace_table v ! k)]"
  "next_aspace_id (upd_slot k f v) = next_aspace_id v" "kernel_aspace_id (upd_slot k f v) = kernel_aspace_id v"
  "kernel_cr3 (upd_slot k f v) = kernel_cr3 v" "vm_mem (upd_slot k f v) = vm_mem v"
  "vm_phys (upd_slot k f v) = vm_phys v" "vm_cr3 (upd_slot k f v) = vm_cr3 v"
  by (simp_all add: upd_slot_def)

lemma retain_Some:
  assumes inv: "aspace_inv v" and a: "aspace_map v i = Some a"
  shows "\<exists>v'. aspace_retain i v = (True, v') \<and> aspace_inv v' \<and> kernel_aspace_id v' = kernel_aspace_id v \<and>
    aspace_map v' = (aspace_map v)(i \<mapsto> a\<lparr>ai_refcount := ai_refcount a + 1\<rparr>)"
proof -
  obtain k where k: "find_slot i v = Some k" using a find_slot_None [of i v] by (cases "find_slot i v") auto
  note f = find_slot_SomeD [OF k]
  let ?y = "(aspace_table v ! k)\<lparr>as_info := (as_info (aspace_table v ! k))
      \<lparr>ai_refcount := ai_refcount (as_info (aspace_table v ! k)) + 1\<rparr>\<rparr>"
  have "slot_map ((aspace_table v)[k := ?y]) = (slot_map (aspace_table v))(i \<mapsto> as_info ?y)"
    using f k by (intro slot_map_replace) (simp_all add: find_slot_def)
  moreover have "table_ok ((aspace_table v)[k := ?y]) (next_aspace_id v)"
    using inv f by (intro table_ok_update [where nxt = "next_aspace_id v"]) (auto simp: aspace_inv_def table_ok_def)
  ultimately show ?thesis
    using a f k by (simp add: aspace_retain_def aspace_map_def aspace_inv_def)
qed

lemma retain_None: "aspace_map v i = None \<Longrightarrow> aspace_retain i v = (False, v)"
  using find_slot_None [of i v] by (simp add: aspace_retain_def)

definition released :: "u32 \<Rightarrow> u32 \<Rightarrow> aspace_info \<Rightarrow> aspace_info option" where
  "released kernel_id i a =
     (let rc = (if ai_refcount a > 0 then ai_refcount a - 1 else ai_refcount a) in
      if rc = 0 \<and> i \<noteq> kernel_id then None else Some (a\<lparr>ai_refcount := rc\<rparr>))"

lemma release_Some:
  assumes inv: "aspace_inv v" and a: "aspace_map v i = Some a"
  shows "\<exists>v'. aspace_release i v = (True, v') \<and> aspace_inv v' \<and> kernel_aspace_id v' = kernel_aspace_id v \<and>
    aspace_map v' = (aspace_map v)(i := released (kernel_aspace_id v) i a)"
proof -
  obtain k where k: "find_slot i v = Some k" using a find_slot_None [of i v] by (cases "find_slot i v") auto
  note f = find_slot_SomeD [OF k]
  have ok: "table_ok (aspace_table v) (next_aspace_id v)" using inv by (simp add: aspace_inv_def)
  have aa: "a = as_info (aspace_table v ! k)" using a f(4) by simp
  let ?rc = "if ai_refcount a > 0 then ai_refcount a - 1 else ai_refcount a"
  let ?y = "(aspace_table v ! k)\<lparr>as_info := a\<lparr>ai_refcount := ?rc\<rparr>\<rparr>"
  show ?thesis
  proof (cases "?rc = 0 \<and> i \<noteq> kernel_aspace_id v")
    case True
    have "slot_map ((aspace_table v)[k := slot_zero]) = (slot_map (aspace_table v))(i := None)"
      using k ok by (intro slot_map_remove) (simp_all add: find_slot_def slot_zero_def)
    moreover have "table_ok ((aspace_table v)[k := slot_zero]) (next_aspace_id v)"
      using ok f(1) by (intro table_ok_update [where nxt = "next_aspace_id v"]) (simp_all add: slot_zero_def)
    moreover have "aspace_release i v = (True, upd_slot k (\<lambda>_. slot_zero) v)"
      using True k aa by (auto simp: aspace_release_def Let_def split: if_splits)
    moreover have "released (kernel_aspace_id v) i a = None"
      using True by (auto simp: released_def Let_def split: if_splits)
    ultimately show ?thesis by (simp add: aspace_map_def aspace_inv_def)
  next
    case False
    have "slot_map ((aspace_table v)[k := ?y]) = (slot_map (aspace_table v))(i \<mapsto> as_info ?y)"
      using f k aa by (intro slot_map_replace) (simp_all add: find_slot_def)
    moreover have "table_ok ((aspace_table v)[k := ?y]) (next_aspace_id v)"
      using ok f aa by (intro table_ok_update [where nxt = "next_aspace_id v"]) (auto simp: table_ok_def)
    moreover have "aspace_release i v = (True, upd_slot k (\<lambda>_. ?y) v)"
      using False k aa by (auto simp: aspace_release_def Let_def)
    moreover have "released (kernel_aspace_id v) i a = Some (as_info ?y)"
      using False by (auto simp: released_def Let_def)
    ultimately show ?thesis by (simp add: aspace_map_def aspace_inv_def)
  qed
qed

lemma release_None: "aspace_map v i = None \<Longrightarrow> aspace_release i v = (False, v)"
  using find_slot_None [of i v] by (simp add: aspace_release_def)

lemma create_cases:
  assumes inv: "aspace_inv v" and nw: "unat (next_aspace_id v) + 1 < 2 ^ 32"
    and c: "aspace_create kind label v = (i, v')"
  shows "aspace_inv v' \<and> kernel_aspace_id v' = kernel_aspace_id v \<and>
    (i = 0 \<and> aspace_map v' = aspace_map v \<or>
     i = next_aspace_id v \<and> i \<noteq> 0 \<and> aspace_map v i = None \<and>
     (\<exists>a. aspace_map v' = (aspace_map v)(i \<mapsto> a) \<and> ai_id a = i \<and> ai_kind a = kind \<and> ai_refcount a = 1))"
proof (cases "find_index (\<lambda>s. \<not> as_used s) (aspace_table v)")
  case None
  with c inv show ?thesis by (auto simp: aspace_create_def)
next
  case (Some k)
  note k = find_index_SomeD(1,2) [OF Some]
  have ok: "table_ok (aspace_table v) (next_aspace_id v)" using inv by (simp add: aspace_inv_def)
  have n1: "next_aspace_id v < next_aspace_id v + 1" "0 < next_aspace_id v"
    using nw ok by (simp_all add: word_less_nat_alt table_ok_def) (subst unat_add_no_wrap, simp_all)
  note fresh = table_ok_fresh [OF ok]
  define info where "info = info_zero\<lparr>ai_id := next_aspace_id v, ai_kind := kind, ai_refcount := 1,
    ai_cr3 := kernel_cr3 v, ai_user_stack_top := 0, ai_label := copy_label (ai_label info_zero) 24
      (Some (case label of None \<Rightarrow> ''anon'' | Some l \<Rightarrow> l))\<rparr>"
  define v1 where "v1 = (upd_slot k (\<lambda>s. \<lparr>as_used = True, as_info = info, as_user_pt = 0\<rparr>) v)
    \<lparr>next_aspace_id := next_aspace_id v + 1\<rparr>"
  have ii: "ai_id info = next_aspace_id v" "ai_kind info = kind" "ai_refcount info = 1" by (simp_all add: info_def)
  have ins: "slot_map ((aspace_table v)[k := y]) = (slot_map (aspace_table v))(next_aspace_id v \<mapsto> as_info y) \<and>
      table_ok ((aspace_table v)[k := y]) (next_aspace_id v + 1)"
    if "slot_is (next_aspace_id v) y" for y
    using k fresh that ok n1 by (intro conjI slot_map_insert table_ok_update [where nxt = "next_aspace_id v"]) auto
  show ?thesis
  proof (cases "kind = ASPACE_KIND_KERNEL")
    case True
    then have r: "i = next_aspace_id v" "v' = v1"
      using c Some by (auto simp: aspace_create_def Let_def v1_def info_def)
    show ?thesis using ins [of "\<lparr>as_used = True, as_info = info, as_user_pt = 0\<rparr>"] ii fresh n1 r
      by (auto simp: v1_def aspace_map_def aspace_inv_def)
  next
    case False
    obtain r v2 where cl: "clone_kernel_root info v1 = (r, v2)" by fastforce
    note cf = clone_kernel_root_fields [OF cl]
    have tbl2: "aspace_table v2 = (aspace_table v)[k := \<lparr>as_used = True, as_info = info, as_user_pt = 0\<rparr>]"
      "next_aspace_id v2 = next_aspace_id v + 1" "kernel_aspace_id v2 = kernel_aspace_id v"
      using cf(1-3) by (simp_all add: v1_def)
    show ?thesis
    proof (cases r)
      case None
      then have r: "i = 0" "v' = upd_slot k (\<lambda>s. slot_zero) v2"
        using c Some False cl by (simp_all add: aspace_create_def Let_def v1_def info_def)
      have "slot_map ((aspace_table v)[k := slot_zero]) = slot_map (aspace_table v)"
        using k by (intro slot_map_free) (simp_all add: slot_zero_def)
      moreover have "table_ok ((aspace_table v)[k := slot_zero]) (next_aspace_id v + 1)"
        using ok k n1 by (intro table_ok_update [where nxt = "next_aspace_id v"]) (simp_all add: slot_zero_def)
      ultimately show ?thesis using r tbl2 by (simp add: aspace_map_def aspace_inv_def)
    next
      case (Some info')
      let ?y = "\<lparr>as_used = True, as_info = info', as_user_pt = user_pt_of (ai_cr3 info') (vm_phys v2)\<rparr>"
      have r: "i = next_aspace_id v" "v' = upd_slot k (\<lambda>s. s\<lparr>as_info := info',
            as_user_pt := user_pt_of (ai_cr3 info') (vm_phys v2)\<rparr>) v2"
        using c \<open>find_index (\<lambda>s. \<not> as_used s) (aspace_table v) = Some k\<close> False cl Some
        by (simp_all add: aspace_create_def Let_def v1_def info_def)
      have id': "ai_id info' = next_aspace_id v" "ai_kind info' = kind" "ai_refcount info' = 1"
        using cf(5) [OF Some] ii by simp_all
      have "aspace_table v' = (aspace_table v)[k := ?y]" using r(2) tbl2 k(1) by simp
      then show ?thesis using ins [of ?y] id' fresh n1 r tbl2
        by (auto simp: aspace_map_def aspace_inv_def)
    qed
  qed
qed

section \<open>The user window\<close>

lemma unat_page_offset: "unat (a AND 0xfff :: u64) = unat a mod 4096"
proof -
  have "a AND 0xfff = take_bit 12 a" by (simp add: take_bit_eq_mask mask_numeral)
  then show ?thesis by (simp only: unsigned_take_bit_eq) (simp add: take_bit_eq_mod)
qed

lemma ensure_user_page_window:
  assumes "ensure_user_page s (page_of a) v = (True, v')"
  shows "unat ASPACE_USER_BASE \<le> unat a" and "unat a div 4096 * 4096 + 4096 \<le> unat ASPACE_USER_STACK_TOP"
proof -
  have idem: "page_of (page_of a) = page_of a" by (simp add: page_of_def and.assoc)
  have "ASPACE_USER_BASE \<le> page_of a" "page_of a < ASPACE_USER_BASE + ASPACE_USER_WINDOW_SIZE"
    using assms by (auto simp: ensure_user_page_def idem Let_def not_le not_less split: if_splits)
  moreover have "unat (page_of a) = unat a div 4096 * 4096" unfolding page_of_def by (rule unat_and_not_fff)
  ultimately have "unat ASPACE_USER_BASE \<le> unat a div 4096 * 4096" "unat a div 4096 * 4096 < 0x40200000"
    by (simp_all add: word_le_nat_alt word_less_nat_alt ASPACE_USER_BASE_def ASPACE_USER_WINDOW_SIZE_def)
  then show "unat ASPACE_USER_BASE \<le> unat a" and "unat a div 4096 * 4096 + 4096 \<le> unat ASPACE_USER_STACK_TOP"
    by (simp_all add: ASPACE_USER_STACK_TOP_def ASPACE_USER_BASE_def ASPACE_USER_WINDOW_SIZE_def)
qed

lemma store_loop_window:
  assumes "aspace_store_loop s vaddr data v = (True, v')" and "data \<noteq> []"
  shows "unat ASPACE_USER_BASE \<le> unat vaddr \<and> unat vaddr + length data \<le> unat ASPACE_USER_STACK_TOP"
  using assms
proof (induction s vaddr data v rule: aspace_store_loop.induct)
  case (1 s vaddr data v)
  let ?c = "chunk_at vaddr (length data)"
  obtain ok v1 where e: "ensure_user_page s (page_of vaddr) v = (ok, v1)" by fastforce
  let ?dst = "page_of (load64 (vm_phys v1) (as_user_pt s) (pt_index (page_of vaddr))) + (vaddr AND 0xfff)"
  let ?v2 = "v1\<lparr>vm_phys := store_bytes (vm_phys v1) ?dst (take ?c data)\<rparr>"
  have ok: ok and rest: "aspace_store_loop s (vaddr + word_of_nat ?c) (drop ?c data) ?v2 = (True, v')"
    using "1.prems" e by (auto simp: aspace_store_loop.simps [of s vaddr data v] Let_def split: if_splits)
  note w = ensure_user_page_window [OF e [unfolded ok [THEN eqTrueI]]]
  have c: "?c \<le> 4096 - unat vaddr mod 4096" "?c \<le> length data" by (simp_all add: chunk_at_def unat_page_offset)
  have top: "unat ASPACE_USER_STACK_TOP = 0x40200000"
    by (simp add: ASPACE_USER_STACK_TOP_def ASPACE_USER_BASE_def ASPACE_USER_WINDOW_SIZE_def)
  have "unat vaddr + ?c \<le> unat vaddr div 4096 * 4096 + 4096"
    using c(1) mod_less_divisor [of 4096 "unat vaddr"] div_mult_mod_eq [of "unat vaddr" 4096] by linarith
  with w(2) have fin: "unat vaddr + ?c \<le> unat ASPACE_USER_STACK_TOP" by linarith
  then have u: "unat (vaddr + word_of_nat ?c) = unat vaddr + ?c"
    using top by (subst unat_add_no_wrap) (simp_all add: unat_word_of_nat_less)
  show ?case
  proof (cases "drop ?c data = []")
    case True
    with w(1) fin c(2) show ?thesis by simp
  next
    case False
    have "unat ASPACE_USER_BASE \<le> unat (vaddr + word_of_nat ?c) \<and>
      unat (vaddr + word_of_nat ?c) + length (drop ?c data) \<le> unat ASPACE_USER_STACK_TOP"
      using "1.IH" [OF "1.prems"(2) refl refl e [symmetric] refl _ refl rest False] ok by simp
    with u w(1) c(2) show ?thesis by simp
  qed
qed

section \<open>Properties\<close>

definition demo_vm :: vm where
  "demo_vm = aspace_init \<lparr>vm_mem = memory_zero\<lparr>alloc_next := 0x200000, alloc_limit := 0x400000\<rparr>,
     vm_phys = (\<lambda>_. 0), vm_cr3 = 0x1000, aspace_table = [], next_aspace_id = 0, kernel_aspace_id = 0, kernel_cr3 = 0\<rparr>"

lemma init_table: "aspace_init v = v\<lparr>aspace_table := (replicate ASPACE_MAX slot_zero)[0 :=
    \<lparr>as_used = True, as_info = info_zero\<lparr>ai_id := 1, ai_kind := ASPACE_KIND_KERNEL, ai_refcount := 1,
      ai_cr3 := vm_cr3 v, ai_user_stack_top := 0, ai_label := copy_label (ai_label info_zero) 24 (Some ''kernel'')\<rparr>,
     as_user_pt = 0\<rparr>], next_aspace_id := 2, kernel_cr3 := vm_cr3 v, kernel_aspace_id := 1\<rparr>"
proof -
  have "find_index (\<lambda>s. \<not> as_used s) (replicate ASPACE_MAX slot_zero) = Some 0"
    by (rule find_index_eq_SomeI) (simp_all add: ASPACE_MAX_def slot_zero_def)
  then show ?thesis by (simp add: aspace_init_def aspace_create_def Let_def upd_slot_def)
qed

lemma init_inv: "aspace_inv (aspace_init v)"
proof -
  have "table_ok (replicate ASPACE_MAX slot_zero) 1" by (simp add: table_ok_def slot_zero_def)
  then show ?thesis unfolding init_table aspace_inv_def
    by (simp, intro table_ok_update [where nxt = 1]) (simp_all add: ASPACE_MAX_def)
qed

lemma init_map: "aspace_map (aspace_init v) 1 = Some (info_zero\<lparr>ai_id := 1, ai_kind := ASPACE_KIND_KERNEL,
    ai_refcount := 1, ai_cr3 := vm_cr3 v, ai_user_stack_top := 0, ai_label := copy_label (ai_label info_zero) 24 (Some ''kernel'')\<rparr>)"
proof -
  have z: "0 < length (replicate ASPACE_MAX slot_zero)" "\<not> as_used (replicate ASPACE_MAX slot_zero ! 0)"
    "slot_map (replicate ASPACE_MAX slot_zero) 1 = None"
    by (simp_all add: ASPACE_MAX_def slot_zero_def slot_map_def find_index_None)
  show ?thesis unfolding init_table aspace_map_def by (simp add: slot_map_insert [OF z(1,2) _ z(3)])
qed

text \<open>\<open>aspace_create\<close> implements the insertion of a fresh entry.  It keeps the table invariant; it
  either returns 0 and changes no address space, or returns an id that was not in use, with
  exactly that entry added, reference count 1 and the requested kind.\<close>

theorem aspace_create_refines:
  assumes "aspace_inv v" and "unat (next_aspace_id v) + 1 < 2 ^ 32" and "aspace_create kind label v = (i, v')"
  shows "aspace_inv v' \<and> (i = 0 \<and> aspace_map v' = aspace_map v \<or>
     i \<noteq> 0 \<and> aspace_map v i = None \<and>
     (\<exists>a. aspace_map v' = (aspace_map v)(i \<mapsto> a) \<and> ai_id a = i \<and> ai_kind a = kind \<and> ai_refcount a = 1))"
  using create_cases [OF assms] by blast

theorem aspace_create_refines_witness:
  "\<exists>v'. aspace_create 1 None demo_vm = (2, v') \<and> aspace_inv v' \<and> aspace_map demo_vm 2 = None"
proof -
  have inv: "aspace_inv demo_vm" "next_aspace_id demo_vm = 2"
    by (simp_all add: demo_vm_def init_inv) (simp add: init_table)
  have "find_index (\<lambda>s. \<not> as_used s) (aspace_table demo_vm) = Some 1"
    by (rule find_index_eq_SomeI) (simp_all add: demo_vm_def init_table ASPACE_MAX_def slot_zero_def nth_list_update)
  then obtain v' where c: "aspace_create 1 None demo_vm = (2, v')"
    using inv(2) by (simp add: aspace_create_def Let_def ASPACE_KIND_KERNEL_def)
  from aspace_create_refines [OF inv(1) _ c] inv(2) c show ?thesis by auto
qed

text \<open>C31: \<open>aspace_retain\<close> and \<open>aspace_release\<close> implement reference counting on the map: retain adds one
  reference, release takes one away, and an address space other than the kernel's disappears
  exactly when its last reference is released; every other entry is untouched.\<close>

theorem aspace_refcount_refines:
  assumes "aspace_inv v" and "aspace_map v i = Some a"
  shows "(\<exists>v'. aspace_retain i v = (True, v') \<and> aspace_inv v' \<and>
      aspace_map v' = (aspace_map v)(i \<mapsto> a\<lparr>ai_refcount := ai_refcount a + 1\<rparr>)) \<and>
    (\<exists>v'. aspace_release i v = (True, v') \<and> aspace_inv v' \<and>
      aspace_map v' = (aspace_map v)(i := released (kernel_aspace_id v) i a))"
  using retain_Some [OF assms] release_Some [OF assms] by blast

theorem aspace_refcount_refines_witness:
  "\<exists>v'. aspace_retain 1 demo_vm = (True, v') \<and> map_option ai_refcount (aspace_map v' 1) = Some 2"
proof -
  have "aspace_inv demo_vm" by (simp add: demo_vm_def init_inv)
  from aspace_refcount_refines [OF this init_map [of "\<lparr>vm_mem = memory_zero\<lparr>alloc_next := 0x200000, alloc_limit := 0x400000\<rparr>,
     vm_phys = (\<lambda>_. 0), vm_cr3 = 0x1000, aspace_table = [], next_aspace_id = 0, kernel_aspace_id = 0, kernel_cr3 = 0\<rparr>",
      folded demo_vm_def]]
  show ?thesis by auto
qed

text \<open>\<open>aspace_write\<close> and \<open>aspace_zero\<close> succeed only on ranges that lie wholly inside the user
  window; in particular no user image can be written over kernel mappings.\<close>

theorem aspace_write_in_window:
  assumes "aspace_write i vaddr data v = (True, v')" and "data \<noteq> []"
  shows "unat ASPACE_USER_BASE \<le> unat vaddr \<and> unat vaddr + length data \<le> unat ASPACE_USER_STACK_TOP"
  using assms store_loop_window by (auto simp: aspace_write_def split: option.splits)

definition demo_user_vm :: vm where
  "demo_user_vm = \<lparr>vm_mem = memory_zero, vm_phys = (\<lambda>x. if x = 0x5000 then 7 else 0), vm_cr3 = 0x1000,
     aspace_table = [\<lparr>as_used = True, as_info = info_zero\<lparr>ai_id := 5\<rparr>, as_user_pt = 0x5000\<rparr>],
     next_aspace_id = 6, kernel_aspace_id = 1, kernel_cr3 = 0x1000\<rparr>"

lemma demo_user_write: "fst (aspace_write 5 0x40000010 [1, 2] demo_user_vm)"
proof -
  have e: "load64 (vm_phys demo_user_vm) 0x5000 0 = 7"
  proof -
    have "load_bytes (vm_phys demo_user_vm) 0x5000 8 = [7, 0, 0, 0, 0, 0, 0, 0]"
      by (simp add: load_bytes_def demo_user_vm_def upt_rec)
    then show ?thesis by (simp add: load64_def get64_def)
  qed
  have p: "page_of 0x40000010 = 0x40000000" "page_of 0x40000000 = 0x40000000" "pt_index 0x40000000 = 0"
    by (simp_all add: page_of_def pt_index_def)
  have "ensure_user_page (aspace_table demo_user_vm ! 0) 0x40000000 demo_user_vm = (True, demo_user_vm)"
    using e by (simp add: ensure_user_page_def p ASPACE_USER_BASE_def ASPACE_USER_WINDOW_SIZE_def)
      (simp add: demo_user_vm_def)
  moreover have "find_slot 5 demo_user_vm = Some 0" by (simp add: find_slot_def demo_user_vm_def)
  moreover have "chunk_at 0x40000010 (Suc (Suc 0)) = 2" by (simp add: chunk_at_def)
  ultimately show ?thesis
    by (simp add: aspace_write_def Let_def p aspace_store_loop.simps [of "aspace_table demo_user_vm ! 0" "0x40000010" "[1, 2]"]
        aspace_store_loop.simps [of _ _ "[]"])
qed

theorem aspace_write_in_window_witness:
  "unat (0x40000010 :: u64) + length [1, 2 :: u8] \<le> unat ASPACE_USER_STACK_TOP"
proof -
  obtain v' where "aspace_write 5 0x40000010 [1, 2] demo_user_vm = (True, v')"
    using demo_user_write by (cases "aspace_write 5 0x40000010 [1, 2] demo_user_vm") simp
  from aspace_write_in_window [OF this] show ?thesis by simp
qed

end
