(* ===== verification/Fs.thy ===== *)
theory Fs
  imports C_String Elf Trace_Types Block_Device Aspace
begin

text \<open>
  The on-disk filesystem of \<open>kernel/fs.c\<close>: a superblock, a table of 32 inodes and contiguous
  extents for trace sessions and executables, over the block interface of \<open>Block_Device\<close>.
  The static variables and the disk are the record \<open>fs_state\<close>; the packed structures have
  their byte layout (\<open>put_superblock\<close>, \<open>put_inode\<close>), because they are what the disk holds.
  Reading a file into a caller's buffer reports \<open>Read_Overrun\<close> where the C code would write
  behind the buffer.  The lines \<open>fs_init\<close> prints are left to the console.
\<close>

section \<open>Definitions\<close>

definition FS_MAGIC :: u32 where "FS_MAGIC = 0x43445836"
definition FS_VERSION :: u32 where "FS_VERSION = 3"
definition FS_START_LBA :: u32 where "FS_START_LBA = 2048"
definition FS_TOTAL_SECTORS :: u32 where "FS_TOTAL_SECTORS = 4096"
definition FS_INODE_SECTORS :: u32 where "FS_INODE_SECTORS = 8"
definition FS_DATA_START_LBA :: u32 where "FS_DATA_START_LBA = FS_START_LBA + 1 + FS_INODE_SECTORS"
definition FS_MAX_INODES :: nat where "FS_MAX_INODES = 32"
definition FS_SECTOR_SIZE :: u32 where "FS_SECTOR_SIZE = 512"
definition INODE_TYPE_NONE :: u32 where "INODE_TYPE_NONE = 0"
definition INODE_TYPE_TRACE :: u32 where "INODE_TYPE_TRACE = 1"
definition INODE_TYPE_EXEC :: u32 where "INODE_TYPE_EXEC = 2"

lemmas fs_consts = FS_MAGIC_def FS_VERSION_def FS_START_LBA_def FS_TOTAL_SECTORS_def
  FS_INODE_SECTORS_def FS_DATA_START_LBA_def FS_SECTOR_SIZE_def INODE_TYPE_NONE_def
  INODE_TYPE_TRACE_def INODE_TYPE_EXEC_def

subsection \<open>On-disk structures\<close>

record fs_superblock =
  sb_magic :: u32
  sb_version :: u32
  sb_total_sectors :: u32
  sb_inode_count :: u32
  sb_inode_table_lba :: u32
  sb_data_start_lba :: u32
  sb_next_free_lba :: u32
  sb_next_session_id :: u32
  sb_reserved :: "u8 list"

record fs_inode =
  i_used :: u32
  i_type :: u32
  i_session_id :: u32
  i_size_bytes :: u32
  i_profile_id :: u32
  i_start_lba :: u32
  i_sector_count :: u32
  i_created_ticks :: u64
  i_duration_ticks :: u64
  i_event_count :: u64
  i_sequence_hash :: u64
  i_name :: "char list"
  i_reserved :: "u8 list"

record 'd fs_state =
  superblock :: fs_superblock
  inodes :: "fs_inode list"
  fs_online :: bool
  disk :: 'd

definition superblock_zero :: fs_superblock where
  "superblock_zero = \<lparr>sb_magic = 0, sb_version = 0, sb_total_sectors = 0, sb_inode_count = 0,
     sb_inode_table_lba = 0, sb_data_start_lba = 0, sb_next_free_lba = 0,
     sb_next_session_id = 0, sb_reserved = replicate 480 0\<rparr>"

definition inode_zero :: fs_inode where
  "inode_zero = \<lparr>i_used = 0, i_type = 0, i_session_id = 0, i_size_bytes = 0, i_profile_id = 0,
     i_start_lba = 0, i_sector_count = 0, i_created_ticks = 0, i_duration_ticks = 0,
     i_event_count = 0, i_sequence_hash = 0, i_name = replicate 24 NUL,
     i_reserved = replicate 44 0\<rparr>"

definition byte_of_char :: "char \<Rightarrow> u8" where "byte_of_char c = word_of_nat (of_char c)"
definition char_of_byte :: "u8 \<Rightarrow> char" where "char_of_byte b = char_of (unat b)"

definition put_superblock :: "fs_superblock \<Rightarrow> u8 list" where
  "put_superblock s = put32 (sb_magic s) @ put32 (sb_version s) @ put32 (sb_total_sectors s) @
     put32 (sb_inode_count s) @ put32 (sb_inode_table_lba s) @ put32 (sb_data_start_lba s) @
     put32 (sb_next_free_lba s) @ put32 (sb_next_session_id s) @ sb_reserved s"

definition get_superblock :: "u8 list \<Rightarrow> fs_superblock" where
  "get_superblock m = \<lparr>sb_magic = get32 m 0, sb_version = get32 m 4, sb_total_sectors = get32 m 8,
     sb_inode_count = get32 m 12, sb_inode_table_lba = get32 m 16, sb_data_start_lba = get32 m 20,
     sb_next_free_lba = get32 m 24, sb_next_session_id = get32 m 28,
     sb_reserved = take 480 (drop 32 m)\<rparr>"

definition put_inode :: "fs_inode \<Rightarrow> u8 list" where
  "put_inode i = put32 (i_used i) @ put32 (i_type i) @ put32 (i_session_id i) @
     put32 (i_size_bytes i) @ put32 (i_profile_id i) @ put32 (i_start_lba i) @
     put32 (i_sector_count i) @ put64 (i_created_ticks i) @ put64 (i_duration_ticks i) @
     put64 (i_event_count i) @ put64 (i_sequence_hash i) @ map byte_of_char (i_name i) @ i_reserved i"

definition get_inode :: "u8 list \<Rightarrow> fs_inode" where
  "get_inode m = \<lparr>i_used = get32 m 0, i_type = get32 m 4, i_session_id = get32 m 8,
     i_size_bytes = get32 m 12, i_profile_id = get32 m 16, i_start_lba = get32 m 20,
     i_sector_count = get32 m 24, i_created_ticks = get64 m 28, i_duration_ticks = get64 m 36,
     i_event_count = get64 m 44, i_sequence_hash = get64 m 52,
     i_name = map char_of_byte (take 24 (drop 60 m)), i_reserved = take 44 (drop 84 m)\<rparr>"

definition put_inodes :: "fs_inode list \<Rightarrow> u8 list" where
  "put_inodes is = concat (map put_inode is)"

fun get_inodes :: "nat \<Rightarrow> u8 list \<Rightarrow> fs_inode list" where
  "get_inodes 0 m = []"
| "get_inodes (Suc n) m = get_inode m # get_inodes n (drop 128 m)"

subsection \<open>Table searches\<close>

definition is_trace :: "fs_inode \<Rightarrow> bool" where
  "is_trace i \<longleftrightarrow> i_used i \<noteq> 0 \<and> i_type i = INODE_TYPE_TRACE"

definition is_exec :: "fs_inode \<Rightarrow> bool" where
  "is_exec i \<longleftrightarrow> i_used i \<noteq> 0 \<and> i_type i = INODE_TYPE_EXEC"

definition fs_trace_count :: "'d fs_state \<Rightarrow> u32" where
  "fs_trace_count st = word_of_nat (length (filter is_trace (inodes st)))"

definition fs_find_exec :: "char list \<Rightarrow> 'd fs_state \<Rightarrow> nat option" where
  "fs_find_exec path st = find_index (\<lambda>i. is_exec i \<and> strcmp (i_name i) path = 0) (inodes st)"

definition fs_find_session :: "u32 \<Rightarrow> 'd fs_state \<Rightarrow> nat option" where
  "fs_find_session sid st = find_index (\<lambda>i. is_trace i \<and> i_session_id i = sid) (inodes st)"

definition fs_alloc_inode :: "'d fs_state \<Rightarrow> (nat \<times> 'd fs_state) option" where
  "fs_alloc_inode st =
     (case find_index (\<lambda>i. i_used i = 0) (inodes st) of
        None \<Rightarrow> None
      | Some k \<Rightarrow> Some (k, st\<lparr>inodes := (inodes st)[k := inode_zero\<lparr>i_used := 1\<rparr>]\<rparr>))"

function copy_name_loop :: "char list \<Rightarrow> nat \<Rightarrow> char list \<Rightarrow> nat \<Rightarrow> char list \<times> nat" where
  "copy_name_loop dst cap src len =
     (if cdref (drop len src) \<noteq> NUL \<and> len + 1 < cap
      then copy_name_loop (dst[len := cdref (drop len src)]) cap src (Suc len)
      else (dst[len := NUL], len))"
  by pat_completeness auto
termination
  by (relation "measure (\<lambda>(dst, cap, src, len). cap - len)") auto

declare copy_name_loop.simps [simp del]

definition copy_name :: "char list \<Rightarrow> nat \<Rightarrow> char list \<Rightarrow> char list" where
  "copy_name dst cap src = fst (copy_name_loop dst cap src 0)"

subsection \<open>Executable images\<close>

definition ring3demo_code :: "u8 list" where
  "ring3demo_code = [
    0x66, 0xb8, 0x33, 0x00, 0x8e, 0xd8, 0x8e, 0xc0, 0x8e, 0xe0, 0x8e, 0xe8,
    0xb8, 0x01, 0x00, 0x00, 0x00, 0x48, 0x8d, 0x1d, 0x11, 0x00, 0x00, 0x00,
    0xb9, 0x21, 0x00, 0x00, 0x00, 0xcd, 0x80, 0xb8, 0x03, 0x00, 0x00, 0x00,
    0xcd, 0x80, 0xf4, 0xeb, 0xfd, 0x72, 0x69, 0x6e, 0x67, 0x33, 0x20, 0x66,
    0x69, 0x6c, 0x65, 0x2d, 0x62, 0x61, 0x63, 0x6b, 0x65, 0x64, 0x20, 0x65,
    0x6c, 0x66, 0x20, 0x73, 0x61, 0x79, 0x73, 0x20, 0x68, 0x65, 0x6c, 0x6c,
    0x6f, 0x0a]"

definition stub_exec_code :: "u8 list" where
  "stub_exec_code = [0xf4, 0xeb, 0xfd]"

definition exec_ehdr :: "u64 \<Rightarrow> elf64_ehdr" where
  "exec_ehdr entry = \<lparr>eh_ident = [0x7f, 0x45, 0x4c, 0x46, 2, 1, 1, 0, 0, 0, 0, 0, 0, 0, 0, 0],
     eh_type = 2, eh_machine = 62, eh_version = 1, eh_entry = entry, eh_phoff = 64,
     eh_shoff = 0, eh_flags = 0, eh_ehsize = 64, eh_phentsize = 56, eh_phnum = 1,
     eh_shentsize = 0, eh_shnum = 0, eh_shstrndx = 0\<rparr>"

definition exec_phdr :: "u64 \<Rightarrow> u64 \<Rightarrow> elf64_phdr" where
  "exec_phdr vaddr bytes = \<lparr>ph_type = 1, ph_flags = 5, ph_offset = 0, ph_vaddr = vaddr,
     ph_paddr = vaddr, ph_filesz = bytes, ph_memsz = bytes, ph_align = 0x1000\<rparr>"

text \<open>The image and its length; the empty image when the caller's buffer is too small.\<close>

definition build_ring3demo_image :: "nat \<Rightarrow> u8 list" where
  "build_ring3demo_image cap =
     (let code_off = EHDR_SIZE + PHDR_SIZE; n = code_off + length ring3demo_code in
      if cap < n then []
      else write_ehdr (exec_ehdr (ASPACE_USER_BASE + word_of_nat code_off)) @
           write_phdr (exec_phdr ASPACE_USER_BASE (word_of_nat n)) @ ring3demo_code)"

definition build_stub_exec_image :: "nat \<Rightarrow> u64 \<Rightarrow> u8 list" where
  "build_stub_exec_image cap entry =
     (let code_off = EHDR_SIZE + PHDR_SIZE; n = code_off + length stub_exec_code in
      if cap < n then []
      else write_ehdr (exec_ehdr entry) @
           write_phdr (exec_phdr 0x401000 (word_of_nat n)) @ stub_exec_code)"

subsection \<open>Metadata on disk\<close>

definition fs_flush_superblock :: "'d blockdev \<Rightarrow> 'd fs_state \<Rightarrow> bool \<times> 'd fs_state" where
  "fs_flush_superblock B st =
     (let (ok, d) = bd_write B FS_START_LBA 1 (put_superblock (superblock st)) (disk st)
      in (ok, st\<lparr>disk := d\<rparr>))"

definition fs_flush_inodes :: "'d blockdev \<Rightarrow> 'd fs_state \<Rightarrow> bool \<times> 'd fs_state" where
  "fs_flush_inodes B st =
     (let (ok, d) = bd_write B (FS_START_LBA + 1) 8 (put_inodes (inodes st)) (disk st)
      in (ok, st\<lparr>disk := d\<rparr>))"

text \<open>
  A transfer overwrites the front of the destination, a static structure: what it did not
  reach keeps its old bytes.
\<close>

definition overlay :: "u8 list \<Rightarrow> u8 list \<Rightarrow> u8 list" where
  "overlay new old = new @ drop (length new) old"

definition fs_load :: "'d blockdev \<Rightarrow> 'd fs_state \<Rightarrow> bool \<times> 'd fs_state" where
  "fs_load B st =
     (let (ok1, bs1, d1) = bd_read B FS_START_LBA 1 (disk st);
          st1 = st\<lparr>disk := d1, superblock := get_superblock (overlay bs1 (put_superblock (superblock st)))\<rparr>
      in if \<not> ok1 then (False, st1)
         else
           (let (ok2, bs2, d2) = bd_read B (FS_START_LBA + 1) 8 (disk st1);
                st2 = st1\<lparr>disk := d2, inodes := get_inodes FS_MAX_INODES (overlay bs2 (put_inodes (inodes st1)))\<rparr>
            in (ok2, st2)))"

definition fs_format :: "'d blockdev \<Rightarrow> 'd fs_state \<Rightarrow> bool \<times> 'd fs_state" where
  "fs_format B st =
     (let st1 = st\<lparr>superblock := superblock_zero\<lparr>sb_magic := FS_MAGIC, sb_version := FS_VERSION,
            sb_total_sectors := FS_TOTAL_SECTORS, sb_inode_count := word_of_nat FS_MAX_INODES,
            sb_inode_table_lba := FS_START_LBA + 1, sb_data_start_lba := FS_DATA_START_LBA,
            sb_next_free_lba := FS_DATA_START_LBA, sb_next_session_id := 1\<rparr>,
            inodes := replicate FS_MAX_INODES inode_zero\<rparr>;
          (ok1, st2) = fs_flush_superblock B st1
      in if \<not> ok1 then (False, st2) else fs_flush_inodes B st2)"

subsection \<open>Files\<close>

definition sector_count_for :: "u32 \<Rightarrow> u32" where
  "sector_count_for bytes =
     (let s = (bytes + FS_SECTOR_SIZE - 1) div FS_SECTOR_SIZE in if s = 0 then 1 else s)"

text \<open>The sector buffer of iteration \<open>i\<close>: a zeroed sector with the next chunk copied in.\<close>

definition write_chunk :: "u32 \<Rightarrow> nat \<Rightarrow> u32" where
  "write_chunk bytes i =
     (let offset = word_of_nat i * FS_SECTOR_SIZE;
          chunk = (if bytes > offset then bytes - offset else 0)
      in if chunk > FS_SECTOR_SIZE then FS_SECTOR_SIZE else chunk)"

definition sector_buf :: "u8 list \<Rightarrow> u32 \<Rightarrow> nat \<Rightarrow> u8 list" where
  "sector_buf src bytes i =
     memcpy (replicate SECTOR_SIZE 0) (drop (unat (word_of_nat i * FS_SECTOR_SIZE :: u32)) src)
       (unat (write_chunk bytes i))"

fun fs_write_loop :: "'d blockdev \<Rightarrow> u8 list \<Rightarrow> u32 \<Rightarrow> u32 \<Rightarrow> nat \<Rightarrow> nat \<Rightarrow> 'd \<Rightarrow> bool \<times> 'd" where
  "fs_write_loop B src bytes start i 0 d = (True, d)"
| "fs_write_loop B src bytes start i (Suc n) d =
     (let (ok, d') = bd_write B (start + word_of_nat i) 1 (sector_buf src bytes i) d
      in if ok then fs_write_loop B src bytes start (Suc i) n d' else (False, d'))"

definition fs_no_room :: "u32 \<Rightarrow> 'd fs_state \<Rightarrow> bool" where
  "fs_no_room sectors st \<longleftrightarrow>
     sb_next_free_lba (superblock st) + sectors > FS_START_LBA + FS_TOTAL_SECTORS"

definition upd_inode :: "nat \<Rightarrow> (fs_inode \<Rightarrow> fs_inode) \<Rightarrow> 'd fs_state \<Rightarrow> 'd fs_state" where
  "upd_inode k f st = st\<lparr>inodes := (inodes st)[k := f (inodes st ! k)]\<rparr>"

definition fs_write_raw_file :: "'d blockdev \<Rightarrow> nat \<Rightarrow> u8 list \<Rightarrow> u32 \<Rightarrow> 'd fs_state \<Rightarrow> bool \<times> 'd fs_state" where
  "fs_write_raw_file B k src bytes st =
     (let sectors = sector_count_for bytes; start = sb_next_free_lba (superblock st) in
      if fs_no_room sectors st then (False, st)
      else
        (let (ok, d) = fs_write_loop B src bytes start 0 (unat sectors) (disk st);
             st1 = st\<lparr>disk := d\<rparr>
         in if \<not> ok then (False, st1)
            else
              (True,
               (upd_inode k (\<lambda>i. i\<lparr>i_size_bytes := bytes, i_start_lba := start,
                  i_sector_count := sectors\<rparr>) st1)
               \<lparr>superblock := (superblock st1)\<lparr>sb_next_free_lba := start + sectors\<rparr>\<rparr>)))"

definition fs_seed_exec_file :: "'d blockdev \<Rightarrow> char list \<Rightarrow> u8 list \<Rightarrow> 'd fs_state \<Rightarrow> bool \<times> 'd fs_state" where
  "fs_seed_exec_file B path data st =
     (if fs_find_exec path st \<noteq> None then (True, st)
      else
        (case fs_alloc_inode st of
           None \<Rightarrow> (False, st)
         | Some (k, st1) \<Rightarrow>
             (let st2 = upd_inode k (\<lambda>i. i\<lparr>i_type := INODE_TYPE_EXEC,
                    i_name := copy_name (i_name i) 24 path\<rparr>) st1;
                  (ok, st3) = fs_write_raw_file B k data (word_of_nat (length data)) st2
              in if ok then (True, st3) else (False, upd_inode k (\<lambda>i. i\<lparr>i_used := 0\<rparr>) st3))))"

definition fs_seed_execs :: "'d blockdev \<Rightarrow> 'd fs_state \<Rightarrow> 'd fs_state" where
  "fs_seed_execs B st =
     (let seed = (\<lambda>path img s. if img = [] then s else snd (fs_seed_exec_file B path img s));
          s1 = seed ''/bin/ring3demo'' (build_ring3demo_image 256) st;
          s2 = seed ''/bin/ping'' (build_stub_exec_image 128 0x401000) s1;
          s3 = seed ''/bin/ps'' (build_stub_exec_image 128 0x401080) s2
      in seed ''/bin/netstat'' (build_stub_exec_image 128 0x4010c0) s3)"

datatype fs_boot = Fs_No_Ata | Fs_Format_Failed | Fs_Ready

definition fs_init :: "'d blockdev \<Rightarrow> 'd fs_state \<Rightarrow> fs_boot \<times> 'd fs_state" where
  "fs_init B st =
     (let st0 = st\<lparr>disk := bd_init B (disk st), fs_online := False\<rparr> in
      if \<not> bd_ready B (disk st0) then (Fs_No_Ata, st0)
      else
        (let (ok, st1) = fs_load B st0;
             (ok2, st2) =
               (if \<not> ok \<or> sb_magic (superblock st1) \<noteq> FS_MAGIC \<or> sb_version (superblock st1) \<noteq> FS_VERSION
                then (let (f, s) = fs_format B st1 in if f then fs_load B s else (False, s))
                else (True, st1))
         in if \<not> ok2 then (Fs_Format_Failed, st2)
            else
              (let st3 = fs_seed_execs B (st2\<lparr>fs_online := True\<rparr>);
                   st4 = snd (fs_flush_inodes B st3)
               in (Fs_Ready, snd (fs_flush_superblock B st4)))))"

text \<open>\<open>info\<close> may be \<open>NULL\<close>; the result carries the new session id.\<close>

definition fs_write_trace_session ::
  "'d blockdev \<Rightarrow> u8 list \<Rightarrow> u32 \<Rightarrow> trace_session_info option \<Rightarrow> 'd fs_state \<Rightarrow> u32 option \<times> 'd fs_state" where
  "fs_write_trace_session B data bytes info st =
     (if \<not> fs_online st then (None, st)
      else
        (let sectors = sector_count_for bytes in
         if fs_no_room sectors st then (None, st)
         else
           (case fs_alloc_inode st of
              None \<Rightarrow> (None, st)
            | Some (k, st1) \<Rightarrow>
                (let start = sb_next_free_lba (superblock st1);
                     (ok, d) = fs_write_loop B data bytes start 0 (unat sectors) (disk st1);
                     st2 = st1\<lparr>disk := d\<rparr>
                 in if \<not> ok then (None, upd_inode k (\<lambda>i. i\<lparr>i_used := 0\<rparr>) st2)
                    else
                      (let sid = sb_next_session_id (superblock st2);
                           st3 = (upd_inode k (\<lambda>i. i\<lparr>i_type := INODE_TYPE_TRACE,
                               i_session_id := sid, i_size_bytes := bytes,
                               i_profile_id := (case info of None \<Rightarrow> 0 | Some n \<Rightarrow> si_profile_id n),
                               i_start_lba := start, i_sector_count := sectors,
                               i_created_ticks := (case info of None \<Rightarrow> 0 | Some n \<Rightarrow> si_start_ticks n),
                               i_duration_ticks := (case info of None \<Rightarrow> 0 | Some n \<Rightarrow> si_duration_ticks n),
                               i_event_count := (case info of
                                   None \<Rightarrow> ucast (bytes div word_of_nat EVENT_SIZE)
                                 | Some n \<Rightarrow> ucast (si_event_count n)),
                               i_sequence_hash := (case info of None \<Rightarrow> 0 | Some n \<Rightarrow> si_sequence_hash n)\<rparr>) st2)
                             \<lparr>superblock := (superblock st2)\<lparr>sb_next_session_id := sid + 1,
                                sb_next_free_lba := sb_next_free_lba (superblock st2) + sectors\<rparr>\<rparr>;
                           (ok1, st4) = fs_flush_inodes B st3
                       in if \<not> ok1 then (None, st4)
                          else
                            (let (ok2, st5) = fs_flush_superblock B st4
                             in if ok2 then (Some sid, st5) else (None, st5)))))))"

text \<open>The buffer after the call; \<open>Read_Ok\<close> also has the reported length.\<close>

datatype fs_read = Read_Fail "u8 list" | Read_Overrun | Read_Ok u32 "u8 list"

definition memcpy_at :: "u8 list \<Rightarrow> nat \<Rightarrow> u8 list \<Rightarrow> nat \<Rightarrow> u8 list option" where
  "memcpy_at buf off src n =
     (if off + n \<le> length buf then Some (take off buf @ take n src @ drop (off + n) buf) else None)"

definition read_chunk :: "fs_inode \<Rightarrow> nat \<Rightarrow> u32" where
  "read_chunk ino i =
     (let chunk = i_size_bytes ino - word_of_nat i * FS_SECTOR_SIZE
      in if chunk > FS_SECTOR_SIZE then FS_SECTOR_SIZE else chunk)"

fun fs_read_loop :: "'d blockdev \<Rightarrow> fs_inode \<Rightarrow> nat \<Rightarrow> nat \<Rightarrow> u8 list \<Rightarrow> 'd \<Rightarrow> fs_read \<times> 'd" where
  "fs_read_loop B ino i 0 buf d = (Read_Ok (i_size_bytes ino) buf, d)"
| "fs_read_loop B ino i (Suc n) buf d =
     (let (ok, bs, d') = bd_read B (i_start_lba ino + word_of_nat i) 1 d in
      if \<not> ok then (Read_Fail buf, d')
      else
        (case memcpy_at buf (unat (word_of_nat i * FS_SECTOR_SIZE :: u32)) bs (unat (read_chunk ino i)) of
           None \<Rightarrow> (Read_Overrun, d')
         | Some buf' \<Rightarrow> fs_read_loop B ino (Suc i) n buf' d'))"

definition fs_read_inode :: "'d blockdev \<Rightarrow> nat \<Rightarrow> u8 list \<Rightarrow> 'd fs_state \<Rightarrow> fs_read \<times> 'd fs_state" where
  "fs_read_inode B k buf st =
     (let ino = inodes st ! k;
          (r, d) = fs_read_loop B ino 0 (unat (i_sector_count ino)) buf (disk st)
      in (r, st\<lparr>disk := d\<rparr>))"

definition fs_read_trace_session :: "'d blockdev \<Rightarrow> u32 \<Rightarrow> u8 list \<Rightarrow> 'd fs_state \<Rightarrow> fs_read \<times> 'd fs_state" where
  "fs_read_trace_session B sid buf st =
     (case fs_find_session sid st of
        None \<Rightarrow> (Read_Fail buf, st)
      | Some k \<Rightarrow> if \<not> fs_online st then (Read_Fail buf, st) else fs_read_inode B k buf st)"

definition fs_read_exec_file :: "'d blockdev \<Rightarrow> char list \<Rightarrow> u8 list \<Rightarrow> 'd fs_state \<Rightarrow> fs_read \<times> 'd fs_state" where
  "fs_read_exec_file B path buf st =
     (case fs_find_exec path st of
        None \<Rightarrow> (Read_Fail buf, st)
      | Some k \<Rightarrow> if \<not> fs_online st then (Read_Fail buf, st) else fs_read_inode B k buf st)"

definition inode_session_info :: "fs_inode \<Rightarrow> trace_session_info" where
  "inode_session_info i = \<lparr>si_session_id = i_session_id i, si_size_bytes = i_size_bytes i,
     si_event_count = ucast (i_event_count i), si_profile_id = i_profile_id i,
     si_start_ticks = i_created_ticks i, si_duration_ticks = i_duration_ticks i,
     si_sequence_hash = i_sequence_hash i\<rparr>"

definition fs_get_trace_session_info :: "u32 \<Rightarrow> 'd fs_state \<Rightarrow> trace_session_info option" where
  "fs_get_trace_session_info sid st =
     (case fs_find_session sid st of
        None \<Rightarrow> None
      | Some k \<Rightarrow> if fs_online st then Some (inode_session_info (inodes st ! k)) else None)"

record fs_stats =
  fss_online :: u32
  fss_version :: u32
  fss_total_sectors :: u32
  fss_data_start_lba :: u32
  fss_next_free_lba :: u32
  fss_trace_files :: u32

definition fs_get_stats :: "'d fs_state \<Rightarrow> fs_stats" where
  "fs_get_stats st = \<lparr>fss_online = c_bool (fs_online st), fss_version = sb_version (superblock st),
     fss_total_sectors = sb_total_sectors (superblock st),
     fss_data_start_lba = sb_data_start_lba (superblock st),
     fss_next_free_lba = sb_next_free_lba (superblock st), fss_trace_files = fs_trace_count st\<rparr>"

record fs_trace_file_info =
  tf_session_id :: u32
  tf_size_bytes :: u32
  tf_profile_id :: u32
  tf_event_count :: u64
  tf_duration_ticks :: u64

definition fs_snapshot_traces :: "nat \<Rightarrow> 'd fs_state \<Rightarrow> fs_trace_file_info list" where
  "fs_snapshot_traces max_entries st =
     take max_entries
       (map (\<lambda>i. \<lparr>tf_session_id = i_session_id i, tf_size_bytes = i_size_bytes i,
            tf_profile_id = i_profile_id i, tf_event_count = i_event_count i,
            tf_duration_ticks = i_duration_ticks i\<rparr>)
          (filter is_trace (inodes st)))"

definition fs_snapshot_execs :: "nat \<Rightarrow> 'd fs_state \<Rightarrow> char list list" where
  "fs_snapshot_execs max_entries st =
     take max_entries
       (map (\<lambda>i. copy_name (replicate 32 NUL) 32 (i_name i)) (filter is_exec (inodes st)))"

text \<open>The read of \<open>fs_traceview\<close>: its buffer holds 128 events.\<close>

definition fs_traceview_read :: "'d blockdev \<Rightarrow> u32 \<Rightarrow> 'd fs_state \<Rightarrow> fs_read \<times> 'd fs_state" where
  "fs_traceview_read B sid st = fs_read_trace_session B sid (replicate (128 * EVENT_SIZE) 0) st"

end
