(* ===== verification/Io.thy ===== *)
theory Io
  imports Prelude
begin

text \<open>
  Port input and output (\<open>include/io.h\<close>).  The machine behind the ports is not part of the
  kernel: its state is a type parameter, and the four instructions are functions of it.  A
  read may change that state (a device register can be cleared by reading it).
\<close>

record 'h ports =
  in_b :: "u16 \<Rightarrow> 'h \<Rightarrow> u8 \<times> 'h"
  out_b :: "u16 \<Rightarrow> u8 \<Rightarrow> 'h \<Rightarrow> 'h"
  in_w :: "u16 \<Rightarrow> 'h \<Rightarrow> u16 \<times> 'h"
  out_w :: "u16 \<Rightarrow> u16 \<Rightarrow> 'h \<Rightarrow> 'h"

end
