(* ===== verification/Ata.thy ===== *)
theory Ata
  imports Io Block_Device
begin

text \<open>
  The ATA PIO driver (\<open>kernel/ata.c\<close>) over the port interface.  The drive is not part of the
  kernel: the locale \<open>ata_device\<close> states the documented register protocol of a 28-bit PIO
  drive (the command block registers, one data request per sector, 256 words each), and the
  driver is shown to provide the \<open>block_device\<close> contract over every such drive.  A drive with
  a seek latency is emulated at the end and interprets the contract.
\<close>

section \<open>Definitions\<close>

definition ATA_REG_DATA :: u16 where "ATA_REG_DATA = 0x1f0"
definition ATA_REG_SECCOUNT0 :: u16 where "ATA_REG_SECCOUNT0 = 0x1f2"
definition ATA_REG_LBA0 :: u16 where "ATA_REG_LBA0 = 0x1f3"
definition ATA_REG_LBA1 :: u16 where "ATA_REG_LBA1 = 0x1f4"
definition ATA_REG_LBA2 :: u16 where "ATA_REG_LBA2 = 0x1f5"
definition ATA_REG_HDDEVSEL :: u16 where "ATA_REG_HDDEVSEL = 0x1f6"
definition ATA_REG_COMMAND :: u16 where "ATA_REG_COMMAND = 0x1f7"
definition ATA_REG_STATUS :: u16 where "ATA_REG_STATUS = 0x1f7"
definition ATA_REG_CONTROL :: u16 where "ATA_REG_CONTROL = 0x3f6"

definition ATA_SR_BSY :: u8 where "ATA_SR_BSY = 0x80"
definition ATA_SR_DRDY :: u8 where "ATA_SR_DRDY = 0x40"
definition ATA_SR_DRQ :: u8 where "ATA_SR_DRQ = 0x08"
definition ATA_SR_ERR :: u8 where "ATA_SR_ERR = 0x01"

lemmas ata_regs = ATA_REG_DATA_def ATA_REG_SECCOUNT0_def ATA_REG_LBA0_def ATA_REG_LBA1_def
  ATA_REG_LBA2_def ATA_REG_HDDEVSEL_def ATA_REG_COMMAND_def ATA_REG_STATUS_def ATA_REG_CONTROL_def

lemmas ata_bits = ATA_SR_BSY_def ATA_SR_DRDY_def ATA_SR_DRQ_def ATA_SR_ERR_def

record 'h ata =
  ata_ready :: bool
  hw :: 'h

definition ATA_POLLS :: nat where "ATA_POLLS = 1000000"

fun ata_delay_loop :: "'h ports \<Rightarrow> nat \<Rightarrow> 'h \<Rightarrow> 'h" where
  "ata_delay_loop P 0 h = h"
| "ata_delay_loop P (Suc n) h = ata_delay_loop P n (snd (in_b P ATA_REG_STATUS h))"

definition ata_io_delay :: "'h ports \<Rightarrow> 'h \<Rightarrow> 'h" where
  "ata_io_delay P h = ata_delay_loop P 4 h"

text \<open>Polling loops: \<open>True\<close> is the return value 0, \<open>False\<close> is -1.\<close>

fun ata_wait_clear_loop :: "'h ports \<Rightarrow> nat \<Rightarrow> 'h \<Rightarrow> bool \<times> 'h" where
  "ata_wait_clear_loop P 0 h = (False, h)"
| "ata_wait_clear_loop P (Suc n) h =
     (let (status, h') = in_b P ATA_REG_STATUS h in
      if status AND ATA_SR_BSY = 0 then (status AND ATA_SR_ERR = 0, h')
      else ata_wait_clear_loop P n h')"

definition ata_wait_clear_bsy :: "'h ports \<Rightarrow> 'h \<Rightarrow> bool \<times> 'h" where
  "ata_wait_clear_bsy P h = ata_wait_clear_loop P ATA_POLLS h"

fun ata_wait_drq_loop :: "'h ports \<Rightarrow> nat \<Rightarrow> 'h \<Rightarrow> bool \<times> 'h" where
  "ata_wait_drq_loop P 0 h = (False, h)"
| "ata_wait_drq_loop P (Suc n) h =
     (let (status, h') = in_b P ATA_REG_STATUS h in
      if status AND ATA_SR_ERR \<noteq> 0 then (False, h')
      else if status AND ATA_SR_BSY = 0 \<and> status AND ATA_SR_DRQ \<noteq> 0 then (True, h')
      else ata_wait_drq_loop P n h')"

definition ata_wait_drq :: "'h ports \<Rightarrow> 'h \<Rightarrow> bool \<times> 'h" where
  "ata_wait_drq P h = ata_wait_drq_loop P ATA_POLLS h"

definition ata_select_lba28 :: "'h ports \<Rightarrow> u32 \<Rightarrow> u8 \<Rightarrow> u8 \<Rightarrow> 'h \<Rightarrow> bool \<times> 'h" where
  "ata_select_lba28 P lba count command h =
     (if lba > 0x0fffffff \<or> count = 0 then (False, h)
      else
        (let (ok, h0) = ata_wait_clear_bsy P h in
         if \<not> ok then (False, h0)
         else
           (let h1 = out_b P ATA_REG_CONTROL 0 h0;
                h2 = out_b P ATA_REG_HDDEVSEL (ucast (0xe0 OR (drop_bit 24 lba AND 0x0f))) h1;
                h3 = ata_io_delay P h2;
                h4 = out_b P ATA_REG_SECCOUNT0 count h3;
                h5 = out_b P ATA_REG_LBA0 (ucast (lba AND 0xff)) h4;
                h6 = out_b P ATA_REG_LBA1 (ucast (drop_bit 8 lba AND 0xff)) h5;
                h7 = out_b P ATA_REG_LBA2 (ucast (drop_bit 16 lba AND 0xff)) h6
            in (True, out_b P ATA_REG_COMMAND command h7))))"

definition ata_init :: "'h ports \<Rightarrow> 'h ata \<Rightarrow> 'h ata" where
  "ata_init P a =
     (let h1 = out_b P ATA_REG_HDDEVSEL 0xe0 (hw a);
          (ok, h2) = ata_wait_clear_bsy P (ata_io_delay P h1)
      in if ok
         then (let (status, h3) = in_b P ATA_REG_STATUS h2
               in \<lparr>ata_ready = (status \<noteq> 0 \<and> status AND ATA_SR_DRDY \<noteq> 0), hw = h3\<rparr>)
         else \<lparr>ata_ready = False, hw = h2\<rparr>)"

fun ata_read_words :: "'h ports \<Rightarrow> nat \<Rightarrow> 'h \<Rightarrow> u16 list \<times> 'h" where
  "ata_read_words P 0 h = ([], h)"
| "ata_read_words P (Suc n) h =
     (let (w, h1) = in_w P ATA_REG_DATA h; (ws, h2) = ata_read_words P n h1 in (w # ws, h2))"

fun ata_write_words :: "'h ports \<Rightarrow> u16 list \<Rightarrow> 'h \<Rightarrow> 'h" where
  "ata_write_words P [] h = h"
| "ata_write_words P (w # ws) h = ata_write_words P ws (out_w P ATA_REG_DATA w h)"

definition bytes_of_words :: "u16 list \<Rightarrow> u8 list" where
  "bytes_of_words ws = concat (map put16 ws)"

text \<open>The bytes transferred so far are kept in front, as in the caller's buffer.\<close>

fun ata_read_loop :: "'h ports \<Rightarrow> nat \<Rightarrow> u8 list \<Rightarrow> 'h \<Rightarrow> bool \<times> u8 list \<times> 'h" where
  "ata_read_loop P 0 acc h = (True, acc, h)"
| "ata_read_loop P (Suc n) acc h =
     (let (ok, h1) = ata_wait_drq P h in
      if \<not> ok then (False, acc, h1)
      else
        (let (ws, h2) = ata_read_words P 256 h1
         in ata_read_loop P n (acc @ bytes_of_words ws) (ata_io_delay P h2)))"

definition ata_read28 :: "'h ports \<Rightarrow> u32 \<Rightarrow> u8 \<Rightarrow> 'h ata \<Rightarrow> bool \<times> u8 list \<times> 'h ata" where
  "ata_read28 P lba count a =
     (if \<not> ata_ready a then (False, [], a)
      else
        (let (ok, h1) = ata_select_lba28 P lba count 0x20 (hw a) in
         if \<not> ok then (False, [], a\<lparr>hw := h1\<rparr>)
         else
           (let (ok2, bs, h2) = ata_read_loop P (unat count) [] h1
            in (ok2, bs, a\<lparr>hw := h2\<rparr>))))"

text \<open>The 256 words of sector \<open>k\<close> of the caller's buffer.\<close>

definition sector_words :: "u8 list \<Rightarrow> nat \<Rightarrow> u16 list" where
  "sector_words bs k = map (\<lambda>i. get16 bs (2 * (k * 256 + i))) [0..<256]"

fun ata_write_loop :: "'h ports \<Rightarrow> u8 list \<Rightarrow> nat \<Rightarrow> nat \<Rightarrow> 'h \<Rightarrow> bool \<times> 'h" where
  "ata_write_loop P bs k 0 h = (True, h)"
| "ata_write_loop P bs k (Suc n) h =
     (let (ok, h1) = ata_wait_drq P h in
      if \<not> ok then (False, h1)
      else ata_write_loop P bs (Suc k) n (ata_io_delay P (ata_write_words P (sector_words bs k) h1)))"

definition ata_write28 :: "'h ports \<Rightarrow> u32 \<Rightarrow> u8 \<Rightarrow> u8 list \<Rightarrow> 'h ata \<Rightarrow> bool \<times> 'h ata" where
  "ata_write28 P lba count bs a =
     (if \<not> ata_ready a then (False, a)
      else
        (let (ok, h1) = ata_select_lba28 P lba count 0x30 (hw a) in
         if \<not> ok then (False, a\<lparr>hw := h1\<rparr>)
         else
           (let (ok2, h2) = ata_write_loop P bs 0 (unat count) h1 in
            if \<not> ok2 then (False, a\<lparr>hw := h2\<rparr>)
            else
              (let (ok3, h3) = ata_wait_clear_bsy P (out_b P ATA_REG_COMMAND 0xe7 h2)
               in (ok3, a\<lparr>hw := h3\<rparr>)))))"

definition ata_is_ready :: "'h ata \<Rightarrow> bool" where
  "ata_is_ready a = ata_ready a"

definition ata_blockdev :: "'h ports \<Rightarrow> 'h ata blockdev" where
  "ata_blockdev P = \<lparr>bd_init = ata_init P, bd_ready = ata_is_ready, bd_read = ata_read28 P,
     bd_write = ata_write28 P\<rparr>"

section \<open>The register protocol of a PIO drive\<close>

text \<open>
  What the driver can observe of a drive: the sectors, the command block registers, whether a
  data block has been announced (\<open>av_drq\<close>), and the transfer in progress.  A transfer is
  described by the next sector, the number of sectors left, and the words of that sector
  already transferred.
\<close>

datatype ata_phase = Idle | Sending nat nat nat | Receiving nat nat "u16 list"

record ata_view =
  av_sectors :: "nat \<Rightarrow> u8 list"
  av_phase :: ata_phase
  av_drq :: bool
  av_count :: u8
  av_lba0 :: u8
  av_lba1 :: u8
  av_lba2 :: u8
  av_dev :: u8

definition view_lba :: "ata_view \<Rightarrow> nat" where
  "view_lba v = unat (av_lba0 v) + 256 * unat (av_lba1 v) + 65536 * unat (av_lba2 v) +
     16777216 * unat (av_dev v AND 0x0f)"

definition view_command :: "u8 \<Rightarrow> ata_view \<Rightarrow> ata_view" where
  "view_command c v =
     v\<lparr>av_phase := (if c = 0x20 then Sending (view_lba v) (unat (av_count v)) 0
          else if c = 0x30 then Receiving (view_lba v) (unat (av_count v)) []
          else Idle), av_drq := False\<rparr>"

definition view_out_b :: "u16 \<Rightarrow> u8 \<Rightarrow> ata_view \<Rightarrow> ata_view" where
  "view_out_b port x v =
     (if port = ATA_REG_SECCOUNT0 then v\<lparr>av_count := x\<rparr>
      else if port = ATA_REG_LBA0 then v\<lparr>av_lba0 := x\<rparr>
      else if port = ATA_REG_LBA1 then v\<lparr>av_lba1 := x\<rparr>
      else if port = ATA_REG_LBA2 then v\<lparr>av_lba2 := x\<rparr>
      else if port = ATA_REG_HDDEVSEL then v\<lparr>av_dev := x\<rparr>
      else if port = ATA_REG_COMMAND then view_command x v
      else v)"

definition view_sent :: "nat \<Rightarrow> nat \<Rightarrow> nat \<Rightarrow> ata_view \<Rightarrow> ata_view" where
  "view_sent l n k v =
     (if Suc k < 256 then v\<lparr>av_phase := Sending l n (Suc k)\<rparr>
      else v\<lparr>av_phase := (if n \<le> 1 then Idle else Sending (Suc l) (n - 1) 0), av_drq := False\<rparr>)"

definition view_received :: "nat \<Rightarrow> nat \<Rightarrow> u16 list \<Rightarrow> ata_view \<Rightarrow> ata_view" where
  "view_received l n ws v =
     (if length ws < 256 then v\<lparr>av_phase := Receiving l n ws\<rparr>
      else v\<lparr>av_sectors := (av_sectors v)(l := bytes_of_words ws),
             av_phase := (if n \<le> 1 then Idle else Receiving (Suc l) (n - 1) []), av_drq := False\<rparr>)"

text \<open>
  Reading the status leaves the drive as it is, except that the drive may announce a data
  block, or abort the command with the error bit.
\<close>

definition view_status :: "u8 \<Rightarrow> ata_view \<Rightarrow> ata_view \<Rightarrow> bool" where
  "view_status s v v' \<longleftrightarrow>
     v' = v \<and> (s AND ATA_SR_ERR = 0 \<and> s AND ATA_SR_BSY = 0 \<and> s AND ATA_SR_DRQ \<noteq> 0 \<longrightarrow> av_drq v) \<or>
     v' = v\<lparr>av_drq := True\<rparr> \<and> av_phase v \<noteq> Idle \<or>
     v' = v\<lparr>av_phase := Idle, av_drq := False\<rparr> \<and> s AND ATA_SR_ERR \<noteq> 0"

text \<open>What any sequence of status reads can do.\<close>

definition quiet :: "ata_view \<Rightarrow> ata_view \<Rightarrow> bool" where
  "quiet v v' \<longleftrightarrow> v' = v \<or> v' = v\<lparr>av_drq := True\<rparr> \<and> av_phase v \<noteq> Idle \<or>
     v' = v\<lparr>av_phase := Idle, av_drq := False\<rparr>"

lemma quiet_refl: "quiet v v"
  by (simp add: quiet_def)

lemma quiet_trans:
  assumes "quiet u v" and "quiet v w"
  shows "quiet u w"
  using assms by (cases u; cases "av_phase u") (auto simp: quiet_def)

lemma status_quiet: "view_status s v v' \<Longrightarrow> quiet v v'"
  by (auto simp: view_status_def quiet_def)

lemma quiet_same:
  assumes "quiet v v'"
  shows "av_sectors v' = av_sectors v"
  using assms by (auto simp: quiet_def)

lemma quiet_announced:
  assumes "quiet v v'" and "av_drq v'"
  shows "v' = v\<lparr>av_drq := True\<rparr>"
  using assms by (cases v) (auto simp: quiet_def)

lemma quiet_command:
  assumes "quiet v v'"
  shows "view_command c (v'\<lparr>av_count := n, av_lba0 := x, av_lba1 := y, av_lba2 := z\<rparr>)
    = view_command c (v\<lparr>av_count := n, av_lba0 := x, av_lba1 := y, av_lba2 := z\<rparr>)"
  using assms by (cases v) (auto simp: quiet_def view_command_def view_lba_def)

lemma put16_get16:
  assumes "off + 2 \<le> length s"
  shows "put16 (get16 s off) = take 2 (drop off s)"
proof -
  have l: "length (take 2 (drop off s)) = 2" using assms by simp
  then have "le_nat (take 2 (drop off s)) < 2 ^ LENGTH(16)"
    using le_nat_bound [of "take 2 (drop off s)"] by simp
  then have "unat (get16 s off) = le_nat (take 2 (drop off s))"
    unfolding get16_def by (rule unat_word_of_nat_less)
  then show ?thesis using le_bytes_le_nat [of "take 2 (drop off s)"] l by (simp add: put16_def)
qed

lemma bytes_of_sector_words:
  assumes "off + 2 * m \<le> length s"
  shows "bytes_of_words (map (\<lambda>i. get16 s (off + 2 * i)) [0..<m]) = take (2 * m) (drop off s)"
  using assms
proof (induction m)
  case 0
  then show ?case by (simp add: bytes_of_words_def)
next
  case (Suc m)
  have "put16 (get16 s (off + 2 * m)) = take 2 (drop (2 * m) (drop off s))"
    using Suc.prems put16_get16 [of "off + 2 * m" s] by (simp add: add.commute)
  moreover have "take (2 * Suc m) (drop off s) = take (2 * m) (drop off s) @ take 2 (drop (2 * m) (drop off s))"
    by (simp only: take_add [symmetric]) simp
  ultimately show ?case using Suc by (simp add: bytes_of_words_def)
qed

lemma sector_words_bytes:
  assumes "length bs = SECTOR_SIZE * n" and "k < n"
  shows "bytes_of_words (sector_words bs k) = sector_of bs k"
proof -
  have "512 * Suc k \<le> 512 * n" using assms(2) by (intro mult_le_mono2) simp
  then have "512 * k + 2 * 256 \<le> length bs" using assms(1) by (simp add: SECTOR_SIZE_def)
  from bytes_of_sector_words [OF this] show ?thesis
    by (simp add: sector_words_def sector_of_def SECTOR_SIZE_def algebra_simps)
qed

lemma length_sector_words [simp]: "length (sector_words bs k) = 256"
  by (simp add: sector_words_def)

locale ata_device =
  fixes P :: "'h ports" and view :: "'h \<Rightarrow> ata_view"
  assumes sectors_length: "length (av_sectors (view h) l) = SECTOR_SIZE"
    and drq_phase: "av_drq (view h) \<Longrightarrow> av_phase (view h) \<noteq> Idle"
    and status: "in_b P ATA_REG_STATUS h = (s, h') \<Longrightarrow> view_status s (view h) (view h')"
    and registers: "view (out_b P port x h) = view_out_b port x (view h)"
    and data_in: "av_drq (view h) \<Longrightarrow> av_phase (view h) = Sending l n k \<Longrightarrow>
      in_w P ATA_REG_DATA h = (w, h') \<Longrightarrow>
      w = get16 (av_sectors (view h) l) (2 * k) \<and> view h' = view_sent l n k (view h)"
    and data_out: "av_drq (view h) \<Longrightarrow> av_phase (view h) = Receiving l n ws \<Longrightarrow> length ws < 256 \<Longrightarrow>
      view (out_w P ATA_REG_DATA w h) = view_received l n (ws @ [w]) (view h)"


text \<open>The address registers hold the sector number.\<close>

lemma and_masks:
  fixes x :: u32
  shows "x AND 0xff = take_bit 8 x" "x AND 0x0f = take_bit 4 x"
  by (simp_all add: take_bit_eq_mask mask_numeral)

lemma unat_register:
  fixes x :: u32
  shows "unat (ucast (drop_bit k x AND 0xff) :: u8) = unat x div 2 ^ k mod 256"
    and "unat (ucast (x AND 0xff) :: u8) = unat x mod 256"
  by (simp_all only: and_masks unsigned_ucast_eq unsigned_take_bit_eq unat_drop_bit_word)
    (simp_all add: take_bit_eq_mod)

lemma unat_dev_register:
  fixes x :: u32
  shows "unat ((ucast (0xe0 OR (drop_bit 24 x AND 0x0f)) :: u8) AND 0x0f) = unat x div 2 ^ 24 mod 16"
proof -
  have "(ucast (0xe0 OR (drop_bit 24 x AND 0x0f)) :: u8) AND 0x0f
    = (0xe0 OR ucast (drop_bit 24 x AND 0x0f)) AND 0x0f"
    by (simp add: unsigned_or_eq)
  also have "\<dots> = (ucast (drop_bit 24 x AND 0x0f) :: u8) AND 0x0f"
    by (simp add: bit.conj_disj_distrib2)
  also have "\<dots> = take_bit 4 (ucast (take_bit 4 (drop_bit 24 x)))"
    by (simp only: and_masks) (simp add: take_bit_eq_mask mask_numeral)
  finally have "unat ((ucast (0xe0 OR (drop_bit 24 x AND 0x0f)) :: u8) AND 0x0f)
    = unat (take_bit 4 (ucast (take_bit 4 (drop_bit 24 x)) :: u8))" by (rule arg_cong)
  also have "\<dots> = unat x div 2 ^ 24 mod 16"
    by (simp only: unsigned_ucast_eq unsigned_take_bit_eq unat_drop_bit_word) (simp add: take_bit_eq_mod mod_mod_cancel)
  finally show ?thesis .
qed

lemma lba_digits:
  fixes n :: nat
  assumes "n \<le> 0x0fffffff"
  shows "n mod 256 + 256 * (n div 2 ^ 8 mod 256) + 65536 * (n div 2 ^ 16 mod 256) +
    16777216 * (n div 2 ^ 24 mod 16) = n"
proof -
  define a b c where "a = n div 256" and "b = a div 256" and "c = b div 256"
  have "n = 256 * a + n mod 256" "a = 256 * b + a mod 256" "b = 256 * c + b mod 256"
    unfolding a_def b_def c_def by (simp_all only: mult_div_mod_eq)
  moreover have "n div 2 ^ 8 = a" "n div 2 ^ 16 = b" "n div 2 ^ 24 = c"
    by (simp_all add: a_def b_def c_def div_mult2_eq [symmetric])
  moreover have "c mod 16 = c" using assms by (simp add: a_def b_def c_def)
  ultimately show ?thesis by simp
qed

context ata_device
begin

lemma delay_loop_quiet: "quiet (view h) (view (ata_delay_loop P n h))"
proof (induction n arbitrary: h)
  case 0
  then show ?case by (simp add: quiet_refl)
next
  case (Suc n)
  obtain s h' where r: "in_b P ATA_REG_STATUS h = (s, h')" by fastforce
  show ?case using quiet_trans [OF status_quiet [OF status [OF r]] Suc.IH] r by simp
qed

lemma delay_quiet: "quiet (view h) (view (ata_io_delay P h))"
  by (simp add: ata_io_delay_def delay_loop_quiet)

lemma wait_clear_quiet:
  "ata_wait_clear_loop P n h = (ok, h') \<Longrightarrow> quiet (view h) (view h')"
proof (induction n arbitrary: h)
  case 0
  then show ?case by (simp add: quiet_refl)
next
  case (Suc n)
  obtain s h1 where r: "in_b P ATA_REG_STATUS h = (s, h1)" by fastforce
  note q = status_quiet [OF status [OF r]]
  show ?case using Suc.prems Suc.IH [of h1] q quiet_trans [OF q] r by (auto split: if_splits)
qed

lemma wait_drq_quiet:
  "ata_wait_drq_loop P n h = (ok, h') \<Longrightarrow> quiet (view h) (view h') \<and> (ok \<longrightarrow> av_drq (view h'))"
proof (induction n arbitrary: h)
  case 0
  then show ?case by (simp add: quiet_refl)
next
  case (Suc n)
  obtain s h1 where r: "in_b P ATA_REG_STATUS h = (s, h1)" by fastforce
  note st = status [OF r] and q = status_quiet [OF status [OF r]]
  show ?case
  proof (cases "s AND ATA_SR_ERR = 0 \<and> \<not> (s AND ATA_SR_BSY = 0 \<and> s AND ATA_SR_DRQ \<noteq> 0)")
    case True
    then have "ata_wait_drq_loop P n h1 = (ok, h')" using Suc.prems r by auto
    from Suc.IH [OF this] show ?thesis using quiet_trans [OF q] by blast
  next
    case False
    then have "h1 = h'" "ok \<longrightarrow> s AND ATA_SR_ERR = 0 \<and> s AND ATA_SR_BSY = 0 \<and> s AND ATA_SR_DRQ \<noteq> 0"
      using Suc.prems r by (auto split: if_splits)
    then show ?thesis using st q by (auto simp: view_status_def)
  qed
qed

lemma wait_drq_announced:
  assumes "ata_wait_drq P h = (True, h')"
  shows "view h' = (view h)\<lparr>av_drq := True\<rparr>" "av_phase (view h) \<noteq> Idle"
proof -
  have q: "quiet (view h) (view h')" "av_drq (view h')"
    using wait_drq_quiet assms unfolding ata_wait_drq_def by blast+
  then show v: "view h' = (view h)\<lparr>av_drq := True\<rparr>" by (rule quiet_announced)
  show "av_phase (view h) \<noteq> Idle" using drq_phase [OF q(2)] by (simp add: v)
qed

lemma select_view:
  assumes "ata_select_lba28 P lba count c h = (ok, h')"
  shows "av_sectors (view h') = av_sectors (view h)"
    and "ok \<Longrightarrow> lba \<le> 0x0fffffff \<and> count \<noteq> 0 \<and> \<not> av_drq (view h') \<and>
      av_phase (view h') = (if c = 0x20 then Sending (unat lba) (unat count) 0
        else if c = 0x30 then Receiving (unat lba) (unat count) [] else Idle)"
proof -
  obtain ok0 h0 where w: "ata_wait_clear_bsy P h = (ok0, h0)" by fastforce
  have s0: "av_sectors (view h0) = av_sectors (view h)"
    using wait_clear_quiet w quiet_same unfolding ata_wait_clear_bsy_def by blast
  define h2 where "h2 = out_b P ATA_REG_HDDEVSEL (ucast (0xe0 OR (drop_bit 24 lba AND 0x0f)))
    (out_b P ATA_REG_CONTROL 0 h0)"
  have v2: "view h2 = (view h0)\<lparr>av_dev := ucast (0xe0 OR (drop_bit 24 lba AND 0x0f))\<rparr>"
    by (simp add: h2_def registers view_out_b_def ata_regs)
  note q = delay_quiet [of h2]
  let ?regs = "\<lambda>v. v\<lparr>av_count := count, av_lba0 := ucast (lba AND 0xff),
      av_lba1 := ucast (drop_bit 8 lba AND 0xff), av_lba2 := ucast (drop_bit 16 lba AND 0xff)\<rparr>"
  have h': "view h' = view_command c (?regs (view h2)) \<and> lba \<le> 0x0fffffff \<and> count \<noteq> 0" if ok
  proof -
    have c: "\<not> lba > 0x0fffffff" "count \<noteq> 0" "ok0"
      using assms that w by (auto simp: ata_select_lba28_def Let_def split: if_splits)
    have "h' = out_b P ATA_REG_COMMAND c (out_b P ATA_REG_LBA2 (ucast (drop_bit 16 lba AND 0xff))
      (out_b P ATA_REG_LBA1 (ucast (drop_bit 8 lba AND 0xff)) (out_b P ATA_REG_LBA0 (ucast (lba AND 0xff))
        (out_b P ATA_REG_SECCOUNT0 count (ata_io_delay P h2)))))"
      using assms w c by (simp add: ata_select_lba28_def Let_def h2_def)
    then have "view h' = view_command c (?regs (view (ata_io_delay P h2)))"
      by (simp only: registers) (simp add: view_out_b_def ata_regs)
    then show ?thesis using quiet_command [OF q] c by simp
  qed
  have "view_lba (?regs (view h2)) = unat lba" if "lba \<le> 0x0fffffff"
    using lba_digits [of "unat lba"] that
    by (simp add: v2 view_lba_def unat_register unat_dev_register unat_drop_bit_word word_le_nat_alt)
  then show "ok \<Longrightarrow> lba \<le> 0x0fffffff \<and> count \<noteq> 0 \<and> \<not> av_drq (view h') \<and>
      av_phase (view h') = (if c = 0x20 then Sending (unat lba) (unat count) 0
        else if c = 0x30 then Receiving (unat lba) (unat count) [] else Idle)"
    using h' by (auto simp: view_command_def)
  show "av_sectors (view h') = av_sectors (view h)"
  proof (cases ok)
    case True
    with h' s0 show ?thesis by (simp add: view_command_def v2)
  next
    case False
    with assms w s0 show ?thesis by (auto simp: ata_select_lba28_def Let_def split: if_splits)
  qed
qed

text \<open>One sector from the drive, then the whole read transfer.\<close>

lemma read_words_view:
  assumes "av_drq (view h)" and "av_phase (view h) = Sending l n k" and "k + Suc m \<le> 256"
    and "ata_read_words P (Suc m) h = (ws, h')"
  shows "ws = map (\<lambda>i. get16 (av_sectors (view h) l) (2 * (k + i))) [0..<Suc m]"
    and "view h' = view_sent l n (k + m) (view h)"
proof -
  have "ws = map (\<lambda>i. get16 (av_sectors (view h) l) (2 * (k + i))) [0..<Suc m] \<and>
    view h' = view_sent l n (k + m) (view h)"
    using assms
  proof (induction m arbitrary: k h ws h')
    case 0
    obtain w h1 where r: "in_w P ATA_REG_DATA h = (w, h1)" by fastforce
    from data_in [OF "0.prems"(1,2) r] "0.prems"(4) r show ?case by auto
  next
    case (Suc m)
    obtain w h1 where r: "in_w P ATA_REG_DATA h = (w, h1)" by fastforce
    obtain vs h2 where rs: "ata_read_words P (Suc m) h1 = (vs, h2)" by fastforce
    have w: "w = get16 (av_sectors (view h) l) (2 * k)" and v: "view h1 = (view h)\<lparr>av_phase := Sending l n (Suc k)\<rparr>"
      using data_in [OF Suc.prems(1,2) r] Suc.prems(3) by (auto simp: view_sent_def)
    have "vs = map (\<lambda>i. get16 (av_sectors (view h1) l) (2 * (Suc k + i))) [0..<Suc m] \<and>
      view h2 = view_sent l n (Suc k + m) (view h1)"
      using Suc.prems(1,3) rs by (intro Suc.IH) (simp_all add: v)
    moreover have "ws = w # vs" "h' = h2" using Suc.prems(4) r rs by (simp_all add: Let_def split: prod.splits)
    moreover have "[0..<Suc (Suc m)] = 0 # map Suc [0..<Suc m]" by (simp add: map_Suc_upt upt_conv_Cons del: upt_Suc)
    ultimately show ?case by (simp add: v w view_sent_def comp_def del: upt_Suc)
  qed
  then show "ws = map (\<lambda>i. get16 (av_sectors (view h) l) (2 * (k + i))) [0..<Suc m]"
    and "view h' = view_sent l n (k + m) (view h)" by blast+
qed

lemma read_sector_view:
  assumes "av_drq (view h)" and "av_phase (view h) = Sending l n 0" and "ata_read_words P 256 h = (ws, h')"
  shows "bytes_of_words ws = av_sectors (view h) l"
    and "view h' = (view h)\<lparr>av_phase := (if n \<le> 1 then Idle else Sending (Suc l) (n - 1) 0), av_drq := False\<rparr>"
proof -
  have 256: "ata_read_words P (Suc 255) h = (ws, h')" using assms(3) by simp
  note r = read_words_view [OF assms(1,2) _ 256]
  let ?s = "av_sectors (view h) l"
  have "ws = map (\<lambda>i. get16 ?s (0 + 2 * i)) [0..<256]" using r(1) by simp
  then have "bytes_of_words ws = take (2 * 256) (drop 0 ?s)"
    using sectors_length [of h l] by (simp only: bytes_of_sector_words SECTOR_SIZE_def)
  then show "bytes_of_words ws = ?s" using sectors_length [of h l] by (simp add: SECTOR_SIZE_def)
  show "view h' = (view h)\<lparr>av_phase := (if n \<le> 1 then Idle else Sending (Suc l) (n - 1) 0), av_drq := False\<rparr>"
    using r(2) by (simp add: view_sent_def)
qed

lemma read_loop_view:
  assumes "ata_read_loop P n acc h = (ok, bs, h')"
    and "n \<noteq> 0 \<Longrightarrow> av_phase (view h) = Sending l n 0 \<or> av_phase (view h) = Idle"
  shows "av_sectors (view h') = av_sectors (view h) \<and>
    (ok \<longrightarrow> bs = acc @ read_sectors l n (av_sectors (view h)))"
  using assms
proof (induction n arbitrary: acc h l)
  case 0
  then show ?case by (simp add: read_sectors_def)
next
  case (Suc n)
  obtain ok1 h1 where w: "ata_wait_drq P h = (ok1, h1)" by fastforce
  show ?case
  proof (cases ok1)
    case False
    have "av_sectors (view h1) = av_sectors (view h)"
      using wait_drq_quiet quiet_same w unfolding ata_wait_drq_def by blast
    with Suc.prems(1) w False show ?thesis by simp
  next
    case True
    note d = wait_drq_announced [OF w [unfolded True [THEN eqTrueI]]]
    then have ph: "av_phase (view h1) = Sending l (Suc n) 0" "av_drq (view h1)" using Suc.prems(2) by simp_all
    obtain ws h2 where r: "ata_read_words P 256 h1 = (ws, h2)" by fastforce
    note s = read_sector_view [OF ph(2,1) r]
    note q = delay_quiet [of h2]
    have v2: "av_sectors (view (ata_io_delay P h2)) = av_sectors (view h)"
      using quiet_same [OF q] s(2) d(1) by simp
    have "n \<noteq> 0 \<Longrightarrow> av_phase (view (ata_io_delay P h2)) = Sending (Suc l) n 0 \<or> av_phase (view (ata_io_delay P h2)) = Idle"
      using q s(2) by (auto simp: quiet_def)
    then have "av_sectors (view h') = av_sectors (view (ata_io_delay P h2)) \<and>
      (ok \<longrightarrow> bs = (acc @ bytes_of_words ws) @ read_sectors (Suc l) n (av_sectors (view (ata_io_delay P h2))))"
      using Suc.prems(1) w True r by (intro Suc.IH) simp_all
    moreover have "read_sectors l (Suc n) dk = dk l @ read_sectors (Suc l) n dk" for dk
      by (simp add: read_sectors_def upt_conv_Cons del: upt_Suc)
    ultimately show ?thesis using v2 s(1) d(1) by simp
  qed
qed

text \<open>One sector to the drive, then the whole write transfer.\<close>

lemma write_words_view:
  assumes "av_drq (view h)" and "av_phase (view h) = Receiving l n vs" and "length vs + length ws = 256" and "ws \<noteq> []"
  shows "view (ata_write_words P ws h) = view_received l n (vs @ ws) (view h)"
  using assms
proof (induction ws arbitrary: h vs)
  case Nil
  then show ?case by simp
next
  case (Cons w ws)
  have "length vs < 256" using Cons.prems(3) by simp
  note o = data_out [OF Cons.prems(1,2) this, of w]
  show ?case
  proof (cases "ws = []")
    case True
    with o show ?thesis by simp
  next
    case False
    then have lt: "length (vs @ [w]) < 256" using Cons.prems(3) by (cases ws) auto
    then have "view (out_w P ATA_REG_DATA w h) = (view h)\<lparr>av_phase := Receiving l n (vs @ [w])\<rparr>"
      using o Cons.prems(3) by (simp add: view_received_def)
    moreover from this have "view (ata_write_words P ws (out_w P ATA_REG_DATA w h))
      = view_received l n ((vs @ [w]) @ ws) (view (out_w P ATA_REG_DATA w h))"
      using Cons.prems(1,3) False by (intro Cons.IH) simp_all
    ultimately show ?thesis by (simp add: view_received_def Cons.prems(3))
  qed
qed

lemma write_loop_view:
  assumes "ata_write_loop P bs k n h = (ok, h')"
    and "n \<noteq> 0 \<Longrightarrow> av_phase (view h) = Receiving l n [] \<or> av_phase (view h) = Idle"
  shows "(\<forall>j. j < l \<or> l + n \<le> j \<longrightarrow> av_sectors (view h') j = av_sectors (view h) j) \<and>
    (ok \<longrightarrow> (\<forall>i < n. av_sectors (view h') (l + i) = bytes_of_words (sector_words bs (k + i))))"
  using assms
proof (induction n arbitrary: h l k)
  case 0
  then show ?case by simp
next
  case (Suc n)
  obtain ok1 h1 where w: "ata_wait_drq P h = (ok1, h1)" by fastforce
  show ?case
  proof (cases ok1)
    case False
    have "av_sectors (view h1) = av_sectors (view h)"
      using wait_drq_quiet quiet_same w unfolding ata_wait_drq_def by blast
    with Suc.prems(1) w False show ?thesis by simp
  next
    case True
    note d = wait_drq_announced [OF w [unfolded True [THEN eqTrueI]]]
    then have ph: "av_phase (view h1) = Receiving l (Suc n) []" "av_drq (view h1)" using Suc.prems(2) by simp_all
    let ?ws = "sector_words bs k"
    define h2 where "h2 = ata_write_words P ?ws h1"
    have "?ws \<noteq> []" by (metis length_sector_words list.size(3) zero_neq_numeral)
    then have v: "view h2 = (view h1)\<lparr>av_sectors := (av_sectors (view h1))(l := bytes_of_words ?ws),
        av_phase := (if Suc n \<le> 1 then Idle else Receiving (Suc l) n []), av_drq := False\<rparr>"
      using write_words_view [OF ph(2,1)] by (simp add: h2_def view_received_def)
    note q = delay_quiet [of h2]
    let ?h3 = "ata_io_delay P h2"
    have v2: "av_sectors (view ?h3) = (av_sectors (view h))(l := bytes_of_words ?ws)"
      using quiet_same [OF q] v d(1) by simp
    have "n \<noteq> 0 \<Longrightarrow> av_phase (view ?h3) = Receiving (Suc l) n [] \<or> av_phase (view ?h3) = Idle"
      using q v by (auto simp: quiet_def)
    then have ih: "(\<forall>j. j < Suc l \<or> Suc l + n \<le> j \<longrightarrow> av_sectors (view h') j = av_sectors (view ?h3) j) \<and>
      (ok \<longrightarrow> (\<forall>i < n. av_sectors (view h') (Suc l + i) = bytes_of_words (sector_words bs (Suc k + i))))"
      using Suc.prems(1) w True by (intro Suc.IH) (simp_all add: h2_def)
    have "av_sectors (view h') (l + i) = bytes_of_words (sector_words bs (k + i))" if "ok" "i < Suc n" for i
      using ih that v2 by (cases i) auto
    moreover have "av_sectors (view h') j = av_sectors (view h) j" if "j < l \<or> l + Suc n \<le> j" for j
      using ih that v2 by auto
    ultimately show ?thesis by blast
  qed
qed

end

section \<open>The driver is a block device\<close>

text \<open>The sectors a driver state gives access to.\<close>

abbreviation ata_sectors :: "('h \<Rightarrow> ata_view) \<Rightarrow> 'h ata \<Rightarrow> nat \<Rightarrow> u8 list" where
  "ata_sectors view a \<equiv> av_sectors (view (hw a))"

context ata_device
begin

lemma wait_clear_sectors:
  "ata_wait_clear_bsy P h = (ok, h') \<Longrightarrow> av_sectors (view h') = av_sectors (view h)"
  unfolding ata_wait_clear_bsy_def by (rule quiet_same [OF wait_clear_quiet])

lemma read28_view:
  assumes "ata_read28 P lba n a = (ok, bs, a')"
  shows "ata_sectors view a' = ata_sectors view a \<and>
    (ok \<longrightarrow> bs = read_sectors (unat lba) (unat n) (ata_sectors view a))"
proof (cases "ata_ready a \<and> fst (ata_select_lba28 P lba n 0x20 (hw a))")
  case False
  then show ?thesis
    using assms select_view(1) [where lba = lba and count = n and c = "0x20" and h = "hw a"]
    by (auto simp: ata_read28_def Let_def split: prod.splits if_splits)
next
  case True
  then obtain h1 where s: "ata_select_lba28 P lba n 0x20 (hw a) = (True, h1)" by (metis prod.collapse)
  obtain h2 where l: "ata_read_loop P (unat n) [] h1 = (ok, bs, h2)" "a' = a\<lparr>hw := h2\<rparr>"
    using assms True s by (auto simp: ata_read28_def Let_def split: prod.splits)
  note v = select_view [OF s]
  show ?thesis using read_loop_view [OF l(1), of "unat lba"] v l(2) by simp
qed

lemma write28_view:
  assumes "ata_write28 P lba n bs a = (ok, a')"
  shows "(\<forall>l. l < unat lba \<or> unat lba + unat n \<le> l \<longrightarrow> ata_sectors view a' l = ata_sectors view a l) \<and>
    (ok \<and> length bs = SECTOR_SIZE * unat n \<longrightarrow>
       ata_sectors view a' = write_sectors (unat lba) (unat n) bs (ata_sectors view a))"
proof (cases "ata_ready a \<and> fst (ata_select_lba28 P lba n 0x30 (hw a))")
  case False
  then show ?thesis
    using assms select_view(1) [where lba = lba and count = n and c = "0x30" and h = "hw a"]
    by (auto simp: ata_write28_def Let_def split: prod.splits if_splits)
next
  case True
  then obtain h1 where s: "ata_select_lba28 P lba n 0x30 (hw a) = (True, h1)" by (metis prod.collapse)
  note v = select_view [OF s]
  obtain ok2 h2 where l: "ata_write_loop P bs 0 (unat n) h1 = (ok2, h2)" by fastforce
  have h': "av_sectors (view (hw a')) = av_sectors (view h2) \<and> (ok \<longrightarrow> ok2)"
    using assms True s l wait_clear_sectors [of "out_b P ATA_REG_COMMAND 0xe7 h2"]
    by (auto simp: ata_write28_def Let_def registers view_out_b_def ata_regs view_command_def
        split: prod.splits if_splits)
  have "(\<forall>j. j < unat lba \<or> unat lba + unat n \<le> j \<longrightarrow> av_sectors (view h2) j = av_sectors (view h1) j) \<and>
    (ok2 \<longrightarrow> (\<forall>i < unat n. av_sectors (view h2) (unat lba + i) = bytes_of_words (sector_words bs (0 + i))))"
    using v(2) by (intro write_loop_view [OF l]) simp
  note w = this [THEN conjunct1] this [THEN conjunct2]
  have "av_sectors (view h2) l = write_sectors (unat lba) (unat n) bs (av_sectors (view h1)) l"
    if "ok2" "length bs = SECTOR_SIZE * unat n" for l
  proof (cases "unat lba \<le> l \<and> l < unat lba + unat n")
    case True
    then obtain i where i: "l = unat lba + i" "i < unat n" by (auto simp: le_iff_add)
    with w(2) that sector_words_bytes [OF that(2) i(2)] show ?thesis by (simp add: write_sectors_def)
  next
    case False
    with w(1) show ?thesis by (auto simp: write_sectors_def)
  qed
  then have "av_sectors (view h2) = write_sectors (unat lba) (unat n) bs (av_sectors (view h1))"
    if "ok2" "length bs = SECTOR_SIZE * unat n" using that by blast
  with w show ?thesis using h' v(1) by auto
qed

lemma init_view: "ata_sectors view (ata_init P a) = ata_sectors view a"
proof -
  obtain ok h2 where w: "ata_wait_clear_bsy P (ata_io_delay P (out_b P ATA_REG_HDDEVSEL 0xe0 (hw a))) = (ok, h2)"
    by fastforce
  have "av_sectors (view h2) = av_sectors (view (out_b P ATA_REG_HDDEVSEL 0xe0 (hw a)))"
    using wait_clear_sectors [OF w] quiet_same [OF delay_quiet] by simp
  moreover have "\<dots> = ata_sectors view a" by (simp add: registers view_out_b_def ata_regs)
  moreover obtain st h3 where r: "in_b P ATA_REG_STATUS h2 = (st, h3)" by fastforce
  moreover have "av_sectors (view h3) = av_sectors (view h2)" using quiet_same [OF status_quiet [OF status [OF r]]] .
  ultimately show ?thesis using w by (auto simp: ata_init_def Let_def)
qed

end

sublocale ata_device \<subseteq> blk: block_device "ata_blockdev P" "ata_sectors view"
proof
  show "length (ata_sectors view d l) = SECTOR_SIZE" for d l by (rule sectors_length)
  show "bs = read_sectors (unat lba) (unat n) (ata_sectors view d)"
    if "bd_read (ata_blockdev P) lba n d = (True, bs, d')" for lba n d bs d'
    using that read28_view [of lba n d True bs d'] by (simp add: ata_blockdev_def)
  show "ata_sectors view d' = ata_sectors view d"
    if "bd_read (ata_blockdev P) lba n d = (ok, bs, d')" for lba n d ok bs d'
    using that read28_view [of lba n d ok bs d'] by (simp add: ata_blockdev_def)
  show "ata_sectors view d' = write_sectors (unat lba) (unat n) bs (ata_sectors view d)"
    if "bd_write (ata_blockdev P) lba n bs d = (True, d')" "length bs = SECTOR_SIZE * unat n" for lba n bs d d'
    using that write28_view [of lba n bs d True d'] by (simp add: ata_blockdev_def)
  show "ata_sectors view d' l = ata_sectors view d l"
    if "bd_write (ata_blockdev P) lba n bs d = (ok, d')" "l < unat lba \<or> unat lba + unat n \<le> l" for lba n bs d ok d' l
    using that write28_view [of lba n bs d ok d'] by (auto simp: ata_blockdev_def)
  show "ata_sectors view (bd_init (ata_blockdev P) d) = ata_sectors view d" for d
    by (simp add: ata_blockdev_def init_view)
qed

section \<open>An emulated drive\<close>

text \<open>
  A drive of \<open>EMU_SECTORS\<close> sectors that answers every command and every data block with a few
  busy polls, and aborts a transfer behind its last sector with the error bit.
\<close>

record emu =
  em_data :: "nat \<Rightarrow> nat \<Rightarrow> u8"
  em_phase :: ata_phase
  em_busy :: nat
  em_count :: u8
  em_lba0 :: u8
  em_lba1 :: u8
  em_lba2 :: u8
  em_dev :: u8

definition EMU_SECTORS :: nat where "EMU_SECTORS = 8192"
definition EMU_LATENCY :: nat where "EMU_LATENCY = 3"

definition emu_view :: "emu \<Rightarrow> ata_view" where
  "emu_view e = \<lparr>av_sectors = (\<lambda>l. map (em_data e l) [0..<SECTOR_SIZE]), av_phase = em_phase e,
     av_drq = (em_phase e \<noteq> Idle \<and> em_busy e = 0), av_count = em_count e, av_lba0 = em_lba0 e,
     av_lba1 = em_lba1 e, av_lba2 = em_lba2 e, av_dev = em_dev e\<rparr>"

fun phase_lba :: "ata_phase \<Rightarrow> nat" where
  "phase_lba Idle = 0"
| "phase_lba (Sending l n k) = l"
| "phase_lba (Receiving l n ws) = l"

definition emu_fault :: "emu \<Rightarrow> bool" where
  "emu_fault e \<longleftrightarrow> phase_lba (em_phase e) \<ge> EMU_SECTORS"

definition emu_status :: "emu \<Rightarrow> u8 \<times> emu" where
  "emu_status e =
     (if em_busy e \<noteq> 0 then (ATA_SR_BSY, e\<lparr>em_busy := em_busy e - 1\<rparr>)
      else if emu_fault e then (ATA_SR_DRDY OR ATA_SR_ERR, e\<lparr>em_phase := Idle\<rparr>)
      else (if em_phase e = Idle then ATA_SR_DRDY else ATA_SR_DRDY OR ATA_SR_DRQ, e))"

definition emu_out_b :: "u16 \<Rightarrow> u8 \<Rightarrow> emu \<Rightarrow> emu" where
  "emu_out_b port x e =
     (if port = ATA_REG_SECCOUNT0 then e\<lparr>em_count := x\<rparr>
      else if port = ATA_REG_LBA0 then e\<lparr>em_lba0 := x\<rparr>
      else if port = ATA_REG_LBA1 then e\<lparr>em_lba1 := x\<rparr>
      else if port = ATA_REG_LBA2 then e\<lparr>em_lba2 := x\<rparr>
      else if port = ATA_REG_HDDEVSEL then e\<lparr>em_dev := x\<rparr>
      else if port = ATA_REG_COMMAND
      then e\<lparr>em_phase := av_phase (view_command x (emu_view e)), em_busy := EMU_LATENCY\<rparr>
      else e)"

definition emu_in_w :: "emu \<Rightarrow> u16 \<times> emu" where
  "emu_in_w e =
     (case em_phase e of
        Sending l n k \<Rightarrow>
          (get16 (map (em_data e l) [0..<SECTOR_SIZE]) (2 * k),
           if Suc k < 256 then e\<lparr>em_phase := Sending l n (Suc k)\<rparr>
           else e\<lparr>em_phase := (if n \<le> 1 then Idle else Sending (Suc l) (n - 1) 0), em_busy := EMU_LATENCY\<rparr>)
      | _ \<Rightarrow> (0xffff, e))"

definition emu_out_w :: "u16 \<Rightarrow> emu \<Rightarrow> emu" where
  "emu_out_w w e =
     (case em_phase e of
        Receiving l n ws \<Rightarrow>
          (if Suc (length ws) < 256 then e\<lparr>em_phase := Receiving l n (ws @ [w])\<rparr>
           else e\<lparr>em_data := (em_data e)(l := (\<lambda>i. bytes_of_words (ws @ [w]) ! i)),
                  em_phase := (if n \<le> 1 then Idle else Receiving (Suc l) (n - 1) []), em_busy := EMU_LATENCY\<rparr>)
      | _ \<Rightarrow> e)"

definition emu_ports :: "emu ports" where
  "emu_ports = \<lparr>in_b = (\<lambda>port e. if port = ATA_REG_STATUS then emu_status e else (0, e)),
     out_b = emu_out_b, in_w = (\<lambda>port. emu_in_w), out_w = (\<lambda>port. emu_out_w)\<rparr>"

lemma length_bytes_of_words: "length (bytes_of_words ws) = 2 * length ws"
  by (induction ws) (simp_all add: bytes_of_words_def)

lemma map_nth_sector: "length xs = SECTOR_SIZE \<Longrightarrow> map (\<lambda>i. xs ! i) [0..<SECTOR_SIZE] = xs"
  using map_nth [of xs] by simp

lemma emu_bits:
  "ATA_SR_BSY AND ATA_SR_BSY \<noteq> 0" "(ATA_SR_DRDY OR ATA_SR_ERR) AND ATA_SR_ERR \<noteq> 0"
  "(ATA_SR_DRDY OR ATA_SR_ERR) AND ATA_SR_BSY = 0" "ATA_SR_DRDY AND ATA_SR_BSY = 0"
  "ATA_SR_DRDY AND ATA_SR_ERR = 0" "ATA_SR_DRDY AND ATA_SR_DRQ = 0"
  "(ATA_SR_DRDY OR ATA_SR_DRQ) AND ATA_SR_BSY = 0" "(ATA_SR_DRDY OR ATA_SR_DRQ) AND ATA_SR_ERR = 0"
  "(ATA_SR_DRDY OR ATA_SR_DRQ) AND ATA_SR_DRQ \<noteq> 0" "ATA_SR_BSY AND ATA_SR_ERR = 0"
  "ATA_SR_BSY AND ATA_SR_DRQ = 0" "ATA_SR_DRDY AND ATA_SR_DRDY \<noteq> 0" "ATA_SR_DRDY \<noteq> 0"
  "(ATA_SR_DRDY OR ATA_SR_DRQ) AND ATA_SR_DRDY \<noteq> 0" "ATA_SR_DRDY OR ATA_SR_DRQ \<noteq> 0"
  "ATA_SR_ERR \<noteq> 0" "ATA_SR_BSY \<noteq> 0" "ATA_SR_DRQ \<noteq> 0"
  by (simp_all add: ata_bits)

lemma emu_view_update:
  "emu_view (e\<lparr>em_count := x\<rparr>) = (emu_view e)\<lparr>av_count := x\<rparr>"
  "emu_view (e\<lparr>em_lba0 := x\<rparr>) = (emu_view e)\<lparr>av_lba0 := x\<rparr>"
  "emu_view (e\<lparr>em_lba1 := x\<rparr>) = (emu_view e)\<lparr>av_lba1 := x\<rparr>"
  "emu_view (e\<lparr>em_lba2 := x\<rparr>) = (emu_view e)\<lparr>av_lba2 := x\<rparr>"
  "emu_view (e\<lparr>em_dev := x\<rparr>) = (emu_view e)\<lparr>av_dev := x\<rparr>"
  "emu_view (e\<lparr>em_phase := av_phase (view_command x (emu_view e)), em_busy := EMU_LATENCY\<rparr>)
    = view_command x (emu_view e)"
  by (simp_all add: emu_view_def view_command_def EMU_LATENCY_def)

lemma emu_status_view: "view_status (fst (emu_status e)) (emu_view e) (emu_view (snd (emu_status e)))"
proof (cases "em_busy e = 0")
  case False
  then show ?thesis
    by (cases "em_phase e = Idle"; cases "em_busy e = 1") (simp_all add: emu_status_def view_status_def emu_view_def emu_bits)
next
  case True
  then show ?thesis
    by (cases "emu_fault e"; cases "em_phase e = Idle")
      (simp_all add: emu_status_def view_status_def emu_view_def emu_bits)
qed

interpretation emu: ata_device emu_ports emu_view
proof
  fix h :: emu and h' s l n k w ws port x
  show "length (av_sectors (emu_view h) l) = SECTOR_SIZE" by (simp add: emu_view_def)
  show "av_drq (emu_view h) \<Longrightarrow> av_phase (emu_view h) \<noteq> Idle" by (simp add: emu_view_def)
  show "in_b emu_ports ATA_REG_STATUS h = (s, h') \<Longrightarrow> view_status s (emu_view h) (emu_view h')"
    using emu_status_view [of h] by (simp add: emu_ports_def)
  show "emu_view (out_b emu_ports port x h) = view_out_b port x (emu_view h)"
    by (simp only: emu_ports_def ports.select_convs emu_out_b_def view_out_b_def if_distrib [of emu_view] emu_view_update)
  show "av_drq (emu_view h) \<Longrightarrow> av_phase (emu_view h) = Sending l n k \<Longrightarrow>
      in_w emu_ports ATA_REG_DATA h = (w, h') \<Longrightarrow>
      w = get16 (av_sectors (emu_view h) l) (2 * k) \<and> emu_view h' = view_sent l n k (emu_view h)"
    by (auto simp: emu_ports_def emu_in_w_def emu_view_def view_sent_def EMU_LATENCY_def split: if_splits)
  show "av_drq (emu_view h) \<Longrightarrow> av_phase (emu_view h) = Receiving l n ws \<Longrightarrow> length ws < 256 \<Longrightarrow>
      emu_view (out_w emu_ports ATA_REG_DATA w h) = view_received l n (ws @ [w]) (emu_view h)"
  proof -
    assume h: "av_drq (emu_view h)" "av_phase (emu_view h) = Receiving l n ws" "length ws < 256"
    have "map (\<lambda>i. bytes_of_words (ws @ [w]) ! i) [0..<SECTOR_SIZE] = bytes_of_words (ws @ [w])"
      if "\<not> Suc (length ws) < 256"
      using h(3) that by (intro map_nth_sector) (simp add: length_bytes_of_words SECTOR_SIZE_def)
    with h show ?thesis
      by (auto simp: emu_ports_def emu_out_w_def emu_view_def view_received_def EMU_LATENCY_def fun_eq_iff)
  qed
qed

definition emu_ok :: "emu \<Rightarrow> bool" where
  "emu_ok e \<longleftrightarrow> em_busy e \<le> EMU_LATENCY \<and> \<not> emu_fault e"

lemma emu_ok_idle: "em_busy e \<le> EMU_LATENCY \<Longrightarrow> em_phase e = Idle \<Longrightarrow> emu_ok e"
  by (simp add: emu_ok_def emu_fault_def EMU_SECTORS_def)

lemma emu_status_ok:
  assumes "emu_ok e" and "in_b emu_ports ATA_REG_STATUS e = (st, e')"
  shows "emu_ok e'" "em_phase e' = em_phase e" "em_busy e' = em_busy e - 1" "st AND ATA_SR_ERR = 0"
    "em_busy e = 0 \<Longrightarrow> st AND ATA_SR_BSY = 0" "em_busy e = 0 \<Longrightarrow> st AND ATA_SR_DRDY \<noteq> 0"
    "em_busy e \<noteq> 0 \<Longrightarrow> st AND ATA_SR_BSY \<noteq> 0"
    "em_busy e = 0 \<Longrightarrow> em_phase e \<noteq> Idle \<Longrightarrow> st AND ATA_SR_DRQ \<noteq> 0"
  using assms
  by (auto simp: emu_ok_def emu_fault_def emu_ports_def emu_status_def emu_bits split: if_splits)

lemma emu_delay_ok: "emu_ok e \<Longrightarrow> emu_ok (ata_io_delay emu_ports e) \<and>
    em_phase (ata_io_delay emu_ports e) = em_phase e"
proof -
  have "emu_ok e \<Longrightarrow> emu_ok (ata_delay_loop emu_ports n e) \<and>
    em_phase (ata_delay_loop emu_ports n e) = em_phase e" for n
  proof (induction n arbitrary: e)
    case 0
    then show ?case by simp
  next
    case (Suc n)
    obtain st e1 where r: "in_b emu_ports ATA_REG_STATUS e = (st, e1)" by fastforce
    from Suc.IH [of e1] emu_status_ok [OF Suc.prems r] r show ?case by simp
  qed
  then show "emu_ok e \<Longrightarrow> ?thesis" by (simp add: ata_io_delay_def)
qed

lemma emu_wait_clear_loop_ok:
  "emu_ok e \<Longrightarrow> em_busy e < n \<Longrightarrow>
    \<exists>e'. ata_wait_clear_loop emu_ports n e = (True, e') \<and> emu_ok e' \<and> em_phase e' = em_phase e"
proof (induction n arbitrary: e)
  case 0
  then show ?case by simp
next
  case (Suc n)
  obtain st e1 where r: "in_b emu_ports ATA_REG_STATUS e = (st, e1)" by fastforce
  note s = emu_status_ok [OF Suc.prems(1) r]
  show ?case using Suc.IH [of e1] Suc.prems(2) s r by (cases "em_busy e = 0") auto
qed

lemma emu_wait_drq_loop_ok:
  "emu_ok e \<Longrightarrow> em_busy e < n \<Longrightarrow> em_phase e \<noteq> Idle \<Longrightarrow>
    \<exists>e'. ata_wait_drq_loop emu_ports n e = (True, e') \<and> emu_ok e' \<and> em_phase e' = em_phase e"
proof (induction n arbitrary: e)
  case 0
  then show ?case by simp
next
  case (Suc n)
  obtain st e1 where r: "in_b emu_ports ATA_REG_STATUS e = (st, e1)" by fastforce
  note s = emu_status_ok [OF Suc.prems(1) r]
  show ?case using Suc.IH [of e1] Suc.prems(2,3) s r by (cases "em_busy e = 0") auto
qed

lemma emu_ok_polls: "emu_ok e \<Longrightarrow> em_busy e < ATA_POLLS"
  by (simp add: emu_ok_def EMU_LATENCY_def ATA_POLLS_def)

lemmas emu_wait_clear_ok = emu_wait_clear_loop_ok [OF _ emu_ok_polls, folded ata_wait_clear_bsy_def]
lemmas emu_wait_drq_ok = emu_wait_drq_loop_ok [OF _ emu_ok_polls, folded ata_wait_drq_def]

lemma emu_select_ok:
  assumes "emu_ok e" and "lba \<le> 0x0fffffff" and "count \<noteq> 0" and "unat lba < EMU_SECTORS"
  shows "\<exists>e'. ata_select_lba28 emu_ports lba count c e = (True, e') \<and> emu_ok e'"
proof -
  obtain e0 where w: "ata_wait_clear_bsy emu_ports e = (True, e0)" using emu_wait_clear_ok [OF assms(1,1)] by blast
  obtain e' where s: "ata_select_lba28 emu_ports lba count c e = (True, e')"
    using w assms(2,3) by (simp add: ata_select_lba28_def Let_def linorder_not_less)
  have "em_phase e' = av_phase (emu_view e')" by (simp add: emu_view_def)
  then have "\<not> emu_fault e'" using emu.select_view(2) [OF s] assms(4) by (simp add: emu_fault_def EMU_SECTORS_def)
  moreover have "em_busy e' = EMU_LATENCY"
    using s w assms(2,3)
    by (auto simp: ata_select_lba28_def Let_def linorder_not_less emu_ports_def emu_out_b_def ata_regs split: if_splits)
  ultimately show ?thesis using s by (simp add: emu_ok_def)
qed

lemma emu_read_words_busy:
  "em_busy e \<le> EMU_LATENCY \<Longrightarrow> em_busy (snd (ata_read_words emu_ports n e)) \<le> EMU_LATENCY"
proof (induction n arbitrary: e)
  case 0
  then show ?case by simp
next
  case (Suc n)
  have "em_busy (snd (emu_in_w e)) \<le> EMU_LATENCY"
    using Suc.prems by (auto simp: emu_in_w_def split: ata_phase.splits)
  moreover have "in_w emu_ports ATA_REG_DATA e = emu_in_w e" by (simp add: emu_ports_def)
  ultimately show ?case using Suc.IH [of "snd (emu_in_w e)"]
    by (cases "emu_in_w e"; cases "ata_read_words emu_ports n (snd (emu_in_w e))") simp
qed

lemma emu_write_words_busy:
  "em_busy e \<le> EMU_LATENCY \<Longrightarrow> em_busy (ata_write_words emu_ports ws e) \<le> EMU_LATENCY"
proof (induction ws arbitrary: e)
  case Nil
  then show ?case by simp
next
  case (Cons w ws)
  have "em_busy (emu_out_w w e) \<le> EMU_LATENCY"
    using Cons.prems by (auto simp: emu_out_w_def split: ata_phase.splits)
  from Cons.IH [OF this] show ?case by (simp add: emu_ports_def)
qed

lemma emu_read_loop_ok:
  assumes "emu_ok e" and "n \<noteq> 0 \<Longrightarrow> em_phase e = Sending l n 0" and "l + n \<le> EMU_SECTORS"
  shows "\<exists>bs e'. ata_read_loop emu_ports n acc e = (True, bs, e') \<and> emu_ok e'"
  using assms
proof (induction n arbitrary: e l acc)
  case 0
  then show ?case by simp
next
  case (Suc n)
  obtain e1 where w: "ata_wait_drq emu_ports e = (True, e1)" "emu_ok e1" "em_phase e1 = Sending l (Suc n) 0"
    using emu_wait_drq_ok [OF Suc.prems(1,1)] Suc.prems(2) by auto
  obtain ws e2 where r: "ata_read_words emu_ports 256 e1 = (ws, e2)" by fastforce
  have "av_drq (emu_view e1)" using emu.wait_drq_announced(1) [OF w(1)] by simp
  moreover have "av_phase (emu_view e1) = Sending l (Suc n) 0" using w(3) by (simp add: emu_view_def)
  ultimately have v: "emu_view e2 = (emu_view e1)\<lparr>av_phase := (if Suc n \<le> 1 then Idle else Sending (Suc l) (Suc n - 1) 0),
      av_drq := False\<rparr>"
    using r by (rule emu.read_sector_view(2))
  have ph: "em_phase e2 = (if n = 0 then Idle else Sending (Suc l) n 0)"
    using arg_cong [OF v, of av_phase] by (simp add: emu_view_def)
  have "em_busy e2 \<le> EMU_LATENCY" using emu_read_words_busy [of e1 256] w(2) r by (simp add: emu_ok_def)
  then have "emu_ok e2" using ph Suc.prems(3) by (auto simp: emu_ok_def emu_fault_def EMU_SECTORS_def)
  from emu_delay_ok [OF this] ph
  have "\<exists>bs e'. ata_read_loop emu_ports n (acc @ bytes_of_words ws) (ata_io_delay emu_ports e2) = (True, bs, e') \<and> emu_ok e'"
    using Suc.prems(3) by (intro Suc.IH [where l = "Suc l"]) auto
  with w(1) r show ?case by simp
qed

lemma emu_write_loop_ok:
  assumes "emu_ok e" and "n \<noteq> 0 \<Longrightarrow> em_phase e = Receiving l n []" and "l + n \<le> EMU_SECTORS"
  shows "\<exists>e'. ata_write_loop emu_ports bs k n e = (True, e') \<and> emu_ok e'"
  using assms
proof (induction n arbitrary: e l k)
  case 0
  then show ?case by simp
next
  case (Suc n)
  obtain e1 where w: "ata_wait_drq emu_ports e = (True, e1)" "emu_ok e1" "em_phase e1 = Receiving l (Suc n) []"
    using emu_wait_drq_ok [OF Suc.prems(1,1)] Suc.prems(2) by auto
  define e2 where "e2 = ata_write_words emu_ports (sector_words bs k) e1"
  have "av_drq (emu_view e1)" using emu.wait_drq_announced(1) [OF w(1)] by simp
  moreover have "av_phase (emu_view e1) = Receiving l (Suc n) []" using w(3) by (simp add: emu_view_def)
  moreover have "sector_words bs k \<noteq> []" by (metis length_sector_words list.size(3) zero_neq_numeral)
  ultimately have v: "emu_view e2 = view_received l (Suc n) (sector_words bs k) (emu_view e1)"
    using emu.write_words_view [of e1 l "Suc n" "[]" "sector_words bs k"] by (simp add: e2_def)
  have ph: "em_phase e2 = (if n = 0 then Idle else Receiving (Suc l) n [])"
    using arg_cong [OF v, of av_phase] by (simp add: emu_view_def view_received_def)
  have "em_busy e2 \<le> EMU_LATENCY" using emu_write_words_busy w(2) by (simp add: emu_ok_def e2_def)
  then have "emu_ok e2" using ph Suc.prems(3) by (auto simp: emu_ok_def emu_fault_def EMU_SECTORS_def)
  from emu_delay_ok [OF this] ph
  have "\<exists>e'. ata_write_loop emu_ports bs (Suc k) n (ata_io_delay emu_ports e2) = (True, e') \<and> emu_ok e'"
    using Suc.prems(3) by (intro Suc.IH [where l = "Suc l"]) auto
  with w(1) show ?case by (simp add: e2_def)
qed

lemma emu_wait_clear_done:
  "ata_wait_clear_loop emu_ports n e = (True, e') \<Longrightarrow> em_busy e' = 0 \<and> \<not> emu_fault e'"
proof (induction n arbitrary: e)
  case 0
  then show ?case by simp
next
  case (Suc n)
  consider "em_busy e \<noteq> 0" | "em_busy e = 0" "emu_fault e" | "em_busy e = 0" "\<not> emu_fault e" by blast
  then show ?case
    by cases (use Suc in \<open>auto simp: emu_ports_def emu_status_def emu_bits split: if_splits\<close>)
qed

definition emu_good :: "emu ata \<Rightarrow> bool" where
  "emu_good a \<longleftrightarrow> ata_ready a \<and> emu_ok (hw a)"

lemma emu_lba_range:
  fixes lba :: u32
  assumes "unat lba + unat (n :: u8) \<le> EMU_SECTORS" and "0 < n"
  shows "lba \<le> 0x0fffffff" "n \<noteq> 0" "unat lba < EMU_SECTORS"
proof -
  have "0 < unat n" using assms(2) by (simp add: unat_gt_0)
  then show "unat lba < EMU_SECTORS" using assms(1) by simp
  then show "lba \<le> 0x0fffffff" by (simp add: word_le_nat_alt EMU_SECTORS_def)
  show "n \<noteq> 0" using assms(2) by simp
qed

lemma emu_read28_ok:
  assumes "emu_good a" and "0 < n" and "unat lba + unat n \<le> EMU_SECTORS"
  shows "\<exists>bs a'. ata_read28 emu_ports lba n a = (True, bs, a') \<and> emu_good a'"
proof -
  have g: "ata_ready a" "emu_ok (hw a)" using assms(1) by (simp_all add: emu_good_def)
  obtain e1 where s: "ata_select_lba28 emu_ports lba n 0x20 (hw a) = (True, e1)" "emu_ok e1"
    using emu_select_ok [OF g(2) emu_lba_range [OF assms(3,2)]] by blast
  have "em_phase e1 = Sending (unat lba) (unat n) 0"
    using emu.select_view(2) [OF s(1)] by (simp add: emu_view_def)
  then obtain bs e2 where "ata_read_loop emu_ports (unat n) [] e1 = (True, bs, e2)" "emu_ok e2"
    using emu_read_loop_ok [OF s(2) _ assms(3)] by blast
  then show ?thesis using s(1) g(1) by (simp add: ata_read28_def emu_good_def)
qed

lemma emu_write28_ok:
  assumes "emu_good a" and "0 < n" and "unat lba + unat n \<le> EMU_SECTORS"
  shows "\<exists>a'. ata_write28 emu_ports lba n bs a = (True, a') \<and> emu_good a'"
proof -
  have g: "ata_ready a" "emu_ok (hw a)" using assms(1) by (simp_all add: emu_good_def)
  obtain e1 where s: "ata_select_lba28 emu_ports lba n 0x30 (hw a) = (True, e1)" "emu_ok e1"
    using emu_select_ok [OF g(2) emu_lba_range [OF assms(3,2)]] by blast
  have "em_phase e1 = Receiving (unat lba) (unat n) []"
    using emu.select_view(2) [OF s(1)] by (simp add: emu_view_def)
  then obtain e2 where l: "ata_write_loop emu_ports bs 0 (unat n) e1 = (True, e2)" "emu_ok e2"
    using emu_write_loop_ok [OF s(2) _ assms(3)] by blast
  let ?e3 = "out_b emu_ports ATA_REG_COMMAND 0xe7 e2"
  have "emu_ok ?e3" by (rule emu_ok_idle) (simp_all add: emu_ports_def emu_out_b_def ata_regs view_command_def)
  then obtain e4 where "ata_wait_clear_bsy emu_ports ?e3 = (True, e4)" "emu_ok e4"
    using emu_wait_clear_ok by blast
  then show ?thesis using s(1) l(1) g(1) by (simp add: ata_write28_def emu_good_def)
qed

lemma emu_init_good: "emu_good (ata_init emu_ports a) \<longleftrightarrow> ata_ready (ata_init emu_ports a)"
proof -
  obtain ok e1 where w: "ata_wait_clear_bsy emu_ports (ata_io_delay emu_ports
      (out_b emu_ports ATA_REG_HDDEVSEL 0xe0 (hw a))) = (ok, e1)" by fastforce
  show ?thesis
  proof (cases ok)
    case False
    with w show ?thesis by (simp add: ata_init_def Let_def emu_good_def)
  next
    case True
    have e1: "em_busy e1 = 0" "\<not> emu_fault e1"
      using emu_wait_clear_done [OF w [unfolded ata_wait_clear_bsy_def True [THEN eqTrueI]]] by simp_all
    then have "in_b emu_ports ATA_REG_STATUS e1 = (fst (emu_status e1), e1)"
      by (simp add: emu_ports_def emu_status_def)
    with w True e1 show ?thesis by (simp add: ata_init_def Let_def emu_good_def emu_ok_def)
  qed
qed

lemma emu_good_init_ready:
  assumes "emu_good a"
  shows "ata_ready (ata_init emu_ports a)"
proof -
  have "emu_ok (out_b emu_ports ATA_REG_HDDEVSEL 0xe0 (hw a))"
    using assms by (simp add: emu_good_def emu_ports_def emu_out_b_def ata_regs emu_ok_def emu_fault_def)
  then obtain e1 where w: "ata_wait_clear_bsy emu_ports (ata_io_delay emu_ports
      (out_b emu_ports ATA_REG_HDDEVSEL 0xe0 (hw a))) = (True, e1)" "emu_ok e1"
    using emu_wait_clear_ok emu_delay_ok by blast
  have "em_busy e1 = 0" using emu_wait_clear_done [OF w(1) [unfolded ata_wait_clear_bsy_def]] by simp
  then have "in_b emu_ports ATA_REG_STATUS e1 = (fst (emu_status e1), e1)"
      "fst (emu_status e1) \<noteq> 0 \<and> fst (emu_status e1) AND ATA_SR_DRDY \<noteq> 0"
    using w(2) by (simp_all add: emu_ports_def emu_status_def emu_ok_def emu_bits)
  with w(1) show ?thesis by (simp add: ata_init_def Let_def)
qed

interpretation emu_disk: reliable_block_device "ata_blockdev emu_ports" "ata_sectors emu_view" emu_good EMU_SECTORS
proof
  show "\<exists>bs d'. bd_read (ata_blockdev emu_ports) lba n d = (True, bs, d') \<and> emu_good d'"
    if "emu_good d" "0 < n" "unat lba + unat n \<le> EMU_SECTORS" for d n lba
    using emu_read28_ok [OF that] by (simp add: ata_blockdev_def)
  show "\<exists>d'. bd_write (ata_blockdev emu_ports) lba n bs d = (True, d') \<and> emu_good d'"
    if "emu_good d" "0 < n" "unat lba + unat n \<le> EMU_SECTORS" "length bs = SECTOR_SIZE * unat n" for d n lba bs
    using emu_write28_ok [OF that(1-3)] by (simp add: ata_blockdev_def)
  show "emu_good (bd_init (ata_blockdev emu_ports) d)
      \<longleftrightarrow> bd_ready (ata_blockdev emu_ports) (bd_init (ata_blockdev emu_ports) d)" for d
    using emu_init_good by (simp add: ata_blockdev_def ata_is_ready_def)
qed

text \<open>A powered-on drive with an empty disk.\<close>

definition emu_blank :: "emu ata" where
  "emu_blank = \<lparr>ata_ready = True, hw = \<lparr>em_data = (\<lambda>l i. 0), em_phase = Idle, em_busy = 0, em_count = 0,
     em_lba0 = 0, em_lba1 = 0, em_lba2 = 0, em_dev = 0\<rparr>\<rparr>"

lemma emu_blank_good: "emu_good emu_blank"
  by (simp add: emu_good_def emu_blank_def emu_ok_idle)

section \<open>Properties of the driver\<close>

text \<open>C17: on every drive that follows the register protocol, a successful \<open>ata_read28\<close> returns
  exactly the requested sectors, and no read, successful or not, changes a sector.\<close>

theorem ata_read28_correct:
  assumes "ata_device P view" and "ata_read28 P lba n a = (ok, bs, a')"
  shows "ata_sectors view a' = ata_sectors view a \<and>
    (ok \<longrightarrow> bs = read_sectors (unat lba) (unat n) (ata_sectors view a))"
  using ata_device.read28_view [OF assms] .

theorem ata_read28_correct_witness:
  "\<exists>bs a'. ata_read28 emu_ports 5 2 emu_blank = (True, bs, a') \<and>
     bs = read_sectors 5 2 (ata_sectors emu_view emu_blank)"
proof -
  obtain bs a' where r: "ata_read28 emu_ports 5 2 emu_blank = (True, bs, a')"
    using emu_read28_ok [OF emu_blank_good, of 2 5] by (auto simp: EMU_SECTORS_def)
  from ata_read28_correct [OF emu.ata_device_axioms r] r show ?thesis by simp
qed

text \<open>C18: on every drive that follows the register protocol, \<open>ata_write28\<close> never changes a sector
  outside the requested range, and a successful call leaves exactly the caller's bytes there.\<close>

theorem ata_write28_correct:
  assumes "ata_device P view" and "ata_write28 P lba n bs a = (ok, a')"
  shows "(\<forall>l. l < unat lba \<or> unat lba + unat n \<le> l \<longrightarrow> ata_sectors view a' l = ata_sectors view a l) \<and>
    (ok \<and> length bs = SECTOR_SIZE * unat n \<longrightarrow>
       ata_sectors view a' = write_sectors (unat lba) (unat n) bs (ata_sectors view a))"
  using ata_device.write28_view [OF assms] .

theorem ata_write28_correct_witness:
  "\<exists>a'. ata_write28 emu_ports 7 1 (replicate SECTOR_SIZE 0xab) emu_blank = (True, a') \<and>
     ata_sectors emu_view a' = write_sectors 7 1 (replicate SECTOR_SIZE 0xab) (ata_sectors emu_view emu_blank)"
proof -
  obtain a' where w: "ata_write28 emu_ports 7 1 (replicate SECTOR_SIZE 0xab) emu_blank = (True, a')"
    using emu_write28_ok [OF emu_blank_good, of 1 7] by (auto simp: EMU_SECTORS_def)
  from ata_write28_correct [OF emu.ata_device_axioms w] w show ?thesis by simp
qed

end
