(* ===== verification/Fs_Correctness.thy ===== *)
theory Fs_Correctness
  imports Fs Ata
begin

text \<open>
  Correctness of the filesystem.  The abstract view of a filesystem state is a map from
  session ids to file contents (\<open>fs_sessions\<close>); \<open>fs_inv\<close> is the well-formedness of the
  superblock and the inode table.  Inside the locales of \<open>Block_Device\<close> the operations are
  shown to implement the map: a write adds one fresh entry, a read returns an entry, and a
  reload from disk gives back the same map.
\<close>

section \<open>The arithmetic of extents\<close>

lemma unat_sector_count_for:
  assumes "unat bytes + 511 < 2 ^ 32"
  shows "unat (sector_count_for bytes) = max 1 ((unat bytes + 511) div 512)"
proof -
  have "bytes + FS_SECTOR_SIZE - 1 = bytes + 511" by (simp add: FS_SECTOR_SIZE_def)
  moreover have "unat (bytes + 511) = unat bytes + 511"
    using assms by (subst unat_add_no_wrap) simp_all
  ultimately have s: "unat ((bytes + FS_SECTOR_SIZE - 1) div FS_SECTOR_SIZE) = (unat bytes + 511) div 512"
    by (simp only: unat_div) (simp add: FS_SECTOR_SIZE_def)
  show ?thesis
  proof (cases "(bytes + FS_SECTOR_SIZE - 1) div FS_SECTOR_SIZE = 0")
    case True
    with s show ?thesis by (simp add: sector_count_for_def)
  next
    case False
    then have "unat ((bytes + FS_SECTOR_SIZE - 1) div FS_SECTOR_SIZE) \<noteq> 0" by (simp only: unat_eq_zero simp_thms)
    with False s show ?thesis by (simp add: sector_count_for_def)
  qed
qed

lemma sector_index_bound:
  assumes "unat bytes + 511 < 2 ^ 32" and "i < unat (sector_count_for bytes)"
  shows "512 * i \<le> unat bytes" and "unat (word_of_nat i * FS_SECTOR_SIZE :: u32) = 512 * i"
proof -
  show le: "512 * i \<le> unat bytes"
    using assms by (auto simp: unat_sector_count_for max_def split: if_splits)
  have "word_of_nat i * FS_SECTOR_SIZE = (word_of_nat (512 * i) :: u32)"
    by (simp add: FS_SECTOR_SIZE_def mult.commute)
  moreover have "512 * i < 2 ^ LENGTH(32)" using le assms(1) by simp
  ultimately show "unat (word_of_nat i * FS_SECTOR_SIZE :: u32) = 512 * i"
    using unat_word_of_nat_less [where 'a = 32, of "512 * i"] by presburger
qed

text \<open>Sector \<open>i\<close> of a file of \<open>n\<close> bytes holds the bytes from \<open>512 i\<close> on, padded with zeros.\<close>

definition chunk_len :: "nat \<Rightarrow> nat \<Rightarrow> nat" where
  "chunk_len n i = min 512 (n - 512 * i)"

lemma unat_write_chunk:
  assumes "unat bytes + 511 < 2 ^ 32" and "i < unat (sector_count_for bytes)"
  shows "unat (write_chunk bytes i) = chunk_len (unat bytes) i"
proof -
  let ?o = "word_of_nat i * FS_SECTOR_SIZE :: u32"
  note b = sector_index_bound [OF assms]
  have "unat (if bytes > ?o then bytes - ?o else 0) = unat bytes - 512 * i"
    using b by (auto simp: word_less_nat_alt unat_minus_no_wrap word_le_nat_alt)
  then show ?thesis
    unfolding write_chunk_def Let_def chunk_len_def
    by (auto simp: FS_SECTOR_SIZE_def word_less_nat_alt)
qed

lemma unat_read_chunk:
  assumes "unat (i_size_bytes ino) + 511 < 2 ^ 32" and "i < unat (sector_count_for (i_size_bytes ino))"
  shows "unat (read_chunk ino i) = chunk_len (unat (i_size_bytes ino)) i"
proof -
  let ?o = "word_of_nat i * FS_SECTOR_SIZE :: u32"
  note b = sector_index_bound [OF assms]
  have "unat (i_size_bytes ino - ?o) = unat (i_size_bytes ino) - 512 * i"
    using b by (subst unat_minus_no_wrap) (auto simp: word_le_nat_alt)
  then show ?thesis
    unfolding read_chunk_def Let_def chunk_len_def
    by (auto simp: FS_SECTOR_SIZE_def word_less_nat_alt)
qed

lemma sector_buf_eq:
  assumes "unat bytes + 511 < 2 ^ 32" and "i < unat (sector_count_for bytes)"
    and "unat bytes \<le> length src"
  shows "length (sector_buf src bytes i) = 512"
    and "take (chunk_len (unat bytes) i) (sector_buf src bytes i)
      = take (chunk_len (unat bytes) i) (drop (512 * i) src)"
proof -
  note b = sector_index_bound [OF assms(1,2)] and c = unat_write_chunk [OF assms(1,2)]
  have le: "chunk_len (unat bytes) i \<le> length (drop (512 * i) src)"
    and le2: "chunk_len (unat bytes) i \<le> 512"
    using assms(3) by (auto simp: chunk_len_def)
  show "length (sector_buf src bytes i) = 512"
    and "take (chunk_len (unat bytes) i) (sector_buf src bytes i)
      = take (chunk_len (unat bytes) i) (drop (512 * i) src)"
    using le le2 by (simp_all add: sector_buf_def b c memcpy_eq SECTOR_SIZE_def del: drop_drop length_drop)
qed

section \<open>The invariant and the abstract view\<close>

definition extent_ok :: "fs_superblock \<Rightarrow> fs_inode \<Rightarrow> bool" where
  "extent_ok sb i \<longleftrightarrow> unat FS_DATA_START_LBA \<le> unat (i_start_lba i) \<and>
     unat (i_start_lba i) + unat (i_sector_count i) \<le> unat (sb_next_free_lba sb) \<and>
     unat (i_size_bytes i) + 511 < 2 ^ 32 \<and> i_sector_count i = sector_count_for (i_size_bytes i)"

definition inode_layout_ok :: "fs_inode \<Rightarrow> bool" where
  "inode_layout_ok i \<longleftrightarrow> length (i_name i) = 24 \<and> length (i_reserved i) = 44"

definition extents_disjoint :: "fs_inode \<Rightarrow> fs_inode \<Rightarrow> bool" where
  "extents_disjoint i j \<longleftrightarrow> unat (i_start_lba i) + unat (i_sector_count i) \<le> unat (i_start_lba j) \<or>
     unat (i_start_lba j) + unat (i_sector_count j) \<le> unat (i_start_lba i)"

text \<open>
  Session ids are handed out in order and every session takes a sector, so the id counter
  stays below the number of allocated sectors and never wraps.
\<close>

definition super_ok :: "fs_superblock \<Rightarrow> bool" where
  "super_ok sb \<longleftrightarrow> length (sb_reserved sb) = 480 \<and> sb_magic sb = FS_MAGIC \<and>
     sb_version sb = FS_VERSION \<and> 1 \<le> unat (sb_next_session_id sb) \<and>
     unat FS_DATA_START_LBA + unat (sb_next_session_id sb) \<le> unat (sb_next_free_lba sb) + 1 \<and>
     unat (sb_next_free_lba sb) \<le> 6144"

definition inode_ok :: "fs_superblock \<Rightarrow> fs_inode \<Rightarrow> bool" where
  "inode_ok sb i \<longleftrightarrow> inode_layout_ok i \<and> (i_used i \<noteq> 0 \<longrightarrow> extent_ok sb i) \<and>
     (is_trace i \<longrightarrow> unat (i_session_id i) < unat (sb_next_session_id sb))"

definition inodes_ok :: "fs_superblock \<Rightarrow> fs_inode list \<Rightarrow> bool" where
  "inodes_ok sb is \<longleftrightarrow> super_ok sb \<and> length is = FS_MAX_INODES \<and> list_all (inode_ok sb) is \<and>
     (\<forall>j < FS_MAX_INODES. \<forall>k < FS_MAX_INODES. j \<noteq> k \<and> i_used (is ! j) \<noteq> 0 \<and> i_used (is ! k) \<noteq> 0 \<longrightarrow>
        extents_disjoint (is ! j) (is ! k) \<and>
        (is_trace (is ! j) \<and> is_trace (is ! k) \<longrightarrow> i_session_id (is ! j) \<noteq> i_session_id (is ! k)))"

definition fs_inv :: "'d fs_state \<Rightarrow> bool" where
  "fs_inv st \<longleftrightarrow> inodes_ok (superblock st) (inodes st)"

text \<open>The bytes of the file an inode describes, and the map of the trace sessions.\<close>

definition file_bytes :: "(nat \<Rightarrow> u8 list) \<Rightarrow> fs_inode \<Rightarrow> u8 list" where
  "file_bytes dk i = take (unat (i_size_bytes i))
     (read_sectors (unat (i_start_lba i)) (unat (i_sector_count i)) dk)"

definition fs_sessions :: "('d \<Rightarrow> nat \<Rightarrow> u8 list) \<Rightarrow> 'd fs_state \<Rightarrow> u32 \<Rightarrow> u8 list option" where
  "fs_sessions sec st sid =
     map_option (\<lambda>k. file_bytes (sec (disk st)) (inodes st ! k)) (fs_find_session sid st)"

definition fs_execs :: "('d \<Rightarrow> nat \<Rightarrow> u8 list) \<Rightarrow> 'd fs_state \<Rightarrow> char list \<Rightarrow> u8 list option" where
  "fs_execs sec st path =
     map_option (\<lambda>k. file_bytes (sec (disk st)) (inodes st ! k)) (fs_find_exec path st)"

section \<open>The write loop\<close>

lemma file_bytes_chunks:
  assumes b: "unat n + 511 < 2 ^ 32" and len: "unat n \<le> length src"
    and sec: "\<And>i. i < unat (sector_count_for n) \<Longrightarrow>
      length (dk (unat l + i)) = 512 \<and>
      take (chunk_len (unat n) i) (dk (unat l + i)) = take (chunk_len (unat n) i) (drop (512 * i) src)"
  shows "take (unat n) (read_sectors (unat l) (unat (sector_count_for n)) dk) = take (unat n) src"
proof -
  have "k \<le> unat (sector_count_for n) \<Longrightarrow>
      length (read_sectors (unat l) k dk) = 512 * k \<and>
      take (unat n) (read_sectors (unat l) k dk) = take (min (512 * k) (unat n)) src" for k
  proof (induction k)
    case 0
    then show ?case by (simp add: read_sectors_def)
  next
    case (Suc k)
    then have k: "k < unat (sector_count_for n)" by simp
    note c = sector_index_bound(1) [OF b k]
    have r: "read_sectors (unat l) (Suc k) dk = read_sectors (unat l) k dk @ dk (unat l + k)"
      by (simp add: read_sectors_def)
    have m: "min 512 (unat n - 512 * k) = chunk_len (unat n) k" by (simp add: chunk_len_def)
    have "take (unat n) (read_sectors (unat l) (Suc k) dk)
      = take (512 * k) src @ take (unat n - 512 * k) (dk (unat l + k))"
      using Suc.IH k c by (simp add: r)
    also have "take (unat n - 512 * k) (dk (unat l + k)) = take (chunk_len (unat n) k) (dk (unat l + k))"
      using sec [OF k] m by (metis min.commute take_all_iff take_take order_refl)
    also have "\<dots> = take (chunk_len (unat n) k) (drop (512 * k) src)"
      using sec [OF k] by blast
    also have "take (512 * k) src @ \<dots> = take (512 * k + chunk_len (unat n) k) src"
      by (simp add: take_add)
    also have "512 * k + chunk_len (unat n) k = min (512 * Suc k) (unat n)"
      using c by (simp add: chunk_len_def)
    finally show ?case using Suc.IH k sec [OF k] by (simp add: r)
  qed
  note this [OF order_refl]
  moreover have "min (512 * unat (sector_count_for n)) (unat n) = unat n"
    unfolding unat_sector_count_for [OF b] by (simp add: min_def max_def) linarith
  ultimately show ?thesis by simp
qed

lemma lba_no_wrap:
  fixes start :: u32
  assumes "unat start + i < 2 ^ 32"
  shows "unat (start + word_of_nat i) = unat start + i"
  using assms by (subst unat_add_no_wrap) (simp_all add: unat_word_of_nat_less)

lemma memcpy_at_next:
  assumes "off + c \<le> length buf" and "off + c \<le> length R" and "take c bs = take c (drop off R)"
  shows "memcpy_at (take off R @ drop off buf) off bs c = Some (take (off + c) R @ drop (off + c) buf)"
proof -
  let ?m = "take off R @ drop off buf"
  have "length ?m = length buf" and "take off ?m = take off R"
    and "drop (off + c) ?m = drop (off + c) buf"
    using assms(1,2) by (simp_all add: add.commute)
  moreover have "take (off + c) R = take off R @ take c bs" by (simp add: take_add assms(3))
  ultimately show ?thesis using assms(1) by (simp only: memcpy_at_def if_True append_assoc)
qed

context block_device
begin

lemma length_read_sectors: "length (read_sectors l n (sec d)) = 512 * n"
  by (induction n) (simp_all add: read_sectors_def sec_length SECTOR_SIZE_def)

lemma sec_of_read:
  "i < n \<Longrightarrow> sec d (l + i) = take 512 (drop (512 * i) (read_sectors l n (sec d)))"
proof (induction n)
  case 0
  then show ?case by simp
next
  case (Suc n)
  have "read_sectors l (Suc n) (sec d) = read_sectors l n (sec d) @ sec d (l + n)"
    by (simp add: read_sectors_def)
  moreover have "i < n \<Longrightarrow> 512 * i + 512 \<le> 512 * n" by simp
  ultimately show ?case
    using Suc length_read_sectors [of l n d] by (cases "i = n") (simp_all add: sec_length SECTOR_SIZE_def)
qed

text \<open>A successful loop leaves its sector buffers on the disk; no run touches a sector outside.\<close>

lemma write_loop_sectors:
  assumes "fs_write_loop B src bytes start i n d = (True, d')"
    and "\<And>k. k < i + n \<Longrightarrow> length (sector_buf src bytes k) = SECTOR_SIZE"
    and "unat start + i + n < 2 ^ 32"
  shows "sec d' = (\<lambda>l. if unat start + i \<le> l \<and> l < unat start + i + n
    then sector_buf src bytes (l - unat start) else sec d l)"
  using assms
proof (induction n arbitrary: i d)
  case 0
  then show ?case by (auto simp: fun_eq_iff)
next
  case (Suc n)
  obtain ok d1 where w: "bd_write B (start + word_of_nat i) 1 (sector_buf src bytes i) d = (ok, d1)"
    by fastforce
  with Suc.prems(1) have ok: "ok" and rest: "fs_write_loop B src bytes start (Suc i) n d1 = (True, d')"
    by (auto split: if_splits)
  have "unat (start + word_of_nat i) = unat start + i"
    using Suc.prems(3) by (intro lba_no_wrap) simp
  then have d1: "sec d1 = (sec d)(unat start + i := sector_buf src bytes i)"
    using write_one [OF w [unfolded ok [THEN eqTrueI]]] Suc.prems(2) [of i] by simp
  have "sec d' = (\<lambda>l. if unat start + Suc i \<le> l \<and> l < unat start + Suc i + n
    then sector_buf src bytes (l - unat start) else sec d1 l)"
    using Suc.prems(2,3) by (intro Suc.IH [OF rest]) simp_all
  then show ?case unfolding d1 by (auto simp: fun_eq_iff)
qed

lemma write_loop_frame:
  assumes "fs_write_loop B src bytes start i n d = (ok, d')"
    and "unat start + i + n < 2 ^ 32"
    and "l < unat start + i \<or> unat start + i + n \<le> l"
  shows "sec d' l = sec d l"
  using assms
proof (induction n arbitrary: i d)
  case 0
  then show ?case by simp
next
  case (Suc n)
  obtain ok1 d1 where w: "bd_write B (start + word_of_nat i) 1 (sector_buf src bytes i) d = (ok1, d1)"
    by fastforce
  have "unat (start + word_of_nat i) = unat start + i"
    using Suc.prems(2) by (intro lba_no_wrap) simp
  then have d1: "sec d1 l = sec d l" using write_frame [OF w] Suc.prems(3) by auto
  show ?case
  proof (cases ok1)
    case True
    then have "sec d' l = sec d1 l" using w Suc.prems by (intro Suc.IH [of "Suc i" d1]) auto
    with d1 show ?thesis by simp
  next
    case False
    with w Suc.prems(1) d1 show ?thesis by simp
  qed
qed

lemma write_loop_file:
  assumes w: "fs_write_loop B src bytes start 0 (unat (sector_count_for bytes)) d = (True, d')"
    and b: "unat bytes + 511 < 2 ^ 32" and len: "unat bytes \<le> length src"
    and nw: "unat start + unat (sector_count_for bytes) < 2 ^ 32"
  shows "take (unat bytes) (read_sectors (unat start) (unat (sector_count_for bytes)) (sec d'))
    = take (unat bytes) src"
proof (rule file_bytes_chunks [OF b len])
  fix i assume i: "i < unat (sector_count_for bytes)"
  note sb = sector_buf_eq [OF b _ len]
  have "sec d' = (\<lambda>l. if unat start + 0 \<le> l \<and> l < unat start + 0 + unat (sector_count_for bytes)
    then sector_buf src bytes (l - unat start) else sec d l)"
    using w nw by (intro write_loop_sectors) (simp_all add: sb SECTOR_SIZE_def)
  then have "sec d' (unat start + i) = sector_buf src bytes i" using i by simp
  then show "length (sec d' (unat start + i)) = 512 \<and>
      take (chunk_len (unat bytes) i) (sec d' (unat start + i))
        = take (chunk_len (unat bytes) i) (drop (512 * i) src)"
    using sb i by simp
qed

text \<open>
  The read loop keeps the bytes copied so far in front of the caller's old bytes; it stops
  with the whole file there, or at a sector the device cannot read.
\<close>

lemma read_loop_file:
  assumes "fs_read_loop B ino i n
      (take (min (512 * i) (unat (i_size_bytes ino))) R @ drop (min (512 * i) (unat (i_size_bytes ino))) buf) d = (r, d')"
    and "i + n = unat (i_sector_count ino)" and "i_sector_count ino = sector_count_for (i_size_bytes ino)"
    and "unat (i_size_bytes ino) + 511 < 2 ^ 32"
    and "unat (i_start_lba ino) + unat (i_sector_count ino) < 2 ^ 32"
    and "unat (i_size_bytes ino) \<le> length buf"
    and "R = read_sectors (unat (i_start_lba ino)) (unat (i_sector_count ino)) (sec d)"
  shows "sec d' = sec d \<and> ((\<exists>b. r = Read_Fail b) \<or>
    r = Read_Ok (i_size_bytes ino) (take (unat (i_size_bytes ino)) R @ drop (unat (i_size_bytes ino)) buf))"
  using assms
proof (induction n arbitrary: i d)
  case 0
  then have "min (512 * i) (unat (i_size_bytes ino)) = unat (i_size_bytes ino)"
    using unat_sector_count_for [OF "0.prems"(4)] by (simp add: min_def max_def) linarith
  with "0.prems"(1) show ?case by simp
next
  case (Suc n)
  let ?sz = "unat (i_size_bytes ino)" and ?l = "i_start_lba ino + word_of_nat i"
  let ?buf = "take (min (512 * i) ?sz) R @ drop (min (512 * i) ?sz) buf"
  have i: "i < unat (sector_count_for (i_size_bytes ino))" using Suc.prems(2,3) by simp
  note c = sector_index_bound [OF Suc.prems(4) i]
  obtain ok bs d1 where rd: "bd_read B ?l 1 d = (ok, bs, d1)" by (metis prod_cases3)
  note fr = read_frame [OF rd]
  show ?case
  proof (cases ok)
    case False
    with Suc.prems(1) rd fr show ?thesis by auto
  next
    case True
    have l: "unat ?l = unat (i_start_lba ino) + i" using Suc.prems(2,5) by (intro lba_no_wrap) simp
    have bs: "bs = sec d (unat (i_start_lba ino) + i)"
      using read_one rd True l by fastforce
    have lenR: "length R = 512 * unat (i_sector_count ino)"
      by (simp add: Suc.prems(7) length_read_sectors)
    have bsR: "bs = take 512 (drop (512 * i) R)"
      using sec_of_read [of i "unat (i_sector_count ino)"] Suc.prems(2) by (simp add: bs Suc.prems(7))
    have ch: "512 * i + chunk_len ?sz i = min (512 * Suc i) ?sz" "chunk_len ?sz i \<le> 512"
      using c(1) by (auto simp: chunk_len_def)
    have "memcpy_at ?buf (512 * i) bs (chunk_len ?sz i)
      = Some (take (512 * i + chunk_len ?sz i) R @ drop (512 * i + chunk_len ?sz i) buf)"
      using c(1) memcpy_at_next [of "512 * i" "chunk_len ?sz i" buf R bs] ch Suc.prems(6) lenR bsR i Suc.prems(3)
      by (simp add: min_absorb1)
    then have "fs_read_loop B ino (Suc i) n
        (take (min (512 * Suc i) ?sz) R @ drop (min (512 * Suc i) ?sz) buf) d1 = (r, d')"
      using Suc.prems(1) rd True by (simp add: c(2) unat_read_chunk [OF Suc.prems(4) i] ch(1))
    then show ?thesis
      using Suc.IH [of "Suc i" d1] Suc.prems(2-7) fr by simp
  qed
qed

end

section \<open>The invariant is kept\<close>

lemmas fs_lba_consts = fs_consts FS_MAX_INODES_def

definition session_inode :: "u32 \<Rightarrow> trace_session_info option \<Rightarrow> fs_superblock \<Rightarrow> fs_inode" where
  "session_inode bytes info sb = inode_zero\<lparr>i_used := 1, i_type := INODE_TYPE_TRACE,
     i_session_id := sb_next_session_id sb, i_size_bytes := bytes,
     i_profile_id := (case info of None \<Rightarrow> 0 | Some n \<Rightarrow> si_profile_id n),
     i_start_lba := sb_next_free_lba sb, i_sector_count := sector_count_for bytes,
     i_created_ticks := (case info of None \<Rightarrow> 0 | Some n \<Rightarrow> si_start_ticks n),
     i_duration_ticks := (case info of None \<Rightarrow> 0 | Some n \<Rightarrow> si_duration_ticks n),
     i_event_count := (case info of None \<Rightarrow> ucast (bytes div word_of_nat EVENT_SIZE)
       | Some n \<Rightarrow> ucast (si_event_count n)),
     i_sequence_hash := (case info of None \<Rightarrow> 0 | Some n \<Rightarrow> si_sequence_hash n)\<rparr>"

definition session_super :: "u32 \<Rightarrow> fs_superblock \<Rightarrow> fs_superblock" where
  "session_super bytes sb = sb\<lparr>sb_next_session_id := sb_next_session_id sb + 1,
     sb_next_free_lba := sb_next_free_lba sb + sector_count_for bytes\<rparr>"

text \<open>
  The three outcomes of \<open>fs_write_trace_session\<close>: nothing happened; the data could not be
  written and the inode is released; the inode and the superblock are updated in memory, and
  the two metadata writes decide about the result.
\<close>

lemma write_session_cases:
  assumes w: "fs_write_trace_session B data bytes info st = (r, st')"
    and len: "length (inodes st) = FS_MAX_INODES"
  obtains (nothing) "r = None" "st' = st"
  | (data_failed) k d where "r = None" "fs_online st" "\<not> fs_no_room (sector_count_for bytes) st"
      "find_index (\<lambda>i. i_used i = 0) (inodes st) = Some k"
      "fs_write_loop B data bytes (sb_next_free_lba (superblock st)) 0 (unat (sector_count_for bytes)) (disk st) = (False, d)"
      "st' = st\<lparr>disk := d, inodes := (inodes st)[k := inode_zero]\<rparr>"
  | (written) k d ok1 ok2 st1 where "fs_online st" "\<not> fs_no_room (sector_count_for bytes) st"
      "find_index (\<lambda>i. i_used i = 0) (inodes st) = Some k"
      "fs_write_loop B data bytes (sb_next_free_lba (superblock st)) 0 (unat (sector_count_for bytes)) (disk st) = (True, d)"
      "fs_flush_inodes B (st\<lparr>disk := d, inodes := (inodes st)[k := session_inode bytes info (superblock st)],
         superblock := session_super bytes (superblock st)\<rparr>) = (ok1, st1)"
      "(if ok1 then fs_flush_superblock B st1 else (False, st1)) = (ok2, st')"
      "r = (if ok2 then Some (sb_next_session_id (superblock st)) else None)"
proof -
  let ?sb = "superblock st" and ?n = "sector_count_for bytes"
  obtain ok d where loop: "fs_write_loop B data bytes (sb_next_free_lba ?sb) 0 (unat ?n) (disk st) = (ok, d)"
    by fastforce
  show ?thesis
  proof (cases "\<not> fs_online st \<or> fs_no_room ?n st \<or> find_index (\<lambda>i. i_used i = 0) (inodes st) = None")
    case True
    then have "r = None" "st' = st" using w
      by (auto simp: fs_write_trace_session_def Let_def fs_alloc_inode_def split: if_splits)
    then show ?thesis by (rule nothing)
  next
    case False
    then obtain k where k: "find_index (\<lambda>i. i_used i = 0) (inodes st) = Some k" by auto
    then have kl: "k < length (inodes st)" by (rule find_index_SomeD)
    note f = False [simplified]
    show ?thesis
    proof (cases ok)
      case False
      have "(r, st') = (None, st\<lparr>disk := d, inodes := (inodes st)[k := inode_zero]\<rparr>)"
        using w f loop False kl k
        by (simp add: fs_write_trace_session_def Let_def fs_alloc_inode_def upd_inode_def inode_zero_def)
      then show ?thesis using f k loop False by (intro data_failed) auto
    next
      case True
      let ?st = "st\<lparr>disk := d, inodes := (inodes st)[k := session_inode bytes info ?sb],
         superblock := session_super bytes ?sb\<rparr>"
      obtain ok1 st1 where fl: "fs_flush_inodes B ?st = (ok1, st1)" by fastforce
      obtain ok2 st2 where fl2: "(if ok1 then fs_flush_superblock B st1 else (False, st1)) = (ok2, st2)"
        by fastforce
      have "(r, st') = (if ok2 then Some (sb_next_session_id ?sb) else None, st2)"
        using w f loop True kl k fl fl2
        by (simp add: fs_write_trace_session_def Let_def fs_alloc_inode_def upd_inode_def
            session_inode_def session_super_def split: if_splits)
      then show ?thesis using f k loop True fl fl2 by (intro written) auto
    qed
  qed
qed

lemma alloc_room:
  assumes sb: "super_ok (superblock st)" and b: "unat bytes + 511 < 2 ^ 32"
    and room: "\<not> fs_no_room (sector_count_for bytes) st"
  defines "nf \<equiv> sb_next_free_lba (superblock st)"
  shows "unat (nf + sector_count_for bytes) = unat nf + unat (sector_count_for bytes)"
    and "unat nf + unat (sector_count_for bytes) \<le> 6144" and "1 \<le> unat (sector_count_for bytes)"
proof -
  have n: "unat (sector_count_for bytes) \<le> 8388608" "1 \<le> unat (sector_count_for bytes)"
    using b by (simp_all add: unat_sector_count_for)
  have nf: "unat nf \<le> 6144" using sb by (simp add: super_ok_def nf_def)
  then show eq: "unat (nf + sector_count_for bytes) = unat nf + unat (sector_count_for bytes)"
    using n by (intro unat_add_no_wrap) simp
  show "unat nf + unat (sector_count_for bytes) \<le> 6144"
    using room eq [symmetric] by (simp add: fs_no_room_def nf_def fs_consts word_less_nat_alt)
  show "1 \<le> unat (sector_count_for bytes)" by (rule n)
qed

text \<open>Filling a free slot with an inode for a fresh extent.\<close>

lemma inodes_ok_insert:
  assumes inv: "inodes_ok sb is" and k: "k < length is"
    and sb': "super_ok sb'" and grow: "unat (sb_next_session_id sb) \<le> unat (sb_next_session_id sb')"
      "unat (sb_next_free_lba sb) \<le> unat (sb_next_free_lba sb')"
    and new: "inode_ok sb' x" "i_used x \<noteq> 0 \<Longrightarrow> unat (sb_next_free_lba sb) \<le> unat (i_start_lba x)"
    and sid: "is_trace x \<Longrightarrow> unat (sb_next_session_id sb) \<le> unat (i_session_id x)"
  shows "inodes_ok sb' (is[k := x])"
proof -
  have old: "inode_ok sb (is ! j)" if "j < length is" for j
    using inv that by (simp add: inodes_ok_def list_all_length)
  have mono: "inode_ok sb' i" if "inode_ok sb i" for i
    using that grow by (auto simp: inode_ok_def extent_ok_def)
  have "list_all (inode_ok sb') (is[k := x])"
    using old mono new(1) k by (auto simp: list_all_length nth_list_update)
  moreover have "extents_disjoint (is ! j) x \<and> extents_disjoint x (is ! j) \<and>
     (is_trace (is ! j) \<and> is_trace x \<longrightarrow> i_session_id (is ! j) \<noteq> i_session_id x \<and>
        i_session_id x \<noteq> i_session_id (is ! j))"
    if "j < length is" "i_used (is ! j) \<noteq> 0" "i_used x \<noteq> 0" for j
    using old [OF that(1)] that(2,3) new(2) sid
    by (auto simp: inode_ok_def extent_ok_def extents_disjoint_def)
  ultimately show ?thesis
    using inv sb' k by (auto simp: inodes_ok_def nth_list_update)
qed

lemma flush_inodes_fields:
  assumes "fs_flush_inodes B st = (ok, st1)"
  shows "superblock st1 = superblock st" "inodes st1 = inodes st" "fs_online st1 = fs_online st"
  using assms by (auto simp: fs_flush_inodes_def split: prod.splits)

lemma flush_superblock_fields:
  assumes "fs_flush_superblock B st = (ok, st1)"
  shows "superblock st1 = superblock st" "inodes st1 = inodes st" "fs_online st1 = fs_online st"
  using assms by (auto simp: fs_flush_superblock_def split: prod.splits)

lemma flush_both_fields:
  assumes "fs_flush_inodes B st = (ok1, st1)"
    and "(if ok1 then fs_flush_superblock B st1 else (False, st1)) = (ok2, st2)"
  shows "superblock st2 = superblock st" "inodes st2 = inodes st" "fs_online st2 = fs_online st"
  using flush_inodes_fields [OF assms(1)] assms(2) flush_superblock_fields [of B st1 ok2 st2]
  by (auto split: if_splits)

lemma inode_zero_ok: "inode_ok sb inode_zero" "i_used inode_zero = 0" "\<not> is_trace inode_zero"
  by (simp_all add: inode_ok_def inode_zero_def inode_layout_ok_def is_trace_def)

lemma session_super_ok:
  assumes sb: "super_ok (superblock st)" and b: "unat bytes + 511 < 2 ^ 32"
    and room: "\<not> fs_no_room (sector_count_for bytes) st"
  shows "super_ok (session_super bytes (superblock st))"
    and "unat (sb_next_session_id (session_super bytes (superblock st))) = unat (sb_next_session_id (superblock st)) + 1"
proof -
  have "unat (sb_next_session_id (superblock st)) \<le> 6144"
    using sb by (simp add: super_ok_def fs_consts)
  then show s: "unat (sb_next_session_id (session_super bytes (superblock st))) = unat (sb_next_session_id (superblock st)) + 1"
    by (simp add: session_super_def) (subst unat_add_no_wrap, simp_all)
  show "super_ok (session_super bytes (superblock st))"
    using sb alloc_room [OF assms] s by (simp add: super_ok_def session_super_def)
qed

lemma session_inode_ok:
  assumes sb: "super_ok (superblock st)" and b: "unat bytes + 511 < 2 ^ 32"
    and room: "\<not> fs_no_room (sector_count_for bytes) st"
  shows "inode_ok (session_super bytes (superblock st)) (session_inode bytes info (superblock st))"
  using sb b alloc_room [OF assms] session_super_ok(2) [OF assms]
  by (simp add: inode_ok_def inode_layout_ok_def extent_ok_def session_inode_def session_super_def
      inode_zero_def super_ok_def)

lemma write_session_inv:
  assumes inv: "fs_inv st" and b: "unat bytes + 511 < 2 ^ 32"
    and w: "fs_write_trace_session B data bytes info st = (r, st')"
  shows "fs_inv st'"
proof -
  have len: "length (inodes st) = FS_MAX_INODES" and sb: "super_ok (superblock st)"
    and tab: "inodes_ok (superblock st) (inodes st)"
    using inv by (simp_all add: fs_inv_def inodes_ok_def)
  from w len show ?thesis
  proof (cases rule: write_session_cases)
    case nothing
    with inv show ?thesis by simp
  next
    case (data_failed k d)
    have "inodes_ok (superblock st) ((inodes st)[k := inode_zero])"
      using find_index_SomeD(1) [OF data_failed(4)] sb
      by (intro inodes_ok_insert [OF tab]) (simp_all add: inode_zero_ok)
    with data_failed(6) show ?thesis by (simp add: fs_inv_def)
  next
    case (written k d ok1 ok2 st1)
    have "inodes_ok (session_super bytes (superblock st))
        ((inodes st)[k := session_inode bytes info (superblock st)])"
      using find_index_SomeD(1) [OF written(3)] session_super_ok [OF sb b written(2)]
        session_inode_ok [OF sb b written(2)] alloc_room [OF sb b written(2)]
      by (intro inodes_ok_insert [OF tab]) (simp_all add: session_super_def session_inode_def)
    with flush_both_fields [OF written(5,6)] show ?thesis by (simp add: fs_inv_def)
  qed
qed

section \<open>A write adds one entry to the map of sessions\<close>

lemma file_bytes_frame:
  assumes "\<And>l. unat (i_start_lba i) \<le> l \<Longrightarrow> l < unat (i_start_lba i) + unat (i_sector_count i) \<Longrightarrow> dk' l = dk l"
  shows "file_bytes dk' i = file_bytes dk i"
proof -
  have "read_sectors (unat (i_start_lba i)) (unat (i_sector_count i)) dk'
    = read_sectors (unat (i_start_lba i)) (unat (i_sector_count i)) dk"
    unfolding read_sectors_def using assms by (intro arg_cong [where f = concat] map_cong) simp_all
  then show ?thesis by (simp add: file_bytes_def)
qed

lemma find_session_fresh:
  assumes "fs_inv st"
  shows "fs_find_session (sb_next_session_id (superblock st)) st = None"
  using assms
  by (fastforce simp: fs_find_session_def find_index_None fs_inv_def inodes_ok_def inode_ok_def list_all_iff)

lemma find_session_SomeD:
  assumes "fs_find_session sid st = Some k"
  shows "k < length (inodes st)" "is_trace (inodes st ! k)" "i_session_id (inodes st ! k) = sid"
    "i_used (inodes st ! k) \<noteq> 0"
  using find_index_SomeD [OF assms [unfolded fs_find_session_def]] by (simp_all add: is_trace_def)

lemma fs_inv_layout:
  assumes "fs_inv st"
  shows "length (sb_reserved (superblock st)) = 480" "list_all inode_layout_ok (inodes st)"
    "length (inodes st) = FS_MAX_INODES"
  using assms by (auto simp: fs_inv_def inodes_ok_def super_ok_def inode_ok_def list_all_iff)

lemma fs_inv_extent:
  assumes "fs_inv st" and "k < length (inodes st)" and "i_used (inodes st ! k) \<noteq> 0"
  shows "extent_ok (superblock st) (inodes st ! k)"
  using assms by (auto simp: fs_inv_def inodes_ok_def list_all_length inode_ok_def)

text \<open>Data sectors below the allocation mark are what every file of the map depends on.\<close>

lemma sessions_frame:
  assumes inv: "fs_inv st"
    and same: "\<And>l. unat FS_DATA_START_LBA \<le> l \<Longrightarrow> l < unat (sb_next_free_lba (superblock st)) \<Longrightarrow>
      sec d l = sec (disk st) l"
  shows "fs_sessions sec (st\<lparr>disk := d\<rparr>) = fs_sessions sec st"
proof
  fix sid
  have "fs_find_session sid (st\<lparr>disk := d\<rparr>) = fs_find_session sid st"
    by (simp add: fs_find_session_def)
  moreover have "file_bytes (sec d) (inodes st ! k) = file_bytes (sec (disk st)) (inodes st ! k)"
    if "fs_find_session sid st = Some k" for k
    using fs_inv_extent [OF inv, of k] find_session_SomeD [OF that]
    by (intro file_bytes_frame same) (auto simp: extent_ok_def)
  ultimately show "fs_sessions sec (st\<lparr>disk := d\<rparr>) sid = fs_sessions sec st sid"
    by (cases "fs_find_session sid st") (simp_all add: fs_sessions_def)
qed

text \<open>Replacing a free slot by the inode of a new session.\<close>

lemma find_session_new:
  assumes inv: "fs_inv st" and free: "find_index (\<lambda>i. i_used i = 0) (inodes st) = Some k"
    and x: "is_trace x" "i_session_id x = sb_next_session_id (superblock st)"
    and st': "inodes st' = (inodes st)[k := x]"
  shows "fs_find_session (sb_next_session_id (superblock st)) st' = Some k"
proof -
  let ?new = "sb_next_session_id (superblock st)"
  have "\<forall>i \<in> set (inodes st). \<not> (is_trace i \<and> i_session_id i = ?new)"
    using find_session_fresh [OF inv] by (simp only: fs_find_session_def find_index_None simp_thms)
  then have "\<not> (is_trace (inodes st ! j) \<and> i_session_id (inodes st ! j) = ?new)" if "j < length (inodes st)" for j
    using nth_mem [OF that] by blast
  then show ?thesis
    unfolding fs_find_session_def st' using find_index_SomeD(1,2) [OF free] x
    by (intro find_index_unique) (auto simp: nth_list_update split: if_splits)
qed

lemma sessions_insert:
  assumes inv: "fs_inv st" and free: "find_index (\<lambda>i. i_used i = 0) (inodes st) = Some k"
    and x: "is_trace x" "i_session_id x = sb_next_session_id (superblock st)"
    and st': "inodes st' = (inodes st)[k := x]" "disk st' = disk st"
  shows "fs_sessions sec st' = (fs_sessions sec st)
    (sb_next_session_id (superblock st) \<mapsto> file_bytes (sec (disk st)) x)"
proof
  fix sid
  let ?new = "sb_next_session_id (superblock st)"
  note k = find_index_SomeD(1,2) [OF free]
  show "fs_sessions sec st' sid = ((fs_sessions sec st)(?new \<mapsto> file_bytes (sec (disk st)) x)) sid"
  proof (cases "sid = ?new")
    case True
    have "fs_find_session ?new st' = Some k" by (rule find_session_new [OF inv free x st'(1)])
    with True k show ?thesis by (simp add: fs_sessions_def st')
  next
    case False
    have "fs_find_session sid st' = fs_find_session sid st"
      unfolding fs_find_session_def st' using k x False
      by (intro find_index_update_other) (auto simp: is_trace_def)
    moreover have "fs_find_session sid st = Some j \<Longrightarrow> j \<noteq> k" for j
      using find_session_SomeD [of sid st j] k by (auto simp: is_trace_def)
    ultimately show ?thesis using False
      by (cases "fs_find_session sid st") (simp_all add: fs_sessions_def st')
  qed
qed

lemma sessions_release:
  assumes free: "find_index (\<lambda>i. i_used i = 0) (inodes st) = Some k"
    and x: "i_used x = 0" and st': "inodes st' = (inodes st)[k := x]" "disk st' = disk st"
  shows "fs_sessions sec st' = fs_sessions sec st"
proof
  fix sid
  note k = find_index_SomeD(1,2) [OF free]
  have "fs_find_session sid st' = fs_find_session sid st"
    unfolding fs_find_session_def st' using k x by (intro find_index_update_other) (auto simp: is_trace_def)
  moreover have "fs_find_session sid st = Some j \<Longrightarrow> j \<noteq> k" for j
    using find_session_SomeD [of sid st j] k by auto
  ultimately show "fs_sessions sec st' sid = fs_sessions sec st sid"
    by (cases "fs_find_session sid st") (simp_all add: fs_sessions_def st')
qed

context block_device
begin

lemma flush_inodes_frame:
  assumes "fs_flush_inodes B st = (ok, st1)" and "unat FS_DATA_START_LBA \<le> l \<or> l = unat FS_START_LBA"
  shows "sec (disk st1) l = sec (disk st) l"
proof -
  obtain d where w: "bd_write B (FS_START_LBA + 1) 8 (put_inodes (inodes st)) (disk st) = (ok, d)" "disk st1 = d"
    using assms(1) by (auto simp: fs_flush_inodes_def split: prod.splits)
  show ?thesis using write_frame [OF w(1), of l] assms(2) w(2) by (auto simp: fs_consts)
qed

lemma flush_superblock_frame:
  assumes "fs_flush_superblock B st = (ok, st1)" and "unat FS_DATA_START_LBA \<le> l"
  shows "sec (disk st1) l = sec (disk st) l"
proof -
  obtain d where w: "bd_write B FS_START_LBA 1 (put_superblock (superblock st)) (disk st) = (ok, d)" "disk st1 = d"
    using assms(1) by (auto simp: fs_flush_superblock_def split: prod.splits)
  show ?thesis using write_frame [OF w(1), of l] assms(2) w(2) by (simp add: fs_consts)
qed

lemma flush_both_frame:
  assumes "fs_flush_inodes B st = (ok1, st1)"
    and "(if ok1 then fs_flush_superblock B st1 else (False, st1)) = (ok2, st2)"
    and "unat FS_DATA_START_LBA \<le> l"
  shows "sec (disk st2) l = sec (disk st) l"
  using flush_inodes_frame [OF assms(1) disjI1 [OF assms(3)]] assms(2) flush_superblock_frame [of st1 ok2 st2 l] assms(3)
  by (auto split: if_splits)

text \<open>The session description that is found for a new session.\<close>

lemma write_session_info:
  assumes inv: "fs_inv st" and w: "fs_write_trace_session B data bytes info st = (Some sid, st')"
  shows "fs_get_trace_session_info sid st' = Some (inode_session_info (session_inode bytes info (superblock st)))"
  using w fs_inv_layout(3) [OF inv]
proof (cases rule: write_session_cases)
  case (written k d ok1 ok2 st1)
  note f = flush_both_fields [OF written(5,6)]
  have "sid = sb_next_session_id (superblock st)" using written(7) by (simp split: if_splits)
  moreover have "fs_find_session (sb_next_session_id (superblock st)) st' = Some k"
    using f by (intro find_session_new [OF inv written(3)]) (simp_all add: session_inode_def is_trace_def)
  ultimately show ?thesis
    using f written(1) find_index_SomeD(1) [OF written(3)] by (simp add: fs_get_trace_session_info_def)
qed simp_all

text \<open>On success the map has one new entry, on failure nothing is lost.\<close>

lemma write_session_refines:
  assumes inv: "fs_inv st" and b: "unat bytes + 511 < 2 ^ 32" and len: "unat bytes \<le> length data"
    and w: "fs_write_trace_session B data bytes info st = (r, st')"
  shows "fs_sessions sec st' = fs_sessions sec st \<and> r = None \<or>
    fs_sessions sec st' = (fs_sessions sec st)(sb_next_session_id (superblock st) \<mapsto> take (unat bytes) data) \<and>
    (r = None \<or> r = Some (sb_next_session_id (superblock st)))"
proof -
  let ?sb = "superblock st"
  have il: "length (inodes st) = FS_MAX_INODES" and sb: "super_ok ?sb"
    using inv by (simp_all add: fs_inv_def inodes_ok_def)
  from w il show ?thesis
  proof (cases rule: write_session_cases)
    case nothing
    then show ?thesis by simp
  next
    case (data_failed k d)
    note room = alloc_room [OF sb b data_failed(3)]
    have "sec d l = sec (disk st) l" if "l < unat (sb_next_free_lba ?sb)" for l
      using write_loop_frame [OF data_failed(5)] room that by simp
    then have "fs_sessions sec (st\<lparr>disk := d\<rparr>) = fs_sessions sec st"
      by (intro sessions_frame inv) simp
    moreover have "fs_sessions sec st' = fs_sessions sec (st\<lparr>disk := d\<rparr>)"
      using data_failed(4,6) by (intro sessions_release [where k = k and x = inode_zero]) (simp_all add: inode_zero_ok)
    ultimately show ?thesis using data_failed(1) by simp
  next
    case (written k d ok1 ok2 st1)
    note room = alloc_room [OF sb b written(2)]
    let ?x = "session_inode bytes info ?sb"
    have fl: "sec (disk st') l = sec d l" if "unat FS_DATA_START_LBA \<le> l" for l
      using flush_both_frame [OF written(5,6) that] by simp
    have "sec (disk st') l = sec (disk st) l"
      if "unat FS_DATA_START_LBA \<le> l" "l < unat (sb_next_free_lba ?sb)" for l
      using write_loop_frame [OF written(4)] room that fl by simp
    then have same: "fs_sessions sec (st\<lparr>disk := disk st'\<rparr>) = fs_sessions sec st"
      by (intro sessions_frame inv) simp
    have ext: "extent_ok (session_super bytes ?sb) ?x"
      using session_inode_ok [OF sb b written(2), of info]
      by (simp add: inode_ok_def) (simp add: session_inode_def)
    have "file_bytes (sec (disk st')) ?x = file_bytes (sec d) ?x"
      using ext by (intro file_bytes_frame fl) (simp add: extent_ok_def)
    also have "\<dots> = take (unat bytes) data"
      using write_loop_file [OF written(4) b len] room by (simp add: file_bytes_def session_inode_def)
    finally have new: "file_bytes (sec (disk st')) ?x = take (unat bytes) data" .
    have "fs_sessions sec st' = (fs_sessions sec (st\<lparr>disk := disk st'\<rparr>))
      (sb_next_session_id ?sb \<mapsto> take (unat bytes) data)"
      using sessions_insert [of "st\<lparr>disk := disk st'\<rparr>" k ?x st' sec] inv written(3) new
        flush_both_fields [OF written(5,6)]
      by (simp add: fs_inv_def) (simp add: session_inode_def is_trace_def)
    then show ?thesis unfolding same using written(7) by simp
  qed
qed

end

section \<open>A read returns an entry of the map\<close>

lemma file_size_le_extent:
  assumes "unat n + 511 < 2 ^ 32"
  shows "unat n \<le> 512 * unat (sector_count_for n)"
  unfolding unat_sector_count_for [OF assms] by (simp add: max_def) linarith

context block_device
begin

lemma length_file_bytes:
  assumes "extent_ok sb i"
  shows "length (file_bytes (sec d) i) = unat (i_size_bytes i)"
  using assms file_size_le_extent [of "i_size_bytes i"]
  by (simp add: file_bytes_def length_read_sectors extent_ok_def)

lemma read_inode_file:
  assumes inv: "fs_inv st" and k: "k < length (inodes st)" "i_used (inodes st ! k) \<noteq> 0"
    and buf: "unat (i_size_bytes (inodes st ! k)) \<le> length buf"
    and r: "fs_read_inode B k buf st = (r, st')"
  defines "f \<equiv> file_bytes (sec (disk st)) (inodes st ! k)"
  shows "\<exists>d. st' = st\<lparr>disk := d\<rparr> \<and> sec d = sec (disk st) \<and>
    ((\<exists>b. r = Read_Fail b) \<or> r = Read_Ok (i_size_bytes (inodes st ! k)) (f @ drop (length f) buf))"
proof -
  let ?i = "inodes st ! k"
  let ?R = "read_sectors (unat (i_start_lba ?i)) (unat (i_sector_count ?i)) (sec (disk st))"
  have ext: "extent_ok (superblock st) ?i" and sb: "unat (sb_next_free_lba (superblock st)) \<le> 6144"
    using fs_inv_extent [OF inv k] inv by (simp_all add: fs_inv_def inodes_ok_def super_ok_def)
  obtain d where l: "fs_read_loop B ?i 0 (unat (i_sector_count ?i)) buf (disk st) = (r, d)" "st' = st\<lparr>disk := d\<rparr>"
    using r by (auto simp: fs_read_inode_def Let_def split: prod.splits)
  have nw: "unat (i_start_lba ?i) + unat (i_sector_count ?i) < 2 ^ 32"
    using ext sb by (auto simp: extent_ok_def)
  have "sec d = sec (disk st) \<and> ((\<exists>b. r = Read_Fail b) \<or>
    r = Read_Ok (i_size_bytes ?i) (take (unat (i_size_bytes ?i)) ?R @ drop (unat (i_size_bytes ?i)) buf))"
    using ext nw buf l(1) by (intro read_loop_file [where i = 0 and n = "unat (i_sector_count ?i)"])
      (simp_all add: extent_ok_def)
  moreover have "take (unat (i_size_bytes ?i)) ?R = f" by (simp add: f_def file_bytes_def)
  moreover have "length f = unat (i_size_bytes ?i)" using length_file_bytes [OF ext] by (simp add: f_def)
  ultimately show ?thesis using l(2) by auto
qed

end

context reliable_block_device
begin

lemma read_loop_no_fail:
  assumes "good d" and "unat (i_start_lba ino) + i + n \<le> disk_size" and "disk_size < 2 ^ 32"
    and "fs_read_loop B ino i n buf d = (r, d')"
  shows "r \<noteq> Read_Fail b" and "r \<noteq> Read_Overrun \<Longrightarrow> good d'"
proof -
  have "r \<noteq> Read_Fail b \<and> (r \<noteq> Read_Overrun \<longrightarrow> good d')" using assms
  proof (induction n arbitrary: i buf d)
    case 0
    then show ?case by auto
  next
    case (Suc n)
    have "unat (i_start_lba ino + word_of_nat i) = unat (i_start_lba ino) + i"
      using Suc.prems by (intro lba_no_wrap) simp
    then obtain bs d1 where rd: "bd_read B (i_start_lba ino + word_of_nat i) 1 d = (True, bs, d1)" "good d1"
      using read_succeeds [of d 1 "i_start_lba ino + word_of_nat i"] Suc.prems by auto
    show ?case
      using Suc.prems rd Suc.IH [of d1 "Suc i"] by (auto split: option.splits)
  qed
  then show "r \<noteq> Read_Fail b" and "r \<noteq> Read_Overrun \<Longrightarrow> good d'" by blast+
qed

lemma read_session_refines:
  assumes inv: "fs_inv st" and on: "fs_online st" and gd: "good (disk st)" and dsz: "6144 \<le> disk_size" "disk_size < 2 ^ 32"
    and f: "fs_sessions sec st sid = Some f" and buf: "length f \<le> length buf"
  shows "\<exists>d. fs_read_trace_session B sid buf st
      = (Read_Ok (word_of_nat (length f)) (f @ drop (length f) buf), st\<lparr>disk := d\<rparr>) \<and>
    sec d = sec (disk st) \<and> good d"
proof -
  from f obtain k where k: "fs_find_session sid st = Some k"
    and fk: "f = file_bytes (sec (disk st)) (inodes st ! k)"
    by (auto simp: fs_sessions_def)
  let ?i = "inodes st ! k"
  note ks = find_session_SomeD [OF k]
  have ext: "extent_ok (superblock st) ?i" and sb: "unat (sb_next_free_lba (superblock st)) \<le> 6144"
    using fs_inv_extent [OF inv ks(1,4)] inv by (simp_all add: fs_inv_def inodes_ok_def super_ok_def)
  have lf: "length f = unat (i_size_bytes ?i)" using length_file_bytes [OF ext] fk by simp
  obtain r st' where rd: "fs_read_inode B k buf st = (r, st')" by fastforce
  obtain d where d: "st' = st\<lparr>disk := d\<rparr>" "sec d = sec (disk st)"
    "(\<exists>b. r = Read_Fail b) \<or> r = Read_Ok (i_size_bytes ?i) (f @ drop (length f) buf)"
    using read_inode_file [OF inv ks(1,4) _ rd] buf lf fk by auto
  have "fs_read_loop B ?i 0 (unat (i_sector_count ?i)) buf (disk st) = (r, disk st')"
    using rd by (auto simp: fs_read_inode_def Let_def split: prod.splits)
  moreover have "unat (i_start_lba ?i) + 0 + unat (i_sector_count ?i) \<le> disk_size"
    using ext sb dsz(1) by (auto simp: extent_ok_def)
  ultimately have "(\<forall>b. r \<noteq> Read_Fail b) \<and> (r \<noteq> Read_Overrun \<longrightarrow> good d)"
    using read_loop_no_fail [OF gd _ dsz(2), of ?i 0 "unat (i_sector_count ?i)" buf r d] d(1) by simp
  with d have "r = Read_Ok (i_size_bytes ?i) (f @ drop (length f) buf)" "good d" by auto
  moreover have "fs_read_trace_session B sid buf st = (r, st')"
    using k on rd by (simp add: fs_read_trace_session_def)
  moreover have "i_size_bytes ?i = word_of_nat (length f)" by (simp add: lf)
  ultimately show ?thesis using d(1,2) by auto
qed

end

section \<open>Metadata round trip\<close>

lemma char_of_byte_of_char [simp]: "char_of_byte (byte_of_char c) = c"
proof -
  have "(of_char c :: nat) < 256" using of_char_mod_256 [of c, where 'a = nat] mod_less_divisor [of 256 "of_char c"]
    by simp
  then show ?thesis by (simp add: char_of_byte_def byte_of_char_def unat_word_of_nat_less)
qed

lemma length_put_inode: "inode_layout_ok i \<Longrightarrow> length (put_inode i) = 128"
  by (simp add: put_inode_def inode_layout_ok_def)

lemma get_put_inode: "inode_layout_ok i \<Longrightarrow> get_inode (put_inode i @ m) = i"
  by (simp add: get_inode_def put_inode_def inode_layout_ok_def layout_simps comp_def)

lemma length_put_inodes: "list_all inode_layout_ok is \<Longrightarrow> length (put_inodes is) = 128 * length is"
  by (induction "is") (simp_all add: put_inodes_def length_put_inode)

lemma get_put_inodes: "list_all inode_layout_ok is \<Longrightarrow> get_inodes (length is) (put_inodes is @ m) = is"
  by (induction "is") (simp_all add: put_inodes_def get_put_inode length_put_inode)

lemma length_put_superblock: "length (sb_reserved s) = 480 \<Longrightarrow> length (put_superblock s) = 512"
  by (simp add: put_superblock_def)

lemma get_put_superblock: "length (sb_reserved s) = 480 \<Longrightarrow> get_superblock (put_superblock s @ m) = s"
  by (simp add: get_superblock_def put_superblock_def layout_simps)

text \<open>The disk holds the metadata of the state in memory.\<close>

definition meta_on_disk :: "(nat \<Rightarrow> u8 list) \<Rightarrow> fs_superblock \<Rightarrow> fs_inode list \<Rightarrow> bool" where
  "meta_on_disk dk sb is \<longleftrightarrow> dk (unat FS_START_LBA) = put_superblock sb \<and>
     read_sectors (unat FS_START_LBA + 1) 8 dk = put_inodes is"

definition fs_synced :: "('d \<Rightarrow> nat \<Rightarrow> u8 list) \<Rightarrow> 'd fs_state \<Rightarrow> bool" where
  "fs_synced sec st \<longleftrightarrow> meta_on_disk (sec (disk st)) (superblock st) (inodes st)"

context block_device
begin

lemma flush_inodes_meta:
  assumes "fs_flush_inodes B st = (True, st1)" and "fs_inv st"
  shows "read_sectors (unat FS_START_LBA + 1) 8 (sec (disk st1)) = put_inodes (inodes st)"
proof -
  have l: "length (put_inodes (inodes st)) = SECTOR_SIZE * 8"
    using length_put_inodes [OF fs_inv_layout(2) [OF assms(2)]] fs_inv_layout(3) [OF assms(2)]
    by (simp add: SECTOR_SIZE_def FS_MAX_INODES_def)
  obtain d where w: "bd_write B (FS_START_LBA + 1) 8 (put_inodes (inodes st)) (disk st) = (True, d)" "disk st1 = d"
    using assms(1) by (auto simp: fs_flush_inodes_def split: prod.splits)
  then have "sec d = write_sectors (unat FS_START_LBA + 1) 8 (put_inodes (inodes st)) (sec (disk st))"
    using write_ok [OF w(1)] l by (simp add: fs_consts)
  with w(2) read_write_sectors [OF l] show ?thesis by simp
qed

lemma flush_superblock_meta:
  assumes "fs_flush_superblock B st = (True, st1)" and "fs_inv st"
  shows "sec (disk st1) = (sec (disk st))(unat FS_START_LBA := put_superblock (superblock st))"
proof -
  obtain d where "bd_write B FS_START_LBA 1 (put_superblock (superblock st)) (disk st) = (True, d)" "disk st1 = d"
    using assms(1) by (auto simp: fs_flush_superblock_def split: prod.splits)
  then show ?thesis
    using write_one length_put_superblock [OF fs_inv_layout(1) [OF assms(2)]] by (simp add: SECTOR_SIZE_def)
qed

lemma flush_both_synced:
  assumes "fs_inv st" and "fs_flush_inodes B st = (True, st1)" and "fs_flush_superblock B st1 = (True, st2)"
  shows "fs_synced sec st2"
proof -
  note f1 = flush_inodes_fields [OF assms(2)] and f2 = flush_superblock_fields [OF assms(3)]
  have inv1: "fs_inv st1" using assms(1) f1 by (simp add: fs_inv_def)
  have "read_sectors (unat FS_START_LBA + 1) 8 ((sec (disk st1))(unat FS_START_LBA := x))
    = read_sectors (unat FS_START_LBA + 1) 8 (sec (disk st1))" for x
    unfolding read_sectors_def by (intro arg_cong [where f = concat] map_cong) simp_all
  then show ?thesis
    using flush_inodes_meta [OF assms(2,1)] flush_superblock_meta [OF assms(3) inv1] f1 f2
    by (simp add: fs_synced_def meta_on_disk_def)
qed

lemma write_session_synced:
  assumes inv: "fs_inv st" and b: "unat bytes + 511 < 2 ^ 32"
    and w: "fs_write_trace_session B data bytes info st = (Some sid, st')"
  shows "fs_synced sec st'"
proof -
  have inv': "fs_inv st'" by (rule write_session_inv [OF inv b w])
  from w fs_inv_layout(3) [OF inv] show ?thesis
  proof (cases rule: write_session_cases)
    case (written k d ok1 ok2 st1)
    from written(6,7) have ok: "ok1" "ok2" by (auto split: if_splits)
    let ?st = "st\<lparr>disk := d, inodes := (inodes st)[k := session_inode bytes info (superblock st)],
         superblock := session_super bytes (superblock st)\<rparr>"
    have "fs_inv ?st" using inv' flush_both_fields [OF written(5,6)] by (simp add: fs_inv_def)
    then show ?thesis using flush_both_synced [of ?st st1 st'] written(5,6) ok by simp
  qed simp_all
qed

text \<open>Loading the metadata of a synced disk gives back the superblock and the inode table.\<close>

lemma load_synced:
  assumes l: "fs_load B st = (True, st')" and m: "meta_on_disk (sec (disk st)) sb is" and ok: "inodes_ok sb is"
  shows "superblock st' = sb" "inodes st' = is" "sec (disk st') = sec (disk st)" "fs_online st' = fs_online st"
proof -
  from l obtain bs1 d1 bs2 d2 where
    r1: "bd_read B FS_START_LBA 1 (disk st) = (True, bs1, d1)" and
    r2: "bd_read B (FS_START_LBA + 1) 8 d1 = (True, bs2, d2)" and
    st': "st' = st\<lparr>disk := d2, superblock := get_superblock (overlay bs1 (put_superblock (superblock st))),
      inodes := get_inodes FS_MAX_INODES (overlay bs2 (put_inodes (inodes st)))\<rparr>"
    by (auto simp: fs_load_def Let_def split: prod.splits if_splits)
  have bs1: "bs1 = put_superblock sb" using read_one [OF r1] m by (simp add: meta_on_disk_def)
  have "unat (FS_START_LBA + 1) = unat FS_START_LBA + 1" by (simp add: fs_consts)
  then have bs2: "bs2 = put_inodes is"
    using read_ok [OF r2] read_frame [OF r1] m by (simp add: meta_on_disk_def)
  have lay: "length (sb_reserved sb) = 480" "list_all inode_layout_ok is" "length is = FS_MAX_INODES"
    using ok by (auto simp: inodes_ok_def super_ok_def inode_ok_def list_all_iff)
  show "superblock st' = sb" using get_put_superblock [OF lay(1)] by (simp add: st' bs1 overlay_def)
  show "inodes st' = is" using get_put_inodes [OF lay(2)] by (simp add: st' bs2 overlay_def lay(3))
  show "sec (disk st') = sec (disk st)" using read_frame [OF r1] read_frame [OF r2] by (simp add: st')
  show "fs_online st' = fs_online st" by (simp add: st')
qed

end

section \<open>Seeding executables and booting\<close>

lemma length_copy_name_loop: "length (fst (copy_name_loop dst cap src n)) = length dst"
  by (induction dst cap src n rule: copy_name_loop.induct) (subst copy_name_loop.simps, simp)

lemma length_copy_name [simp]: "length (copy_name dst cap src) = length dst"
  by (simp add: copy_name_def length_copy_name_loop)

definition exec_inode :: "char list \<Rightarrow> u32 \<Rightarrow> fs_superblock \<Rightarrow> fs_inode" where
  "exec_inode path bytes sb = inode_zero\<lparr>i_used := 1, i_type := INODE_TYPE_EXEC,
     i_name := copy_name (i_name inode_zero) 24 path, i_size_bytes := bytes,
     i_start_lba := sb_next_free_lba sb, i_sector_count := sector_count_for bytes\<rparr>"

definition exec_super :: "u32 \<Rightarrow> fs_superblock \<Rightarrow> fs_superblock" where
  "exec_super bytes sb = sb\<lparr>sb_next_free_lba := sb_next_free_lba sb + sector_count_for bytes\<rparr>"

lemma seed_exec_cases:
  assumes w: "fs_seed_exec_file B path data st = (r, st')"
  obtains (nothing) "st' = st"
  | (failed) k d x where "find_index (\<lambda>i. i_used i = 0) (inodes st) = Some k"
      "i_used x = 0" "inode_layout_ok x" "st' = st\<lparr>disk := d, inodes := (inodes st)[k := x]\<rparr>"
      "d = disk st \<or> \<not> fs_no_room (sector_count_for (word_of_nat (length data))) st \<and>
        fs_write_loop B data (word_of_nat (length data)) (sb_next_free_lba (superblock st)) 0
          (unat (sector_count_for (word_of_nat (length data)))) (disk st) = (False, d)"
  | (seeded) k d where "find_index (\<lambda>i. i_used i = 0) (inodes st) = Some k"
      "\<not> fs_no_room (sector_count_for (word_of_nat (length data))) st"
      "fs_write_loop B data (word_of_nat (length data)) (sb_next_free_lba (superblock st)) 0
          (unat (sector_count_for (word_of_nat (length data)))) (disk st) = (True, d)"
      "st' = st\<lparr>disk := d, inodes := (inodes st)[k := exec_inode path (word_of_nat (length data)) (superblock st)],
         superblock := exec_super (word_of_nat (length data)) (superblock st)\<rparr>"
proof -
  let ?b = "word_of_nat (length data) :: u32"
  let ?n = "sector_count_for ?b"
  obtain ok d where loop: "fs_write_loop B data ?b (sb_next_free_lba (superblock st)) 0 (unat ?n) (disk st) = (ok, d)"
    by fastforce
  let ?x = "inode_zero\<lparr>i_type := INODE_TYPE_EXEC, i_name := copy_name (i_name inode_zero) 24 path\<rparr>"
  have x: "i_used ?x = 0" "inode_layout_ok ?x"
    by (simp_all add: inode_zero_def inode_layout_ok_def)
  show ?thesis
  proof (cases "fs_find_exec path st \<noteq> None \<or> find_index (\<lambda>i. i_used i = 0) (inodes st) = None")
    case True
    then have "st' = st" using w
      by (auto simp: fs_seed_exec_file_def Let_def fs_alloc_inode_def split: if_splits)
    then show ?thesis by (rule nothing)
  next
    case False
    then obtain k where k: "find_index (\<lambda>i. i_used i = 0) (inodes st) = Some k"
      and nf: "fs_find_exec path st = None" by auto
    have kl: "k < length (inodes st)" by (rule find_index_SomeD [OF k])
    have fr: "fs_no_room ?n (upd_inode j f s) = fs_no_room ?n s" for j f and s :: "'b fs_state"
      by (simp add: fs_no_room_def upd_inode_def)
    have fr2: "fs_no_room ?n (st\<lparr>inodes := y\<rparr>) = fs_no_room ?n st" for y
      by (simp add: fs_no_room_def)
    consider "fs_no_room ?n st" | "\<not> fs_no_room ?n st" "\<not> ok" | "\<not> fs_no_room ?n st" "ok" by blast
    then show ?thesis
    proof cases
      case 1
      have "st' = st\<lparr>disk := disk st, inodes := (inodes st)[k := ?x]\<rparr>"
        using w k nf kl 1
        by (simp add: fs_seed_exec_file_def Let_def fs_alloc_inode_def fs_write_raw_file_def fr fr2)
          (auto simp: upd_inode_def inode_zero_def)
      then show ?thesis using k x by (intro failed) auto
    next
      case 2
      have "st' = st\<lparr>disk := d, inodes := (inodes st)[k := ?x]\<rparr>"
        using w k nf kl 2 loop
        by (simp add: fs_seed_exec_file_def Let_def fs_alloc_inode_def fs_write_raw_file_def fr fr2)
          (auto simp: upd_inode_def inode_zero_def)
      then show ?thesis using k x 2 loop by (intro failed) auto
    next
      case 3
      have "st' = st\<lparr>disk := d, inodes := (inodes st)[k := exec_inode path ?b (superblock st)],
         superblock := exec_super ?b (superblock st)\<rparr>"
        using w k nf kl 3 loop
        by (simp add: fs_seed_exec_file_def Let_def fs_alloc_inode_def fs_write_raw_file_def fr fr2)
          (auto simp: upd_inode_def inode_zero_def exec_inode_def exec_super_def)
      then show ?thesis using k 3 loop by (intro seeded) auto
    qed
  qed
qed

lemma exec_super_ok:
  assumes sb: "super_ok (superblock st)" and b: "unat bytes + 511 < 2 ^ 32"
    and room: "\<not> fs_no_room (sector_count_for bytes) st"
  shows "super_ok (exec_super bytes (superblock st))"
    "inode_ok (exec_super bytes (superblock st)) (exec_inode path bytes (superblock st))"
proof -
  note r = alloc_room [OF assms]
  show "super_ok (exec_super bytes (superblock st))"
    using sb r by (simp add: super_ok_def exec_super_def)
  show "inode_ok (exec_super bytes (superblock st)) (exec_inode path bytes (superblock st))"
    using sb b r by (simp add: inode_ok_def inode_layout_ok_def extent_ok_def exec_inode_def exec_super_def
        inode_zero_def super_ok_def is_trace_def INODE_TYPE_TRACE_def INODE_TYPE_EXEC_def)
qed

definition fs_keeps :: "('d \<Rightarrow> nat \<Rightarrow> u8 list) \<Rightarrow> 'd fs_state \<Rightarrow> 'd fs_state \<Rightarrow> bool" where
  "fs_keeps sec st st' \<longleftrightarrow> fs_inv st' \<and> fs_online st' = fs_online st \<and>
     fs_sessions sec st' = fs_sessions sec st"

lemma fs_keeps_refl: "fs_inv st \<Longrightarrow> fs_keeps sec st st"
  by (simp add: fs_keeps_def)

lemma fs_keeps_trans: "fs_keeps sec st st' \<Longrightarrow> fs_keeps sec st' st'' \<Longrightarrow> fs_keeps sec st st''"
  by (simp add: fs_keeps_def)

lemma fs_keeps_disk:
  assumes "fs_inv st" and "st' = st\<lparr>disk := d\<rparr>"
    and "\<And>l. unat FS_DATA_START_LBA \<le> l \<Longrightarrow> l < unat (sb_next_free_lba (superblock st)) \<Longrightarrow>
      sec d l = sec (disk st) l"
  shows "fs_keeps sec st st'"
  using sessions_frame [where sec = sec and d = d, OF assms(1)] assms(3) assms(1,2)
  by (simp add: fs_keeps_def fs_inv_def)

text \<open>An inode that is not a trace session does not show in the map.\<close>

lemma sessions_insert_exec:
  assumes free: "find_index (\<lambda>i. i_used i = 0) (inodes st) = Some k"
    and x: "\<not> is_trace x" and st': "inodes st' = (inodes st)[k := x]" "disk st' = disk st"
  shows "fs_sessions sec st' = fs_sessions sec st"
proof
  fix sid
  note k = find_index_SomeD(1,2) [OF free]
  have "fs_find_session sid st' = fs_find_session sid st"
    unfolding fs_find_session_def st' using k x by (intro find_index_update_other) (auto simp: is_trace_def)
  moreover have "fs_find_session sid st = Some j \<Longrightarrow> j \<noteq> k" for j
    using find_session_SomeD [of sid st j] k by auto
  ultimately show "fs_sessions sec st' sid = fs_sessions sec st sid"
    by (cases "fs_find_session sid st") (simp_all add: fs_sessions_def st')
qed

lemma length_images:
  "length (build_ring3demo_image 256) \<le> 256" "length (build_stub_exec_image 128 e) \<le> 256"
  by (simp_all add: build_ring3demo_image_def build_stub_exec_image_def Let_def ring3demo_code_def
      stub_exec_code_def exec_ehdr_def EHDR_SIZE_def PHDR_SIZE_def layout_simps)

context block_device
begin

lemma seed_exec_keeps:
  assumes inv: "fs_inv st" and b: "length data + 511 < 2 ^ 32"
    and w: "fs_seed_exec_file B path data st = (r, st')"
  shows "fs_keeps sec st st'"
proof -
  let ?b = "word_of_nat (length data) :: u32" and ?sb = "superblock st"
  have b': "unat ?b + 511 < 2 ^ 32" using b by (simp add: unat_word_of_nat_less)
  have sb: "super_ok ?sb" and tab: "inodes_ok ?sb (inodes st)"
    using inv by (simp_all add: fs_inv_def inodes_ok_def)
  from w show ?thesis
  proof (cases rule: seed_exec_cases)
    case nothing
    with inv show ?thesis by (simp add: fs_keeps_refl)
  next
    case (failed k d x)
    have "sec d l = sec (disk st) l" if "l < unat (sb_next_free_lba ?sb)" for l
      using failed(5) that write_loop_frame [where l = l] alloc_room [OF sb b'] by fastforce
    then have "fs_keeps sec st (st\<lparr>disk := d\<rparr>)" using inv by (intro fs_keeps_disk [where d = d]) simp_all
    moreover have "fs_sessions sec st' = fs_sessions sec (st\<lparr>disk := d\<rparr>)"
      using failed(1,2,4) by (intro sessions_release [where k = k and x = x]) simp_all
    moreover have "inodes_ok ?sb ((inodes st)[k := x])"
      using find_index_SomeD(1) [OF failed(1)] sb failed(2,3)
      by (intro inodes_ok_insert [OF tab]) (simp_all add: inode_ok_def is_trace_def)
    ultimately show ?thesis using failed(4) by (simp add: fs_keeps_def fs_inv_def)
  next
    case (seeded k d)
    note room = alloc_room [OF sb b' seeded(2)] and ok = exec_super_ok [OF sb b' seeded(2)]
    let ?x = "exec_inode path ?b ?sb"
    have "sec d l = sec (disk st) l" if "l < unat (sb_next_free_lba ?sb)" for l
      using write_loop_frame [OF seeded(3)] room that by simp
    then have "fs_keeps sec st (st\<lparr>disk := d\<rparr>)" using inv by (intro fs_keeps_disk [where d = d]) simp_all
    moreover have "fs_sessions sec st' = fs_sessions sec (st\<lparr>disk := d\<rparr>)"
      using seeded(1,4)
      by (intro sessions_insert_exec [where k = k and x = ?x])
        (simp_all add: is_trace_def exec_inode_def INODE_TYPE_TRACE_def INODE_TYPE_EXEC_def)
    moreover have "inodes_ok (exec_super ?b ?sb) ((inodes st)[k := ?x])"
      using find_index_SomeD(1) [OF seeded(1)] ok room
      by (intro inodes_ok_insert [OF tab])
        (simp_all add: exec_super_def exec_inode_def is_trace_def INODE_TYPE_TRACE_def INODE_TYPE_EXEC_def)
    ultimately show ?thesis using seeded(4) by (simp add: fs_keeps_def fs_inv_def)
  qed
qed

lemma seed_execs_keeps:
  assumes "fs_inv st"
  shows "fs_keeps sec st (fs_seed_execs B st)"
proof -
  define seed where "seed = (\<lambda>path img s. if img = [] then s else snd (fs_seed_exec_file B path img s))"
  have step: "fs_keeps sec st (seed path img s)" if "fs_keeps sec st s" "length img \<le> 256" for path img s
    using seed_exec_keeps [of s img path] that fs_keeps_trans
    by (cases "fs_seed_exec_file B path img s") (fastforce simp: seed_def fs_keeps_def)
  have "fs_seed_execs B st = seed ''/bin/netstat'' (build_stub_exec_image 128 0x4010c0)
      (seed ''/bin/ps'' (build_stub_exec_image 128 0x401080)
        (seed ''/bin/ping'' (build_stub_exec_image 128 0x401000)
          (seed ''/bin/ring3demo'' (build_ring3demo_image 256) st)))"
    by (simp only: fs_seed_execs_def Let_def seed_def)
  then show ?thesis by (simp only:) (intro step fs_keeps_refl assms length_images)
qed

end

context reliable_block_device
begin

lemma write_loop_succeeds:
  assumes "good d" and "unat start + i + n \<le> disk_size" and "disk_size < 2 ^ 32"
    and "\<And>k. k < i + n \<Longrightarrow> length (sector_buf src bytes k) = SECTOR_SIZE"
  shows "\<exists>d'. fs_write_loop B src bytes start i n d = (True, d') \<and> good d'"
  using assms
proof (induction n arbitrary: i d)
  case 0
  then show ?case by simp
next
  case (Suc n)
  have "unat (start + word_of_nat i) = unat start + i"
    using Suc.prems by (intro lba_no_wrap) simp
  then obtain d1 where w: "bd_write B (start + word_of_nat i) 1 (sector_buf src bytes i) d = (True, d1)" "good d1"
    using write_succeeds [of d 1 "start + word_of_nat i" "sector_buf src bytes i"] Suc.prems(1,2) Suc.prems(4) [of i]
    by auto
  have "\<exists>d'. fs_write_loop B src bytes start (Suc i) n d1 = (True, d') \<and> good d'"
    using Suc.prems w(2) by (intro Suc.IH) simp_all
  with w(1) show ?case by simp
qed

lemma write_file_succeeds:
  assumes sb: "super_ok (superblock st)" and b: "unat bytes + 511 < 2 ^ 32" "unat bytes \<le> length data"
    and room: "\<not> fs_no_room (sector_count_for bytes) st"
    and gd: "good (disk st)" "6144 \<le> disk_size" "disk_size < 2 ^ 32"
  shows "\<exists>d. fs_write_loop B data bytes (sb_next_free_lba (superblock st)) 0
    (unat (sector_count_for bytes)) (disk st) = (True, d) \<and> good d"
proof (rule write_loop_succeeds)
  show "good (disk st)" "disk_size < 2 ^ 32" by (fact gd)+
  show "unat (sb_next_free_lba (superblock st)) + 0 + unat (sector_count_for bytes) \<le> disk_size"
    using alloc_room [OF sb b(1) room] gd(2) by simp
  fix k assume "k < 0 + unat (sector_count_for bytes)"
  then show "length (sector_buf data bytes k) = SECTOR_SIZE"
    using sector_buf_eq(1) [OF b(1) _ b(2)] by (simp add: SECTOR_SIZE_def)
qed

lemma flush_inodes_succeeds:
  assumes "fs_inv st" and gd: "good (disk st)" "6144 \<le> disk_size"
  shows "\<exists>d. fs_flush_inodes B st = (True, st\<lparr>disk := d\<rparr>) \<and> good d"
proof -
  have "length (put_inodes (inodes st)) = SECTOR_SIZE * unat (8 :: u8)"
    using length_put_inodes [OF fs_inv_layout(2) [OF assms(1)]] fs_inv_layout(3) [OF assms(1)]
    by (simp add: SECTOR_SIZE_def FS_MAX_INODES_def)
  then have "\<exists>d. bd_write B (FS_START_LBA + 1) 8 (put_inodes (inodes st)) (disk st) = (True, d) \<and> good d"
    using gd by (intro write_succeeds) (simp_all add: fs_consts)
  then show ?thesis by (auto simp: fs_flush_inodes_def)
qed

lemma flush_superblock_succeeds:
  assumes "fs_inv st" and gd: "good (disk st)" "6144 \<le> disk_size"
  shows "\<exists>d. fs_flush_superblock B st = (True, st\<lparr>disk := d\<rparr>) \<and> good d"
proof -
  have "length (put_superblock (superblock st)) = SECTOR_SIZE * unat (1 :: u8)"
    using length_put_superblock [OF fs_inv_layout(1) [OF assms(1)]] by (simp add: SECTOR_SIZE_def)
  then have "\<exists>d. bd_write B FS_START_LBA 1 (put_superblock (superblock st)) (disk st) = (True, d) \<and> good d"
    using gd by (intro write_succeeds) (simp_all add: fs_consts)
  then show ?thesis by (auto simp: fs_flush_superblock_def)
qed

lemma write_session_succeeds:
  assumes inv: "fs_inv st" and b: "unat bytes + 511 < 2 ^ 32" "unat bytes \<le> length data"
    and room: "\<not> fs_no_room (sector_count_for bytes) st" and on: "fs_online st"
    and slot: "\<exists>i \<in> set (inodes st). i_used i = 0"
    and gd: "good (disk st)" "6144 \<le> disk_size" "disk_size < 2 ^ 32"
  shows "\<exists>st'. fs_write_trace_session B data bytes info st = (Some (sb_next_session_id (superblock st)), st') \<and>
    good (disk st') \<and> fs_online st'"
proof -
  obtain r st' where w: "fs_write_trace_session B data bytes info st = (r, st')" by fastforce
  have sb: "super_ok (superblock st)" using inv by (simp add: fs_inv_def inodes_ok_def)
  obtain d where loop: "fs_write_loop B data bytes (sb_next_free_lba (superblock st)) 0
    (unat (sector_count_for bytes)) (disk st) = (True, d)" "good d"
    using write_file_succeeds [OF sb b room gd] by blast
  obtain k where k: "find_index (\<lambda>i. i_used i = 0) (inodes st) = Some k"
    using slot find_index_None [of "\<lambda>i. i_used i = 0" "inodes st"]
    by (cases "find_index (\<lambda>i. i_used i = 0) (inodes st)") auto
  define S where "S = st\<lparr>disk := d, inodes := (inodes st)[k := session_inode bytes info (superblock st)],
         superblock := session_super bytes (superblock st)\<rparr>"
  have kl: "k < length (inodes st)" by (rule find_index_SomeD [OF k])
  have eq: "fs_write_trace_session B data bytes info st =
    (let (ok1, st1) = fs_flush_inodes B S; (ok2, st2) = (if ok1 then fs_flush_superblock B st1 else (False, st1))
     in (if ok2 then Some (sb_next_session_id (superblock st)) else None, st2))"
    using on room k loop(1) kl
    by (simp add: S_def fs_write_trace_session_def Let_def fs_alloc_inode_def upd_inode_def session_inode_def
        session_super_def split: prod.splits)
  have same: "superblock st' = superblock S" "inodes st' = inodes S" "fs_online st' = fs_online S"
  proof -
    obtain ok1 st1 where 1: "fs_flush_inodes B S = (ok1, st1)" by fastforce
    obtain ok2 st2 where 2: "(if ok1 then fs_flush_superblock B st1 else (False, st1)) = (ok2, st2)" by fastforce
    have "st' = st2" using eq w by (simp only: 1 2 Let_def prod.case prod.inject)
    then show "superblock st' = superblock S" "inodes st' = inodes S" "fs_online st' = fs_online S"
      using flush_both_fields [OF 1 2] by simp_all
  qed
  have "fs_inv st'" by (rule write_session_inv [OF inv b(1) w])
  then have inv_S: "fs_inv S" using same by (simp add: fs_inv_def)
  have good_S: "good (disk S)" and on_S: "fs_online S" using loop(2) on by (simp_all add: S_def)
  obtain d1 where f1: "fs_flush_inodes B S = (True, S\<lparr>disk := d1\<rparr>)" "good d1"
    using flush_inodes_succeeds [OF inv_S good_S gd(2)] by blast
  have "fs_inv (S\<lparr>disk := d1\<rparr>)" "good (disk (S\<lparr>disk := d1\<rparr>))" using inv_S f1(2) by (simp_all add: fs_inv_def)
  then obtain d2 where f2: "fs_flush_superblock B (S\<lparr>disk := d1\<rparr>) = (True, S\<lparr>disk := d1, disk := d2\<rparr>)" "good d2"
    using flush_superblock_succeeds [OF _ _ gd(2)] by blast
  have "fs_write_trace_session B data bytes info st
    = (Some (sb_next_session_id (superblock st)), S\<lparr>disk := d1, disk := d2\<rparr>)"
    by (simp add: eq f1(1) f2(1))
  then show ?thesis using f2(2) on_S by simp
qed

lemma load_succeeds:
  assumes gd: "good (disk st)" "6144 \<le> disk_size"
  shows "\<exists>st'. fs_load B st = (True, st') \<and> good (disk st')"
proof -
  obtain bs1 d1 where r1: "bd_read B FS_START_LBA 1 (disk st) = (True, bs1, d1)" "good d1"
    using read_succeeds [of "disk st" 1 FS_START_LBA] gd by (auto simp: fs_consts)
  obtain bs2 d2 where r2: "bd_read B (FS_START_LBA + 1) 8 d1 = (True, bs2, d2)" "good d2"
    using read_succeeds [of d1 8 "FS_START_LBA + 1"] r1(2) gd(2) by (auto simp: fs_consts)
  show ?thesis using r1 r2 by (simp add: fs_load_def)
qed

lemma seed_exec_good:
  assumes inv: "fs_inv st" and b: "length data + 511 < 2 ^ 32"
    and gd: "good (disk st)" "6144 \<le> disk_size" "disk_size < 2 ^ 32"
    and w: "fs_seed_exec_file B path data st = (r, st')"
  shows "good (disk st')"
proof -
  have b': "unat (word_of_nat (length data) :: u32) + 511 < 2 ^ 32"
      "unat (word_of_nat (length data) :: u32) \<le> length data"
    using b by (simp_all add: unat_word_of_nat_less)
  have sb: "super_ok (superblock st)" using inv by (simp add: fs_inv_def inodes_ok_def)
  from w show ?thesis
  proof (cases rule: seed_exec_cases)
    case nothing
    with gd show ?thesis by simp
  next
    case (failed k d x)
    then show ?thesis using write_file_succeeds [OF sb b' _ gd] gd(1) by auto
  next
    case (seeded k d)
    then show ?thesis using write_file_succeeds [OF sb b' _ gd] by auto
  qed
qed

end

definition formatted_super :: fs_superblock where
  "formatted_super = superblock_zero\<lparr>sb_magic := FS_MAGIC, sb_version := FS_VERSION,
     sb_total_sectors := FS_TOTAL_SECTORS, sb_inode_count := word_of_nat FS_MAX_INODES,
     sb_inode_table_lba := FS_START_LBA + 1, sb_data_start_lba := FS_DATA_START_LBA,
     sb_next_free_lba := FS_DATA_START_LBA, sb_next_session_id := 1\<rparr>"

lemma formatted_ok: "inodes_ok formatted_super (replicate FS_MAX_INODES inode_zero)"
proof -
  have "super_ok formatted_super"
    by (simp add: super_ok_def formatted_super_def superblock_zero_def fs_consts)
  then show ?thesis by (simp add: inodes_ok_def inode_zero_ok list_all_iff)
qed

lemma formatted_sessions:
  "inodes st = replicate FS_MAX_INODES inode_zero \<Longrightarrow> fs_sessions sec st = Map.empty"
  by (rule ext) (simp add: fs_sessions_def fs_find_session_def find_index_None is_trace_def inode_zero_ok)

context reliable_block_device
begin

lemma seed_execs_good:
  assumes "fs_inv st" and gd: "good (disk st)" "6144 \<le> disk_size" "disk_size < 2 ^ 32"
  shows "good (disk (fs_seed_execs B st))"
proof -
  define seed where "seed = (\<lambda>path img s. if img = [] then s else snd (fs_seed_exec_file B path img s))"
  let ?P = "\<lambda>s. fs_inv s \<and> good (disk s)"
  have step: "?P (seed path img s)" if "?P s" "length img \<le> 256" for path img s
    using seed_exec_keeps [of s img path] seed_exec_good [of s img path] that gd(2,3)
    by (cases "fs_seed_exec_file B path img s") (simp add: seed_def fs_keeps_def)
  have "fs_seed_execs B st = seed ''/bin/netstat'' (build_stub_exec_image 128 0x4010c0)
      (seed ''/bin/ps'' (build_stub_exec_image 128 0x401080)
        (seed ''/bin/ping'' (build_stub_exec_image 128 0x401000)
          (seed ''/bin/ring3demo'' (build_ring3demo_image 256) st)))"
    by (simp only: fs_seed_execs_def Let_def seed_def)
  moreover have "?P \<dots>" by (intro step length_images) (simp add: assms)
  ultimately show ?thesis by simp
qed

text \<open>The end of \<open>fs_init\<close>, from a valid state in memory.\<close>

lemma init_tail:
  assumes inv: "fs_inv st" and gd: "good (disk st)" "6144 \<le> disk_size" "disk_size < 2 ^ 32"
  defines "st' \<equiv> snd (fs_flush_superblock B (snd (fs_flush_inodes B (fs_seed_execs B (st\<lparr>fs_online := True\<rparr>)))))"
  shows "fs_inv st' \<and> fs_online st' \<and> fs_synced sec st' \<and> good (disk st') \<and>
    fs_sessions sec st' = fs_sessions sec st"
proof -
  define S where "S = fs_seed_execs B (st\<lparr>fs_online := True\<rparr>)"
  have inv1: "fs_inv (st\<lparr>fs_online := True\<rparr>)" using inv by (simp add: fs_inv_def)
  have "fs_sessions sec (st\<lparr>fs_online := True\<rparr>) = fs_sessions sec st"
    by (rule ext) (simp add: fs_sessions_def fs_find_session_def)
  with seed_execs_keeps [OF inv1] have S: "fs_inv S" "fs_online S" "fs_sessions sec S = fs_sessions sec st"
    by (simp_all add: fs_keeps_def S_def)
  have gS: "good (disk S)" using seed_execs_good [OF inv1 _ gd(2,3)] gd(1) by (simp add: S_def)
  obtain d1 where f1: "fs_flush_inodes B S = (True, S\<lparr>disk := d1\<rparr>)" "good d1"
    using flush_inodes_succeeds [OF S(1) gS gd(2)] by blast
  have "fs_inv (S\<lparr>disk := d1\<rparr>)" "good (disk (S\<lparr>disk := d1\<rparr>))" using S f1(2) by (simp_all add: fs_inv_def)
  then obtain d2 where f2: "fs_flush_superblock B (S\<lparr>disk := d1\<rparr>) = (True, S\<lparr>disk := d1, disk := d2\<rparr>)" "good d2"
    using flush_superblock_succeeds [OF _ _ gd(2)] by blast
  have st': "st' = S\<lparr>disk := d2\<rparr>" using f1(1) f2(1) by (simp add: st'_def S_def)
  have "sec d2 l = sec (disk S) l" if "unat FS_DATA_START_LBA \<le> l" for l
    using flush_inodes_frame [OF f1(1) disjI1 [OF that]] flush_superblock_frame [OF f2(1) that] by simp
  then have "fs_keeps sec S st'" unfolding st' using S(1) by (intro fs_keeps_disk [where d = d2]) simp_all
  moreover have "fs_synced sec st'" using flush_both_synced [OF S(1) f1(1) f2(1)] by (simp add: st')
  ultimately show ?thesis using S f2(2) st' by (simp add: fs_keeps_def)
qed

lemma init_synced:
  assumes inv: "fs_inv st" and syn: "fs_synced sec st" and d: "disk st0 = disk st"
    and rdy: "bd_ready B (bd_init B (disk st))" and dsz: "6144 \<le> disk_size" "disk_size < 2 ^ 32"
  shows "\<exists>st'. fs_init B st0 = (Fs_Ready, st') \<and> fs_inv st' \<and> fs_online st' \<and> fs_synced sec st' \<and>
    good (disk st') \<and> fs_sessions sec st' = fs_sessions sec st"
proof -
  let ?s0 = "st0\<lparr>disk := bd_init B (disk st0), fs_online := False\<rparr>"
  have "good (disk ?s0)" using rdy d by (simp add: init_succeeds)
  then obtain s1 where l: "fs_load B ?s0 = (True, s1)" "good (disk s1)" using load_succeeds dsz(1) by blast
  have "meta_on_disk (sec (disk ?s0)) (superblock st) (inodes st)"
    using syn d by (simp add: fs_synced_def init_frame)
  note s1 = load_synced [OF l(1) this inv [unfolded fs_inv_def]]
  have inv1: "fs_inv s1" using inv s1 by (simp add: fs_inv_def)
  have "fs_sessions sec s1 = fs_sessions sec st"
    using s1 d by (intro ext) (simp add: fs_sessions_def fs_find_session_def init_frame)
  moreover have "sb_magic (superblock s1) = FS_MAGIC" "sb_version (superblock s1) = FS_VERSION"
    using inv1 by (simp_all add: fs_inv_def inodes_ok_def super_ok_def)
  then have "fs_init B st0 = (Fs_Ready, snd (fs_flush_superblock B (snd (fs_flush_inodes B
      (fs_seed_execs B (s1\<lparr>fs_online := True\<rparr>))))))"
    using l(1) rdy d by (simp add: fs_init_def Let_def)
  ultimately show ?thesis using init_tail [OF inv1 l(2) dsz] by simp
qed

text \<open>A disk without a valid superblock is formatted.\<close>

lemma init_blank:
  assumes bad: "sb_magic (get_superblock (sec (disk st0) (unat FS_START_LBA))) \<noteq> FS_MAGIC"
    and rdy: "bd_ready B (bd_init B (disk st0))" and dsz: "6144 \<le> disk_size" "disk_size < 2 ^ 32"
  shows "\<exists>st'. fs_init B st0 = (Fs_Ready, st') \<and> fs_inv st' \<and> fs_online st' \<and> fs_synced sec st' \<and>
    good (disk st') \<and> fs_sessions sec st' = Map.empty"
proof -
  let ?s0 = "st0\<lparr>disk := bd_init B (disk st0), fs_online := False\<rparr>"
  have "good (disk ?s0)" using rdy by (simp add: init_succeeds)
  then obtain s1 where l: "fs_load B ?s0 = (True, s1)" "good (disk s1)" using load_succeeds dsz(1) by blast
  obtain bs d1 where r: "bd_read B FS_START_LBA 1 (disk ?s0) = (True, bs, d1)"
    "superblock s1 = get_superblock (overlay bs (put_superblock (superblock st0)))"
    using l(1) by (auto simp: fs_load_def Let_def split: prod.splits if_splits)
  have magic: "sb_magic (superblock s1) \<noteq> FS_MAGIC"
    using read_one [OF r(1)] r(2) bad sec_length [of "disk st0" "unat FS_START_LBA"]
    by (simp add: init_frame overlay_def get_superblock_def get32_def SECTOR_SIZE_def)
  define F where "F = s1\<lparr>superblock := formatted_super, inodes := replicate FS_MAX_INODES inode_zero\<rparr>"
  have F: "fs_inv F" "good (disk F)" using formatted_ok l(2) by (simp_all add: F_def fs_inv_def)
  obtain d2 where f2: "fs_flush_superblock B F = (True, F\<lparr>disk := d2\<rparr>)" "good d2"
    using flush_superblock_succeeds [OF F dsz(1)] by blast
  have F2: "fs_inv (F\<lparr>disk := d2\<rparr>)" "good (disk (F\<lparr>disk := d2\<rparr>))" using F f2(2) by (simp_all add: fs_inv_def)
  obtain d3 where f3: "fs_flush_inodes B (F\<lparr>disk := d2\<rparr>) = (True, F\<lparr>disk := d2, disk := d3\<rparr>)" "good d3"
    using flush_inodes_succeeds [OF F2 dsz(1)] by blast
  let ?G = "F\<lparr>disk := d3\<rparr>"
  have fmt: "fs_format B s1 = (True, ?G)"
    using f2(1) f3(1) by (simp add: fs_format_def Let_def F_def formatted_super_def)
  have "sec d3 (unat FS_START_LBA) = sec d2 (unat FS_START_LBA)"
    using flush_inodes_frame [OF f3(1), of "unat FS_START_LBA"] by simp
  then have syn: "fs_synced sec ?G"
    using flush_superblock_meta [OF f2(1) F(1)] flush_inodes_meta [OF f3(1) F2(1)]
    by (simp add: fs_synced_def meta_on_disk_def)
  have G: "fs_inv ?G" using F by (simp add: fs_inv_def)
  obtain s2 where l2: "fs_load B ?G = (True, s2)" "good (disk s2)" using load_succeeds [of ?G] f3(2) dsz(1) by auto
  note s2 = load_synced [OF l2(1) syn [unfolded fs_synced_def] G [unfolded fs_inv_def]]
  have inv2: "fs_inv s2" using G s2 by (simp add: fs_inv_def)
  have "fs_sessions sec s2 = Map.empty" using s2(2) by (intro formatted_sessions) (simp add: F_def)
  moreover have "fs_init B st0 = (Fs_Ready, snd (fs_flush_superblock B (snd (fs_flush_inodes B
      (fs_seed_execs B (s2\<lparr>fs_online := True\<rparr>))))))"
    using l(1) rdy magic fmt l2(1) by (simp add: fs_init_def Let_def)
  ultimately show ?thesis using init_tail [OF inv2 l2(2) dsz] by simp
qed

end

context reliable_block_device
begin

lemma read_loop_overrun:
  assumes "good d" and "unat (i_start_lba ino) + unat (i_sector_count ino) \<le> disk_size" and "disk_size < 2 ^ 32"
    and "unat (i_size_bytes ino) + 511 < 2 ^ 32" and "i_sector_count ino = sector_count_for (i_size_bytes ino)"
    and "i + n = unat (i_sector_count ino)" and "0 < n" and "length buf < unat (i_size_bytes ino)"
  shows "fst (fs_read_loop B ino i n buf d) = Read_Overrun"
  using assms
proof (induction n arbitrary: i buf d)
  case 0
  then show ?case by simp
next
  case (Suc n)
  let ?sz = "unat (i_size_bytes ino)"
  have i: "i < unat (sector_count_for (i_size_bytes ino))" using Suc.prems(5,6) by simp
  note c = sector_index_bound [OF Suc.prems(4) i] and rc = unat_read_chunk [OF Suc.prems(4) i]
  have "unat (i_start_lba ino + word_of_nat i) = unat (i_start_lba ino) + i"
    using Suc.prems(2,3,6) by (intro lba_no_wrap) simp
  then obtain bs d1 where rd: "bd_read B (i_start_lba ino + word_of_nat i) 1 d = (True, bs, d1)" "good d1"
    using read_succeeds [of d 1 "i_start_lba ino + word_of_nat i"] Suc.prems(1,2,6) by auto
  have lbs: "length bs = 512" using length_read [OF rd(1)] by (simp add: SECTOR_SIZE_def)
  show ?case
  proof (cases "512 * i + chunk_len ?sz i \<le> length buf")
    case False
    then show ?thesis using rd(1) by (simp add: c(2) rc memcpy_at_def)
  next
    case True
    have ch: "512 * i + chunk_len ?sz i = min (512 * Suc i) ?sz" "chunk_len ?sz i \<le> 512"
      using c(1) by (auto simp: chunk_len_def)
    have "n \<noteq> 0"
      using True ch(1) Suc.prems(5,6,8) file_size_le_extent [OF Suc.prems(4)] by (auto simp: min_def split: if_splits)
    let ?b = "take (512 * i) buf @ take (chunk_len ?sz i) bs @ drop (512 * i + chunk_len ?sz i) buf"
    have "length ?b = length buf" using True lbs ch(2) by simp
    then have "fst (fs_read_loop B ino (Suc i) n ?b d1) = Read_Overrun"
      using Suc.prems(2-8) rd(2) \<open>n \<noteq> 0\<close> by (intro Suc.IH) simp_all
    then show ?thesis using rd(1) True by (simp add: c(2) rc memcpy_at_def)
  qed
qed

lemma traceview_overruns:
  assumes inv: "fs_inv st" and on: "fs_online st" and gd: "good (disk st)"
    and dsz: "6144 \<le> disk_size" "disk_size < 2 ^ 32"
    and f: "fs_sessions sec st sid = Some f" and big: "128 * EVENT_SIZE < length f"
  shows "fst (fs_traceview_read B sid st) = Read_Overrun"
proof -
  from f obtain k where k: "fs_find_session sid st = Some k"
    and fk: "f = file_bytes (sec (disk st)) (inodes st ! k)"
    by (auto simp: fs_sessions_def)
  let ?i = "inodes st ! k"
  note ks = find_session_SomeD [OF k]
  have ext: "extent_ok (superblock st) ?i" and sb: "unat (sb_next_free_lba (superblock st)) \<le> 6144"
    using fs_inv_extent [OF inv ks(1,4)] inv by (simp_all add: fs_inv_def inodes_ok_def super_ok_def)
  have lf: "length f = unat (i_size_bytes ?i)" using length_file_bytes [OF ext] fk by simp
  have sz: "unat (i_start_lba ?i) + unat (i_sector_count ?i) \<le> disk_size"
    using ext sb dsz(1) by (auto simp: extent_ok_def)
  have "0 < unat (i_sector_count ?i)" using ext by (auto simp: extent_ok_def unat_sector_count_for)
  then have "fst (fs_read_loop B ?i 0 (unat (i_sector_count ?i)) (replicate (128 * EVENT_SIZE) 0) (disk st)) = Read_Overrun"
    using ext big lf sz by (intro read_loop_overrun gd dsz(2)) (simp_all add: extent_ok_def)
  then show ?thesis
    using k on by (auto simp: fs_traceview_read_def fs_read_trace_session_def fs_read_inode_def Let_def split: prod.splits)
qed

lemma reboot_read:
  assumes "fs_inv st" and "unat bytes + 511 < 2 ^ 32" and "unat bytes \<le> length data"
    and "fs_write_trace_session B data bytes info st = (Some sid, st1)"
    and "disk st0 = disk st1" and "bd_ready B (bd_init B (disk st1))"
    and "6144 \<le> disk_size" and "disk_size < 2 ^ 32" and "unat bytes \<le> length buf"
  shows "\<exists>st2 st3. fs_init B st0 = (Fs_Ready, st2) \<and>
    fs_read_trace_session B sid buf st2 = (Read_Ok bytes (take (unat bytes) data @ drop (unat bytes) buf), st3)"
proof -
  have inv: "fs_inv st1" and syn: "fs_synced sec st1"
    using write_session_inv [OF assms(1,2,4)] write_session_synced [OF assms(1,2,4)] by blast+
  have s1: "fs_sessions sec st1 sid = Some (take (unat bytes) data)"
    using write_session_refines [OF assms(1-4)] by auto
  obtain st2 where b: "fs_init B st0 = (Fs_Ready, st2)" "fs_inv st2" "fs_online st2" "good (disk st2)"
    "fs_sessions sec st2 = fs_sessions sec st1"
    using init_synced [OF inv syn assms(5-8)] by blast
  have len: "length (take (unat bytes) data) = unat bytes" using assms(3) by simp
  obtain d where "fs_read_trace_session B sid buf st2 = (Read_Ok (word_of_nat (unat bytes))
      (take (unat bytes) data @ drop (unat bytes) buf), st2\<lparr>disk := d\<rparr>)"
    using read_session_refines [OF b(2,3,4) assms(7,8), of sid "take (unat bytes) data" buf] b(5) s1 len assms(9)
    by auto
  then show ?thesis using b(1) by simp
qed

end

section \<open>Properties\<close>

text \<open>A freshly formatted filesystem on the emulated drive, used as the concrete state below.\<close>

definition demo_fs :: "emu ata fs_state" where
  "demo_fs = \<lparr>superblock = formatted_super, inodes = replicate FS_MAX_INODES inode_zero,
     fs_online = True, disk = emu_blank\<rparr>"

lemma demo_fs_ok: "fs_inv demo_fs" "emu_good (disk demo_fs)" "fs_online demo_fs"
  by (simp_all add: demo_fs_def fs_inv_def formatted_ok emu_blank_good)

lemma emu_disk_size: "6144 \<le> EMU_SECTORS" "EMU_SECTORS < 2 ^ 32"
  by (simp_all add: EMU_SECTORS_def)

lemma demo_fs_room: "bytes \<le> 8192 \<Longrightarrow> \<not> fs_no_room (sector_count_for bytes) demo_fs"
proof -
  assume "bytes \<le> 8192"
  then have b: "unat bytes \<le> 8192" by (simp add: word_le_nat_alt)
  then have "unat (sector_count_for bytes) \<le> 16" by (simp add: unat_sector_count_for)
  moreover from this have "unat (FS_DATA_START_LBA + sector_count_for bytes) = 2057 + unat (sector_count_for bytes)"
    by (subst unat_add_no_wrap) (simp_all add: fs_consts)
  ultimately show ?thesis
    by (simp add: fs_no_room_def demo_fs_def formatted_super_def word_less_nat_alt) (simp add: fs_consts)
qed

lemma demo_fs_write:
  assumes "bytes \<le> 8192" and "unat bytes \<le> length data"
  shows "\<exists>st'. fs_write_trace_session (ata_blockdev emu_ports) data bytes info demo_fs = (Some 1, st') \<and>
    emu_good (disk st') \<and> fs_online st'"
proof -
  have "unat bytes + 511 < 2 ^ 32" using assms(1) by (simp add: word_le_nat_alt)
  moreover have "\<exists>i \<in> set (inodes demo_fs). i_used i = 0"
    by (simp add: demo_fs_def FS_MAX_INODES_def inode_zero_ok)
  moreover have "sb_next_session_id (superblock demo_fs) = 1" by (simp add: demo_fs_def formatted_super_def)
  ultimately show ?thesis
    using emu_disk.write_session_succeeds [OF demo_fs_ok(1) _ assms(2) demo_fs_room [OF assms(1)] demo_fs_ok(3)
        _ demo_fs_ok(2) emu_disk_size, of info] by simp
qed

text \<open>C4: \<open>fs_write_trace_session\<close> keeps the filesystem invariant on every outcome.  A success
  returns a fresh session id, adds exactly one entry with the caller's bytes to the sessions, and
  leaves the metadata on disk in step with memory; a failure loses no session.\<close>

theorem fs_write_session_correct:
  assumes "block_device B sec" and "fs_inv st" and "unat bytes + 511 < 2 ^ 32" and "unat bytes \<le> length data"
    and "fs_write_trace_session B data bytes info st = (r, st')"
  shows "fs_inv st' \<and> fs_sessions sec st \<subseteq>\<^sub>m fs_sessions sec st' \<and>
    (\<forall>sid. r = Some sid \<longrightarrow> fs_sessions sec st sid = None \<and>
       fs_sessions sec st' = (fs_sessions sec st)(sid \<mapsto> take (unat bytes) data) \<and> fs_synced sec st')"
proof -
  have fresh: "fs_sessions sec st (sb_next_session_id (superblock st)) = None"
    using find_session_fresh [OF assms(2)] by (simp add: fs_sessions_def)
  note ref = block_device.write_session_refines [OF assms]
  then have "fs_sessions sec st \<subseteq>\<^sub>m fs_sessions sec st'"
    using fresh by (auto simp: map_le_def)
  moreover have "fs_synced sec st'" if "r = Some sid" for sid
    using block_device.write_session_synced [OF assms(1-3)] assms(5) that by blast
  ultimately show ?thesis
    using write_session_inv [OF assms(2,3,5)] ref fresh by auto
qed

theorem fs_write_session_correct_witness:
  "\<exists>st'. fs_write_trace_session (ata_blockdev emu_ports) [1, 2, 3] 3 None demo_fs = (Some 1, st') \<and>
     fs_sessions (ata_sectors emu_view) st' = (fs_sessions (ata_sectors emu_view) demo_fs)(1 \<mapsto> [1, 2, 3])"
proof -
  obtain st' where w: "fs_write_trace_session (ata_blockdev emu_ports) [1, 2, 3] 3 None demo_fs = (Some 1, st')"
    using demo_fs_write [of 3 "[1, 2, 3]" None] by auto
  from fs_write_session_correct [OF emu.blk.block_device_axioms demo_fs_ok(1) _ _ w] w show ?thesis
    by auto
qed

text \<open>On a working disk, \<open>fs_read_trace_session\<close> into a large enough buffer returns the bytes
  and the size of the stored session, leaves the rest of the buffer alone, and changes neither the
  metadata nor any sector.\<close>

theorem fs_read_session_correct:
  assumes "reliable_block_device B sec good n" and "6144 \<le> n" and "n < 2 ^ 32"
    and "fs_inv st" and "fs_online st" and "good (disk st)"
    and "fs_sessions sec st sid = Some f" and "length f \<le> length buf"
  shows "\<exists>d. fs_read_trace_session B sid buf st
      = (Read_Ok (word_of_nat (length f)) (f @ drop (length f) buf), st\<lparr>disk := d\<rparr>) \<and>
    sec d = sec (disk st) \<and> good d"
  using reliable_block_device.read_session_refines [OF assms(1,4,5,6,2,3,7,8)] .

theorem fs_read_session_correct_witness:
  "\<exists>st' d. fs_write_trace_session (ata_blockdev emu_ports) [1, 2, 3] 3 None demo_fs = (Some 1, st') \<and>
     fs_read_trace_session (ata_blockdev emu_ports) 1 [9, 9, 9, 9, 9] st'
       = (Read_Ok 3 [1, 2, 3, 9, 9], st'\<lparr>disk := d\<rparr>)"
proof -
  obtain st' where w: "fs_write_trace_session (ata_blockdev emu_ports) [1, 2, 3] 3 None demo_fs = (Some 1, st')"
    "emu_good (disk st')" "fs_online st'"
    using demo_fs_write [of 3 "[1, 2, 3]" None] by auto
  have inv: "fs_inv st'" by (rule write_session_inv [OF demo_fs_ok(1) _ w(1)]) simp
  have "fs_sessions (ata_sectors emu_view) st' 1 = Some [1, 2, 3]"
    using emu.blk.write_session_refines [OF demo_fs_ok(1) _ _ w(1)]
    by (auto simp: demo_fs_def formatted_super_def)
  from fs_read_session_correct [OF emu_disk.reliable_block_device_axioms emu_disk_size inv w(3,2) this,
      of "[9, 9, 9, 9, 9]"] w(1) show ?thesis by auto
qed

text \<open>C6: a session survives a reboot.  After a successful write, \<open>fs_init\<close> started on the same disk
  with any memory contents brings the filesystem up, and reading the session gives back the bytes
  that were written.\<close>

theorem fs_session_survives_reboot:
  assumes "reliable_block_device B sec good n" and "6144 \<le> n" and "n < 2 ^ 32"
    and "fs_inv st" and "unat bytes + 511 < 2 ^ 32" and "unat bytes \<le> length data"
    and "fs_write_trace_session B data bytes info st = (Some sid, st1)"
    and "disk st0 = disk st1" and "bd_ready B (bd_init B (disk st1))" and "unat bytes \<le> length buf"
  shows "\<exists>st2 st3. fs_init B st0 = (Fs_Ready, st2) \<and>
    fs_read_trace_session B sid buf st2 = (Read_Ok bytes (take (unat bytes) data @ drop (unat bytes) buf), st3)"
  using reliable_block_device.reboot_read [OF assms(1,4-9,2,3,10)] .

lemma emu_ready_init: "emu_good a \<Longrightarrow> bd_ready (ata_blockdev emu_ports) (bd_init (ata_blockdev emu_ports) a)"
  using emu_good_init_ready by (simp add: ata_blockdev_def ata_is_ready_def)

theorem fs_session_survives_reboot_witness:
  "\<exists>st1 st2 st3. fs_write_trace_session (ata_blockdev emu_ports) [1, 2, 3] 3 None demo_fs = (Some 1, st1) \<and>
     fs_init (ata_blockdev emu_ports) (demo_fs\<lparr>inodes := [], disk := disk st1\<rparr>) = (Fs_Ready, st2) \<and>
     fs_read_trace_session (ata_blockdev emu_ports) 1 [9, 9, 9, 9] st2 = (Read_Ok 3 [1, 2, 3, 9], st3)"
proof -
  obtain st1 where w: "fs_write_trace_session (ata_blockdev emu_ports) [1, 2, 3] 3 None demo_fs = (Some 1, st1)"
    "emu_good (disk st1)"
    using demo_fs_write [of 3 "[1, 2, 3]" None] by auto
  from fs_session_survives_reboot [OF emu_disk.reliable_block_device_axioms emu_disk_size demo_fs_ok(1) _ _ w(1),
      of "demo_fs\<lparr>inodes := [], disk := disk st1\<rparr>" "[9, 9, 9, 9]"] w emu_ready_init [OF w(2)]
  show ?thesis by auto
qed

text \<open>On a working disk without a valid superblock \<open>fs_init\<close> formats: it comes up online, with
  the invariant, an empty map of sessions, and the metadata written.\<close>

theorem fs_init_formats:
  assumes "reliable_block_device B sec good n" and "6144 \<le> n" and "n < 2 ^ 32"
    and "sb_magic (get_superblock (sec (disk st0) (unat FS_START_LBA))) \<noteq> FS_MAGIC"
    and "bd_ready B (bd_init B (disk st0))"
  shows "\<exists>st'. fs_init B st0 = (Fs_Ready, st') \<and> fs_inv st' \<and> fs_online st' \<and> fs_synced sec st' \<and>
    fs_sessions sec st' = Map.empty"
  using reliable_block_device.init_blank [OF assms(1,4,5,2,3)] by blast

theorem fs_init_formats_witness:
  "\<exists>st'. fs_init (ata_blockdev emu_ports) demo_fs = (Fs_Ready, st') \<and> fs_inv st' \<and> fs_online st'"
proof -
  have "get32 (ata_sectors emu_view emu_blank l) 0 = 0" for l
    by (simp add: get32_def emu_view_def emu_blank_def SECTOR_SIZE_def numeral_eq_Suc upt_conv_Cons del: upt_Suc)
  then have "sb_magic (get_superblock (ata_sectors emu_view (disk demo_fs) (unat FS_START_LBA))) \<noteq> FS_MAGIC"
    by (simp add: get_superblock_def demo_fs_def FS_MAGIC_def)
  from fs_init_formats [OF emu_disk.reliable_block_device_axioms emu_disk_size this emu_ready_init [OF demo_fs_ok(2)]]
  show ?thesis by blast
qed

text \<open>C39: \<open>fs_traceview\<close> reads a whole session into an array of 128 events, so every stored session
  with more events makes the kernel write behind that array.\<close>

theorem fs_traceview_overrun:
  assumes "reliable_block_device B sec good n" and "6144 \<le> n" and "n < 2 ^ 32"
    and "fs_inv st" and "fs_online st" and "good (disk st)"
    and "fs_sessions sec st sid = Some f" and "128 * EVENT_SIZE < length f"
  shows "fst (fs_traceview_read B sid st) = Read_Overrun"
  using reliable_block_device.traceview_overruns [OF assms(1,4,5,6,2,3,7,8)] .

theorem fs_traceview_overrun_witness:
  "\<exists>st'. fs_write_trace_session (ata_blockdev emu_ports) (replicate 5160 0) 5160 None demo_fs = (Some 1, st') \<and>
     fst (fs_traceview_read (ata_blockdev emu_ports) 1 st') = Read_Overrun"
proof -
  let ?f = "replicate 5160 0 :: u8 list"
  obtain st' where w: "fs_write_trace_session (ata_blockdev emu_ports) ?f 5160 None demo_fs = (Some 1, st')"
    "emu_good (disk st')" "fs_online st'"
    using demo_fs_write [of 5160 ?f None] by (auto)
  have inv: "fs_inv st'" by (rule write_session_inv [OF demo_fs_ok(1) _ w(1)]) simp
  have s: "fs_sessions (ata_sectors emu_view) st' 1 = Some ?f"
    using emu.blk.write_session_refines [OF demo_fs_ok(1) _ _ w(1)]
    by (auto simp: demo_fs_def formatted_super_def)
  have "128 * EVENT_SIZE < length ?f" by (simp add: EVENT_SIZE_def)
  from fs_traceview_overrun [OF emu_disk.reliable_block_device_axioms emu_disk_size inv w(3,2) s this] w(1)
  show ?thesis by blast
qed

text \<open>The packed superblock and inodes are read back as they were written.\<close>

theorem fs_metadata_roundtrip:
  assumes "length (sb_reserved sb) = 480" and "list_all inode_layout_ok is"
  shows "length (put_superblock sb) = 512 \<and> get_superblock (put_superblock sb) = sb \<and>
    length (put_inodes is) = 128 * length is \<and> get_inodes (length is) (put_inodes is) = is"
  using length_put_superblock [OF assms(1)] get_put_superblock [OF assms(1), of "[]"]
    length_put_inodes [OF assms(2)] get_put_inodes [OF assms(2), of "[]"] by simp

theorem fs_metadata_roundtrip_witness:
  "get_inodes 1 (put_inodes [inode_zero\<lparr>i_used := 1, i_start_lba := 2057\<rparr>])
    = [inode_zero\<lparr>i_used := 1, i_start_lba := 2057\<rparr>]"
  using fs_metadata_roundtrip [of superblock_zero "[inode_zero\<lparr>i_used := 1, i_start_lba := 2057\<rparr>]"]
  by (simp add: superblock_zero_def inode_layout_ok_def inode_zero_def)

end
