(* ===== verification/Trace.thy ===== *)
theory Trace
  imports Fs
begin

text \<open>
  The event recorder and replayer of \<open>kernel/trace.c\<close>.  The static variables are the record
  \<open>trace_state\<close>.  \<open>trace_step\<close> is the body of \<open>trace_record\<close> after the process id is
  resolved; the clock is an argument, and a returned event count is what the code passes to
  \<open>sched_set_current_event_count\<close> (the scheduler is joined in \<open>Kernel_State\<close>).
  \<open>trace_stop\<close> and \<open>trace_replay_begin\<close> work on the filesystem state; \<open>None\<close> is an access
  outside an array.  What the functions print is left to \<open>Kernel_State\<close> as well.
\<close>

section \<open>Definitions\<close>

definition TRACE_BUFFER_CAP :: nat where "TRACE_BUFFER_CAP = 4096"
definition TRACE_SESSION_CAP :: nat where "TRACE_SESSION_CAP = 16"
definition TRACE_HASH_INIT :: u64 where "TRACE_HASH_INIT = 1469598103934665603"
definition TRACE_HASH_PRIME :: u64 where "TRACE_HASH_PRIME = 1099511628211"
definition WORKLOAD_PROFILE_NONE :: u32 where "WORKLOAD_PROFILE_NONE = 0"

record replay_state =
  rp_active :: bool
  rp_failed :: bool
  rp_session_id :: u32
  rp_event_count :: u32
  rp_event_index :: u32
  rp_virtual_ticks :: u64
  rp_info :: trace_session_info
  rp_expected :: trace_event
  rp_actual :: trace_event

record trace_state =
  tr_buffer :: "trace_event list"
  tr_replay_buffer :: "trace_event list"
  tr_sessions :: "trace_session_info list"
  tr_stats :: trace_stats
  tr_recording :: bool
  tr_next_event_id :: u64
  tr_current_events :: u32
  tr_record_start_ticks :: u64
  tr_buffer_peak :: u32
  tr_current_profile :: u32
  tr_replay :: replay_state

definition replay_zero :: replay_state where
  "replay_zero = \<lparr>rp_active = False, rp_failed = False, rp_session_id = 0, rp_event_count = 0,
     rp_event_index = 0, rp_virtual_ticks = 0, rp_info = session_info_zero,
     rp_expected = event_zero, rp_actual = event_zero\<rparr>"

definition stats_zero :: trace_stats where
  "stats_zero = \<lparr>st_events = 0, st_dropped = 0, st_bytes = 0, st_sessions = 0,
     st_last_duration_ticks = 0, st_last_hash = 0, st_last_buffer_peak = 0\<rparr>"

text \<open>The state of the zero-initialised variables; \<open>next_event_id\<close> starts at 1.\<close>

definition trace_boot :: trace_state where
  "trace_boot = \<lparr>tr_buffer = replicate TRACE_BUFFER_CAP event_zero,
     tr_replay_buffer = replicate TRACE_BUFFER_CAP event_zero,
     tr_sessions = replicate TRACE_SESSION_CAP session_info_zero, tr_stats = stats_zero,
     tr_recording = False, tr_next_event_id = 1, tr_current_events = 0,
     tr_record_start_ticks = 0, tr_buffer_peak = 0, tr_current_profile = 0,
     tr_replay = replay_zero\<rparr>"

definition hash_byte :: "u64 \<Rightarrow> u64 \<Rightarrow> nat \<Rightarrow> u64" where
  "hash_byte hash value i = (hash XOR (drop_bit (i * 8) value AND 0xff)) * TRACE_HASH_PRIME"

definition hash_mix :: "u64 \<Rightarrow> u64 \<Rightarrow> u64" where
  "hash_mix hash value = fold (\<lambda>i h. hash_byte h value i) [0..<8] hash"

definition hash_event :: "u64 \<Rightarrow> trace_event \<Rightarrow> u64" where
  "hash_event hash e =
     hash_mix (hash_mix (hash_mix (hash_mix (hash_mix (hash_mix hash (ev_id e)) (ev_timestamp e))
       (ucast (ev_pid e))) (ucast (ev_type e))) (ev_data0 e)) (ev_data1 e)"

definition trace_hash_events :: "trace_event list \<Rightarrow> nat \<Rightarrow> u64" where
  "trace_hash_events es count = fold (\<lambda>e h. hash_event h e) (take count es) TRACE_HASH_INIT"

definition trace_init :: "trace_state \<Rightarrow> trace_state" where
  "trace_init tr = tr\<lparr>tr_stats := stats_zero, tr_buffer_peak := 0,
     tr_current_profile := WORKLOAD_PROFILE_NONE, tr_replay := replay_zero\<rparr>"


definition event_differs :: "trace_event \<Rightarrow> trace_event \<Rightarrow> bool" where
  "event_differs e x \<longleftrightarrow> ev_pid e \<noteq> ev_pid x \<or> ev_type e \<noteq> ev_type x \<or>
     ev_data0 e \<noteq> ev_data0 x \<or> ev_data1 e \<noteq> ev_data1 x"

text \<open>The replay branch of \<open>trace_record\<close>.\<close>

definition replay_step :: "trace_event \<Rightarrow> trace_state \<Rightarrow> trace_state" where
  "replay_step event tr =
     (let rp = tr_replay tr in
      if rp_event_index rp \<ge> rp_event_count rp
      then tr\<lparr>tr_replay := rp\<lparr>rp_failed := True, rp_actual := event\<rparr>\<rparr>
      else
        (let expected = tr_replay_buffer tr ! unat (rp_event_index rp);
             event' = event\<lparr>ev_id := ev_id expected, ev_timestamp := ev_timestamp expected\<rparr>;
             rp' = rp\<lparr>rp_expected := expected, rp_virtual_ticks := ev_timestamp expected, rp_actual := event'\<rparr>
         in if event_differs event' expected
            then tr\<lparr>tr_replay := rp'\<lparr>rp_failed := True\<rparr>\<rparr>
            else tr\<lparr>tr_replay := rp'\<lparr>rp_event_index := rp_event_index rp + 1\<rparr>\<rparr>))"

text \<open>The recording branch; the event count goes to the scheduler.\<close>

definition record_step :: "trace_event \<Rightarrow> trace_state \<Rightarrow> trace_state \<times> u64 option" where
  "record_step event tr =
     (if \<not> tr_recording tr then (tr, None)
      else if unat (tr_current_events tr) \<ge> TRACE_BUFFER_CAP
      then (tr\<lparr>tr_stats := (tr_stats tr)\<lparr>st_dropped := st_dropped (tr_stats tr) + 1\<rparr>\<rparr>, None)
      else
        (let n = tr_current_events tr + 1;
             st = (tr_stats tr)\<lparr>st_events := st_events (tr_stats tr) + 1,
                    st_bytes := st_bytes (tr_stats tr) + word_of_nat EVENT_SIZE\<rparr>
         in (tr\<lparr>tr_buffer := (tr_buffer tr)[unat (tr_current_events tr) := event],
                tr_current_events := n,
                tr_buffer_peak := (if n > tr_buffer_peak tr then n else tr_buffer_peak tr),
                tr_stats := st\<rparr>, Some (st_events st))))"

definition trace_step :: "u16 \<Rightarrow> u32 \<Rightarrow> u64 \<Rightarrow> u64 \<Rightarrow> u64 \<Rightarrow> trace_state \<Rightarrow> trace_state \<times> u64 option" where
  "trace_step ty pid ticks data0 data1 tr =
     (if tr_recording tr \<and> tr_current_profile tr \<noteq> WORKLOAD_PROFILE_NONE \<and> ty = TRACE_EVENT_IRQ
      then (tr, None)
      else
        (let event = \<lparr>ev_id = tr_next_event_id tr, ev_timestamp = ticks, ev_pid = pid, ev_type = ty,
               ev_size = word_of_nat EVENT_SIZE, ev_data0 = data0, ev_data1 = data1\<rparr>;
             tr1 = tr\<lparr>tr_next_event_id := tr_next_event_id tr + 1\<rparr>
         in if rp_active (tr_replay tr) then (replay_step event tr1, None)
            else record_step event tr1))"

definition trace_start_profile :: "u32 \<Rightarrow> u64 \<Rightarrow> trace_state \<Rightarrow> trace_state" where
  "trace_start_profile profile_id ticks tr = tr\<lparr>tr_recording := True,
     tr_stats := (tr_stats tr)\<lparr>st_sessions := st_sessions (tr_stats tr) + 1\<rparr>,
     tr_current_events := 0, tr_buffer_peak := 0, tr_record_start_ticks := ticks,
     tr_current_profile := profile_id\<rparr>"

definition trace_start :: "u64 \<Rightarrow> trace_state \<Rightarrow> trace_state" where
  "trace_start ticks tr = trace_start_profile WORKLOAD_PROFILE_NONE ticks tr"

text \<open>
  \<open>sessions[stats.sessions - 1] = info\<close> is guarded from above only: without a started session
  the index is \<open>-1\<close>.
\<close>

definition trace_stop :: "'d blockdev \<Rightarrow> u64 \<Rightarrow> trace_state \<times> 'd fs_state \<Rightarrow> (trace_state \<times> 'd fs_state) option" where
  "trace_stop B ticks = (\<lambda>(tr, fs).
     (let n = tr_current_events tr;
          bytes = n * word_of_nat EVENT_SIZE;
          info = \<lparr>si_session_id = 0, si_size_bytes = bytes, si_event_count = n,
             si_profile_id = tr_current_profile tr, si_start_ticks = tr_record_start_ticks tr,
             si_duration_ticks = ticks - tr_record_start_ticks tr,
             si_sequence_hash = trace_hash_events (tr_buffer tr) (unat n)\<rparr>;
          tr1 = tr\<lparr>tr_recording := False,
             tr_stats := (tr_stats tr)\<lparr>st_last_duration_ticks := si_duration_ticks info,
               st_last_hash := si_sequence_hash info, st_last_buffer_peak := ucast (tr_buffer_peak tr)\<rparr>\<rparr>;
          (sid, fs1) = fs_write_trace_session B (put_events (tr_buffer tr)) bytes (Some info) fs
      in case sid of
           None \<Rightarrow> Some (tr1, fs1)
         | Some i \<Rightarrow>
             if st_sessions (tr_stats tr1) > word_of_nat TRACE_SESSION_CAP then Some (tr1, fs1)
             else if st_sessions (tr_stats tr1) = 0 then None
             else Some (tr1\<lparr>tr_sessions := (tr_sessions tr1)
                    [unat (st_sessions (tr_stats tr1) - 1) := info\<lparr>si_session_id := i\<rparr>]\<rparr>, fs1)))"

text \<open>
  \<open>trace_replay_begin\<close>: \<open>None\<close> when the session does not fit the replay buffer; the flag is
  the return value.
\<close>

definition replay_info :: "u32 \<Rightarrow> 'd fs_state \<Rightarrow> trace_session_info" where
  "replay_info sid fs =
     (case fs_get_trace_session_info sid fs of None \<Rightarrow> session_info_zero | Some i \<Rightarrow> i)"

definition trace_replay_begin ::
  "'d blockdev \<Rightarrow> u32 \<Rightarrow> trace_state \<times> 'd fs_state \<Rightarrow> (bool \<times> trace_state \<times> 'd fs_state) option" where
  "trace_replay_begin B sid = (\<lambda>(tr, fs).
     (case fs_read_trace_session B sid (put_events (tr_replay_buffer tr)) fs of
        (Read_Overrun, fs1) \<Rightarrow> None
      | (Read_Fail buf, fs1) \<Rightarrow> Some (False, tr\<lparr>tr_replay_buffer := get_events TRACE_BUFFER_CAP buf\<rparr>, fs1)
      | (Read_Ok bytes buf, fs1) \<Rightarrow>
          Some (True,
            tr\<lparr>tr_replay_buffer := get_events TRACE_BUFFER_CAP buf,
               tr_replay := \<lparr>rp_active = True, rp_failed = False, rp_session_id = sid,
                  rp_event_count = bytes div word_of_nat EVENT_SIZE, rp_event_index = 0,
                  rp_virtual_ticks = si_start_ticks (replay_info sid fs1),
                  rp_info = replay_info sid fs1, rp_expected = event_zero, rp_actual = event_zero\<rparr>,
               tr_next_event_id := 1\<rparr>, fs1)))"

definition trace_replay_expected_next_task :: "trace_state \<Rightarrow> u64 option" where
  "trace_replay_expected_next_task tr =
     (let rp = tr_replay tr in
      if \<not> rp_active rp \<or> rp_event_index rp \<ge> rp_event_count rp then None
      else
        (let event = tr_replay_buffer tr ! unat (rp_event_index rp)
         in if ev_type event \<noteq> TRACE_EVENT_SCHED then None else Some (ev_data1 event)))"

definition trace_replay_end :: "trace_state \<Rightarrow> trace_state" where
  "trace_replay_end tr =
     (let rp = tr_replay tr in
      if \<not> rp_active rp then tr
      else tr\<lparr>tr_replay := rp\<lparr>rp_failed := (rp_failed rp \<or> rp_event_index rp \<noteq> rp_event_count rp),
                rp_active := False\<rparr>\<rparr>)"

text \<open>\<open>trace_replay_session\<close>: the stored events and the two hashes whose match it prints.\<close>

definition trace_replay_session ::
  "'d blockdev \<Rightarrow> u32 \<Rightarrow> u8 list \<Rightarrow> 'd fs_state \<Rightarrow> ((trace_event list \<times> u64 \<times> u64) option \<times> 'd fs_state) option" where
  "trace_replay_session B sid buf fs =
     (case fs_read_trace_session B sid buf fs of
        (Read_Overrun, fs1) \<Rightarrow> None
      | (Read_Fail buf', fs1) \<Rightarrow> Some (None, fs1)
      | (Read_Ok bytes buf', fs1) \<Rightarrow>
          (let count = bytes div word_of_nat EVENT_SIZE;
               events = get_events (unat count) buf'
           in Some (Some (events, trace_hash_events events (unat count), si_sequence_hash (replay_info sid fs1)), fs1)))"

section \<open>The hash\<close>

definition fnv :: "u8 \<Rightarrow> u64 \<Rightarrow> u64" where
  "fnv b h = (h XOR ucast b) * TRACE_HASH_PRIME"

text \<open>The bytes of an event that enter the hash, in order.\<close>

definition event_bytes :: "trace_event \<Rightarrow> u8 list" where
  "event_bytes e = put64 (ev_id e) @ put64 (ev_timestamp e) @ put64 (ucast (ev_pid e)) @
     put64 (ucast (ev_type e)) @ put64 (ev_data0 e) @ put64 (ev_data1 e)"

definition hashed_bytes :: "trace_event list \<Rightarrow> u8 list" where
  "hashed_bytes es = concat (map event_bytes es)"

lemma le_bytes_eq: "le_bytes n x = map (\<lambda>i. word_of_nat (x div 256 ^ i mod 256)) [0..<n]"
proof (induction n arbitrary: x)
  case 0
  then show ?case by simp
next
  case (Suc n)
  have "[0..<Suc n] = 0 # map Suc [0..<n]" by (simp add: map_Suc_upt upt_conv_Cons del: upt_Suc)
  with Suc show ?case by (simp add: comp_def div_mult2_eq del: upt_Suc)
qed

lemma unat_ucast_byte: "unat (ucast (b :: u8) :: u64) = unat b"
  using unsigned_less [of b, where 'a = nat] by (simp add: unsigned_ucast_eq take_bit_nat_eq_self)

lemma hash_byte_fnv: "hash_byte h v i = fnv (word_of_nat (unat v div 256 ^ i mod 256)) h"
proof -
  have "drop_bit (i * 8) v AND 0xff = take_bit 8 (drop_bit (i * 8) v)"
    by (simp add: take_bit_eq_mask mask_numeral)
  also have "\<dots> = word_of_nat (unat (take_bit 8 (drop_bit (i * 8) v)))" by simp
  also have "unat (take_bit 8 (drop_bit (i * 8) v)) = unat v div 256 ^ i mod 256"
  proof -
    have "(2::nat) ^ (i * 8) = (2 ^ 8) ^ i" by (simp only: power_mult [symmetric] mult.commute)
    then have "(2::nat) ^ (i * 8) = 256 ^ i" by simp
    then show ?thesis
      by (simp only: unsigned_take_bit_eq unat_drop_bit_word) (simp add: take_bit_eq_mod)
  qed
  also have "(word_of_nat (unat v div 256 ^ i mod 256) :: u64)
    = ucast (word_of_nat (unat v div 256 ^ i mod 256) :: u8)"
    by (simp only: word_unat_eq_iff unat_ucast_byte) (simp add: unat_word_of_nat_less)
  finally show ?thesis by (simp add: hash_byte_def fnv_def)
qed

lemma hash_mix_fnv: "hash_mix h v = fold fnv (put64 v) h"
  by (simp only: hash_mix_def hash_byte_fnv put64_def le_bytes_eq fold_map comp_def)

lemma trace_hash_fnv:
  "trace_hash_events es n = fold fnv (hashed_bytes (take n es)) TRACE_HASH_INIT"
proof -
  have "fold (\<lambda>e h. hash_event h e) xs h = fold fnv (hashed_bytes xs) h" for xs h
    by (induction xs arbitrary: h) (simp_all add: hashed_bytes_def event_bytes_def hash_event_def hash_mix_fnv)
  then show ?thesis by (simp add: trace_hash_events_def)
qed

text \<open>The multiplier is odd, so every step can be undone.\<close>

lemma prime_inverse: "TRACE_HASH_PRIME * 0xce965057aff6957b = 1"
  by (simp add: TRACE_HASH_PRIME_def)

lemma mult_prime_cancel: "a * TRACE_HASH_PRIME = b * TRACE_HASH_PRIME \<longleftrightarrow> a = b"
proof
  assume "a * TRACE_HASH_PRIME = b * TRACE_HASH_PRIME"
  then have "a * (TRACE_HASH_PRIME * 0xce965057aff6957b) = b * (TRACE_HASH_PRIME * 0xce965057aff6957b)"
    by (simp only: mult.assoc [symmetric])
  then show "a = b" by (simp only: prime_inverse mult_1_right)
qed simp

lemma xor_cancel: "(h XOR x = h' XOR x) \<longleftrightarrow> h = (h' :: u64)"
proof
  assume "h XOR x = h' XOR x"
  then have "(h XOR x) XOR x = (h' XOR x) XOR x" by simp
  then show "h = h'" by (simp only: xor.assoc xor_self_eq xor.right_neutral)
qed simp

lemma fnv_inj_hash: "fnv b h = fnv b h' \<longleftrightarrow> h = h'"
  by (simp add: fnv_def mult_prime_cancel xor_cancel)

lemma fnv_inj_byte: "fnv b h = fnv c h \<longleftrightarrow> b = c"
proof -
  have "h XOR ucast b = h XOR ucast c \<longleftrightarrow> (ucast b :: u64) = ucast c"
    using xor_cancel [of "ucast b" h "ucast c"] by (simp only: xor.commute)
  also have "\<dots> \<longleftrightarrow> b = c" by (simp only: word_unat_eq_iff unat_ucast_byte)
  finally show ?thesis by (simp add: fnv_def mult_prime_cancel)
qed

lemma fold_fnv_inj: "fold fnv bs h = fold fnv bs h' \<longleftrightarrow> h = h'"
  by (induction bs arbitrary: h h') (simp_all add: fnv_inj_hash)

section \<open>Recording\<close>

definition recorded :: "trace_state \<Rightarrow> trace_event list" where
  "recorded tr = take (unat (tr_current_events tr)) (tr_buffer tr)"

definition trace_inv :: "trace_state \<Rightarrow> bool" where
  "trace_inv tr \<longleftrightarrow> length (tr_buffer tr) = TRACE_BUFFER_CAP \<and>
     length (tr_replay_buffer tr) = TRACE_BUFFER_CAP \<and> length (tr_sessions tr) = TRACE_SESSION_CAP \<and>
     unat (tr_current_events tr) \<le> TRACE_BUFFER_CAP \<and>
     unat (rp_event_count (tr_replay tr)) \<le> TRACE_BUFFER_CAP"

text \<open>A call of \<open>trace_record\<close>: type, process id, clock and the two data words.\<close>

type_synonym trace_call = "u16 \<times> u32 \<times> u64 \<times> u64 \<times> u64"

definition call_step :: "trace_call \<Rightarrow> trace_state \<Rightarrow> trace_state" where
  "call_step c tr = (case c of (ty, pid, ticks, d0, d1) \<Rightarrow> fst (trace_step ty pid ticks d0 d1 tr))"

definition trace_run :: "trace_call list \<Rightarrow> trace_state \<Rightarrow> trace_state" where
  "trace_run cs tr = fold call_step cs tr"

definition call_event :: "u64 \<Rightarrow> trace_call \<Rightarrow> trace_event" where
  "call_event eid c = (case c of (ty, pid, ticks, d0, d1) \<Rightarrow>
     \<lparr>ev_id = eid, ev_timestamp = ticks, ev_pid = pid, ev_type = ty, ev_size = word_of_nat EVENT_SIZE,
      ev_data0 = d0, ev_data1 = d1\<rparr>)"

text \<open>The reference log: every call that is not filtered out, numbered consecutively.\<close>

fun call_log :: "u64 \<Rightarrow> trace_call list \<Rightarrow> trace_event list" where
  "call_log eid [] = []"
| "call_log eid (c # cs) = call_event eid c # call_log (eid + 1) cs"

definition kept :: "u32 \<Rightarrow> trace_call \<Rightarrow> bool" where
  "kept profile c \<longleftrightarrow> \<not> (profile \<noteq> WORKLOAD_PROFILE_NONE \<and> fst c = TRACE_EVENT_IRQ)"

lemma length_call_log [simp]: "length (call_log eid cs) = length cs"
  by (induction cs arbitrary: eid) simp_all

lemma trace_cap_word: "unat (tr_current_events tr) < TRACE_BUFFER_CAP \<Longrightarrow>
    unat (tr_current_events tr + 1) = unat (tr_current_events tr) + 1"
  by (subst unat_add_no_wrap) (simp_all add: TRACE_BUFFER_CAP_def)

lemma call_step_recording:
  assumes inv: "trace_inv tr" and rec: "tr_recording tr" and nr: "\<not> rp_active (tr_replay tr)"
  shows "call_step c tr =
    (if \<not> kept (tr_current_profile tr) c then tr
     else fst (record_step (call_event (tr_next_event_id tr) c) (tr\<lparr>tr_next_event_id := tr_next_event_id tr + 1\<rparr>)))"
  using assms by (cases c) (auto simp: call_step_def trace_step_def kept_def call_event_def)

lemma record_step_keeps:
  fixes e :: trace_event
  assumes "trace_inv tr" and "tr_recording tr"
  defines "tr' \<equiv> fst (record_step e tr)"
  shows "trace_inv tr'" "tr_recording tr'" "tr_replay tr' = tr_replay tr"
    "tr_current_profile tr' = tr_current_profile tr" "tr_next_event_id tr' = tr_next_event_id tr"
    "tr_record_start_ticks tr' = tr_record_start_ticks tr"
    "st_sessions (tr_stats tr') = st_sessions (tr_stats tr)"
    "recorded tr' = take TRACE_BUFFER_CAP (recorded tr @ [e])"
    "st_dropped (tr_stats tr') = st_dropped (tr_stats tr) +
       (if length (recorded tr) < TRACE_BUFFER_CAP then 0 else 1)"
proof -
  show "trace_inv tr'" "tr_recording tr'" "tr_replay tr' = tr_replay tr"
    "tr_current_profile tr' = tr_current_profile tr" "tr_next_event_id tr' = tr_next_event_id tr"
    "tr_record_start_ticks tr' = tr_record_start_ticks tr"
    "st_sessions (tr_stats tr') = st_sessions (tr_stats tr)"
    using assms trace_cap_word [of tr] by (auto simp: record_step_def Let_def trace_inv_def)
  have len: "length (recorded tr) = unat (tr_current_events tr)"
    using assms(1) by (simp add: recorded_def trace_inv_def)
  show "st_dropped (tr_stats tr') = st_dropped (tr_stats tr) +
       (if length (recorded tr) < TRACE_BUFFER_CAP then 0 else 1)"
    using assms len by (auto simp: record_step_def Let_def)
  show "recorded tr' = take TRACE_BUFFER_CAP (recorded tr @ [e])"
  proof (cases "unat (tr_current_events tr) < TRACE_BUFFER_CAP")
    case True
    then have "recorded tr' = recorded tr @ [e]"
      using assms trace_cap_word [OF True]
      by (simp add: record_step_def Let_def recorded_def trace_inv_def take_Suc_conv_app_nth)
    with True len show ?thesis by simp
  next
    case False
    with assms len show ?thesis by (simp add: record_step_def recorded_def trace_inv_def)
  qed
qed

text \<open>Recording or checking an event keeps the frame of the recorder.\<close>

definition recorder :: "trace_state \<Rightarrow> bool \<times> u64 \<times> u32 \<times> u64" where
  "recorder tr = (tr_recording tr, st_sessions (tr_stats tr), tr_current_profile tr, tr_record_start_ticks tr)"

lemma trace_step_recorder:
  assumes "trace_step ty pid t a b tr = (tr', c)"
  shows "recorder tr' = recorder tr" "trace_inv tr \<Longrightarrow> trace_inv tr'"
  using assms trace_cap_word [of tr]
  by (auto simp: trace_step_def replay_step_def record_step_def Let_def recorder_def trace_inv_def split: if_splits)

lemma take_take_append: "take n (take n xs @ ys) = take n (xs @ ys)"
  by (simp add: min_def)

lemma trace_run_recording:
  assumes "trace_inv tr" and "tr_recording tr" and "\<not> rp_active (tr_replay tr)" and "tr_current_profile tr = p"
    and "l = call_log (tr_next_event_id tr) (filter (kept p) cs)"
  shows "trace_inv (trace_run cs tr) \<and> tr_recording (trace_run cs tr) \<and>
    recorded (trace_run cs tr) = take TRACE_BUFFER_CAP (recorded tr @ l) \<and>
    st_dropped (tr_stats (trace_run cs tr))
      = st_dropped (tr_stats tr) + word_of_nat (length (recorded tr @ l) - TRACE_BUFFER_CAP) \<and>
    st_sessions (tr_stats (trace_run cs tr)) = st_sessions (tr_stats tr)"
  using assms
proof (induction cs arbitrary: tr l)
  case Nil
  have "length (recorded tr) \<le> TRACE_BUFFER_CAP" using Nil.prems(1) by (simp add: recorded_def trace_inv_def)
  with Nil show ?case by (simp add: trace_run_def)
next
  case (Cons c cs)
  note step = call_step_recording [OF Cons.prems(1-3), of c]
  have run: "trace_run (c # cs) tr = trace_run cs (call_step c tr)" by (simp add: trace_run_def)
  show ?case
  proof (cases "kept p c")
    case False
    with step Cons.prems(4) have "call_step c tr = tr" by simp
    with Cons.IH [OF Cons.prems(1-4) refl] False Cons.prems(5) show ?thesis by (simp add: run)
  next
    case True
    let ?t = "tr\<lparr>tr_next_event_id := tr_next_event_id tr + 1\<rparr>"
    let ?e = "call_event (tr_next_event_id tr) c"
    have t: "trace_inv ?t" "tr_recording ?t" "recorded ?t = recorded tr" "tr_stats ?t = tr_stats tr"
      using Cons.prems(1,2) by (simp_all add: trace_inv_def recorded_def)
    define tr' where "tr' = fst (record_step ?e ?t)"
    have tr': "call_step c tr = tr'" using step True Cons.prems(4) by (simp add: tr'_def)
    note k = record_step_keeps [OF t(1,2), of ?e, folded tr'_def, unfolded t(3,4)]
    let ?l' = "call_log (tr_next_event_id tr') (filter (kept p) cs)"
    have l: "l = ?e # ?l'" using True Cons.prems(5) k(5) by simp
    have "\<not> rp_active (tr_replay tr')" "tr_current_profile tr' = p" using k(3,4) Cons.prems(3,4) by simp_all
    note ih = Cons.IH [OF k(1,2) this refl]
    have len: "length (recorded tr) \<le> TRACE_BUFFER_CAP" using Cons.prems(1) by (simp add: recorded_def trace_inv_def)
    have "recorded (trace_run cs tr') = take TRACE_BUFFER_CAP (recorded tr @ l)"
      using ih by (simp only: k(8) take_take_append) (simp add: l)
    moreover have "st_dropped (tr_stats (trace_run cs tr'))
      = st_dropped (tr_stats tr) + word_of_nat (length (recorded tr @ l) - TRACE_BUFFER_CAP)"
    proof (cases "length (recorded tr) < TRACE_BUFFER_CAP")
      case True
      with ih k(8,9) show ?thesis by (simp add: l)
    next
      case False
      with len have eq: "length (recorded tr) = TRACE_BUFFER_CAP" by simp
      with ih k(8,9) show ?thesis by (simp add: l add.commute)
    qed
    ultimately show ?thesis using ih k(7) by (simp add: run tr')
  qed
qed

section \<open>Replaying\<close>

text \<open>What the replayer compares: type, process id and the two data words.\<close>

definition event_key :: "trace_event \<Rightarrow> u32 \<times> u16 \<times> u64 \<times> u64" where
  "event_key e = (ev_pid e, ev_type e, ev_data0 e, ev_data1 e)"

definition call_key :: "trace_call \<Rightarrow> u32 \<times> u16 \<times> u64 \<times> u64" where
  "call_key c = (case c of (ty, pid, ticks, d0, d1) \<Rightarrow> (pid, ty, d0, d1))"

definition replay_events :: "trace_state \<Rightarrow> trace_event list" where
  "replay_events tr = take (unat (rp_event_count (tr_replay tr))) (tr_replay_buffer tr)"

lemma call_step_replay:
  assumes "rp_active (tr_replay tr)" and "\<not> tr_recording tr"
  shows "call_step c tr =
    replay_step (call_event (tr_next_event_id tr) c) (tr\<lparr>tr_next_event_id := tr_next_event_id tr + 1\<rparr>)"
  using assms by (cases c) (simp add: call_step_def trace_step_def call_event_def)

lemma call_step_replay_fields:
  assumes "rp_active (tr_replay tr)" and "\<not> tr_recording tr"
  shows "rp_active (tr_replay (call_step c tr))" "\<not> tr_recording (call_step c tr)"
    "replay_events (call_step c tr) = replay_events tr"
    "rp_event_count (tr_replay (call_step c tr)) = rp_event_count (tr_replay tr)"
    "tr_replay_buffer (call_step c tr) = tr_replay_buffer tr"
    "rp_failed (tr_replay tr) \<Longrightarrow> rp_failed (tr_replay (call_step c tr))"
  using assms by (simp_all add: call_step_replay replay_step_def Let_def replay_events_def)

lemma replay_failed_stays:
  assumes "rp_active (tr_replay tr)" and "\<not> tr_recording tr" and "rp_failed (tr_replay tr)"
  shows "rp_failed (tr_replay (trace_run cs tr))"
  using assms
proof (induction cs arbitrary: tr)
  case Nil
  then show ?case by (simp add: trace_run_def)
next
  case (Cons c cs)
  from Cons.IH [of "call_step c tr"] call_step_replay_fields [OF Cons.prems(1,2), of c] Cons.prems(3)
  show ?case by (simp add: trace_run_def)
qed

lemma replay_run_verdict:
  assumes "rp_active (tr_replay tr)" and "\<not> tr_recording tr" and "\<not> rp_failed (tr_replay tr)"
    and "unat (rp_event_count (tr_replay tr)) \<le> length (tr_replay_buffer tr)"
    and "rp_event_index (tr_replay tr) \<le> rp_event_count (tr_replay tr)"
  shows "\<not> rp_failed (tr_replay (trace_run cs tr)) \<and>
      rp_event_index (tr_replay (trace_run cs tr)) = rp_event_count (tr_replay (trace_run cs tr))
    \<longleftrightarrow> map call_key cs = map event_key (drop (unat (rp_event_index (tr_replay tr))) (replay_events tr))"
  using assms
proof (induction cs arbitrary: tr)
  case Nil
  let ?i = "rp_event_index (tr_replay tr)" and ?n = "rp_event_count (tr_replay tr)"
  have "?i = ?n \<longleftrightarrow> unat ?n \<le> unat ?i" using Nil.prems(5) by (auto simp: word_unat_eq_iff word_le_nat_alt)
  with Nil show ?case by (auto simp: trace_run_def replay_events_def)
next
  case (Cons c cs)
  let ?i = "rp_event_index (tr_replay tr)" and ?n = "rp_event_count (tr_replay tr)"
  let ?tr = "call_step c tr"
  note f = call_step_replay_fields [OF Cons.prems(1,2), of c] and st = call_step_replay [OF Cons.prems(1,2), of c]
  have run: "trace_run (c # cs) tr = trace_run cs ?tr" by (simp add: trace_run_def)
  show ?case
  proof (cases "?i < ?n")
    case False
    then have "rp_failed (tr_replay ?tr)" by (simp add: st replay_step_def Let_def linorder_not_less)
    then have "rp_failed (tr_replay (trace_run cs ?tr))" using f by (intro replay_failed_stays) simp_all
    moreover have "drop (unat ?i) (replay_events tr) = []"
      using False by (simp add: replay_events_def word_less_nat_alt)
    ultimately show ?thesis by (simp add: run)
  next
    case True
    then have i: "unat ?i < unat ?n" by (simp add: word_less_nat_alt)
    have d: "drop (unat ?i) (replay_events tr) = tr_replay_buffer tr ! unat ?i # drop (Suc (unat ?i)) (replay_events tr)"
      using i Cons.prems(4) by (simp add: replay_events_def Cons_nth_drop_Suc [symmetric])
    have key: "event_differs e' (tr_replay_buffer tr ! unat ?i) \<longleftrightarrow>
        call_key c \<noteq> event_key (tr_replay_buffer tr ! unat ?i)"
      if "e' = (call_event x c)\<lparr>ev_id := y, ev_timestamp := z\<rparr>" for e' x y z
      using that by (cases c) (auto simp: event_differs_def call_key_def event_key_def call_event_def)
    show ?thesis
    proof (cases "call_key c = event_key (tr_replay_buffer tr ! unat ?i)")
      case False
      then have "rp_failed (tr_replay ?tr)" using key True by (simp add: st replay_step_def Let_def)
      then have "rp_failed (tr_replay (trace_run cs ?tr))" using f by (intro replay_failed_stays) simp_all
      then show ?thesis using False d by (simp add: run)
    next
      case eq: True
      then have t: "rp_event_index (tr_replay ?tr) = ?i + 1" "\<not> rp_failed (tr_replay ?tr)"
        using key True Cons.prems(3) by (simp_all add: st replay_step_def Let_def)
      have i1: "unat (?i + 1) = Suc (unat ?i)"
        using i unsigned_less [of ?n, where 'a = nat] by (subst unat_add_no_wrap) simp_all
      have "?i + 1 \<le> ?n" using i i1 by (simp add: word_le_nat_alt)
      then have "\<not> rp_failed (tr_replay (trace_run cs ?tr)) \<and>
          rp_event_index (tr_replay (trace_run cs ?tr)) = rp_event_count (tr_replay (trace_run cs ?tr))
        \<longleftrightarrow> map call_key cs = map event_key (drop (unat (?i + 1)) (replay_events tr))"
        using Cons.IH [of ?tr] f t Cons.prems(4) by simp
      then show ?thesis using eq d i1 by (simp add: run)
    qed
  qed
qed

lemma trace_replay_end_verdict:
  assumes "trace_inv tr" and "rp_active (tr_replay tr)" and "\<not> rp_failed (tr_replay tr)"
    and "rp_event_index (tr_replay tr) = 0" and "\<not> tr_recording tr"
  shows "\<not> rp_failed (tr_replay (trace_replay_end (trace_run cs tr)))
    \<longleftrightarrow> map call_key cs = map event_key (replay_events tr)"
proof -
  have "rp_active (tr_replay (trace_run ds t))" if "rp_active (tr_replay t)" "\<not> tr_recording t" for ds t
    using that by (induction ds arbitrary: t) (simp_all add: trace_run_def call_step_replay_fields)
  then have "rp_active (tr_replay (trace_run cs tr))" using assms(2,5) by blast
  then show ?thesis
    using replay_run_verdict [OF assms(2,5,3), of cs] assms(1,4)
    by (simp add: trace_replay_end_def Let_def trace_inv_def)
qed

section \<open>Properties\<close>

text \<open>C27: the sequence hash detects corruption.  If the hashed bytes of two event sequences differ
  in exactly one byte, their hashes differ: the 64-bit multiplier is odd, so no later byte can
  make the hashes meet again.\<close>

theorem trace_hash_detects_byte_change:
  assumes "hashed_bytes xs = before @ a # after" and "hashed_bytes ys = before @ b # after" and "a \<noteq> b"
  shows "trace_hash_events xs (length xs) \<noteq> trace_hash_events ys (length ys)"
  using assms by (simp add: trace_hash_fnv fold_fnv_inj fnv_inj_byte)

theorem trace_hash_detects_byte_change_witness:
  "trace_hash_events [event_zero] 1 \<noteq> trace_hash_events [event_zero\<lparr>ev_data1 := 7\<rparr>] 1"
proof -
  have p: "put64 v = word_of_nat (unat v mod 256) # le_bytes 7 (unat v div 256)" for v
    using le_bytes.simps(2) [of 7 "unat v"] by (simp add: put64_def)
  let ?pre = "put64 0 @ put64 0 @ put64 0 @ put64 0 @ put64 0"
  have "hashed_bytes [event_zero] = ?pre @ 0 # le_bytes 7 0"
    using p [of 0] by (simp add: hashed_bytes_def event_bytes_def event_zero_def)
  moreover have "hashed_bytes [event_zero\<lparr>ev_data1 := 7\<rparr>] = ?pre @ 7 # le_bytes 7 0"
    using p [of 7] by (simp add: hashed_bytes_def event_bytes_def event_zero_def)
  ultimately show ?thesis
    using trace_hash_detects_byte_change [of "[event_zero]" ?pre 0 "le_bytes 7 0" "[event_zero\<lparr>ev_data1 := 7\<rparr>]" 7]
    by simp
qed

text \<open>C26: the recorder keeps the first 4096 calls in order, numbered consecutively, drops exactly the
  rest, and counts what it drops; with a workload profile, interrupt events are left out.\<close>

theorem trace_recording_log:
  assumes "trace_inv tr" and "\<not> rp_active (tr_replay tr)"
    and "tr' = trace_run cs (trace_start_profile p ticks tr)"
    and "log = call_log (tr_next_event_id tr) (filter (kept p) cs)"
  shows "recorded tr' = take TRACE_BUFFER_CAP log \<and>
    st_dropped (tr_stats tr') = st_dropped (tr_stats tr) + word_of_nat (length log - TRACE_BUFFER_CAP)"
proof -
  let ?t = "trace_start_profile p ticks tr"
  have "trace_inv ?t" "tr_recording ?t" "\<not> rp_active (tr_replay ?t)" "tr_current_profile ?t = p"
    "recorded ?t = []" "tr_next_event_id ?t = tr_next_event_id tr" "st_dropped (tr_stats ?t) = st_dropped (tr_stats tr)"
    using assms(1,2) by (simp_all add: trace_start_profile_def trace_inv_def recorded_def)
  then show ?thesis using trace_run_recording [of ?t p log cs] assms(3,4) by simp
qed

lemma trace_boot_inv: "trace_inv trace_boot" "\<not> rp_active (tr_replay trace_boot)"
  by (simp_all add: trace_inv_def trace_boot_def replay_zero_def)

theorem trace_recording_log_witness:
  "recorded (trace_run [(1, 1, 5, 0, 0), (6, 2, 6, 3, 4)] (trace_start_profile 1 5 trace_boot))
    = [\<lparr>ev_id = 1, ev_timestamp = 6, ev_pid = 2, ev_type = 6, ev_size = 40, ev_data0 = 3, ev_data1 = 4\<rparr>]"
  using trace_recording_log [OF trace_boot_inv refl refl, of "[(1, 1, 5, 0, 0), (6, 2, 6, 3, 4)]" 1 5]
  by (simp add: kept_def call_event_def trace_boot_def TRACE_EVENT_IRQ_def WORKLOAD_PROFILE_NONE_def
      TRACE_BUFFER_CAP_def EVENT_SIZE_def)

text \<open>C15: the replay verdict is exact.  After any sequence of calls, \<open>trace_replay_end\<close> reports
  success if and only if the calls carried, in order, exactly the process ids, types and data words
  of the stored session: no divergence, missing or additional event is accepted.\<close>

theorem trace_replay_verdict:
  assumes "trace_inv tr" and "rp_active (tr_replay tr)" and "\<not> rp_failed (tr_replay tr)"
    and "rp_event_index (tr_replay tr) = 0" and "\<not> tr_recording tr"
  shows "\<not> rp_failed (tr_replay (trace_replay_end (trace_run cs tr)))
    \<longleftrightarrow> map call_key cs = map event_key (replay_events tr)"
  by (rule trace_replay_end_verdict [OF assms])

definition demo_replay :: trace_state where
  "demo_replay = trace_boot\<lparr>tr_replay_buffer := (replicate TRACE_BUFFER_CAP event_zero)
       [0 := event_zero\<lparr>ev_pid := 3, ev_type := 6, ev_data0 := 9\<rparr>],
     tr_replay := replay_zero\<lparr>rp_active := True, rp_event_count := 1\<rparr>\<rparr>"

theorem trace_replay_verdict_witness:
  "\<not> rp_failed (tr_replay (trace_replay_end (trace_run [(6, 3, 77, 9, 0)] demo_replay))) \<and>
   rp_failed (tr_replay (trace_replay_end (trace_run [] demo_replay)))"
proof -
  have d: "trace_inv demo_replay" "rp_active (tr_replay demo_replay)" "\<not> rp_failed (tr_replay demo_replay)"
    "rp_event_index (tr_replay demo_replay) = 0" "\<not> tr_recording demo_replay"
    by (simp_all add: demo_replay_def trace_boot_def trace_inv_def replay_zero_def TRACE_BUFFER_CAP_def)
  have cap: "TRACE_BUFFER_CAP = Suc 4095" by (simp add: TRACE_BUFFER_CAP_def)
  have "replicate TRACE_BUFFER_CAP event_zero = event_zero # replicate 4095 event_zero"
    by (subst cap) (rule replicate_Suc)
  then have "map event_key (replay_events demo_replay) = [(3, 6, 9, 0)]"
    by (simp add: replay_events_def demo_replay_def replay_zero_def event_key_def) (simp add: event_zero_def)
  then show ?thesis
    using trace_replay_verdict [OF d, of "[(6, 3, 77, 9, 0)]"] trace_replay_verdict [OF d, of "[]"]
    by (simp add: call_key_def)
qed

end
