(* ===== verification/Replay.thy ===== *)
theory Replay
  imports Trace Fs_Correctness
begin

text \<open>
  Recording, storing and replaying together: what \<open>trace_stop\<close> hands to the filesystem is
  what \<open>trace_replay_begin\<close> loads, and the replay verdict is a verdict about the recorded
  calls.
\<close>

section \<open>Stored events\<close>

lemma take_put_events: "take (EVENT_SIZE * n) (put_events es) = put_events (take n es)"
proof (induction es arbitrary: n)
  case Nil
  then show ?case by (simp add: put_events_def)
next
  case (Cons e es)
  then show ?case by (cases n) (simp_all add: put_events_def)
qed

lemma take_get_events: "n \<le> m \<Longrightarrow> take n (get_events m bs) = get_events n bs"
proof (induction n arbitrary: m bs)
  case 0
  then show ?case by simp
next
  case (Suc n)
  then show ?case by (cases m) simp_all
qed

lemma length_get_events [simp]: "length (get_events n bs) = n"
  by (induction n arbitrary: bs) simp_all

lemma length_recorded: "trace_inv tr \<Longrightarrow> length (recorded tr) = unat (tr_current_events tr)"
  by (simp add: recorded_def trace_inv_def)

lemma trace_bytes:
  assumes "trace_inv tr"
  shows "unat (tr_current_events tr * word_of_nat EVENT_SIZE) = EVENT_SIZE * unat (tr_current_events tr)"
    and "tr_current_events tr * word_of_nat EVENT_SIZE div word_of_nat EVENT_SIZE = tr_current_events tr"
    and "unat (tr_current_events tr * word_of_nat EVENT_SIZE) \<le> 163840"
proof -
  have c: "unat (tr_current_events tr) \<le> 4096" using assms by (simp add: trace_inv_def TRACE_BUFFER_CAP_def)
  have e: "unat (word_of_nat EVENT_SIZE :: u32) = 40" by (simp add: EVENT_SIZE_def)
  have "unat (tr_current_events tr) * unat (word_of_nat EVENT_SIZE :: u32) < 2 ^ LENGTH(32)" using c e by simp
  then have "unat (tr_current_events tr * word_of_nat EVENT_SIZE)
    = unat (tr_current_events tr) * unat (word_of_nat EVENT_SIZE :: u32)"
    by (rule unat_mult_lem [THEN iffD1])
  then show u: "unat (tr_current_events tr * word_of_nat EVENT_SIZE) = EVENT_SIZE * unat (tr_current_events tr)"
    by (simp add: e EVENT_SIZE_def)
  show "unat (tr_current_events tr * word_of_nat EVENT_SIZE) \<le> 163840" using u c by (simp add: EVENT_SIZE_def)
  show "tr_current_events tr * word_of_nat EVENT_SIZE div word_of_nat EVENT_SIZE = tr_current_events tr"
    using u e by (simp only: word_unat_eq_iff unat_div) (simp add: EVENT_SIZE_def)
qed

definition stop_info :: "u64 \<Rightarrow> trace_state \<Rightarrow> trace_session_info" where
  "stop_info ticks tr = \<lparr>si_session_id = 0, si_size_bytes = tr_current_events tr * word_of_nat EVENT_SIZE,
     si_event_count = tr_current_events tr, si_profile_id = tr_current_profile tr,
     si_start_ticks = tr_record_start_ticks tr, si_duration_ticks = ticks - tr_record_start_ticks tr,
     si_sequence_hash = trace_hash_events (recorded tr) (length (recorded tr))\<rparr>"

lemma stop_info_eq:
  assumes "trace_inv tr"
  shows "\<lparr>si_session_id = 0, si_size_bytes = tr_current_events tr * word_of_nat EVENT_SIZE,
     si_event_count = tr_current_events tr, si_profile_id = tr_current_profile tr,
     si_start_ticks = tr_record_start_ticks tr, si_duration_ticks = ticks - tr_record_start_ticks tr,
     si_sequence_hash = trace_hash_events (tr_buffer tr) (unat (tr_current_events tr))\<rparr> = stop_info ticks tr"
  using length_recorded [OF assms] by (simp add: stop_info_def trace_hash_events_def recorded_def)

lemma trace_stop_writes:
  assumes "trace_inv tr" and "st_sessions (tr_stats tr) \<noteq> 0"
    and "fs_write_trace_session B (put_events (tr_buffer tr)) (tr_current_events tr * word_of_nat EVENT_SIZE)
      (Some (stop_info ticks tr)) fs = (Some sid, fs1)"
  shows "\<exists>tr1. trace_stop B ticks (tr, fs) = Some (tr1, fs1)"
  by (cases "st_sessions (tr_stats tr) > word_of_nat TRACE_SESSION_CAP")
    (simp_all add: trace_stop_def Let_def stop_info_eq [OF assms(1)] assms)

context reliable_block_device
begin

lemma stop_then_replay:
  assumes tr: "trace_inv tr" "trace_inv tr2" "st_sessions (tr_stats tr) \<noteq> 0"
    and fs: "fs_inv fs" "fs_online fs" "good (disk fs)" "\<exists>i \<in> set (inodes fs). i_used i = 0"
      "\<not> fs_no_room (sector_count_for (tr_current_events tr * word_of_nat EVENT_SIZE)) fs"
    and dsz: "6144 \<le> disk_size" "disk_size < 2 ^ 32"
  defines "sid \<equiv> sb_next_session_id (superblock fs)"
  shows "\<exists>tr1 fs1 tr3 fs3. trace_stop B ticks (tr, fs) = Some (tr1, fs1) \<and>
    trace_replay_begin B sid (tr2, fs1) = Some (True, tr3, fs3) \<and>
    replay_events tr3 = recorded tr \<and> trace_inv tr3 \<and> tr_recording tr3 = tr_recording tr2 \<and>
    rp_active (tr_replay tr3) \<and> \<not> rp_failed (tr_replay tr3) \<and> rp_event_index (tr_replay tr3) = 0 \<and>
    fs_sessions sec fs1 sid = Some (put_events (recorded tr)) \<and> si_profile_id (rp_info (tr_replay tr3)) = tr_current_profile tr \<and>
    rp_virtual_ticks (tr_replay tr3) = tr_record_start_ticks tr \<and>
    si_sequence_hash (rp_info (tr_replay tr3)) = trace_hash_events (recorded tr) (length (recorded tr))"
proof -
  let ?bytes = "tr_current_events tr * word_of_nat EVENT_SIZE :: u32" and ?data = "put_events (tr_buffer tr)"
  note sz = trace_bytes [OF tr(1)]
  have b: "unat ?bytes + 511 < 2 ^ 32" "unat ?bytes \<le> length ?data"
    using sz tr(1) by (simp_all add: trace_inv_def)
  have f: "take (unat ?bytes) ?data = put_events (recorded tr)"
    by (simp only: sz(1) take_put_events recorded_def)
  obtain fs1 where w: "fs_write_trace_session B ?data ?bytes (Some (stop_info ticks tr)) fs = (Some sid, fs1)"
    "good (disk fs1)" "fs_online fs1"
    using write_session_succeeds [OF fs(1) b fs(5,2,4,3) dsz] unfolding sid_def by blast
  have inv1: "fs_inv fs1" by (rule write_session_inv [OF fs(1) b(1) w(1)])
  have s1: "fs_sessions sec fs1 sid = Some (put_events (recorded tr))"
    using write_session_refines [OF fs(1) b w(1)] f by (auto simp: sid_def)
  obtain tr1 where stop: "trace_stop B ticks (tr, fs) = Some (tr1, fs1)"
    using trace_stop_writes [OF tr(1,3) w(1)] by blast
  have lf: "length (put_events (recorded tr)) \<le> length (put_events (tr_replay_buffer tr2))"
    using tr(2) length_recorded [OF tr(1)] tr(1) by (simp add: trace_inv_def)
  have wl: "word_of_nat (length (put_events (recorded tr))) = ?bytes"
  proof -
    have "length (put_events (recorded tr)) = unat ?bytes" using length_recorded [OF tr(1)] sz(1) by simp
    then show ?thesis by (simp only:) simp
  qed
  obtain d where rd: "fs_read_trace_session B sid (put_events (tr_replay_buffer tr2)) fs1
      = (Read_Ok ?bytes (put_events (recorded tr) @
          drop (length (put_events (recorded tr))) (put_events (tr_replay_buffer tr2))), fs1\<lparr>disk := d\<rparr>)"
    using read_session_refines [OF inv1 w(3,2) dsz s1 lf] wl by auto
  define tr3 where "tr3 = fst (snd (the (trace_replay_begin B sid (tr2, fs1))))"
  have rb: "trace_replay_begin B sid (tr2, fs1) = Some (True, tr3, fs1\<lparr>disk := d\<rparr>)"
    using rd by (simp add: trace_replay_begin_def tr3_def)
  let ?buf = "put_events (recorded tr) @ drop (length (put_events (recorded tr))) (put_events (tr_replay_buffer tr2))"
  have t3: "tr_replay_buffer tr3 = get_events TRACE_BUFFER_CAP ?buf"
    "rp_event_count (tr_replay tr3) = tr_current_events tr" "rp_active (tr_replay tr3)"
    "\<not> rp_failed (tr_replay tr3)" "rp_event_index (tr_replay tr3) = 0" "tr_recording tr3 = tr_recording tr2"
    "tr_buffer tr3 = tr_buffer tr2" "tr_sessions tr3 = tr_sessions tr2" "tr_current_events tr3 = tr_current_events tr2"
    "rp_info (tr_replay tr3) = replay_info sid (fs1\<lparr>disk := d\<rparr>)"
    "rp_virtual_ticks (tr_replay tr3) = si_start_ticks (replay_info sid (fs1\<lparr>disk := d\<rparr>))"
    using rd by (simp_all add: trace_replay_begin_def tr3_def sz(2))
  have same: "fs_get_trace_session_info sid (fs1\<lparr>disk := d\<rparr>) = fs_get_trace_session_info sid fs1"
    by (simp add: fs_get_trace_session_info_def fs_find_session_def split: option.split)
  have "fs_get_trace_session_info sid fs1
    = Some (inode_session_info (session_inode ?bytes (Some (stop_info ticks tr)) (superblock fs)))"
    by (rule write_session_info [OF fs(1) w(1)])
  then have info: "replay_info sid (fs1\<lparr>disk := d\<rparr>)
    = inode_session_info (session_inode ?bytes (Some (stop_info ticks tr)) (superblock fs))"
    by (simp add: replay_info_def same)
  have "unat (tr_current_events tr) \<le> TRACE_BUFFER_CAP" using tr(1) by (simp add: trace_inv_def)
  then have "replay_events tr3 = recorded tr"
    using take_get_events [of "unat (tr_current_events tr)" TRACE_BUFFER_CAP ?buf] length_recorded [OF tr(1)]
      get_put_events [of "recorded tr"]
    by (simp add: replay_events_def t3)
  moreover have "trace_inv tr3" using tr by (simp add: trace_inv_def t3)
  ultimately show ?thesis
    using stop rb t3 info s1
    by (simp add: inode_session_info_def session_inode_def stop_info_def)
qed

end

section \<open>Properties\<close>

text \<open>C2: recording, storing and replaying fit together.  On a working disk with room,
  \<open>trace_stop\<close> stores the recorded session, \<open>trace_replay_begin\<close> on its id loads exactly the
  recorded events with the stored start time and hash, and from then on a replay succeeds if and
  only if it repeats the recorded calls.\<close>

theorem recorded_session_replays:
  assumes "reliable_block_device B sec good n" and "6144 \<le> n" and "n < 2 ^ 32"
    and "trace_inv tr" and "trace_inv tr2" and "\<not> tr_recording tr2" and "st_sessions (tr_stats tr) \<noteq> 0"
    and "fs_inv fs" and "fs_online fs" and "good (disk fs)" and "\<exists>i \<in> set (inodes fs). i_used i = 0"
    and "\<not> fs_no_room (sector_count_for (tr_current_events tr * word_of_nat EVENT_SIZE)) fs"
  shows "\<exists>tr1 fs1 tr3 fs3. trace_stop B ticks (tr, fs) = Some (tr1, fs1) \<and>
    trace_replay_begin B (sb_next_session_id (superblock fs)) (tr2, fs1) = Some (True, tr3, fs3) \<and>
    rp_virtual_ticks (tr_replay tr3) = tr_record_start_ticks tr \<and>
    si_sequence_hash (rp_info (tr_replay tr3)) = trace_hash_events (recorded tr) (length (recorded tr)) \<and>
    (\<forall>cs. \<not> rp_failed (tr_replay (trace_replay_end (trace_run cs tr3)))
       \<longleftrightarrow> map call_key cs = map event_key (recorded tr))"
proof -
  obtain tr1 fs1 tr3 fs3 where r: "trace_stop B ticks (tr, fs) = Some (tr1, fs1)"
    "trace_replay_begin B (sb_next_session_id (superblock fs)) (tr2, fs1) = Some (True, tr3, fs3)"
    "replay_events tr3 = recorded tr" "trace_inv tr3" "tr_recording tr3 = tr_recording tr2"
    "rp_active (tr_replay tr3)" "\<not> rp_failed (tr_replay tr3)" "rp_event_index (tr_replay tr3) = 0"
    "rp_virtual_ticks (tr_replay tr3) = tr_record_start_ticks tr"
    "si_sequence_hash (rp_info (tr_replay tr3)) = trace_hash_events (recorded tr) (length (recorded tr))"
    using reliable_block_device.stop_then_replay [OF assms(1,4,5,7-12,2,3)] by blast
  have "\<not> rp_failed (tr_replay (trace_replay_end (trace_run cs tr3)))
       \<longleftrightarrow> map call_key cs = map event_key (recorded tr)" for cs
    using trace_replay_end_verdict [OF r(4,6,7,8)] r(3,5) assms(6) by simp
  with r show ?thesis by blast
qed

lemma demo_fs_slot: "\<exists>i \<in> set (inodes demo_fs). i_used i = 0"
  by (simp add: demo_fs_def FS_MAX_INODES_def inode_zero_ok)

theorem recorded_session_replays_witness:
  "\<exists>tr1 fs1 tr3 fs3. trace_stop (ata_blockdev emu_ports) 9 (trace_start 4 trace_boot, demo_fs) = Some (tr1, fs1) \<and>
     trace_replay_begin (ata_blockdev emu_ports) 1 (trace_boot, fs1) = Some (True, tr3, fs3) \<and>
     \<not> rp_failed (tr_replay (trace_replay_end (trace_run [] tr3)))"
proof -
  let ?tr = "trace_start 4 trace_boot"
  have inv: "trace_inv ?tr" "\<not> tr_recording trace_boot" "st_sessions (tr_stats ?tr) \<noteq> 0"
    "recorded ?tr = []" "tr_current_events ?tr = 0"
    by (simp_all add: trace_start_def trace_start_profile_def trace_boot_def trace_inv_def replay_zero_def
        stats_zero_def recorded_def)
  have room: "\<not> fs_no_room (sector_count_for (tr_current_events ?tr * word_of_nat EVENT_SIZE)) demo_fs"
    using inv(5) by (intro demo_fs_room) simp
  have "sb_next_session_id (superblock demo_fs) = 1" by (simp add: demo_fs_def formatted_super_def)
  then obtain tr1 fs1 tr3 fs3 where "trace_stop (ata_blockdev emu_ports) 9 (?tr, demo_fs) = Some (tr1, fs1)"
    "trace_replay_begin (ata_blockdev emu_ports) 1 (trace_boot, fs1) = Some (True, tr3, fs3)"
    "\<forall>cs. \<not> rp_failed (tr_replay (trace_replay_end (trace_run cs tr3))) \<longleftrightarrow> map call_key cs = map event_key (recorded ?tr)"
    using recorded_session_replays [OF emu_disk.reliable_block_device_axioms emu_disk_size inv(1) trace_boot_inv(1)
        inv(2,3) demo_fs_ok(1,3,2) demo_fs_slot room, of 9] by metis
  then show ?thesis using inv(4) by (metis list.simps(8))
qed

text \<open>\<open>trace_stop\<close> checks the session counter from above only.  If a stop is issued without a
  started session and the write succeeds, the kernel writes \<open>sessions[-1]\<close>.\<close>

theorem trace_stop_without_start:
  assumes "reliable_block_device B sec good n" and "6144 \<le> n" and "n < 2 ^ 32"
    and "trace_inv tr" and "st_sessions (tr_stats tr) = 0"
    and "fs_inv fs" and "fs_online fs" and "good (disk fs)" and "\<exists>i \<in> set (inodes fs). i_used i = 0"
    and "\<not> fs_no_room (sector_count_for (tr_current_events tr * word_of_nat EVENT_SIZE)) fs"
  shows "trace_stop B ticks (tr, fs) = None"
proof -
  note sz = trace_bytes [OF assms(4)]
  have b: "unat (tr_current_events tr * word_of_nat EVENT_SIZE :: u32) + 511 < 2 ^ 32"
    "unat (tr_current_events tr * word_of_nat EVENT_SIZE :: u32) \<le> length (put_events (tr_buffer tr))"
    using sz assms(4) by (simp_all add: trace_inv_def)
  obtain sid fs1 where "fs_write_trace_session B (put_events (tr_buffer tr))
      (tr_current_events tr * word_of_nat EVENT_SIZE) (Some (stop_info ticks tr)) fs = (Some sid, fs1)"
    using reliable_block_device.write_session_succeeds [OF assms(1,6) b assms(10,7,9,8,2,3)] by blast
  then show ?thesis
    by (simp add: trace_stop_def Let_def stop_info_eq [OF assms(4)] assms(5) TRACE_SESSION_CAP_def)
qed

theorem trace_stop_without_start_witness:
  "trace_stop (ata_blockdev emu_ports) 9 (trace_boot, demo_fs) = None"
proof -
  have "st_sessions (tr_stats trace_boot) = 0" "tr_current_events trace_boot = 0"
    by (simp_all add: trace_boot_def stats_zero_def)
  moreover from this have "\<not> fs_no_room (sector_count_for (tr_current_events trace_boot * word_of_nat EVENT_SIZE)) demo_fs"
    by (intro demo_fs_room) simp
  ultimately show ?thesis
    using trace_stop_without_start [OF emu_disk.reliable_block_device_axioms emu_disk_size trace_boot_inv(1) _
        demo_fs_ok(1,3,2) demo_fs_slot] by blast
qed

end
