(* ===== verification/Serial.thy ===== *)
theory Serial
  imports Fmt
begin

text \<open>
  The serial console of \<open>kernel/serial.c\<close>, as the characters that reach the transmit
  register.  \<open>serial_putc\<close> waits for the transmitter (hardware, not modelled) and sends one
  character; \<open>serial_write\<close> expands line ends, \<open>serial_printf\<close> does not.
\<close>

section \<open>Definitions\<close>

definition serial_putc :: "char \<Rightarrow> char list \<Rightarrow> char list" where
  "serial_putc c out = out @ [c]"

fun serial_write :: "char list \<Rightarrow> char list \<Rightarrow> char list" where
  "serial_write [] out = out"
| "serial_write (c # s) out =
     (if c = NUL then out
      else serial_write s (serial_putc c (if c = LF then serial_putc (CHR 0x0D) out else out)))"

definition serial_printf :: "char list \<Rightarrow> fmt_arg list \<Rightarrow> char list \<Rightarrow> char list option" where
  "serial_printf fmt args out = map_option (\<lambda>s. fold serial_putc s out) (fmt_vprintf fmt args)"

section \<open>Lemmas\<close>

definition crlf :: "char list \<Rightarrow> char list" where
  "crlf s = concat (map (\<lambda>c. if c = LF then [CHR 0x0D, LF] else [c]) s)"

lemma serial_write_eq: "serial_write s out = out @ crlf (c_str s)"
  by (induction s arbitrary: out) (simp_all add: serial_putc_def crlf_def c_str_def)

lemma fold_serial_putc: "fold serial_putc s out = out @ s"
  by (induction s arbitrary: out) (simp_all add: serial_putc_def)

end
