(* ===== verification/Kernel_State.thy ===== *)
theory Kernel_State
  imports Console Serial Trace Aspace
begin

text \<open>
  The state of the running kernel: one record with a field per component, and the operations
  that tie the recorder, the clock and the task table together (\<open>kernel/pit.c\<close>,
  \<open>trace_record\<close> of \<open>kernel/trace.c\<close>, the accessors of \<open>kernel/sched.c\<close>).  Queues and
  tables have the fields of the C structures; registers and stacks of a task are not modelled,
  its entry point is a name.
\<close>

section \<open>Task table\<close>

datatype task_run = Task_Empty | Task_Ready | Task_Running | Task_Zombie

datatype task_entry = Entry_None | Ping_Task | Ring3_Task | Ps_Task | Netstat_Task
  | Lifecycle_Child | Attack_Task | Sysload_Task | Fork_Stub_Task

record task =
  t_used :: bool
  t_state :: task_run
  t_pid :: u32
  t_parent_pid :: u32
  t_aspace_id :: u32
  t_name :: "char list"
  t_exec_path :: "char list"
  t_entry :: task_entry
  t_arg :: u64
  t_cpu_ticks :: u64
  t_yields :: u64
  t_event_count :: u64
  t_created_ticks :: u64
  t_exited_ticks :: u64

definition task_zero :: task where
  "task_zero = \<lparr>t_used = False, t_state = Task_Empty, t_pid = 0, t_parent_pid = 0, t_aspace_id = 0,
     t_name = replicate 24 NUL, t_exec_path = replicate 32 NUL, t_entry = Entry_None, t_arg = 0,
     t_cpu_ticks = 0, t_yields = 0, t_event_count = 0, t_created_ticks = 0, t_exited_ticks = 0\<rparr>"

record sched_state =
  tasks :: "task list"
  current_task :: nat
  next_pid :: u32
  resched_pending :: bool

section \<open>Input and power\<close>

record kbd_state =
  kb_buffer :: "char list"
  kb_head :: u32
  kb_tail :: u32
  kb_left_shift :: bool
  kb_right_shift :: bool
  kb_extended_prefix :: bool

record power_stats =
  pw_mode :: u32
  pw_pending_keys :: u32
  pw_pending_tx_packets :: u32
  pw_pending_tx_bytes :: u32
  pw_wakeups :: u64
  pw_keyboard_events :: u64
  pw_keyboard_coalesced :: u64
  pw_keyboard_flushes :: u64
  pw_net_tx_enqueued :: u64
  pw_net_tx_flushed :: u64
  pw_net_flushes :: u64
  pw_mode_switches :: u64

record power_state =
  p_mode :: u32
  p_keyboard_q :: "char list"
  p_keyboard_head :: nat
  p_keyboard_count :: nat
  p_ticks_since_flush :: u32
  p_stats :: power_stats

section \<open>Network files\<close>

record net_packet =
  np_packet_id :: u64
  np_ticks :: u64
  np_len :: u32
  np_data :: "u8 list"

record netfs_stats =
  ns_tx_packets :: u64
  ns_tx_bytes :: u64
  ns_rx_packets :: u64
  ns_rx_bytes :: u64
  ns_dropped_packets :: u64
  ns_queue_depth :: u32
  ns_loopback_enabled :: u32
  ns_last_packet_id :: u64

record netfs_state =
  rx_queue :: "net_packet list"
  tx_queue :: "net_packet list"
  rx_head :: nat
  rx_count :: nat
  tx_head :: nat
  tx_count :: nat
  tx_pending_bytes :: u32
  next_packet_id :: u64
  net_stats :: netfs_stats

section \<open>The kernel\<close>

record 'd kernel =
  k_con :: console_state
  k_ser :: "char list"
  k_vm :: vm
  k_trace :: trace_state
  k_fs :: "'d fs_state"
  k_ticks :: u64
  k_hz :: u32
  k_sched :: sched_state
  k_kbd :: kbd_state
  k_power :: power_state
  k_net :: netfs_state
  k_active_workloads :: u32

text \<open>The zero-initialised variables of the components, as the loader leaves them.\<close>

definition kbd_zero :: kbd_state where
  "kbd_zero = \<lparr>kb_buffer = replicate 256 NUL, kb_head = 0, kb_tail = 0, kb_left_shift = False,
     kb_right_shift = False, kb_extended_prefix = False\<rparr>"

definition power_stats_zero :: power_stats where
  "power_stats_zero = \<lparr>pw_mode = 0, pw_pending_keys = 0, pw_pending_tx_packets = 0, pw_pending_tx_bytes = 0,
     pw_wakeups = 0, pw_keyboard_events = 0, pw_keyboard_coalesced = 0, pw_keyboard_flushes = 0,
     pw_net_tx_enqueued = 0, pw_net_tx_flushed = 0, pw_net_flushes = 0, pw_mode_switches = 0\<rparr>"

definition power_zero :: power_state where
  "power_zero = \<lparr>p_mode = 0, p_keyboard_q = replicate 256 NUL, p_keyboard_head = 0, p_keyboard_count = 0,
     p_ticks_since_flush = 0, p_stats = power_stats_zero\<rparr>"

definition packet_zero :: net_packet where
  "packet_zero = \<lparr>np_packet_id = 0, np_ticks = 0, np_len = 0, np_data = replicate 256 0\<rparr>"

definition netfs_stats_zero :: netfs_stats where
  "netfs_stats_zero = \<lparr>ns_tx_packets = 0, ns_tx_bytes = 0, ns_rx_packets = 0, ns_rx_bytes = 0,
     ns_dropped_packets = 0, ns_queue_depth = 0, ns_loopback_enabled = 0, ns_last_packet_id = 0\<rparr>"

definition netfs_zero :: netfs_state where
  "netfs_zero = \<lparr>rx_queue = replicate 32 packet_zero, tx_queue = replicate 32 packet_zero, rx_head = 0,
     rx_count = 0, tx_head = 0, tx_count = 0, tx_pending_bytes = 0, next_packet_id = 0,
     net_stats = netfs_stats_zero\<rparr>"

definition sched_zero :: sched_state where
  "sched_zero = \<lparr>tasks = replicate 8 task_zero, current_task = 0, next_pid = 1, resched_pending = False\<rparr>"

definition kernel_bss :: "vm \<Rightarrow> 'd fs_state \<Rightarrow> 'd kernel" where
  "kernel_bss v fs = \<lparr>k_con = console_boot, k_ser = [], k_vm = v, k_trace = trace_boot, k_fs = fs,
     k_ticks = 0, k_hz = 0, k_sched = sched_zero, k_kbd = kbd_zero, k_power = power_zero,
     k_net = netfs_zero, k_active_workloads = 0\<rparr>"

subsection \<open>Clock\<close>

definition pit_ticks :: "'d kernel \<Rightarrow> u64" where
  "pit_ticks k =
     (if rp_active (tr_replay (k_trace k)) then rp_virtual_ticks (tr_replay (k_trace k)) else k_ticks k)"

definition pit_handle_tick :: "'d kernel \<Rightarrow> 'd kernel" where
  "pit_handle_tick k = k\<lparr>k_ticks := k_ticks k + 1\<rparr>"

definition pit_reset_ticks :: "'d kernel \<Rightarrow> 'd kernel" where
  "pit_reset_ticks k = k\<lparr>k_ticks := 0\<rparr>"

subsection \<open>Accessors of the task table\<close>

abbreviation cur_task :: "sched_state \<Rightarrow> task" where
  "cur_task s \<equiv> tasks s ! current_task s"

definition upd_task :: "nat \<Rightarrow> (task \<Rightarrow> task) \<Rightarrow> sched_state \<Rightarrow> sched_state" where
  "upd_task i f s = s\<lparr>tasks := (tasks s)[i := f (tasks s ! i)]\<rparr>"

definition sched_current_pid :: "'d kernel \<Rightarrow> u32" where
  "sched_current_pid k = t_pid (cur_task (k_sched k))"

definition sched_current_aspace :: "'d kernel \<Rightarrow> u32" where
  "sched_current_aspace k = t_aspace_id (cur_task (k_sched k))"

definition sched_set_current_event_count :: "u64 \<Rightarrow> 'd kernel \<Rightarrow> 'd kernel" where
  "sched_set_current_event_count events k =
     k\<lparr>k_sched := upd_task (current_task (k_sched k)) (\<lambda>t. t\<lparr>t_event_count := events\<rparr>) (k_sched k)\<rparr>"

subsection \<open>Recording an event\<close>

definition trace_record :: "u16 \<Rightarrow> u32 \<Rightarrow> u64 \<Rightarrow> u64 \<Rightarrow> 'd kernel \<Rightarrow> 'd kernel" where
  "trace_record ty pid data0 data1 k =
     (let pid' = (if pid = 0 then sched_current_pid k else pid);
          (tr, count) = trace_step ty pid' (pit_ticks k) data0 data1 (k_trace k);
          k1 = k\<lparr>k_trace := tr\<rparr>
      in case count of None \<Rightarrow> k1 | Some n \<Rightarrow> sched_set_current_event_count n k1)"

subsection \<open>Printing\<close>

definition console_printf :: "char list \<Rightarrow> fmt_arg list \<Rightarrow> console_state \<Rightarrow> console_state option" where
  "console_printf fmt args con = map_option (\<lambda>s. fold console_putc s con) (fmt_vprintf fmt args)"

text \<open>The pair \<open>console_printf(fmt, ...); serial_printf(fmt, ...);\<close>.\<close>

definition both_printf :: "char list \<Rightarrow> fmt_arg list \<Rightarrow> 'd kernel \<Rightarrow> 'd kernel option" where
  "both_printf fmt args k =
     (case (console_printf fmt args (k_con k), serial_printf fmt args (k_ser k)) of
        (Some con, Some ser) \<Rightarrow> Some (k\<lparr>k_con := con, k_ser := ser\<rparr>)
      | _ \<Rightarrow> None)"

definition both_write :: "char list \<Rightarrow> 'd kernel \<Rightarrow> 'd kernel" where
  "both_write s k = k\<lparr>k_con := console_write s (k_con k), k_ser := serial_write s (k_ser k)\<rparr>"

section \<open>Lemmas\<close>

lemma upd_task_fields [simp]:
  "length (tasks (upd_task i f s)) = length (tasks s)" "current_task (upd_task i f s) = current_task s"
  "next_pid (upd_task i f s) = next_pid s" "resched_pending (upd_task i f s) = resched_pending s"
  by (simp_all add: upd_task_def)

lemma nth_upd_task:
  "j < length (tasks s) \<Longrightarrow> tasks (upd_task i f s) ! j = (if j = i then f (tasks s ! j) else tasks s ! j)"
  by (simp add: upd_task_def nth_list_update)

text \<open>Recording touches the recorder and the event count of the running task, nothing else.\<close>

lemma trace_record_fields [simp]:
  "k_con (trace_record ty pid a b k) = k_con k" "k_ser (trace_record ty pid a b k) = k_ser k"
  "k_vm (trace_record ty pid a b k) = k_vm k" "k_fs (trace_record ty pid a b k) = k_fs k"
  "k_ticks (trace_record ty pid a b k) = k_ticks k" "k_kbd (trace_record ty pid a b k) = k_kbd k"
  "k_power (trace_record ty pid a b k) = k_power k" "k_net (trace_record ty pid a b k) = k_net k"
  by (simp_all add: trace_record_def Let_def sched_set_current_event_count_def split: prod.split option.split)

lemma trace_record_sched:
  "\<exists>n. k_sched (trace_record ty pid a b k)
     = upd_task (current_task (k_sched k)) (\<lambda>t. t\<lparr>t_event_count := n\<rparr>) (k_sched k)"
proof -
  let ?s = "k_sched k"
  have same: "?s = upd_task i (\<lambda>t. t\<lparr>t_event_count := t_event_count (tasks ?s ! i)\<rparr>) ?s" for i
    by (simp add: upd_task_def)
  obtain tr c where t: "trace_step ty (if pid = 0 then sched_current_pid k else pid) (pit_ticks k) a b (k_trace k) = (tr, c)"
    by fastforce
  show ?thesis
  proof (cases c)
    case None
    then have "k_sched (trace_record ty pid a b k) = ?s" using t by (simp add: trace_record_def Let_def)
    then show ?thesis using same by metis
  next
    case (Some n)
    then show ?thesis using t by (auto simp: trace_record_def Let_def sched_set_current_event_count_def)
  qed
qed

lemma trace_record_task:
  assumes "i < length (tasks (k_sched k))"
  shows "t_used (tasks (k_sched (trace_record ty pid a b k)) ! i) = t_used (tasks (k_sched k) ! i)"
    "t_state (tasks (k_sched (trace_record ty pid a b k)) ! i) = t_state (tasks (k_sched k) ! i)"
    "t_pid (tasks (k_sched (trace_record ty pid a b k)) ! i) = t_pid (tasks (k_sched k) ! i)"
    "t_aspace_id (tasks (k_sched (trace_record ty pid a b k)) ! i) = t_aspace_id (tasks (k_sched k) ! i)"
    "length (tasks (k_sched (trace_record ty pid a b k))) = length (tasks (k_sched k))"
    "current_task (k_sched (trace_record ty pid a b k)) = current_task (k_sched k)"
    "next_pid (k_sched (trace_record ty pid a b k)) = next_pid (k_sched k)"
    "resched_pending (k_sched (trace_record ty pid a b k)) = resched_pending (k_sched k)"
  using trace_record_sched [of ty pid a b k] assms by (auto simp: nth_upd_task split: if_splits)

end
