(* ===== verification/Sched.thy ===== *)
theory Sched
  imports Kernel_State
begin

text \<open>
  The scheduler of \<open>kernel/sched.c\<close>: eight tasks, a round-robin scan, spawning, exit and
  replay support.  \<open>switch_to\<close> is modelled up to the point where the stack is switched, so a
  scheduler operation is a function on the kernel state; \<open>None\<close> is an access outside the task
  table.
\<close>

section \<open>Definitions\<close>

definition MAX_TASKS :: nat where "MAX_TASKS = 8"

definition task_visible :: "task \<Rightarrow> bool" where
  "task_visible t \<longleftrightarrow> t_used t \<and> t_pid t > 0 \<and> t_pid t \<noteq> 0xffffffff \<and>
     t_state t \<in> {Task_Ready, Task_Running, Task_Zombie}"

definition find_next_ready :: "sched_state \<Rightarrow> nat option" where
  "find_next_ready s =
     find (\<lambda>idx. task_visible (tasks s ! idx) \<and> t_state (tasks s ! idx) = Task_Ready)
       (map (\<lambda>i. (current_task s + i) mod MAX_TASKS) [1..<Suc MAX_TASKS])"

definition switch_to :: "int \<Rightarrow> 'd kernel \<Rightarrow> 'd kernel option" where
  "switch_to next k =
     (let s = k_sched k; prev = current_task s in
      if next < 0 \<or> next = int prev then Some (k\<lparr>k_sched := s\<lparr>resched_pending := False\<rparr>\<rparr>)
      else if next \<ge> int MAX_TASKS then None
      else
        (let n = nat next;
             s1 = (if t_used (tasks s ! prev) \<and> t_state (tasks s ! prev) = Task_Running
                   then upd_task prev (\<lambda>t. t\<lparr>t_state := Task_Ready\<rparr>) s else s);
             s2 = (upd_task n (\<lambda>t. t\<lparr>t_state := Task_Running\<rparr>) s1)\<lparr>current_task := n, resched_pending := False\<rparr>;
             k1 = k\<lparr>k_sched := s2, k_vm := snd (aspace_switch (t_aspace_id (tasks s2 ! n)) (k_vm k))\<rparr>
         in Some (trace_record TRACE_EVENT_SCHED (t_pid (tasks s2 ! n)) (word_of_nat prev) (word_of_nat n) k1)))"

text \<open>\<open>task_exit\<close> up to the switch; without another ready task the processor is halted.\<close>

definition task_exit :: "'d kernel \<Rightarrow> 'd kernel option" where
  "task_exit k =
     (let s = k_sched k; cur = current_task s;
          k1 = k\<lparr>k_vm := snd (aspace_release (t_aspace_id (tasks s ! cur)) (k_vm k)),
                 k_sched := upd_task cur (\<lambda>t. t\<lparr>t_state := Task_Zombie, t_exited_ticks := t_cpu_ticks t\<rparr>) s\<rparr>
      in case find_next_ready (k_sched k1) of None \<Rightarrow> Some k1 | Some n \<Rightarrow> switch_to (int n) k1)"

definition sched_init :: "'d kernel \<Rightarrow> 'd kernel" where
  "sched_init k =
     (let s = k_sched k;
          t = task_zero\<lparr>t_used := True, t_state := Task_Running, t_pid := next_pid s, t_parent_pid := 0,
                t_aspace_id := kernel_aspace_id (k_vm k),
                t_name := memcpy (t_name task_zero) (''kernel-shell'' @ [NUL]) 13,
                t_exec_path := memcpy (t_exec_path task_zero) (''/bin/sh'' @ [NUL]) 8, t_created_ticks := 0\<rparr>
      in k\<lparr>k_sched := s\<lparr>tasks := (replicate MAX_TASKS task_zero)[0 := t], next_pid := next_pid s + 1,
             current_task := 0\<rparr>\<rparr>)"

text \<open>The name field: at most 23 characters of the given name, terminated.\<close>

definition copy_task_name :: "char list option \<Rightarrow> char list" where
  "copy_task_name name =
     (case name of
        None \<Rightarrow> t_name task_zero
      | Some n \<Rightarrow>
          (let len = (if strlen n \<ge> 24 then 23 else strlen n)
           in (memcpy (t_name task_zero) n len)[len := NUL]))"

definition spawn_slot_free :: "task \<Rightarrow> bool" where
  "spawn_slot_free t \<longleftrightarrow> \<not> (task_visible t \<and> t_state t \<noteq> Task_Zombie)"

text \<open>Result \<open>None\<close> is the return value -1.\<close>

definition sched_spawn_with_parent_aspace ::
  "char list option \<Rightarrow> task_entry \<Rightarrow> u64 \<Rightarrow> u32 \<Rightarrow> u32 \<Rightarrow> 'd kernel \<Rightarrow> u32 option \<times> 'd kernel" where
  "sched_spawn_with_parent_aspace name entry arg parent_pid aspace_id k =
     (let s = k_sched k in
      case find_index spawn_slot_free (drop 1 (tasks s)) of
        None \<Rightarrow> (None, k)
      | Some j \<Rightarrow>
          (let i = Suc j; (ok, v) = aspace_retain aspace_id (k_vm k) in
           if \<not> ok then (None, k\<lparr>k_vm := v\<rparr>)
           else
             (let pid = next_pid s;
                  t = task_zero\<lparr>t_used := True, t_state := Task_Ready, t_pid := pid, t_parent_pid := parent_pid,
                        t_aspace_id := aspace_id, t_entry := entry, t_arg := arg,
                        t_created_ticks := (if current_task s = i then 0 else t_cpu_ticks (cur_task s)), t_name := copy_task_name name,
                        t_exec_path := memcpy (t_exec_path task_zero) (''[kernel-task]'' @ [NUL]) 14\<rparr>
              in (Some pid,
                  k\<lparr>k_vm := v, k_sched := s\<lparr>tasks := (tasks s)[i := t], next_pid := pid + 1\<rparr>\<rparr>))))"

definition sched_spawn_with_parent ::
  "char list option \<Rightarrow> task_entry \<Rightarrow> u64 \<Rightarrow> u32 \<Rightarrow> 'd kernel \<Rightarrow> u32 option \<times> 'd kernel" where
  "sched_spawn_with_parent name entry arg parent_pid k =
     (let (aspace_id, v) = aspace_fork_clone (t_aspace_id (cur_task (k_sched k))) (k_vm k);
          k1 = k\<lparr>k_vm := v\<rparr>
      in if aspace_id = 0 then (None, k1)
         else
           (let (pid, k2) = sched_spawn_with_parent_aspace name entry arg parent_pid aspace_id k1
            in (pid, k2\<lparr>k_vm := snd (aspace_release aspace_id (k_vm k2))\<rparr>)))"

definition sched_spawn :: "char list option \<Rightarrow> task_entry \<Rightarrow> u64 \<Rightarrow> 'd kernel \<Rightarrow> u32 option \<times> 'd kernel" where
  "sched_spawn name entry arg k = sched_spawn_with_parent name entry arg (sched_current_pid k) k"

definition sched_tick :: "'d kernel \<Rightarrow> 'd kernel" where
  "sched_tick k =
     (let s = k_sched k;
          s1 = upd_task (current_task s) (\<lambda>t. t\<lparr>t_cpu_ticks := t_cpu_ticks t + 1\<rparr>) s
      in k\<lparr>k_sched := (if t_cpu_ticks (cur_task s1) mod 5 = 0 then s1\<lparr>resched_pending := True\<rparr> else s1)\<rparr>)"

text \<open>
  In a replay the recorded event names the next task: \<open>(int)event->data1\<close>, the low half of the
  word as a signed number.
\<close>

definition next_task :: "'d kernel \<Rightarrow> int" where
  "next_task k =
     (let scan = (case find_next_ready (k_sched k) of None \<Rightarrow> -1 | Some n \<Rightarrow> int n) in
      if rp_active (tr_replay (k_trace k))
      then (case trace_replay_expected_next_task (k_trace k) of
              None \<Rightarrow> scan
            | Some w \<Rightarrow> sint (ucast w :: u32))
      else scan)"

definition sched_yield :: "'d kernel \<Rightarrow> 'd kernel option" where
  "sched_yield k =
     (let s = k_sched k;
          k1 = k\<lparr>k_sched := upd_task (current_task s) (\<lambda>t. t\<lparr>t_yields := t_yields t + 1\<rparr>) s\<rparr>;
          next = next_task k1
      in if next \<ge> 0 then switch_to next k1
         else Some (k1\<lparr>k_sched := (k_sched k1)\<lparr>resched_pending := False\<rparr>\<rparr>))"

definition sched_has_ready :: "'d kernel \<Rightarrow> bool" where
  "sched_has_ready k \<longleftrightarrow> find_next_ready (k_sched k) \<noteq> None"

definition sched_prepare_replay :: "'d kernel \<Rightarrow> 'd kernel" where
  "sched_prepare_replay k =
     (let s = k_sched k;
          clear = (\<lambda>t. if task_visible t \<and> t_state t = Task_Zombie then task_zero else t)
      in k\<lparr>k_sched := s\<lparr>tasks := take 1 (tasks s) @ map clear (drop 1 (tasks s)), next_pid := 2\<rparr>\<rparr>)"

definition sched_snapshot :: "nat \<Rightarrow> 'd kernel \<Rightarrow> task list" where
  "sched_snapshot max_entries k = take max_entries (filter task_visible (tasks (k_sched k)))"

definition sched_state_name :: "task_run \<Rightarrow> char list" where
  "sched_state_name st = (case st of Task_Ready \<Rightarrow> ''ready'' | Task_Running \<Rightarrow> ''running''
     | Task_Zombie \<Rightarrow> ''zombie'' | Task_Empty \<Rightarrow> ''empty'')"

definition find_pid :: "u32 \<Rightarrow> sched_state \<Rightarrow> nat option" where
  "find_pid pid s = find_index (\<lambda>t. task_visible t \<and> t_pid t = pid) (tasks s)"

definition sched_task_state :: "u32 \<Rightarrow> 'd kernel \<Rightarrow> task_run option" where
  "sched_task_state pid k = map_option (\<lambda>i. t_state (tasks (k_sched k) ! i)) (find_pid pid (k_sched k))"

definition sched_task_parent :: "u32 \<Rightarrow> 'd kernel \<Rightarrow> u32 option" where
  "sched_task_parent pid k = map_option (\<lambda>i. t_parent_pid (tasks (k_sched k) ! i)) (find_pid pid (k_sched k))"

definition sched_task_set_exec :: "u32 \<Rightarrow> char list option \<Rightarrow> 'd kernel \<Rightarrow> bool \<times> 'd kernel" where
  "sched_task_set_exec pid exec_path k =
     (case find_pid pid (k_sched k) of
        None \<Rightarrow> (False, k)
      | Some i \<Rightarrow>
          (let len0 = (case exec_path of None \<Rightarrow> 0 | Some p \<Rightarrow> strlen p);
               len = (if len0 \<ge> 32 then 31 else len0);
               zero = memset (t_exec_path (tasks (k_sched k) ! i)) NUL 32;
               path = (case exec_path of None \<Rightarrow> zero | Some p \<Rightarrow> if len = 0 then zero else memcpy zero p len)
           in (True, k\<lparr>k_sched := upd_task i (\<lambda>t. t\<lparr>t_exec_path := path\<rparr>) (k_sched k)\<rparr>)))"

definition sched_task_set_aspace :: "u32 \<Rightarrow> u32 \<Rightarrow> 'd kernel \<Rightarrow> bool \<times> 'd kernel" where
  "sched_task_set_aspace pid aspace_id k =
     (case find_pid pid (k_sched k) of
        None \<Rightarrow> (False, k)
      | Some i \<Rightarrow>
          (let old = t_aspace_id (tasks (k_sched k) ! i) in
           if old = aspace_id then (True, k)
           else
             (let (ok, v) = aspace_retain aspace_id (k_vm k) in
              if \<not> ok then (False, k\<lparr>k_vm := v\<rparr>)
              else (True, k\<lparr>k_vm := snd (aspace_release old v),
                      k_sched := upd_task i (\<lambda>t. t\<lparr>t_aspace_id := aspace_id\<rparr>) (k_sched k)\<rparr>))))"

text \<open>
  The yield loop of \<open>sched_wait_until_idle\<close>, for a caller that is resumed when the others have
  run: \<open>step\<close> is one \<open>sched_yield\<close> followed by whatever the other tasks do before the caller
  runs again.  The loop gives up after 100000 rounds.
\<close>

fun sched_wait_loop :: "('d kernel \<Rightarrow> 'd kernel) \<Rightarrow> nat \<Rightarrow> 'd kernel \<Rightarrow> bool \<times> 'd kernel" where
  "sched_wait_loop step 0 k = (False, k)"
| "sched_wait_loop step (Suc n) k =
     (if \<not> sched_has_ready k then (True, k)
      else sched_wait_loop step n (step k))"

definition sched_wait_until_idle :: "('d kernel \<Rightarrow> 'd kernel) \<Rightarrow> 'd kernel \<Rightarrow> bool \<times> 'd kernel" where
  "sched_wait_until_idle step k = sched_wait_loop step 100001 k"

section \<open>Invariant\<close>

definition sched_inv :: "sched_state \<Rightarrow> bool" where
  "sched_inv s \<longleftrightarrow> length (tasks s) = MAX_TASKS \<and> current_task s < MAX_TASKS \<and>
     task_visible (cur_task s) \<and>
     (\<forall>i < MAX_TASKS. t_state (tasks s ! i) = Task_Running \<longleftrightarrow> i = current_task s) \<and>
     (\<forall>i < MAX_TASKS. task_visible (tasks s ! i) \<longrightarrow> t_pid (tasks s ! i) < next_pid s) \<and>
     (\<forall>i < MAX_TASKS. \<forall>j < MAX_TASKS. task_visible (tasks s ! i) \<and> task_visible (tasks s ! j) \<and>
        t_pid (tasks s ! i) = t_pid (tasks s ! j) \<longrightarrow> i = j)"

definition task_ready :: "sched_state \<Rightarrow> nat \<Rightarrow> bool" where
  "task_ready s i \<longleftrightarrow> task_visible (tasks s ! i) \<and> t_state (tasks s ! i) = Task_Ready"

text \<open>The distance from the running task to task \<open>i\<close> in scan order, between 1 and 8.\<close>

definition scan_dist :: "nat \<Rightarrow> nat \<Rightarrow> nat" where
  "scan_dist cur i = (if cur < i then i - cur else i + MAX_TASKS - cur)"

lemma scan_dist_range: "cur < MAX_TASKS \<Longrightarrow> i < MAX_TASKS \<Longrightarrow> 1 \<le> scan_dist cur i \<and> scan_dist cur i \<le> MAX_TASKS"
  by (auto simp: scan_dist_def)

lemma scan_dist_eq:
  assumes "cur < MAX_TASKS" and "1 \<le> d" and "d \<le> MAX_TASKS" and "i < MAX_TASKS"
  shows "(cur + d) mod MAX_TASKS = i \<longleftrightarrow> scan_dist cur i = d"
proof (cases "cur + d < MAX_TASKS")
  case True
  then show ?thesis using assms by (auto simp: scan_dist_def)
next
  case False
  then have "(cur + d) mod MAX_TASKS = cur + d - MAX_TASKS"
    using assms by (simp add: mod_if)
  then show ?thesis using assms False by (auto simp: scan_dist_def)
qed

lemma find_next_ready_Some:
  assumes cur: "current_task s < MAX_TASKS"
  shows "find_next_ready s = Some n \<longleftrightarrow> n < MAX_TASKS \<and> task_ready s n \<and>
    (\<forall>i < MAX_TASKS. task_ready s i \<longrightarrow> scan_dist (current_task s) n \<le> scan_dist (current_task s) i)"
    (is "?l \<longleftrightarrow> ?r")
proof
  let ?c = "current_task s"
  assume ?l
  then obtain j where j: "j < MAX_TASKS" "n = (?c + Suc j) mod MAX_TASKS" "task_ready s n"
    "\<And>i. i < j \<Longrightarrow> \<not> task_ready s ((?c + Suc i) mod MAX_TASKS)"
    by (auto simp: find_next_ready_def find_Some_iff task_ready_def MAX_TASKS_def simp del: upt_Suc)
  have n: "n < MAX_TASKS" using j(2) by (simp add: MAX_TASKS_def)
  have dn: "scan_dist ?c n = Suc j" using scan_dist_eq [OF cur _ _ n, of "Suc j"] j by simp
  have "Suc j \<le> scan_dist ?c i" if i: "i < MAX_TASKS" "task_ready s i" for i
  proof (rule ccontr)
    assume "\<not> Suc j \<le> scan_dist ?c i"
    then obtain e where e: "scan_dist ?c i = Suc e" "e < j"
      using scan_dist_range [OF cur i(1)] by (cases "scan_dist ?c i") auto
    then have "(?c + Suc e) mod MAX_TASKS = i" using scan_dist_eq [OF cur _ _ i(1), of "Suc e"] j(1) by simp
    with j(4) [OF e(2)] i(2) show False by simp
  qed
  with n j(3) dn show ?r by simp
next
  let ?c = "current_task s"
  assume r: ?r
  define d where "d = scan_dist ?c n"
  have d: "1 \<le> d" "d \<le> MAX_TASKS" using scan_dist_range [OF cur] r by (simp_all add: d_def)
  have dn: "(?c + d) mod MAX_TASKS = n" using scan_dist_eq [OF cur d] r by (simp add: d_def)
  have "\<not> task_ready s ((?c + Suc i) mod MAX_TASKS)" if "i < d - 1" for i
  proof
    assume a: "task_ready s ((?c + Suc i) mod MAX_TASKS)"
    have m: "(?c + Suc i) mod MAX_TASKS < MAX_TASKS" by (simp add: MAX_TASKS_def)
    have "scan_dist ?c ((?c + Suc i) mod MAX_TASKS) = Suc i"
      using scan_dist_eq [OF cur _ _ m, of "Suc i"] that d by simp
    moreover have "d \<le> scan_dist ?c ((?c + Suc i) mod MAX_TASKS)" using r a m by (simp add: d_def)
    ultimately show False using that by simp
  qed
  then show ?l
    unfolding find_next_ready_def find_Some_iff using d dn r
    by (intro exI [of _ "d - 1"]) (auto simp: task_ready_def simp del: upt_Suc)
qed

lemma find_next_ready_None:
  assumes cur: "current_task s < MAX_TASKS"
  shows "find_next_ready s = None \<longleftrightarrow> (\<forall>i < MAX_TASKS. \<not> task_ready s i)"
proof -
  let ?c = "current_task s"
  have "(\<forall>j < MAX_TASKS. \<not> task_ready s ((?c + Suc j) mod MAX_TASKS)) \<longleftrightarrow> (\<forall>i < MAX_TASKS. \<not> task_ready s i)"
  proof (intro iffI allI impI)
    fix i assume a: "\<forall>j < MAX_TASKS. \<not> task_ready s ((?c + Suc j) mod MAX_TASKS)" and i: "i < MAX_TASKS"
    obtain e where e: "scan_dist ?c i = Suc e" "e < MAX_TASKS"
      using scan_dist_range [OF cur i] by (cases "scan_dist ?c i") auto
    then have "(?c + Suc e) mod MAX_TASKS = i" using scan_dist_eq [OF cur _ _ i, of "Suc e"] by simp
    with a e(2) show "\<not> task_ready s i" by metis
  qed (simp add: MAX_TASKS_def)
  moreover have "map (\<lambda>i. (?c + i) mod MAX_TASKS) [1..<Suc MAX_TASKS]
    = map (\<lambda>j. (?c + Suc j) mod MAX_TASKS) [0..<MAX_TASKS]"
    by (simp only: One_nat_def map_Suc_upt [symmetric] map_map comp_def)
  ultimately show ?thesis
    unfolding find_next_ready_def find_None_iff by (auto simp: task_ready_def)
qed

section \<open>Switching and yielding\<close>

text \<open>Bookkeeping fields (ticks, yields, event counts) do not matter to the scheduler.\<close>

definition bookkeeping :: "(task \<Rightarrow> task) \<Rightarrow> bool" where
  "bookkeeping f \<longleftrightarrow> (\<forall>t. t_used (f t) = t_used t \<and> t_state (f t) = t_state t \<and> t_pid (f t) = t_pid t \<and>
     t_aspace_id (f t) = t_aspace_id t)"

lemma bookkeeping_updates [simp]:
  "bookkeeping (\<lambda>t. t\<lparr>t_event_count := n\<rparr>)" "bookkeeping (\<lambda>t. t\<lparr>t_yields := t_yields t + 1\<rparr>)"
  "bookkeeping (\<lambda>t. t\<lparr>t_cpu_ticks := t_cpu_ticks t + 1\<rparr>)" "bookkeeping (\<lambda>t. t\<lparr>t_exec_path := p\<rparr>)"
  by (simp_all add: bookkeeping_def)

lemma bookkeeping_task:
  assumes "bookkeeping f"
  shows "task_visible (tasks (upd_task i f s) ! j) = task_visible (tasks s ! j)"
    "t_state (tasks (upd_task i f s) ! j) = t_state (tasks s ! j)"
    "t_pid (tasks (upd_task i f s) ! j) = t_pid (tasks s ! j)"
    "t_used (tasks (upd_task i f s) ! j) = t_used (tasks s ! j)"
    "t_aspace_id (tasks (upd_task i f s) ! j) = t_aspace_id (tasks s ! j)"
proof -
  have n: "tasks (upd_task i f s) ! j = (if i = j \<and> i < length (tasks s) then f (tasks s ! j) else tasks s ! j)"
    by (cases "i < length (tasks s)"; cases "i = j") (simp_all add: upd_task_def not_less list_update_beyond)
  have f: "t_used (f t) = t_used t" "t_state (f t) = t_state t" "t_pid (f t) = t_pid t" "t_aspace_id (f t) = t_aspace_id t" for t
    using assms by (simp_all add: bookkeeping_def)
  show "task_visible (tasks (upd_task i f s) ! j) = task_visible (tasks s ! j)"
    "t_state (tasks (upd_task i f s) ! j) = t_state (tasks s ! j)"
    "t_pid (tasks (upd_task i f s) ! j) = t_pid (tasks s ! j)"
    "t_used (tasks (upd_task i f s) ! j) = t_used (tasks s ! j)"
    "t_aspace_id (tasks (upd_task i f s) ! j) = t_aspace_id (tasks s ! j)"
    by (simp_all add: n f task_visible_def)
qed

lemma bookkeeping_sched:
  assumes "bookkeeping f"
  shows "sched_inv (upd_task i f s) = sched_inv s" "task_ready (upd_task i f s) j = task_ready s j"
    "find_next_ready (upd_task i f s) = find_next_ready s"
  using bookkeeping_task [OF assms]
  by (simp_all add: sched_inv_def task_ready_def find_next_ready_def)

lemma sched_inv_pending [simp]: "sched_inv (s\<lparr>resched_pending := b\<rparr>) = sched_inv s"
  "task_ready (s\<lparr>resched_pending := b\<rparr>) = task_ready s"
  by (simp_all add: sched_inv_def task_ready_def fun_eq_iff)

lemma trace_record_sched_same:
  "sched_inv (k_sched (trace_record ty pid a b k)) = sched_inv (k_sched k)"
  "task_ready (k_sched (trace_record ty pid a b k)) i = task_ready (k_sched k) i"
  "current_task (k_sched (trace_record ty pid a b k)) = current_task (k_sched k)"
  "next_pid (k_sched (trace_record ty pid a b k)) = next_pid (k_sched k)"
proof -
  obtain n where n: "k_sched (trace_record ty pid a b k)
     = upd_task (current_task (k_sched k)) (\<lambda>t. t\<lparr>t_event_count := n\<rparr>) (k_sched k)"
    using trace_record_sched by blast
  show "sched_inv (k_sched (trace_record ty pid a b k)) = sched_inv (k_sched k)"
    "task_ready (k_sched (trace_record ty pid a b k)) i = task_ready (k_sched k) i"
    "current_task (k_sched (trace_record ty pid a b k)) = current_task (k_sched k)"
    "next_pid (k_sched (trace_record ty pid a b k)) = next_pid (k_sched k)"
    by (simp_all add: n bookkeeping_sched)
qed

lemma trace_record_no_replay:
  "\<not> rp_active (tr_replay (k_trace k)) \<Longrightarrow> \<not> rp_active (tr_replay (k_trace (trace_record ty pid a b k)))"
  by (auto simp: trace_record_def Let_def trace_step_def record_step_def sched_set_current_event_count_def
      split: prod.splits option.splits if_splits)

definition switch_tasks :: "nat \<Rightarrow> sched_state \<Rightarrow> sched_state" where
  "switch_tasks n s =
     (let prev = current_task s;
          s1 = (if t_used (tasks s ! prev) \<and> t_state (tasks s ! prev) = Task_Running
                then upd_task prev (\<lambda>t. t\<lparr>t_state := Task_Ready\<rparr>) s else s)
      in (upd_task n (\<lambda>t. t\<lparr>t_state := Task_Running\<rparr>) s1)\<lparr>current_task := n, resched_pending := False\<rparr>)"

lemma switch_to_eq:
  assumes "n < MAX_TASKS" and "n \<noteq> current_task (k_sched k)"
  shows "switch_to (int n) k = Some (trace_record TRACE_EVENT_SCHED (t_pid (tasks (switch_tasks n (k_sched k)) ! n))
    (word_of_nat (current_task (k_sched k))) (word_of_nat n)
    (k\<lparr>k_sched := switch_tasks n (k_sched k),
       k_vm := snd (aspace_switch (t_aspace_id (tasks (switch_tasks n (k_sched k)) ! n)) (k_vm k))\<rparr>))"
  using assms by (simp add: switch_to_def switch_tasks_def Let_def)

lemma switch_tasks_nth:
  assumes "i < length (tasks s)"
  shows "tasks (switch_tasks n s) ! i =
    (if i = n then (tasks s ! i)\<lparr>t_state := Task_Running\<rparr>
     else if i = current_task s \<and> t_used (tasks s ! i) \<and> t_state (tasks s ! i) = Task_Running
     then (tasks s ! i)\<lparr>t_state := Task_Ready\<rparr> else tasks s ! i)"
  using assms by (auto simp: switch_tasks_def Let_def nth_upd_task)

lemma switch_tasks_inv:
  assumes inv: "sched_inv s" and n: "n < MAX_TASKS" "task_ready s n"
  shows "sched_inv (switch_tasks n s)" "current_task (switch_tasks n s) = n"
    "i < MAX_TASKS \<Longrightarrow> task_ready (switch_tasks n s) i \<longleftrightarrow> i \<noteq> n \<and> (task_ready s i \<or> i = current_task s)"
proof -
  have len: "length (tasks s) = MAX_TASKS" and cur: "current_task s < MAX_TASKS" "task_visible (cur_task s)"
    and run: "\<And>i. i < MAX_TASKS \<Longrightarrow> t_state (tasks s ! i) = Task_Running \<longleftrightarrow> i = current_task s"
    using inv by (simp_all add: sched_inv_def)
  have nc: "n \<noteq> current_task s" using n run [of n] by (auto simp: task_ready_def)
  have used: "t_used (cur_task s)" using cur(2) by (simp add: task_visible_def)
  have nth: "tasks (switch_tasks n s) ! i =
    (if i = n then (tasks s ! i)\<lparr>t_state := Task_Running\<rparr>
     else if i = current_task s then (tasks s ! i)\<lparr>t_state := Task_Ready\<rparr> else tasks s ! i)"
    if "i < MAX_TASKS" for i
    using switch_tasks_nth [of i s n] that len run [OF that] used by auto
  have vis: "task_visible (tasks (switch_tasks n s) ! i) = task_visible (tasks s ! i)"
      "t_pid (tasks (switch_tasks n s) ! i) = t_pid (tasks s ! i)" if "i < MAX_TASKS" for i
    using nth [OF that] n(2) cur(2) run [OF that] by (auto simp: task_visible_def task_ready_def)
  show c: "current_task (switch_tasks n s) = n" by (simp add: switch_tasks_def Let_def)
  have "length (tasks (switch_tasks n s)) = MAX_TASKS" "next_pid (switch_tasks n s) = next_pid s"
    using len by (simp_all add: switch_tasks_def Let_def)
  moreover have "t_state (tasks (switch_tasks n s) ! i) = Task_Running \<longleftrightarrow> i = n" if "i < MAX_TASKS" for i
    using nth [OF that] run [OF that] by auto
  ultimately show "sched_inv (switch_tasks n s)"
    using inv n vis unfolding sched_inv_def c by (simp add: task_ready_def)
  show "i < MAX_TASKS \<Longrightarrow> task_ready (switch_tasks n s) i \<longleftrightarrow> i \<noteq> n \<and> (task_ready s i \<or> i = current_task s)"
    using nth [of i] vis [of i] cur(2) by (auto simp: task_ready_def)
qed

lemma yield_step:
  assumes inv: "sched_inv (k_sched k)" and rp: "\<not> rp_active (tr_replay (k_trace k))"
  defines "s \<equiv> k_sched k"
  shows "\<exists>k'. sched_yield k = Some k' \<and> sched_inv (k_sched k') \<and> \<not> rp_active (tr_replay (k_trace k')) \<and>
    current_task (k_sched k') = (case find_next_ready s of None \<Rightarrow> current_task s | Some n \<Rightarrow> n) \<and>
    (\<forall>i < MAX_TASKS. task_ready (k_sched k') i \<longleftrightarrow>
       i \<noteq> current_task (k_sched k') \<and> (task_ready s i \<or> i = current_task s))"
proof -
  define k1 where "k1 = k\<lparr>k_sched := upd_task (current_task s) (\<lambda>t. t\<lparr>t_yields := t_yields t + 1\<rparr>) s\<rparr>"
  have s1: "sched_inv (k_sched k1)" "find_next_ready (k_sched k1) = find_next_ready s"
    "task_ready (k_sched k1) i = task_ready s i" "current_task (k_sched k1) = current_task s" for i
    using inv by (simp_all add: k1_def s_def bookkeeping_sched)
  have rp1: "\<not> rp_active (tr_replay (k_trace k1))" using rp by (simp add: k1_def)
  have cur: "current_task s < MAX_TASKS" "\<not> task_ready s (current_task s)"
    using inv by (auto simp: sched_inv_def s_def task_ready_def)
  show ?thesis
  proof (cases "find_next_ready s")
    case None
    then have "sched_yield k = Some (k1\<lparr>k_sched := (k_sched k1)\<lparr>resched_pending := False\<rparr>\<rparr>)"
      using s1(2) rp1 by (simp add: sched_yield_def Let_def next_task_def k1_def s_def)
    moreover have "\<not> task_ready s i" if "i < MAX_TASKS" for i
      using None find_next_ready_None [OF cur(1)] that by blast
    ultimately show ?thesis using s1 rp1 None cur by auto
  next
    case (Some n)
    then have n: "n < MAX_TASKS" "task_ready s n" using find_next_ready_Some [OF cur(1)] by blast+
    then have nc: "n \<noteq> current_task (k_sched k1)" using cur(2) s1(4) by auto
    have y: "sched_yield k = switch_to (int n) k1"
      using Some s1(2) rp1 by (simp add: sched_yield_def Let_def next_task_def k1_def s_def)
    note sw = switch_tasks_inv [OF s1(1) n(1) n(2) [folded s1(3)]]
    show ?thesis
      unfolding y switch_to_eq [OF n(1) nc] using sw s1 rp1 Some
      by (simp add: trace_record_sched_same trace_record_no_replay)
  qed
qed

text \<open>Repeated yields.\<close>

fun yields :: "nat \<Rightarrow> 'd kernel \<Rightarrow> 'd kernel option" where
  "yields 0 k = Some k"
| "yields (Suc n) k = (case sched_yield k of None \<Rightarrow> None | Some k' \<Rightarrow> yields n k')"

lemma scan_dist_step:
  assumes "c < MAX_TASKS" "n < MAX_TASKS" "i < MAX_TASKS" "n \<noteq> i" "scan_dist c n \<le> scan_dist c i"
  shows "scan_dist n i + scan_dist c n = scan_dist c i"
  using assms by (auto simp: scan_dist_def split: if_splits)

lemma ready_runs:
  assumes "sched_inv (k_sched k)" and "\<not> rp_active (tr_replay (k_trace k))"
    and "i < MAX_TASKS" and "task_ready (k_sched k) i"
  shows "\<exists>n k'. n \<le> scan_dist (current_task (k_sched k)) i \<and> yields n k = Some k' \<and>
    sched_inv (k_sched k') \<and> current_task (k_sched k') = i"
  using assms
proof (induction "scan_dist (current_task (k_sched k)) i" arbitrary: k rule: less_induct)
  case less
  let ?s = "k_sched k"
  have cur: "current_task ?s < MAX_TASKS" using less.prems(1) by (simp add: sched_inv_def)
  obtain n where n: "find_next_ready ?s = Some n"
    using find_next_ready_None [OF cur] less.prems(3,4) by (cases "find_next_ready ?s") auto
  note nn = n [unfolded find_next_ready_Some [OF cur]]
  obtain k' where k': "sched_yield k = Some k'" "sched_inv (k_sched k')" "\<not> rp_active (tr_replay (k_trace k'))"
    "current_task (k_sched k') = n"
    "task_ready (k_sched k') i \<longleftrightarrow> i \<noteq> current_task (k_sched k') \<and> (task_ready ?s i \<or> i = current_task ?s)"
    using yield_step [OF less.prems(1,2)] n less.prems(3) by auto
  show ?case
  proof (cases "n = i")
    case True
    then have "yields 1 k = Some k'" using k'(1) by simp
    moreover have "1 \<le> scan_dist (current_task ?s) i" using scan_dist_range [OF cur less.prems(3)] by simp
    ultimately show ?thesis using k'(2,4) True by blast
  next
    case False
    have d: "scan_dist n i + scan_dist (current_task ?s) n = scan_dist (current_task ?s) i"
      using cur nn less.prems(3,4) False by (intro scan_dist_step) auto
    have "1 \<le> scan_dist (current_task ?s) n" using scan_dist_range [OF cur] nn by simp
    then have lt: "scan_dist (current_task (k_sched k')) i < scan_dist (current_task ?s) i" using d k'(4) by simp
    obtain m k'' where m: "m \<le> scan_dist (current_task (k_sched k')) i" "yields m k' = Some k''"
      "sched_inv (k_sched k'')" "current_task (k_sched k'') = i"
      using less.hyps [OF lt k'(2,3) less.prems(3)] k'(4,5) False less.prems(4) by auto
    have "yields (Suc m) k = Some k''" using k'(1) m(2) by simp
    moreover have "Suc m \<le> scan_dist (current_task ?s) i" using m(1) lt by simp
    ultimately show ?thesis using m(3,4) by blast
  qed
qed

section \<open>Spawning, exit and address-space references\<close>

definition task_live :: "task \<Rightarrow> bool" where
  "task_live t \<longleftrightarrow> task_visible t \<and> t_state t \<noteq> Task_Zombie"

text \<open>The number of live tasks in an address space, and its reference count.\<close>

definition live :: "sched_state \<Rightarrow> u32 \<Rightarrow> nat" where
  "live s a = length (filter (\<lambda>t. task_live t \<and> t_aspace_id t = a) (tasks s))"

definition refs :: "vm \<Rightarrow> u32 \<Rightarrow> nat" where
  "refs v a = (case aspace_map v a of None \<Rightarrow> 0 | Some x \<Rightarrow> unat (ai_refcount x))"

text \<open>
  Every reference is accounted for: each live task holds one reference to its address space,
  \<open>ext\<close> counts the references held by code that is under way, and an address space other than
  the kernel's exists only while it is referenced.
\<close>

definition accounted :: "(u32 \<Rightarrow> nat) \<Rightarrow> 'd kernel \<Rightarrow> bool" where
  "accounted ext k \<longleftrightarrow> aspace_inv (k_vm k) \<and>
     (\<forall>a. refs (k_vm k) a = live (k_sched k) a + ext a) \<and>
     (\<forall>a. aspace_map (k_vm k) a \<noteq> None \<and> a \<noteq> kernel_aspace_id (k_vm k) \<longrightarrow> 0 < refs (k_vm k) a)"

lemma length_filter_update:
  "i < length xs \<Longrightarrow> length (filter P (xs[i := y])) + (if P (xs ! i) then 1 else 0)
    = length (filter P xs) + (if P y then 1 else 0)"
proof (induction xs arbitrary: i)
  case Nil
  then show ?case by simp
next
  case (Cons x xs)
  then show ?case by (cases i) auto
qed

lemma live_le: "length (tasks s) = MAX_TASKS \<Longrightarrow> live s a \<le> 8"
  using length_filter_le [of _ "tasks s"] by (simp add: live_def MAX_TASKS_def)

lemma refs_retain:
  assumes "aspace_inv v" and "aspace_map v a = Some x" and "refs v a + 1 < 2 ^ 32"
  shows "\<exists>v'. aspace_retain a v = (True, v') \<and> aspace_inv v' \<and> kernel_aspace_id v' = kernel_aspace_id v \<and>
    refs v' = (refs v)(a := refs v a + 1) \<and> (\<forall>b. aspace_map v' b = None \<longleftrightarrow> aspace_map v b = None)"
proof -
  obtain v' where v': "aspace_retain a v = (True, v')" "aspace_inv v'" "kernel_aspace_id v' = kernel_aspace_id v"
    "aspace_map v' = (aspace_map v)(a \<mapsto> x\<lparr>ai_refcount := ai_refcount x + 1\<rparr>)"
    using retain_Some [OF assms(1,2)] by blast
  have "unat (ai_refcount x + 1) = unat (ai_refcount x) + 1"
    using assms(2,3) by (subst unat_add_no_wrap) (simp_all add: refs_def)
  then have "refs v' = (refs v)(a := refs v a + 1)" using assms(2) v'(4) by (auto simp: refs_def fun_eq_iff)
  then show ?thesis using v' assms(2) by auto
qed

lemma refs_release:
  assumes "aspace_inv v" and "0 < refs v a"
  shows "\<exists>v'. aspace_release a v = (True, v') \<and> aspace_inv v' \<and> kernel_aspace_id v' = kernel_aspace_id v \<and>
    refs v' = (refs v)(a := refs v a - 1) \<and>
    (\<forall>b. aspace_map v' b \<noteq> None \<longrightarrow> aspace_map v b \<noteq> None \<and> (b = a \<and> a \<noteq> kernel_aspace_id v \<longrightarrow> 1 < refs v a))"
proof -
  obtain x where x: "aspace_map v a = Some x" using assms(2) by (cases "aspace_map v a") (auto simp: refs_def)
  obtain v' where v': "aspace_release a v = (True, v')" "aspace_inv v'" "kernel_aspace_id v' = kernel_aspace_id v"
    "aspace_map v' = (aspace_map v)(a := released (kernel_aspace_id v) a x)"
    using release_Some [OF assms(1) x] by blast
  have p: "0 < unat (ai_refcount x)" using assms(2) by (simp only: refs_def x option.case)
  then have pos: "0 < ai_refcount x" "1 \<le> ai_refcount x"
    by (simp_all only: word_less_nat_alt word_le_nat_alt unat_0 unat_1 Suc_le_eq One_nat_def)
  have m: "unat (ai_refcount x - 1) = unat (ai_refcount x) - 1"
    using pos(2) by (subst unat_minus_no_wrap) simp_all
  have z: "ai_refcount x - 1 = 0 \<longleftrightarrow> unat (ai_refcount x) = 1"
    unfolding unat_eq_zero [symmetric] m using p by linarith
  show ?thesis
  proof (cases "ai_refcount x - 1 = 0 \<and> a \<noteq> kernel_aspace_id v")
    case True
    then have "released (kernel_aspace_id v) a x = None" using pos by (simp add: released_def)
    with v' x z True show ?thesis by (auto simp: refs_def fun_eq_iff)
  next
    case False
    then have "released (kernel_aspace_id v) a x = Some (x\<lparr>ai_refcount := ai_refcount x - 1\<rparr>)"
      using pos by (auto simp: released_def)
    moreover have "a \<noteq> kernel_aspace_id v \<Longrightarrow> 1 < unat (ai_refcount x)" using False z p by linarith
    ultimately show ?thesis using v' x m by (auto simp: refs_def fun_eq_iff)
  qed
qed

lemma refs_create:
  assumes "aspace_inv v" and "unat (next_aspace_id v) + 1 < 2 ^ 32" and "aspace_create kind label v = (i, v')" and "i \<noteq> 0"
  shows "aspace_inv v' \<and> kernel_aspace_id v' = kernel_aspace_id v \<and> refs v i = 0 \<and> refs v' = (refs v)(i := 1) \<and>
    (\<forall>b. aspace_map v' b \<noteq> None \<longleftrightarrow> b = i \<or> aspace_map v b \<noteq> None)"
  using create_cases [OF assms(1-3)] assms(4) by (auto simp: refs_def fun_eq_iff)

lemma accountedD:
  assumes "accounted ext k"
  shows "aspace_inv (k_vm k)" "refs (k_vm k) a = live (k_sched k) a + ext a"
    "aspace_map (k_vm k) a \<noteq> None \<Longrightarrow> a \<noteq> kernel_aspace_id (k_vm k) \<Longrightarrow> 0 < refs (k_vm k) a"
  using assms unfolding accounted_def by blast+

lemma accountedI:
  assumes "aspace_inv (k_vm k)" "\<And>a. refs (k_vm k) a = live (k_sched k) a + ext a"
    "\<And>a. aspace_map (k_vm k) a \<noteq> None \<Longrightarrow> a \<noteq> kernel_aspace_id (k_vm k) \<Longrightarrow> 0 < refs (k_vm k) a"
  shows "accounted ext k"
  using assms unfolding accounted_def by blast

lemma accounted_retain:
  assumes acc: "accounted ext k" and a: "aspace_map (k_vm k) a \<noteq> None" and b: "refs (k_vm k) a + 1 < 2 ^ 32"
  shows "\<exists>v. aspace_retain a (k_vm k) = (True, v) \<and> accounted (ext(a := ext a + 1)) (k\<lparr>k_vm := v\<rparr>) \<and>
    (\<forall>c. aspace_map v c = None \<longleftrightarrow> aspace_map (k_vm k) c = None) \<and> refs v = (refs (k_vm k))(a := refs (k_vm k) a + 1)"
proof -
  obtain x where x: "aspace_map (k_vm k) a = Some x" using a by auto
  obtain v where v: "aspace_retain a (k_vm k) = (True, v)" "aspace_inv v" "kernel_aspace_id v = kernel_aspace_id (k_vm k)"
    "refs v = (refs (k_vm k))(a := refs (k_vm k) a + 1)" "\<forall>c. aspace_map v c = None \<longleftrightarrow> aspace_map (k_vm k) c = None"
    using refs_retain [OF accountedD(1) [OF acc] x b] by blast
  have "accounted (ext(a := ext a + 1)) (k\<lparr>k_vm := v\<rparr>)"
  proof (rule accountedI)
    fix c assume "aspace_map (k_vm (k\<lparr>k_vm := v\<rparr>)) c \<noteq> None" "c \<noteq> kernel_aspace_id (k_vm (k\<lparr>k_vm := v\<rparr>))"
    then have "0 < refs (k_vm k) c" using v(3,5) accountedD(3) [OF acc, of c] by simp
    then show "0 < refs (k_vm (k\<lparr>k_vm := v\<rparr>)) c" by (simp add: v(4))
  qed (use v accountedD(2) [OF acc] in simp_all)
  with v show ?thesis by blast
qed

lemma accounted_release:
  assumes acc: "accounted (ext(a := ext a + 1)) k"
  shows "\<exists>v. aspace_release a (k_vm k) = (True, v) \<and> accounted ext (k\<lparr>k_vm := v\<rparr>)"
proof -
  have r: "refs (k_vm k) c = live (k_sched k) c + (if c = a then ext a + 1 else ext c)" for c
    using accountedD(2) [OF acc, of c] by simp
  obtain v where v: "aspace_release a (k_vm k) = (True, v)" "aspace_inv v" "kernel_aspace_id v = kernel_aspace_id (k_vm k)"
    "refs v = (refs (k_vm k))(a := refs (k_vm k) a - 1)"
    "\<forall>b. aspace_map v b \<noteq> None \<longrightarrow> aspace_map (k_vm k) b \<noteq> None \<and>
       (b = a \<and> a \<noteq> kernel_aspace_id (k_vm k) \<longrightarrow> 1 < refs (k_vm k) a)"
    using refs_release [OF accountedD(1) [OF acc], of a] r [of a] by auto
  have "accounted ext (k\<lparr>k_vm := v\<rparr>)"
  proof (rule accountedI)
    fix b assume "aspace_map (k_vm (k\<lparr>k_vm := v\<rparr>)) b \<noteq> None" "b \<noteq> kernel_aspace_id (k_vm (k\<lparr>k_vm := v\<rparr>))"
    then have b: "aspace_map v b \<noteq> None" "b \<noteq> kernel_aspace_id (k_vm k)" using v(3) by simp_all
    then have "aspace_map (k_vm k) b \<noteq> None" "b = a \<Longrightarrow> 1 < refs (k_vm k) a" using v(5) by blast+
    then show "0 < refs (k_vm (k\<lparr>k_vm := v\<rparr>)) b" using accountedD(3) [OF acc, of b] b(2) v(4) by (cases "b = a") simp_all
  next
    fix b show "refs (k_vm (k\<lparr>k_vm := v\<rparr>)) b = live (k_sched (k\<lparr>k_vm := v\<rparr>)) b + ext b"
      using r [of b] v(4) by (cases "b = a") simp_all
  qed (use v(2) in simp)
  with v(1) show ?thesis by blast
qed

lemma accounted_sched:
  assumes "accounted ext k" and "\<And>a. live s' a + ext' a = live (k_sched k) a + ext a"
  shows "accounted ext' (k\<lparr>k_sched := s'\<rparr>)"
proof (rule accountedI)
  fix a show "refs (k_vm (k\<lparr>k_sched := s'\<rparr>)) a = live (k_sched (k\<lparr>k_sched := s'\<rparr>)) a + ext' a"
    using accountedD(2) [OF assms(1), of a] assms(2) [of a] by simp
  assume "aspace_map (k_vm (k\<lparr>k_sched := s'\<rparr>)) a \<noteq> None" "a \<noteq> kernel_aspace_id (k_vm (k\<lparr>k_sched := s'\<rparr>))"
  then show "0 < refs (k_vm (k\<lparr>k_sched := s'\<rparr>)) a" using accountedD(3) [OF assms(1), of a] by simp
qed (use accountedD(1) [OF assms(1)] in simp)

lemma live_update:
  assumes "i < length (tasks s)"
  shows "live (s\<lparr>tasks := (tasks s)[i := t]\<rparr>) a + (if task_live (tasks s ! i) \<and> t_aspace_id (tasks s ! i) = a then 1 else 0)
    = live s a + (if task_live t \<and> t_aspace_id t = a then 1 else 0)"
  unfolding live_def using length_filter_update [OF assms, of "\<lambda>t. task_live t \<and> t_aspace_id t = a" t] by simp

definition pids_left :: "sched_state \<Rightarrow> bool" where
  "pids_left s \<longleftrightarrow> 0 < next_pid s \<and> unat (next_pid s) + 1 < 0xffffffff"

lemma spawn_aspace_ok:
  assumes inv: "sched_inv (k_sched k)" and pl: "pids_left (k_sched k)" and acc: "accounted ext k"
    and a: "aspace_map (k_vm k) a \<noteq> None" and b: "refs (k_vm k) a + 1 < 2 ^ 32"
    and sp: "sched_spawn_with_parent_aspace name entry arg ppid a k = (r, k')"
  shows "sched_inv (k_sched k') \<and> accounted ext k' \<and> k_trace k' = k_trace k \<and>
    (r = None \<and> k' = k \<and> (\<forall>i. 0 < i \<and> i < MAX_TASKS \<longrightarrow> task_live (tasks (k_sched k) ! i)) \<or>
     (\<exists>i. r = Some (next_pid (k_sched k)) \<and> 0 < i \<and> i < MAX_TASKS \<and> i \<noteq> current_task (k_sched k) \<and>
        \<not> task_live (tasks (k_sched k) ! i) \<and> task_ready (k_sched k') i \<and>
        t_pid (tasks (k_sched k') ! i) = next_pid (k_sched k) \<and>
        next_pid (k_sched k') = next_pid (k_sched k) + 1 \<and> current_task (k_sched k') = current_task (k_sched k) \<and>
        (\<forall>j < MAX_TASKS. j \<noteq> i \<longrightarrow> tasks (k_sched k') ! j = tasks (k_sched k) ! j)))"
proof -
  let ?s = "k_sched k"
  have len: "length (tasks ?s) = MAX_TASKS" "current_task ?s < MAX_TASKS" using inv by (simp_all add: sched_inv_def)
  have free: "spawn_slot_free t \<longleftrightarrow> \<not> task_live t" for t by (simp add: spawn_slot_free_def task_live_def)
  show ?thesis
  proof (cases "find_index spawn_slot_free (drop 1 (tasks ?s))")
    case None
    then have k': "r = None" "k' = k" using sp by (simp_all add: sched_spawn_with_parent_aspace_def)
    have "task_live (tasks ?s ! i)" if "0 < i" "i < MAX_TASKS" for i
    proof -
      have "drop 1 (tasks ?s) ! (i - 1) = tasks ?s ! i" "i - 1 < length (drop 1 (tasks ?s))" using that len(1) by simp_all
      then have "tasks ?s ! i \<in> set (drop 1 (tasks ?s))" by (metis nth_mem)
      with None free show ?thesis unfolding find_index_None by blast
    qed
    with k' inv acc show ?thesis by blast
  next
    case (Some j)
    let ?i = "Suc j"
    have i: "?i < MAX_TASKS" "\<not> task_live (tasks ?s ! ?i)"
      using find_index_SomeD(1,2) [OF Some] len(1) free by auto
    have ic: "?i \<noteq> current_task ?s"
      using i inv by (auto simp: sched_inv_def task_live_def)
    obtain v where v: "aspace_retain a (k_vm k) = (True, v)" "accounted (ext(a := ext a + 1)) (k\<lparr>k_vm := v\<rparr>)"
      using accounted_retain [OF acc a b] by blast
    define t where "t = task_zero\<lparr>t_used := True, t_state := Task_Ready, t_pid := next_pid ?s, t_parent_pid := ppid,
      t_aspace_id := a, t_entry := entry, t_arg := arg, t_created_ticks := (if current_task ?s = ?i then 0 else t_cpu_ticks (cur_task ?s)),
      t_name := copy_task_name name, t_exec_path := memcpy (t_exec_path task_zero) (''[kernel-task]'' @ [NUL]) 14\<rparr>"
    let ?s' = "?s\<lparr>tasks := (tasks ?s)[?i := t], next_pid := next_pid ?s + 1\<rparr>"
    have k': "r = Some (next_pid ?s)" "k' = k\<lparr>k_vm := v, k_sched := ?s'\<rparr>"
      using sp Some v(1) by (auto simp: sched_spawn_with_parent_aspace_def Let_def t_def)
    have tv: "task_visible t" "t_state t = Task_Ready" "t_pid t = next_pid ?s" "task_live t" "t_aspace_id t = a"
      using pl by (auto simp: t_def task_visible_def task_live_def pids_left_def)
    have n1: "next_pid ?s < next_pid ?s + 1"
      using pl by (simp add: word_less_nat_alt pids_left_def) (subst unat_add_no_wrap, simp_all)
    have "sched_inv ?s'"
      using inv i ic len tv n1 unfolding sched_inv_def
      by (auto simp: nth_list_update split: if_splits dest: order.strict_trans less_imp_neq)
    moreover have "accounted ext (k\<lparr>k_vm := v, k_sched := ?s'\<rparr>)"
    proof -
      have "live ?s' c + ext c = live ?s c + (ext(a := ext a + 1)) c" for c
        using live_update [of ?i ?s t c] i len(1) tv by (simp add: live_def)
      from accounted_sched [OF v(2), of ?s' ext] this show ?thesis by simp
    qed
    moreover have "task_ready ?s' ?i" "t_pid (tasks ?s' ! ?i) = next_pid ?s" using tv i(1) len(1) by (simp_all add: task_ready_def)
    moreover have "\<forall>j < MAX_TASKS. j \<noteq> ?i \<longrightarrow> tasks ?s' ! j = tasks ?s ! j" by simp
    ultimately show ?thesis using k' i ic by (intro conjI disjI2 exI [of _ ?i]) simp_all
  qed
qed

lemma accounted_vm_same:
  assumes "accounted ext k" and "aspace_map v = aspace_map (k_vm k)" and "aspace_inv v"
    and "kernel_aspace_id v = kernel_aspace_id (k_vm k)"
  shows "accounted ext (k\<lparr>k_vm := v\<rparr>)"
proof (rule accountedI)
  have r: "refs v a = refs (k_vm k) a" for a using assms(2) by (simp add: refs_def)
  fix a
  show "refs (k_vm (k\<lparr>k_vm := v\<rparr>)) a = live (k_sched (k\<lparr>k_vm := v\<rparr>)) a + ext a"
    using accountedD(2) [OF assms(1), of a] r by simp
  assume "aspace_map (k_vm (k\<lparr>k_vm := v\<rparr>)) a \<noteq> None" "a \<noteq> kernel_aspace_id (k_vm (k\<lparr>k_vm := v\<rparr>))"
  then have "0 < refs (k_vm k) a" using accountedD(3) [OF assms(1), of a] assms(2,4) by simp
  then show "0 < refs (k_vm (k\<lparr>k_vm := v\<rparr>)) a" using r by simp
qed (use assms(3) in simp)

lemma fork_clone_ok:
  assumes acc: "accounted ext k" and a0: "aspace_map (k_vm k) a0 \<noteq> None" and b: "refs (k_vm k) a0 + 1 < 2 ^ 32"
    and nw: "unat (next_aspace_id (k_vm k)) + 1 < 2 ^ 32"
    and f: "aspace_fork_clone a0 (k_vm k) = (a, v)"
  shows "a = 0 \<and> accounted ext (k\<lparr>k_vm := v\<rparr>) \<or>
    a \<noteq> 0 \<and> accounted (ext(a := ext a + 1)) (k\<lparr>k_vm := v\<rparr>) \<and> aspace_map v a \<noteq> None \<and>
      (refs v a = 1 \<or> refs v a = refs (k_vm k) a0 + 1)"
    and "map_option ai_kind (aspace_map (k_vm k) a0) = Some ASPACE_KIND_KERNEL \<Longrightarrow> a \<noteq> 0"
proof -
  obtain x where x: "aspace_map (k_vm k) a0 = Some x" using a0 by auto
  obtain j where j: "find_slot a0 (k_vm k) = Some j"
    using a0 find_slot_None [of a0 "k_vm k"] by (cases "find_slot a0 (k_vm k)") auto
  note fs = find_slot_SomeD [OF j]
  have id: "a0 \<noteq> 0"
    using accountedD(1) [OF acc] fs by (auto simp: aspace_inv_def table_ok_def)
  let ?info = "as_info (aspace_table (k_vm k) ! j)"
  have m: "aspace_map (k_vm k) a0 = Some ?info" using j by (simp add: aspace_map_def slot_map_def find_slot_def)
  show "a \<noteq> 0" if "map_option ai_kind (aspace_map (k_vm k) a0) = Some ASPACE_KIND_KERNEL"
    using f j m that id accounted_retain [OF acc a0 b] by (auto simp: aspace_fork_clone_def Let_def)
  show "a = 0 \<and> accounted ext (k\<lparr>k_vm := v\<rparr>) \<or>
    a \<noteq> 0 \<and> accounted (ext(a := ext a + 1)) (k\<lparr>k_vm := v\<rparr>) \<and> aspace_map v a \<noteq> None \<and>
      (refs v a = 1 \<or> refs v a = refs (k_vm k) a0 + 1)" (is ?thesis)
  proof (cases "ai_kind ?info = ASPACE_KIND_KERNEL")
    case True
    obtain w where w: "aspace_retain a0 (k_vm k) = (True, w)" "accounted (ext(a0 := ext a0 + 1)) (k\<lparr>k_vm := w\<rparr>)"
      "\<forall>c. aspace_map w c = None \<longleftrightarrow> aspace_map (k_vm k) c = None" "refs w = (refs (k_vm k))(a0 := refs (k_vm k) a0 + 1)"
      using accounted_retain [OF acc a0 b] by blast
    have "a = a0" "v = w" using f j True w(1) by (simp_all add: aspace_fork_clone_def Let_def)
    with w id a0 show ?thesis by auto
  next
    case False
    then have c: "aspace_create (ai_kind ?info) (Some (ai_label ?info)) (k_vm k) = (a, v)"
      using f j by (simp add: aspace_fork_clone_def Let_def)
    show ?thesis
    proof (cases "a = 0")
      case True
      have "aspace_inv v \<and> kernel_aspace_id v = kernel_aspace_id (k_vm k) \<and> aspace_map v = aspace_map (k_vm k)"
        using create_cases [OF accountedD(1) [OF acc] nw c] True by auto
      with True acc show ?thesis by (auto intro: accounted_vm_same)
    next
      case nz: False
      note cr = refs_create [OF accountedD(1) [OF acc] nw c nz]
      have "accounted (ext(a := ext a + 1)) (k\<lparr>k_vm := v\<rparr>)"
      proof (rule accountedI)
        fix d
        show "refs (k_vm (k\<lparr>k_vm := v\<rparr>)) d = live (k_sched (k\<lparr>k_vm := v\<rparr>)) d + (ext(a := ext a + 1)) d"
          using accountedD(2) [OF acc, of d] cr by (cases "d = a") auto
        assume "aspace_map (k_vm (k\<lparr>k_vm := v\<rparr>)) d \<noteq> None" "d \<noteq> kernel_aspace_id (k_vm (k\<lparr>k_vm := v\<rparr>))"
        then show "0 < refs (k_vm (k\<lparr>k_vm := v\<rparr>)) d" using accountedD(3) [OF acc, of d] cr by auto
      qed (use cr in simp)
      with nz cr show ?thesis by auto
    qed
  qed
qed

lemma current_live:
  assumes "sched_inv s"
  shows "task_live (cur_task s)" "current_task s < length (tasks s)" "0 < live s (t_aspace_id (cur_task s))"
proof -
  show l: "task_live (cur_task s)" "current_task s < length (tasks s)"
    using assms by (auto simp: sched_inv_def task_live_def)
  then show "0 < live s (t_aspace_id (cur_task s))"
    by (auto simp: live_def filter_empty_conv)
qed

lemma spawn_parent_ok:
  assumes inv: "sched_inv (k_sched k)" and pl: "pids_left (k_sched k)" and acc: "accounted ext k"
    and small: "\<forall>a. ext a < 2 ^ 31" and nw: "unat (next_aspace_id (k_vm k)) + 1 < 2 ^ 32"
    and sp: "sched_spawn_with_parent name entry arg ppid k = (r, k')"
  shows "sched_inv (k_sched k') \<and> accounted ext k' \<and> k_trace k' = k_trace k \<and>
    (r = None \<and> k_sched k' = k_sched k \<or>
     (\<exists>i. r = Some (next_pid (k_sched k)) \<and> 0 < i \<and> i < MAX_TASKS \<and>
        \<not> task_live (tasks (k_sched k) ! i) \<and> task_ready (k_sched k') i \<and>
        t_pid (tasks (k_sched k') ! i) = next_pid (k_sched k) \<and> next_pid (k_sched k') = next_pid (k_sched k) + 1 \<and>
        current_task (k_sched k') = current_task (k_sched k) \<and>
        (\<forall>j < MAX_TASKS. j \<noteq> i \<longrightarrow> tasks (k_sched k') ! j = tasks (k_sched k) ! j)))"
    and "map_option ai_kind (aspace_map (k_vm k) (t_aspace_id (cur_task (k_sched k)))) = Some ASPACE_KIND_KERNEL \<Longrightarrow>
      0 < j \<Longrightarrow> j < MAX_TASKS \<Longrightarrow> \<not> task_live (tasks (k_sched k) ! j) \<Longrightarrow> r \<noteq> None"
proof -
  let ?a0 = "t_aspace_id (cur_task (k_sched k))"
  let ?S = "\<lambda>i r k'. r = Some (next_pid (k_sched k)) \<and> 0 < i \<and> i < MAX_TASKS \<and>
        \<not> task_live (tasks (k_sched k) ! i) \<and> task_ready (k_sched k') i \<and>
        t_pid (tasks (k_sched k') ! i) = next_pid (k_sched k) \<and> next_pid (k_sched k') = next_pid (k_sched k) + 1 \<and>
        current_task (k_sched k') = current_task (k_sched k) \<and>
        (\<forall>j < MAX_TASKS. j \<noteq> i \<longrightarrow> tasks (k_sched k') ! j = tasks (k_sched k) ! j)"
  have len: "length (tasks (k_sched k)) = MAX_TASKS" using inv by (simp add: sched_inv_def)
  have bound: "refs (k_vm k) a \<le> 8 + 2 ^ 31" for a
    using accountedD(2) [OF acc, of a] live_le [OF len, of a] small by (metis add_mono less_imp_le)
  have "0 < refs (k_vm k) ?a0" using current_live(3) [OF inv] accountedD(2) [OF acc, of ?a0] by simp
  then have a0: "aspace_map (k_vm k) ?a0 \<noteq> None"
    by (cases "aspace_map (k_vm k) ?a0") (simp_all add: refs_def)
  obtain a v where f: "aspace_fork_clone ?a0 (k_vm k) = (a, v)" by fastforce
  have b0: "refs (k_vm k) ?a0 + 1 < 2 ^ 32" using bound [of ?a0] by simp
  note fc = fork_clone_ok [OF acc a0 b0 nw f]
  have main: "sched_inv (k_sched k') \<and> accounted ext k' \<and> k_trace k' = k_trace k \<and>
      (r = None \<and> k_sched k' = k_sched k \<or> (\<exists>i. ?S i r k'))" and
    full: "a \<noteq> 0 \<Longrightarrow> r = None \<Longrightarrow> (\<forall>i. 0 < i \<and> i < MAX_TASKS \<longrightarrow> task_live (tasks (k_sched k) ! i))"
  proof -
    let ?k1 = "k\<lparr>k_vm := v\<rparr>"
    obtain p k2 where s2: "sched_spawn_with_parent_aspace name entry arg ppid a ?k1 = (p, k2)" by fastforce
    have i1: "sched_inv (k_sched ?k1)" "pids_left (k_sched ?k1)" using inv pl by simp_all
    have on: "sched_inv (k_sched k') \<and> accounted ext k' \<and> k_trace k' = k_trace k \<and>
      (r = None \<and> k_sched k' = k_sched k \<and> (\<forall>i. 0 < i \<and> i < MAX_TASKS \<longrightarrow> task_live (tasks (k_sched k) ! i))
       \<or> (\<exists>i. ?S i r k'))" if nz: "a \<noteq> 0"
    proof -
      have acc1: "accounted (ext(a := ext a + 1)) ?k1" and a1: "aspace_map (k_vm ?k1) a \<noteq> None"
        and r1: "refs (k_vm ?k1) a + 1 < 2 ^ 32"
        using fc(1) nz bound [of ?a0] by auto
      note sa = spawn_aspace_ok [OF i1 acc1 a1 r1 s2]
      obtain v2 where v2: "aspace_release a (k_vm k2) = (True, v2)" "accounted ext (k2\<lparr>k_vm := v2\<rparr>)"
        using accounted_release [OF sa [THEN conjunct2, THEN conjunct1]] by blast
      have k': "r = p" "k' = k2\<lparr>k_vm := v2\<rparr>"
        using sp f nz s2 v2(1) by (simp_all add: sched_spawn_with_parent_def Let_def)
      show ?thesis using sa v2(2) by (auto simp: k')
    qed
    then show "a \<noteq> 0 \<Longrightarrow> r = None \<Longrightarrow> (\<forall>i. 0 < i \<and> i < MAX_TASKS \<longrightarrow> task_live (tasks (k_sched k) ! i))" by auto
    show "sched_inv (k_sched k') \<and> accounted ext k' \<and> k_trace k' = k_trace k \<and>
      (r = None \<and> k_sched k' = k_sched k \<or> (\<exists>i. ?S i r k'))"
    proof (cases "a = 0")
      case True
      with fc(1) f sp inv show ?thesis by (auto simp: sched_spawn_with_parent_def)
    qed (use on in blast)
  qed
  show "sched_inv (k_sched k') \<and> accounted ext k' \<and> k_trace k' = k_trace k \<and>
    (r = None \<and> k_sched k' = k_sched k \<or> (\<exists>i. ?S i r k'))" by (rule main)
  show "r \<noteq> None" if "map_option ai_kind (aspace_map (k_vm k) ?a0) = Some ASPACE_KIND_KERNEL"
    "0 < j" "j < MAX_TASKS" "\<not> task_live (tasks (k_sched k) ! j)"
    using full fc(2) that by blast
qed

lemma aspace_switch_map: "aspace_map (snd (aspace_switch a v)) = aspace_map v \<and>
    aspace_inv (snd (aspace_switch a v)) = aspace_inv v \<and> kernel_aspace_id (snd (aspace_switch a v)) = kernel_aspace_id v"
  by (simp add: aspace_switch_def aspace_map_def aspace_inv_def split: option.split)

lemma vm_mem_aspace [simp]:
  "vm_mem (snd (aspace_switch i v)) = vm_mem v" "vm_mem (snd (aspace_release i v)) = vm_mem v" "vm_mem (snd (aspace_retain i v)) = vm_mem v"
  "next_aspace_id (snd (aspace_switch i v)) = next_aspace_id v" "next_aspace_id (snd (aspace_release i v)) = next_aspace_id v"
  by (simp_all add: aspace_switch_def aspace_release_def aspace_retain_def upd_slot_def Let_def split: option.split)

lemma live_same:
  assumes "length (tasks s') = length (tasks s)"
    and "\<And>i. i < length (tasks s) \<Longrightarrow> task_live (tasks s' ! i) = task_live (tasks s ! i) \<and>
      t_aspace_id (tasks s' ! i) = t_aspace_id (tasks s ! i)"
  shows "live s' a = live s a"
proof -
  let ?P = "\<lambda>t. task_live t \<and> t_aspace_id t = a"
  have m: "map ?P (tasks s') = map ?P (tasks s)"
    using assms by (intro nth_equalityI) simp_all
  have l: "live x a = length (filter id (map ?P (tasks x)))" for x
    by (simp add: live_def filter_map comp_def)
  show ?thesis unfolding l m ..
qed

lemma live_bookkeeping: "bookkeeping f \<Longrightarrow> live (upd_task i f s) a = live s a"
  using bookkeeping_task [of f i s] by (intro live_same) (simp_all add: task_live_def)

lemma live_pending [simp]: "live (s\<lparr>resched_pending := b\<rparr>) = live s"
  by (simp add: live_def fun_eq_iff)

lemma accounted_trace_record: "accounted ext (trace_record ty pid a b k) = accounted ext k"
proof -
  obtain n where n: "k_sched (trace_record ty pid a b k)
     = upd_task (current_task (k_sched k)) (\<lambda>t. t\<lparr>t_event_count := n\<rparr>) (k_sched k)"
    using trace_record_sched by blast
  show ?thesis by (simp add: accounted_def n live_bookkeeping)
qed

lemma aspace_switch_cr3: "aspace_map v a = Some x \<Longrightarrow> vm_cr3 (snd (aspace_switch a v)) = ai_cr3 x"
  by (auto simp: aspace_switch_def aspace_get_def aspace_map_def slot_map_def find_slot_def)

text \<open>The processor runs in the address space of the current task.\<close>

definition in_current_aspace :: "'d kernel \<Rightarrow> bool" where
  "in_current_aspace k \<longleftrightarrow>
     map_option ai_cr3 (aspace_map (k_vm k) (t_aspace_id (cur_task (k_sched k)))) = Some (vm_cr3 (k_vm k))"

lemma in_current_aspace_trace:
  "current_task (k_sched k) < length (tasks (k_sched k)) \<Longrightarrow>
    in_current_aspace (trace_record ty pid a b k) = in_current_aspace k"
  by (simp add: in_current_aspace_def trace_record_task)

lemma accounted_switch:
  assumes acc: "accounted ext k" and len: "length (tasks (k_sched k)) = MAX_TASKS"
    and n: "n < MAX_TASKS" "task_ready (k_sched k) n" "n \<noteq> current_task (k_sched k)"
  shows "\<exists>k'. switch_to (int n) k = Some k' \<and> accounted ext k' \<and> in_current_aspace k'"
proof -
  let ?s = "k_sched k"
  let ?s' = "switch_tasks n ?s"
  let ?a = "t_aspace_id (tasks ?s' ! n)"
  let ?v = "snd (aspace_switch ?a (k_vm k))"
  let ?k = "k\<lparr>k_sched := ?s', k_vm := ?v\<rparr>"
  have l': "length (tasks ?s') = MAX_TASKS" "current_task ?s' = n" using len by (simp_all add: switch_tasks_def Let_def)
  have live: "live ?s' a = live ?s a" for a
  proof (rule live_same)
    fix i assume "i < length (tasks ?s)"
    then show "task_live (tasks ?s' ! i) = task_live (tasks ?s ! i) \<and> t_aspace_id (tasks ?s' ! i) = t_aspace_id (tasks ?s ! i)"
      using n(2) by (auto simp: switch_tasks_nth task_live_def task_ready_def task_visible_def)
  qed (simp add: l' len)
  have "accounted ext (k\<lparr>k_sched := ?s'\<rparr>)" using live by (intro accounted_sched [OF acc]) simp
  then have acc': "accounted ext ?k"
    using accounted_vm_same [of ext "k\<lparr>k_sched := ?s'\<rparr>" ?v] aspace_switch_map [of ?a "k_vm k"]
      accountedD(1) [OF acc] by simp
  have nl: "task_live (tasks ?s ! n)" using n(2) by (simp add: task_ready_def task_live_def)
  have id: "t_aspace_id (tasks ?s' ! n) = t_aspace_id (tasks ?s ! n)" using n(1) len by (simp add: switch_tasks_nth)
  have "tasks ?s ! n \<in> set (filter (\<lambda>t. task_live t \<and> t_aspace_id t = ?a) (tasks ?s))"
    using nl id n(1) len by simp
  then have "0 < live ?s ?a" unfolding live_def by (metis length_pos_if_in_set)
  then have "0 < refs (k_vm k) ?a" using accountedD(2) [OF acc, of ?a] by simp
  then obtain x where x: "aspace_map (k_vm k) ?a = Some x"
    by (cases "aspace_map (k_vm k) ?a") (simp_all add: refs_def)
  have "in_current_aspace ?k"
    using aspace_switch_cr3 [OF x] x aspace_switch_map [of ?a "k_vm k"] l' by (simp add: in_current_aspace_def)
  then show ?thesis
    unfolding switch_to_eq [OF n(1,3)] using acc' l' n(1)
    by (simp add: accounted_trace_record in_current_aspace_trace)
qed

lemma yield_accounted:
  assumes inv: "sched_inv (k_sched k)" and rp: "\<not> rp_active (tr_replay (k_trace k))" and acc: "accounted ext k"
    and y: "sched_yield k = Some k'"
  shows "accounted ext k'" and "find_next_ready (k_sched k) = Some n \<Longrightarrow> in_current_aspace k'"
proof -
  let ?s = "k_sched k"
  define s1 where "s1 = upd_task (current_task ?s) (\<lambda>t. t\<lparr>t_yields := t_yields t + 1\<rparr>) ?s"
  let ?k1 = "k\<lparr>k_sched := s1\<rparr>"
  have acc1: "accounted ext ?k1" by (rule accounted_sched [OF acc]) (simp add: s1_def live_bookkeeping)
  have s1: "find_next_ready s1 = find_next_ready ?s" "sched_inv s1" "task_ready s1 i = task_ready ?s i"
      "current_task s1 = current_task ?s" for i
    using inv by (simp_all add: s1_def bookkeeping_sched)
  have cur: "current_task ?s < MAX_TASKS" "length (tasks s1) = MAX_TASKS"
    using inv s1(2) by (auto simp: sched_inv_def)
  have y1: "sched_yield k = (case find_next_ready ?s of None \<Rightarrow> Some (k\<lparr>k_sched := s1\<lparr>resched_pending := False\<rparr>\<rparr>)
      | Some n \<Rightarrow> switch_to (int n) ?k1)"
    using rp s1(1) by (simp add: sched_yield_def Let_def next_task_def s1_def split: option.split)
  have sw: "\<exists>k'. switch_to (int n) ?k1 = Some k' \<and> accounted ext k' \<and> in_current_aspace k'"
    if n: "find_next_ready ?s = Some n" for n
  proof -
    note nn = n [unfolded find_next_ready_Some [OF cur(1)]]
    have "n \<noteq> current_task ?s" using nn inv by (auto simp: sched_inv_def task_ready_def)
    then show ?thesis using accounted_switch [OF acc1, of n] nn s1 cur by simp
  qed
  show "accounted ext k'"
  proof (cases "find_next_ready ?s")
    case None
    have "accounted ext (?k1\<lparr>k_sched := s1\<lparr>resched_pending := False\<rparr>\<rparr>)"
      by (rule accounted_sched [OF acc1]) simp
    with None y y1 show ?thesis by simp
  qed (use sw y y1 in fastforce)
  show "in_current_aspace k'" if "find_next_ready ?s = Some n" using sw [OF that] that y y1 by auto
qed

section \<open>Exit\<close>

definition zombify :: "task \<Rightarrow> task" where
  "zombify t = t\<lparr>t_state := Task_Zombie, t_exited_ticks := t_cpu_ticks t\<rparr>"

lemma zombify_inv:
  assumes inv: "sched_inv s" and i: "i < MAX_TASKS" "i \<noteq> current_task s" "task_visible (tasks s ! i)"
  shows "sched_inv (upd_task i zombify s)"
proof -
  let ?s = "upd_task i zombify s"
  have len: "length (tasks s) = MAX_TASKS" using inv by (simp add: sched_inv_def)
  have nth: "tasks ?s ! j = (if j = i then zombify (tasks s ! j) else tasks s ! j)"
    if "j < MAX_TASKS" for j using that len by (simp add: nth_upd_task)
  have vis: "task_visible (tasks ?s ! j) = task_visible (tasks s ! j)" "t_pid (tasks ?s ! j) = t_pid (tasks s ! j)"
    if "j < MAX_TASKS" for j
    using nth [OF that] i(3) by (auto simp: zombify_def task_visible_def)
  have "t_state (tasks ?s ! j) = Task_Running \<longleftrightarrow> j = current_task s" if "j < MAX_TASKS" for j
    using nth [OF that] inv i that by (auto simp: zombify_def sched_inv_def)
  with inv vis len show ?thesis unfolding sched_inv_def by simp
qed

lemma switch_tasks_zombify:
  assumes inv: "sched_inv s" and n: "n < MAX_TASKS" "n \<noteq> current_task s"
  shows "switch_tasks n (upd_task (current_task s) zombify s) = upd_task (current_task s) zombify (switch_tasks n s)"
proof (rule sched_state.equality)
  let ?c = "current_task s"
  have c: "?c < length (tasks s)" "length (tasks s) = MAX_TASKS" using inv by (simp_all add: sched_inv_def)
  have l: "length (tasks (switch_tasks n x)) = length (tasks x)" for x by (simp add: switch_tasks_def Let_def)
  show "tasks (switch_tasks n (upd_task ?c zombify s)) = tasks (upd_task ?c zombify (switch_tasks n s))"
  proof (rule nth_equalityI)
    fix i assume "i < length (tasks (switch_tasks n (upd_task ?c zombify s)))"
    then have i: "i < length (tasks s)" by (simp add: l)
    show "tasks (switch_tasks n (upd_task ?c zombify s)) ! i = tasks (upd_task ?c zombify (switch_tasks n s)) ! i"
      using i n(2) by (auto simp: switch_tasks_nth nth_upd_task l zombify_def)
  qed (simp add: l)
qed (simp_all add: switch_tasks_def Let_def)

lemma live_zombify:
  assumes inv: "sched_inv s"
  shows "live (upd_task (current_task s) zombify s) a + (if a = t_aspace_id (cur_task s) then 1 else 0) = live s a"
  using live_update [of "current_task s" s "zombify (cur_task s)" a] current_live(1,2) [OF inv]
  by (auto simp: upd_task_def task_live_def zombify_def)

lemma ready_zombify:
  assumes inv: "sched_inv s" and i: "i < MAX_TASKS"
  shows "task_ready (upd_task (current_task s) zombify s) i = task_ready s i"
proof -
  have "length (tasks s) = MAX_TASKS" "t_state (cur_task s) = Task_Running"
    using inv by (auto simp: sched_inv_def)
  then show ?thesis using i by (auto simp: task_ready_def nth_upd_task zombify_def)
qed

lemma exit_releases:
  assumes inv: "sched_inv (k_sched k)" and acc: "accounted ext k"
  defines "c \<equiv> current_task (k_sched k)"
  shows "\<exists>v. aspace_release (t_aspace_id (tasks (k_sched k) ! c)) (k_vm k) = (True, v) \<and>
    accounted ext (k\<lparr>k_vm := v, k_sched := upd_task c zombify (k_sched k)\<rparr>)"
proof -
  let ?s = "upd_task c zombify (k_sched k)"
  let ?a = "t_aspace_id (tasks (k_sched k) ! c)"
  have "accounted (ext(?a := ext ?a + 1)) (k\<lparr>k_sched := ?s\<rparr>)"
  proof (rule accounted_sched [OF acc])
    fix b show "live ?s b + (ext(?a := ext ?a + 1)) b = live (k_sched k) b + ext b"
      using live_zombify [OF inv, of b] by (auto simp: c_def split: if_splits)
  qed
  from accounted_release [OF this] obtain v where "aspace_release ?a (k_vm k) = (True, v)"
    "accounted ext (k\<lparr>k_sched := ?s, k_vm := v\<rparr>)" by auto
  moreover have "k\<lparr>k_sched := ?s, k_vm := v\<rparr> = k\<lparr>k_vm := v, k_sched := ?s\<rparr>" by simp
  ultimately show ?thesis by metis
qed

lemma exit_step:
  assumes inv: "sched_inv (k_sched k)" and acc: "accounted ext k" and i: "i < MAX_TASKS" "task_ready (k_sched k) i"
  defines "s \<equiv> k_sched k"
  shows "\<exists>k'. task_exit k = Some k' \<and> sched_inv (k_sched k') \<and> accounted ext k' \<and> in_current_aspace k' \<and>
    find_next_ready s = Some (current_task (k_sched k')) \<and>
    t_state (tasks (k_sched k') ! current_task s) = Task_Zombie"
proof -
  let ?c = "current_task s"
  let ?z = "upd_task ?c zombify s"
  have c: "?c < MAX_TASKS" "length (tasks s) = MAX_TASKS" using inv by (simp_all add: s_def sched_inv_def)
  obtain v where v: "aspace_release (t_aspace_id (tasks s ! ?c)) (k_vm k) = (True, v)"
    "accounted ext (k\<lparr>k_vm := v, k_sched := ?z\<rparr>)"
    using exit_releases [OF inv acc] by (auto simp: s_def)
  let ?k = "k\<lparr>k_vm := v, k_sched := ?z\<rparr>"
  obtain n where n: "find_next_ready ?z = Some n"
    using find_next_ready_None [of ?z] c ready_zombify [OF inv i(1)] i
    by (cases "find_next_ready ?z") (auto simp: s_def)
  have nn: "n < MAX_TASKS" "task_ready ?z n" using n find_next_ready_Some [of ?z n] c by auto
  have ns: "find_next_ready s = Some n"
    using n find_next_ready_Some [of ?z n] find_next_ready_Some [of s n] c ready_zombify [OF inv]
    by (auto simp: s_def)
  have rn: "task_ready s n" "n \<noteq> ?c"
    using nn ready_zombify [OF inv nn(1)] inv c by (auto simp: s_def task_ready_def sched_inv_def)
  have e: "task_exit k = switch_to (int n) ?k"
    using v(1) n by (simp add: task_exit_def Let_def s_def zombify_def [abs_def])
  obtain k' where k': "switch_to (int n) ?k = Some k'" "accounted ext k'" "in_current_aspace k'"
    using accounted_switch [OF v(2), of n] nn rn(2) c by auto
  have sw: "sched_inv (switch_tasks n s)" "current_task (switch_tasks n s) = n"
    "task_ready (switch_tasks n s) ?c"
    using switch_tasks_inv [OF inv nn(1) rn(1) [unfolded s_def]] rn(2) c(1) by (simp_all add: s_def)
  have l: "length (tasks (switch_tasks n s)) = MAX_TASKS" using sw(1) by (simp add: sched_inv_def)
  have z: "sched_inv (upd_task ?c zombify (switch_tasks n s))"
    using zombify_inv [OF sw(1) c(1)] sw rn(2) by (simp add: task_ready_def)
  have sk: "sched_inv (k_sched k')" "current_task (k_sched k') = n"
    "t_state (tasks (k_sched k') ! ?c) = Task_Zombie"
    using k'(1) switch_to_eq [of n ?k] nn(1) rn(2) z sw(2) l c
    by (auto simp: trace_record_sched_same trace_record_task switch_tasks_zombify [OF inv [folded s_def] nn(1) rn(2)]
        nth_upd_task zombify_def)
  with e k' ns show ?thesis by simp
qed

section \<open>Correctness\<close>

lemma sched_init_ok:
  fixes k :: "'d kernel"
  assumes "k_vm k = aspace_init v" and "k_sched k = sched_zero"
  defines "k1 \<equiv> sched_init k"
  shows "sched_inv (k_sched k1)" "accounted (\<lambda>_. 0) k1" "in_current_aspace k1" "pids_left (k_sched k1)"
    "k_trace k1 = k_trace k" "k_vm k1 = aspace_init v"
proof -
  let ?s = "k_sched k1"
  have t0: "task_visible (tasks ?s ! 0)" "t_state (tasks ?s ! 0) = Task_Running" "t_pid (tasks ?s ! 0) = 1"
    "t_aspace_id (tasks ?s ! 0) = 1"
    and ti: "\<And>i. 0 < i \<Longrightarrow> i < MAX_TASKS \<Longrightarrow> tasks ?s ! i = task_zero"
    and len: "length (tasks ?s) = MAX_TASKS" "current_task ?s = 0" "next_pid ?s = 2"
    using assms(1,2)
    by (simp_all add: k1_def sched_init_def Let_def MAX_TASKS_def task_visible_def sched_zero_def init_table)
  have z: "\<not> task_visible task_zero" "t_state task_zero = Task_Empty" by (simp_all add: task_zero_def task_visible_def)
  have only: "task_visible (tasks ?s ! i) \<longleftrightarrow> i = 0" if "i < MAX_TASKS" for i
    using ti [of i] t0(1) z that by (cases "i = 0") simp_all
  have run: "t_state (tasks ?s ! i) = Task_Running \<longleftrightarrow> i = 0" if "i < MAX_TASKS" for i
    using ti [of i] t0(2) z that by (cases "i = 0") simp_all
  show inv: "sched_inv ?s"
    unfolding sched_inv_def using only run t0 len by (auto simp: MAX_TASKS_def)
  show "pids_left ?s" using len by (simp add: pids_left_def)
  show vm: "k_vm k1 = aspace_init v" "k_trace k1 = k_trace k"
    using assms(1) by (simp_all add: k1_def sched_init_def Let_def)
  have m1: "map_option ai_refcount (aspace_map (aspace_init v) 1) = Some 1"
    "map_option ai_cr3 (aspace_map (aspace_init v) 1) = Some (vm_cr3 (aspace_init v))"
    "kernel_aspace_id (aspace_init v) = 1" "vm_cr3 (aspace_init v) = vm_cr3 v"
    by (simp_all add: init_map) (simp_all add: init_table)
  show "in_current_aspace k1" using m1 vm len t0(4) by (simp add: in_current_aspace_def)
  have mo: "aspace_map (aspace_init v) a = None" if "a \<noteq> 1" for a
  proof -
    have "\<not> slot_is a s" if "s \<in> set (aspace_table (aspace_init v))" for s
      using that \<open>a \<noteq> 1\<close> by (auto simp: init_table ASPACE_MAX_def slot_zero_def dest!: subsetD [OF set_update_subset_insert])
    then show ?thesis by (simp add: aspace_map_def slot_map_def find_index_None)
  qed
  have lv: "live ?s a = (if a = 1 then 1 else 0)" for a
  proof -
    have "tasks ?s = tasks ?s ! 0 # map ((!) (tasks ?s)) [1..<MAX_TASKS]"
      using len(1) map_nth [of "tasks ?s"] by (simp add: upt_conv_Cons MAX_TASKS_def)
    moreover have "map ((!) (tasks ?s)) [1..<MAX_TASKS] = map (\<lambda>_. task_zero) [1..<MAX_TASKS]"
      using ti by (intro map_cong) simp_all
    ultimately have "tasks ?s = tasks ?s ! 0 # map (\<lambda>_. task_zero) [1..<MAX_TASKS]" by (simp only:)
    then have "live ?s a = length (filter (\<lambda>t. task_live t \<and> t_aspace_id t = a) (tasks ?s ! 0 # map (\<lambda>_. task_zero) [1..<MAX_TASKS]))"
      unfolding live_def by simp
    then show ?thesis using t0 z by (auto simp: task_live_def filter_map comp_def)
  qed
  show "accounted (\<lambda>_. 0) k1"
  proof (rule accountedI)
    fix a
    show "refs (k_vm k1) a = live ?s a + 0"
      using m1(1) mo [of a] lv by (auto simp: vm refs_def)
    show "0 < refs (k_vm k1) a" if "aspace_map (k_vm k1) a \<noteq> None" "a \<noteq> kernel_aspace_id (k_vm k1)"
      using that mo [of a] m1 vm by auto
  qed (simp add: vm init_inv)
qed

text \<open>A kernel with the shell task, and one with a second task spawned from it.\<close>

definition demo_kernel :: "unit kernel" where
  "demo_kernel = sched_init (kernel_bss demo_vm
     \<lparr>superblock = superblock_zero, inodes = [], fs_online = False, disk = ()\<rparr>)"

definition demo_two :: "unit kernel" where
  "demo_two = snd (sched_spawn (Some ''ping'') Ping_Task 0 demo_kernel)"

lemma demo_kernel_ok:
  "sched_inv (k_sched demo_kernel)" "accounted (\<lambda>_. 0) demo_kernel" "in_current_aspace demo_kernel"
  "pids_left (k_sched demo_kernel)" "\<not> rp_active (tr_replay (k_trace demo_kernel))" "k_vm demo_kernel = demo_vm"
  "next_pid (k_sched demo_kernel) = 2" "current_task (k_sched demo_kernel) = 0"
proof -
  let ?k = "kernel_bss demo_vm \<lparr>superblock = superblock_zero, inodes = [], fs_online = False, disk = ()\<rparr>"
  have k: "k_vm ?k = aspace_init \<lparr>vm_mem = memory_zero\<lparr>alloc_next := 0x200000, alloc_limit := 0x400000\<rparr>,
     vm_phys = (\<lambda>_. 0), vm_cr3 = 0x1000, aspace_table = [], next_aspace_id = 0, kernel_aspace_id = 0, kernel_cr3 = 0\<rparr>"
    "k_sched ?k = sched_zero"
    by (simp_all add: kernel_bss_def demo_vm_def)
  note ok = sched_init_ok [OF k, folded demo_kernel_def demo_vm_def]
  show "sched_inv (k_sched demo_kernel)" "accounted (\<lambda>_. 0) demo_kernel" "in_current_aspace demo_kernel"
    "pids_left (k_sched demo_kernel)" "k_vm demo_kernel = demo_vm" using ok by simp_all
  show "\<not> rp_active (tr_replay (k_trace demo_kernel))"
    using ok by (simp add: kernel_bss_def trace_boot_def replay_zero_def)
  show "next_pid (k_sched demo_kernel) = 2" "current_task (k_sched demo_kernel) = 0"
    by (simp_all add: demo_kernel_def sched_init_def kernel_bss_def sched_zero_def Let_def)
qed

lemma demo_spawn:
  "sched_spawn (Some ''ping'') Ping_Task 0 demo_kernel = (Some 2, demo_two)"
  "sched_inv (k_sched demo_two)" "accounted (\<lambda>_. 0) demo_two" "\<not> rp_active (tr_replay (k_trace demo_two))"
  "\<exists>i. 0 < i \<and> i < MAX_TASKS \<and> task_ready (k_sched demo_two) i"
  "current_task (k_sched demo_two) = 0"
proof -
  obtain r where r: "sched_spawn (Some ''ping'') Ping_Task 0 demo_kernel = (r, demo_two)"
    unfolding demo_two_def by (metis prod.collapse)
  have sp: "sched_spawn_with_parent (Some ''ping'') Ping_Task 0 (sched_current_pid demo_kernel) demo_kernel = (r, demo_two)"
    using r by (simp add: sched_spawn_def)
  have nw: "unat (next_aspace_id (k_vm demo_kernel)) + 1 < 2 ^ 32"
    by (simp add: demo_kernel_ok demo_vm_def init_table)
  have z: "\<forall>a. (\<lambda>_ :: u32. 0 :: nat) a < 2 ^ 31" by simp
  note ok = spawn_parent_ok [OF demo_kernel_ok(1,4,2) z nw sp, unfolded demo_kernel_ok(7,8)]
  have c: "tasks (k_sched demo_kernel) ! 1 = task_zero" "t_aspace_id (cur_task (k_sched demo_kernel)) = 1"
    by (simp_all add: demo_kernel_def sched_init_def Let_def MAX_TASKS_def kernel_bss_def demo_vm_def init_table)
  have "\<not> task_live (tasks (k_sched demo_kernel) ! 1)"
    unfolding c by (simp add: task_live_def task_visible_def task_zero_def)
  moreover have "map_option ai_kind (aspace_map (k_vm demo_kernel) 1) = Some ASPACE_KIND_KERNEL"
    by (simp add: demo_kernel_ok demo_vm_def init_map)
  ultimately have "r \<noteq> None" using ok(2) [of 1] c by (simp add: demo_kernel_ok(8) MAX_TASKS_def)
  then obtain i where i: "r = Some 2" "0 < i" "i < MAX_TASKS" "task_ready (k_sched demo_two) i"
    "current_task (k_sched demo_two) = 0" using ok(1) by auto
  show "sched_spawn (Some ''ping'') Ping_Task 0 demo_kernel = (Some 2, demo_two)" using r i(1) by simp
  show "\<exists>i. 0 < i \<and> i < MAX_TASKS \<and> task_ready (k_sched demo_two) i" using i by blast
  show "current_task (k_sched demo_two) = 0" by (rule i(5))
  show "sched_inv (k_sched demo_two)" "accounted (\<lambda>_. 0) demo_two" "\<not> rp_active (tr_replay (k_trace demo_two))"
    using ok(1) demo_kernel_ok(5) by auto
qed





text \<open>C12: \<open>sched_spawn\<close> either fails and leaves the task table as it was, or creates exactly one
  ready task in a slot that was not occupied by a live task, with the pid \<open>next_pid\<close>, and no
  other task changes.  Both keep the invariant and the accounting: every reference count is the
  number of live tasks in that address space plus the references of the caller.  With the
  address space of the kernel and a slot free it succeeds.\<close>

theorem sched_spawn_correct:
  assumes inv: "sched_inv (k_sched k)" and pl: "pids_left (k_sched k)" and acc: "accounted ext k"
    and small: "\<forall>a. ext a < 2 ^ 31" and nw: "unat (next_aspace_id (k_vm k)) + 1 < 2 ^ 32"
    and sp: "sched_spawn name entry arg k = (r, k')"
  shows "sched_inv (k_sched k') \<and> accounted ext k' \<and>
    (r = None \<and> k_sched k' = k_sched k \<or>
     (\<exists>i. r = Some (next_pid (k_sched k)) \<and> 0 < i \<and> i < MAX_TASKS \<and>
        \<not> task_live (tasks (k_sched k) ! i) \<and> task_ready (k_sched k') i \<and>
        t_pid (tasks (k_sched k') ! i) = next_pid (k_sched k) \<and>
        (\<forall>j < MAX_TASKS. j \<noteq> i \<longrightarrow> tasks (k_sched k') ! j = tasks (k_sched k) ! j))) \<and>
    (map_option ai_kind (aspace_map (k_vm k) (sched_current_aspace k)) = Some ASPACE_KIND_KERNEL \<and>
       (\<exists>i. 0 < i \<and> i < MAX_TASKS \<and> \<not> task_live (tasks (k_sched k) ! i)) \<longrightarrow> r \<noteq> None)"
  using spawn_parent_ok [OF inv pl acc small nw sp [unfolded sched_spawn_def]]
  unfolding sched_current_aspace_def by blast

theorem sched_spawn_correct_witness:
  "\<exists>k'. sched_spawn (Some ''ping'') Ping_Task 0 demo_kernel = (Some 2, k') \<and> accounted (\<lambda>_. 0) k'"
proof -
  have "unat (next_aspace_id (k_vm demo_kernel)) + 1 < 2 ^ 32"
    by (simp add: demo_kernel_ok demo_vm_def init_table)
  from sched_spawn_correct [OF demo_kernel_ok(1,4,2) _ this demo_spawn(1)] demo_spawn(1)
  show ?thesis by auto
qed

text \<open>C13: when a task exits while another is ready, it becomes a zombie, gives back exactly its
  reference, and the next ready task runs in its own address space, with the invariant kept.  If
  it was the last task in an address space that nobody else holds, that address space is gone;
  the kernel's stays.\<close>

theorem task_exit_correct:
  assumes inv: "sched_inv (k_sched k)" and acc: "accounted ext k"
    and i: "i < MAX_TASKS" "task_ready (k_sched k) i"
  shows "\<exists>k'. task_exit k = Some k' \<and> sched_inv (k_sched k') \<and> accounted ext k' \<and> in_current_aspace k' \<and>
    find_next_ready (k_sched k) = Some (current_task (k_sched k')) \<and>
    t_state (tasks (k_sched k') ! current_task (k_sched k)) = Task_Zombie \<and>
    (let a = sched_current_aspace k in
      live (k_sched k') a = 0 \<and> ext a = 0 \<and> a \<noteq> kernel_aspace_id (k_vm k') \<longrightarrow> aspace_map (k_vm k') a = None)"
proof -
  obtain k' where k': "task_exit k = Some k'" "sched_inv (k_sched k')" "accounted ext k'" "in_current_aspace k'"
    "find_next_ready (k_sched k) = Some (current_task (k_sched k'))"
    "t_state (tasks (k_sched k') ! current_task (k_sched k)) = Task_Zombie"
    using exit_step [OF inv acc i] by blast
  moreover have "aspace_map (k_vm k') a = None"
    if "live (k_sched k') a = 0" "ext a = 0" "a \<noteq> kernel_aspace_id (k_vm k')" for a
    using accountedD(2,3) [OF k'(3), of a] that by (cases "aspace_map (k_vm k') a") simp_all
  ultimately show ?thesis by (auto simp: Let_def)
qed

theorem task_exit_correct_witness:
  "\<exists>k'. task_exit demo_two = Some k' \<and> sched_inv (k_sched k') \<and> t_state (tasks (k_sched k') ! 0) = Task_Zombie"
  using task_exit_correct [OF demo_spawn(2,3)] demo_spawn(5,6) by metis

section \<open>Defects\<close>

text \<open>A spawn from a task in the kernel's address space, without the invariant of the table.\<close>

lemma spawn_kernel_eq:
  assumes inv: "aspace_inv (k_vm k)" and a: "t_aspace_id (cur_task (k_sched k)) = a" "a = kernel_aspace_id (k_vm k)" "a \<noteq> 0"
    and kind: "map_option ai_kind (aspace_map (k_vm k) a) = Some ASPACE_KIND_KERNEL"
    and j: "find_index spawn_slot_free (drop 1 (tasks (k_sched k))) = Some j"
  shows "\<exists>t v. sched_spawn name entry arg k = (Some (next_pid (k_sched k)),
      k\<lparr>k_vm := v, k_sched := (k_sched k)\<lparr>tasks := (tasks (k_sched k))[Suc j := t], next_pid := next_pid (k_sched k) + 1\<rparr>\<rparr>) \<and>
    t_used t \<and> t_state t = Task_Ready \<and> t_pid t = next_pid (k_sched k) \<and> t_entry t = entry \<and> t_arg t = arg \<and>
    aspace_inv v \<and> kernel_aspace_id v = a \<and> map_option ai_kind (aspace_map v a) = Some ASPACE_KIND_KERNEL \<and> vm_mem v = vm_mem (k_vm k)"
proof -
  obtain x where x: "aspace_map (k_vm k) a = Some x" "ai_kind x = ASPACE_KIND_KERNEL" using kind by auto
  obtain v where v: "aspace_retain a (k_vm k) = (True, v)" "aspace_inv v" "kernel_aspace_id v = a"
    "aspace_map v a = Some (x\<lparr>ai_refcount := ai_refcount x + 1\<rparr>)"
    using retain_Some [OF inv x(1)] a(2) by auto
  obtain v1 where v1: "aspace_retain a v = (True, v1)" "aspace_inv v1" "kernel_aspace_id v1 = a"
    "aspace_map v1 a = Some (x\<lparr>ai_refcount := ai_refcount x + 1 + 1\<rparr>)"
    using retain_Some [OF v(2,4)] v(3) by auto
  obtain v2 where v2: "aspace_release a v1 = (True, v2)" "aspace_inv v2" "kernel_aspace_id v2 = a"
    "map_option ai_kind (aspace_map v2 a) = Some ASPACE_KIND_KERNEL"
    using release_Some [OF v1(2,4)] v1(3) x(2) by (auto simp: released_def Let_def)
  obtain i where i: "find_slot a (k_vm k) = Some i"
    using x(1) find_slot_None [of a "k_vm k"] by (cases "find_slot a (k_vm k)") auto
  then have "as_info (aspace_table (k_vm k) ! i) = x" using x(1) by (simp add: aspace_map_def slot_map_def find_slot_def)
  then have f: "aspace_fork_clone a (k_vm k) = (a, v)" using i x(2) v(1) by (simp add: aspace_fork_clone_def Let_def)
  define t where "t = task_zero\<lparr>t_used := True, t_state := Task_Ready, t_pid := next_pid (k_sched k),
    t_parent_pid := sched_current_pid k, t_aspace_id := a, t_entry := entry, t_arg := arg,
    t_created_ticks := (if current_task (k_sched k) = Suc j then 0 else t_cpu_ticks (cur_task (k_sched k))),
    t_name := copy_task_name name, t_exec_path := memcpy (t_exec_path task_zero) (''[kernel-task]'' @ [NUL]) 14\<rparr>"
  have "sched_spawn name entry arg k = (Some (next_pid (k_sched k)),
      k\<lparr>k_vm := v2, k_sched := (k_sched k)\<lparr>tasks := (tasks (k_sched k))[Suc j := t], next_pid := next_pid (k_sched k) + 1\<rparr>\<rparr>)"
    using f a(1,3) v1(1) v2(1) j
    by (simp add: sched_spawn_def sched_spawn_with_parent_def sched_spawn_with_parent_aspace_def Let_def t_def)
  moreover have "t_used t" "t_state t = Task_Ready" "t_pid t = next_pid (k_sched k)"
    "t_entry t = entry" "t_arg t = arg" by (simp_all add: t_def)
  moreover have "vm_mem v2 = vm_mem (k_vm k)"
    using vm_mem_aspace(2) [of a v1] vm_mem_aspace(3) [of a v] vm_mem_aspace(3) [of a "k_vm k"] v(1) v1(1) v2(1) by simp
  ultimately show ?thesis using v2 by blast
qed

lemma demo_vm_facts: "aspace_inv demo_vm" "kernel_aspace_id demo_vm = 1"
  "map_option ai_kind (aspace_map demo_vm 1) = Some ASPACE_KIND_KERNEL"
  by (simp_all add: demo_vm_def init_map init_inv) (simp add: init_table)

lemma replicate_8: "replicate 8 x = [x, x, x, x, x, x, x, x]"
  by (simp add: numeral_eq_Suc)

lemma task_zero_free: "spawn_slot_free task_zero" "\<not> task_visible task_zero"
  by (simp_all add: spawn_slot_free_def task_visible_def task_zero_def)

lemma demo_kernel_tasks:
  "\<exists>t0. tasks (k_sched demo_kernel) = t0 # replicate 7 task_zero \<and> t_aspace_id t0 = 1"
  by (simp add: demo_kernel_def sched_init_def kernel_bss_def sched_zero_def Let_def MAX_TASKS_def replicate_8
      demo_vm_def init_table) (simp add: numeral_eq_Suc)

lemma demo_two_sched:
  "\<exists>t0 t. tasks (k_sched demo_two) = [t0, t] @ replicate 6 task_zero \<and> t_used t \<and> t_state t = Task_Ready \<and>
     t_pid t = 2 \<and> t_aspace_id t0 = 1 \<and> aspace_inv (k_vm demo_two) \<and> kernel_aspace_id (k_vm demo_two) = 1 \<and>
     map_option ai_kind (aspace_map (k_vm demo_two) 1) = Some ASPACE_KIND_KERNEL"
proof -
  obtain t0 where t0: "tasks (k_sched demo_kernel) = t0 # replicate 7 task_zero" "t_aspace_id t0 = 1"
    using demo_kernel_tasks by blast
  have f: "find_index spawn_slot_free (drop 1 (tasks (k_sched demo_kernel))) = Some 0"
    by (rule find_index_eq_SomeI) (simp_all add: t0 task_zero_free)
  have c: "t_aspace_id (cur_task (k_sched demo_kernel)) = 1" by (simp add: t0 demo_kernel_ok)
  obtain t v where sp: "sched_spawn (Some ''ping'') Ping_Task 0 demo_kernel = (Some 2,
      demo_kernel\<lparr>k_vm := v, k_sched := (k_sched demo_kernel)\<lparr>tasks := (tasks (k_sched demo_kernel))[Suc 0 := t], next_pid := 2 + 1\<rparr>\<rparr>)"
    "t_used t" "t_state t = Task_Ready" "t_pid t = 2" "aspace_inv v" "kernel_aspace_id v = 1"
    "map_option ai_kind (aspace_map v 1) = Some ASPACE_KIND_KERNEL"
    using spawn_kernel_eq [OF _ c _ _ _ f, of "Some ''ping''" Ping_Task 0] demo_vm_facts
    by (auto simp: demo_kernel_ok)
  have "tasks (k_sched demo_two) = (tasks (k_sched demo_kernel))[Suc 0 := t]" "k_vm demo_two = v"
    by (simp_all add: demo_two_def sp(1))
  moreover have "(t0 # replicate 7 task_zero)[Suc 0 := t] = [t0, t] @ replicate 6 task_zero"
    by (simp add: numeral_eq_Suc)
  ultimately show ?thesis using sp(2-) t0 by metis
qed

text \<open>\<open>sched_prepare_replay\<close> resets \<open>next_pid\<close> to 2 although live tasks keep their pids, so a task
  spawned afterwards can get the pid of a live task: with one task of pid 2 waiting, the next
  spawn returns pid 2 again and two live tasks share it, which the invariant excludes.\<close>

theorem sched_prepare_replay_duplicates_pid:
  "\<exists>k'. sched_spawn (Some ''ping'') Ping_Task 0 (sched_prepare_replay demo_two) = (Some 2, k') \<and>
     task_live (tasks (k_sched k') ! 1) \<and> task_live (tasks (k_sched k') ! 2) \<and>
     t_pid (tasks (k_sched k') ! 1) = 2 \<and> t_pid (tasks (k_sched k') ! 2) = 2 \<and> \<not> sched_inv (k_sched k')"
proof -
  let ?p = "sched_prepare_replay demo_two"
  obtain t0 t where t: "tasks (k_sched demo_two) = [t0, t] @ replicate 6 task_zero" "t_used t" "t_state t = Task_Ready"
     "t_pid t = 2" "t_aspace_id t0 = 1" "aspace_inv (k_vm demo_two)" "kernel_aspace_id (k_vm demo_two) = 1"
     "map_option ai_kind (aspace_map (k_vm demo_two) 1) = Some ASPACE_KIND_KERNEL"
    using demo_two_sched by blast
  have p: "k_sched ?p = (k_sched demo_two)\<lparr>next_pid := 2\<rparr>" "k_vm ?p = k_vm demo_two"
    using t(1,3) task_zero_free by (simp_all add: sched_prepare_replay_def Let_def)
  have lv: "task_live t" "\<not> spawn_slot_free t"
    using t by (simp_all add: task_live_def task_visible_def spawn_slot_free_def)
  have f: "find_index spawn_slot_free (drop 1 (tasks (k_sched ?p))) = Some 1"
    by (simp add: p t(1) lv task_zero_free numeral_eq_Suc)
  have c: "t_aspace_id (cur_task (k_sched ?p)) = 1" by (simp add: p t demo_spawn(6))
  obtain t' v where sp: "sched_spawn (Some ''ping'') Ping_Task 0 ?p = (Some 2,
      ?p\<lparr>k_vm := v, k_sched := (k_sched ?p)\<lparr>tasks := (tasks (k_sched ?p))[Suc 1 := t'], next_pid := 2 + 1\<rparr>\<rparr>)"
    "t_used t'" "t_state t' = Task_Ready" "t_pid t' = 2"
    using spawn_kernel_eq [OF _ c _ _ _ f, of "Some ''ping''" Ping_Task 0] t by (auto simp: p)
  let ?k = "?p\<lparr>k_vm := v, k_sched := (k_sched ?p)\<lparr>tasks := (tasks (k_sched ?p))[Suc 1 := t'], next_pid := 2 + 1\<rparr>\<rparr>"
  have k: "tasks (k_sched ?k) ! 1 = t" "tasks (k_sched ?k) ! 2 = t'" by (simp_all add: p t(1))
  have l': "task_live t'" "task_visible t'" "task_visible t"
    using sp lv by (auto simp: task_live_def task_visible_def)
  have "\<not> sched_inv (k_sched ?k)"
  proof
    assume "sched_inv (k_sched ?k)"
    then have "task_visible (tasks (k_sched ?k) ! 1) \<and> task_visible (tasks (k_sched ?k) ! 2) \<and>
        t_pid (tasks (k_sched ?k) ! 1) = t_pid (tasks (k_sched ?k) ! 2) \<Longrightarrow> (1 :: nat) = 2"
      unfolding sched_inv_def by (metis MAX_TASKS_def numeral_less_iff one_less_numeral_iff semiring_norm(76,78,81))
    then show False unfolding k using l' t(4) sp(4) by simp
  qed
  with sp k l' lv t(4) show ?thesis by metis
qed

text \<open>In a replay \<open>sched_yield\<close> uses the recorded word as the index of the next task without a
  check.  The events of the sysload workload have the type of scheduler events and carry
  \<open>memory_used_bytes()\<close> there, so a value of eight or more makes the yield access the task table
  outside its bounds.\<close>

theorem sched_yield_replay_unchecked:
  assumes "rp_active (tr_replay (k_trace k))" and "trace_replay_expected_next_task (k_trace k) = Some w"
    and "8 \<le> sint (ucast w :: u32)" and "current_task (k_sched k) < MAX_TASKS"
  shows "sched_yield k = None"
  using assms by (simp add: sched_yield_def Let_def next_task_def switch_to_def MAX_TASKS_def)

theorem sched_yield_replay_unchecked_witness:
  "sched_yield (demo_kernel\<lparr>k_trace := trace_boot\<lparr>tr_replay_buffer := (replicate TRACE_BUFFER_CAP event_zero)
       [0 := event_zero\<lparr>ev_type := TRACE_EVENT_SCHED, ev_data1 := 8192\<rparr>],
     tr_replay := replay_zero\<lparr>rp_active := True, rp_event_count := 1\<rparr>\<rparr>\<rparr>) = None"
proof (rule sched_yield_replay_unchecked [where w = 8192])
  show "8 \<le> sint (ucast (8192 :: u64) :: u32)" by simp
qed (simp_all add: trace_replay_expected_next_task_def replay_zero_def demo_kernel_ok TRACE_BUFFER_CAP_def MAX_TASKS_def Let_def)

end
