(* ===== verification/Text_Buffer.thy ===== *)
theory Text_Buffer
  imports Fmt
begin

text \<open>
  The bounded text buffers that \<open>kernel/netfs.c\<close>, \<open>kernel/vfs.c\<close> and
  \<open>kernel/builtin_exec.c\<close> render into: \<open>append_char\<close>, \<open>append_str\<close> and \<open>append_u64\<close> with a
  capacity and a position.  The position counts the characters of the whole text, the buffer
  holds what fits, terminated.
\<close>

section \<open>Definitions\<close>

type_synonym tbuf = "char list \<times> u32"

definition append_char :: "u32 \<Rightarrow> char \<Rightarrow> tbuf \<Rightarrow> tbuf" where
  "append_char cap c t =
     (let (buf, pos) = t in
      (if pos + 1 < cap then buf[unat pos := c, unat (pos + 1) := NUL] else buf, pos + 1))"

fun append_str :: "u32 \<Rightarrow> char list \<Rightarrow> tbuf \<Rightarrow> tbuf" where
  "append_str cap [] t = t"
| "append_str cap (c # s) t = (if c = NUL then t else append_str cap s (append_char cap c t))"

text \<open>The digits in \<open>tmp\<close>, least significant first; \<open>room\<close> is the space left in \<open>tmp\<close>.\<close>

fun dec_loop :: "nat \<Rightarrow> u64 \<Rightarrow> char list" where
  "dec_loop 0 value = []"
| "dec_loop (Suc room) value =
     (if value = 0 then [] else char_of (48 + unat (value mod 10)) # dec_loop room (value div 10))"

definition append_u64 :: "u32 \<Rightarrow> u64 \<Rightarrow> tbuf \<Rightarrow> tbuf" where
  "append_u64 cap value t =
     (if value = 0 then append_char cap (CHR ''0'') t
      else fold (append_char cap) (rev (dec_loop 32 value)) t)"

text \<open>A rendering is a sequence of such calls.\<close>

datatype piece = Txt "char list" | Dec u64 | Chr char

fun append_piece :: "u32 \<Rightarrow> piece \<Rightarrow> tbuf \<Rightarrow> tbuf" where
  "append_piece cap (Txt s) t = append_str cap s t"
| "append_piece cap (Dec v) t = append_u64 cap v t"
| "append_piece cap (Chr c) t = append_char cap c t"

definition render :: "u32 \<Rightarrow> piece list \<Rightarrow> tbuf \<Rightarrow> tbuf" where
  "render cap ps t = fold (append_piece cap) ps t"

fun piece_text :: "piece \<Rightarrow> char list" where
  "piece_text (Txt s) = c_str s"
| "piece_text (Dec v) = emit_unsigned v 10"
| "piece_text (Chr c) = [c]"

definition pieces_text :: "piece list \<Rightarrow> char list" where
  "pieces_text ps = concat (map piece_text ps)"

text \<open>The buffer after writing the text \<open>s\<close>: the position is its length, and the buffer starts
  with as much of it as fits, followed by a terminator.\<close>

definition holds_text :: "u32 \<Rightarrow> tbuf \<Rightarrow> char list \<Rightarrow> bool" where
  "holds_text cap t s \<longleftrightarrow> length (fst t) = unat cap \<and> unat (snd t) = length s \<and>
     take (unat cap - 1) s @ [NUL] = take (Suc (min (unat cap - 1) (length s))) (fst t)"

section \<open>Lemmas\<close>

lemma dec_loop_digits:
  assumes "unat v < 10 ^ n"
  shows "dec_loop n v = digit_loop (unat v) 10"
  using assms
proof (induction n arbitrary: v)
  case 0
  then show ?case by (simp add: digit_loop.simps)
next
  case (Suc n)
  show ?case
  proof (cases "v = 0")
    case True
    then show ?thesis by (simp add: digit_loop.simps)
  next
    case False
    have m: "unat (v mod 10) = unat v mod 10" "unat (v div 10) = unat v div 10"
      by (simp_all add: unat_mod unat_div)
    have "\<forall>d < 10. char_of (48 + d) = digit_chars ! d" by code_simp
    then have c: "char_of (48 + unat v mod 10) = digit_chars ! (unat v mod 10)" by simp
    have "unat (v div 10) < 10 ^ n" using Suc.prems by (simp add: m less_mult_imp_div_less mult.commute)
    with False Suc.IH [of "v div 10"] show ?thesis
      by (simp add: digit_loop.simps [of "unat v"] m c unat_eq_zero)
  qed
qed

lemma append_u64_eq: "append_u64 cap v t = fold (append_char cap) (emit_unsigned v 10) t"
proof -
  have "unat v < 2 ^ 64" using unsigned_less [of v, where 'a = nat] by simp
  also have "(2 :: nat) ^ 64 < 10 ^ 32" by simp
  finally have "dec_loop 32 v = digit_loop (unat v) 10" by (rule dec_loop_digits)
  then show ?thesis by (simp add: append_u64_def emit_unsigned_def)
qed

lemma append_str_eq: "append_str cap s t = fold (append_char cap) (c_str s) t"
  by (induction s arbitrary: t) (simp_all add: c_str_def)

lemma append_piece_eq: "append_piece cap p t = fold (append_char cap) (piece_text p) t"
  by (cases p) (simp_all add: append_str_eq append_u64_eq)

lemma render_eq: "render cap ps t = fold (append_char cap) (pieces_text ps) t"
  by (induction ps arbitrary: t) (simp_all add: render_def pieces_text_def append_piece_eq)

lemma append_char_holds:
  assumes h: "holds_text cap t s" and cap: "0 < cap" and l: "length s + 1 < 2 ^ 32"
  shows "holds_text cap (append_char cap c t) (s @ [c])"
proof -
  obtain buf pos where t: "t = (buf, pos)" by fastforce
  let ?n = "unat cap"
  have b: "length buf = ?n" "unat pos = length s" "take (?n - 1) s @ [NUL] = take (Suc (min (?n - 1) (length s))) buf"
    using h by (simp_all add: t holds_text_def)
  have n: "0 < ?n" using cap by (simp add: word_less_nat_alt)
  have p: "unat (pos + 1) = length s + 1" using b(2) l by (subst unat_add_no_wrap) simp_all
  show ?thesis
  proof (cases "length s + 1 < ?n")
    case True
    then have lt: "pos + 1 < cap" using p by (simp add: word_less_nat_alt)
    have sb: "s @ [NUL] = take (Suc (length s)) buf" using b(3) True by simp
    then have "take (length s) buf = s" using True b(1) by (simp add: take_Suc_conv_app_nth)
    then have "take (Suc (Suc (length s))) (buf[length s := c, length s + 1 := NUL]) = s @ [c, NUL]"
      using True b(1) by (simp add: take_Suc_conv_app_nth take_update_cancel)
    with True b p lt show ?thesis by (simp add: t append_char_def holds_text_def)
  next
    case False
    then have "\<not> pos + 1 < cap" using p by (simp add: word_less_nat_alt)
    moreover have "min (?n - 1) (length s) = ?n - 1" "take (?n - 1) (s @ [c]) = take (?n - 1) s" using False by simp_all
    ultimately show ?thesis using b p False by (simp add: t append_char_def holds_text_def)
  qed
qed

lemma append_chars_hold:
  assumes "holds_text cap t s" and "0 < cap" and "length s + length u < 2 ^ 32"
  shows "holds_text cap (fold (append_char cap) u t) (s @ u)"
  using assms
proof (induction u arbitrary: t s)
  case Nil
  then show ?case by simp
next
  case (Cons c u)
  have "holds_text cap (append_char cap c t) (s @ [c])" using Cons.prems by (intro append_char_holds) simp_all
  from Cons.IH [OF this] Cons.prems show ?case by simp
qed

lemma holds_text_start:
  assumes "0 < cap" and "length buf = unat cap"
  shows "holds_text cap (buf[0 := NUL], 0) []"
proof -
  have "0 < length buf" using assms by (simp add: word_less_nat_alt)
  then obtain x xs where "buf = x # xs" by (cases buf) auto
  then show ?thesis using assms(2) by (simp add: holds_text_def)
qed

lemma render_from_start:
  assumes "0 < cap" and "length buf = unat cap" and "length (pieces_text ps) < 2 ^ 32"
  shows "holds_text cap (render cap ps (buf[0 := NUL], 0)) (pieces_text ps)"
  unfolding render_eq using append_chars_hold [OF holds_text_start [OF assms(1,2)] assms(1), of "pieces_text ps"] assms(3)
  by simp

lemma holds_text_c_str:
  assumes "holds_text cap t s" and "is_cstr s" and "0 < cap"
  shows "c_str (fst t) = take (unat cap - 1) s"
proof -
  let ?m = "Suc (min (unat cap - 1) (length s))"
  have h: "take ?m (fst t) = take (unat cap - 1) s @ [NUL]" using assms(1) by (simp add: holds_text_def)
  have "fst t = take ?m (fst t) @ drop ?m (fst t)" by (rule append_take_drop_id [symmetric])
  also have "\<dots> = take (unat cap - 1) s @ NUL # drop ?m (fst t)" unfolding h by simp
  finally have "c_str (fst t) = c_str (take (unat cap - 1) s @ NUL # drop ?m (fst t))" by (rule arg_cong)
  then show ?thesis using c_str_terminated [OF is_cstr_take [OF assms(2)]] by simp
qed

section \<open>Correctness\<close>

text \<open>Rendering into a bounded buffer is safe and faithful.  Whatever sequence of strings, numbers
  and characters is appended, the buffer keeps its size, it holds as a terminated string exactly
  the longest prefix of the text that fits, and the position that is returned is the length of
  the whole text, fitting or not.\<close>

theorem render_holds_prefix:
  assumes "0 < cap" and "length buf = unat cap" and "length (pieces_text ps) < 2 ^ 32"
    and "is_cstr (pieces_text ps)"
  shows "let (out, pos) = render cap ps (buf[0 := NUL], 0) in
    length out = unat cap \<and> c_str out = take (unat cap - 1) (pieces_text ps) \<and>
    unat pos = length (pieces_text ps)"
proof -
  obtain out pos where r: "render cap ps (buf[0 := NUL], 0) = (out, pos)" by fastforce
  have "holds_text cap (out, pos) (pieces_text ps)" using render_from_start [OF assms(1-3)] r by simp
  with holds_text_c_str [OF this assms(4,1)] r show ?thesis by (simp add: holds_text_def)
qed

theorem render_holds_prefix_witness:
  "let (out, pos) = render 8 [Txt ''id='', Dec 90210, Chr (CHR ''!'')] ((replicate 8 (CHR ''x''))[0 := NUL], 0) in
    c_str out = ''id=9021'' \<and> unat pos = 9"
proof -
  have t: "pieces_text [Txt ''id='', Dec 90210, Chr (CHR ''!'')] = ''id=90210!''"
    by (simp add: pieces_text_def c_str_def emit_unsigned_def digit_loop.simps digit_chars_def)
  show ?thesis
    using render_holds_prefix [of 8 "replicate 8 (CHR ''x'')" "[Txt ''id='', Dec 90210, Chr (CHR ''!'')]", unfolded t]
    by (auto simp: Let_def split: prod.splits)
qed

end
