(* ===== verification/Bounded_Queue.thy ===== *)
theory Bounded_Queue
  imports Prelude
begin

text \<open>
  The contract of the kernel's bounded queues (the deferred keys of \<open>kernel/power.c\<close>, the
  packet rings of \<open>kernel/netfs.c\<close>): a queue has contents of at most \<open>cap\<close> elements, \<open>push\<close>
  appends when there is room, \<open>pop\<close> takes the oldest.  The derived operations are proved once:
  draining, and pushing with the oldest element dropped when the queue is full.
\<close>

section \<open>Derived operations\<close>

text \<open>Push, making room first.\<close>

definition push_drop :: "nat \<Rightarrow> ('q \<Rightarrow> 'a list) \<Rightarrow> ('a \<Rightarrow> 'q \<Rightarrow> 'q) \<Rightarrow> ('q \<Rightarrow> 'a \<times> 'q) \<Rightarrow> 'a \<Rightarrow> 'q \<Rightarrow> 'q" where
  "push_drop cap contents push pop x q =
     push x (if length (contents q) = cap then snd (pop q) else q)"

fun pops :: "('q \<Rightarrow> 'a \<times> 'q) \<Rightarrow> nat \<Rightarrow> 'q \<Rightarrow> 'a list \<times> 'q" where
  "pops pop 0 q = ([], q)"
| "pops pop (Suc n) q =
     (let (x, q1) = pop q; (xs, q2) = pops pop n q1 in (x # xs, q2))"

text \<open>The last \<open>n\<close> elements of a list.\<close>

definition lastn :: "nat \<Rightarrow> 'a list \<Rightarrow> 'a list" where
  "lastn n xs = drop (length xs - n) xs"

lemma length_lastn [simp]: "length (lastn n xs) = min n (length xs)"
  by (simp add: lastn_def)

lemma lastn_short [simp]: "length xs \<le> n \<Longrightarrow> lastn n xs = xs"
  by (simp add: lastn_def)

lemma lastn_append_lastn: "lastn n (lastn n xs @ ys) = lastn n (xs @ ys)"
  by (cases "length xs \<le> n") (simp_all add: lastn_def drop_append add.commute)

lemma map_lastn: "map f (lastn n xs) = lastn n (map f xs)"
  by (simp add: lastn_def drop_map)

section \<open>The contract\<close>

locale bounded_queue =
  fixes cap :: nat and ok :: "'q \<Rightarrow> bool" and contents :: "'q \<Rightarrow> 'a list"
    and push :: "'a \<Rightarrow> 'q \<Rightarrow> 'q" and pop :: "'q \<Rightarrow> 'a \<times> 'q"
  assumes cap_pos: "0 < cap"
    and contents_le: "ok q \<Longrightarrow> length (contents q) \<le> cap"
    and push_ok: "ok q \<Longrightarrow> length (contents q) < cap \<Longrightarrow> ok (push x q) \<and> contents (push x q) = contents q @ [x]"
    and pop_ok: "ok q \<Longrightarrow> contents q = x # xs \<Longrightarrow> fst (pop q) = x \<and> ok (snd (pop q)) \<and> contents (snd (pop q)) = xs"
begin

abbreviation drop_push :: "'a \<Rightarrow> 'q \<Rightarrow> 'q" where
  "drop_push \<equiv> push_drop cap contents push pop"

lemma drop_push_ok:
  assumes "ok q"
  shows "ok (drop_push x q) \<and> contents (drop_push x q) = lastn cap (contents q @ [x])"
proof (cases "length (contents q) = cap")
  case True
  then obtain y ys where q: "contents q = y # ys" using cap_pos by (cases "contents q") auto
  then show ?thesis
    using pop_ok [OF assms q] push_ok [of "snd (pop q)" x] True by (simp add: push_drop_def lastn_def)
next
  case False
  then have "length (contents q) < cap" using contents_le [OF assms] by simp
  then show ?thesis using push_ok [OF assms, of x] False by (simp add: push_drop_def)
qed

lemma drop_pushes_ok:
  assumes "ok q"
  shows "ok (fold drop_push xs q) \<and> contents (fold drop_push xs q) = lastn cap (contents q @ xs)"
  using assms
proof (induction xs arbitrary: q)
  case Nil
  then show ?case using contents_le by simp
next
  case (Cons x xs)
  note d = drop_push_ok [OF Cons.prems, of x]
  have "ok (drop_push x q)" using d by blast
  from Cons.IH [OF this] d show ?case using lastn_append_lastn [of cap "contents q @ [x]" xs] by simp
qed

lemma drain:
  assumes "ok q" and "length (contents q) = n"
  shows "\<exists>q'. pops pop n q = (contents q, q') \<and> ok q' \<and> contents q' = []"
  using assms
proof (induction n arbitrary: q)
  case 0
  then show ?case by simp
next
  case (Suc n)
  then obtain x xs where q: "contents q = x # xs" by (cases "contents q") auto
  note p = pop_ok [OF Suc.prems(1) q]
  obtain q' where "pops pop n (snd (pop q)) = (xs, q')" "ok q'" "contents q' = []"
    using Suc.IH [of "snd (pop q)"] p Suc.prems(2) q by auto
  then show ?case using p q by (simp add: prod.case_eq_if)
qed

end

section \<open>Rings\<close>

text \<open>The representation every queue of the kernel uses: an array of \<open>cap\<close> cells, the index of
  the oldest element and a count.\<close>

definition ring_ok :: "nat \<Rightarrow> 'a list \<times> nat \<times> nat \<Rightarrow> bool" where
  "ring_ok cap r \<longleftrightarrow> (case r of (buf, head, n) \<Rightarrow> length buf = cap \<and> head < cap \<and> n \<le> cap)"

definition ring_contents :: "nat \<Rightarrow> 'a list \<times> nat \<times> nat \<Rightarrow> 'a list" where
  "ring_contents cap r = (case r of (buf, head, n) \<Rightarrow> ring_list cap buf head n)"

definition ring_push :: "nat \<Rightarrow> 'a \<Rightarrow> 'a list \<times> nat \<times> nat \<Rightarrow> 'a list \<times> nat \<times> nat" where
  "ring_push cap x r = (case r of (buf, head, n) \<Rightarrow> (buf[(head + n) mod cap := x], head, n + 1))"

definition ring_pop :: "nat \<Rightarrow> 'a list \<times> nat \<times> nat \<Rightarrow> 'a \<times> 'a list \<times> nat \<times> nat" where
  "ring_pop cap r = (case r of (buf, head, n) \<Rightarrow> (buf ! head, buf, (head + 1) mod cap, n - 1))"

lemma ring_bounded_queue:
  assumes "0 < cap"
  shows "bounded_queue cap (ring_ok cap) (ring_contents cap) (ring_push cap) (ring_pop cap)"
proof
  fix q :: "'a list \<times> nat \<times> nat" and x xs
  obtain buf head n where q: "q = (buf, head, n)" by (cases q) auto
  show "0 < cap" by (rule assms)
  assume ok: "ring_ok cap q"
  then show "length (ring_contents cap q) \<le> cap" by (simp add: q ring_ok_def ring_contents_def)
  show "ring_ok cap (ring_push cap x q) \<and> ring_contents cap (ring_push cap x q) = ring_contents cap q @ [x]"
    if "length (ring_contents cap q) < cap"
    using ok that by (simp add: q ring_ok_def ring_contents_def ring_push_def ring_list_push)
  show "fst (ring_pop cap q) = x \<and> ring_ok cap (snd (ring_pop cap q)) \<and> ring_contents cap (snd (ring_pop cap q)) = xs"
    if c: "ring_contents cap q = x # xs"
  proof -
    obtain m where m: "n = Suc m" using c by (cases n) (simp_all add: q ring_contents_def)
    then have "ring_list cap buf head n = buf ! head # ring_list cap buf ((head + 1) mod cap) m"
      using ok assms by (simp add: q ring_ok_def ring_list_pop)
    then show ?thesis using ok c m assms by (simp add: q ring_ok_def ring_contents_def ring_pop_def)
  qed
qed

text \<open>A component whose queue is a ring in some fields of its state satisfies the contract.\<close>

lemma ring_view_queue:
  assumes cap: "0 < cap"
    and push: "\<And>x q. r (push x q) = ring_push cap x (r q)"
    and pop: "\<And>q. fst (pop q) = fst (ring_pop cap (r q))" "\<And>q. r (snd (pop q)) = snd (ring_pop cap (r q))"
  shows "bounded_queue cap (\<lambda>q. ring_ok cap (r q)) (\<lambda>q. ring_contents cap (r q)) push pop"
proof -
  note b = ring_bounded_queue [OF cap]
  show ?thesis
    by unfold_locales (use bounded_queue.contents_le [OF b] bounded_queue.push_ok [OF b] bounded_queue.pop_ok [OF b] cap in
      \<open>simp_all add: push pop\<close>)
qed

end
