(* ===== verification/Power_Policy.thy ===== *)
theory Power_Policy
  imports Kernel_State Bounded_Queue
begin

text \<open>
  The keyboard buffer of \<open>kernel/keyboard.c\<close> and the power policy of \<open>kernel/power.c\<close>: keys are
  collected in a queue of 256 and handed to the keyboard buffer at the next flush, or at once in
  performance mode.  The tick hook, which also flushes the network, follows in \<open>Netfs\<close>.
\<close>

section \<open>Definitions\<close>

definition POWER_MODE_PERFORMANCE :: u32 where "POWER_MODE_PERFORMANCE = 0"
definition POWER_MODE_BALANCED :: u32 where "POWER_MODE_BALANCED = 1"
definition POWER_MODE_ENERGY_SAVER :: u32 where "POWER_MODE_ENERGY_SAVER = 2"
definition POWER_KEYBOARD_QCAP :: nat where "POWER_KEYBOARD_QCAP = 256"

subsection \<open>Keyboard buffer\<close>

definition keyboard_init :: "'d kernel \<Rightarrow> 'd kernel" where
  "keyboard_init k = k\<lparr>k_kbd := (k_kbd k)\<lparr>kb_head := 0, kb_tail := 0, kb_left_shift := False,
     kb_right_shift := False, kb_extended_prefix := False\<rparr>\<rparr>"

definition keyboard_buffer_put :: "char \<Rightarrow> kbd_state \<Rightarrow> kbd_state" where
  "keyboard_buffer_put ch kb =
     kb\<lparr>kb_buffer := (kb_buffer kb)[unat (kb_head kb mod 256) := ch], kb_head := kb_head kb + 1\<rparr>"

text \<open>\<open>None\<close> is the result -1.\<close>

definition keyboard_getchar :: "kbd_state \<Rightarrow> char option \<times> kbd_state" where
  "keyboard_getchar kb =
     (if kb_head kb = kb_tail kb then (None, kb)
      else (Some (kb_buffer kb ! unat (kb_tail kb mod 256)), kb\<lparr>kb_tail := kb_tail kb + 1\<rparr>))"

subsection \<open>Deferred keys\<close>

definition kq_push :: "char \<Rightarrow> power_state \<Rightarrow> power_state" where
  "kq_push ch p =
     (let tail = (p_keyboard_head p + p_keyboard_count p) mod POWER_KEYBOARD_QCAP
      in p\<lparr>p_keyboard_q := (p_keyboard_q p)[tail := ch], p_keyboard_count := p_keyboard_count p + 1\<rparr>)"

definition kq_pop :: "power_state \<Rightarrow> char \<times> power_state" where
  "kq_pop p = (p_keyboard_q p ! p_keyboard_head p,
     p\<lparr>p_keyboard_head := (p_keyboard_head p + 1) mod POWER_KEYBOARD_QCAP, p_keyboard_count := p_keyboard_count p - 1\<rparr>)"

fun keyboard_flush_loop :: "nat \<Rightarrow> 'd kernel \<Rightarrow> 'd kernel" where
  "keyboard_flush_loop 0 k = k"
| "keyboard_flush_loop (Suc n) k =
     (let (ch, p) = kq_pop (k_power k)
      in keyboard_flush_loop n (k\<lparr>k_power := p, k_kbd := keyboard_buffer_put ch (k_kbd k)\<rparr>))"

definition upd_pstats :: "(power_stats \<Rightarrow> power_stats) \<Rightarrow> 'd kernel \<Rightarrow> 'd kernel" where
  "upd_pstats f k = k\<lparr>k_power := (k_power k)\<lparr>p_stats := f (p_stats (k_power k))\<rparr>\<rparr>"

text \<open>The loop runs while the count is positive; each round takes one off it.\<close>

definition keyboard_flush_now :: "'d kernel \<Rightarrow> 'd kernel" where
  "keyboard_flush_now k =
     (if p_keyboard_count (k_power k) = 0 then k
      else
        (let k1 = upd_pstats (\<lambda>s. s\<lparr>pw_wakeups := pw_wakeups s + 1, pw_keyboard_flushes := pw_keyboard_flushes s + 1\<rparr>) k;
             k2 = keyboard_flush_loop (p_keyboard_count (k_power k1)) k1
         in upd_pstats (\<lambda>s. s\<lparr>pw_pending_keys := 0\<rparr>) k2))"

definition power_init :: "'d kernel \<Rightarrow> 'd kernel" where
  "power_init k = k\<lparr>k_power := power_zero\<lparr>p_mode := POWER_MODE_BALANCED,
     p_stats := power_stats_zero\<lparr>pw_mode := POWER_MODE_BALANCED\<rparr>\<rparr>\<rparr>"

definition power_set_mode :: "u32 \<Rightarrow> 'd kernel \<Rightarrow> 'd kernel" where
  "power_set_mode mode k =
     (if mode > POWER_MODE_ENERGY_SAVER then k
      else
        (let k1 = upd_pstats (\<lambda>s. s\<lparr>pw_mode := mode, pw_mode_switches := pw_mode_switches s + 1\<rparr>)
               (k\<lparr>k_power := (k_power k)\<lparr>p_mode := mode\<rparr>\<rparr>)
         in trace_record TRACE_EVENT_POWER 0 (ucast mode) (pw_mode_switches (p_stats (k_power k1))) k1))"

definition power_get_mode :: "'d kernel \<Rightarrow> u32" where
  "power_get_mode k = p_mode (k_power k)"

definition power_mode_name :: "'d kernel \<Rightarrow> char list" where
  "power_mode_name k =
     (let m = p_mode (k_power k) in
      if m = POWER_MODE_PERFORMANCE then ''performance''
      else if m = POWER_MODE_BALANCED then ''balanced''
      else if m = POWER_MODE_ENERGY_SAVER then ''energy-saver''
      else ''unknown'')"

definition power_keyboard_flush_interval :: "'d kernel \<Rightarrow> u32" where
  "power_keyboard_flush_interval k =
     (let m = p_mode (k_power k) in
      if m = POWER_MODE_PERFORMANCE then 1
      else if m = POWER_MODE_BALANCED then 3
      else if m = POWER_MODE_ENERGY_SAVER then 12
      else 3)"

definition power_net_batch_limit :: "'d kernel \<Rightarrow> u32" where
  "power_net_batch_limit k =
     (let m = p_mode (k_power k) in
      if m = POWER_MODE_PERFORMANCE then 1
      else if m = POWER_MODE_BALANCED then 4
      else if m = POWER_MODE_ENERGY_SAVER then 16
      else 4)"

definition power_keyboard_char :: "char \<Rightarrow> 'd kernel \<Rightarrow> 'd kernel" where
  "power_keyboard_char ch k =
     (let k1 = upd_pstats (\<lambda>s. s\<lparr>pw_keyboard_events := pw_keyboard_events s + 1\<rparr>) k;
          wake = (\<lambda>k. let k' = upd_pstats (\<lambda>s. s\<lparr>pw_wakeups := pw_wakeups s + 1\<rparr>) k
                       in k'\<lparr>k_kbd := keyboard_buffer_put ch (k_kbd k')\<rparr>)
      in if p_mode (k_power k1) = POWER_MODE_PERFORMANCE then wake k1
         else if p_keyboard_count (k_power k1) < POWER_KEYBOARD_QCAP
         then
           (let k2 = k1\<lparr>k_power := kq_push ch (k_power k1)\<rparr>
            in upd_pstats (\<lambda>s. s\<lparr>pw_pending_keys := word_of_nat (p_keyboard_count (k_power k2)),
                 pw_keyboard_coalesced := pw_keyboard_coalesced s + 1\<rparr>) k2)
         else wake k1)"

subsection \<open>Network accounting\<close>

definition power_note_net_enqueued :: "u32 \<Rightarrow> 'd kernel \<Rightarrow> 'd kernel" where
  "power_note_net_enqueued bytes k =
     upd_pstats (\<lambda>s. s\<lparr>pw_net_tx_enqueued := pw_net_tx_enqueued s + 1,
       pw_pending_tx_packets := pw_pending_tx_packets s + 1, pw_pending_tx_bytes := pw_pending_tx_bytes s + bytes\<rparr>) k"

definition power_note_net_flushed :: "u32 \<Rightarrow> u32 \<Rightarrow> 'd kernel \<Rightarrow> 'd kernel" where
  "power_note_net_flushed packets bytes k =
     (if packets = 0 then k
      else
        (let k1 = upd_pstats (\<lambda>s. s\<lparr>pw_wakeups := pw_wakeups s + 1, pw_net_flushes := pw_net_flushes s + 1,
               pw_net_tx_flushed := pw_net_tx_flushed s + ucast packets,
               pw_pending_tx_packets :=
                 (if pw_pending_tx_packets s \<ge> packets then pw_pending_tx_packets s - packets else 0),
               pw_pending_tx_bytes :=
                 (if pw_pending_tx_bytes s \<ge> bytes then pw_pending_tx_bytes s - bytes else 0)\<rparr>) k
         in trace_record TRACE_EVENT_POWER 0 (ucast packets) (ucast bytes) k1))"

definition power_set_pending_net :: "u32 \<Rightarrow> u32 \<Rightarrow> 'd kernel \<Rightarrow> 'd kernel" where
  "power_set_pending_net packets bytes k =
     upd_pstats (\<lambda>s. s\<lparr>pw_pending_tx_packets := packets, pw_pending_tx_bytes := bytes\<rparr>) k"

definition power_get_stats :: "'d kernel \<Rightarrow> power_stats" where
  "power_get_stats k = (p_stats (k_power k))\<lparr>pw_mode := p_mode (k_power k),
     pw_pending_keys := word_of_nat (p_keyboard_count (k_power k))\<rparr>"

section \<open>The deferred keys are a bounded queue\<close>

definition kq :: "power_state \<Rightarrow> char list \<times> nat \<times> nat" where
  "kq p = (p_keyboard_q p, p_keyboard_head p, p_keyboard_count p)"

definition kq_ok :: "power_state \<Rightarrow> bool" where
  "kq_ok p \<longleftrightarrow> ring_ok POWER_KEYBOARD_QCAP (kq p)"

definition kq_contents :: "power_state \<Rightarrow> char list" where
  "kq_contents p = ring_contents POWER_KEYBOARD_QCAP (kq p)"

interpretation kq: bounded_queue POWER_KEYBOARD_QCAP kq_ok kq_contents kq_push kq_pop
  unfolding kq_ok_def [abs_def] kq_contents_def [abs_def]
  by (rule ring_view_queue)
    (simp_all add: POWER_KEYBOARD_QCAP_def kq_def kq_push_def kq_pop_def ring_push_def ring_pop_def Let_def)

lemma length_kq_contents: "length (kq_contents p) = p_keyboard_count p"
  by (simp add: kq_contents_def kq_def ring_contents_def)

lemma kq_stats [simp]: "kq_ok (p\<lparr>p_stats := s\<rparr>) = kq_ok p" "kq_contents (p\<lparr>p_stats := s\<rparr>) = kq_contents p"
  "kq_ok (p\<lparr>p_ticks_since_flush := t\<rparr>) = kq_ok p" "kq_contents (p\<lparr>p_ticks_since_flush := t\<rparr>) = kq_contents p"
  by (simp_all add: kq_ok_def kq_contents_def kq_def)

lemma kq_mode [simp]: "p_mode (kq_push ch p) = p_mode p" "p_mode (snd (kq_pop p)) = p_mode p"
  "p_stats (snd (kq_pop p)) = p_stats p" "p_ticks_since_flush (snd (kq_pop p)) = p_ticks_since_flush p"
  by (simp_all add: kq_push_def kq_pop_def Let_def)

lemma upd_pstats_fields [simp]:
  "k_con (upd_pstats f k) = k_con k" "k_ser (upd_pstats f k) = k_ser k" "k_vm (upd_pstats f k) = k_vm k"
  "k_trace (upd_pstats f k) = k_trace k" "k_fs (upd_pstats f k) = k_fs k" "k_sched (upd_pstats f k) = k_sched k"
  "k_kbd (upd_pstats f k) = k_kbd k" "k_net (upd_pstats f k) = k_net k" "k_ticks (upd_pstats f k) = k_ticks k"
  "p_mode (k_power (upd_pstats f k)) = p_mode (k_power k)"
  "p_keyboard_count (k_power (upd_pstats f k)) = p_keyboard_count (k_power k)"
  "p_stats (k_power (upd_pstats f k)) = f (p_stats (k_power k))"
  "kq_ok (k_power (upd_pstats f k)) = kq_ok (k_power k)"
  "kq_contents (k_power (upd_pstats f k)) = kq_contents (k_power k)"
  by (simp_all add: upd_pstats_def)

section \<open>The keyboard buffer\<close>

text \<open>The unread characters; \<open>head\<close> and \<open>tail\<close> run freely and wrap at 32 bits.\<close>

definition key_pending :: "kbd_state \<Rightarrow> char list" where
  "key_pending kb = ring_list 256 (kb_buffer kb) (unat (kb_tail kb) mod 256) (unat (kb_head kb - kb_tail kb))"

definition kbd_ok :: "kbd_state \<Rightarrow> bool" where
  "kbd_ok kb \<longleftrightarrow> length (kb_buffer kb) = 256 \<and> unat (kb_head kb - kb_tail kb) \<le> 256"

lemma length_key_pending [simp]: "length (key_pending kb) = unat (kb_head kb - kb_tail kb)"
  by (simp add: key_pending_def)

lemma unat_add_mod_256: "unat (t + d :: u32) mod 256 = (unat t + unat d) mod 256"
proof -
  have "unat (t + d) = (unat t + unat d) mod 2 ^ 32" by (simp add: unat_word_ariths(1))
  then have "unat (t + d) mod 256 = (unat t + unat d) mod 2 ^ 32 mod 256" by simp
  also have "\<dots> = (unat t + unat d) mod 256" by (rule mod_mod_cancel) simp
  finally show ?thesis .
qed

lemma head_index: "unat (kb_head kb) mod 256 = (unat (kb_tail kb) mod 256 + unat (kb_head kb - kb_tail kb)) mod 256"
proof -
  have "unat (kb_tail kb + (kb_head kb - kb_tail kb)) mod 256 = (unat (kb_tail kb) + unat (kb_head kb - kb_tail kb)) mod 256"
    by (rule unat_add_mod_256)
  then show ?thesis by (simp add: mod_add_left_eq)
qed

lemma buffer_put_ok:
  assumes ok: "kbd_ok kb" and room: "length (key_pending kb) < 256"
  shows "kbd_ok (keyboard_buffer_put ch kb)" "key_pending (keyboard_buffer_put ch kb) = key_pending kb @ [ch]"
proof -
  let ?d = "kb_head kb - kb_tail kb"
  have n: "unat ?d < 256" using room by simp
  have d: "kb_head kb + 1 - kb_tail kb = ?d + 1" by simp
  have u: "unat (?d + 1) = Suc (unat ?d)" using n by (subst unat_add_no_wrap) simp_all
  have i: "unat (kb_head kb mod 256) = (unat (kb_tail kb) mod 256 + unat ?d) mod 256"
    using head_index [of kb] by (simp add: unat_mod)
  show "kbd_ok (keyboard_buffer_put ch kb)"
    using ok n u by (simp add: kbd_ok_def keyboard_buffer_put_def d)
  show "key_pending (keyboard_buffer_put ch kb) = key_pending kb @ [ch]"
    using ok n by (simp add: key_pending_def keyboard_buffer_put_def d u i ring_list_push kbd_ok_def)
qed

lemma getchar_ok:
  assumes ok: "kbd_ok kb"
  shows "case key_pending kb of [] \<Rightarrow> keyboard_getchar kb = (None, kb)
    | c # cs \<Rightarrow> \<exists>kb'. keyboard_getchar kb = (Some c, kb') \<and> kbd_ok kb' \<and> key_pending kb' = cs"
proof (cases "unat (kb_head kb - kb_tail kb)")
  case 0
  then have "kb_head kb = kb_tail kb" by (simp add: unat_eq_zero)
  with 0 show ?thesis by (simp add: key_pending_def keyboard_getchar_def)
next
  case (Suc m)
  let ?d = "kb_head kb - kb_tail kb"
  have ne: "kb_head kb \<noteq> kb_tail kb" using Suc by auto
  have d: "kb_head kb - (kb_tail kb + 1) = ?d - 1" by simp
  have u: "unat (?d - 1) = m" using Suc by (subst unat_minus_no_wrap) (simp_all add: word_le_nat_alt)
  have t: "unat (kb_tail kb + 1) mod 256 = (unat (kb_tail kb) mod 256 + 1) mod 256"
    using unat_add_mod_256 [of "kb_tail kb" 1] by (simp add: mod_Suc_eq)
  have "key_pending kb = kb_buffer kb ! unat (kb_tail kb mod 256) # key_pending (kb\<lparr>kb_tail := kb_tail kb + 1\<rparr>)"
    using Suc by (simp add: key_pending_def d u t ring_list_pop unat_mod)
  then show ?thesis using ne ok u Suc by (simp add: keyboard_getchar_def kbd_ok_def d)
qed

section \<open>Keys in order\<close>

text \<open>The keys that were typed and not yet read, oldest first: the buffer, then the deferred.\<close>

definition key_stream :: "'d kernel \<Rightarrow> char list" where
  "key_stream k = key_pending (k_kbd k) @ kq_contents (k_power k)"

definition keys_ok :: "'d kernel \<Rightarrow> bool" where
  "keys_ok k \<longleftrightarrow> kbd_ok (k_kbd k) \<and> kq_ok (k_power k)"

lemma flush_loop_ok:
  assumes "keys_ok k" and "length (kq_contents (k_power k)) = n" and "length (key_stream k) \<le> 256"
  shows "keys_ok (keyboard_flush_loop n k) \<and> key_pending (k_kbd (keyboard_flush_loop n k)) = key_stream k \<and>
    kq_contents (k_power (keyboard_flush_loop n k)) = []"
  using assms
proof (induction n arbitrary: k)
  case 0
  then show ?case by (simp add: key_stream_def)
next
  case (Suc n)
  obtain ch q where q: "kq_contents (k_power k) = ch # q" using Suc.prems(2) by (cases "kq_contents (k_power k)") auto
  have ok: "kq_ok (k_power k)" "kbd_ok (k_kbd k)" using Suc.prems(1) by (simp_all add: keys_ok_def)
  note p = kq.pop_ok [OF ok(1) q]
  have room: "length (key_pending (k_kbd k)) < 256" using Suc.prems(3) q by (simp add: key_stream_def)
  define k1 where "k1 = k\<lparr>k_power := snd (kq_pop (k_power k)), k_kbd := keyboard_buffer_put ch (k_kbd k)\<rparr>"
  have l: "keyboard_flush_loop (Suc n) k = keyboard_flush_loop n k1"
    using p by (simp add: k1_def prod.case_eq_if)
  have s: "key_stream k1 = key_stream k" "keys_ok k1" "kq_contents (k_power k1) = q"
    using p buffer_put_ok [OF ok(2) room, of ch] q by (simp_all add: k1_def key_stream_def keys_ok_def)
  show ?case unfolding l using Suc.IH [OF s(2)] s Suc.prems q by simp
qed

lemma flush_loop_frame:
  "k_net (keyboard_flush_loop n k) = k_net k" "k_trace (keyboard_flush_loop n k) = k_trace k"
  "p_mode (k_power (keyboard_flush_loop n k)) = p_mode (k_power k)"
  "p_ticks_since_flush (k_power (keyboard_flush_loop n k)) = p_ticks_since_flush (k_power k)"
  by (induction n arbitrary: k) (simp_all add: prod.case_eq_if)

text \<open>Flushing delivers every deferred key, in order, when there is room for all of them.\<close>

lemma flush_now_ok:
  assumes "keys_ok k" and "length (key_stream k) \<le> 256"
  shows "keys_ok (keyboard_flush_now k) \<and> key_stream (keyboard_flush_now k) = key_stream k \<and>
    kq_contents (k_power (keyboard_flush_now k)) = []"
proof (cases "p_keyboard_count (k_power k) = 0")
  case True
  then have "kq_contents (k_power k) = []" using length_kq_contents [of "k_power k"] by simp
  with True assms(1) show ?thesis by (simp add: keyboard_flush_now_def)
next
  case False
  let ?k1 = "upd_pstats (\<lambda>s. s\<lparr>pw_wakeups := pw_wakeups s + 1, pw_keyboard_flushes := pw_keyboard_flushes s + 1\<rparr>) k"
  have k1: "keys_ok ?k1" "length (kq_contents (k_power ?k1)) = p_keyboard_count (k_power ?k1)" "key_stream ?k1 = key_stream k"
    using assms(1) by (simp_all add: keys_ok_def key_stream_def length_kq_contents)
  from flush_loop_ok [OF k1(1,2)] k1(3) assms(2) False show ?thesis
    by (simp add: keyboard_flush_now_def Let_def keys_ok_def key_stream_def)
qed

lemma keyboard_char_ok:
  assumes "keys_ok k" and "p_mode (k_power k) \<noteq> POWER_MODE_PERFORMANCE" and "length (key_stream k) < 256"
  shows "keys_ok (power_keyboard_char ch k)" "key_stream (power_keyboard_char ch k) = key_stream k @ [ch]"
proof -
  have c: "p_keyboard_count (k_power k) < POWER_KEYBOARD_QCAP"
    using assms(3) by (simp add: key_stream_def POWER_KEYBOARD_QCAP_def length_kq_contents)
  let ?k1 = "upd_pstats (\<lambda>s. s\<lparr>pw_keyboard_events := pw_keyboard_events s + 1\<rparr>) k"
  have p: "kq_ok (kq_push ch (k_power ?k1))" "kq_contents (kq_push ch (k_power ?k1)) = kq_contents (k_power k) @ [ch]"
    using kq.push_ok [of "k_power ?k1" ch] assms(1) c by (simp_all add: keys_ok_def length_kq_contents)
  show "keys_ok (power_keyboard_char ch k)" "key_stream (power_keyboard_char ch k) = key_stream k @ [ch]"
    using assms(1,2) c p by (simp_all add: power_keyboard_char_def Let_def keys_ok_def key_stream_def)
qed

end
