(* ===== verification/Netfs.thy ===== *)
theory Netfs
  imports Power_Policy Text_Buffer Aspace
begin

text \<open>
  The network files of \<open>kernel/netfs.c\<close>: a transmit queue that batches packets, a receive queue
  that drops the oldest packet when it is full, and the text rendered for the files under
  \<open>/net\<close>.  With loopback enabled a transmitted packet is received.  The tick hook of
  \<open>kernel/power.c\<close>, which flushes keys and packets, is here because it calls both.
\<close>

section \<open>Definitions\<close>

definition NETFS_MAX_PAYLOAD :: u32 where "NETFS_MAX_PAYLOAD = 256"
definition NETFS_QUEUE_CAP :: nat where "NETFS_QUEUE_CAP = 32"
definition NET_EVENT_TX :: u64 where "NET_EVENT_TX = 1"
definition NET_EVENT_RX :: u64 where "NET_EVENT_RX = 2"
definition NET_EVENT_CFG :: u64 where "NET_EVENT_CFG = 3"

definition path_eq :: "char list \<Rightarrow> char list \<Rightarrow> bool" where
  "path_eq a b \<longleftrightarrow> strcmp a b = 0"

definition upd_net :: "(netfs_state \<Rightarrow> netfs_state) \<Rightarrow> 'd kernel \<Rightarrow> 'd kernel" where
  "upd_net f k = k\<lparr>k_net := f (k_net k)\<rparr>"

definition upd_nstats :: "(netfs_stats \<Rightarrow> netfs_stats) \<Rightarrow> 'd kernel \<Rightarrow> 'd kernel" where
  "upd_nstats f k = upd_net (\<lambda>n. n\<lparr>net_stats := f (net_stats n)\<rparr>) k"

definition clip_len :: "u32 \<Rightarrow> u32" where
  "clip_len len = (if len > NETFS_MAX_PAYLOAD then NETFS_MAX_PAYLOAD else len)"

text \<open>A queue slot that is filled: the payload bytes beyond \<open>len\<close> keep their old values.\<close>

definition fill_packet :: "u64 \<Rightarrow> u64 \<Rightarrow> u8 list \<Rightarrow> u32 \<Rightarrow> net_packet \<Rightarrow> net_packet" where
  "fill_packet pid now data len pkt = pkt\<lparr>np_packet_id := pid, np_ticks := now, np_len := len,
     np_data := (if len \<noteq> 0 then memcpy (np_data pkt) data (unat len) else np_data pkt)\<rparr>"

definition rx_push :: "net_packet \<Rightarrow> netfs_state \<Rightarrow> netfs_state" where
  "rx_push pkt n = n\<lparr>rx_queue := (rx_queue n)[(rx_head n + rx_count n) mod NETFS_QUEUE_CAP := pkt],
     rx_count := rx_count n + 1\<rparr>"

definition rx_pop :: "netfs_state \<Rightarrow> net_packet \<times> netfs_state" where
  "rx_pop n = (rx_queue n ! rx_head n,
     n\<lparr>rx_head := (rx_head n + 1) mod NETFS_QUEUE_CAP, rx_count := rx_count n - 1\<rparr>)"

definition tx_push :: "net_packet \<Rightarrow> netfs_state \<Rightarrow> netfs_state" where
  "tx_push pkt n = n\<lparr>tx_queue := (tx_queue n)[(tx_head n + tx_count n) mod NETFS_QUEUE_CAP := pkt],
     tx_count := tx_count n + 1\<rparr>"

definition tx_pop :: "netfs_state \<Rightarrow> net_packet \<times> netfs_state" where
  "tx_pop n = (tx_queue n ! tx_head n,
     n\<lparr>tx_head := (tx_head n + 1) mod NETFS_QUEUE_CAP, tx_count := tx_count n - 1\<rparr>)"

definition enqueue_rx_packet :: "u8 list \<Rightarrow> u32 \<Rightarrow> 'd kernel \<Rightarrow> 'd kernel" where
  "enqueue_rx_packet data len0 k =
     (let len = clip_len len0;
          k1 = (if rx_count (k_net k) = NETFS_QUEUE_CAP
                then upd_nstats (\<lambda>s. s\<lparr>ns_dropped_packets := ns_dropped_packets s + 1\<rparr>) (upd_net (\<lambda>n. snd (rx_pop n)) k)
                else k);
          n = k_net k1;
          slot = (rx_head n + rx_count n) mod NETFS_QUEUE_CAP;
          pid = next_packet_id n;
          pkt = fill_packet pid (pit_ticks k1) data len (rx_queue n ! slot);
          k2 = upd_net (\<lambda>n. rx_push pkt (n\<lparr>next_packet_id := pid + 1\<rparr>)) k1;
          k3 = upd_nstats (\<lambda>s. s\<lparr>ns_rx_packets := ns_rx_packets s + 1, ns_rx_bytes := ns_rx_bytes s + ucast len,
                 ns_queue_depth := word_of_nat (rx_count (k_net k2)), ns_last_packet_id := pid\<rparr>) k2
      in trace_record TRACE_EVENT_NET 0 NET_EVENT_RX pid k3)"

definition transmit_now :: "u8 list \<Rightarrow> u32 \<Rightarrow> 'd kernel \<Rightarrow> 'd kernel" where
  "transmit_now data len k =
     (let k1 = upd_nstats (\<lambda>s. s\<lparr>ns_tx_packets := ns_tx_packets s + 1, ns_tx_bytes := ns_tx_bytes s + ucast len\<rparr>) k;
          k2 = trace_record TRACE_EVENT_NET 0 NET_EVENT_TX (ucast len) k1
      in if ns_loopback_enabled (net_stats (k_net k2)) \<noteq> 0 then enqueue_rx_packet data len k2 else k2)"

definition enqueue_tx_packet :: "u8 list \<Rightarrow> u32 \<Rightarrow> 'd kernel \<Rightarrow> bool \<times> 'd kernel" where
  "enqueue_tx_packet data len0 k =
     (let len = clip_len len0; n = k_net k in
      if tx_count n = NETFS_QUEUE_CAP then (False, k)
      else
        (let slot = (tx_head n + tx_count n) mod NETFS_QUEUE_CAP;
             pid = next_packet_id n;
             pkt = fill_packet pid (pit_ticks k) data len (tx_queue n ! slot);
             k1 = upd_net (\<lambda>n. (tx_push pkt (n\<lparr>next_packet_id := pid + 1\<rparr>))\<lparr>tx_pending_bytes := tx_pending_bytes n + len\<rparr>) k;
             k2 = power_note_net_enqueued len k1
         in (True, power_set_pending_net (word_of_nat (tx_count (k_net k2))) (tx_pending_bytes (k_net k2)) k2)))"

text \<open>The loop of \<open>flush_tx_queue\<close>: it runs while \<open>tx_count\<close> is positive.\<close>

fun flush_tx_loop :: "nat \<Rightarrow> u32 \<Rightarrow> u32 \<Rightarrow> 'd kernel \<Rightarrow> (u32 \<times> u32) \<times> 'd kernel" where
  "flush_tx_loop 0 packets bytes k = ((packets, bytes), k)"
| "flush_tx_loop (Suc c) packets bytes k =
     (let pkt = tx_queue (k_net k) ! tx_head (k_net k);
          k1 = transmit_now (np_data pkt) (np_len pkt) k
      in flush_tx_loop c (packets + 1) (bytes + np_len pkt) (upd_net (\<lambda>n. snd (tx_pop n)) k1))"

definition flush_tx_queue :: "'d kernel \<Rightarrow> 'd kernel" where
  "flush_tx_queue k =
     (let ((packets, bytes), k1) = flush_tx_loop (tx_count (k_net k)) 0 0 k;
          k2 = upd_net (\<lambda>n. n\<lparr>tx_pending_bytes := 0\<rparr>) k1;
          k3 = power_set_pending_net (word_of_nat (tx_count (k_net k2))) (tx_pending_bytes (k_net k2)) k2
      in power_note_net_flushed packets bytes k3)"

definition netfs_flush_tx :: "'d kernel \<Rightarrow> 'd kernel" where
  "netfs_flush_tx k = flush_tx_queue k"

definition netfs_init :: "'d kernel \<Rightarrow> 'd kernel" where
  "netfs_init k = k\<lparr>k_net := netfs_zero\<lparr>next_packet_id := 1,
     net_stats := netfs_stats_zero\<lparr>ns_loopback_enabled := 1\<rparr>\<rparr>\<rparr>"

text \<open>A string literal that ends in a line feed.\<close>

abbreviation ln :: "char list \<Rightarrow> char list" where
  "ln s \<equiv> s @ [LF]"

definition netfs_list :: "char list option \<Rightarrow> 'd kernel \<Rightarrow> 'd kernel option" where
  "netfs_list path k =
     (let root = Some (fold both_write [ln ''/net'', ln ''  tx'', ln ''  stats'', ln ''  explain'', ln ''  rx/'', ln ''  config/''] k) in
      case path of
        None \<Rightarrow> root
      | Some p \<Rightarrow>
          if path_eq p ''/net'' \<or> path_eq p ''/net/'' then root
          else if path_eq p ''/net/rx'' \<or> path_eq p ''/net/rx/''
          then Some (fold both_write [ln ''/net/rx'', ln ''  last'', ln ''  queue'', ln ''  inject''] k)
          else if path_eq p ''/net/config'' \<or> path_eq p ''/net/config/''
          then Some (fold both_write [ln ''/net/config'', ln ''  loopback''] k)
          else both_printf (ln ''ls: unsupported path %s'') [Str p] k)"

definition string_bytes :: "char list \<Rightarrow> u8 list" where
  "string_bytes s = map byte_of_char s"

text \<open>Result \<open>False\<close> is the return value -1; \<open>data\<close> is a terminated string.\<close>

definition netfs_write_path :: "char list option \<Rightarrow> char list option \<Rightarrow> 'd kernel \<Rightarrow> bool \<times> 'd kernel" where
  "netfs_write_path path data k =
     (case (path, data) of
        (Some p, Some d) \<Rightarrow>
          (let len = word_of_nat (strlen d) :: u32; bytes = string_bytes d in
           if path_eq p ''/net/config/loopback''
           then
             (if cdref d = CHR ''0'' \<or> cdref d = CHR ''1''
              then
                (let k1 = upd_nstats (\<lambda>s. s\<lparr>ns_loopback_enabled := (if cdref d = CHR ''0'' then 0 else 1)\<rparr>) k
                 in (True, trace_record TRACE_EVENT_NET 0 NET_EVENT_CFG (ucast (ns_loopback_enabled (net_stats (k_net k1)))) k1))
              else (False, k))
           else if path_eq p ''/net/rx/inject'' then (True, enqueue_rx_packet bytes len k)
           else if path_eq p ''/net/tx''
           then
             (if power_get_mode k = POWER_MODE_PERFORMANCE then (True, transmit_now bytes len k)
              else
                (let (ok1, k1) = enqueue_tx_packet bytes len k;
                     (ok2, k2) = (if ok1 then (True, k1) else enqueue_tx_packet bytes len (flush_tx_queue k1))
                 in if \<not> ok2 then (False, k2)
                    else (True, if word_of_nat (tx_count (k_net k2)) \<ge> power_net_batch_limit k2
                                then flush_tx_queue k2 else k2)))
           else (False, k))
      | _ \<Rightarrow> (False, k))"

definition netfs_get_stats :: "'d kernel \<Rightarrow> netfs_stats" where
  "netfs_get_stats k = (net_stats (k_net k))\<lparr>ns_queue_depth := word_of_nat (rx_count (k_net k))\<rparr>"

text \<open>The text of a file under \<open>/net\<close>, as the sequence of appends.  \<open>(char)\<close> is signed, so a byte
  of 128 or more is below 32 and printed as a dot.\<close>

definition shown_char :: "u8 \<Rightarrow> char" where
  "shown_char b = (if sint b < 32 \<or> sint b > 126 \<or> b = 34 \<or> b = 92 then CHR ''.'' else char_of_byte b)"

definition last_index :: "netfs_state \<Rightarrow> nat" where
  "last_index n = (rx_head n + rx_count n - 1) mod NETFS_QUEUE_CAP"

definition net_pieces :: "char list \<Rightarrow> netfs_state \<Rightarrow> piece list option" where
  "net_pieces path n =
     (let s = net_stats n in
      if path_eq path ''/net/stats'' then
        Some [Txt ''tx_packets='', Dec (ns_tx_packets s), Txt '' tx_bytes='', Dec (ns_tx_bytes s),
          Txt '' rx_packets='', Dec (ns_rx_packets s), Txt '' rx_bytes='', Dec (ns_rx_bytes s),
          Txt '' dropped='', Dec (ns_dropped_packets s), Txt '' queue_depth='', Dec (word_of_nat (rx_count n)),
          Txt '' tx_pending='', Dec (word_of_nat (tx_count n)), Txt '' loopback='', Dec (ucast (ns_loopback_enabled s)),
          Txt '' last_packet='', Dec (ns_last_packet_id s), Chr LF]
      else if path_eq path ''/net/config/loopback'' then Some [Dec (ucast (ns_loopback_enabled s)), Chr LF]
      else if path_eq path ''/net/explain'' then
        Some [Txt (ln ''netfs: packet i/o is modeled as files under /net.''),
          Txt (ln ''write /net/tx <payload> for outbound packets.''),
          Txt (ln ''write /net/rx/inject <payload> for inbound packet injection.'')]
      else if path_eq path ''/net/rx/queue'' then
        Some ([Txt ''rx queue depth='', Dec (word_of_nat (rx_count n)), Chr LF] @
          concat (map (\<lambda>i. let pkt = rx_queue n ! ((rx_head n + i) mod NETFS_QUEUE_CAP) in
            [Txt ''idx='', Dec (word_of_nat i), Txt '' id='', Dec (np_packet_id pkt), Txt '' len='', Dec (ucast (np_len pkt)), Chr LF])
            [0..<rx_count n]))
      else if path_eq path ''/net/rx/last'' then
        (if rx_count n = 0 then Some [Txt (ln ''rx queue empty'')]
         else
           (let pkt = rx_queue n ! last_index n in
            Some ([Txt ''packet id='', Dec (np_packet_id pkt), Txt '' len='', Dec (ucast (np_len pkt)), Txt ('' data='' @ [CHR 0x22])] @
              map (\<lambda>b. Chr (shown_char b)) (take (unat (np_len pkt)) (np_data pkt)) @ [Txt [CHR 0x22, LF]])))
      else if path_eq path ''/net/tx'' then Some [Txt (ln ''write-only endpoint for outbound packets'')]
      else None)"

definition netfs_render_path :: "char list option \<Rightarrow> char list \<Rightarrow> u32 \<Rightarrow> 'd kernel \<Rightarrow> tbuf option" where
  "netfs_render_path path buf cap k =
     (case path of
        None \<Rightarrow> None
      | Some p \<Rightarrow>
          if cap = 0 then None
          else map_option (\<lambda>ps. render cap ps (buf[0 := NUL], 0)) (net_pieces p (k_net k)))"

definition netfs_read_path :: "char list option \<Rightarrow> char list \<Rightarrow> 'd kernel \<Rightarrow> bool \<times> 'd kernel" where
  "netfs_read_path path buf k =
     (case netfs_render_path path buf 768 k of
        None \<Rightarrow> (False, k)
      | Some (out, _) \<Rightarrow> (True, both_write out k))"

definition netfs_peek_last_rx :: "'d kernel \<Rightarrow> net_packet option" where
  "netfs_peek_last_rx k =
     (let n = k_net k; pkt = rx_queue n ! last_index n in
      if rx_count n = 0 then None else Some (pkt\<lparr>np_data := take (unat (np_len pkt)) (np_data pkt)\<rparr>))"

definition netfs_power_tick :: "'d kernel \<Rightarrow> 'd kernel" where
  "netfs_power_tick k =
     (if power_get_mode k \<noteq> POWER_MODE_PERFORMANCE \<and> tx_count (k_net k) \<noteq> 0 then flush_tx_queue k else k)"

definition power_tick_hook :: "'d kernel \<Rightarrow> 'd kernel" where
  "power_tick_hook k =
     (let k1 = k\<lparr>k_power := (k_power k)\<lparr>p_ticks_since_flush := p_ticks_since_flush (k_power k) + 1\<rparr>\<rparr> in
      if p_ticks_since_flush (k_power k1) \<ge> power_keyboard_flush_interval k1
      then
        (let k2 = netfs_power_tick (keyboard_flush_now k1)
         in k2\<lparr>k_power := (k_power k2)\<lparr>p_ticks_since_flush := 0\<rparr>\<rparr>)
      else k1)"

section \<open>The packet queues\<close>

definition rx_ring :: "netfs_state \<Rightarrow> net_packet list \<times> nat \<times> nat" where
  "rx_ring n = (rx_queue n, rx_head n, rx_count n)"

definition tx_ring :: "netfs_state \<Rightarrow> net_packet list \<times> nat \<times> nat" where
  "tx_ring n = (tx_queue n, tx_head n, tx_count n)"

definition rx_ok :: "netfs_state \<Rightarrow> bool" where "rx_ok n \<longleftrightarrow> ring_ok NETFS_QUEUE_CAP (rx_ring n)"
definition tx_ok :: "netfs_state \<Rightarrow> bool" where "tx_ok n \<longleftrightarrow> ring_ok NETFS_QUEUE_CAP (tx_ring n)"
definition rx_contents :: "netfs_state \<Rightarrow> net_packet list" where "rx_contents n = ring_contents NETFS_QUEUE_CAP (rx_ring n)"
definition tx_contents :: "netfs_state \<Rightarrow> net_packet list" where "tx_contents n = ring_contents NETFS_QUEUE_CAP (tx_ring n)"

interpretation rx: bounded_queue NETFS_QUEUE_CAP rx_ok rx_contents rx_push rx_pop
  unfolding rx_ok_def [abs_def] rx_contents_def [abs_def]
  by (rule ring_view_queue)
    (simp_all add: NETFS_QUEUE_CAP_def rx_ring_def rx_push_def rx_pop_def ring_push_def ring_pop_def)

interpretation tx: bounded_queue NETFS_QUEUE_CAP tx_ok tx_contents tx_push tx_pop
  unfolding tx_ok_def [abs_def] tx_contents_def [abs_def]
  by (rule ring_view_queue)
    (simp_all add: NETFS_QUEUE_CAP_def tx_ring_def tx_push_def tx_pop_def ring_push_def ring_pop_def)

lemma length_rx_contents [simp]: "length (rx_contents n) = rx_count n"
  by (simp add: rx_contents_def rx_ring_def ring_contents_def)

lemma length_tx_contents [simp]: "length (tx_contents n) = tx_count n"
  by (simp add: tx_contents_def tx_ring_def ring_contents_def)

text \<open>The two queues live in different fields.\<close>

lemma queue_frame [simp]:
  "tx_ok (rx_push p n) = tx_ok n" "tx_contents (rx_push p n) = tx_contents n"
  "tx_ok (snd (rx_pop n)) = tx_ok n" "tx_contents (snd (rx_pop n)) = tx_contents n"
  "rx_ok (tx_push p n) = rx_ok n" "rx_contents (tx_push p n) = rx_contents n"
  "rx_ok (snd (tx_pop n)) = rx_ok n" "rx_contents (snd (tx_pop n)) = rx_contents n"
  "rx_ok (n\<lparr>net_stats := s\<rparr>) = rx_ok n" "rx_contents (n\<lparr>net_stats := s\<rparr>) = rx_contents n"
  "tx_ok (n\<lparr>net_stats := s\<rparr>) = tx_ok n" "tx_contents (n\<lparr>net_stats := s\<rparr>) = tx_contents n"
  "rx_ok (n\<lparr>next_packet_id := i\<rparr>) = rx_ok n" "rx_contents (n\<lparr>next_packet_id := i\<rparr>) = rx_contents n"
  "tx_ok (n\<lparr>next_packet_id := i\<rparr>) = tx_ok n" "tx_contents (n\<lparr>next_packet_id := i\<rparr>) = tx_contents n"
  "rx_ok (n\<lparr>tx_pending_bytes := b\<rparr>) = rx_ok n" "rx_contents (n\<lparr>tx_pending_bytes := b\<rparr>) = rx_contents n"
  "tx_ok (n\<lparr>tx_pending_bytes := b\<rparr>) = tx_ok n" "tx_contents (n\<lparr>tx_pending_bytes := b\<rparr>) = tx_contents n"
  by (simp_all add: tx_ok_def tx_contents_def tx_ring_def rx_ok_def rx_contents_def rx_ring_def
      rx_push_def rx_pop_def tx_push_def tx_pop_def)

lemma queue_other_fields [simp]:
  "net_stats (rx_push p n) = net_stats n" "net_stats (snd (rx_pop n)) = net_stats n"
  "net_stats (tx_push p n) = net_stats n" "net_stats (snd (tx_pop n)) = net_stats n"
  "rx_count (rx_push p n) = rx_count n + 1" "rx_count (snd (rx_pop n)) = rx_count n - 1"
  "tx_count (rx_push p n) = tx_count n" "tx_count (snd (rx_pop n)) = tx_count n"
  "tx_count (tx_push p n) = tx_count n + 1" "tx_count (snd (tx_pop n)) = tx_count n - 1"
  "rx_count (tx_push p n) = rx_count n" "rx_count (snd (tx_pop n)) = rx_count n"
  "tx_queue (rx_push p n) = tx_queue n" "tx_queue (snd (rx_pop n)) = tx_queue n"
  "rx_queue (tx_push p n) = rx_queue n" "rx_queue (snd (tx_pop n)) = rx_queue n"
  "tx_head (rx_push p n) = tx_head n" "tx_head (snd (rx_pop n)) = tx_head n"
  "rx_queue (snd (rx_pop n)) = rx_queue n" "tx_queue (snd (tx_pop n)) = tx_queue n"
  "rx_push p (n\<lparr>next_packet_id := i\<rparr>) = (rx_push p n)\<lparr>next_packet_id := i\<rparr>"
  "tx_push p (n\<lparr>next_packet_id := i\<rparr>) = (tx_push p n)\<lparr>next_packet_id := i\<rparr>"
  by (simp_all add: rx_push_def rx_pop_def tx_push_def tx_pop_def)

lemma upd_net_fields [simp]:
  "k_net (upd_net f k) = f (k_net k)" "k_power (upd_net f k) = k_power k" "k_kbd (upd_net f k) = k_kbd k"
  "k_trace (upd_net f k) = k_trace k" "k_sched (upd_net f k) = k_sched k" "k_vm (upd_net f k) = k_vm k"
  "k_fs (upd_net f k) = k_fs k" "k_ticks (upd_net f k) = k_ticks k"
  by (simp_all add: upd_net_def)

text \<open>Every slot can hold a payload of 256 bytes, and no packet is longer.\<close>

definition slot_ok :: "net_packet \<Rightarrow> bool" where
  "slot_ok p \<longleftrightarrow> length (np_data p) = 256 \<and> unat (np_len p) \<le> 256"

definition net_ok :: "netfs_state \<Rightarrow> bool" where
  "net_ok n \<longleftrightarrow> rx_ok n \<and> tx_ok n \<and> list_all slot_ok (rx_queue n) \<and> list_all slot_ok (tx_queue n) \<and>
     ns_rx_packets (net_stats n) = ns_dropped_packets (net_stats n) + word_of_nat (rx_count n)"

definition payload :: "net_packet \<Rightarrow> u8 list" where
  "payload p = take (unat (np_len p)) (np_data p)"

definition clip :: "u8 list \<Rightarrow> u32 \<Rightarrow> u8 list" where
  "clip data len = take (unat (clip_len len)) data"

lemma clip_len_le: "unat (clip_len len) \<le> 256"
  by (auto simp: clip_len_def NETFS_MAX_PAYLOAD_def word_less_nat_alt)

lemma fill_packet_ok:
  assumes "slot_ok p" and "unat (clip_len len) \<le> length data"
  shows "slot_ok (fill_packet pid now data (clip_len len) p)"
    "payload (fill_packet pid now data (clip_len len) p) = clip data len"
proof -
  have le: "unat (clip_len len) \<le> length (np_data p)" using assms(1) clip_len_le [of len] by (simp add: slot_ok_def)
  note m = memcpy_eq [OF le assms(2)]
  show "slot_ok (fill_packet pid now data (clip_len len) p)"
    using assms m clip_len_le [of len] by (simp add: slot_ok_def fill_packet_def)
  show "payload (fill_packet pid now data (clip_len len) p) = clip data len"
    using assms(2) m by (auto simp: payload_def clip_def fill_packet_def)
qed

lemma rx_slot_ok:
  "net_ok n \<Longrightarrow> slot_ok (rx_queue n ! ((rx_head n + m) mod NETFS_QUEUE_CAP))"
  "net_ok n \<Longrightarrow> slot_ok (tx_queue n ! ((tx_head n + m) mod NETFS_QUEUE_CAP))"
  by (simp_all add: net_ok_def rx_ok_def tx_ok_def rx_ring_def tx_ring_def ring_ok_def list_all_length NETFS_QUEUE_CAP_def)

section \<open>Receiving\<close>

lemma trace_record_net [simp]: "k_net (trace_record ty pid a b k) = k_net k" by simp

lemma enqueue_rx_frame:
  "k_kbd (enqueue_rx_packet d l k) = k_kbd k" "k_power (enqueue_rx_packet d l k) = k_power k"
  "tx_queue (k_net (enqueue_rx_packet d l k)) = tx_queue (k_net k)"
  "tx_head (k_net (enqueue_rx_packet d l k)) = tx_head (k_net k)"
  "tx_count (k_net (enqueue_rx_packet d l k)) = tx_count (k_net k)"
  "ns_loopback_enabled (net_stats (k_net (enqueue_rx_packet d l k))) = ns_loopback_enabled (net_stats (k_net k))"
  by (simp_all add: enqueue_rx_packet_def Let_def upd_nstats_def)

lemma tx_contents_cong:
  "tx_queue n' = tx_queue n \<Longrightarrow> tx_head n' = tx_head n \<Longrightarrow> tx_count n' = tx_count n \<Longrightarrow>
     tx_contents n' = tx_contents n \<and> tx_ok n' = tx_ok n"
  by (simp add: tx_contents_def tx_ok_def tx_ring_def)

text \<open>A received packet is appended; when the queue is full the oldest one goes.\<close>

lemma enqueue_rx_ok:
  assumes ok: "net_ok (k_net k)" and len: "unat (clip_len len) \<le> length data"
  defines "k' \<equiv> enqueue_rx_packet data len k"
  shows "net_ok (k_net k')" "map payload (rx_contents (k_net k')) = lastn 32 (map payload (rx_contents (k_net k)) @ [clip data len])"
proof -
  define k1 where "k1 = (if rx_count (k_net k) = NETFS_QUEUE_CAP
    then upd_nstats (\<lambda>s. s\<lparr>ns_dropped_packets := ns_dropped_packets s + 1\<rparr>) (upd_net (\<lambda>n. snd (rx_pop n)) k) else k)"
  have rok: "rx_ok (k_net k)" using ok by (simp add: net_ok_def)
  have s1: "net_ok (k_net k1) \<and> rx_count (k_net k1) < NETFS_QUEUE_CAP \<and>
    (\<forall>q. rx_contents (k_net k1) @ [q] = lastn NETFS_QUEUE_CAP (rx_contents (k_net k) @ [q]))"
  proof (cases "rx_count (k_net k) = NETFS_QUEUE_CAP")
    case True
    then obtain x xs where c: "rx_contents (k_net k) = x # xs"
      using length_rx_contents [of "k_net k"] by (cases "rx_contents (k_net k)") (auto simp: NETFS_QUEUE_CAP_def)
    have l: "length xs = 31" using True c length_rx_contents [of "k_net k"] by (simp add: NETFS_QUEUE_CAP_def)
    from True show ?thesis using rx.pop_ok [OF rok c] ok c l
      by (simp add: k1_def net_ok_def upd_nstats_def NETFS_QUEUE_CAP_def lastn_def)
  next
    case False
    then have "rx_count (k_net k) < NETFS_QUEUE_CAP" using rx.contents_le [OF rok] by simp
    then show ?thesis using False ok by (simp add: k1_def)
  qed
  let ?n = "k_net k1"
  let ?pkt = "fill_packet (next_packet_id ?n) (pit_ticks k1) data (clip_len len)
    (rx_queue ?n ! ((rx_head ?n + rx_count ?n) mod NETFS_QUEUE_CAP))"
  have pk: "slot_ok ?pkt" "payload ?pkt = clip data len"
    using fill_packet_ok [OF rx_slot_ok(1) len] s1 by blast+
  have push: "rx_ok (rx_push ?pkt ?n)" "rx_contents (rx_push ?pkt ?n) = rx_contents ?n @ [?pkt]"
    using rx.push_ok [of ?n ?pkt] s1 by (simp_all add: net_ok_def)
  have k': "rx_contents (k_net k') = rx_contents (rx_push ?pkt ?n)" "rx_ok (k_net k') = rx_ok (rx_push ?pkt ?n)"
    "tx_ok (k_net k') = tx_ok ?n" "rx_queue (k_net k') = rx_queue (rx_push ?pkt ?n)" "tx_queue (k_net k') = tx_queue ?n"
    "rx_count (k_net k') = rx_count ?n + 1"
    "ns_rx_packets (net_stats (k_net k')) = ns_rx_packets (net_stats ?n) + 1"
    "ns_dropped_packets (net_stats (k_net k')) = ns_dropped_packets (net_stats ?n)"
    by (simp_all add: k'_def enqueue_rx_packet_def Let_def upd_nstats_def k1_def [symmetric])
  show "net_ok (k_net k')"
    using s1 push(1) pk(1) by (simp add: net_ok_def k') (simp add: rx_push_def list_all_update)
  show "map payload (rx_contents (k_net k')) = lastn 32 (map payload (rx_contents (k_net k)) @ [clip data len])"
    using s1 push(2) pk(2) map_lastn [of payload 32 "rx_contents (k_net k) @ [?pkt]"]
    by (simp add: k' NETFS_QUEUE_CAP_def)
qed

section \<open>Transmitting\<close>

definition loopback :: "netfs_state \<Rightarrow> bool" where
  "loopback n \<longleftrightarrow> ns_loopback_enabled (net_stats n) \<noteq> 0"

lemma transmit_frame:
  "k_kbd (transmit_now d l k) = k_kbd k" "k_power (transmit_now d l k) = k_power k"
  "tx_queue (k_net (transmit_now d l k)) = tx_queue (k_net k)"
  "tx_head (k_net (transmit_now d l k)) = tx_head (k_net k)"
  "tx_count (k_net (transmit_now d l k)) = tx_count (k_net k)"
  "loopback (k_net (transmit_now d l k)) = loopback (k_net k)"
  by (simp_all add: transmit_now_def Let_def upd_nstats_def enqueue_rx_frame loopback_def)

lemma transmit_ok:
  assumes ok: "net_ok (k_net k)" and len: "unat (clip_len len) \<le> length data"
  defines "k' \<equiv> transmit_now data len k"
  shows "net_ok (k_net k')"
    "map payload (rx_contents (k_net k')) =
      lastn 32 (map payload (rx_contents (k_net k)) @ (if loopback (k_net k) then [clip data len] else []))"
proof -
  define k2 where "k2 = trace_record TRACE_EVENT_NET 0 NET_EVENT_TX (ucast len)
    (upd_nstats (\<lambda>s. s\<lparr>ns_tx_packets := ns_tx_packets s + 1, ns_tx_bytes := ns_tx_bytes s + ucast len\<rparr>) k)"
  have k2: "net_ok (k_net k2)" "rx_contents (k_net k2) = rx_contents (k_net k)" "loopback (k_net k2) = loopback (k_net k)"
    using ok by (simp_all add: k2_def upd_nstats_def net_ok_def loopback_def)
  have k': "k' = (if loopback (k_net k2) then enqueue_rx_packet data len k2 else k2)"
    by (simp add: k'_def transmit_now_def Let_def k2_def loopback_def)
  have "length (rx_contents (k_net k)) \<le> 32"
    using rx.contents_le [of "k_net k"] ok by (simp add: net_ok_def NETFS_QUEUE_CAP_def)
  then show "net_ok (k_net k')" "map payload (rx_contents (k_net k')) =
      lastn 32 (map payload (rx_contents (k_net k)) @ (if loopback (k_net k) then [clip data len] else []))"
    using enqueue_rx_ok [OF k2(1) len] k2 by (simp_all add: k')
qed

lemma clip_payload: "slot_ok p \<Longrightarrow> clip (np_data p) (np_len p) = payload p"
  by (auto simp: clip_def payload_def slot_ok_def clip_len_def NETFS_MAX_PAYLOAD_def word_less_nat_alt)

lemma lastn_assoc: "lastn n (lastn n (a @ b) @ c) = lastn n (a @ b @ c)"
  using lastn_append_lastn [of n "a @ b" c] by simp

lemma flush_loop_tx:
  assumes "net_ok (k_net k)" and "tx_count (k_net k) = c" and "snd (flush_tx_loop c p b k) = k'"
  shows "net_ok (k_net k') \<and> tx_contents (k_net k') = [] \<and> loopback (k_net k') = loopback (k_net k) \<and>
    k_kbd k' = k_kbd k \<and> k_power k' = k_power k \<and>
    map payload (rx_contents (k_net k')) =
      lastn 32 (map payload (rx_contents (k_net k)) @ (if loopback (k_net k) then map payload (tx_contents (k_net k)) else []))"
  using assms
proof (induction c arbitrary: p b k)
  case 0
  have "length (rx_contents (k_net k)) \<le> 32"
    using rx.contents_le [of "k_net k"] 0 by (simp add: net_ok_def NETFS_QUEUE_CAP_def)
  moreover have "tx_contents (k_net k) = []" using 0 length_tx_contents [of "k_net k"] by (metis length_0_conv)
  ultimately show ?case using 0 by auto
next
  case (Suc c)
  let ?n = "k_net k"
  let ?pkt = "tx_queue ?n ! tx_head ?n"
  obtain x xs where c: "tx_contents ?n = x # xs"
    using Suc.prems(2) length_tx_contents [of ?n] by (cases "tx_contents ?n") auto
  have tok: "tx_ok ?n" using Suc.prems(1) by (simp add: net_ok_def)
  have x: "x = ?pkt" using tx.pop_ok [OF tok c] by (simp add: tx_pop_def)
  have "tx_head ?n mod NETFS_QUEUE_CAP = tx_head ?n"
    using tok by (simp add: tx_ok_def tx_ring_def ring_ok_def)
  then have so: "slot_ok ?pkt" using rx_slot_ok(2) [OF Suc.prems(1), of 0] by simp
  have le: "unat (clip_len (np_len ?pkt)) \<le> length (np_data ?pkt)" using so clip_len_le by (simp add: slot_ok_def)
  define k1 where "k1 = transmit_now (np_data ?pkt) (np_len ?pkt) k"
  note t = transmit_ok [OF Suc.prems(1) le, folded k1_def] and fr = transmit_frame [of "np_data ?pkt" "np_len ?pkt" k, folded k1_def]
  have c1: "tx_contents (k_net k1) = x # xs" "tx_ok (k_net k1)"
    using tx_contents_cong [OF fr(3,4,5)] c tok by simp_all
  define k2 where "k2 = upd_net (\<lambda>n. snd (tx_pop n)) k1"
  note pop = tx.pop_ok [OF c1(2,1)]
  have k2: "net_ok (k_net k2)" "tx_contents (k_net k2) = xs" "tx_count (k_net k2) = c" "loopback (k_net k2) = loopback ?n"
    "rx_contents (k_net k2) = rx_contents (k_net k1)" "k_kbd k2 = k_kbd k" "k_power k2 = k_power k"
    using pop t(1) fr Suc.prems(2) by (simp_all add: k2_def net_ok_def loopback_def)
  have step: "flush_tx_loop (Suc c) p b k = flush_tx_loop c (p + 1) (b + np_len ?pkt) k2"
    by (simp add: Let_def k1_def k2_def)
  show ?case
    using Suc.IH [OF k2(1,3) Suc.prems(3) [unfolded step]] k2 t(2) c x clip_payload [OF so]
    by (auto simp: lastn_assoc)
qed

lemma note_flushed_frame:
  "k_net (power_note_net_flushed p b k) = k_net k" "k_kbd (power_note_net_flushed p b k) = k_kbd k"
  "kq_ok (k_power (power_note_net_flushed p b k)) = kq_ok (k_power k)"
  "kq_contents (k_power (power_note_net_flushed p b k)) = kq_contents (k_power k)"
  "p_mode (k_power (power_note_net_flushed p b k)) = p_mode (k_power k)"
  by (simp_all add: power_note_net_flushed_def Let_def)

lemma set_pending_frame:
  "k_net (power_set_pending_net p b k) = k_net k" "k_kbd (power_set_pending_net p b k) = k_kbd k"
  "kq_ok (k_power (power_set_pending_net p b k)) = kq_ok (k_power k)"
  "kq_contents (k_power (power_set_pending_net p b k)) = kq_contents (k_power k)"
  "p_mode (k_power (power_set_pending_net p b k)) = p_mode (k_power k)"
  "k_net (power_note_net_enqueued b k) = k_net k" "k_kbd (power_note_net_enqueued b k) = k_kbd k"
  "kq_ok (k_power (power_note_net_enqueued b k)) = kq_ok (k_power k)"
  "kq_contents (k_power (power_note_net_enqueued b k)) = kq_contents (k_power k)"
  "p_mode (k_power (power_note_net_enqueued b k)) = p_mode (k_power k)"
  by (simp_all add: power_set_pending_net_def power_note_net_enqueued_def)

text \<open>A flush empties the transmit queue; with loopback its packets are received in order.\<close>

lemma flush_queue_ok:
  assumes "net_ok (k_net k)"
  defines "k' \<equiv> flush_tx_queue k"
  shows "net_ok (k_net k') \<and> tx_contents (k_net k') = [] \<and> loopback (k_net k') = loopback (k_net k) \<and>
    k_kbd k' = k_kbd k \<and> kq_ok (k_power k') = kq_ok (k_power k) \<and> kq_contents (k_power k') = kq_contents (k_power k) \<and>
    p_mode (k_power k') = p_mode (k_power k) \<and>
    map payload (rx_contents (k_net k')) =
      lastn 32 (map payload (rx_contents (k_net k)) @ (if loopback (k_net k) then map payload (tx_contents (k_net k)) else []))"
proof -
  obtain p b k1 where l: "flush_tx_loop (tx_count (k_net k)) 0 0 k = ((p, b), k1)" by (metis prod.collapse)
  note f = flush_loop_tx [OF assms(1) refl, of 0 0 k1, unfolded l snd_conv, OF refl]
  then show ?thesis
    by (simp add: k'_def flush_tx_queue_def l Let_def note_flushed_frame set_pending_frame)
      (simp add: net_ok_def loopback_def)
qed

lemma enqueue_tx_ok:
  assumes ok: "net_ok (k_net k)" and len: "unat (clip_len len) \<le> length data" and room: "tx_count (k_net k) < 32"
  shows "\<exists>k'. enqueue_tx_packet data len k = (True, k') \<and> net_ok (k_net k') \<and> loopback (k_net k') = loopback (k_net k) \<and>
    k_kbd k' = k_kbd k \<and> kq_ok (k_power k') = kq_ok (k_power k) \<and> kq_contents (k_power k') = kq_contents (k_power k) \<and>
    p_mode (k_power k') = p_mode (k_power k) \<and> rx_contents (k_net k') = rx_contents (k_net k) \<and>
    map payload (tx_contents (k_net k')) = map payload (tx_contents (k_net k)) @ [clip data len]"
proof -
  let ?n = "k_net k"
  let ?pkt = "fill_packet (next_packet_id ?n) (pit_ticks k) data (clip_len len)
    (tx_queue ?n ! ((tx_head ?n + tx_count ?n) mod NETFS_QUEUE_CAP))"
  define n1 where "n1 = (tx_push ?pkt ?n)\<lparr>next_packet_id := next_packet_id ?n + 1, tx_pending_bytes := tx_pending_bytes ?n + clip_len len\<rparr>"
  have pk: "slot_ok ?pkt" "payload ?pkt = clip data len" using fill_packet_ok [OF rx_slot_ok(2) [OF ok] len] by blast+
  have push: "tx_ok (tx_push ?pkt ?n)" "tx_contents (tx_push ?pkt ?n) = tx_contents ?n @ [?pkt]"
    using tx.push_ok [of ?n ?pkt] ok room by (simp_all add: net_ok_def NETFS_QUEUE_CAP_def)
  have nf: "tx_count ?n \<noteq> NETFS_QUEUE_CAP" using room by (simp add: NETFS_QUEUE_CAP_def)
  have q: "list_all slot_ok (tx_queue (tx_push ?pkt ?n))"
    using ok pk(1) by (simp add: net_ok_def tx_push_def list_all_update)
  have n1: "net_ok n1" "rx_contents n1 = rx_contents ?n" "tx_contents n1 = tx_contents ?n @ [?pkt]" "loopback n1 = loopback ?n"
    using ok push q by (simp_all add: n1_def net_ok_def loopback_def)
  have e: "enqueue_tx_packet data len k = (True, power_set_pending_net (word_of_nat (tx_count n1)) (tx_pending_bytes n1)
      (power_note_net_enqueued (clip_len len) (k\<lparr>k_net := n1\<rparr>)))"
    using nf by (simp add: enqueue_tx_packet_def Let_def upd_net_def n1_def set_pending_frame)
  show ?thesis unfolding e using n1 pk(2) by (simp add: set_pending_frame)
qed

section \<open>Writing to \<open>/net/tx\<close>\<close>

lemma net_tx_paths: "path_eq ''/net/tx'' ''/net/tx''" "\<not> path_eq ''/net/tx'' ''/net/config/loopback''"
  "\<not> path_eq ''/net/tx'' ''/net/rx/inject''"
  by (simp_all add: path_eq_def strcmp_eq_0_iff_c_str c_str_def)

definition sent_bytes :: "char list \<Rightarrow> u8 list" where
  "sent_bytes d = take 256 (string_bytes (c_str d))"

lemma clip_string:
  assumes "strlen d < 2 ^ 32"
  shows "clip (string_bytes d) (word_of_nat (strlen d)) = sent_bytes d"
    "unat (clip_len (word_of_nat (strlen d))) \<le> length (string_bytes d)"
proof -
  have l: "strlen d \<le> length d" by (simp add: strlen_c_str c_str_def length_takeWhile_le)
  have u: "unat (word_of_nat (strlen d) :: u32) = strlen d" using assms by (simp add: unat_word_of_nat_less)
  then have m: "unat (clip_len (word_of_nat (strlen d))) = min 256 (strlen d)"
    by (auto simp: clip_len_def NETFS_MAX_PAYLOAD_def word_less_nat_alt)
  show "unat (clip_len (word_of_nat (strlen d))) \<le> length (string_bytes d)" using l by (simp add: m string_bytes_def)
  have "take (strlen d) d = c_str d"
    unfolding strlen_c_str c_str_def by (rule takeWhile_eq_take [symmetric])
  then have "take (min 256 (strlen d)) d = take 256 (c_str d)" by (simp only: take_take [symmetric])
  then show "clip (string_bytes d) (word_of_nat (strlen d)) = sent_bytes d"
    by (simp add: clip_def m sent_bytes_def string_bytes_def take_map)
qed

text \<open>The payloads that were received or are still to be, oldest first.\<close>

definition in_flight :: "netfs_state \<Rightarrow> u8 list list" where
  "in_flight n = map payload (rx_contents n) @ map payload (tx_contents n)"

lemma flush_in_flight:
  assumes "net_ok (k_net k)" and "loopback (k_net k)"
  shows "lastn 32 (in_flight (k_net (flush_tx_queue k))) = lastn 32 (in_flight (k_net k))"
  using flush_queue_ok [OF assms(1)] assms(2) lastn_append_lastn [of 32 "in_flight (k_net k)" "[]"]
  by (simp add: in_flight_def)

lemma tx_write_ok:
  assumes ok: "net_ok (k_net k)" and lb: "loopback (k_net k)"
    and mode: "p_mode (k_power k) \<noteq> POWER_MODE_PERFORMANCE" and d: "strlen d < 2 ^ 32"
  shows "\<exists>k'. netfs_write_path (Some ''/net/tx'') (Some d) k = (True, k') \<and> net_ok (k_net k') \<and> loopback (k_net k') \<and>
    p_mode (k_power k') = p_mode (k_power k) \<and> tx_count (k_net k') < 16 \<and>
    lastn 32 (in_flight (k_net k')) = lastn 32 (in_flight (k_net k) @ [sent_bytes d])"
proof -
  let ?b = "string_bytes d" and ?l = "word_of_nat (strlen d) :: u32"
  note cl = clip_string [OF d]
  define k0 where "k0 = (if tx_count (k_net k) = 32 then flush_tx_queue k else k)"
  have le: "tx_count (k_net k) \<le> 32" using tx.contents_le [of "k_net k"] ok by (simp add: net_ok_def NETFS_QUEUE_CAP_def)
  have fe: "tx_count (k_net (flush_tx_queue k)) = 0"
    using flush_queue_ok [OF ok] length_tx_contents [of "k_net (flush_tx_queue k)"] by simp
  have k0: "net_ok (k_net k0)" "loopback (k_net k0)" "p_mode (k_power k0) = p_mode (k_power k)" "tx_count (k_net k0) < 32"
    "lastn 32 (in_flight (k_net k0)) = lastn 32 (in_flight (k_net k))"
    using flush_queue_ok [OF ok] flush_in_flight [OF ok lb] ok lb le fe by (auto simp: k0_def)
  obtain k1 where k1: "enqueue_tx_packet ?b ?l k0 = (True, k1)" "net_ok (k_net k1)" "loopback (k_net k1)"
    "p_mode (k_power k1) = p_mode (k_power k)" "in_flight (k_net k1) = in_flight (k_net k0) @ [sent_bytes d]"
    using enqueue_tx_ok [OF k0(1) cl(2) k0(4)] k0(2,3) cl(1) by (auto simp: in_flight_def)
  have f1: "lastn 32 (in_flight (k_net k1)) = lastn 32 (in_flight (k_net k) @ [sent_bytes d])"
    using k1(5) k0(5) lastn_append_lastn [of 32 "in_flight (k_net k0)" "[sent_bytes d]"]
      lastn_append_lastn [of 32 "in_flight (k_net k)" "[sent_bytes d]"] by simp
  have full: "enqueue_tx_packet ?b ?l k = (False, k)" if "tx_count (k_net k) = 32"
    using that by (simp add: enqueue_tx_packet_def NETFS_QUEUE_CAP_def)
  define k' where "k' = (if word_of_nat (tx_count (k_net k1)) \<ge> power_net_batch_limit k1 then flush_tx_queue k1 else k1)"
  have w: "netfs_write_path (Some ''/net/tx'') (Some d) k = (True, k')"
    using mode k1(1) full
    by (simp add: netfs_write_path_def net_tx_paths Let_def power_get_mode_def k0_def k'_def split: if_splits)
  have lim: "power_net_batch_limit k1 \<le> 16" by (simp add: power_net_batch_limit_def Let_def)
  have c1: "tx_count (k_net k1) \<le> 32"
    using tx.contents_le [of "k_net k1"] k1(2) by (simp add: net_ok_def NETFS_QUEUE_CAP_def)
  then have u1: "unat (word_of_nat (tx_count (k_net k1)) :: u32) = tx_count (k_net k1)" by (simp add: unat_word_of_nat_less)
  have fe1: "tx_count (k_net (flush_tx_queue k1)) = 0"
    using flush_queue_ok [OF k1(2)] length_tx_contents [of "k_net (flush_tx_queue k1)"] by simp
  have "tx_count (k_net k') < 16"
    using fe1 lim u1 by (auto simp: k'_def word_less_nat_alt word_le_nat_alt not_le)
  moreover have "net_ok (k_net k')" "loopback (k_net k')" "p_mode (k_power k') = p_mode (k_power k)"
    "lastn 32 (in_flight (k_net k')) = lastn 32 (in_flight (k_net k1))"
    using flush_queue_ok [OF k1(2)] flush_in_flight [OF k1(2,3)] k1 by (auto simp: k'_def)
  ultimately show ?thesis using w f1 by simp
qed

text \<open>A sequence of writes to \<open>/net/tx\<close>, each of which must succeed.\<close>

fun tx_writes :: "char list list \<Rightarrow> 'd kernel \<Rightarrow> 'd kernel option" where
  "tx_writes [] k = Some k"
| "tx_writes (d # ds) k =
     (let (ok, k') = netfs_write_path (Some ''/net/tx'') (Some d) k in if ok then tx_writes ds k' else None)"

lemma tx_writes_ok:
  assumes "net_ok (k_net k)" and "loopback (k_net k)" and "p_mode (k_power k) \<noteq> POWER_MODE_PERFORMANCE"
    and "\<forall>d \<in> set ds. strlen d < 2 ^ 32"
  shows "\<exists>k'. tx_writes ds k = Some k' \<and> net_ok (k_net k') \<and> loopback (k_net k') \<and>
    p_mode (k_power k') = p_mode (k_power k) \<and> (ds \<noteq> [] \<longrightarrow> tx_count (k_net k') < 16) \<and>
    lastn 32 (in_flight (k_net k')) = lastn 32 (in_flight (k_net k) @ map sent_bytes ds)"
  using assms
proof (induction ds arbitrary: k)
  case Nil
  then show ?case by simp
next
  case (Cons d ds)
  obtain k1 where k1: "netfs_write_path (Some ''/net/tx'') (Some d) k = (True, k1)" "net_ok (k_net k1)" "loopback (k_net k1)"
    "p_mode (k_power k1) = p_mode (k_power k)" "tx_count (k_net k1) < 16"
    "lastn 32 (in_flight (k_net k1)) = lastn 32 (in_flight (k_net k) @ [sent_bytes d])"
    using tx_write_ok [of k d] Cons.prems by auto
  obtain k2 where k2: "tx_writes ds k1 = Some k2" "net_ok (k_net k2)" "loopback (k_net k2)"
    "p_mode (k_power k2) = p_mode (k_power k1)" "ds \<noteq> [] \<longrightarrow> tx_count (k_net k2) < 16"
    "lastn 32 (in_flight (k_net k2)) = lastn 32 (in_flight (k_net k1) @ map sent_bytes ds)"
    using Cons.IH [OF k1(2,3)] k1(4) Cons.prems by auto
  have "lastn 32 (in_flight (k_net k1) @ map sent_bytes ds) = lastn 32 (in_flight (k_net k) @ map sent_bytes (d # ds))"
    using k1(6) lastn_append_lastn [of 32 "in_flight (k_net k1)" "map sent_bytes ds"]
      lastn_append_lastn [of 32 "in_flight (k_net k) @ [sent_bytes d]" "map sent_bytes ds"] by simp
  moreover have "ds = [] \<longrightarrow> k2 = k1" using k2(1) by auto
  ultimately show ?case using k1 k2 by auto
qed

section \<open>Invariant\<close>

lemma netfs_init_ok: "net_ok (k_net (netfs_init k))" "loopback (k_net (netfs_init k))"
  by (simp_all add: netfs_init_def netfs_zero_def net_ok_def loopback_def netfs_stats_zero_def rx_ok_def tx_ok_def
      rx_ring_def tx_ring_def ring_ok_def NETFS_QUEUE_CAP_def packet_zero_def slot_ok_def list_all_iff)

lemma tx_branch_ok:
  assumes ok: "net_ok (k_net k)" and len: "unat (clip_len l) \<le> length b"
    and r: "(if fst (enqueue_tx_packet b l k) then (True, snd (enqueue_tx_packet b l k))
             else enqueue_tx_packet b l (flush_tx_queue (snd (enqueue_tx_packet b l k)))) = (ok2, k2)"
  shows "net_ok (k_net k2)" "ok2"
proof -
  have le: "tx_count (k_net k) \<le> 32" using tx.contents_le [of "k_net k"] ok by (simp add: net_ok_def NETFS_QUEUE_CAP_def)
  have "net_ok (k_net k2) \<and> ok2"
  proof (cases "tx_count (k_net k) = 32")
    case True
    then have "enqueue_tx_packet b l k = (False, k)" by (simp add: enqueue_tx_packet_def NETFS_QUEUE_CAP_def)
    moreover have "tx_count (k_net (flush_tx_queue k)) < 32" "net_ok (k_net (flush_tx_queue k))"
      using flush_queue_ok [OF ok] length_tx_contents [of "k_net (flush_tx_queue k)"] by simp_all
    ultimately show ?thesis using enqueue_tx_ok [of "flush_tx_queue k" l b] len r by auto
  next
    case False
    then show ?thesis using enqueue_tx_ok [OF ok len] le r by auto
  qed
  then show "net_ok (k_net k2)" "ok2" by blast+
qed

lemma write_path_net_ok:
  assumes ok: "net_ok (k_net k)" and d: "strlen d < 2 ^ 32"
  shows "net_ok (k_net (snd (netfs_write_path p (Some d) k)))"
proof (cases p)
  case None
  then show ?thesis using ok by (simp add: netfs_write_path_def)
next
  case (Some q)
  let ?b = "string_bytes d" and ?l = "word_of_nat (strlen d) :: u32"
  note cl = clip_string(2) [OF d]
  obtain ok2 k2 where r: "(if fst (enqueue_tx_packet ?b ?l k) then (True, snd (enqueue_tx_packet ?b ?l k))
      else enqueue_tx_packet ?b ?l (flush_tx_queue (snd (enqueue_tx_packet ?b ?l k)))) = (ok2, k2)" by fastforce
  note tb = tx_branch_ok [OF ok cl r]
  show ?thesis
    using enqueue_rx_ok(1) [OF ok cl] transmit_ok(1) [OF ok cl] tb(1) flush_queue_ok [OF tb(1)] r ok
    by (auto simp: Some netfs_write_path_def Let_def prod.case_eq_if upd_nstats_def net_ok_def)
qed

lemma tick_hook_net_ok: "net_ok (k_net k) \<Longrightarrow> net_ok (k_net (power_tick_hook k))"
proof -
  assume ok: "net_ok (k_net k)"
  have f: "k_net (keyboard_flush_now k1) = k_net k1" for k1 :: "'a kernel"
    by (simp add: keyboard_flush_now_def Let_def flush_loop_frame)
  show ?thesis
    using flush_queue_ok [of "keyboard_flush_now (k\<lparr>k_power := k_power k\<lparr>p_ticks_since_flush := p_ticks_since_flush (k_power k) + 1\<rparr>\<rparr>)"] ok
    by (simp add: power_tick_hook_def Let_def netfs_power_tick_def f)
qed

section \<open>Keys through the tick hook\<close>

lemma flush_loop_keys:
  "k_kbd (snd (flush_tx_loop c p b k)) = k_kbd k" "k_power (snd (flush_tx_loop c p b k)) = k_power k"
  by (induction c arbitrary: p b k) (simp_all add: Let_def transmit_frame)

lemma flush_queue_keys:
  "k_kbd (flush_tx_queue k) = k_kbd k" "kq_ok (k_power (flush_tx_queue k)) = kq_ok (k_power k)"
  "kq_contents (k_power (flush_tx_queue k)) = kq_contents (k_power k)"
  "p_mode (k_power (flush_tx_queue k)) = p_mode (k_power k)"
  by (simp_all add: flush_tx_queue_def Let_def prod.case_eq_if note_flushed_frame set_pending_frame flush_loop_keys)

lemma net_tick_keys:
  "key_stream (netfs_power_tick k) = key_stream k" "keys_ok (netfs_power_tick k) = keys_ok k"
  "kq_contents (k_power (netfs_power_tick k)) = kq_contents (k_power k)"
  "p_mode (k_power (netfs_power_tick k)) = p_mode (k_power k)"
  by (simp_all add: netfs_power_tick_def key_stream_def keys_ok_def flush_queue_keys)

lemma flush_now_mode: "p_mode (k_power (keyboard_flush_now k)) = p_mode (k_power k)"
  by (simp add: keyboard_flush_now_def Let_def flush_loop_frame)

lemma tick_hook_keys:
  assumes "keys_ok k" and "length (key_stream k) \<le> 256"
  shows "keys_ok (power_tick_hook k)" "key_stream (power_tick_hook k) = key_stream k"
    "p_mode (k_power (power_tick_hook k)) = p_mode (k_power k)"
    "p_ticks_since_flush (k_power k) + 1 \<ge> power_keyboard_flush_interval k \<Longrightarrow> kq_contents (k_power (power_tick_hook k)) = []"
    "p_ticks_since_flush (k_power k) + 1 < power_keyboard_flush_interval k \<Longrightarrow>
       p_ticks_since_flush (k_power (power_tick_hook k)) = p_ticks_since_flush (k_power k) + 1"
proof -
  let ?k1 = "k\<lparr>k_power := (k_power k)\<lparr>p_ticks_since_flush := p_ticks_since_flush (k_power k) + 1\<rparr>\<rparr>"
  have k1: "keys_ok ?k1" "key_stream ?k1 = key_stream k" "power_keyboard_flush_interval ?k1 = power_keyboard_flush_interval k"
    using assms(1) by (simp_all add: keys_ok_def key_stream_def power_keyboard_flush_interval_def)
  note f = flush_now_ok [OF k1(1), unfolded k1(2), OF assms(2)]
  define k2 where "k2 = netfs_power_tick (keyboard_flush_now ?k1)"
  have k2: "keys_ok k2" "key_stream k2 = key_stream k" "kq_contents (k_power k2) = []" "p_mode (k_power k2) = p_mode (k_power k)"
    using f flush_now_mode [of ?k1] by (simp_all add: k2_def net_tick_keys)
  have hook: "power_tick_hook k = (if power_keyboard_flush_interval k \<le> p_ticks_since_flush (k_power k) + 1
      then k2\<lparr>k_power := (k_power k2)\<lparr>p_ticks_since_flush := 0\<rparr>\<rparr> else ?k1)"
    using k1(3) by (simp add: power_tick_hook_def Let_def k2_def)
  show "keys_ok (power_tick_hook k)" using k1(1) k2(1) by (simp add: hook keys_ok_def)
  show "key_stream (power_tick_hook k) = key_stream k" using k2(2) by (simp add: hook key_stream_def)
  show "p_mode (k_power (power_tick_hook k)) = p_mode (k_power k)" using k2(4) by (simp add: hook)
  show "kq_contents (k_power (power_tick_hook k)) = []"
    if "p_ticks_since_flush (k_power k) + 1 \<ge> power_keyboard_flush_interval k" using that k2(3) by (simp add: hook)
  show "p_ticks_since_flush (k_power (power_tick_hook k)) = p_ticks_since_flush (k_power k) + 1"
    if "p_ticks_since_flush (k_power k) + 1 < power_keyboard_flush_interval k"
    using that [folded not_le] by (simp add: hook)
qed

text \<open>What happens at the keyboard: a key is typed, the clock ticks, the shell asks for a character.\<close>

datatype key_op = Type char | Tick | Get

fun key_step :: "key_op \<Rightarrow> 'd kernel \<Rightarrow> char list \<times> 'd kernel" where
  "key_step (Type c) k = ([], power_keyboard_char c k)"
| "key_step Tick k = ([], power_tick_hook k)"
| "key_step Get k =
     (let (r, kb) = keyboard_getchar (k_kbd k)
      in (case r of None \<Rightarrow> [] | Some c \<Rightarrow> [c], k\<lparr>k_kbd := kb\<rparr>))"

fun key_run :: "key_op list \<Rightarrow> 'd kernel \<Rightarrow> char list \<times> 'd kernel" where
  "key_run [] k = ([], k)"
| "key_run (op # ops) k =
     (let (r, k1) = key_step op k; (rs, k2) = key_run ops k1 in (r @ rs, k2))"

fun typed :: "key_op list \<Rightarrow> char list" where
  "typed [] = []"
| "typed (Type c # ops) = c # typed ops"
| "typed (_ # ops) = typed ops"

lemma key_step_ok:
  assumes "keys_ok k" and "p_mode (k_power k) \<noteq> POWER_MODE_PERFORMANCE" and "length (key_stream k) + length (typed [op]) \<le> 256"
    and "key_step op k = (r, k')"
  shows "keys_ok k' \<and> p_mode (k_power k') = p_mode (k_power k) \<and> r @ key_stream k' = key_stream k @ typed [op]"
proof (cases op)
  case (Type c)
  have m: "p_mode (k_power (power_keyboard_char c k)) = p_mode (k_power k)"
    by (simp add: power_keyboard_char_def Let_def)
  show ?thesis using keyboard_char_ok [OF assms(1,2), of c] m assms(3,4) Type by auto
next
  case Tick
  then show ?thesis using tick_hook_keys [OF assms(1)] assms(3,4) by auto
next
  case Get
  have ok: "kbd_ok (k_kbd k)" using assms(1) by (simp add: keys_ok_def)
  show ?thesis
  proof (cases "key_pending (k_kbd k)")
    case Nil
    then show ?thesis using getchar_ok [OF ok] assms(1,4) Get by auto
  next
    case (Cons c cs)
    then obtain kb where "keyboard_getchar (k_kbd k) = (Some c, kb)" "kbd_ok kb" "key_pending kb = cs"
      using getchar_ok [OF ok] by auto
    then show ?thesis using assms(1,4) Get Cons by (auto simp: keys_ok_def key_stream_def)
  qed
qed

lemma key_run_ok:
  assumes "keys_ok k" and "p_mode (k_power k) \<noteq> POWER_MODE_PERFORMANCE" and "length (key_stream k) + length (typed ops) \<le> 256"
    and "key_run ops k = (r, k')"
  shows "keys_ok k' \<and> r @ key_stream k' = key_stream k @ typed ops"
  using assms
proof (induction ops arbitrary: k r)
  case Nil
  then show ?case by simp
next
  case (Cons op ops)
  obtain r1 k1 where s: "key_step op k = (r1, k1)" by fastforce
  obtain r2 where t: "key_run ops k1 = (r2, k')" and r: "r = r1 @ r2"
    using Cons.prems(4) s by (auto simp: Let_def split: prod.splits)
  have ty: "typed (op # ops) = typed [op] @ typed ops" by (cases op) simp_all
  have o: "keys_ok k1" "p_mode (k_power k1) = p_mode (k_power k)" "r1 @ key_stream k1 = key_stream k @ typed [op]"
    using key_step_ok [OF Cons.prems(1,2) _ s] Cons.prems(3) ty by auto
  have len: "length (key_stream k1) + length (typed ops) \<le> 256"
    using arg_cong [OF o(3), of length] Cons.prems(3) ty by simp
  have "keys_ok k' \<and> r2 @ key_stream k' = key_stream k1 @ typed ops"
    using Cons.IH [OF o(1) _ len t] o(2) Cons.prems(2) by simp
  then show ?case using o(3) r ty by (metis append.assoc)
qed

section \<open>Correctness\<close>

text \<open>A kernel after the initialisation of scheduler, power policy and network.\<close>

definition demo_net :: "unit kernel" where
  "demo_net = netfs_init (power_init (kernel_bss demo_vm
     \<lparr>superblock = superblock_zero, inodes = [], fs_online = False, disk = ()\<rparr>))"

lemma demo_net_ok: "net_ok (k_net demo_net)" "loopback (k_net demo_net)" "p_mode (k_power demo_net) = POWER_MODE_BALANCED"
  "in_flight (k_net demo_net) = []" "keys_ok demo_net" "key_stream demo_net = []" "p_ticks_since_flush (k_power demo_net) = 0"
proof -
  show "net_ok (k_net demo_net)" "loopback (k_net demo_net)" by (simp_all add: demo_net_def netfs_init_ok)
  show "p_mode (k_power demo_net) = POWER_MODE_BALANCED" "p_ticks_since_flush (k_power demo_net) = 0"
    by (simp_all add: demo_net_def netfs_init_def power_init_def power_zero_def)
  have "rx_contents (k_net demo_net) = []" "tx_contents (k_net demo_net) = []"
    by (simp_all add: demo_net_def netfs_init_def netfs_zero_def rx_contents_def tx_contents_def rx_ring_def tx_ring_def ring_contents_def)
  then show "in_flight (k_net demo_net) = []" by (simp add: in_flight_def)
  show "keys_ok demo_net"
    by (simp add: demo_net_def netfs_init_def power_init_def power_zero_def kernel_bss_def kbd_zero_def keys_ok_def
        kbd_ok_def kq_ok_def kq_def ring_ok_def POWER_KEYBOARD_QCAP_def)
  show "key_stream demo_net = []"
    by (simp add: demo_net_def netfs_init_def power_init_def power_zero_def kernel_bss_def kbd_zero_def key_stream_def
        key_pending_def kq_contents_def kq_def ring_contents_def)
qed

text \<open>C16: transmission is first-in first-out with a bounded window.  With loopback on and packets
  batched (any mode but performance), every sequence of writes to \<open>/net/tx\<close> succeeds and leaves
  fewer than 16 packets pending, whatever batches were flushed on the way; after a final flush
  nothing is pending and the receive queue holds the last 32 of all payloads, those already
  received, those pending before and those written, in order, each cut to 256 bytes.\<close>

theorem netfs_tx_fifo:
  assumes "net_ok (k_net k)" and "loopback (k_net k)" and "p_mode (k_power k) \<noteq> POWER_MODE_PERFORMANCE"
    and "\<forall>d \<in> set ds. strlen d < 2 ^ 32"
  shows "\<exists>k'. tx_writes ds k = Some k' \<and> (ds \<noteq> [] \<longrightarrow> tx_count (k_net k') < 16) \<and>
    tx_contents (k_net (netfs_flush_tx k')) = [] \<and>
    map payload (rx_contents (k_net (netfs_flush_tx k'))) = lastn 32 (in_flight (k_net k) @ map sent_bytes ds)"
proof -
  obtain k' where k': "tx_writes ds k = Some k'" "net_ok (k_net k')" "loopback (k_net k')" "ds \<noteq> [] \<longrightarrow> tx_count (k_net k') < 16"
    "lastn 32 (in_flight (k_net k')) = lastn 32 (in_flight (k_net k) @ map sent_bytes ds)"
    using tx_writes_ok [OF assms] by blast
  with flush_queue_ok [OF k'(2)] show ?thesis by (simp add: netfs_flush_tx_def in_flight_def)
qed

theorem netfs_tx_fifo_witness:
  "\<exists>k'. tx_writes [''ping'', ''pong''] demo_net = Some k' \<and>
     map payload (rx_contents (k_net (netfs_flush_tx k'))) = [string_bytes ''ping'', string_bytes ''pong'']"
  using netfs_tx_fifo [OF demo_net_ok(1,2), of "[''ping'', ''pong'']"] demo_net_ok(3,4)
  by (auto simp: POWER_MODE_BALANCED_def POWER_MODE_PERFORMANCE_def sent_bytes_def c_str_def string_bytes_def)

text \<open>The queues stay well formed.  Initialisation establishes, and every write to a file under
  \<open>/net\<close>, every flush and every clock tick keeps: both rings within their 32 slots, every slot
  within its 256 bytes, and the counters in balance (packets received = packets dropped +
  packets in the queue).\<close>

theorem netfs_queues_invariant:
  assumes "net_ok (k_net k)" and "strlen d < 2 ^ 32"
  shows "net_ok (k_net (netfs_init k0)) \<and> net_ok (k_net (snd (netfs_write_path p (Some d) k))) \<and>
    net_ok (k_net (netfs_flush_tx k)) \<and> net_ok (k_net (power_tick_hook k))"
  using netfs_init_ok(1) write_path_net_ok [OF assms] flush_queue_ok [OF assms(1)] tick_hook_net_ok [OF assms(1)]
  by (simp add: netfs_flush_tx_def)

theorem netfs_queues_invariant_witness:
  "net_ok (k_net (snd (netfs_write_path (Some ''/net/rx/inject'') (Some ''hello'') demo_net)))"
  using netfs_queues_invariant [OF demo_net_ok(1), where d = "''hello''" and p = "Some ''/net/rx/inject''" and ?k0.0 = demo_net]
  by simp



lemma delivery:
  assumes "keys_ok k" and "length (key_stream k) \<le> 256" and "p_ticks_since_flush (k_power k) < 12"
  shows "\<exists>n. 0 < n \<and> n \<le> 12 - unat (p_ticks_since_flush (k_power k)) \<and>
    kq_contents (k_power ((power_tick_hook ^^ n) k)) = [] \<and> key_pending (k_kbd ((power_tick_hook ^^ n) k)) = key_stream k"
  using assms
proof (induction "12 - unat (p_ticks_since_flush (k_power k))" arbitrary: k rule: less_induct)
  case less
  let ?t = "p_ticks_since_flush (k_power k)"
  let ?k1 = "power_tick_hook k"
  note h = tick_hook_keys [OF less.prems(1,2)]
  have t: "unat ?t < 12" using less.prems(3) by (simp add: word_less_nat_alt)
  have t1: "unat (?t + 1) = unat ?t + 1" using t by (subst unat_add_no_wrap) simp_all
  show ?case
  proof (cases "power_keyboard_flush_interval k \<le> ?t + 1")
    case True
    then have "kq_contents (k_power ?k1) = []" by (rule h(4))
    moreover from this h(2) have "key_pending (k_kbd ?k1) = key_stream k" by (simp add: key_stream_def)
    ultimately show ?thesis using t by (intro exI [of _ 1]) simp
  next
    case False
    then have lt: "?t + 1 < power_keyboard_flush_interval k" by (simp only: not_le)
    have le: "power_keyboard_flush_interval k \<le> 12" by (simp add: power_keyboard_flush_interval_def Let_def)
    have tk: "p_ticks_since_flush (k_power ?k1) = ?t + 1" by (rule h(5) [OF lt])
    have t12: "p_ticks_since_flush (k_power ?k1) < 12" using lt le tk by simp
    have m: "12 - unat (p_ticks_since_flush (k_power ?k1)) < 12 - unat ?t" using t1 t tk by simp
    obtain n where n: "0 < n" "n \<le> 12 - unat (?t + 1)" "kq_contents (k_power ((power_tick_hook ^^ n) ?k1)) = []"
      "key_pending (k_kbd ((power_tick_hook ^^ n) ?k1)) = key_stream ?k1"
      using less.hyps [OF m h(1) _ t12] h(2) less.prems(2) tk by auto
    show ?thesis
      using n h(2) t1 t by (intro exI [of _ "Suc n"]) (simp add: funpow_swap1)
  qed
qed

text \<open>C28: deferred keys are delivered in time.  Whatever the mode, if the tick counter has not passed
  the longest interval, one of the next twelve ticks hands every deferred key to the keyboard
  buffer, in order.\<close>

theorem keyboard_delivery:
  assumes "keys_ok k" and "length (key_stream k) \<le> 256" and "p_ticks_since_flush (k_power k) < 12"
  shows "\<exists>n. 0 < n \<and> n \<le> 12 \<and> kq_contents (k_power ((power_tick_hook ^^ n) k)) = [] \<and>
    key_pending (k_kbd ((power_tick_hook ^^ n) k)) = key_stream k"
  using delivery [OF assms] by (meson diff_le_self le_trans)

theorem keyboard_delivery_witness:
  "\<exists>n. n \<le> 12 \<and> kq_contents (k_power ((power_tick_hook ^^ n) (power_keyboard_char (CHR ''x'') demo_net))) = [] \<and>
    key_pending (k_kbd ((power_tick_hook ^^ n) (power_keyboard_char (CHR ''x'') demo_net))) = ''x''"
proof -
  have m: "p_mode (k_power demo_net) \<noteq> POWER_MODE_PERFORMANCE" "length (key_stream demo_net) < 256"
    by (simp_all add: demo_net_ok POWER_MODE_BALANCED_def POWER_MODE_PERFORMANCE_def)
  note c = keyboard_char_ok [OF demo_net_ok(5) m, of "CHR ''x''"]
  have "p_ticks_since_flush (k_power (power_keyboard_char (CHR ''x'') demo_net)) = 0"
    by (simp add: power_keyboard_char_def Let_def upd_pstats_def kq_push_def demo_net_ok)
  with keyboard_delivery [OF c(1)] c(2) demo_net_ok(6) show ?thesis by auto
qed

section \<open>Defects\<close>

text \<open>Performance mode overtakes and strands.  Switching to performance mode with packets pending
  leaves them in the transmit queue: a packet written afterwards is delivered before them, and
  no clock tick flushes them, although the tick hook still runs.\<close>

theorem netfs_performance_strands:
  assumes ok: "net_ok (k_net k)" and lb: "loopback (k_net k)" and mode: "p_mode (k_power k) = POWER_MODE_PERFORMANCE"
    and d: "strlen d < 2 ^ 32"
  shows "\<exists>k'. netfs_write_path (Some ''/net/tx'') (Some d) k = (True, k') \<and>
    map payload (rx_contents (k_net k')) = lastn 32 (map payload (rx_contents (k_net k)) @ [sent_bytes d]) \<and>
    tx_contents (k_net k') = tx_contents (k_net k) \<and>
    tx_contents (k_net ((power_tick_hook ^^ n) k)) = tx_contents (k_net k)"
proof -
  let ?k' = "transmit_now (string_bytes d) (word_of_nat (strlen d)) k"
  have w: "netfs_write_path (Some ''/net/tx'') (Some d) k = (True, ?k')"
    using mode by (simp add: netfs_write_path_def net_tx_paths Let_def power_get_mode_def)
  have hook: "tx_contents (k_net (power_tick_hook k1)) = tx_contents (k_net k1) \<and>
      p_mode (k_power (power_tick_hook k1)) = p_mode (k_power k1)"
    if "p_mode (k_power k1) = POWER_MODE_PERFORMANCE" for k1 :: "'a kernel"
    using that by (simp add: power_tick_hook_def Let_def netfs_power_tick_def power_get_mode_def keyboard_flush_now_def flush_loop_frame)
  have "tx_contents (k_net ((power_tick_hook ^^ n) k)) = tx_contents (k_net k) \<and>
      p_mode (k_power ((power_tick_hook ^^ n) k)) = p_mode (k_power k)"
    using mode hook by (induction n) simp_all
  moreover have "tx_contents (k_net ?k') = tx_contents (k_net k)"
    using tx_contents_cong [OF transmit_frame(3-5)] by blast
  moreover have "map payload (rx_contents (k_net ?k')) = lastn 32 (map payload (rx_contents (k_net k)) @ [sent_bytes d])"
    using transmit_ok(2) [OF ok clip_string(2) [OF d]] lb clip_string(1) [OF d] by simp
  ultimately show ?thesis using w by blast
qed

theorem netfs_performance_strands_witness:
  "\<exists>(k :: unit kernel) k'. map payload (tx_contents (k_net k)) = [string_bytes ''first''] \<and>
    netfs_write_path (Some ''/net/tx'') (Some ''second'') k = (True, k') \<and>
    map payload (rx_contents (k_net k')) = [string_bytes ''second''] \<and>
    map payload (tx_contents (k_net ((power_tick_hook ^^ 1000) k))) = [string_bytes ''first'']"
proof -
  let ?b = "string_bytes ''first''" and ?l = "word_of_nat (strlen ''first'') :: u32"
  have s: "strlen ''first'' < 2 ^ 32" "strlen ''second'' < 2 ^ 32" by simp_all
  note rt = demo_net_ok(4) [unfolded in_flight_def append_is_Nil_conv map_is_Nil_conv]
  have "tx_count (k_net demo_net) < 32" using rt length_tx_contents [of "k_net demo_net"] by simp
  from enqueue_tx_ok [OF demo_net_ok(1) clip_string(2) [OF s(1)] this] obtain k1 :: "unit kernel" where
    e: "net_ok (k_net k1)" "loopback (k_net k1) = loopback (k_net demo_net)" "rx_contents (k_net k1) = rx_contents (k_net demo_net)"
    "map payload (tx_contents (k_net k1)) = map payload (tx_contents (k_net demo_net)) @ [clip ?b ?l]"
    by blast
  then have k1: "net_ok (k_net k1)" "loopback (k_net k1)" "rx_contents (k_net k1) = []"
    "map payload (tx_contents (k_net k1)) = [sent_bytes ''first'']"
    using rt demo_net_ok(2) clip_string(1) [OF s(1)] by simp_all
  let ?k = "k1\<lparr>k_power := (k_power k1)\<lparr>p_mode := POWER_MODE_PERFORMANCE\<rparr>\<rparr>"
  have sb: "sent_bytes ''first'' = ?b" "sent_bytes ''second'' = string_bytes ''second''"
    by (simp_all add: sent_bytes_def c_str_def string_bytes_def)
  define kp where "kp = ?k"
  have kp: "net_ok (k_net kp)" "loopback (k_net kp)" "p_mode (k_power kp) = POWER_MODE_PERFORMANCE" "k_net kp = k_net k1"
    using k1 by (simp_all add: kp_def)
  from netfs_performance_strands [OF kp(1-3) s(2), of 1000] obtain k' where
    w: "netfs_write_path (Some ''/net/tx'') (Some ''second'') kp = (True, k')"
    "map payload (rx_contents (k_net k')) = lastn 32 (map payload (rx_contents (k_net kp)) @ [sent_bytes ''second''])"
    "tx_contents (k_net ((power_tick_hook ^^ 1000) kp)) = tx_contents (k_net kp)" by blast
  show ?thesis
  proof (intro exI conjI)
    show "map payload (tx_contents (k_net kp)) = [?b]" using k1(4) sb(1) by (simp only: kp(4))
    show "netfs_write_path (Some ''/net/tx'') (Some ''second'') kp = (True, k')" by (rule w(1))
    show "map payload (rx_contents (k_net k')) = [string_bytes ''second'']" using w(2) k1(3) sb(2) by (simp add: kp(4))
    show "map payload (tx_contents (k_net ((power_tick_hook ^^ 1000) kp))) = [?b]"
      using k1(4) sb(1) by (simp only: w(3) kp(4))
  qed
qed

end
