(* ===== verification/Keyboard.thy ===== *)
theory Keyboard
  imports Netfs
begin

text \<open>
  The keyboard driver of \<open>kernel/keyboard.c\<close>: the two scancode tables, the shift and prefix
  state machine, scrolling keys, and the hand-over of characters to the power policy.
\<close>

section \<open>Definitions\<close>

definition normal_keys :: "(nat \<times> char) list" where
  "normal_keys =
    [
     (0x02, CHR ''1''), (0x03, CHR ''2''), (0x04, CHR ''3''), (0x05, CHR ''4''), (0x06, CHR ''5''), (0x07, CHR ''6''),
     (0x08, CHR ''7''), (0x09, CHR ''8''), (0x0a, CHR ''9''), (0x0b, CHR ''0''), (0x0c, CHR ''-''), (0x0d, CHR ''=''),
     (0x0e, CHR 0x08), (0x0f, CHR 0x09), (0x10, CHR ''q''), (0x11, CHR ''w''), (0x12, CHR ''e''), (0x13, CHR ''r''),
     (0x14, CHR ''t''), (0x15, CHR ''y''), (0x16, CHR ''u''), (0x17, CHR ''i''), (0x18, CHR ''o''), (0x19, CHR ''p''),
     (0x1a, CHR ''[''), (0x1b, CHR '']''), (0x1c, CHR 0x0A), (0x1e, CHR ''a''), (0x1f, CHR ''s''), (0x20, CHR ''d''),
     (0x21, CHR ''f''), (0x22, CHR ''g''), (0x23, CHR ''h''), (0x24, CHR ''j''), (0x25, CHR ''k''), (0x26, CHR ''l''),
     (0x27, CHR '';''), (0x28, CHR 0x27), (0x29, CHR 0x60), (0x2b, CHR 0x5C), (0x2c, CHR ''z''), (0x2d, CHR ''x''),
     (0x2e, CHR ''c''), (0x2f, CHR ''v''), (0x30, CHR ''b''), (0x31, CHR ''n''), (0x32, CHR ''m''), (0x33, CHR '',''),
     (0x34, CHR ''.''), (0x35, CHR ''/''), (0x39, CHR '' '')]"

definition shift_keys :: "(nat \<times> char) list" where
  "shift_keys =
    [
     (0x02, CHR ''!''), (0x03, CHR ''@''), (0x04, CHR ''#''), (0x05, CHR ''$''), (0x06, CHR ''%''), (0x07, CHR ''^''),
     (0x08, CHR ''&''), (0x09, CHR ''*''), (0x0a, CHR ''(''), (0x0b, CHR '')''), (0x0c, CHR ''_''), (0x0d, CHR ''+''),
     (0x0e, CHR 0x08), (0x0f, CHR 0x09), (0x10, CHR ''Q''), (0x11, CHR ''W''), (0x12, CHR ''E''), (0x13, CHR ''R''),
     (0x14, CHR ''T''), (0x15, CHR ''Y''), (0x16, CHR ''U''), (0x17, CHR ''I''), (0x18, CHR ''O''), (0x19, CHR ''P''),
     (0x1a, CHR ''{''), (0x1b, CHR ''}''), (0x1c, CHR 0x0A), (0x1e, CHR ''A''), (0x1f, CHR ''S''), (0x20, CHR ''D''),
     (0x21, CHR ''F''), (0x22, CHR ''G''), (0x23, CHR ''H''), (0x24, CHR ''J''), (0x25, CHR ''K''), (0x26, CHR ''L''),
     (0x27, CHR '':''), (0x28, CHR 0x22), (0x29, CHR ''~''), (0x2b, CHR ''|''), (0x2c, CHR ''Z''), (0x2d, CHR ''X''),
     (0x2e, CHR ''C''), (0x2f, CHR ''V''), (0x30, CHR ''B''), (0x31, CHR ''N''), (0x32, CHR ''M''), (0x33, CHR ''<''),
     (0x34, CHR ''>''), (0x35, CHR ''?''), (0x39, CHR '' '')]"

definition normal_map :: "nat \<Rightarrow> char" where
  "normal_map key = (case map_of normal_keys key of None \<Rightarrow> NUL | Some c \<Rightarrow> c)"

definition shift_map :: "nat \<Rightarrow> char" where
  "shift_map key = (case map_of shift_keys key of None \<Rightarrow> NUL | Some c \<Rightarrow> c)"

definition keyboard_trace_char :: "char \<Rightarrow> u32 \<Rightarrow> 'd kernel \<Rightarrow> 'd kernel" where
  "keyboard_trace_char ch scancode k =
     trace_record TRACE_EVENT_KEYBOARD 0 (ucast (byte_of_char ch)) (scast scancode) k"

definition upd_kbd :: "(kbd_state \<Rightarrow> kbd_state) \<Rightarrow> 'd kernel \<Rightarrow> 'd kernel" where
  "upd_kbd f k = k\<lparr>k_kbd := f (k_kbd k)\<rparr>"

text \<open>The scancode is an \<open>int\<close>; the interrupt handler passes the byte it read.\<close>

definition keyboard_handle_scancode :: "u32 \<Rightarrow> 'd kernel \<Rightarrow> 'd kernel" where
  "keyboard_handle_scancode scancode k =
     (let released = (scancode AND 0x80 \<noteq> 0);
          key = unat (scancode AND 0x7f);
          shifted = (kb_left_shift (k_kbd k) \<or> kb_right_shift (k_kbd k)) in
      if scancode = 0xe0 then upd_kbd (\<lambda>b. b\<lparr>kb_extended_prefix := True\<rparr>) k
      else
        (let ext = kb_extended_prefix (k_kbd k);
             k1 = (if ext then upd_kbd (\<lambda>b. b\<lparr>kb_extended_prefix := False\<rparr>) k else k) in
         if ext \<and> \<not> released \<and> key = 0x49 then k1\<lparr>k_con := console_scroll (-5) (k_con k1)\<rparr>
         else if ext \<and> \<not> released \<and> key = 0x51 then k1\<lparr>k_con := console_scroll 5 (k_con k1)\<rparr>
         else if ext \<and> \<not> released \<and> key = 0x47 then k1\<lparr>k_con := console_scroll_top (k_con k1)\<rparr>
         else if ext \<and> \<not> released \<and> key = 0x4f then k1\<lparr>k_con := console_scroll_bottom (k_con k1)\<rparr>
         else if key = 0x2a then upd_kbd (\<lambda>b. b\<lparr>kb_left_shift := \<not> released\<rparr>) k1
         else if key = 0x36 then upd_kbd (\<lambda>b. b\<lparr>kb_right_shift := \<not> released\<rparr>) k1
         else if released then k1
         else
           (let ch = (if shifted then shift_map key else normal_map key) in
            if ch = NUL then k1 else power_keyboard_char ch (keyboard_trace_char ch scancode k1))))"

section \<open>Typing text\<close>

text \<open>The scancodes of the key that makes a character: press and release, with the left shift key
  around them when the plain table does not have it.\<close>

definition key_for :: "(nat \<times> char) list \<Rightarrow> char \<Rightarrow> nat option" where
  "key_for tbl c = map_option fst (find (\<lambda>(k, d). d = c) tbl)"

definition type_codes :: "char \<Rightarrow> nat list" where
  "type_codes c =
     (case key_for normal_keys c of
        Some key \<Rightarrow> [key, key + 0x80]
      | None \<Rightarrow> (case key_for shift_keys c of
          Some key \<Rightarrow> [0x2a, key, key + 0x80, 0xaa]
        | None \<Rightarrow> []))"

definition typeable :: "char \<Rightarrow> bool" where
  "typeable c \<longleftrightarrow> of_char c \<in> {32 :: nat..<127} \<union> {8, 9, 10}"

definition handle_codes :: "nat list \<Rightarrow> 'd kernel \<Rightarrow> 'd kernel" where
  "handle_codes cs k = fold (\<lambda>c. keyboard_handle_scancode (word_of_nat c)) cs k"

text \<open>Bytes below 128 are presses of the key, the same with 128 added are its release.\<close>

lemma scancode_press:
  "key < 128 \<Longrightarrow> (word_of_nat key :: u32) AND 0x80 = 0 \<and> unat ((word_of_nat key :: u32) AND 0x7f) = key \<and> (word_of_nat key :: u32) \<noteq> 0xe0"
proof -
  have "\<forall>key \<in> set [0..<128]. (word_of_nat key :: u32) AND 0x80 = 0 \<and> unat ((word_of_nat key :: u32) AND 0x7f) = key \<and>
      (word_of_nat key :: u32) \<noteq> 0xe0" by code_simp
  then show "key < 128 \<Longrightarrow> ?thesis" by simp
qed

lemma scancode_release:
  "key < 96 \<Longrightarrow> (word_of_nat (key + 128) :: u32) AND 0x80 \<noteq> 0 \<and> unat ((word_of_nat (key + 128) :: u32) AND 0x7f) = key \<and>
     (word_of_nat (key + 128) :: u32) \<noteq> 0xe0"
proof -
  have "\<forall>key \<in> set [0..<96]. (word_of_nat (key + 128) :: u32) AND 0x80 \<noteq> 0 \<and> unat ((word_of_nat (key + 128) :: u32) AND 0x7f) = key \<and>
      (word_of_nat (key + 128) :: u32) \<noteq> 0xe0" by code_simp
  then show "key < 96 \<Longrightarrow> ?thesis" by simp
qed

lemma key_table_ok:
  "list_all (\<lambda>(key, c). key < 64 \<and> key \<noteq> 0x2a \<and> key \<noteq> 0x36 \<and> c \<noteq> NUL) (normal_keys @ shift_keys)"
  "distinct (map fst normal_keys)" "distinct (map fst shift_keys)"
  by (simp_all add: normal_keys_def shift_keys_def)

lemma key_for_Some:
  assumes "key_for tbl c = Some key" and "distinct (map fst tbl)"
  shows "(key, c) \<in> set tbl" "map_of tbl key = Some c"
proof -
  show "(key, c) \<in> set tbl" using assms(1) by (auto simp: key_for_def find_Some_iff) (metis nth_mem)
  then show "map_of tbl key = Some c" using assms(2) by simp
qed

lemma key_for_None: "key_for tbl c = None \<longleftrightarrow> c \<notin> snd ` set tbl"
  by (force simp: key_for_def find_None_iff)

lemma typeable_in_tables: "typeable c \<Longrightarrow> c \<in> snd ` set (normal_keys @ shift_keys)"
proof -
  assume t: "typeable c"
  define codes :: "nat list" where "codes = map of_char (map snd (normal_keys @ shift_keys))"
  have "codes = [49, 50, 51, 52, 53, 54, 55, 56, 57, 48, 45, 61, 8, 9, 113, 119, 101, 114, 116, 121, 117, 105, 111, 112,
      91, 93, 10, 97, 115, 100, 102, 103, 104, 106, 107, 108, 59, 39, 96, 92, 122, 120, 99, 118, 98, 110, 109, 44, 46, 47, 32,
      33, 64, 35, 36, 37, 94, 38, 42, 40, 41, 95, 43, 8, 9, 81, 87, 69, 82, 84, 89, 85, 73, 79, 80,
      123, 125, 10, 65, 83, 68, 70, 71, 72, 74, 75, 76, 58, 34, 126, 124, 90, 88, 67, 86, 66, 78, 77, 60, 62, 63, 32]"
    unfolding codes_def by (simp add: normal_keys_def shift_keys_def)
  moreover have "list_all (\<lambda>n. n \<in> set [49, 50, 51, 52, 53, 54, 55, 56, 57, 48, 45, 61, 8, 9, 113, 119, 101, 114, 116, 121, 117, 105, 111, 112,
      91, 93, 10, 97, 115, 100, 102, 103, 104, 106, 107, 108, 59, 39, 96, 92, 122, 120, 99, 118, 98, 110, 109, 44, 46, 47, 32,
      33, 64, 35, 36, 37, 94, 38, 42, 40, 41, 95, 43, 8, 9, 81, 87, 69, 82, 84, 89, 85, 73, 79, 80,
      123, 125, 10, 65, 83, 68, 70, 71, 72, 74, 75, 76, 58, 34, 126, 124, 90, 88, 67, 86, 66, 78, 77, 60, 62, 63, 32])
      ([8, 9, 10] @ [32..<127 :: nat])" by code_simp
  moreover have "of_char c \<in> set ([8, 9, 10 :: nat] @ [32..<127])"
    using t unfolding typeable_def set_append set_upt by auto
  ultimately have "of_char c \<in> set codes" by (metis list_all_iff)
  then show ?thesis by (force simp: codes_def)
qed

lemma typeable_keys:
  assumes "typeable c"
  shows "case key_for normal_keys c of
      Some key \<Rightarrow> key < 64 \<and> key \<noteq> 0x2a \<and> key \<noteq> 0x36 \<and> normal_map key = c \<and> c \<noteq> NUL
    | None \<Rightarrow> \<exists>key. key_for shift_keys c = Some key \<and> key < 64 \<and> key \<noteq> 0x2a \<and> key \<noteq> 0x36 \<and> shift_map key = c \<and> c \<noteq> NUL"
proof (cases "key_for normal_keys c")
  case (Some key)
  with key_for_Some [OF this key_table_ok(2)] key_table_ok(1) show ?thesis
    by (auto simp: normal_map_def list_all_iff)
next
  case None
  then have "c \<in> snd ` set shift_keys" using typeable_in_tables [OF assms] by (auto simp: key_for_None image_Un)
  then obtain key where key: "key_for shift_keys c = Some key" using key_for_None [of shift_keys c] by auto
  with key_for_Some [OF this key_table_ok(3)] key_table_ok(1) None show ?thesis
    by (auto simp: shift_map_def list_all_iff)
qed

definition plain_keyboard :: "'d kernel \<Rightarrow> bool" where
  "plain_keyboard k \<longleftrightarrow> \<not> kb_left_shift (k_kbd k) \<and> \<not> kb_right_shift (k_kbd k) \<and> \<not> kb_extended_prefix (k_kbd k)"

lemma trace_char_fields [simp]:
  "k_kbd (keyboard_trace_char ch s k) = k_kbd k" "k_power (keyboard_trace_char ch s k) = k_power k"
  by (simp_all add: keyboard_trace_char_def)

lemma keyboard_char_shift:
  "kb_left_shift (k_kbd (power_keyboard_char ch k)) = kb_left_shift (k_kbd k)"
  "kb_right_shift (k_kbd (power_keyboard_char ch k)) = kb_right_shift (k_kbd k)"
  "kb_extended_prefix (k_kbd (power_keyboard_char ch k)) = kb_extended_prefix (k_kbd k)"
  "p_mode (k_power (power_keyboard_char ch k)) = p_mode (k_power k)"
  by (simp_all add: power_keyboard_char_def Let_def keyboard_buffer_put_def)

lemma handle_press:
  assumes "key < 64" "key \<noteq> 0x2a" "key \<noteq> 0x36" and "\<not> kb_extended_prefix (k_kbd k)"
    and "(if kb_left_shift (k_kbd k) \<or> kb_right_shift (k_kbd k) then shift_map key else normal_map key) = ch" and "ch \<noteq> NUL"
  shows "keyboard_handle_scancode (word_of_nat key) k = power_keyboard_char ch (keyboard_trace_char ch (word_of_nat key) k)"
  using scancode_press [of key] assms unfolding keyboard_handle_scancode_def Let_def by auto

lemma handle_release:
  assumes "key < 64" "key \<noteq> 0x2a" "key \<noteq> 0x36" and "\<not> kb_extended_prefix (k_kbd k)"
  shows "keyboard_handle_scancode (word_of_nat (key + 128)) k = k"
  using scancode_release [of key] assms unfolding keyboard_handle_scancode_def Let_def by auto

lemma handle_shift:
  assumes "\<not> kb_extended_prefix (k_kbd k)"
  shows "keyboard_handle_scancode (word_of_nat 0x2a) k = upd_kbd (\<lambda>b. b\<lparr>kb_left_shift := True\<rparr>) k"
    "keyboard_handle_scancode (word_of_nat 0xaa) k = upd_kbd (\<lambda>b. b\<lparr>kb_left_shift := False\<rparr>) k"
  using scancode_press [of "0x2a"] scancode_release [of "0x2a"] assms
  unfolding keyboard_handle_scancode_def Let_def by simp_all

lemma shift_keys_stream:
  "key_stream (upd_kbd (\<lambda>b. b\<lparr>kb_left_shift := s\<rparr>) k) = key_stream k"
  "keys_ok (upd_kbd (\<lambda>b. b\<lparr>kb_left_shift := s\<rparr>) k) = keys_ok k"
  "k_power (upd_kbd f k) = k_power k"
  by (simp_all add: upd_kbd_def key_stream_def keys_ok_def key_pending_def kbd_ok_def)

lemma type_char_ok:
  assumes k: "keys_ok k" "p_mode (k_power k) \<noteq> POWER_MODE_PERFORMANCE" "length (key_stream k) < 256" "plain_keyboard k"
    and c: "typeable c"
  defines "k' \<equiv> handle_codes (type_codes c) k"
  shows "keys_ok k' \<and> p_mode (k_power k') = p_mode (k_power k) \<and> plain_keyboard k' \<and> key_stream k' = key_stream k @ [c]"
proof (cases "key_for normal_keys c")
  case (Some key)
  then have key: "key < 64" "key \<noteq> 0x2a" "key \<noteq> 0x36" "normal_map key = c" "c \<noteq> NUL" using typeable_keys [OF c] by simp_all
  let ?k1 = "keyboard_trace_char c (word_of_nat key) k"
  have p: "keyboard_handle_scancode (word_of_nat key) k = power_keyboard_char c ?k1"
    using handle_press [OF key(1-3), of k c] key k(4) by (simp add: plain_keyboard_def)
  have r: "keyboard_handle_scancode (word_of_nat (key + 128)) (power_keyboard_char c ?k1) = power_keyboard_char c ?k1"
    using handle_release [OF key(1-3), of "power_keyboard_char c ?k1"] k(4) by (simp add: plain_keyboard_def keyboard_char_shift)
  have k': "k' = power_keyboard_char c ?k1" using Some p r by (simp add: k'_def handle_codes_def type_codes_def add.commute)
  have "keys_ok ?k1" "length (key_stream ?k1) < 256" "key_stream ?k1 = key_stream k" using k by (simp_all add: keys_ok_def key_stream_def)
  then show ?thesis
    using keyboard_char_ok [of ?k1 c] k by (simp add: k' plain_keyboard_def keyboard_char_shift)
next
  case None
  then obtain key where key: "key_for shift_keys c = Some key" "key < 64" "key \<noteq> 0x2a" "key \<noteq> 0x36" "shift_map key = c" "c \<noteq> NUL"
    using typeable_keys [OF c] by auto
  let ?k0 = "upd_kbd (\<lambda>b. b\<lparr>kb_left_shift := True\<rparr>) k"
  let ?k1 = "keyboard_trace_char c (word_of_nat key) ?k0"
  let ?k2 = "power_keyboard_char c ?k1"
  have ext: "\<not> kb_extended_prefix (k_kbd k)" "\<not> kb_extended_prefix (k_kbd ?k0)" "\<not> kb_extended_prefix (k_kbd ?k2)"
    using k(4) by (simp_all add: plain_keyboard_def upd_kbd_def keyboard_char_shift)
  have p: "keyboard_handle_scancode (word_of_nat key) ?k0 = ?k2"
    using handle_press [OF key(2-4) ext(2), of c] key by (simp add: upd_kbd_def)
  have r: "keyboard_handle_scancode (word_of_nat (key + 128)) ?k2 = ?k2" using handle_release [OF key(2-4) ext(3)] .
  have k': "k' = upd_kbd (\<lambda>b. b\<lparr>kb_left_shift := False\<rparr>) ?k2"
    using None key(1) p r handle_shift [OF ext(1)] handle_shift [OF ext(3)]
    by (simp add: k'_def handle_codes_def type_codes_def add.commute)
  have k1: "keys_ok ?k1" "length (key_stream ?k1) < 256" "key_stream ?k1 = key_stream k" "p_mode (k_power ?k1) = p_mode (k_power k)"
    using k shift_keys_stream(1,2) [of True k] by (simp_all add: keys_ok_def key_stream_def shift_keys_stream(3))
  have "plain_keyboard k'" using k(4) by (simp add: k' plain_keyboard_def upd_kbd_def keyboard_char_shift)
  then show ?thesis
    using keyboard_char_ok [OF k1(1) _ k1(2), of c] k k1 by (simp add: k' shift_keys_stream keyboard_char_shift)
qed

section \<open>Correctness\<close>



end
