(* ===== verification/System_State.thy ===== *)
theory System_State
  imports Netfs Sched Elf Text_Buffer
begin

text \<open>
  The state above the kernel record: the job tables of \<open>kernel/builtin_exec.c\<close>, the descriptor
  table of \<open>kernel/vfs.c\<close> and the ring 3 bookkeeping of \<open>kernel/usermode.c\<close>.  A pointer to job
  \<open>i\<close> of a table is the number \<open>i + 1\<close>, so that zero is \<open>NULL\<close>.
\<close>

section \<open>Definitions\<close>

text \<open>The result of a C function that may fail: the value -1, an access outside an array, or a value.\<close>

datatype 'a outcome = Fail | Overrun | Done 'a

record ping_job =
  pj_used :: bool
  pj_target :: "char list"
  pj_count :: u32
  pj_interval_ticks :: u32

record generic_job =
  gj_used :: bool
  gj_arg :: "char list"

datatype vfs_node_type = Node_Invalid | Node_Net | Node_Proc_Tasks | Node_Proc_Meminfo | Node_Proc_Aspace
  | Node_Trace_Index | Node_Trace_Session | Node_Trace_Meta | Node_Bin

record vfs_fd =
  fd_used :: bool
  fd_flags :: u32
  fd_pos :: u32
  fd_type :: vfs_node_type
  fd_path :: "char list"

record 'd system =
  sys_k :: "'d kernel"
  ping_jobs :: "ping_job list"
  generic_jobs :: "generic_job list"
  fd_table :: "vfs_fd list"
  um_active :: bool
  um_kernel_rsp :: u64

definition ping_job_zero :: ping_job where
  "ping_job_zero = \<lparr>pj_used = False, pj_target = replicate 32 NUL, pj_count = 0, pj_interval_ticks = 0\<rparr>"

definition generic_job_zero :: generic_job where
  "generic_job_zero = \<lparr>gj_used = False, gj_arg = replicate 64 NUL\<rparr>"

definition fd_zero :: vfs_fd where
  "fd_zero = \<lparr>fd_used = False, fd_flags = 0, fd_pos = 0, fd_type = Node_Invalid, fd_path = replicate 64 NUL\<rparr>"

definition job_ptr :: "nat \<Rightarrow> u64" where
  "job_ptr i = word_of_nat (i + 1)"

text \<open>The system as the loader leaves it, around a kernel.\<close>

definition system_bss :: "'d kernel \<Rightarrow> 'd system" where
  "system_bss k = \<lparr>sys_k = k, ping_jobs = replicate 4 ping_job_zero, generic_jobs = replicate 4 generic_job_zero,
     fd_table = replicate 32 fd_zero, um_active = False, um_kernel_rsp = 0\<rparr>"

definition upd_k :: "('d kernel \<Rightarrow> 'd kernel) \<Rightarrow> 'd system \<Rightarrow> 'd system" where
  "upd_k f s = s\<lparr>sys_k := f (sys_k s)\<rparr>"

definition upd_vm :: "(vm \<Rightarrow> vm) \<Rightarrow> 'd system \<Rightarrow> 'd system" where
  "upd_vm f s = upd_k (\<lambda>k. k\<lparr>k_vm := f (k_vm k)\<rparr>) s"

text \<open>
  A message on the console and the serial line.  The formats are literals with matching
  arguments, on which the printer is defined.
\<close>

definition say :: "char list \<Rightarrow> fmt_arg list \<Rightarrow> 'd kernel \<Rightarrow> 'd kernel" where
  "say fmt args k = (case both_printf fmt args k of None \<Rightarrow> k | Some k' \<Rightarrow> k')"

section \<open>Lemmas\<close>

lemma upd_k_fields [simp]:
  "sys_k (upd_k f s) = f (sys_k s)" "ping_jobs (upd_k f s) = ping_jobs s" "generic_jobs (upd_k f s) = generic_jobs s"
  "fd_table (upd_k f s) = fd_table s" "um_active (upd_k f s) = um_active s" "um_kernel_rsp (upd_k f s) = um_kernel_rsp s"
  by (simp_all add: upd_k_def)

lemma upd_vm_fields [simp]:
  "sys_k (upd_vm f s) = (sys_k s)\<lparr>k_vm := f (k_vm (sys_k s))\<rparr>" "ping_jobs (upd_vm f s) = ping_jobs s"
  "generic_jobs (upd_vm f s) = generic_jobs s" "fd_table (upd_vm f s) = fd_table s"
  "um_active (upd_vm f s) = um_active s" "um_kernel_rsp (upd_vm f s) = um_kernel_rsp s"
  by (simp_all add: upd_vm_def)

text \<open>Printing changes the console and the serial line only.\<close>

lemma say_fields [simp]:
  "k_vm (say fmt args k) = k_vm k" "k_trace (say fmt args k) = k_trace k" "k_fs (say fmt args k) = k_fs k"
  "k_ticks (say fmt args k) = k_ticks k" "k_sched (say fmt args k) = k_sched k" "k_kbd (say fmt args k) = k_kbd k"
  "k_power (say fmt args k) = k_power k" "k_net (say fmt args k) = k_net k"
  "k_active_workloads (say fmt args k) = k_active_workloads k" "k_hz (say fmt args k) = k_hz k"
  by (simp_all add: say_def both_printf_def split: option.split prod.split)

end
