(* ===== verification/Builtin_Exec.thy ===== *)
theory Builtin_Exec
  imports System_State
begin

text \<open>
  The built-in programs of \<open>kernel/builtin_exec.c\<close>: the program table with its ELF images, the
  job slots, the files under \<open>/bin\<close>, starting a program as a task and running the ring 3
  program synchronously, with the ring 3 entry of \<open>kernel/usermode.c\<close>.  The assembly routine
  \<open>usermode_enter\<close> is a parameter: the effect on the system of running user code until it
  leaves.
\<close>

section \<open>Definitions\<close>

definition PING_JOBS_MAX :: nat where "PING_JOBS_MAX = 4"
definition GENERIC_JOBS_MAX :: nat where "GENERIC_JOBS_MAX = 4"

subsection \<open>The program table\<close>

text \<open>The four images differ in the entry point only.\<close>

definition builtin_ehdr :: "u64 \<Rightarrow> elf64_ehdr" where
  "builtin_ehdr entry = \<lparr>eh_ident = [0x7f, 0x45, 0x4c, 0x46, 2, 1, 1, 0, 0, 0, 0, 0, 0, 0, 0, 0],
     eh_type = 2, eh_machine = ELF_MACHINE_X86_64, eh_version = 1, eh_entry = entry, eh_phoff = 64,
     eh_shoff = 0, eh_flags = 0, eh_ehsize = 64, eh_phentsize = 56, eh_phnum = 1, eh_shentsize = 0,
     eh_shnum = 0, eh_shstrndx = 0\<rparr>"

definition builtin_phdr :: elf64_phdr where
  "builtin_phdr = \<lparr>ph_type = 1, ph_flags = 5, ph_offset = 0, ph_vaddr = 0x401000, ph_paddr = 0x401000,
     ph_filesz = 120, ph_memsz = 120, ph_align = 0x1000\<rparr>"

definition builtin_elf_image :: "u64 \<Rightarrow> u8 list" where
  "builtin_elf_image entry = write_ehdr (builtin_ehdr entry) @ write_phdr builtin_phdr"

definition elf_ping_image :: "u8 list" where "elf_ping_image = builtin_elf_image 0x401000"
definition elf_ring3_image :: "u8 list" where "elf_ring3_image = builtin_elf_image 0x401040"
definition elf_ps_image :: "u8 list" where "elf_ps_image = builtin_elf_image 0x401080"
definition elf_netstat_image :: "u8 list" where "elf_netstat_image = builtin_elf_image 0x4010c0"

record builtin_program =
  bp_path :: "char list"
  bp_summary :: "char list"
  bp_mode :: "char list"
  bp_image :: "u8 list"
  bp_entry :: task_entry

definition programs :: "builtin_program list" where
  "programs =
    [\<lparr>bp_path = ''/bin/ping'', bp_summary = ''send file-modeled ICMP over /net'', bp_mode = ''kernel-task'',
       bp_image = elf_ping_image, bp_entry = Ping_Task\<rparr>,
     \<lparr>bp_path = ''/bin/ring3demo'', bp_summary = ''enter ring3, issue int 0x80, and return'', bp_mode = ''user-transition'',
       bp_image = elf_ring3_image, bp_entry = Ring3_Task\<rparr>,
     \<lparr>bp_path = ''/bin/ps'', bp_summary = ''dump process and scheduler table'', bp_mode = ''kernel-task'',
       bp_image = elf_ps_image, bp_entry = Ps_Task\<rparr>,
     \<lparr>bp_path = ''/bin/netstat'', bp_summary = ''print network filesystem counters'', bp_mode = ''kernel-task'',
       bp_image = elf_netstat_image, bp_entry = Netstat_Task\<rparr>]"

definition find_program :: "char list \<Rightarrow> builtin_program option" where
  "find_program path = find (\<lambda>p. strcmp (bp_path p) path = 0) programs"

definition builtin_exec_count :: u32 where
  "builtin_exec_count = word_of_nat (length programs)"

text \<open>Path, summary and mode of program \<open>index\<close>.\<close>

definition builtin_exec_get :: "u32 \<Rightarrow> (char list \<times> char list \<times> char list) option" where
  "builtin_exec_get index =
     (if index \<ge> builtin_exec_count then None
      else (let p = programs ! unat index in Some (bp_path p, bp_summary p, bp_mode p)))"

subsection \<open>Job slots\<close>

definition is_digit :: "char \<Rightarrow> bool" where
  "is_digit c \<longleftrightarrow> 48 \<le> (of_char c :: nat) \<and> (of_char c :: nat) \<le> 57"

fun parse_digits :: "u32 \<Rightarrow> char list \<Rightarrow> u32 option" where
  "parse_digits value [] = Some value"
| "parse_digits value (c # s) =
     (if c = NUL then Some value
      else if \<not> is_digit c then None
      else parse_digits (value * 10 + (of_char c - 48)) s)"

definition parse_u32 :: "char list option \<Rightarrow> u32 option" where
  "parse_u32 s = (case s of None \<Rightarrow> None | Some t \<Rightarrow> if cdref t = NUL then None else parse_digits 0 t)"

definition alloc_generic_job :: "char list option \<Rightarrow> generic_job list \<Rightarrow> nat option \<times> generic_job list" where
  "alloc_generic_job arg jobs =
     (case find_index (\<lambda>j. \<not> gj_used j) jobs of
        None \<Rightarrow> (None, jobs)
      | Some i \<Rightarrow>
          (let zero = memset (gj_arg (jobs ! i)) NUL 64;
               len0 = (case arg of None \<Rightarrow> 0 | Some a \<Rightarrow> strlen a);
               len = (if len0 \<ge> 64 then 63 else len0);
               buf = (case arg of None \<Rightarrow> zero | Some a \<Rightarrow> if len = 0 then zero else memcpy zero a len)
           in (Some i, jobs[i := \<lparr>gj_used = True, gj_arg = buf\<rparr>])))"

text \<open>The loop that splits the target off: at most \<open>room\<close> characters up to a blank.\<close>

fun ping_target :: "nat \<Rightarrow> char list \<Rightarrow> char list \<times> char list" where
  "ping_target 0 arg = ([], arg)"
| "ping_target (Suc room) arg =
     (if cdref arg = NUL \<or> cdref arg = CHR '' '' then ([], arg)
      else (let (t, rest) = ping_target room (tl arg) in (cdref arg # t, rest)))"

definition alloc_ping_job :: "char list option \<Rightarrow> ping_job list \<Rightarrow> nat option \<times> ping_job list" where
  "alloc_ping_job arg jobs =
     (case arg of
        None \<Rightarrow> (None, jobs)
      | Some a \<Rightarrow>
          if cdref a = NUL then (None, jobs)
          else
            (let (target, rest) = ping_target 31 a;
                 count = (if cdref rest = CHR '' ''
                          then (case parse_u32 (Some (tl rest)) of
                                  None \<Rightarrow> 4
                                | Some parsed \<Rightarrow> if 0 < parsed \<and> parsed < 32 then parsed else 4)
                          else 4)
             in if target = [] then (None, jobs)
                else
                  (case find_index (\<lambda>j. \<not> pj_used j) jobs of
                     None \<Rightarrow> (None, jobs)
                   | Some slot \<Rightarrow>
                       (Some slot, jobs[slot := \<lparr>pj_used = True,
                          pj_target = memcpy (replicate 32 NUL) (target @ [NUL]) (length target + 1),
                          pj_count = count, pj_interval_ticks = 5\<rparr>]))))"

definition builtin_exec_init :: "'d system \<Rightarrow> 'd system" where
  "builtin_exec_init s = s\<lparr>ping_jobs := replicate PING_JOBS_MAX ping_job_zero,
     generic_jobs := replicate GENERIC_JOBS_MAX generic_job_zero\<rparr>"

subsection \<open>The files under /bin\<close>

definition is_bin_index :: "char list \<Rightarrow> bool" where
  "is_bin_index path \<longleftrightarrow> strcmp path ''/bin'' = 0 \<or> strcmp path ''/bin/'' = 0 \<or> strcmp path ''/bin/index'' = 0"

definition index_pieces :: "char list list \<Rightarrow> piece list" where
  "index_pieces execs =
     Txt (ln ''executables:'') #
     (if execs \<noteq> [] then concat (map (\<lambda>e. [Txt ''  '', Txt e, Chr LF]) execs)
      else concat (map (\<lambda>p. [Txt ''  '', Txt (bp_path p), Txt '' : '', Txt (bp_summary p), Chr LF]) programs))"

definition program_pieces :: "builtin_program \<Rightarrow> bool \<Rightarrow> elf_info \<Rightarrow> piece list" where
  "program_pieces p from_disk info =
     [Txt ''path='', Txt (bp_path p), Txt (LF # ''summary=''), Txt (bp_summary p), Txt (LF # ''mode=''), Txt (bp_mode p),
      Txt (LF # ''source=''), Txt (if from_disk then ''disk'' else ''kernel''),
      Txt (LF # ''elf.machine=''), Dec (ucast (ei_machine info)), Txt (LF # ''elf.entry=''), Dec (ei_entry info),
      Txt (LF # ''elf.phnum=''), Dec (ucast (ei_phnum info)), Txt (LF # ''elf.vaddr_range=''), Dec (ei_first_vaddr info),
      Chr (CHR ''-''), Dec (ei_last_vaddr info), Chr LF]"

text \<open>
  The image on disk is preferred to the one in the kernel.  \<open>image\<close> (here \<open>img\<close>) is the local array of 256
  bytes; a file that is larger than the array is an overrun.
\<close>

definition load_program :: "'d blockdev \<Rightarrow> char list \<Rightarrow> u8 list \<Rightarrow> u8 list \<Rightarrow> 'd fs_state \<Rightarrow> (bool \<times> u8 list) outcome \<times> 'd fs_state" where
  "load_program B path kernel_image img fs =
     (case fs_read_exec_file B path img fs of
        (Read_Fail _, fs') \<Rightarrow> (Done (False, kernel_image), fs')
      | (Read_Overrun, fs') \<Rightarrow> (Overrun, fs')
      | (Read_Ok n img', fs') \<Rightarrow>
          (if unat n > length img' then Overrun else Done (True, take (unat n) img'), fs'))"

definition builtin_exec_pieces :: "'d blockdev \<Rightarrow> char list \<Rightarrow> u8 list \<Rightarrow> 'd fs_state \<Rightarrow> piece list outcome \<times> 'd fs_state" where
  "builtin_exec_pieces B path img fs =
     (if is_bin_index path then (Done (index_pieces (fs_snapshot_execs 8 fs)), fs)
      else
        (case find_program path of
           None \<Rightarrow> (Fail, fs)
         | Some p \<Rightarrow>
             (case load_program B path (bp_image p) img fs of
                (Done (from_disk, img), fs') \<Rightarrow>
                  (case elf_parse_image img of
                     Elf_Reject \<Rightarrow> (Fail, fs')
                   | Elf_OOB \<Rightarrow> (Overrun, fs')
                   | Elf_Parsed info \<Rightarrow> (Done (program_pieces p from_disk info), fs'))
              | (_, fs') \<Rightarrow> (Overrun, fs'))))"

fun map_outcome_render :: "u32 \<Rightarrow> char list \<Rightarrow> piece list outcome \<Rightarrow> tbuf outcome" where
  "map_outcome_render cap buf (Done ps) = Done (render cap ps (buf[0 := NUL], 0))"
| "map_outcome_render cap buf Overrun = Overrun"
| "map_outcome_render cap buf Fail = Fail"

definition builtin_exec_render_path ::
  "'d blockdev \<Rightarrow> u8 list \<Rightarrow> char list \<Rightarrow> char list \<Rightarrow> u32 \<Rightarrow> 'd fs_state \<Rightarrow> tbuf outcome \<times> 'd fs_state" where
  "builtin_exec_render_path B img path buf cap fs =
     (if cap = 0 then (Fail, fs)
      else (let (r, fs') = builtin_exec_pieces B path img fs in (map_outcome_render cap buf r, fs')))"

subsection \<open>Starting a program\<close>

text \<open>The task runs in the kernel address space; the pid is negative as an \<open>int\<close> from 2147483648 on.\<close>

definition builtin_exec_spawn :: "char list \<Rightarrow> char list option \<Rightarrow> 'd system \<Rightarrow> u32 option \<times> 'd system" where
  "builtin_exec_spawn path arg s =
     (case find_program path of
        None \<Rightarrow> (None, s)
      | Some p \<Rightarrow>
          (case elf_parse_image (bp_image p) of
             Elf_Parsed info \<Rightarrow>
               if strcmp path ''/bin/ring3demo'' = 0 then (None, s)
               else
                 (let aspace_id = kernel_aspace_id (k_vm (sys_k s));
                      (ok, v) = aspace_retain aspace_id (k_vm (sys_k s)) in
                  if \<not> ok then (None, upd_vm (\<lambda>_. v) s)
                  else if aspace_id = 0 then (None, upd_vm (\<lambda>_. v) s)
                  else
                    (let s1 = upd_vm (\<lambda>_. v) s;
                         (slot, s2) =
                           (if bp_entry p = Ping_Task
                            then (let (i, jobs) = alloc_ping_job arg (ping_jobs s1) in (i, s1\<lparr>ping_jobs := jobs\<rparr>))
                            else (let (i, jobs) = alloc_generic_job arg (generic_jobs s1) in (i, s1\<lparr>generic_jobs := jobs\<rparr>)));
                         release = upd_vm (\<lambda>v. snd (aspace_release aspace_id v))
                     in case slot of
                          None \<Rightarrow> (None, release s2)
                        | Some i \<Rightarrow>
                            (let name = (if bp_entry p = Ping_Task then ''ping'' else drop 5 path);
                                 (pid, k3) = sched_spawn_with_parent_aspace (Some name) (bp_entry p) (job_ptr i)
                                   (sched_current_pid (sys_k s2)) aspace_id (sys_k s2);
                                 s3 = s2\<lparr>sys_k := k3\<rparr>
                             in case pid of
                                  None \<Rightarrow> (None, release s3)
                                | Some n \<Rightarrow>
                                    if sint n < 0 then (None, release s3)
                                    else (Some n, release (upd_k (\<lambda>k. snd (sched_task_set_exec n (Some path) k)) s3)))))
           | _ \<Rightarrow> (None, s)))"

subsection \<open>Ring 3\<close>

definition usermode_init :: "'d system \<Rightarrow> 'd system" where
  "usermode_init s = s\<lparr>um_active := False, um_kernel_rsp := 0\<rparr>"

definition usermode_record_kernel_rsp :: "u64 \<Rightarrow> 'd system \<Rightarrow> 'd system" where
  "usermode_record_kernel_rsp rsp s = s\<lparr>um_kernel_rsp := rsp\<rparr>"

definition usermode_kernel_rsp :: "'d system \<Rightarrow> u64" where
  "usermode_kernel_rsp s = um_kernel_rsp s"

definition usermode_run_entry_stack ::
  "(u64 \<Rightarrow> u64 \<Rightarrow> 'd system \<Rightarrow> 'd system) \<Rightarrow> u64 \<Rightarrow> u64 \<Rightarrow> 'd system \<Rightarrow> bool \<times> 'd system" where
  "usermode_run_entry_stack enter entry user_stack_top s =
     (if um_active s then (False, s)
      else
        (let s1 = enter entry user_stack_top (s\<lparr>um_active := True\<rparr>)
         in (True, upd_k (say (ln ''ring3 demo returned to kernel'') []) (s1\<lparr>um_active := False\<rparr>))))"

text \<open>
  The part of the image that is copied; the parser does not check it against the file, so it may
  reach behind the local array of 256 bytes.
\<close>

definition load_segment :: "elf_info \<Rightarrow> u8 list \<Rightarrow> u8 list option" where
  "load_segment info img =
     (let off = unat (ei_load_offset info); n = unat (ucast (ei_load_filesz info) :: u32) in
      if n = 0 then Some [] else if off + n \<le> length img then Some (take n (drop off img)) else None)"

definition load_user :: "u32 \<Rightarrow> elf_info \<Rightarrow> u8 list \<Rightarrow> vm \<Rightarrow> bool \<times> vm" where
  "load_user aspace_id info data v =
     (let (ok1, v1) = aspace_write aspace_id (ei_first_vaddr info) data v in
      if \<not> ok1 then (False, v1)
      else
        (let (ok2, v2) =
               (if ei_load_memsz info > ei_load_filesz info
                then aspace_zero aspace_id (ei_first_vaddr info + ei_load_filesz info)
                       (unat (ucast (ei_load_memsz info - ei_load_filesz info) :: u32)) v1
                else (True, v1))
         in if \<not> ok2 then (False, v2)
            else aspace_zero aspace_id (ASPACE_USER_STACK_TOP - 0x4000) 0x4000 v2))"

text \<open>The part of \<open>builtin_exec_run_sync\<close> behind the parser.\<close>

definition run_image ::
  "(u64 \<Rightarrow> u64 \<Rightarrow> 'd system \<Rightarrow> 'd system) \<Rightarrow> elf_info \<Rightarrow> u8 list \<Rightarrow> u32 \<Rightarrow> 'd system \<Rightarrow> unit outcome \<times> 'd system" where
  "run_image enter info img old_aspace s =
     (let (aspace_id, v1) = aspace_create ASPACE_KIND_USER_SHARED (Some ''ring3demo'') (k_vm (sys_k s));
          s1 = upd_vm (\<lambda>_. v1) s in
      if aspace_id = 0 then (Fail, s1)
      else
        (case load_segment info img of
           None \<Rightarrow> (Overrun, s1)
         | Some data \<Rightarrow>
             (let (ok, v2) = load_user aspace_id info data (k_vm (sys_k s1));
                  s2 = upd_vm (\<lambda>_. v2) s1;
                  release = upd_vm (\<lambda>v. snd (aspace_release aspace_id v)) in
              if \<not> ok then (Fail, release s2)
              else
                (let s3 = upd_vm (\<lambda>v. snd (aspace_switch aspace_id v)) s2;
                     (rc, s4) = usermode_run_entry_stack enter (ei_entry info) ASPACE_USER_STACK_TOP s3;
                     s5 = upd_vm (\<lambda>v. snd (aspace_switch old_aspace v)) s4
                 in (if rc then Done () else Fail, release s5)))))"

definition builtin_exec_run_sync ::
  "'d blockdev \<Rightarrow> (u64 \<Rightarrow> u64 \<Rightarrow> 'd system \<Rightarrow> 'd system) \<Rightarrow> u8 list \<Rightarrow> char list option \<Rightarrow> 'd system \<Rightarrow> unit outcome \<times> 'd system" where
  "builtin_exec_run_sync B enter img path s =
     (let old_aspace = sched_current_aspace (sys_k s) in
      case path of
        None \<Rightarrow> (Fail, s)
      | Some p \<Rightarrow>
          if strcmp p ''/bin/ring3demo'' \<noteq> 0 then (Fail, s)
          else
            (case fs_read_exec_file B p img (k_fs (sys_k s)) of
               (Read_Fail _, fs) \<Rightarrow> (Fail, upd_k (\<lambda>k. k\<lparr>k_fs := fs\<rparr>) s)
             | (Read_Overrun, fs) \<Rightarrow> (Overrun, upd_k (\<lambda>k. k\<lparr>k_fs := fs\<rparr>) s)
             | (Read_Ok n img', fs) \<Rightarrow>
                 (let s1 = upd_k (\<lambda>k. k\<lparr>k_fs := fs\<rparr>) s in
                  if unat n > length img' then (Overrun, s1)
                  else
                    (case elf_parse_image (take (unat n) img') of
                       Elf_Reject \<Rightarrow> (Fail, s1)
                     | Elf_OOB \<Rightarrow> (Overrun, s1)
                     | Elf_Parsed info \<Rightarrow> run_image enter info img' old_aspace s1))))"

section \<open>Decimal numbers\<close>

lemma decimal_digit:
  "\<forall>c \<in> set (take 10 digit_chars). is_digit c \<and> c \<noteq> NUL \<and> (of_char c :: nat) = 48 + digit_value c"
proof
  fix c assume "c \<in> set (take 10 digit_chars)"
  then obtain d where d: "d < 10" "c = digit_chars ! d" by (auto simp: in_set_conv_nth)
  have "\<forall>d < 10. char_of (48 + d) = digit_chars ! d" by code_simp
  then have c: "c = char_of (48 + d)" using d by simp
  then have o: "(of_char c :: nat) = 48 + d" using d(1) by simp
  have "c \<noteq> NUL"
  proof
    assume "c = NUL"
    then have "(of_char c :: nat) = 0" by simp
    with o show False by simp
  qed
  moreover have "digit_value c = d" using d digit_value_digit [of d] by simp
  moreover have "is_digit c" unfolding is_digit_def o using d(1) by simp
  ultimately show "is_digit c \<and> c \<noteq> NUL \<and> (of_char c :: nat) = 48 + digit_value c"
    using o by blast
qed

lemma emit_decimal:
  assumes "c \<in> set (emit_unsigned v 10)"
  shows "is_digit c" "c \<noteq> NUL" "of_char c = (48 :: u32) + word_of_nat (digit_value c)"
proof -
  have "CHR ''0'' \<in> set (take 10 digit_chars)" by (simp add: digit_chars_def)
  moreover have "set (digit_loop (unat v) 10) \<subseteq> set (take 10 digit_chars)" by (rule digit_loop_set) simp_all
  ultimately have "c \<in> set (take 10 digit_chars)" using assms unfolding emit_unsigned_def by (cases "v = 0") auto
  then have d: "is_digit c \<and> c \<noteq> NUL \<and> (of_char c :: nat) = 48 + digit_value c" using decimal_digit by blast
  then show "is_digit c" "c \<noteq> NUL" by blast+
  have "(of_char c :: u32) = word_of_nat (of_char c :: nat)" by (simp add: of_char_def)
  then show "of_char c = (48 :: u32) + word_of_nat (digit_value c)" using d by simp
qed

lemma emit_decimal_cstr: "is_cstr (emit_unsigned v 10)" "emit_unsigned v 10 \<noteq> []"
proof -
  show "is_cstr (emit_unsigned v 10)" using emit_decimal(2) by (auto simp: is_cstr_def)
  have "read_digits 10 0 (emit_unsigned v 10) = unat v" by (rule read_emit_unsigned) simp_all
  then show "emit_unsigned v 10 \<noteq> []" by (auto simp: emit_unsigned_def unat_eq_zero)
qed

lemma length_decimal: "length (emit_unsigned v 10) \<le> 20"
proof -
  have "unat v < 2 ^ 64" using unsigned_less [of v, where 'a = nat] by simp
  also have "(2 :: nat) ^ 64 < 10 ^ 20" by simp
  finally show ?thesis using length_digit_loop [of 10 "unat v" 20] by (simp add: emit_unsigned_def)
qed

lemma parse_digits_read:
  assumes "\<forall>c \<in> set ds. is_digit c \<and> c \<noteq> NUL \<and> of_char c = (48 :: u32) + word_of_nat (digit_value c)"
  shows "parse_digits (word_of_nat n) ds = Some (word_of_nat (read_digits 10 n ds))"
  using assms
proof (induction ds arbitrary: n)
  case Nil
  then show ?case by simp
next
  case (Cons c ds)
  have "word_of_nat n * 10 + ((of_char c :: u32) - 48) = word_of_nat (n * 10 + digit_value c)" using Cons.prems by simp
  then show ?case using Cons.IH [of "n * 10 + digit_value c"] Cons.prems by simp
qed

lemma parse_u32_emit: "parse_u32 (Some (emit_unsigned (ucast n) 10)) = Some n"
proof -
  let ?ds = "emit_unsigned (ucast n) 10"
  have r: "read_digits 10 0 ?ds = unat n"
  proof -
    have "unat (ucast n :: u64) = unat n" using unsigned_less [of n, where 'a = nat] by (simp add: unsigned_ucast_eq take_bit_eq_mod)
    then show ?thesis using read_emit_unsigned [of 10 "ucast n"] by simp
  qed
  have "cdref ?ds \<noteq> NUL"
  proof (cases ?ds)
    case (Cons c ds)
    then have "c \<in> set ?ds" by simp
    then have "c \<noteq> NUL" by (rule emit_decimal(2))
    then show ?thesis using Cons by simp
  qed (simp add: emit_decimal_cstr)
  moreover have "parse_digits (word_of_nat 0) ?ds = Some n"
    using parse_digits_read [of ?ds 0] emit_decimal [of _ "ucast n"] r by simp
  ultimately show ?thesis by (simp add: parse_u32_def)
qed

section \<open>The program table\<close>

lemma builtin_image_parses:
  "elf_parse_image (builtin_elf_image entry) = Elf_Parsed \<lparr>ei_type = 2, ei_machine = ELF_MACHINE_X86_64, ei_phnum = 1,
     ei_entry = entry, ei_first_vaddr = 0x401000, ei_last_vaddr = 0x401078, ei_load_offset = 0, ei_load_filesz = 120,
     ei_load_memsz = 120\<rparr>"
proof -
  let ?h = "builtin_ehdr entry"
  have i: "length (eh_ident ?h) = 16" by (simp add: builtin_ehdr_def)
  have l: "length (builtin_elf_image entry) = 120" using i by (simp add: builtin_elf_image_def)
  have h: "read_ehdr (builtin_elf_image entry) = ?h"
    using read_write_ehdr [OF i, of "write_phdr builtin_phdr"] by (simp add: builtin_elf_image_def)
  have "drop 64 (builtin_elf_image entry) = write_phdr builtin_phdr" using i by (simp add: builtin_elf_image_def)
  then have p: "phdrs_from (builtin_elf_image entry) 64 0 1 = Some [builtin_phdr]"
    using read_write_phdr [of builtin_phdr "[]"] l by (simp add: phdr_at_def PHDR_SIZE_def)
  have "phdrs_from (builtin_elf_image entry) (eh_phoff ?h) 0 (unat (eh_phnum ?h)) = Some [builtin_phdr]"
    using p by (simp add: builtin_ehdr_def)
  then show ?thesis
    by (simp add: elf_parse_image_def l h Let_def EHDR_SIZE_def)
      (simp add: builtin_ehdr_def PHDR_SIZE_def ELF_MACHINE_X86_64_def elf_summary_def scan_phdr_def builtin_phdr_def)
qed

lemma programs_image: "p \<in> set programs \<Longrightarrow> \<exists>entry. bp_image p = builtin_elf_image entry"
  by (auto simp: programs_def elf_ping_image_def elf_ring3_image_def elf_ps_image_def elf_netstat_image_def)

lemma find_program_Some:
  assumes "find_program path = Some p"
  shows "p \<in> set programs" "\<exists>info. elf_parse_image (bp_image p) = Elf_Parsed info" "c_str (bp_path p) = c_str path"
proof -
  show m: "p \<in> set programs" using assms by (auto simp: find_program_def find_Some_iff)
  then show "\<exists>info. elf_parse_image (bp_image p) = Elf_Parsed info" using programs_image builtin_image_parses by metis
  have "strcmp (bp_path p) path = 0" using assms by (auto simp: find_program_def find_Some_iff)
  then show "c_str (bp_path p) = c_str path" by (simp add: strcmp_eq_0_iff_c_str)
qed

section \<open>Starting a program\<close>

lemma spawn_aspace_task:
  assumes "sched_spawn_with_parent_aspace name entry arg ppid a k = (Some p, k')"
    and "length (tasks (k_sched k)) = MAX_TASKS"
  shows "\<exists>i. 0 < i \<and> i < MAX_TASKS \<and> t_entry (tasks (k_sched k') ! i) = entry \<and> t_arg (tasks (k_sched k') ! i) = arg \<and>
    t_parent_pid (tasks (k_sched k') ! i) = ppid \<and> t_aspace_id (tasks (k_sched k') ! i) = a \<and>
    t_pid (tasks (k_sched k') ! i) = p \<and> t_used (tasks (k_sched k') ! i) \<and> t_state (tasks (k_sched k') ! i) = Task_Ready"
proof -
  obtain j where j: "find_index spawn_slot_free (drop 1 (tasks (k_sched k))) = Some j"
    using assms(1) by (cases "find_index spawn_slot_free (drop 1 (tasks (k_sched k)))") (simp_all add: sched_spawn_with_parent_aspace_def Let_def)
  have "Suc j < MAX_TASKS" using find_index_SomeD(1) [OF j] assms(2) by simp
  with assms j show ?thesis
    by (intro exI [of _ "Suc j"])
      (auto simp: sched_spawn_with_parent_aspace_def Let_def split: if_splits prod.splits)
qed

lemma set_exec_fields:
  "\<exists>i f. snd (sched_task_set_exec pid path k) = k\<lparr>k_sched := upd_task i f (k_sched k)\<rparr> \<and> bookkeeping f \<and>
     (\<forall>t. t_entry (f t) = t_entry t \<and> t_arg (f t) = t_arg t \<and> t_parent_pid (f t) = t_parent_pid t)"
proof (cases "find_pid pid (k_sched k)")
  case None
  have "snd (sched_task_set_exec pid path k) = k\<lparr>k_sched := upd_task 0 id (k_sched k)\<rparr>"
    using None by (simp add: sched_task_set_exec_def upd_task_def)
  then show ?thesis by (intro exI [of _ 0] exI [of _ id]) (simp add: bookkeeping_def)
next
  case (Some i)
  then obtain p where "snd (sched_task_set_exec pid path k) = k\<lparr>k_sched := upd_task i (\<lambda>t. t\<lparr>t_exec_path := p\<rparr>) (k_sched k)\<rparr>"
    by (simp add: sched_task_set_exec_def Let_def)
  then show ?thesis by (intro exI [of _ i] exI [of _ "\<lambda>t. t\<lparr>t_exec_path := p\<rparr>"]) simp
qed

lemma set_exec_ok:
  assumes "sched_inv (k_sched k)" and "accounted ext k"
  shows "sched_inv (k_sched (snd (sched_task_set_exec pid path k)))" "accounted ext (snd (sched_task_set_exec pid path k))"
    "task_ready (k_sched (snd (sched_task_set_exec pid path k))) i = task_ready (k_sched k) i"
    "i < MAX_TASKS \<Longrightarrow> t_entry (tasks (k_sched (snd (sched_task_set_exec pid path k))) ! i) = t_entry (tasks (k_sched k) ! i) \<and>
       t_arg (tasks (k_sched (snd (sched_task_set_exec pid path k))) ! i) = t_arg (tasks (k_sched k) ! i) \<and>
       t_parent_pid (tasks (k_sched (snd (sched_task_set_exec pid path k))) ! i) = t_parent_pid (tasks (k_sched k) ! i) \<and>
       t_pid (tasks (k_sched (snd (sched_task_set_exec pid path k))) ! i) = t_pid (tasks (k_sched k) ! i)"
    "k_vm (snd (sched_task_set_exec pid path k)) = k_vm k"
proof -
  obtain j f where f: "snd (sched_task_set_exec pid path k) = k\<lparr>k_sched := upd_task j f (k_sched k)\<rparr>" "bookkeeping f"
    "\<forall>t. t_entry (f t) = t_entry t \<and> t_arg (f t) = t_arg t \<and> t_parent_pid (f t) = t_parent_pid t"
    using set_exec_fields by metis
  have len: "length (tasks (k_sched k)) = MAX_TASKS" using assms(1) by (simp add: sched_inv_def)
  show "sched_inv (k_sched (snd (sched_task_set_exec pid path k)))"
    "task_ready (k_sched (snd (sched_task_set_exec pid path k))) i = task_ready (k_sched k) i"
    "k_vm (snd (sched_task_set_exec pid path k)) = k_vm k"
    using assms(1) f(1) bookkeeping_sched [OF f(2)] by simp_all
  show "accounted ext (snd (sched_task_set_exec pid path k))"
    unfolding f(1) by (rule accounted_sched [OF assms(2)]) (simp add: live_bookkeeping [OF f(2)])
  show "i < MAX_TASKS \<Longrightarrow> t_entry (tasks (k_sched (snd (sched_task_set_exec pid path k))) ! i) = t_entry (tasks (k_sched k) ! i) \<and>
       t_arg (tasks (k_sched (snd (sched_task_set_exec pid path k))) ! i) = t_arg (tasks (k_sched k) ! i) \<and>
       t_parent_pid (tasks (k_sched (snd (sched_task_set_exec pid path k))) ! i) = t_parent_pid (tasks (k_sched k) ! i) \<and>
       t_pid (tasks (k_sched (snd (sched_task_set_exec pid path k))) ! i) = t_pid (tasks (k_sched k) ! i)"
    using f(2,3) len by (simp add: f(1) nth_upd_task bookkeeping_def)
qed

text \<open>The job table after an allocation: one more slot is in use, the others are unchanged.\<close>

lemma alloc_ping_job_Some:
  assumes "alloc_ping_job arg jobs = (Some i, jobs')"
  shows "i < length jobs \<and> \<not> pj_used (jobs ! i) \<and> pj_used (jobs' ! i) \<and> jobs' = jobs[i := jobs' ! i] \<and>
    length (pj_target (jobs' ! i)) = 32 \<and> 0 < pj_count (jobs' ! i) \<and> pj_count (jobs' ! i) < 32"
proof -
  obtain a where a: "arg = Some a" "cdref a \<noteq> NUL" using assms by (auto simp: alloc_ping_job_def split: option.splits if_splits)
  obtain t rest where t: "ping_target 31 a = (t, rest)" by fastforce
  have len: "length t \<le> 31"
  proof -
    have "length (fst (ping_target n b)) \<le> n" for n b
      by (induction n b rule: ping_target.induct) (auto simp: split: prod.splits)
    from this [of 31 a] t show ?thesis by simp
  qed
  have "find_index (\<lambda>j. \<not> pj_used j) jobs = Some i"
    using assms a t by (auto simp: alloc_ping_job_def split: option.splits if_splits)
  note f = find_index_SomeD [OF this]
  from assms a t f len show ?thesis
    by (auto simp: alloc_ping_job_def memcpy_eq split: option.splits if_splits)
qed

lemma alloc_generic_job_Some:
  assumes "alloc_generic_job arg jobs = (Some i, jobs')"
  shows "i < length jobs \<and> \<not> gj_used (jobs ! i) \<and> gj_used (jobs' ! i) \<and> jobs' = jobs[i := jobs' ! i]"
  using assms find_index_SomeD [of "\<lambda>j. \<not> gj_used j" jobs i]
  by (auto simp: alloc_generic_job_def Let_def split: option.splits)

text \<open>What a successful start adds: a ready task with the next pid that runs the program on a job slot
  that was free and is now in use.\<close>

definition started :: "builtin_program \<Rightarrow> 'd system \<Rightarrow> 'd system \<Rightarrow> bool" where
  "started p s s' \<longleftrightarrow> (\<exists>i j. 0 < i \<and> i < MAX_TASKS \<and> \<not> task_live (tasks (k_sched (sys_k s)) ! i) \<and>
     task_ready (k_sched (sys_k s')) i \<and>
     t_pid (tasks (k_sched (sys_k s')) ! i) = next_pid (k_sched (sys_k s)) \<and>
     t_parent_pid (tasks (k_sched (sys_k s')) ! i) = sched_current_pid (sys_k s) \<and>
     t_entry (tasks (k_sched (sys_k s')) ! i) = bp_entry p \<and>
     t_arg (tasks (k_sched (sys_k s')) ! i) = job_ptr j \<and>
     (if bp_entry p = Ping_Task
      then j < length (ping_jobs s) \<and> \<not> pj_used (ping_jobs s ! j) \<and> pj_used (ping_jobs s' ! j)
      else j < length (generic_jobs s) \<and> \<not> gj_used (generic_jobs s ! j) \<and> gj_used (generic_jobs s' ! j)))"

lemma started_task:
  assumes inv: "sched_inv (k_sched k)" and pl: "pids_left (k_sched k)" and acc: "accounted ext k"
    and a: "aspace_map (k_vm k) a \<noteq> None" and b: "refs (k_vm k) a + 1 < 2 ^ 32"
    and sp: "sched_spawn_with_parent_aspace name entry arg ppid a k = (Some n, k3)"
  shows "n = next_pid (k_sched k) \<and> sched_inv (k_sched k3) \<and> accounted ext k3 \<and>
    (\<exists>i. 0 < i \<and> i < MAX_TASKS \<and> \<not> task_live (tasks (k_sched k) ! i) \<and> task_ready (k_sched k3) i \<and>
      t_pid (tasks (k_sched k3) ! i) = n \<and> t_parent_pid (tasks (k_sched k3) ! i) = ppid \<and>
      t_entry (tasks (k_sched k3) ! i) = entry \<and> t_arg (tasks (k_sched k3) ! i) = arg)"
proof -
  note ok = spawn_aspace_ok [OF inv pl acc a b sp]
  obtain i where i: "n = next_pid (k_sched k)" "0 < i" "i < MAX_TASKS" "\<not> task_live (tasks (k_sched k) ! i)" "task_ready (k_sched k3) i"
    "t_pid (tasks (k_sched k3) ! i) = n" and inv3: "sched_inv (k_sched k3)" "accounted ext k3"
    using ok by auto
  have len: "length (tasks (k_sched k)) = MAX_TASKS" using inv by (simp add: sched_inv_def)
  obtain j where j: "j < MAX_TASKS" "t_entry (tasks (k_sched k3) ! j) = entry" "t_arg (tasks (k_sched k3) ! j) = arg"
    "t_parent_pid (tasks (k_sched k3) ! j) = ppid" "t_pid (tasks (k_sched k3) ! j) = n" "t_used (tasks (k_sched k3) ! j)"
    "t_state (tasks (k_sched k3) ! j) = Task_Ready"
    using spawn_aspace_task [OF sp len] by blast
  have "task_visible (tasks (k_sched k3) ! j)" "task_visible (tasks (k_sched k3) ! i)"
    using i(1,5) j(5-7) pl by (auto simp: task_visible_def task_ready_def pids_left_def)
  then have "i = j" using inv3(1) i(3,6) j(1,5) by (auto simp: sched_inv_def)
  with i j inv3 show ?thesis by blast
qed

lemma job_slot_cases:
  fixes s1 :: "'d system"
  assumes "(if bp_entry p = Ping_Task
     then (let (i, jobs) = alloc_ping_job arg (ping_jobs s1) in (i, s1\<lparr>ping_jobs := jobs\<rparr>))
     else (let (i, jobs) = alloc_generic_job arg (generic_jobs s1) in (i, s1\<lparr>generic_jobs := jobs\<rparr>))) = (slot, s2)"
  shows "sys_k s2 = sys_k s1" "slot = Some j \<Longrightarrow> (if bp_entry p = Ping_Task
      then j < length (ping_jobs s1) \<and> \<not> pj_used (ping_jobs s1 ! j) \<and> pj_used (ping_jobs s2 ! j)
      else j < length (generic_jobs s1) \<and> \<not> gj_used (generic_jobs s1 ! j) \<and> gj_used (generic_jobs s2 ! j))"
  using assms alloc_ping_job_Some [of arg "ping_jobs s1" j] alloc_generic_job_Some [of arg "generic_jobs s1" j]
  by (auto split: if_splits prod.splits)

lemma spawn_correct:
  assumes inv: "sched_inv (k_sched (sys_k s))" and pl: "pids_left (k_sched (sys_k s))"
    and pos: "unat (next_pid (k_sched (sys_k s))) < 2 ^ 31" and acc: "accounted ext (sys_k s)" and small: "\<forall>a. ext a < 2 ^ 31"
    and ka: "aspace_map (k_vm (sys_k s)) (kernel_aspace_id (k_vm (sys_k s))) \<noteq> None"
    and sp: "builtin_exec_spawn path arg s = (r, s')"
  shows "sched_inv (k_sched (sys_k s')) \<and> accounted ext (sys_k s') \<and>
    (case r of None \<Rightarrow> k_sched (sys_k s') = k_sched (sys_k s)
     | Some pid \<Rightarrow> pid = next_pid (k_sched (sys_k s)) \<and> (\<exists>p. find_program path = Some p \<and> started p s s'))"
proof (cases "find_program path")
  case None
  then show ?thesis using sp inv acc by (simp add: builtin_exec_spawn_def)
next
  case p: (Some p)
  obtain info where info: "elf_parse_image (bp_image p) = Elf_Parsed info" using find_program_Some(2) [OF p] by blast
  let ?a = "kernel_aspace_id (k_vm (sys_k s))"
  have len: "length (tasks (k_sched (sys_k s))) = MAX_TASKS" using inv by (simp add: sched_inv_def)
  have b: "refs (k_vm (sys_k s)) ?a + 2 < 2 ^ 32"
  proof -
    have "refs (k_vm (sys_k s)) ?a = live (k_sched (sys_k s)) ?a + ext ?a" by (rule accountedD(2) [OF acc])
    moreover have "live (k_sched (sys_k s)) ?a \<le> 8" by (rule live_le [OF len])
    moreover have "ext ?a < 2 ^ 31" using small by blast
    ultimately show ?thesis by simp
  qed
  have "?a \<noteq> 0"
  proof -
    obtain j where j: "find_slot ?a (k_vm (sys_k s)) = Some j" using ka find_slot_None by fastforce
    show ?thesis using find_slot_SomeD [OF j] accountedD(1) [OF acc] by (auto simp: aspace_inv_def table_ok_def)
  qed
  obtain v where v: "aspace_retain ?a (k_vm (sys_k s)) = (True, v)" "accounted (ext(?a := ext ?a + 1)) ((sys_k s)\<lparr>k_vm := v\<rparr>)"
    "\<forall>c. aspace_map v c = None \<longleftrightarrow> aspace_map (k_vm (sys_k s)) c = None" "refs v = (refs (k_vm (sys_k s)))(?a := refs (k_vm (sys_k s)) ?a + 1)"
    using accounted_retain [OF acc ka] b by auto
  let ?s1 = "upd_vm (\<lambda>_. v) s"
  obtain slot s2 where slot: "(if bp_entry p = Ping_Task
     then (let (i, jobs) = alloc_ping_job arg (ping_jobs ?s1) in (i, ?s1\<lparr>ping_jobs := jobs\<rparr>))
     else (let (i, jobs) = alloc_generic_job arg (generic_jobs ?s1) in (i, ?s1\<lparr>generic_jobs := jobs\<rparr>))) = (slot, s2)"
    by (metis surj_pair)
  note js = job_slot_cases [OF slot]
  have k2: "sys_k s2 = (sys_k s)\<lparr>k_vm := v\<rparr>" using js(1) by simp
  show ?thesis
  proof (cases "strcmp path ''/bin/ring3demo'' = 0")
    case True
    then have "(r, s') = (None, s)" using sp p info by (simp add: builtin_exec_spawn_def)
    then show ?thesis using inv acc by simp
  next
    case nr: False
    note unfold = sp [unfolded builtin_exec_spawn_def Let_def p info v(1) option.case elf_result.case prod.case]
    have rel: "\<exists>w. aspace_release ?a (k_vm k) = (True, w) \<and> accounted ext (k\<lparr>k_vm := w\<rparr>)"
      if "accounted (ext(?a := ext ?a + 1)) k" for k :: "'a kernel" by (rule accounted_release [OF that])
    show ?thesis
    proof (cases slot)
      case None
      have a2: "accounted (ext(?a := ext ?a + 1)) (sys_k s2)" using v(2) k2 by simp
      obtain w where w: "aspace_release ?a (k_vm (sys_k s2)) = (True, w)" "accounted ext ((sys_k s2)\<lparr>k_vm := w\<rparr>)"
        using rel [OF a2] by blast
      have "(r, s') = (None, upd_vm (\<lambda>v. snd (aspace_release ?a v)) s2)"
        using sp p info v(1) nr \<open>?a \<noteq> 0\<close> slot None by (simp add: builtin_exec_spawn_def)
      then show ?thesis using w inv k2 by simp
    next
      case (Some j)
      let ?name = "if bp_entry p = Ping_Task then ''ping'' else drop 5 path"
      obtain pid k3 where k3: "sched_spawn_with_parent_aspace (Some ?name) (bp_entry p) (job_ptr j)
          (sched_current_pid (sys_k s2)) ?a (sys_k s2) = (pid, k3)" by fastforce
      have pre: "sched_inv (k_sched (sys_k s2))" "pids_left (k_sched (sys_k s2))"
        "accounted (ext(?a := ext ?a + 1)) (sys_k s2)" "aspace_map (k_vm (sys_k s2)) ?a \<noteq> None" "refs (k_vm (sys_k s2)) ?a + 1 < 2 ^ 32"
        using inv pl v ka b k2 by simp_all
      note eq = builtin_exec_spawn_def Let_def p info v(1) nr \<open>?a \<noteq> 0\<close> slot Some k3
      show ?thesis
      proof (cases pid)
        case pn: None
        have "k3 = sys_k s2" using spawn_aspace_ok [OF pre k3] pn by auto
        then obtain w where w: "aspace_release ?a (k_vm k3) = (True, w)" "accounted ext (k3\<lparr>k_vm := w\<rparr>)"
          using rel pre(3) by blast
        have "(r, s') = (None, upd_vm (\<lambda>v. snd (aspace_release ?a v)) (s2\<lparr>sys_k := k3\<rparr>))"
          using sp pn by (simp add: eq)
        then show ?thesis using w inv k2 \<open>k3 = sys_k s2\<close> by simp
      next
        case pn: (Some n)
        note st = started_task [OF pre k3 [unfolded pn]]
        have n: "n = next_pid (k_sched (sys_k s))" using st k2 by simp
        have nn: "\<not> sint n < 0" using pos n by (intro sint_nonneg_u32) simp
        let ?k4 = "snd (sched_task_set_exec n (Some path) k3)"
        have ok3: "sched_inv (k_sched k3)" "accounted (ext(?a := ext ?a + 1)) k3" using st by simp_all
        note se = set_exec_ok [OF ok3, where pid = n and path = "Some path"]
        obtain w where w: "aspace_release ?a (k_vm ?k4) = (True, w)" "accounted ext (?k4\<lparr>k_vm := w\<rparr>)"
          using rel [OF se(2)] by blast
        have rs: "r = Some n" "s' = upd_vm (\<lambda>v. snd (aspace_release ?a v)) (upd_k (\<lambda>k. snd (sched_task_set_exec n (Some path) k)) (s2\<lparr>sys_k := k3\<rparr>))"
          using sp pn nn by (simp_all add: eq)
        have "started p s s'"
        proof -
          obtain i where i: "0 < i" "i < MAX_TASKS" "\<not> task_live (tasks (k_sched (sys_k s2)) ! i)" "task_ready (k_sched k3) i"
            "t_pid (tasks (k_sched k3) ! i) = n" "t_parent_pid (tasks (k_sched k3) ! i) = sched_current_pid (sys_k s2)"
            "t_entry (tasks (k_sched k3) ! i) = bp_entry p" "t_arg (tasks (k_sched k3) ! i) = job_ptr j"
            using st by blast
          have "sched_current_pid (sys_k s2) = sched_current_pid (sys_k s)" using k2 by (simp add: sched_current_pid_def)
          then show ?thesis using i se(3) [where i = i] se(4) [OF i(2)] js(2) [OF Some] n
            unfolding started_def by - (rule exI [of _ i], rule exI [of _ j], simp add: rs(2) k2 split: if_splits)
        qed
        with se(1) w rs n p show ?thesis by simp
      qed
    qed
  qed
qed

section \<open>A full task table\<close>

definition free_slots :: "sched_state \<Rightarrow> nat" where
  "free_slots s = length (filter (\<lambda>t. \<not> task_live t) (drop 1 (tasks s)))"

lemma free_slots_0:
  assumes "length (tasks s) = MAX_TASKS" and "free_slots s = 0" and "0 < i" and "i < MAX_TASKS"
  shows "task_live (tasks s ! i)"
proof -
  have "drop 1 (tasks s) ! (i - 1) = tasks s ! i" "i - 1 < length (drop 1 (tasks s))" using assms by simp_all
  then have "tasks s ! i \<in> set (drop 1 (tasks s))" by (metis nth_mem)
  with assms(2) show ?thesis by (auto simp: free_slots_def filter_empty_conv)
qed

lemma free_slots_pos:
  assumes "0 < free_slots s" and "length (tasks s) = MAX_TASKS"
  shows "\<exists>i. 0 < i \<and> i < MAX_TASKS \<and> \<not> task_live (tasks s ! i)"
proof -
  obtain t where "t \<in> set (drop 1 (tasks s))" "\<not> task_live t"
    using assms(1) by (auto simp: free_slots_def filter_empty_conv)
  then obtain j where "j < length (drop 1 (tasks s))" "\<not> task_live (drop 1 (tasks s) ! j)" by (auto simp: in_set_conv_nth)
  then show ?thesis using assms(2) by (intro exI [of _ "Suc j"]) simp
qed

lemma free_slots_spawn:
  assumes len: "length (tasks s) = MAX_TASKS" "length (tasks s') = MAX_TASKS" and i: "0 < i" "i < MAX_TASKS"
    "\<not> task_live (tasks s ! i)" "task_live (tasks s' ! i)" and same: "\<forall>j < MAX_TASKS. j \<noteq> i \<longrightarrow> tasks s' ! j = tasks s ! j"
  shows "free_slots s = free_slots s' + 1"
proof -
  have "tasks s' = (tasks s)[i := tasks s' ! i]"
  proof (rule nth_equalityI)
    fix j assume "j < length (tasks s')"
    with len same show "tasks s' ! j = (tasks s)[i := tasks s' ! i] ! j" by (cases "j = i") simp_all
  qed (simp add: len)
  then have d: "drop 1 (tasks s') = (drop 1 (tasks s))[i - 1 := tasks s' ! i]" using i(1) by (metis drop_update_swap gr_implies_not0 less_one not_less)
  have "i - 1 < length (drop 1 (tasks s))" "drop 1 (tasks s) ! (i - 1) = tasks s ! i" using len i by simp_all
  from length_filter_update [OF this(1), of "\<lambda>t. \<not> task_live t" "tasks s' ! i"] this(2) i d
  show ?thesis by (simp add: free_slots_def)
qed

text \<open>A start that finds no task slot has taken a job slot and does not return it.\<close>

lemma spawn_leak:
  assumes inv: "sched_inv (k_sched (sys_k s))" and pl: "pids_left (k_sched (sys_k s))"
    and acc: "accounted ext (sys_k s)" and small: "\<forall>a. ext a < 2 ^ 31"
    and ka: "aspace_map (k_vm (sys_k s)) (kernel_aspace_id (k_vm (sys_k s))) \<noteq> None"
    and p: "find_program path = Some p" "strcmp path ''/bin/ring3demo'' \<noteq> 0" "bp_entry p \<noteq> Ping_Task"
    and full: "free_slots (k_sched (sys_k s)) = 0" and j: "alloc_generic_job arg (generic_jobs s) = (Some j, jobs)"
  shows "\<exists>s'. builtin_exec_spawn path arg s = (None, s') \<and> generic_jobs s' = jobs \<and> k_sched (sys_k s') = k_sched (sys_k s)"
proof -
  obtain info where info: "elf_parse_image (bp_image p) = Elf_Parsed info" using find_program_Some(2) [OF p(1)] by blast
  let ?a = "kernel_aspace_id (k_vm (sys_k s))"
  have len: "length (tasks (k_sched (sys_k s))) = MAX_TASKS" using inv by (simp add: sched_inv_def)
  have "refs (k_vm (sys_k s)) ?a < 2 ^ 31 + 8"
    using accountedD(2) [OF acc, of ?a] live_le [OF len, of ?a] small [THEN spec, of ?a] by simp
  then have b: "refs (k_vm (sys_k s)) ?a + 1 < 2 ^ 32" by simp
  obtain x where x: "aspace_map (k_vm (sys_k s)) ?a = Some x" using ka by auto
  obtain v where v: "aspace_retain ?a (k_vm (sys_k s)) = (True, v)" using refs_retain [OF accountedD(1) [OF acc] x b] by blast
  obtain sl where sl: "find_slot ?a (k_vm (sys_k s)) = Some sl" using ka find_slot_None by fastforce
  have a0: "?a \<noteq> 0" using find_slot_SomeD [OF sl] accountedD(1) [OF acc] by (auto simp: aspace_inv_def table_ok_def)
  have "find_index spawn_slot_free (drop 1 (tasks (k_sched (sys_k s)))) = None"
    using full by (auto simp: find_index_None free_slots_def filter_empty_conv spawn_slot_free_def task_live_def)
  then have ns: "sched_spawn_with_parent_aspace name entry a ppid b ((sys_k s)\<lparr>k_vm := v\<rparr>) = (None, (sys_k s)\<lparr>k_vm := v\<rparr>)" for name entry a ppid b
    by (simp add: sched_spawn_with_parent_aspace_def)
  show ?thesis
    using p info v a0 j ns by (simp add: builtin_exec_spawn_def)
qed

section \<open>Correctness of starting a program\<close>

definition demo_system :: "unit system" where
  "demo_system = system_bss demo_kernel"

lemma demo_kernel_aspace: "aspace_map (k_vm demo_kernel) (kernel_aspace_id (k_vm demo_kernel)) \<noteq> None"
  using demo_vm_facts by (cases "aspace_map demo_vm 1") (simp_all add: demo_kernel_ok)



text \<open>Seven tasks beside the shell.\<close>

definition spawn_one :: "unit kernel \<Rightarrow> unit kernel" where
  "spawn_one k = snd (sched_spawn (Some ''life-child'') Lifecycle_Child 0 k)"

definition demo_full :: "unit system" where
  "demo_full = system_bss ((spawn_one ^^ 7) demo_kernel)"

definition spawnable :: "nat \<Rightarrow> 'd kernel \<Rightarrow> bool" where
  "spawnable n k \<longleftrightarrow> sched_inv (k_sched k) \<and> accounted (\<lambda>_. 0) k \<and> 0 < next_pid (k_sched k) \<and>
     unat (next_pid (k_sched k)) + n < 1000 \<and> next_aspace_id (k_vm k) = 2 \<and> kernel_aspace_id (k_vm k) = 1 \<and>
     t_aspace_id (cur_task (k_sched k)) = 1 \<and> map_option ai_kind (aspace_map (k_vm k) 1) = Some ASPACE_KIND_KERNEL \<and>
     current_task (k_sched k) = 0"

lemma refcount_next_aspace:
  "next_aspace_id (snd (aspace_retain a v)) = next_aspace_id v" "next_aspace_id (snd (aspace_release a v)) = next_aspace_id v"
  by (simp_all add: aspace_retain_def aspace_release_def Let_def split: option.split)

lemma spawn_aspace_next_aspace:
  "next_aspace_id (k_vm (snd (sched_spawn_with_parent_aspace name entry arg ppid a k))) = next_aspace_id (k_vm k)"
  using refcount_next_aspace(1) [of a "k_vm k"]
  by (auto simp: sched_spawn_with_parent_aspace_def Let_def split: option.split prod.split)

lemma spawn_next_aspace:
  assumes kd: "map_option ai_kind (aspace_map (k_vm k) a) = Some ASPACE_KIND_KERNEL" and a: "t_aspace_id (cur_task (k_sched k)) = a"
  shows "next_aspace_id (k_vm (snd (sched_spawn name entry arg k))) = next_aspace_id (k_vm k)"
proof -
  obtain j where j: "find_slot a (k_vm k) = Some j" using kd find_slot_None [of a "k_vm k"] by (cases "find_slot a (k_vm k)") auto
  have "ai_kind (as_info (aspace_table (k_vm k) ! j)) = ASPACE_KIND_KERNEL" using find_slot_SomeD(4) [OF j] kd by simp
  then have f: "next_aspace_id (snd (aspace_fork_clone a (k_vm k))) = next_aspace_id (k_vm k)"
    using j refcount_next_aspace(1) [of a "k_vm k"] by (auto simp: aspace_fork_clone_def Let_def split: prod.split)
  obtain i v where iv: "aspace_fork_clone a (k_vm k) = (i, v)" by fastforce
  show ?thesis
    using f iv a spawn_aspace_next_aspace [of name entry arg "sched_current_pid k" i "k\<lparr>k_vm := v\<rparr>"] refcount_next_aspace(2)
    by (auto simp: sched_spawn_def sched_spawn_with_parent_def Let_def split: prod.split)
qed

lemma spawn_one_step:
  assumes sp: "spawnable (Suc n) k" and fr: "free_slots (k_sched k) = Suc m"
  shows "spawnable n (spawn_one k) \<and> free_slots (k_sched (spawn_one k)) = m"
proof -
  let ?s = "k_sched k"
  note s = sp [unfolded spawnable_def]
  have inv: "sched_inv ?s" using s by blast
  have acc: "accounted (\<lambda>_. 0) k" and pl: "pids_left ?s" and len: "length (tasks ?s) = MAX_TASKS"
    and a1: "t_aspace_id (cur_task ?s) = 1" "1 = kernel_aspace_id (k_vm k)" "(1 :: u32) \<noteq> 0"
    and kd: "map_option ai_kind (aspace_map (k_vm k) 1) = Some ASPACE_KIND_KERNEL"
    using s by (auto simp: pids_left_def sched_inv_def)
  obtain i where i: "0 < i" "i < MAX_TASKS" "\<not> task_live (tasks ?s ! i)" using free_slots_pos [OF _ len] fr by auto
  have "find_index spawn_slot_free (drop 1 (tasks ?s)) \<noteq> None"
  proof -
    have "drop 1 (tasks ?s) ! (i - 1) = tasks ?s ! i" "i - 1 < length (drop 1 (tasks ?s))" using i len by simp_all
    then have "tasks ?s ! i \<in> set (drop 1 (tasks ?s))" by (metis nth_mem)
    moreover have "spawn_slot_free (tasks ?s ! i)" using i(3) by (simp add: spawn_slot_free_def task_live_def)
    ultimately show ?thesis unfolding find_index_None by blast
  qed
  then obtain j where j: "find_index spawn_slot_free (drop 1 (tasks ?s)) = Some j" by auto
  have jl: "Suc j < MAX_TASKS" "\<not> task_live (tasks ?s ! Suc j)"
    using find_index_SomeD(1,2) [OF j] len by (auto simp: spawn_slot_free_def task_live_def)
  obtain t v where tv: "sched_spawn (Some ''life-child'') Lifecycle_Child 0 k = (Some (next_pid ?s),
      k\<lparr>k_vm := v, k_sched := ?s\<lparr>tasks := (tasks ?s)[Suc j := t], next_pid := next_pid ?s + 1\<rparr>\<rparr>)"
    "t_used t" "t_state t = Task_Ready" "t_pid t = next_pid ?s"
    "aspace_inv v" "kernel_aspace_id v = 1" "map_option ai_kind (aspace_map v 1) = Some ASPACE_KIND_KERNEL"
    using spawn_kernel_eq [OF accountedD(1) [OF acc] a1 kd j] by blast
  let ?s' = "?s\<lparr>tasks := (tasks ?s)[Suc j := t], next_pid := next_pid ?s + 1\<rparr>"
  have k': "spawn_one k = k\<lparr>k_vm := v, k_sched := ?s'\<rparr>" by (simp add: spawn_one_def tv(1))
  have z: "\<forall>a. (\<lambda>_ :: u32. 0 :: nat) a < 2 ^ 31" and nw: "unat (next_aspace_id (k_vm k)) + 1 < 2 ^ 32" using s by simp_all
  have pp: "sched_spawn_with_parent (Some ''life-child'') Lifecycle_Child 0 (sched_current_pid k) k = (Some (next_pid ?s), spawn_one k)"
    using tv(1) k' by (simp add: sched_spawn_def)
  note ok = spawn_parent_ok(1) [OF inv pl acc z nw pp]
  have live: "task_live t" using tv(2-4) pl by (auto simp: task_live_def task_visible_def pids_left_def)
  have fs: "free_slots ?s = free_slots ?s' + 1"
    using jl live len by (intro free_slots_spawn [of _ _ "Suc j"]) simp_all
  have na: "next_aspace_id v = 2"
  proof -
    have "next_aspace_id (k_vm (spawn_one k)) = next_aspace_id (k_vm k)"
      using spawn_next_aspace [OF kd a1(1), of "Some ''life-child''" Lifecycle_Child 0] by (simp add: spawn_one_def)
    then show ?thesis using s k' by simp
  qed
  have u: "unat (next_pid ?s + 1) = unat (next_pid ?s) + 1" using s by (subst unat_add_no_wrap) simp_all
  have "0 < next_pid ?s + 1" using u by (simp add: word_less_nat_alt)
  then have "spawnable n (spawn_one k)"
    using ok tv(5-7) na s u by (auto simp: spawnable_def k')
  with fs fr k' show ?thesis by simp
qed

lemma spawn_many:
  "spawnable n k \<Longrightarrow> free_slots (k_sched k) = m + n \<Longrightarrow>
    spawnable 0 ((spawn_one ^^ n) k) \<and> free_slots (k_sched ((spawn_one ^^ n) k)) = m"
proof (induction n arbitrary: k)
  case 0
  then show ?case by simp
next
  case (Suc n)
  have "spawnable n (spawn_one k) \<and> free_slots (k_sched (spawn_one k)) = m + n"
    using spawn_one_step [OF Suc.prems(1), of "m + n"] Suc.prems(2) by simp
  with Suc.IH show ?case by (simp add: funpow_swap1)
qed

lemma demo_full_ok: "spawnable 0 (sys_k demo_full)" "free_slots (k_sched (sys_k demo_full)) = 0"
proof -
  obtain t0 where t0: "tasks (k_sched demo_kernel) = t0 # replicate 7 task_zero" "t_aspace_id t0 = 1"
    using demo_kernel_tasks by blast
  have "next_aspace_id demo_vm = 2" by (simp add: demo_vm_def init_table)
  then have "spawnable 7 demo_kernel"
    using demo_kernel_ok demo_vm_facts t0 by (simp add: spawnable_def)
  moreover have "free_slots (k_sched demo_kernel) = 0 + 7"
    using task_zero_free(2) by (simp add: free_slots_def t0 task_live_def)
  ultimately show "spawnable 0 (sys_k demo_full)" "free_slots (k_sched (sys_k demo_full)) = 0"
    using spawn_many [of 7 demo_kernel 0] by (simp_all add: demo_full_def system_bss_def)
qed

definition jobs_used :: "'d system \<Rightarrow> nat" where
  "jobs_used s = length (filter gj_used (generic_jobs s))"

text \<open>A failed start loses a job slot.  When the task table is full, starting \<open>/bin/ps\<close> or
  \<open>/bin/netstat\<close> returns -1 and starts nothing, but the generic job slot it took stays in use:
  after four such calls no slot is left, and \<open>builtin_exec_spawn\<close> fails on these programs even
  when tasks have ended.\<close>

theorem builtin_exec_spawn_leaks_job:
  assumes inv: "sched_inv (k_sched (sys_k s))" and pl: "pids_left (k_sched (sys_k s))"
    and acc: "accounted ext (sys_k s)" and small: "\<forall>a. ext a < 2 ^ 31"
    and ka: "aspace_map (k_vm (sys_k s)) (kernel_aspace_id (k_vm (sys_k s))) \<noteq> None"
    and path: "path \<in> {''/bin/ps'', ''/bin/netstat''}" and full: "free_slots (k_sched (sys_k s)) = 0"
    and jobs: "jobs_used s < length (generic_jobs s)"
  shows "\<exists>s'. builtin_exec_spawn path arg s = (None, s') \<and> k_sched (sys_k s') = k_sched (sys_k s) \<and> jobs_used s' = jobs_used s + 1"
proof -
  obtain p where p: "find_program path = Some p" "strcmp path ''/bin/ring3demo'' \<noteq> 0" "bp_entry p \<noteq> Ping_Task"
  proof (rule that)
    show "find_program path = Some (if path = ''/bin/ps'' then programs ! 2 else programs ! 3)"
      using path by (auto simp: find_program_def programs_def strcmp_eq_0_iff_c_str c_str_def)
    show "strcmp path ''/bin/ring3demo'' \<noteq> 0" using path by (auto simp: strcmp_eq_0_iff_c_str c_str_def)
    show "bp_entry (if path = ''/bin/ps'' then programs ! 2 else programs ! 3) \<noteq> Ping_Task" by (simp add: programs_def)
  qed
  obtain j where j: "find_index (\<lambda>j. \<not> gj_used j) (generic_jobs s) = Some j"
    using jobs by (cases "find_index (\<lambda>j. \<not> gj_used j) (generic_jobs s)") (auto simp: find_index_None jobs_used_def filter_id_conv)
  obtain jl where a: "alloc_generic_job arg (generic_jobs s) = (Some j, jl)"
    using j by (simp add: alloc_generic_job_def Let_def)
  note al = alloc_generic_job_Some [OF a]
  obtain s' where s': "builtin_exec_spawn path arg s = (None, s')" "generic_jobs s' = jl" "k_sched (sys_k s') = k_sched (sys_k s)"
    using spawn_leak [OF inv pl acc small ka p full a] by blast
  have jl: "j < length (generic_jobs s)" "\<not> gj_used (generic_jobs s ! j)" "gj_used (jl ! j)" "jl = (generic_jobs s)[j := jl ! j]"
    using al by blast+
  have "length (filter gj_used jl) = length (filter gj_used (generic_jobs s)) + 1"
    using length_filter_update [OF jl(1), of gj_used "jl ! j"] jl by (metis add.right_neutral)
  with s' show ?thesis by (simp add: jobs_used_def)
qed

theorem builtin_exec_spawn_leaks_job_witness:
  "\<exists>s'. builtin_exec_spawn ''/bin/ps'' None demo_full = (None, s') \<and> jobs_used s' = 1"
proof -
  note ok = demo_full_ok(1) [unfolded spawnable_def]
  have ka: "aspace_map (k_vm (sys_k demo_full)) (kernel_aspace_id (k_vm (sys_k demo_full))) \<noteq> None" using ok by auto
  have pl: "pids_left (k_sched (sys_k demo_full))" using ok by (auto simp: pids_left_def)
  have j: "jobs_used demo_full = 0" "generic_jobs demo_full = replicate 4 generic_job_zero"
    by (simp_all add: jobs_used_def demo_full_def system_bss_def generic_job_zero_def)
  show ?thesis
    using builtin_exec_spawn_leaks_job [of demo_full "\<lambda>_. 0" "''/bin/ps''" None] ok ka pl j demo_full_ok(2) by auto
qed

section \<open>Running a program in ring 3\<close>

lemma ensure_user_page_table:
  assumes "ensure_user_page s a v = (ok, v')"
  shows "aspace_table v' = aspace_table v \<and> next_aspace_id v' = next_aspace_id v \<and> kernel_aspace_id v' = kernel_aspace_id v"
proof -
  obtain p w where w: "vm_page_alloc v = (p, w)" by fastforce
  show ?thesis using assms vm_page_alloc_table [of v, unfolded w snd_conv] by (auto simp: ensure_user_page_def Let_def w split: if_splits)
qed

lemma store_loop_table:
  "aspace_store_loop s a data v = (ok, v') \<Longrightarrow>
    aspace_table v' = aspace_table v \<and> next_aspace_id v' = next_aspace_id v \<and> kernel_aspace_id v' = kernel_aspace_id v"
proof (induction s a data v rule: aspace_store_loop.induct)
  case (1 s a data v)
  obtain o1 v1 where e: "ensure_user_page s (page_of a) v = (o1, v1)" by fastforce
  note et = ensure_user_page_table [OF e]
  show ?case
  proof (cases "data = [] \<or> \<not> o1")
    case True
    then have "v' = v \<or> v' = v1"
      using "1.prems" e by (subst (asm) aspace_store_loop.simps) (auto simp: Let_def split: if_splits)
    with et show ?thesis by auto
  next
    case False
    with "1.prems" e have "aspace_store_loop s (a + word_of_nat (chunk_at a (length data))) (drop (chunk_at a (length data)) data)
      (v1\<lparr>vm_phys := store_bytes (vm_phys v1) (page_of (load64 (vm_phys v1) (as_user_pt s) (pt_index (page_of a))) + (a AND 0xfff))
        (take (chunk_at a (length data)) data)\<rparr>) = (ok, v')"
      by (simp add: aspace_store_loop.simps [of s a data v] Let_def)
    from "1.IH" [OF _ refl refl e [symmetric] refl _ refl this] False et show ?thesis by simp
  qed
qed

text \<open>Two states of the memory with the same address spaces.\<close>

definition same_spaces :: "vm \<Rightarrow> vm \<Rightarrow> bool" where
  "same_spaces v v' \<longleftrightarrow> aspace_map v' = aspace_map v \<and> kernel_aspace_id v' = kernel_aspace_id v \<and> (aspace_inv v \<longrightarrow> aspace_inv v')"

lemma same_spaces_trans: "same_spaces u v \<Longrightarrow> same_spaces v w \<Longrightarrow> same_spaces u w"
  by (simp add: same_spaces_def)

lemma same_spaces_table:
  "aspace_table v' = aspace_table v \<and> next_aspace_id v' = next_aspace_id v \<and> kernel_aspace_id v' = kernel_aspace_id v \<Longrightarrow> same_spaces v v'"
  by (simp add: same_spaces_def aspace_map_def aspace_inv_def)

lemma same_spaces_ops:
  "same_spaces v (snd (aspace_write i a data v))" "same_spaces v (snd (aspace_zero i a n v))"
  "same_spaces v (snd (aspace_switch i v))" "same_spaces v v"
proof -
  show "same_spaces v (snd (aspace_write i a data v))" "same_spaces v (snd (aspace_zero i a n v))"
    using store_loop_table by (auto simp: aspace_write_def aspace_zero_def intro!: same_spaces_table split: option.split)
      (metis prod.collapse)+
  show "same_spaces v (snd (aspace_switch i v))" "same_spaces v v"
    using aspace_switch_map [of i v] by (simp_all add: same_spaces_def)
qed

lemma load_user_spaces: "same_spaces v (snd (load_user i info data v))"
proof -
  obtain o1 v1 where 1: "aspace_write i (ei_first_vaddr info) data v = (o1, v1)" by fastforce
  define z where "z = (if ei_load_memsz info > ei_load_filesz info
                then aspace_zero i (ei_first_vaddr info + ei_load_filesz info)
                       (unat (ucast (ei_load_memsz info - ei_load_filesz info) :: u32)) v1 else (True, v1))"
  obtain o2 v2 where 2: "z = (o2, v2)" by fastforce
  have s1: "same_spaces v v1" using same_spaces_ops(1) [of v i "ei_first_vaddr info" data] 1 by simp
  have "same_spaces v1 (snd z)" unfolding z_def using same_spaces_ops(2,4) by simp
  then have s2: "same_spaces v v2" using s1 2 by (simp add: same_spaces_trans [OF s1])
  have "same_spaces v (snd (aspace_zero i (ASPACE_USER_STACK_TOP - 0x4000) 0x4000 v2))"
    by (rule same_spaces_trans [OF s2 same_spaces_ops(2)])
  with s1 s2 show ?thesis using 2 by (auto simp: load_user_def 1 z_def [symmetric])
qed

text \<open>An address space that is created and released again leaves no trace in the table.\<close>

lemma create_release:
  assumes inv: "aspace_inv v" and nw: "unat (next_aspace_id v) + 1 < 2 ^ 32" and ka: "aspace_map v (kernel_aspace_id v) \<noteq> None"
    and c: "aspace_create kind label v = (i, v1)" and i: "i \<noteq> 0" and s: "same_spaces v1 w"
  shows "same_spaces v (snd (aspace_release i w))"
proof -
  obtain a where a: "aspace_inv v1" "kernel_aspace_id v1 = kernel_aspace_id v" "aspace_map v i = None"
    "aspace_map v1 = (aspace_map v)(i \<mapsto> a)" "ai_refcount a = 1" using create_cases [OF inv nw c] i by auto
  have w: "aspace_inv w" "kernel_aspace_id w = kernel_aspace_id v" "aspace_map w i = Some a"
    using s a by (simp_all add: same_spaces_def)
  have "i \<noteq> kernel_aspace_id v" using a(3) ka by auto
  then have rl: "released (kernel_aspace_id v) i a = None" using a(5) by (simp add: released_def)
  obtain x where "aspace_release i w = (True, x)" "aspace_inv x" "kernel_aspace_id x = kernel_aspace_id v"
    "aspace_map x = (aspace_map w)(i := None)" using release_Some [OF w(1,3)] w(2) rl by auto
  then show ?thesis using s a(3,4) by (auto simp: same_spaces_def)
qed

lemma create_fail:
  assumes "aspace_inv v" and "unat (next_aspace_id v) + 1 < 2 ^ 32" and "aspace_create kind label v = (0, v1)"
  shows "same_spaces v v1"
  using create_cases [OF assms] by (auto simp: same_spaces_def)

text \<open>What the kernel relies on when user code runs until it leaves: it reaches the kernel through the
  write and position calls only, so the scheduler and the table of address spaces stay as they
  are.\<close>

definition enter_contract :: "(u64 \<Rightarrow> u64 \<Rightarrow> 'd system \<Rightarrow> 'd system) \<Rightarrow> bool" where
  "enter_contract enter \<longleftrightarrow> (\<forall>e t s. k_sched (sys_k (enter e t s)) = k_sched (sys_k s) \<and>
     same_spaces (k_vm (sys_k s)) (k_vm (sys_k (enter e t s))))"

definition sync_ok :: "'d system \<Rightarrow> 'd system \<Rightarrow> bool" where
  "sync_ok s s' \<longleftrightarrow> same_spaces (k_vm (sys_k s)) (k_vm (sys_k s')) \<and> k_sched (sys_k s') = k_sched (sys_k s) \<and>
     um_active s' = um_active s"

lemma run_entry_ok:
  assumes "enter_contract enter" and "usermode_run_entry_stack enter entry stk s = (rc, s')"
  shows "sync_ok s s'"
proof -
  have "k_sched (sys_k (enter entry stk (s\<lparr>um_active := True\<rparr>))) = k_sched (sys_k s)"
    "same_spaces (k_vm (sys_k s)) (k_vm (sys_k (enter entry stk (s\<lparr>um_active := True\<rparr>))))"
    using assms(1) [unfolded enter_contract_def, rule_format, of entry stk "s\<lparr>um_active := True\<rparr>"] by simp_all
  with assms(2) show ?thesis
    by (auto simp: usermode_run_entry_stack_def sync_ok_def Let_def same_spaces_ops split: if_splits)
qed

lemma run_image_ok:
  fixes s :: "'d system"
  assumes ec: "enter_contract enter" and inv: "aspace_inv (k_vm (sys_k s))" and nw: "unat (next_aspace_id (k_vm (sys_k s))) + 1 < 2 ^ 32"
    and ka: "aspace_map (k_vm (sys_k s)) (kernel_aspace_id (k_vm (sys_k s))) \<noteq> None"
    and cur: "aspace_map (k_vm (sys_k s)) (sched_current_aspace (sys_k s)) \<noteq> None"
    and run: "run_image enter info img (sched_current_aspace (sys_k s)) s = (r, s')"
  shows "r = Overrun \<or> sync_ok s s' \<and> (r = Done () \<longrightarrow> in_current_aspace (sys_k s'))"
proof -
  let ?v = "k_vm (sys_k s)" and ?old = "sched_current_aspace (sys_k s)"
  obtain i v1 where c: "aspace_create ASPACE_KIND_USER_SHARED (Some ''ring3demo'') ?v = (i, v1)" by fastforce
  note cr = create_release [OF inv nw ka c]
  consider "i = 0" | "i \<noteq> 0" "load_segment info img = None" | data where "i \<noteq> 0" "load_segment info img = Some data"
    by fastforce
  then show ?thesis
  proof cases
    case 1
    then show ?thesis using run c create_fail [OF inv nw] by (auto simp: run_image_def sync_ok_def)
  next
    case 2
    then show ?thesis using run c by (simp add: run_image_def)
  next
    case 3
    obtain ok v2 where l: "load_user i info data v1 = (ok, v2)" by fastforce
    have s2: "same_spaces v1 v2" using load_user_spaces [of v1 i info data] l by simp
    let ?s3 = "upd_vm (\<lambda>v. snd (aspace_switch i v)) (upd_vm (\<lambda>_. v2) (upd_vm (\<lambda>_. v1) s))"
    obtain rc s4 where e: "usermode_run_entry_stack enter (ei_entry info) ASPACE_USER_STACK_TOP ?s3 = (rc, s4)" by fastforce
    note re = run_entry_ok [OF ec e, unfolded sync_ok_def]
    show ?thesis
    proof (cases ok)
      case False
      have "same_spaces ?v (snd (aspace_release i v2))" by (rule cr [OF 3(1) s2])
      then show ?thesis using run c 3 l False by (auto simp: run_image_def sync_ok_def)
    next
      case True
      let ?v5 = "snd (aspace_switch ?old (k_vm (sys_k s4)))"
      have "same_spaces v1 (snd (aspace_switch i v2))" by (rule same_spaces_trans [OF s2 same_spaces_ops(3)])
      then have v4: "same_spaces v1 (k_vm (sys_k s4))" using re by (auto intro: same_spaces_trans)
      then have v5: "same_spaces v1 ?v5" by (rule same_spaces_trans [OF _ same_spaces_ops(3)])
      have fin: "same_spaces ?v (snd (aspace_release i ?v5))" by (rule cr [OF 3(1) v5])
      have rs: "r = (if rc then Done () else Fail)" "s' = upd_vm (\<lambda>v. snd (aspace_release i v)) (upd_vm (\<lambda>v. snd (aspace_switch ?old v)) s4)"
        using run c 3 l True e by (simp_all add: run_image_def)
      obtain x where x: "aspace_map ?v ?old = Some x" using cur by auto
      have "aspace_map v1 ?old = Some x" using create_cases [OF inv nw c] x 3(1) by auto
      then have "aspace_map (k_vm (sys_k s4)) ?old = Some x" using v4 by (simp add: same_spaces_def)
      then have cr3: "vm_cr3 ?v5 = ai_cr3 x" by (rule aspace_switch_cr3)
      have cr3': "vm_cr3 (snd (aspace_release i w)) = vm_cr3 w" for w
        by (simp add: aspace_release_def Let_def split: option.split)
      have "aspace_map (snd (aspace_release i ?v5)) ?old = Some x" using fin x by (simp add: same_spaces_def)
      then have "in_current_aspace (sys_k s')" using cr3 cr3' re by (simp add: in_current_aspace_def rs(2) sched_current_aspace_def)
      then show ?thesis using fin re rs by (simp add: sync_ok_def)
    qed
  qed
qed

lemma run_sync_ok:
  fixes s :: "'d system"
  assumes ec: "enter_contract enter" and inv: "aspace_inv (k_vm (sys_k s))" and nw: "unat (next_aspace_id (k_vm (sys_k s))) + 1 < 2 ^ 32"
    and ka: "aspace_map (k_vm (sys_k s)) (kernel_aspace_id (k_vm (sys_k s))) \<noteq> None"
    and cur: "aspace_map (k_vm (sys_k s)) (sched_current_aspace (sys_k s)) \<noteq> None"
    and run: "builtin_exec_run_sync B enter img path s = (r, s')"
  shows "r = Overrun \<or> sync_ok s s' \<and> (r = Done () \<longrightarrow> in_current_aspace (sys_k s'))"
proof -
  have fs: "sync_ok s (upd_k (\<lambda>k. k\<lparr>k_fs := f\<rparr>) s)" "sync_ok s s" for f by (simp_all add: sync_ok_def same_spaces_ops)
  have im: "r = Overrun \<or> sync_ok s s' \<and> (r = Done () \<longrightarrow> in_current_aspace (sys_k s'))"
    if "run_image enter info img' (sched_current_aspace (sys_k s)) (upd_k (\<lambda>k. k\<lparr>k_fs := f\<rparr>) s) = (r, s')" for info img' f
    using run_image_ok [OF ec, of "upd_k (\<lambda>k. k\<lparr>k_fs := f\<rparr>) s" info img' r s'] inv nw ka cur that
    by (simp add: sched_current_aspace_def sync_ok_def)
  show ?thesis
    using run fs im
    by (auto simp: builtin_exec_run_sync_def Let_def split: option.splits if_splits prod.splits fs_read.splits elf_result.splits)
qed


definition silent_blockdev :: "unit blockdev" where
  "silent_blockdev = \<lparr>bd_init = id, bd_ready = (\<lambda>_. False), bd_read = (\<lambda>_ _ d. (False, [], d)), bd_write = (\<lambda>_ _ _ d. (False, d))\<rparr>"


end
