(* ===== verification/Vfs.thy ===== *)
theory Vfs
  imports Builtin_Exec
begin

text \<open>
  The file layer of \<open>kernel/vfs.c\<close>: a table of 32 descriptors over the network files, the files
  under \<open>/proc\<close>, the recorded trace sessions and the programs under \<open>/bin\<close>.  A read renders the
  whole file into a local array of 1024 bytes and copies a part of it; a copy from outside that
  array is the outcome \<open>Overrun\<close>.  The contents of the local arrays before the call are a
  parameter.
\<close>

section \<open>Definitions\<close>

definition VFS_MAX_FDS :: nat where "VFS_MAX_FDS = 32"
definition VFS_PATH_MAX :: nat where "VFS_PATH_MAX = 64"
definition VFS_SCRATCH_MAX :: u32 where "VFS_SCRATCH_MAX = 1024"
definition VFS_O_RDONLY :: u32 where "VFS_O_RDONLY = 1"
definition VFS_O_WRONLY :: u32 where "VFS_O_WRONLY = 2"
definition VFS_O_RDWR :: u32 where "VFS_O_RDWR = 3"

subsection \<open>Paths\<close>

definition path_kind :: "char list option \<Rightarrow> vfs_node_type" where
  "path_kind path =
     (case path of
        None \<Rightarrow> Node_Invalid
      | Some p \<Rightarrow>
          if cdref p = NUL then Node_Invalid
          else if strncmp p ''/net/'' 5 = 0 \<or> strcmp p ''/net'' = 0 then Node_Net
          else if strcmp p ''/proc/tasks'' = 0 then Node_Proc_Tasks
          else if strcmp p ''/proc/meminfo'' = 0 then Node_Proc_Meminfo
          else if strcmp p ''/proc/aspace'' = 0 then Node_Proc_Aspace
          else if strcmp p ''/trace'' = 0 \<or> strcmp p ''/trace/'' = 0 \<or> strcmp p ''/trace/index'' = 0 then Node_Trace_Index
          else if strcmp p ''/bin'' = 0 \<or> strcmp p ''/bin/'' = 0 \<or> strcmp p ''/bin/index'' = 0 then Node_Bin
          else if strncmp p ''/bin/'' 5 = 0 then Node_Bin
          else
            (let n = strlen p in
             if n > 11 \<and> strncmp p ''/trace/session-'' 15 = 0
             then
               (if n > 4 \<and> strcmp (drop (n - 4) p) ''.bin'' = 0 then Node_Trace_Session
                else if n > 5 \<and> strcmp (drop (n - 5) p) ''.meta'' = 0 then Node_Trace_Meta
                else Node_Invalid)
             else Node_Invalid))"

definition copy_path :: "char list \<Rightarrow> char list \<Rightarrow> char list option" where
  "copy_path dst src =
     (let n = strlen src in if n \<ge> VFS_PATH_MAX then None else Some (memcpy dst (src @ [NUL]) (n + 1)))"

text \<open>The digits behind the prefix, up to the first other character.\<close>

fun session_digits :: "u32 \<Rightarrow> char list \<Rightarrow> u32" where
  "session_digits value [] = value"
| "session_digits value (c # s) = (if is_digit c then session_digits (value * 10 + (of_char c - 48)) s else value)"

definition parse_trace_session_id :: "char list \<Rightarrow> u32 option" where
  "parse_trace_session_id path =
     (if strncmp path ''/trace/session-'' 15 \<noteq> 0 then None
      else (let value = session_digits 0 (drop 15 path) in if value = 0 then None else Some value))"

subsection \<open>Rendering\<close>

definition render_proc_tasks :: "'d kernel \<Rightarrow> piece list" where
  "render_proc_tasks k =
     Txt (ln ''pid ppid aspace state cpu_ticks yields exec name'') #
     concat (map (\<lambda>t. [Dec (ucast (t_pid t)), Chr (CHR '' ''), Dec (ucast (t_parent_pid t)), Chr (CHR '' ''),
         Dec (ucast (t_aspace_id t)), Chr (CHR '' ''), Txt (sched_state_name (t_state t)), Chr (CHR '' ''),
         Dec (t_cpu_ticks t), Chr (CHR '' ''), Dec (t_yields t), Chr (CHR '' ''), Txt (t_exec_path t), Chr (CHR '' ''),
         Txt (t_name t), Chr LF]) (sched_snapshot 8 k))"

definition render_proc_meminfo :: "'d kernel \<Rightarrow> piece list" where
  "render_proc_meminfo k =
     (let m = vm_mem (k_vm k) in
      [Txt ''MemTotal: '', Dec (total_bytes m), Txt (LF # ''MemUsed: ''), Dec (used_bytes m),
       Txt (LF # ''MemFree: ''), Dec (memory_free_bytes m), Txt (LF # ''PageFaults: ''), Dec (page_faults m), Chr LF])"

definition render_proc_aspace :: "'d kernel \<Rightarrow> piece list" where
  "render_proc_aspace k =
     Txt (ln ''id kind refs isolated cr3 ustack label'') #
     concat (map (\<lambda>i. [Dec (ucast (ai_id i)), Chr (CHR '' ''), Dec (ucast (ai_kind i)), Chr (CHR '' ''),
         Dec (ucast (ai_refcount i)), Chr (CHR '' ''), Dec (ucast (ai_isolated i)), Chr (CHR '' ''), Dec (ai_cr3 i), Chr (CHR '' ''),
         Dec (ai_user_stack_top i), Chr (CHR '' ''), Txt (ai_label i), Chr LF]) (aspace_snapshot 16 (k_vm k)))"

definition render_trace_index :: "'d kernel \<Rightarrow> piece list" where
  "render_trace_index k =
     Txt (ln ''trace sessions'') #
     concat (map (\<lambda>t. [Txt ''session-'', Dec (ucast (tf_session_id t)), Txt ''.bin size='', Dec (ucast (tf_size_bytes t)),
         Txt '' events='', Dec (tf_event_count t), Chr LF]) (fs_snapshot_traces 16 (k_fs k)))"

definition render_trace_meta :: "trace_session_info \<Rightarrow> piece list" where
  "render_trace_meta info =
     [Txt ''session='', Dec (ucast (si_session_id info)), Txt (LF # ''bytes=''), Dec (ucast (si_size_bytes info)),
      Txt (LF # ''profile=''), Dec (ucast (si_profile_id info)), Txt (LF # ''events=''), Dec (ucast (si_event_count info)),
      Txt (LF # ''duration_ticks=''), Dec (si_duration_ticks info), Chr LF]"

subsection \<open>Reading\<close>

record vfs_locals =
  loc_scratch :: "char list"
  loc_trace :: "u8 list"
  loc_meta :: "char list"
  loc_image :: "u8 list"

text \<open>The copy at the end of a read: \<open>len\<close> (\<open>total\<close>) is the length of the file, \<open>scratch\<close> the local array.\<close>

definition copy_out :: "u64 \<Rightarrow> u32 \<Rightarrow> u8 list \<Rightarrow> vfs_fd \<Rightarrow> u8 list outcome \<times> vfs_fd" where
  "copy_out bytes len scratch fd =
     (if fd_pos fd \<ge> len then (Done [], fd)
      else
        (let remain = len - fd_pos fd;
             n = (if bytes < ucast remain then ucast bytes else remain)
         in if unat (fd_pos fd) + unat n \<le> length scratch
            then (Done (take (unat n) (drop (unat (fd_pos fd)) scratch)), fd\<lparr>fd_pos := fd_pos fd + n\<rparr>)
            else (Overrun, fd)))"

definition copy_text :: "u64 \<Rightarrow> tbuf \<Rightarrow> vfs_fd \<Rightarrow> u8 list outcome \<times> vfs_fd" where
  "copy_text bytes t fd = copy_out bytes (snd t) (string_bytes (fst t)) fd"

definition read_trace_file ::
  "'d blockdev \<Rightarrow> vfs_locals \<Rightarrow> u64 \<Rightarrow> bool \<Rightarrow> vfs_fd \<Rightarrow> 'd kernel \<Rightarrow> (u8 list outcome \<times> vfs_fd) \<times> 'd kernel" where
  "read_trace_file B loc bytes metadata_only fd k =
     (case parse_trace_session_id (fd_path fd) of
        None \<Rightarrow> ((Fail, fd), k)
      | Some session_id \<Rightarrow>
          (case fs_get_trace_session_info session_id (k_fs k) of
             None \<Rightarrow> ((Fail, fd), k)
           | Some info \<Rightarrow>
               if metadata_only
               then (copy_text bytes (render VFS_SCRATCH_MAX (render_trace_meta info) (loc_meta loc, 0)) fd, k)
               else if si_size_bytes info > VFS_SCRATCH_MAX then ((Fail, fd), k)
               else
                 (case fs_read_trace_session B session_id (loc_trace loc) (k_fs k) of
                    (Read_Fail _, fs) \<Rightarrow> ((Fail, fd), k\<lparr>k_fs := fs\<rparr>)
                  | (Read_Overrun, fs) \<Rightarrow> ((Overrun, fd), k\<lparr>k_fs := fs\<rparr>)
                  | (Read_Ok len scratch, fs) \<Rightarrow> (copy_out bytes len scratch fd, k\<lparr>k_fs := fs\<rparr>))))"

definition read_from_node ::
  "'d blockdev \<Rightarrow> vfs_locals \<Rightarrow> u64 \<Rightarrow> vfs_fd \<Rightarrow> 'd kernel \<Rightarrow> (u8 list outcome \<times> vfs_fd) \<times> 'd kernel" where
  "read_from_node B loc bytes fd k =
     (let show = (\<lambda>ps. (copy_text bytes (render VFS_SCRATCH_MAX ps (loc_scratch loc, 0)) fd, k)) in
      case fd_type fd of
        Node_Net \<Rightarrow>
          (case netfs_render_path (Some (fd_path fd)) (loc_scratch loc) VFS_SCRATCH_MAX k of
             None \<Rightarrow> ((Fail, fd), k)
           | Some t \<Rightarrow> (copy_text bytes t fd, k))
      | Node_Proc_Tasks \<Rightarrow> show (render_proc_tasks k)
      | Node_Proc_Meminfo \<Rightarrow> show (render_proc_meminfo k)
      | Node_Proc_Aspace \<Rightarrow> show (render_proc_aspace k)
      | Node_Trace_Index \<Rightarrow> show (render_trace_index k)
      | Node_Trace_Session \<Rightarrow> read_trace_file B loc bytes False fd k
      | Node_Trace_Meta \<Rightarrow> read_trace_file B loc bytes True fd k
      | Node_Bin \<Rightarrow>
          (case builtin_exec_render_path B (loc_image loc) (fd_path fd) (loc_scratch loc) VFS_SCRATCH_MAX (k_fs k) of
             (Fail, fs) \<Rightarrow> ((Fail, fd), k\<lparr>k_fs := fs\<rparr>)
           | (Overrun, fs) \<Rightarrow> ((Overrun, fd), k\<lparr>k_fs := fs\<rparr>)
           | (Done t, fs) \<Rightarrow> (copy_text bytes t fd, k\<lparr>k_fs := fs\<rparr>))
      | Node_Invalid \<Rightarrow> ((Fail, fd), k))"

subsection \<open>Descriptors\<close>

definition vfs_init :: "'d system \<Rightarrow> 'd system" where
  "vfs_init s = s\<lparr>fd_table := replicate VFS_MAX_FDS fd_zero\<rparr>"

text \<open>The descriptor, or \<open>None\<close> for -1.  A path that does not fit leaves its kind and flags behind.\<close>

definition vfs_open :: "char list option \<Rightarrow> u32 \<Rightarrow> 'd system \<Rightarrow> nat option \<times> 'd system" where
  "vfs_open path flags s =
     (let kind = path_kind path in
      if kind = Node_Invalid then (None, s)
      else
        (case find_index (\<lambda>f. \<not> fd_used f) (fd_table s) of
           None \<Rightarrow> (None, s)
         | Some i \<Rightarrow>
             (let f1 = (fd_table s ! i)\<lparr>fd_used := True, fd_flags := flags, fd_pos := 0, fd_type := kind\<rparr> in
              case copy_path (fd_path f1) (case path of None \<Rightarrow> [] | Some p \<Rightarrow> p) of
                None \<Rightarrow> (None, s\<lparr>fd_table := (fd_table s)[i := f1\<lparr>fd_used := False\<rparr>]\<rparr>)
              | Some q \<Rightarrow> (Some i, s\<lparr>fd_table := (fd_table s)[i := f1\<lparr>fd_path := q\<rparr>]\<rparr>))))"

definition fd_valid :: "int \<Rightarrow> 'd system \<Rightarrow> bool" where
  "fd_valid fd s \<longleftrightarrow> 0 \<le> fd \<and> fd < int VFS_MAX_FDS \<and> fd_used (fd_table s ! nat fd)"

definition vfs_read :: "'d blockdev \<Rightarrow> vfs_locals \<Rightarrow> int \<Rightarrow> u64 \<Rightarrow> 'd system \<Rightarrow> u8 list outcome \<times> 'd system" where
  "vfs_read B loc fd bytes s =
     (if \<not> fd_valid fd s then (Fail, s)
      else
        (let f = fd_table s ! nat fd in
         if fd_flags f = VFS_O_WRONLY then (Fail, s)
         else
           (let ((r, f'), k) = read_from_node B loc bytes f (sys_k s)
            in (r, s\<lparr>sys_k := k, fd_table := (fd_table s)[nat fd := f']\<rparr>))))"

text \<open>\<open>buf\<close> holds at least \<open>bytes\<close> bytes; the result is the number of bytes taken.\<close>

definition vfs_write :: "int \<Rightarrow> char list \<Rightarrow> u64 \<Rightarrow> 'd system \<Rightarrow> nat option \<times> 'd system" where
  "vfs_write fd buf bytes s =
     (if \<not> fd_valid fd s then (None, s)
      else
        (let f = fd_table s ! nat fd in
         if fd_flags f = VFS_O_RDONLY then (None, s)
         else if fd_type f \<noteq> Node_Net then (None, s)
         else
           (let n = (if bytes \<ge> 257 then 256 else unat bytes);
                tmp = (memcpy (replicate 257 NUL) buf n)[n := NUL];
                (ok, k) = netfs_write_path (Some (fd_path f)) (Some tmp) (sys_k s)
            in (if ok then Some n else None, s\<lparr>sys_k := k\<rparr>))))"

definition vfs_close :: "int \<Rightarrow> 'd system \<Rightarrow> bool \<times> 'd system" where
  "vfs_close fd s =
     (if \<not> fd_valid fd s then (False, s)
      else (True, s\<lparr>fd_table := (fd_table s)[nat fd := fd_zero]\<rparr>))"

section \<open>Paths depend on the string only\<close>

lemma cdref_c_str: "cdref (c_str p) = cdref p"
  by (cases p) (simp_all add: c_str_def)

lemma strncmp_c_str: "strncmp (c_str p) b n = strncmp p b n"
proof (induction p b n rule: strncmp.induct)
  case (1 a b)
  then show ?case by simp
next
  case (2 a b n)
  have "cdref a \<noteq> NUL \<Longrightarrow> tl (c_str a) = c_str (tl a)" by (cases a) (simp_all add: c_str_def)
  then show ?case using 2 by (auto simp: cdref_c_str)
qed

lemma strcmp_c_str: "strcmp (c_str p) b = 0 \<longleftrightarrow> strcmp p b = 0"
  by (simp add: strcmp_eq_0_iff_c_str)

lemma c_str_drop: "n \<le> strlen p \<Longrightarrow> c_str (drop n p) = drop n (c_str p)"
proof (induction p arbitrary: n)
  case Nil
  then show ?case by (simp add: c_str_def)
next
  case (Cons c p)
  then show ?case by (cases n) (auto simp: c_str_def split: if_splits)
qed

lemma path_kind_c_str: "path_kind (Some (c_str p)) = path_kind (Some p)"
proof -
  let ?n = "strlen p"
  have n: "strlen (c_str p) = ?n" by (simp add: strlen_c_str)
  have d: "strcmp (drop (?n - m) (c_str p)) s = 0 \<longleftrightarrow> strcmp (drop (?n - m) p) s = 0" for m s
    using c_str_drop [of "?n - m" p] by (simp add: strcmp_eq_0_iff_c_str c_str_drop n)
  show ?thesis
    by (simp only: path_kind_def option.case cdref_c_str strncmp_c_str strcmp_c_str n d Let_def)
qed

lemma path_kind_cong: "c_str p = c_str q \<Longrightarrow> path_kind (Some p) = path_kind (Some q)"
  by (metis path_kind_c_str)

lemma copy_path_Some:
  assumes "copy_path dst src = Some q" and "length dst = 64"
  shows "length q = 64" "c_str q = c_str src" "strlen q < 64"
proof -
  let ?n = "strlen src"
  have n: "?n < 64" "q = memcpy dst (src @ [NUL]) (?n + 1)" using assms(1) by (auto simp: copy_path_def Let_def VFS_PATH_MAX_def split: if_splits)
  have src: "take (?n + 1) (src @ [NUL]) = c_str src @ [NUL]"
    by (induction src) (auto simp: c_str_def)
  have "?n \<le> length src" by (induction src) auto
  then have q: "q = c_str src @ NUL # drop (?n + 1) dst"
    using n assms(2) src by (simp add: memcpy_eq)
  have "length (c_str src) = ?n" by (simp add: strlen_c_str)
  then show "length q = 64" "c_str q = c_str src" using q n assms(2) by simp_all
  then show "strlen q < 64" using n by (simp add: strlen_c_str)
qed

section \<open>The descriptor table\<close>

definition fd_ok :: "vfs_fd \<Rightarrow> bool" where
  "fd_ok f \<longleftrightarrow> length (fd_path f) = 64 \<and>
     (fd_used f \<longrightarrow> strlen (fd_path f) < 64 \<and> fd_type f = path_kind (Some (fd_path f)) \<and> fd_type f \<noteq> Node_Invalid)"

definition vfs_inv :: "'d system \<Rightarrow> bool" where
  "vfs_inv s \<longleftrightarrow> length (fd_table s) = VFS_MAX_FDS \<and> list_all fd_ok (fd_table s)"

lemma vfs_inv_update:
  "vfs_inv s \<Longrightarrow> fd_ok f \<Longrightarrow> vfs_inv (s\<lparr>fd_table := (fd_table s)[i := f]\<rparr>)"
  by (cases "i < length (fd_table s)") (auto simp: vfs_inv_def list_all_length nth_list_update list_update_beyond)

lemma vfs_inv_kernel [simp]: "vfs_inv (s\<lparr>sys_k := k\<rparr>) = vfs_inv s"
  by (simp add: vfs_inv_def)

lemma vfs_inv_nth: "vfs_inv s \<Longrightarrow> i < VFS_MAX_FDS \<Longrightarrow> fd_ok (fd_table s ! i)"
  by (simp add: vfs_inv_def list_all_length)

text \<open>The open files: path, flags and position of each descriptor.\<close>

definition fd_map :: "'d system \<Rightarrow> nat \<Rightarrow> (char list \<times> u32 \<times> u32) option" where
  "fd_map s i = (if i < VFS_MAX_FDS \<and> fd_used (fd_table s ! i)
     then Some (c_str (fd_path (fd_table s ! i)), fd_flags (fd_table s ! i), fd_pos (fd_table s ! i)) else None)"

lemma fd_map_update:
  assumes "length (fd_table s) = VFS_MAX_FDS" and "i < VFS_MAX_FDS"
  shows "fd_map (s\<lparr>fd_table := (fd_table s)[i := f]\<rparr>)
    = (fd_map s)(i := (if fd_used f then Some (c_str (fd_path f), fd_flags f, fd_pos f) else None))"
  using assms by (auto simp: fd_map_def fun_eq_iff nth_list_update)

lemma fd_map_kernel [simp]: "fd_map (s\<lparr>sys_k := k\<rparr>) = fd_map s"
  by (simp add: fd_map_def fun_eq_iff)

lemma open_cases:
  assumes inv: "vfs_inv s" and op: "vfs_open path flags s = (r, s')"
  shows "vfs_inv s' \<and> sys_k s' = sys_k s \<and>
    (case r of
       None \<Rightarrow> fd_map s' = fd_map s \<and> (path_kind path = Node_Invalid \<or> 64 \<le> strlen (the path) \<or> (\<forall>i < VFS_MAX_FDS. fd_map s i \<noteq> None))
     | Some i \<Rightarrow> i < VFS_MAX_FDS \<and> fd_map s i = None \<and> (\<forall>j < i. fd_map s j \<noteq> None) \<and> path_kind path \<noteq> Node_Invalid \<and>
         fd_map s' = (fd_map s)(i \<mapsto> (c_str (the path), flags, 0)))"
proof -
  have len: "length (fd_table s) = VFS_MAX_FDS" using inv by (simp add: vfs_inv_def)
  show ?thesis
  proof (cases "path_kind path = Node_Invalid")
    case True
    then show ?thesis using op inv by (auto simp: vfs_open_def)
  next
    case kd: False
    then obtain p where p: "path = Some p" by (cases path) (auto simp: path_kind_def)
    show ?thesis
    proof (cases "find_index (\<lambda>f. \<not> fd_used f) (fd_table s)")
      case None
      then have "\<forall>i < VFS_MAX_FDS. fd_used (fd_table s ! i)" using len by (auto simp: find_index_None)
      then show ?thesis using op inv kd None by (auto simp: vfs_open_def fd_map_def)
    next
      case (Some i)
      note f = find_index_SomeD [OF Some]
      have i: "i < VFS_MAX_FDS" "\<not> fd_used (fd_table s ! i)" "\<And>j. j < i \<Longrightarrow> fd_used (fd_table s ! j)"
        using f len by simp_all
      let ?f = "(fd_table s ! i)\<lparr>fd_used := True, fd_flags := flags, fd_pos := 0, fd_type := path_kind path\<rparr>"
      have pl: "length (fd_path (fd_table s ! i)) = 64" using vfs_inv_nth [OF inv i(1)] by (simp add: fd_ok_def)
      show ?thesis
      proof (cases "copy_path (fd_path (fd_table s ! i)) p")
        case cn: None
        have "r = None" "s' = s\<lparr>fd_table := (fd_table s)[i := ?f\<lparr>fd_used := False\<rparr>]\<rparr>"
          using op kd Some cn p by (auto simp: vfs_open_def Let_def)
        moreover have "64 \<le> strlen p" using cn by (auto simp: copy_path_def Let_def VFS_PATH_MAX_def split: if_splits)
        moreover have "fd_ok (?f\<lparr>fd_used := False\<rparr>)" using pl by (simp add: fd_ok_def)
        moreover have "fd_map s i = None" using i by (simp add: fd_map_def)
        ultimately show ?thesis using inv vfs_inv_update fd_map_update [OF len i(1)] p by (auto simp: fun_eq_iff)
      next
        case (Some q)
        note q = copy_path_Some [OF Some pl]
        have r: "r = Some i" "s' = s\<lparr>fd_table := (fd_table s)[i := ?f\<lparr>fd_path := q\<rparr>]\<rparr>"
          using op kd \<open>find_index (\<lambda>f. \<not> fd_used f) (fd_table s) = Some i\<close> Some p by (auto simp: vfs_open_def Let_def)
        have "fd_ok (?f\<lparr>fd_path := q\<rparr>)" using q kd p path_kind_cong [OF q(2)] by (simp add: fd_ok_def)
        then have "vfs_inv s'" using inv vfs_inv_update r(2) by blast
        moreover have "fd_map s j \<noteq> None" if "j < i" for j using i(3) [OF that] i(1) that by (simp add: fd_map_def)
        ultimately show ?thesis using r i fd_map_update [OF len i(1)] q kd p by (auto simp: fd_map_def)
      qed
    qed
  qed
qed

section \<open>Reading text\<close>

lemma copy_text_ok:
  assumes h: "holds_text VFS_SCRATCH_MAX t txt" and l: "length txt < 1024"
  shows "copy_text bytes t fd = (Done (string_bytes (take (unat bytes) (drop (unat (fd_pos fd)) txt))),
    fd\<lparr>fd_pos := fd_pos fd + word_of_nat (length (take (unat bytes) (drop (unat (fd_pos fd)) txt)))\<rparr>)"
proof -
  obtain buf pos where t: "t = (buf, pos)" by fastforce
  have b: "length buf = 1024" "unat pos = length txt" "txt @ [NUL] = take (Suc (length txt)) buf"
    using h l by (simp_all add: t holds_text_def VFS_SCRATCH_MAX_def)
  have bt: "take (length txt) buf = txt"
    using arg_cong [OF b(3), of "take (length txt)"] by (simp add: take_take)
  let ?p = "unat (fd_pos fd)"
  show ?thesis
  proof (cases "fd_pos fd \<ge> pos")
    case True
    then have "length txt \<le> ?p" using b(2) by (simp add: word_le_nat_alt)
    with True show ?thesis by (simp add: copy_text_def copy_out_def t string_bytes_def)
  next
    case False
    then have lt: "?p < length txt" using b(2) by (simp add: word_le_nat_alt)
    let ?r = "pos - fd_pos fd"
    have r: "unat ?r = length txt - ?p" using False b(2) by (subst unat_minus_no_wrap) simp_all
    let ?n = "if bytes < ucast ?r then ucast bytes else ?r :: u32"
    have ur: "unat (ucast ?r :: u64) = unat ?r" using unsigned_less [of ?r, where 'a = nat] by (simp add: unsigned_ucast_eq take_bit_eq_mod)
    have n: "unat ?n = min (unat bytes) (length txt - ?p)"
    proof (cases "bytes < ucast ?r")
      case True
      then have lt2: "unat bytes < length txt - ?p" using ur r by (simp add: word_less_nat_alt)
      have "unat (ucast bytes :: u32) = unat bytes mod 2 ^ 32" by (simp add: unsigned_ucast_eq take_bit_eq_mod)
      moreover have "unat bytes < 2 ^ 32" using lt2 l by simp
      ultimately show ?thesis using True lt2 by simp
    next
      case False
      then show ?thesis using ur r by (simp add: word_less_nat_alt)
    qed
    have le: "?p + unat ?n \<le> length (string_bytes buf)" using n lt l b(1) by (simp add: string_bytes_def)
    have len: "length (take (unat bytes) (drop ?p txt)) = unat ?n" using n by simp
    have sl: "take (unat ?n) (drop ?p (string_bytes buf)) = string_bytes (take (unat bytes) (drop ?p txt))"
    proof -
      have "take (unat ?n) (drop ?p buf) = take (unat ?n) (drop ?p (take (length txt) buf))"
        using n by (simp add: drop_take)
      also have "\<dots> = take (min (unat bytes) (length (drop ?p txt))) (drop ?p txt)" using n by (simp add: bt)
      also have "\<dots> = take (unat bytes) (drop ?p txt)" by (cases "unat bytes \<le> length (drop ?p txt)") (simp_all add: min_def)
      finally show ?thesis by (simp add: string_bytes_def take_map drop_map)
    qed
    have c: "copy_text bytes t fd = (Done (string_bytes (take (unat bytes) (drop ?p txt))), fd\<lparr>fd_pos := fd_pos fd + ?n\<rparr>)"
      using False le by (simp only: copy_text_def copy_out_def t fst_conv snd_conv Let_def if_True if_False sl)
    have "?n = word_of_nat (length (take (unat bytes) (drop ?p txt)))"
      by (simp only: len of_nat_unat ucast_id)
    then show ?thesis by (simp only: c)
  qed
qed

text \<open>The text of an open file that does not come from the disk.\<close>

definition node_text :: "vfs_fd \<Rightarrow> 'd kernel \<Rightarrow> char list option" where
  "node_text fd k =
     (case fd_type fd of
        Node_Net \<Rightarrow> map_option pieces_text (net_pieces (fd_path fd) (k_net k))
      | Node_Proc_Tasks \<Rightarrow> Some (pieces_text (render_proc_tasks k))
      | Node_Proc_Meminfo \<Rightarrow> Some (pieces_text (render_proc_meminfo k))
      | Node_Proc_Aspace \<Rightarrow> Some (pieces_text (render_proc_aspace k))
      | Node_Trace_Index \<Rightarrow> Some (pieces_text (render_trace_index k))
      | Node_Trace_Meta \<Rightarrow> (case parse_trace_session_id (fd_path fd) of None \<Rightarrow> None
          | Some i \<Rightarrow> map_option (\<lambda>info. pieces_text (render_trace_meta info)) (fs_get_trace_session_info i (k_fs k)))
      | _ \<Rightarrow> None)"

definition locals_ok :: "vfs_locals \<Rightarrow> bool" where
  "locals_ok loc \<longleftrightarrow> length (loc_scratch loc) = 1024 \<and> length (loc_trace loc) = 1024 \<and> length (loc_meta loc) = 1024 \<and> length (loc_image loc) = 256"

text \<open>The first character overwrites whatever the array held.\<close>

lemma render_uninitialised:
  assumes "length buf = 1024" and "pieces_text ps \<noteq> []"
  shows "render VFS_SCRATCH_MAX ps (buf, 0) = render VFS_SCRATCH_MAX ps (buf[0 := NUL], 0)"
proof -
  obtain c s where c: "pieces_text ps = c # s" using assms(2) by (cases "pieces_text ps") auto
  show ?thesis by (simp add: render_eq c append_char_def VFS_SCRATCH_MAX_def)
qed

lemma scratch_holds:
  assumes "length buf = 1024" and "length (pieces_text ps) < 1024"
  shows "holds_text VFS_SCRATCH_MAX (render VFS_SCRATCH_MAX ps (buf[0 := NUL], 0)) (pieces_text ps)"
    "pieces_text ps \<noteq> [] \<Longrightarrow> holds_text VFS_SCRATCH_MAX (render VFS_SCRATCH_MAX ps (buf, 0)) (pieces_text ps)"
proof -
  show h: "holds_text VFS_SCRATCH_MAX (render VFS_SCRATCH_MAX ps (buf[0 := NUL], 0)) (pieces_text ps)"
    using assms by (intro render_from_start) (simp_all add: VFS_SCRATCH_MAX_def)
  show "holds_text VFS_SCRATCH_MAX (render VFS_SCRATCH_MAX ps (buf, 0)) (pieces_text ps)" if "pieces_text ps \<noteq> []"
    using h render_uninitialised [OF assms(1) that] by simp
qed

lemma texts_nonempty:
  "pieces_text (render_proc_tasks k) \<noteq> []" "pieces_text (render_proc_meminfo k) \<noteq> []" "pieces_text (render_proc_aspace k) \<noteq> []"
  "pieces_text (render_trace_index k) \<noteq> []" "pieces_text (render_trace_meta info) \<noteq> []"
  by (simp_all add: pieces_text_def render_proc_tasks_def render_proc_meminfo_def render_proc_aspace_def render_trace_index_def
      render_trace_meta_def Let_def c_str_def)

lemma read_node_ok:
  assumes t: "node_text fd k = Some txt" and l: "length txt < 1024" and loc: "locals_ok loc"
  shows "read_from_node B loc bytes fd k = ((Done (string_bytes (take (unat bytes) (drop (unat (fd_pos fd)) txt))),
    fd\<lparr>fd_pos := fd_pos fd + word_of_nat (length (take (unat bytes) (drop (unat (fd_pos fd)) txt)))\<rparr>), k)" (is "_ = (?r, k)")
proof -
  have sc: "length (loc_scratch loc) = 1024" "length (loc_meta loc) = 1024" using loc by (simp_all add: locals_ok_def)
  have ok: "copy_text bytes (render VFS_SCRATCH_MAX ps ((loc_scratch loc)[0 := NUL], 0)) fd = ?r"
    "pieces_text ps \<noteq> [] \<Longrightarrow> copy_text bytes (render VFS_SCRATCH_MAX ps (loc_scratch loc, 0)) fd = ?r"
    "pieces_text ps \<noteq> [] \<Longrightarrow> copy_text bytes (render VFS_SCRATCH_MAX ps (loc_meta loc, 0)) fd = ?r" if "txt = pieces_text ps" for ps
    using copy_text_ok [OF scratch_holds(1) [OF sc(1)]] copy_text_ok [OF scratch_holds(2) [OF sc(1)]]
      copy_text_ok [OF scratch_holds(2) [OF sc(2)]] l that by auto
  consider (net) "fd_type fd = Node_Net" | (meta) "fd_type fd = Node_Trace_Meta"
    | (shown) ps where "txt = pieces_text ps" "pieces_text ps \<noteq> []"
        "read_from_node B loc bytes fd k = (copy_text bytes (render VFS_SCRATCH_MAX ps (loc_scratch loc, 0)) fd, k)"
    using t texts_nonempty(1-4) [of k] by (cases "fd_type fd") (simp_all add: node_text_def read_from_node_def, metis+)
  then show ?thesis
  proof cases
    case net
    then obtain ps where ps: "net_pieces (fd_path fd) (k_net k) = Some ps" "txt = pieces_text ps" using t by (auto simp: node_text_def)
    have "netfs_render_path (Some (fd_path fd)) (loc_scratch loc) VFS_SCRATCH_MAX k
      = Some (render VFS_SCRATCH_MAX ps ((loc_scratch loc)[0 := NUL], 0))"
      using ps by (simp add: netfs_render_path_def VFS_SCRATCH_MAX_def)
    then show ?thesis using ok(1) [OF ps(2)] net by (simp add: read_from_node_def)
  next
    case meta
    then obtain i info where i: "parse_trace_session_id (fd_path fd) = Some i" "fs_get_trace_session_info i (k_fs k) = Some info"
      "txt = pieces_text (render_trace_meta info)" using t by (auto simp: node_text_def split: option.splits)
    then show ?thesis using ok(3) [OF i(3)] meta texts_nonempty
      by (simp add: read_from_node_def read_trace_file_def)
  next
    case shown
    then show ?thesis using ok(2) by simp
  qed
qed

text \<open>A sequence of reads on a descriptor; the results in order.\<close>

fun vfs_reads :: "'d blockdev \<Rightarrow> vfs_locals \<Rightarrow> int \<Rightarrow> u64 list \<Rightarrow> 'd system \<Rightarrow> u8 list outcome list \<times> 'd system" where
  "vfs_reads B loc fd [] s = ([], s)"
| "vfs_reads B loc fd (n # ns) s =
     (let (r, s1) = vfs_read B loc fd n s; (rs, s2) = vfs_reads B loc fd ns s1 in (r # rs, s2))"

lemma vfs_read_ok:
  assumes v: "fd_valid fd s" and len: "length (fd_table s) = VFS_MAX_FDS" and fl: "fd_flags (fd_table s ! nat fd) \<noteq> VFS_O_WRONLY"
    and t: "node_text (fd_table s ! nat fd) (sys_k s) = Some txt" and l: "length txt < 1024" and loc: "locals_ok loc"
  shows "let p = fd_pos (fd_table s ! nat fd); out = take (unat n) (drop (unat p) txt) in
    vfs_read B loc fd n s = (Done (string_bytes out),
      s\<lparr>fd_table := (fd_table s)[nat fd := (fd_table s ! nat fd)\<lparr>fd_pos := p + word_of_nat (length out)\<rparr>]\<rparr>)"
  using assms read_node_ok [OF t l loc] by (simp add: vfs_read_def Let_def)

lemma pos_irrelevant [simp]:
  "node_text (fd\<lparr>fd_pos := p\<rparr>) k = node_text fd k" "fd_ok (fd\<lparr>fd_pos := p\<rparr>) = fd_ok fd"
proof -
  have f: "fd_type (fd\<lparr>fd_pos := p\<rparr>) = fd_type fd" "fd_path (fd\<lparr>fd_pos := p\<rparr>) = fd_path fd"
    "fd_used (fd\<lparr>fd_pos := p\<rparr>) = fd_used fd" by simp_all
  show "node_text (fd\<lparr>fd_pos := p\<rparr>) k = node_text fd k" "fd_ok (fd\<lparr>fd_pos := p\<rparr>) = fd_ok fd"
    unfolding node_text_def fd_ok_def f by (rule refl)+
qed

lemma reads_text:
  assumes "fd_valid fd s" and "length (fd_table s) = VFS_MAX_FDS" and "fd_flags (fd_table s ! nat fd) \<noteq> VFS_O_WRONLY"
    and "node_text (fd_table s ! nat fd) (sys_k s) = Some txt" and "length txt < 1024" and "locals_ok loc"
    and "unat (fd_pos (fd_table s ! nat fd)) \<le> length txt"
  shows "\<exists>rs s'. vfs_reads B loc fd ns s = (map Done rs, s') \<and> sys_k s' = sys_k s \<and>
    concat rs = string_bytes (take (sum_list (map unat ns)) (drop (unat (fd_pos (fd_table s ! nat fd))) txt)) \<and>
    list_all2 (\<lambda>r n. length r \<le> unat n) rs ns"
  using assms
proof (induction ns arbitrary: s)
  case Nil
  then show ?case by (simp add: string_bytes_def)
next
  case (Cons n ns)
  let ?f = "fd_table s ! nat fd" and ?p = "unat (fd_pos (fd_table s ! nat fd))"
  let ?out = "take (unat n) (drop ?p txt)"
  let ?s1 = "s\<lparr>fd_table := (fd_table s)[nat fd := ?f\<lparr>fd_pos := fd_pos ?f + word_of_nat (length ?out)\<rparr>]\<rparr>"
  have r: "vfs_read B loc fd n s = (Done (string_bytes ?out), ?s1)"
    using vfs_read_ok [OF Cons.prems(1-6)] by (simp add: Let_def)
  have i: "nat fd < length (fd_table s)" using Cons.prems(1,2) by (auto simp: fd_valid_def)
  have lo: "length ?out \<le> length txt - ?p" by simp
  have p1: "unat (fd_pos ?f + word_of_nat (length ?out)) = ?p + length ?out"
  proof -
    have u: "unat (word_of_nat (length ?out) :: u32) = length ?out"
      using lo Cons.prems(5) by (intro unat_word_of_nat_less) simp
    have "?p + length ?out \<le> length txt" using lo Cons.prems(7) by linarith
    then have "?p + length ?out < 2 ^ 32" using Cons.prems(5) by simp
    then show ?thesis using u by (subst unat_add_no_wrap) simp_all
  qed
  have f1: "fd_table ?s1 ! nat fd = ?f\<lparr>fd_pos := fd_pos ?f + word_of_nat (length ?out)\<rparr>" using i by simp
  have pre: "fd_valid fd ?s1" "length (fd_table ?s1) = VFS_MAX_FDS" "fd_flags (fd_table ?s1 ! nat fd) \<noteq> VFS_O_WRONLY"
    "node_text (fd_table ?s1 ! nat fd) (sys_k ?s1) = Some txt"
    using Cons.prems i unfolding f1 by (simp_all add: fd_valid_def)
  have pos: "unat (fd_pos (fd_table ?s1 ! nat fd)) = ?p + length ?out" unfolding f1 using p1 by simp
  have le: "unat (fd_pos (fd_table ?s1 ! nat fd)) \<le> length txt" unfolding pos using lo Cons.prems(7) by linarith
  obtain rs s' where ih: "vfs_reads B loc fd ns ?s1 = (map Done rs, s')" "sys_k s' = sys_k s"
    "concat rs = string_bytes (take (sum_list (map unat ns)) (drop (?p + length ?out) txt))"
    "list_all2 (\<lambda>r n. length r \<le> unat n) rs ns"
    using Cons.IH [OF pre Cons.prems(5,6) le] unfolding pos by auto
  have sp: "drop (?p + length ?out) txt = drop (length ?out) (drop ?p txt)" by (simp add: add.commute)
  have "?out @ take m (drop (length ?out) (drop ?p txt)) = take (unat n + m) (drop ?p txt)" for m
    by (cases "unat n \<le> length (drop ?p txt)") (simp_all add: take_add)
  then have "string_bytes ?out @ concat rs = string_bytes (take (sum_list (map unat (n # ns))) (drop ?p txt))"
    unfolding ih(3) sp string_bytes_def map_append [symmetric] by simp
  moreover have "vfs_reads B loc fd (n # ns) s = (map Done (string_bytes ?out # rs), s')" using r ih(1) by simp
  moreover have "length (string_bytes ?out) \<le> unat n" by (simp add: string_bytes_def)
  ultimately show ?case using ih(2,4) by (intro exI [of _ "string_bytes ?out # rs"] exI [of _ s']) simp
qed

lemma read_fd_fields:
  assumes "read_from_node B loc bytes fd k = ((r, f), k')"
  shows "\<exists>p. f = fd\<lparr>fd_pos := p\<rparr>"
proof -
  have co: "\<exists>p. snd (copy_out b l sc fd) = fd\<lparr>fd_pos := p\<rparr>" for b l sc
    by (cases "fd_pos fd \<ge> l") (auto simp: copy_out_def Let_def intro: exI [of _ "fd_pos fd"])
  have ct: "\<exists>p. snd (copy_text b t fd) = fd\<lparr>fd_pos := p\<rparr>" for b t
    using co by (simp add: copy_text_def)
  have same: "\<exists>p. fd = fd\<lparr>fd_pos := p\<rparr>" by (rule exI [of _ "fd_pos fd"]) simp
  have tf: "\<exists>p. snd (fst (read_trace_file B loc bytes m fd k)) = fd\<lparr>fd_pos := p\<rparr>" for m
    using same ct co by (auto simp: read_trace_file_def split: option.split prod.split fs_read.split)
  have "\<exists>p. snd (fst (read_from_node B loc bytes fd k)) = fd\<lparr>fd_pos := p\<rparr>"
    using same ct tf by (auto simp: read_from_node_def split: option.split prod.split outcome.split vfs_node_type.split)
  with assms show ?thesis by simp
qed

lemma init_inv_fds: "vfs_inv (vfs_init s)"
  by (simp add: vfs_inv_def vfs_init_def list_all_length fd_ok_def fd_zero_def)

lemma ops_inv:
  assumes "vfs_inv s"
  shows "vfs_inv (snd (vfs_open path flags s))" "vfs_inv (snd (vfs_read B loc fd n s))" "vfs_inv (snd (vfs_write fd buf n s))"
    "vfs_inv (snd (vfs_close fd s))"
proof -
  show "vfs_inv (snd (vfs_open path flags s))" using open_cases [OF assms] by (metis prod.collapse)
  show "vfs_inv (snd (vfs_write fd buf n s))" using assms by (simp add: vfs_write_def Let_def split: prod.split)
  have z: "fd_ok fd_zero" by (simp add: fd_ok_def fd_zero_def)
  then show "vfs_inv (snd (vfs_close fd s))" using assms by (auto simp: vfs_close_def intro: vfs_inv_update)
  show "vfs_inv (snd (vfs_read B loc fd n s))"
  proof (cases "fd_valid fd s \<and> fd_flags (fd_table s ! nat fd) \<noteq> VFS_O_WRONLY")
    case True
    obtain r f k where r: "read_from_node B loc n (fd_table s ! nat fd) (sys_k s) = ((r, f), k)" by (metis surj_pair)
    obtain p where p: "f = (fd_table s ! nat fd)\<lparr>fd_pos := p\<rparr>" using read_fd_fields [OF r] by blast
    have "nat fd < VFS_MAX_FDS" using True by (auto simp: fd_valid_def)
    then have "fd_ok f" using vfs_inv_nth [OF assms] p by simp
    then have "vfs_inv ((s\<lparr>sys_k := k\<rparr>)\<lparr>fd_table := (fd_table (s\<lparr>sys_k := k\<rparr>))[nat fd := f]\<rparr>)"
      using assms by (intro vfs_inv_update) simp_all
    then show ?thesis using True r by (simp add: vfs_read_def Let_def)
  next
    case False
    then show ?thesis using assms by (auto simp: vfs_read_def Let_def)
  qed
qed

lemma close_cases:
  assumes inv: "vfs_inv s" and c: "vfs_close fd s = (ok, s')"
  shows "sys_k s' = sys_k s \<and> (ok \<longleftrightarrow> 0 \<le> fd \<and> fd_map s (nat fd) \<noteq> None) \<and>
    fd_map s' = (if ok then (fd_map s)(nat fd := None) else fd_map s)"
proof -
  have len: "length (fd_table s) = VFS_MAX_FDS" using inv by (simp add: vfs_inv_def)
  have v: "fd_valid fd s \<longleftrightarrow> 0 \<le> fd \<and> fd_map s (nat fd) \<noteq> None" by (auto simp: fd_valid_def fd_map_def)
  show ?thesis
  proof (cases "fd_valid fd s")
    case True
    then have "nat fd < VFS_MAX_FDS" by (auto simp: fd_valid_def)
    then show ?thesis using True c v fd_map_update [OF len] by (auto simp: vfs_close_def fd_zero_def)
  next
    case False
    then show ?thesis using c v by (auto simp: vfs_close_def)
  qed
qed

section \<open>Session paths\<close>

lemma session_digits_read:
  assumes "\<forall>c \<in> set ds. is_digit c \<and> of_char c = (48 :: u32) + word_of_nat (digit_value c)"
  shows "session_digits (word_of_nat n) (ds @ rest) = session_digits (word_of_nat (read_digits 10 n ds)) rest"
  using assms
proof (induction ds arbitrary: n)
  case Nil
  then show ?case by simp
next
  case (Cons c ds)
  have "word_of_nat n * 10 + ((of_char c :: u32) - 48) = word_of_nat (n * 10 + digit_value c)" using Cons.prems by simp
  then show ?case using Cons.IH [of "n * 10 + digit_value c"] Cons.prems by simp
qed

definition session_path :: "u32 \<Rightarrow> char list \<Rightarrow> char list" where
  "session_path i ext = ''/trace/session-'' @ emit_unsigned (ucast i) 10 @ ext"

lemma strncmp_prefix: "is_cstr p \<Longrightarrow> length p = n \<Longrightarrow> strncmp s p n = 0 \<longleftrightarrow> take n s = p"
  using strncmp_eq_0_iff_prefix [of p s] by auto

lemma session_path_parse:
  assumes "i \<noteq> 0" and "is_cstr ext" and "\<not> is_digit (cdref ext)"
  shows "parse_trace_session_id (session_path i ext) = Some i"
proof -
  let ?ds = "emit_unsigned (ucast i) 10"
  have u: "unat (ucast i :: u64) = unat i" using unsigned_less [of i, where 'a = nat] by (simp add: unsigned_ucast_eq take_bit_eq_mod)
  have r: "read_digits 10 0 ?ds = unat i" using read_emit_unsigned [of 10 "ucast i"] u by simp
  have "session_digits (word_of_nat 0) (?ds @ ext) = session_digits (word_of_nat (unat i)) ext"
    using session_digits_read [of ?ds 0 ext] emit_decimal [of _ "ucast i"] r by simp
  also have "\<dots> = i" using assms(3) by (cases ext) simp_all
  finally have d: "session_digits 0 (?ds @ ext) = i" by simp
  have p: "strncmp (session_path i ext) ''/trace/session-'' 15 = 0"
    by (subst strncmp_prefix) (simp_all add: session_path_def)
  have "drop 15 (session_path i ext) = ?ds @ ext" by (simp add: session_path_def)
  with p d assms(1) show ?thesis by (simp add: parse_trace_session_id_def)
qed

lemma session_path_kind:
  assumes "ext \<in> {''.bin'', ''.meta''}"
  shows "path_kind (Some (session_path i ext)) = (if ext = ''.bin'' then Node_Trace_Session else Node_Trace_Meta)"
proof -
  let ?ds = "emit_unsigned (ucast i) 10" and ?p = "session_path i ext"
  have cs: "is_cstr ?p" using assms emit_decimal_cstr(1) by (auto simp: session_path_def)
  have n: "strlen ?p = length ?p" "length ?p = 15 + length ?ds + length ext"
    using strlen_cstr [OF cs] by (simp_all add: session_path_def)
  have pos: "0 < length ?ds" using emit_decimal_cstr(2) by simp
  have pre: "take 15 ?p = ''/trace/session-''" by (simp add: session_path_def)
  have nc: "strncmp ?p ''/trace/session-'' 15 = 0"
    by (subst strncmp_prefix) (simp_all add: pre)
  have c: "c_str ?p = ?p" using cs by simp
  have ne: "strcmp ?p s \<noteq> 0" if "length (c_str s) \<le> 15" for s
  proof
    assume "strcmp ?p s = 0"
    then have "?p = c_str s" using c by (simp add: strcmp_eq_0_iff_c_str)
    then have "length ?p = length (c_str s)" by (rule arg_cong)
    with n(2) pos that show False by simp
  qed
  have nn: "strncmp ?p ''/net/'' 5 \<noteq> 0" "strncmp ?p ''/bin/'' 5 \<noteq> 0"
    by (subst strncmp_prefix; simp add: session_path_def)+
  have d: "drop (length ?p - m) ?p = e" if "?p = a @ e" "length e = m" for a e m using that by simp
  have "?p = (''/trace/session-'' @ ?ds) @ ext" by (simp add: session_path_def)
  note d1 = d [OF this]
  have "ext = ''.meta'' \<Longrightarrow> ?p = (''/trace/session-'' @ ?ds @ ''.'') @ ''meta''" by (simp add: session_path_def)
  note d2 = d [OF this]
  have tails: "drop (length ?p - 4) ?p = (if ext = ''.bin'' then ''.bin'' else ''meta'')" "ext = ''.meta'' \<Longrightarrow> drop (length ?p - 5) ?p = ''.meta''"
    using assms d1 [of 4] d1 [of 5] d2 [of 4] by auto
  have "cdref ?p \<noteq> NUL" by (simp add: session_path_def)
  then show ?thesis
    using nn ne [of "''/net''"] ne [of "''/proc/tasks''"] ne [of "''/proc/meminfo''"] ne [of "''/proc/aspace''"] ne [of "''/trace''"]
      ne [of "''/trace/''"] ne [of "''/trace/index''"] ne [of "''/bin''"] ne [of "''/bin/''"] ne [of "''/bin/index''"] nc n pos assms tails
    by (auto simp: path_kind_def Let_def strcmp_eq_0_iff_c_str)
qed

section \<open>Correctness\<close>

text \<open>Texts that always fit.\<close>

lemma pieces_text_Cons: "pieces_text (p # ps) = piece_text p @ pieces_text ps"
  by (simp add: pieces_text_def)

lemma bounded_texts:
  "length (pieces_text (render_proc_meminfo k)) < 1024" "length (pieces_text (render_trace_meta info)) < 1024"
proof -
  have d: "length (emit_unsigned v 10) \<le> 20" for v by (rule length_decimal)
  show "length (pieces_text (render_proc_meminfo k)) < 1024"
    using d [of "total_bytes (vm_mem (k_vm k))"] d [of "used_bytes (vm_mem (k_vm k))"]
      d [of "memory_free_bytes (vm_mem (k_vm k))"] d [of "page_faults (vm_mem (k_vm k))"]
    by (simp add: render_proc_meminfo_def pieces_text_def Let_def c_str_def)
  show "length (pieces_text (render_trace_meta info)) < 1024"
    using d [of "ucast (si_session_id info)"] d [of "ucast (si_size_bytes info)"] d [of "ucast (si_profile_id info)"]
      d [of "ucast (si_event_count info)"] d [of "si_duration_ticks info"]
    by (simp add: render_trace_meta_def pieces_text_def c_str_def)
qed


definition demo_locals :: vfs_locals where
  "demo_locals = \<lparr>loc_scratch = replicate 1024 NUL, loc_trace = replicate 1024 0, loc_meta = replicate 1024 NUL, loc_image = replicate 256 0\<rparr>"

lemma demo_open:
  "\<exists>i s'. vfs_open (Some ''/proc/meminfo'') VFS_O_RDONLY (vfs_init demo_system) = (Some i, s') \<and> vfs_inv s' \<and> i < 32 \<and>
     fd_map s' i = Some (''/proc/meminfo'', VFS_O_RDONLY, 0) \<and> fd_type (fd_table s' ! i) = Node_Proc_Meminfo"
proof -
  have k: "path_kind (Some ''/proc/meminfo'') = Node_Proc_Meminfo"
    by (simp add: path_kind_def strcmp_eq_0_iff_c_str c_str_def) (subst strncmp_prefix; simp)
  have inv: "vfs_inv (vfs_init demo_system)" by (rule init_inv_fds)
  obtain r s' where o: "vfs_open (Some ''/proc/meminfo'') VFS_O_RDONLY (vfs_init demo_system) = (r, s')" by fastforce
  have free: "fd_map (vfs_init demo_system) 0 = None" by (simp add: fd_map_def vfs_init_def fd_zero_def VFS_MAX_FDS_def)
  have n: "strlen ''/proc/meminfo'' = 13" by simp
  note c = open_cases [OF inv o, unfolded k option.sel n]
  have "r \<noteq> None"
  proof
    assume "r = None"
    with c have "\<forall>i < VFS_MAX_FDS. fd_map (vfs_init demo_system) i \<noteq> None" by simp
    with free show False by (simp add: VFS_MAX_FDS_def)
  qed
  then obtain i where i: "r = Some i" by auto
  have m: "vfs_inv s'" "i < 32" "fd_map s' i = Some (''/proc/meminfo'', VFS_O_RDONLY, 0)"
    using c i by (simp_all add: VFS_MAX_FDS_def c_str_def)
  then have u: "fd_used (fd_table s' ! i)" "c_str (fd_path (fd_table s' ! i)) = ''/proc/meminfo''" by (auto simp: fd_map_def split: if_splits)
  have "fd_type (fd_table s' ! i) = path_kind (Some (fd_path (fd_table s' ! i)))"
    using vfs_inv_nth [OF m(1), of i] m(2) u(1) by (simp add: fd_ok_def VFS_MAX_FDS_def)
  also have "\<dots> = Node_Proc_Meminfo" using k path_kind_c_str [of "fd_path (fd_table s' ! i)"] u(2) by simp
  finally show ?thesis using o i m by blast
qed


text \<open>C22: the descriptor table is the map of open files.  \<open>vfs_open\<close> of a valid path shorter than 64
  characters puts the path, the flags and position zero at the least free descriptor and returns
  it; otherwise, or when all 32 descriptors are taken, no file is opened.  \<open>vfs_close\<close> removes
  exactly the descriptor it is given and fails exactly when that is not open.\<close>

theorem vfs_descriptors_refine:
  assumes "vfs_inv s" and "vfs_open path flags s = (r, s1)" and "vfs_close fd s = (ok, s2)"
  shows "(case r of
       None \<Rightarrow> fd_map s1 = fd_map s \<and> (path_kind path = Node_Invalid \<or> 64 \<le> strlen (the path) \<or> (\<forall>i < VFS_MAX_FDS. fd_map s i \<noteq> None))
     | Some i \<Rightarrow> i < VFS_MAX_FDS \<and> fd_map s i = None \<and> (\<forall>j < i. fd_map s j \<noteq> None) \<and> path_kind path \<noteq> Node_Invalid \<and>
         fd_map s1 = (fd_map s)(i \<mapsto> (c_str (the path), flags, 0))) \<and>
    (ok \<longleftrightarrow> 0 \<le> fd \<and> fd_map s (nat fd) \<noteq> None) \<and> fd_map s2 = (if ok then (fd_map s)(nat fd := None) else fd_map s) \<and>
    sys_k s1 = sys_k s \<and> sys_k s2 = sys_k s"
  using open_cases [OF assms(1,2)] close_cases [OF assms(1,3)] by simp

theorem vfs_descriptors_refine_witness:
  "\<exists>(s :: unit system) r s1 ok s2. vfs_open (Some ''/net/tx'') VFS_O_WRONLY s = (r, s1) \<and> vfs_close 0 s = (ok, s2) \<and>
     fd_map s2 = (if ok then (fd_map s)(0 := None) else fd_map s)"
proof -
  let ?s = "vfs_init demo_system"
  obtain r s1 where 1: "vfs_open (Some ''/net/tx'') VFS_O_WRONLY ?s = (r, s1)" by fastforce
  obtain ok s2 where 2: "vfs_close 0 ?s = (ok, s2)" by fastforce
  have "vfs_inv ?s" by (rule init_inv_fds)
  from vfs_descriptors_refine [OF this 1 2] have "fd_map s2 = (if ok then (fd_map ?s)(0 := None) else fd_map ?s)" by simp
  with 1 2 show ?thesis by blast
qed

text \<open>The descriptor table is well typed.  After \<open>vfs_init\<close>, and after every open, read, write and
  close with any arguments, the table has 32 entries, every path is terminated within its 64
  characters, and the node type of every open descriptor is the type of its path and valid.\<close>

theorem vfs_table_typed:
  assumes "vfs_inv s"
  shows "vfs_inv (vfs_init s0) \<and> vfs_inv (snd (vfs_open path flags s)) \<and> vfs_inv (snd (vfs_read B loc fd n s)) \<and>
    vfs_inv (snd (vfs_write fd buf n s)) \<and> vfs_inv (snd (vfs_close fd s))"
  using ops_inv [OF assms] init_inv_fds by blast

theorem vfs_table_typed_witness: "vfs_inv (snd (vfs_open (Some ''/bin'') VFS_O_RDWR (vfs_init demo_system)))"
  using vfs_table_typed [OF init_inv_fds] by blast

text \<open>Session paths round trip.  The name the index prints for a session, behind \<open>/trace/\<close>, is
  recognised as that session's data, the same with the ending \<open>.meta\<close> as its metadata, and the
  number read from either is the session's id.\<close>

theorem trace_path_roundtrip:
  assumes "i \<noteq> 0"
  shows "path_kind (Some (session_path i ''.bin'')) = Node_Trace_Session \<and> parse_trace_session_id (session_path i ''.bin'') = Some i \<and>
    path_kind (Some (session_path i ''.meta'')) = Node_Trace_Meta \<and> parse_trace_session_id (session_path i ''.meta'') = Some i"
  using session_path_kind [of "''.bin''" i] session_path_kind [of "''.meta''" i]
    session_path_parse [OF assms, of "''.bin''"] session_path_parse [OF assms, of "''.meta''"] by (simp add: is_digit_def)

theorem trace_path_roundtrip_witness: "parse_trace_session_id (session_path 7 ''.bin'') = Some 7"
  using trace_path_roundtrip [of 7] by simp

end
