(* ===== verification/Tasks.thy ===== *)
theory Tasks
  imports Vfs
begin

text \<open>
  The code the tasks run and how it is interleaved: the workloads of \<open>kernel/workload.c\<close>, the
  programs of \<open>kernel/builtin_exec.c\<close> and the fork stub and waiting of \<open>kernel/syscall.c\<close>.
  A task is cut at its calls of \<open>sched_yield\<close>: a thread says where it goes on, \<open>block\<close> runs the
  code from there to the next such call, back edge or the end, and \<open>task_step\<close> runs one block of
  the current task and then the scheduler.  Threads are kept by task slot; a task that has not run yet
  starts at its entry point.
\<close>

section \<open>Definitions\<close>

subsection \<open>Threads\<close>

record ping_locals =
  pl_job :: nat
  pl_sent :: u64
  pl_received :: u64
  pl_start :: u64
  pl_seq :: u32
  pl_before :: netfs_stats
  pl_t :: u32

datatype thread =
    Life u64 u32
  | Attack u32
  | Sysload u64 u32
  | Fork_Stub u64 u32
  | Ping_Head ping_locals
  | Ping_Wait ping_locals
  | At_Entry task_entry u64

datatype after_block = Yield thread | Goto thread | Return

record 'd machine =
  m_sys :: "'d system"
  m_threads :: "nat \<Rightarrow> thread option"

definition upd_sys :: "('d system \<Rightarrow> 'd system) \<Rightarrow> 'd machine \<Rightarrow> 'd machine" where
  "upd_sys f m = m\<lparr>m_sys := f (m_sys m)\<rparr>"

abbreviation mk :: "'d machine \<Rightarrow> 'd kernel" where
  "mk m \<equiv> sys_k (m_sys m)"

subsection \<open>Workloads\<close>

definition WORKLOAD_PROFILE_ATTACK :: u32 where "WORKLOAD_PROFILE_ATTACK = 1"
definition WORKLOAD_PROFILE_SYSLOAD :: u32 where "WORKLOAD_PROFILE_SYSLOAD = 2"
definition WORKLOAD_PROFILE_LIFECYCLE :: u32 where "WORKLOAD_PROFILE_LIFECYCLE = 3"

definition cur_pid :: "'d kernel \<Rightarrow> fmt_arg" where
  "cur_pid k = Num (ucast (sched_current_pid k))"

definition workload_done :: "char list \<Rightarrow> fmt_arg list \<Rightarrow> 'd kernel \<Rightarrow> 'd kernel" where
  "workload_done fmt args k = (let k1 = say fmt args k in k1\<lparr>k_active_workloads := k_active_workloads k1 - 1\<rparr>)"

definition lifecycle_child :: "u64 \<Rightarrow> u32 \<Rightarrow> 'd kernel \<Rightarrow> after_block \<times> 'd kernel" where
  "lifecycle_child slot i k =
     (if i < 4 then (Yield (Life slot (i + 1)), trace_record TRACE_EVENT_WORKLOAD (sched_current_pid k) (0x5000 + slot) (ucast i) k)
      else (Return, workload_done (ln ''lifecycle child exit pid=%u slot=%lu'') [cur_pid k, Num slot] k))"

definition attack_task :: "u32 \<Rightarrow> 'd kernel \<Rightarrow> after_block \<times> 'd kernel" where
  "attack_task i k =
     (if i < 16 then (Yield (Attack (i + 1)),
        trace_record TRACE_EVENT_WORKLOAD (sched_current_pid k) (ucast (0x1000 + i)) (ucast (0x2000 + i * 4)) k)
      else (Return, workload_done (ln ''attack_sim task complete pid=%u'') [cur_pid k] k))"

definition sysload_task :: "u64 \<Rightarrow> u32 \<Rightarrow> 'd kernel \<Rightarrow> after_block \<times> 'd kernel" where
  "sysload_task slot i k =
     (if i < 32 then (Yield (Sysload slot (i + 1)),
        trace_record TRACE_EVENT_SCHED (sched_current_pid k) (slot * 1000 + ucast i) (used_bytes (vm_mem (k_vm k))) k)
      else (Return, workload_done (ln ''sysload worker done pid=%u slot=%lu'') [cur_pid k, Num slot] k))"

text \<open>A pid of -1 prints as the largest \<open>u32\<close>.\<close>

definition pid_arg :: "u32 option \<Rightarrow> fmt_arg" where
  "pid_arg r = Num (case r of None \<Rightarrow> 0xffffffff | Some pid \<Rightarrow> ucast pid)"

definition workload_spawn :: "char list \<Rightarrow> task_entry \<Rightarrow> u64 \<Rightarrow> char list \<Rightarrow> fmt_arg list \<Rightarrow> 'd kernel \<Rightarrow> 'd kernel" where
  "workload_spawn name entry arg fmt args k =
     (let k1 = k\<lparr>k_active_workloads := k_active_workloads k + 1\<rparr>;
          (pid, k2) = sched_spawn (Some name) entry arg k1
      in say fmt (pid_arg pid # args) k2)"

definition workload_attack_sim :: "'d kernel \<Rightarrow> 'd kernel" where
  "workload_attack_sim k = workload_spawn ''attack_sim'' Attack_Task 0 (ln ''attack_sim spawned pid=%u'') [] k"

definition workload_sysload :: "'d kernel \<Rightarrow> 'd kernel" where
  "workload_sysload k =
     fold (\<lambda>i. workload_spawn ''sysload'' Sysload_Task i (ln ''sysload spawned pid=%u worker=%lu'') [Num i]) [0, 1, 2] k"

definition workload_lifecycle_test :: "'d kernel \<Rightarrow> 'd kernel" where
  "workload_lifecycle_test k =
     fold (\<lambda>i. workload_spawn ''life-child'' Lifecycle_Child i (ln ''lifecycle child spawned pid=%u slot=%lu'') [Num i]) [0, 1, 2] k"

definition workload_run_profile :: "u32 \<Rightarrow> 'd kernel \<Rightarrow> bool \<times> 'd kernel" where
  "workload_run_profile profile_id k =
     (if profile_id = WORKLOAD_PROFILE_ATTACK then (True, workload_attack_sim k)
      else if profile_id = WORKLOAD_PROFILE_SYSLOAD then (True, workload_sysload k)
      else if profile_id = WORKLOAD_PROFILE_LIFECYCLE then (True, workload_lifecycle_test k)
      else (False, k))"

definition workload_has_active :: "'d kernel \<Rightarrow> bool" where
  "workload_has_active k \<longleftrightarrow> k_active_workloads k \<noteq> 0"

definition workload_profile_name :: "u32 \<Rightarrow> char list" where
  "workload_profile_name profile_id =
     (if profile_id = WORKLOAD_PROFILE_ATTACK then ''attack''
      else if profile_id = WORKLOAD_PROFILE_SYSLOAD then ''sysload''
      else if profile_id = WORKLOAD_PROFILE_LIFECYCLE then ''lifecycle''
      else ''none'')"

subsection \<open>Programs\<close>

text \<open>\<open>payload\<close> of \<open>ping_task\<close>, without the terminator.\<close>

definition ping_payload :: "char list \<Rightarrow> u32 \<Rightarrow> char list" where
  "ping_payload target seq =
     (let tlen0 = strlen target;
          tlen = (if 9 + tlen0 + 32 \<ge> 96 then 96 - 9 - 32 else tlen0);
          seqbuf = (if seq = 0 then ''0'' else rev (dec_loop 12 (ucast seq)))
      in ''icmp dst='' @ take tlen target @ '' seq='' @ seqbuf)"

definition upd_ping_job :: "nat \<Rightarrow> (ping_job \<Rightarrow> ping_job) \<Rightarrow> 'd system \<Rightarrow> 'd system" where
  "upd_ping_job i f s = s\<lparr>ping_jobs := (ping_jobs s)[i := f (ping_jobs s ! i)]\<rparr>"

definition upd_generic_job :: "nat \<Rightarrow> (generic_job \<Rightarrow> generic_job) \<Rightarrow> 'd system \<Rightarrow> 'd system" where
  "upd_generic_job i f s = s\<lparr>generic_jobs := (generic_jobs s)[i := f (generic_jobs s ! i)]\<rparr>"

text \<open>The head of the loop over \<open>seq\<close>, up to the waiting loop, and the code behind the loop.\<close>

definition ping_head :: "ping_locals \<Rightarrow> 'd system \<Rightarrow> after_block \<times> 'd system" where
  "ping_head p s =
     (let job = ping_jobs s ! pl_job p in
      if pl_seq p < pj_count job
      then
        (let before = netfs_get_stats (sys_k s);
             (ok, k) = netfs_write_path (Some ''/net/tx'') (Some (ping_payload (pj_target job) (pl_seq p))) (sys_k s);
             k' = (if ok then netfs_flush_tx k else k);
             sent = (if ok then pl_sent p + 1 else pl_sent p)
         in (Goto (Ping_Wait (p\<lparr>pl_before := before, pl_sent := sent, pl_t := 0\<rparr>)), s\<lparr>sys_k := k'\<rparr>))
      else
        (let loss = (if pl_sent p \<noteq> 0 then (pl_sent p - pl_received p) * 100 div pl_sent p else 0);
             s1 = upd_k (\<lambda>k. say (ln ''ping summary target=%s sent=%lu recv=%lu loss=%lu%% dur_ticks=%lu'')
               [Str (pj_target job), Num (pl_sent p), Num (pl_received p), Num loss, Num (pit_ticks k - pl_start p)] k) s
         in (Return, upd_ping_job (pl_job p) (\<lambda>j. j\<lparr>pj_used := False\<rparr>) s1)))"

text \<open>The waiting loop, one yield at a time, and the evaluation of the reply.\<close>

definition ping_wait :: "ping_locals \<Rightarrow> 'd system \<Rightarrow> after_block \<times> 'd system" where
  "ping_wait p s =
     (let job = ping_jobs s ! pl_job p in
      if pl_t p < pj_interval_ticks job then (Yield (Ping_Wait (p\<lparr>pl_t := pl_t p + 1\<rparr>)), s)
      else
        (let k = sys_k s; after = netfs_get_stats k; target = Str (pj_target job); seq = Num (ucast (pl_seq p)) in
         if ns_rx_packets after > ns_rx_packets (pl_before p)
         then
           (Goto (Ping_Head (p\<lparr>pl_received := pl_received p + 1, pl_seq := pl_seq p + 1\<rparr>)),
            s\<lparr>sys_k := (case netfs_peek_last_rx k of
                None \<Rightarrow> k
              | Some pkt \<Rightarrow> say (ln ''ping %s seq=%u reply id=%lu len=%u'')
                  [target, seq, Num (np_packet_id pkt), Num (ucast (np_len pkt))] k)\<rparr>)
         else
           (Goto (Ping_Head (p\<lparr>pl_seq := pl_seq p + 1\<rparr>)),
            s\<lparr>sys_k := say (ln ''ping %s seq=%u timeout'') [target, seq] k\<rparr>)))"

definition generic_done :: "u64 \<Rightarrow> 'd system \<Rightarrow> 'd system" where
  "generic_done arg s = (if arg = 0 then s else upd_generic_job (unat arg - 1) (\<lambda>j. j\<lparr>gj_used := False\<rparr>) s)"

text \<open>Each visible task is one line on the serial line and one on the console.\<close>

definition sched_dump :: "'d kernel \<Rightarrow> 'd kernel" where
  "sched_dump k =
     fold (\<lambda>t. say (ln ''pid=%u ppid=%u name=%s state=%s cpu_ticks=%lu yields=%lu events=%lu created=%lu exited=%lu'')
       [Num (ucast (t_pid t)), Num (ucast (t_parent_pid t)), Str (t_name t), Str (sched_state_name (t_state t)), Num (t_cpu_ticks t),
        Num (t_yields t), Num (t_event_count t), Num (t_created_ticks t), Num (t_exited_ticks t)])
       (filter task_visible (tasks (k_sched k))) k"

text \<open>The address of the demo routine and the routine that enters ring 3 are parameters.\<close>

record 'd ring3 =
  r3_enter :: "u64 \<Rightarrow> u64 \<Rightarrow> 'd system \<Rightarrow> 'd system"
  r3_demo_entry :: u64

definition usermode_run_demo_stack :: "'d ring3 \<Rightarrow> u64 \<Rightarrow> 'd system \<Rightarrow> bool \<times> 'd system" where
  "usermode_run_demo_stack R user_stack_top s = usermode_run_entry_stack (r3_enter R) (r3_demo_entry R) user_stack_top s"

definition ring3_task :: "'d ring3 \<Rightarrow> u64 \<Rightarrow> 'd system \<Rightarrow> 'd system" where
  "ring3_task R arg s =
     (let stack_top = (case aspace_get (sched_current_aspace (sys_k s)) (k_vm (sys_k s)) of None \<Rightarrow> 0 | Some i \<Rightarrow> ai_user_stack_top i);
          (rc, s1) = usermode_run_demo_stack R (if stack_top \<noteq> 0 then stack_top else 0x2c0000) s;
          a = (if arg = 0 then [] else gj_arg (generic_jobs s1 ! (unat arg - 1)))
      in generic_done arg (upd_k (say (ln ''ring3exec rc=%d arg=%s'') [Num (if rc then 0 else -1), Str a]) s1))"

definition ps_task :: "u64 \<Rightarrow> 'd system \<Rightarrow> 'd system" where
  "ps_task arg s = generic_done arg (upd_k sched_dump s)"

definition netstat_task :: "u64 \<Rightarrow> 'd system \<Rightarrow> 'd system" where
  "netstat_task arg s =
     generic_done arg (upd_k (\<lambda>k. let st = netfs_get_stats k in
       say (ln ''netstat tx=%lu/%luB rx=%lu/%luB drop=%lu q=%u loopback=%u last=%lu'')
         [Num (ns_tx_packets st), Num (ns_tx_bytes st), Num (ns_rx_packets st), Num (ns_rx_bytes st), Num (ns_dropped_packets st),
          Num (ucast (ns_queue_depth st)), Num (ucast (ns_loopback_enabled st)), Num (ns_last_packet_id st)] k) s)"

definition fork_stub_task :: "u64 \<Rightarrow> u32 \<Rightarrow> 'd kernel \<Rightarrow> after_block \<times> 'd kernel" where
  "fork_stub_task parent i k =
     (if i < 3 then (Yield (Fork_Stub parent (i + 1)),
        say (ln ''fork-child pid=%u ppid=%lu tick=%lu'') [cur_pid k, Num parent, Num (pit_ticks k)] k)
      else (Return, k))"

subsection \<open>Blocks\<close>

definition on_kernel :: "('d kernel \<Rightarrow> after_block \<times> 'd kernel) \<Rightarrow> 'd system \<Rightarrow> after_block \<times> 'd system" where
  "on_kernel f s = (let (a, k) = f (sys_k s) in (a, s\<lparr>sys_k := k\<rparr>))"

definition start_block :: "'d ring3 \<Rightarrow> task_entry \<Rightarrow> u64 \<Rightarrow> 'd system \<Rightarrow> after_block \<times> 'd system" where
  "start_block R entry arg s =
     (case entry of
        Lifecycle_Child \<Rightarrow> (Goto (Life arg 0), s)
      | Attack_Task \<Rightarrow> (Goto (Attack 0), s)
      | Sysload_Task \<Rightarrow> (Goto (Sysload arg 0), s)
      | Fork_Stub_Task \<Rightarrow> (Goto (Fork_Stub arg 0), s)
      | Ping_Task \<Rightarrow>
          (if arg = 0 then (Return, s)
           else (Goto (Ping_Head \<lparr>pl_job = unat arg - 1, pl_sent = 0, pl_received = 0, pl_start = pit_ticks (sys_k s),
                   pl_seq = 0, pl_before = netfs_stats_zero, pl_t = 0\<rparr>), s))
      | Ring3_Task \<Rightarrow> (Return, ring3_task R arg s)
      | Ps_Task \<Rightarrow> (Return, ps_task arg s)
      | Netstat_Task \<Rightarrow> (Return, netstat_task arg s)
      | Entry_None \<Rightarrow> (Return, s))"

fun block :: "'d ring3 \<Rightarrow> thread \<Rightarrow> 'd system \<Rightarrow> after_block \<times> 'd system" where
  "block R (Life slot i) s = on_kernel (lifecycle_child slot i) s"
| "block R (Attack i) s = on_kernel (attack_task i) s"
| "block R (Sysload slot i) s = on_kernel (sysload_task slot i) s"
| "block R (Fork_Stub parent i) s = on_kernel (fork_stub_task parent i) s"
| "block R (Ping_Head p) s = ping_head p s"
| "block R (Ping_Wait p) s = ping_wait p s"
| "block R (At_Entry entry arg) s = start_block R entry arg s"

subsection \<open>Interleaving\<close>

definition mtask :: "'d machine \<Rightarrow> nat \<Rightarrow> task" where
  "mtask m i = tasks (k_sched (mk m)) ! i"

definition thread_of :: "'d machine \<Rightarrow> nat \<Rightarrow> thread" where
  "thread_of m i = (case m_threads m i of None \<Rightarrow> At_Entry (t_entry (mtask m i)) (t_arg (mtask m i)) | Some th \<Rightarrow> th)"

definition set_kernel :: "'d kernel option \<Rightarrow> 'd machine \<Rightarrow> 'd machine option" where
  "set_kernel k m = map_option (\<lambda>k. upd_sys (\<lambda>s. s\<lparr>sys_k := k\<rparr>) m) k"

text \<open>One block of the current task; \<open>sched_task_bootstrap_entry\<close> calls \<open>task_exit\<close> when the entry returns.\<close>

definition task_step :: "'d ring3 \<Rightarrow> 'd machine \<Rightarrow> 'd machine option" where
  "task_step R m =
     (let i = current_task (k_sched (mk m));
          (a, s) = block R (thread_of m i) (m_sys m);
          m1 = m\<lparr>m_sys := s\<rparr>
      in case a of
           Goto th \<Rightarrow> Some (m1\<lparr>m_threads := (m_threads m)(i \<mapsto> th)\<rparr>)
         | Yield th \<Rightarrow> set_kernel (sched_yield (mk m1)) (m1\<lparr>m_threads := (m_threads m)(i \<mapsto> th)\<rparr>)
         | Return \<Rightarrow> set_kernel (task_exit (mk m1)) (m1\<lparr>m_threads := (m_threads m)(i := None)\<rparr>))"

text \<open>The shell is task 0.  A yield of the shell returns when the shell is current again; \<open>fuel\<close> bounds
  the blocks the other tasks run meanwhile.\<close>

fun run_others :: "'d ring3 \<Rightarrow> nat \<Rightarrow> 'd machine \<Rightarrow> 'd machine option" where
  "run_others R 0 m = (if current_task (k_sched (mk m)) = 0 then Some m else None)"
| "run_others R (Suc fuel) m =
     (if current_task (k_sched (mk m)) = 0 then Some m
      else (case task_step R m of None \<Rightarrow> None | Some m' \<Rightarrow> run_others R fuel m'))"

definition shell_yield :: "'d ring3 \<Rightarrow> nat \<Rightarrow> 'd machine \<Rightarrow> 'd machine option" where
  "shell_yield R fuel m = (case set_kernel (sched_yield (mk m)) m of None \<Rightarrow> None | Some m' \<Rightarrow> run_others R fuel m')"

fun wait_idle_loop :: "'d ring3 \<Rightarrow> nat \<Rightarrow> nat \<Rightarrow> 'd machine \<Rightarrow> (bool \<times> 'd machine) option" where
  "wait_idle_loop R fuel 0 m = Some (False, m)"
| "wait_idle_loop R fuel (Suc n) m =
     (if \<not> sched_has_ready (mk m) then Some (True, m)
      else (case shell_yield R fuel m of None \<Rightarrow> None | Some m' \<Rightarrow> wait_idle_loop R fuel n m'))"

definition wait_until_idle :: "'d ring3 \<Rightarrow> nat \<Rightarrow> 'd machine \<Rightarrow> (bool \<times> 'd machine) option" where
  "wait_until_idle R fuel m = wait_idle_loop R fuel 100001 m"

text \<open>\<open>run_workloads_until_idle\<close> of the shell; \<open>n\<close> bounds its rounds.\<close>

fun run_workloads_until_idle :: "'d ring3 \<Rightarrow> nat \<Rightarrow> nat \<Rightarrow> 'd machine \<Rightarrow> 'd machine option" where
  "run_workloads_until_idle R fuel 0 m = None"
| "run_workloads_until_idle R fuel (Suc n) m =
     (if workload_has_active (mk m) \<or> sched_has_ready (mk m)
      then (if rp_active (tr_replay (k_trace (mk m))) \<and> rp_failed (tr_replay (k_trace (mk m))) then Some m
            else (case shell_yield R fuel m of None \<Rightarrow> None | Some m' \<Rightarrow> run_workloads_until_idle R fuel n m'))
      else Some m)"

text \<open>\<open>sys_waitpid\<close>; the loop may run forever, so it has fuel of its own.\<close>

fun waitpid_loop :: "'d ring3 \<Rightarrow> nat \<Rightarrow> u32 \<Rightarrow> u32 \<Rightarrow> u64 \<Rightarrow> nat \<Rightarrow> 'd machine \<Rightarrow> (bool \<times> 'd machine) option" where
  "waitpid_loop R fuel pid timeout_ticks start 0 m = None"
| "waitpid_loop R fuel pid timeout_ticks start (Suc n) m =
     (case sched_task_state pid (mk m) of
        None \<Rightarrow> Some (False, m)
      | Some st \<Rightarrow>
          if st = Task_Zombie then Some (True, m)
          else if timeout_ticks \<noteq> 0 \<and> pit_ticks (mk m) - start \<ge> ucast timeout_ticks then Some (False, m)
          else (case shell_yield R fuel m of None \<Rightarrow> None | Some m' \<Rightarrow> waitpid_loop R fuel pid timeout_ticks start n m'))"

definition sys_waitpid :: "'d ring3 \<Rightarrow> nat \<Rightarrow> u32 \<Rightarrow> u32 \<Rightarrow> 'd machine \<Rightarrow> (bool \<times> 'd machine) option" where
  "sys_waitpid R fuel pid timeout_ticks m = waitpid_loop R fuel pid timeout_ticks (pit_ticks (mk m)) (Suc fuel) m"

definition sys_fork :: "'d kernel \<Rightarrow> u32 option \<times> 'd kernel" where
  "sys_fork k = sched_spawn_with_parent (Some ''fork-child'') Fork_Stub_Task (ucast (sched_current_pid k)) (sched_current_pid k) k"

section \<open>Code between scheduling points\<close>

named_theorems quiet_intros

text \<open>What identifies a task to the scheduler.\<close>

definition ident :: "task \<Rightarrow> bool \<times> task_run \<times> u32 \<times> u32 \<times> task_entry \<times> u64" where
  "ident t = (t_used t, t_state t, t_pid t, t_aspace_id t, t_entry t, t_arg t)"

definition sched_same :: "sched_state \<Rightarrow> sched_state \<Rightarrow> bool" where
  "sched_same s s' \<longleftrightarrow> length (tasks s') = length (tasks s) \<and> current_task s' = current_task s \<and> next_pid s' = next_pid s \<and>
     (\<forall>i < length (tasks s). ident (tasks s' ! i) = ident (tasks s ! i))"

text \<open>Code that leaves the file system and the frame of the recorder alone.\<close>

definition rec_same :: "'d kernel \<Rightarrow> 'd kernel \<Rightarrow> bool" where
  "rec_same k k' \<longleftrightarrow> k_fs k' = k_fs k \<and> recorder (k_trace k') = recorder (k_trace k) \<and>
     (trace_inv (k_trace k) \<longrightarrow> trace_inv (k_trace k'))"

lemma rec_same_refl [simp]: "rec_same k k"
  by (simp add: rec_same_def)

lemma rec_same_trans: "rec_same a b \<Longrightarrow> rec_same b c \<Longrightarrow> rec_same a c"
  by (simp add: rec_same_def)

lemma rec_same_trace_record: "rec_same k (trace_record ty pid a b k)"
proof -
  obtain tr c where t: "trace_step ty (if pid = 0 then sched_current_pid k else pid) (pit_ticks k) a b (k_trace k) = (tr, c)"
    by fastforce
  then have "k_trace (trace_record ty pid a b k) = tr"
    by (simp add: trace_record_def Let_def sched_set_current_event_count_def split: option.split)
  then show ?thesis using trace_step_recorder [OF t] by (simp add: rec_same_def)
qed

text \<open>Code that leaves scheduling, address spaces and the number of active workloads alone.\<close>

definition quiet :: "'d kernel \<Rightarrow> 'd kernel \<Rightarrow> bool" where
  "quiet k k' \<longleftrightarrow> same_spaces (k_vm k) (k_vm k') \<and> sched_same (k_sched k) (k_sched k') \<and>
     (\<not> rp_active (tr_replay (k_trace k)) \<longrightarrow> \<not> rp_active (tr_replay (k_trace k'))) \<and>
     k_active_workloads k' = k_active_workloads k \<and> rec_same k k'"

lemma still_refl [quiet_intros]: "quiet k k"
  by (simp add: quiet_def sched_same_def same_spaces_ops)

lemma still_trans: "quiet a b \<Longrightarrow> quiet b c \<Longrightarrow> quiet a c"
  by (auto simp: quiet_def sched_same_def intro: same_spaces_trans rec_same_trans)

lemma quiet_step:
  assumes "k_vm k' = k_vm k" and "k_sched k' = k_sched k" and "k_trace k' = k_trace k" and "k_active_workloads k' = k_active_workloads k"
    and "k_fs k' = k_fs k"
  shows "quiet k k'"
  using assms by (simp add: quiet_def sched_same_def same_spaces_ops rec_same_def)

lemma quiet_trace_record [quiet_intros]: "quiet k (trace_record ty pid a b k)"
proof -
  obtain n where n: "k_sched (trace_record ty pid a b k)
     = upd_task (current_task (k_sched k)) (\<lambda>t. t\<lparr>t_event_count := n\<rparr>) (k_sched k)" using trace_record_sched by blast
  have "sched_same (k_sched k) (k_sched (trace_record ty pid a b k))"
    unfolding n by (auto simp: sched_same_def ident_def nth_upd_task)
  moreover have "k_active_workloads (trace_record ty pid a b k) = k_active_workloads k"
    by (simp add: trace_record_def Let_def sched_set_current_event_count_def split: prod.split option.split)
  ultimately show ?thesis using trace_record_no_replay [of k] by (auto simp: quiet_def same_spaces_ops rec_same_trace_record)
qed

lemma quiet_updates [quiet_intros]:
  "quiet k (say fmt args k)" "quiet k (upd_net f k)" "quiet k (upd_nstats g k)" "quiet k (upd_pstats h k)"
  by (rule quiet_step; simp add: upd_net_def upd_nstats_def upd_pstats_def)+

lemma quiet_enqueue_rx [quiet_intros]: "quiet k (enqueue_rx_packet d l k)"
  unfolding enqueue_rx_packet_def Let_def
  by (rule still_trans [OF _ quiet_trace_record], rule still_trans [OF _ quiet_updates(3)], rule still_trans [OF _ quiet_updates(2)])
    (auto intro: still_trans [OF quiet_updates(2) quiet_updates(3)] still_refl)

lemma quiet_transmit [quiet_intros]: "quiet k (transmit_now d l k)"
proof -
  have "quiet k (trace_record TRACE_EVENT_NET 0 NET_EVENT_TX (ucast l) (upd_nstats f k))" for f
    by (rule still_trans [OF quiet_updates(3) quiet_trace_record])
  then show ?thesis by (auto simp: transmit_now_def Let_def intro: still_trans [OF _ quiet_enqueue_rx])
qed

lemma quiet_enqueue_tx: "enqueue_tx_packet d l k = (ok, k') \<Longrightarrow> quiet k k'"
proof -
  assume e: "enqueue_tx_packet d l k = (ok, k')"
  have "quiet k (upd_pstats h (upd_pstats g (upd_net f k)))" for f g h
    by (rule still_trans [OF quiet_updates(2) still_trans [OF quiet_updates(4) quiet_updates(4)]])
  with e show "quiet k k'"
    by (auto simp: enqueue_tx_packet_def Let_def power_note_net_enqueued_def power_set_pending_net_def intro: still_refl split: if_splits)
qed

lemma quiet_flush_loop: "flush_tx_loop c p b k = (r, k') \<Longrightarrow> quiet k k'"
proof (induction c arbitrary: p b k)
  case 0
  then show ?case by (simp add: still_refl)
next
  case (Suc c)
  let ?pkt = "tx_queue (k_net k) ! tx_head (k_net k)"
  let ?k1 = "upd_net (\<lambda>n. snd (tx_pop n)) (transmit_now (np_data ?pkt) (np_len ?pkt) k)"
  have "quiet ?k1 k'" using Suc.IH Suc.prems by (simp add: Let_def)
  moreover have "quiet k ?k1" by (rule still_trans [OF quiet_transmit quiet_updates(2)])
  ultimately show ?case by (rule still_trans [rotated])
qed

lemma quiet_flush [quiet_intros]: "quiet k (flush_tx_queue k)"
proof -
  obtain p b k1 where l: "flush_tx_loop (tx_count (k_net k)) 0 0 k = ((p, b), k1)" by (metis surj_pair)
  have nt: "quiet x (power_note_net_flushed p b x)" for x :: "'a kernel"
    by (auto simp: power_note_net_flushed_def Let_def intro: still_refl still_trans [OF quiet_updates(4) quiet_trace_record])
  have sp: "quiet x (power_set_pending_net a c x)" for x :: "'a kernel" and a c
    by (simp add: power_set_pending_net_def quiet_updates)
  show ?thesis
    unfolding flush_tx_queue_def l Let_def prod.case
    by (rule still_trans [OF quiet_flush_loop [OF l]], rule still_trans [OF _ nt], rule still_trans [OF quiet_updates(2) sp])
qed

lemma quiet_write_path: "netfs_write_path p d k = (ok, k') \<Longrightarrow> quiet k k'"
proof -
  assume w: "netfs_write_path p d k = (ok, k')"
  show "quiet k k'"
  proof (cases "\<exists>q e. p = Some q \<and> d = Some e")
    case False
    then have "k' = k" using w by (auto simp: netfs_write_path_def split: option.splits)
    then show ?thesis by (simp add: still_refl)
  next
    case True
    then obtain q e where pd: "p = Some q" "d = Some e" by blast
    let ?b = "string_bytes e" and ?l = "word_of_nat (strlen e) :: u32"
    obtain o1 k1 where 1: "enqueue_tx_packet ?b ?l k = (o1, k1)" by fastforce
    obtain o2 k2 where 2: "(if o1 then (True, k1) else enqueue_tx_packet ?b ?l (flush_tx_queue k1)) = (o2, k2)" by fastforce
    have q1: "quiet k k1" by (rule quiet_enqueue_tx [OF 1])
    have q2: "quiet k k2"
    proof (cases o1)
      case True
      with 2 q1 show ?thesis by simp
    next
      case False
      with 2 have "quiet (flush_tx_queue k1) k2" by (auto intro: quiet_enqueue_tx)
      from still_trans [OF q1 still_trans [OF quiet_flush this]] show ?thesis .
    qed
    have cfg: "quiet k (trace_record TRACE_EVENT_NET 0 NET_EVENT_CFG x (upd_nstats f k))" for x f
      by (rule still_trans [OF quiet_updates(3) quiet_trace_record])
    from w q2 show ?thesis unfolding pd netfs_write_path_def prod.case option.case Let_def 1 2
      by (auto split: if_splits intro: still_refl cfg quiet_enqueue_rx quiet_transmit q2 still_trans [OF q2 quiet_flush])
  qed
qed

lemma quiet_dump [quiet_intros]: "quiet k (sched_dump k)"
proof -
  have "quiet k (fold (\<lambda>t. say f (g t)) ts k)" for ts f g and k :: "'a kernel"
    by (induction ts arbitrary: k) (auto intro: still_refl still_trans [OF quiet_updates(1)])
  then show ?thesis by (simp add: sched_dump_def)
qed

section \<open>The scheduler keeps the tasks\<close>

definition program_of :: "task \<Rightarrow> u32 \<times> task_entry \<times> u64" where
  "program_of t = (t_pid t, t_entry t, t_arg t)"

lemma sched_same_D:
  assumes "sched_same s s'" and "i < length (tasks s)"
  shows "task_live (tasks s' ! i) = task_live (tasks s ! i)" "task_ready s' i = task_ready s i"
    "program_of (tasks s' ! i) = program_of (tasks s ! i)" "t_aspace_id (tasks s' ! i) = t_aspace_id (tasks s ! i)"
proof -
  have "ident (tasks s' ! i) = ident (tasks s ! i)" using assms by (simp add: sched_same_def)
  then show "task_live (tasks s' ! i) = task_live (tasks s ! i)" "task_ready s' i = task_ready s i"
    "program_of (tasks s' ! i) = program_of (tasks s ! i)" "t_aspace_id (tasks s' ! i) = t_aspace_id (tasks s ! i)"
    by (simp_all add: ident_def task_live_def task_ready_def task_visible_def program_of_def)
qed

lemma sched_same_inv:
  assumes "sched_same s s'" and "sched_inv s"
  shows "sched_inv s'"
proof -
  have len: "length (tasks s) = MAX_TASKS" "length (tasks s') = MAX_TASKS" "current_task s' = current_task s" "next_pid s' = next_pid s"
    using assms by (simp_all add: sched_inv_def sched_same_def)
  have i: "ident (tasks s' ! i) = ident (tasks s ! i)" if "i < MAX_TASKS" for i using assms(1) len that by (simp add: sched_same_def)
  have e: "task_visible (tasks s' ! i) = task_visible (tasks s ! i)" "t_state (tasks s' ! i) = t_state (tasks s ! i)"
    "t_pid (tasks s' ! i) = t_pid (tasks s ! i)" if "i < MAX_TASKS" for i
    using i [OF that] by (simp_all add: ident_def task_visible_def)
  have "current_task s < MAX_TASKS" using assms(2) by (simp add: sched_inv_def)
  then show ?thesis using assms(2) unfolding sched_inv_def len by (simp add: e)
qed

lemma quiet_ok:
  assumes q: "quiet k k'" and inv: "sched_inv (k_sched k)" and acc: "accounted ext k"
  shows "sched_inv (k_sched k')" "accounted ext k'"
proof -
  have ss: "sched_same (k_sched k) (k_sched k')" and sp: "same_spaces (k_vm k) (k_vm k')" using q by (simp_all add: quiet_def)
  show "sched_inv (k_sched k')" by (rule sched_same_inv [OF ss inv])
  have lv: "live (k_sched k') a = live (k_sched k) a" for a
    using ss sched_same_D [OF ss] by (intro live_same) (simp_all add: sched_same_def)
  show "accounted ext k'"
  proof (rule accountedI)
    show "aspace_inv (k_vm k')" using sp accountedD(1) [OF acc] by (simp add: same_spaces_def)
    have r: "refs (k_vm k') a = refs (k_vm k) a" for a using sp by (simp add: same_spaces_def refs_def)
    show "refs (k_vm k') a = live (k_sched k') a + ext a" for a using accountedD(2) [OF acc, of a] r lv by simp
    show "0 < refs (k_vm k') a" if "aspace_map (k_vm k') a \<noteq> None" "a \<noteq> kernel_aspace_id (k_vm k')" for a
      using accountedD(3) [OF acc, of a] that r sp by (simp add: same_spaces_def)
  qed
qed

lemma live_iff:
  assumes "sched_inv s" and "i < MAX_TASKS"
  shows "task_live (tasks s ! i) \<longleftrightarrow> task_ready s i \<or> i = current_task s"
proof -
  have "t_state (tasks s ! i) = Task_Running \<longleftrightarrow> i = current_task s" "task_visible (tasks s ! current_task s)"
    using assms by (simp_all add: sched_inv_def)
  then show ?thesis by (cases "t_state (tasks s ! i)") (auto simp: task_live_def task_ready_def task_visible_def)
qed

lemma switch_program:
  assumes "n < MAX_TASKS" and "n \<noteq> current_task (k_sched k)" and "switch_to (int n) k = Some k'" and "i < length (tasks (k_sched k))"
  shows "program_of (tasks (k_sched k') ! i) = program_of (tasks (k_sched k) ! i)"
    "i \<noteq> n \<Longrightarrow> i \<noteq> current_task (k_sched k) \<Longrightarrow> t_state (tasks (k_sched k') ! i) = t_state (tasks (k_sched k) ! i)"
    "t_used (tasks (k_sched k') ! i) = t_used (tasks (k_sched k) ! i)" "length (tasks (k_sched k')) = length (tasks (k_sched k))"
    "k_active_workloads k' = k_active_workloads k" "\<not> rp_active (tr_replay (k_trace k)) \<Longrightarrow> \<not> rp_active (tr_replay (k_trace k'))"
proof -
  let ?k1 = "k\<lparr>k_sched := switch_tasks n (k_sched k),
       k_vm := snd (aspace_switch (t_aspace_id (tasks (switch_tasks n (k_sched k)) ! n)) (k_vm k))\<rparr>"
  have "quiet ?k1 k'" using assms(3) switch_to_eq [OF assms(1,2)] quiet_trace_record by auto
  then have ss: "sched_same (switch_tasks n (k_sched k)) (k_sched k')" and ac: "k_active_workloads k' = k_active_workloads k"
    and rp: "\<not> rp_active (tr_replay (k_trace k)) \<Longrightarrow> \<not> rp_active (tr_replay (k_trace k'))"
    by (simp_all add: quiet_def)
  have len: "length (tasks (switch_tasks n (k_sched k))) = length (tasks (k_sched k))" by (simp add: switch_tasks_def Let_def)
  have id: "ident (tasks (k_sched k') ! i) = ident (tasks (switch_tasks n (k_sched k)) ! i)" using ss assms(4) len by (simp add: sched_same_def)
  note nth = switch_tasks_nth [OF assms(4), of n]
  show "program_of (tasks (k_sched k') ! i) = program_of (tasks (k_sched k) ! i)"
    "i \<noteq> n \<Longrightarrow> i \<noteq> current_task (k_sched k) \<Longrightarrow> t_state (tasks (k_sched k') ! i) = t_state (tasks (k_sched k) ! i)"
    "t_used (tasks (k_sched k') ! i) = t_used (tasks (k_sched k) ! i)" "length (tasks (k_sched k')) = length (tasks (k_sched k))"
    "k_active_workloads k' = k_active_workloads k" "\<not> rp_active (tr_replay (k_trace k)) \<Longrightarrow> \<not> rp_active (tr_replay (k_trace k'))"
    using id nth ss ac len rp by (simp_all add: ident_def program_of_def sched_same_def)
qed

lemma yield_program:
  assumes inv: "sched_inv (k_sched k)" and rp: "\<not> rp_active (tr_replay (k_trace k))" and y: "sched_yield k = Some k'" and i: "i < MAX_TASKS"
  shows "program_of (tasks (k_sched k') ! i) = program_of (tasks (k_sched k) ! i)"
    "task_live (tasks (k_sched k') ! i) = task_live (tasks (k_sched k) ! i)" "k_active_workloads k' = k_active_workloads k"
proof -
  let ?s = "k_sched k"
  define k1 where "k1 = k\<lparr>k_sched := upd_task (current_task ?s) (\<lambda>t. t\<lparr>t_yields := t_yields t + 1\<rparr>) ?s\<rparr>"
  have len: "length (tasks ?s) = MAX_TASKS" "current_task ?s < MAX_TASKS" using inv by (simp_all add: sched_inv_def)
  have p1: "program_of (tasks (k_sched k1) ! i) = program_of (tasks ?s ! i)" "k_active_workloads k1 = k_active_workloads k"
    "length (tasks (k_sched k1)) = MAX_TASKS" "current_task (k_sched k1) = current_task ?s"
    using len i by (simp_all add: k1_def nth_upd_task program_of_def)
  obtain k2 where st: "sched_yield k = Some k2" "sched_inv (k_sched k2)"
    "current_task (k_sched k2) = (case find_next_ready ?s of None \<Rightarrow> current_task ?s | Some n \<Rightarrow> n)"
    "\<forall>i < MAX_TASKS. task_ready (k_sched k2) i \<longleftrightarrow> i \<noteq> current_task (k_sched k2) \<and> (task_ready ?s i \<or> i = current_task ?s)"
    using yield_step [OF inv rp] by blast
  have k2: "k2 = k'" using st(1) y by simp
  have fn: "find_next_ready ?s = Some n \<Longrightarrow> n < MAX_TASKS \<and> task_ready ?s n \<and> n \<noteq> current_task ?s" for n
    using find_next_ready_Some [OF len(2)] inv by (auto simp: sched_inv_def task_ready_def)
  show "task_live (tasks (k_sched k') ! i) = task_live (tasks ?s ! i)"
    using live_iff [OF inv i] live_iff [OF st(2) i] st(3,4) i fn unfolding k2 by (cases "find_next_ready ?s") auto
  have e: "program_of (tasks (k_sched k') ! i) = program_of (tasks (k_sched k1) ! i) \<and> k_active_workloads k' = k_active_workloads k1"
  proof (cases "find_next_ready ?s")
    case None
    then have "k' = k1\<lparr>k_sched := (k_sched k1)\<lparr>resched_pending := False\<rparr>\<rparr>"
      using y rp by (simp add: sched_yield_def Let_def next_task_def k1_def bookkeeping_sched)
    then show ?thesis by simp
  next
    case (Some n)
    then have "switch_to (int n) k1 = Some k'"
      using y rp by (simp add: sched_yield_def Let_def next_task_def k1_def bookkeeping_sched)
    from switch_program [OF _ _ this] fn [OF Some] p1 i show ?thesis by simp
  qed
  show "program_of (tasks (k_sched k') ! i) = program_of (tasks ?s ! i)" "k_active_workloads k' = k_active_workloads k"
    using e p1 by simp_all
qed

lemma exit_program:
  assumes inv: "sched_inv (k_sched k)" and acc: "accounted ext k" and r: "j < MAX_TASKS" "task_ready (k_sched k) j"
    and x: "task_exit k = Some k'" and i: "i < MAX_TASKS"
  shows "program_of (tasks (k_sched k') ! i) = program_of (tasks (k_sched k) ! i)"
    "task_live (tasks (k_sched k') ! i) \<longleftrightarrow> i \<noteq> current_task (k_sched k) \<and> task_live (tasks (k_sched k) ! i)"
    "k_active_workloads k' = k_active_workloads k" "\<not> rp_active (tr_replay (k_trace k)) \<Longrightarrow> \<not> rp_active (tr_replay (k_trace k'))"
proof -
  let ?s = "k_sched k" and ?c = "current_task (k_sched k)"
  let ?z = "upd_task ?c zombify ?s"
  have len: "length (tasks ?s) = MAX_TASKS" "?c < MAX_TASKS" using inv by (simp_all add: sched_inv_def)
  obtain k2 where st: "task_exit k = Some k2" "sched_inv (k_sched k2)" "find_next_ready ?s = Some (current_task (k_sched k2))"
    "t_state (tasks (k_sched k2) ! ?c) = Task_Zombie" using exit_step [OF inv acc r] by blast
  have k2: "k2 = k'" using st(1) x by simp
  let ?n = "current_task (k_sched k')"
  have n: "?n < MAX_TASKS" "task_ready ?s ?n" "?n \<noteq> ?c"
    using st(3) find_next_ready_Some [OF len(2)] inv unfolding k2 by (auto simp: sched_inv_def task_ready_def)
  have fz: "find_next_ready ?z = find_next_ready ?s"
    using find_next_ready_Some [of ?z "?n"] find_next_ready_Some [of ?s "?n"] len ready_zombify [OF inv] st(3) unfolding k2 by auto
  let ?k1 = "k\<lparr>k_vm := snd (aspace_release (t_aspace_id (tasks ?s ! ?c)) (k_vm k)), k_sched := ?z\<rparr>"
  have sw: "switch_to (int ?n) ?k1 = Some k'"
    using x fz st(3) unfolding k2 by (simp add: task_exit_def Let_def zombify_def [abs_def])
  have zl: "i < length (tasks (k_sched ?k1))" "?n \<noteq> current_task (k_sched ?k1)" using len i n by simp_all
  note sp = switch_program [OF n(1) zl(2) sw zl(1)]
  have zi: "program_of (tasks ?z ! i) = program_of (tasks ?s ! i)" "i \<noteq> ?c \<Longrightarrow> tasks ?z ! i = tasks ?s ! i"
    using len i by (simp_all add: nth_upd_task zombify_def program_of_def)
  show "program_of (tasks (k_sched k') ! i) = program_of (tasks ?s ! i)" "k_active_workloads k' = k_active_workloads k"
    using sp zi by simp_all
  show "\<not> rp_active (tr_replay (k_trace k)) \<Longrightarrow> \<not> rp_active (tr_replay (k_trace k'))"
    using sp(6) by simp
  show "task_live (tasks (k_sched k') ! i) \<longleftrightarrow> i \<noteq> ?c \<and> task_live (tasks ?s ! i)"
  proof -
    consider "i = ?c" | "i = ?n" "i \<noteq> ?c" | "i \<noteq> ?c" "i \<noteq> ?n" by blast
    then show ?thesis
    proof cases
      case 1
      then show ?thesis using st(4) unfolding k2 by (simp add: task_live_def)
    next
      case 2
      then show ?thesis using live_iff [OF st(2) [unfolded k2] i] live_iff [OF inv i] n by simp
    next
      case 3
      then have "t_state (tasks (k_sched k') ! i) = t_state (tasks ?s ! i)" "t_used (tasks (k_sched k') ! i) = t_used (tasks ?s ! i)"
        using sp zi by simp_all
      then show ?thesis using 3 sp(1) zi(1) by (auto simp: task_live_def task_visible_def program_of_def)
    qed
  qed
qed

section \<open>Every block makes progress\<close>

text \<open>The number of blocks a thread still runs.\<close>

definition ping_round :: "ping_job \<Rightarrow> nat" where
  "ping_round j = unat (pj_interval_ticks j) + 2"

fun left :: "ping_job list \<Rightarrow> thread \<Rightarrow> nat" where
  "left jobs (Life slot i) = (4 - unat i) + 1"
| "left jobs (Attack i) = (16 - unat i) + 1"
| "left jobs (Sysload slot i) = (32 - unat i) + 1"
| "left jobs (Fork_Stub parent i) = (3 - unat i) + 1"
| "left jobs (Ping_Head p) = (let j = jobs ! pl_job p in (unat (pj_count j) - unat (pl_seq p)) * ping_round j + 1)"
| "left jobs (Ping_Wait p) = (let j = jobs ! pl_job p in
     (unat (pj_count j) - unat (pl_seq p) - 1) * ping_round j + (unat (pj_interval_ticks j) - unat (pl_t p)) + 2)"
| "left jobs (At_Entry e arg) =
     (case e of Lifecycle_Child \<Rightarrow> 6 | Attack_Task \<Rightarrow> 18 | Sysload_Task \<Rightarrow> 34 | Fork_Stub_Task \<Rightarrow> 5
      | Ping_Task \<Rightarrow> (let j = jobs ! (unat arg - 1) in unat (pj_count j) * ping_round j + 2)
      | _ \<Rightarrow> 1)"

fun thread_ok :: "ping_job list \<Rightarrow> thread \<Rightarrow> bool" where
  "thread_ok jobs (Ping_Head p) \<longleftrightarrow> pl_job p < length jobs"
| "thread_ok jobs (Ping_Wait p) \<longleftrightarrow> pl_job p < length jobs \<and> pl_seq p < pj_count (jobs ! pl_job p)"
| "thread_ok jobs (At_Entry Ping_Task arg) \<longleftrightarrow> unat arg - 1 < length jobs"
| "thread_ok jobs _ \<longleftrightarrow> True"

fun is_workload :: "thread \<Rightarrow> bool" where
  "is_workload (Life _ _) = True"
| "is_workload (Attack _) = True"
| "is_workload (Sysload _ _) = True"
| "is_workload (At_Entry e _) = (e \<in> {Lifecycle_Child, Attack_Task, Sysload_Task})"
| "is_workload _ = False"

definition jobs_same :: "ping_job list \<Rightarrow> ping_job list \<Rightarrow> bool" where
  "jobs_same jobs jobs' \<longleftrightarrow> length jobs' = length jobs \<and>
     (\<forall>i < length jobs. pj_count (jobs' ! i) = pj_count (jobs ! i) \<and> pj_interval_ticks (jobs' ! i) = pj_interval_ticks (jobs ! i))"

lemma jobs_same_thread:
  assumes "jobs_same jobs jobs'" and "thread_ok jobs th"
  shows "thread_ok jobs' th" "left jobs' th = left jobs th"
proof -
  have j: "pj_count (jobs' ! i) = pj_count (jobs ! i)" "pj_interval_ticks (jobs' ! i) = pj_interval_ticks (jobs ! i)"
    "ping_round (jobs' ! i) = ping_round (jobs ! i)" if "i < length jobs" for i
    using assms(1) that by (simp_all add: jobs_same_def ping_round_def)
  have l: "length jobs' = length jobs" using assms(1) by (simp add: jobs_same_def)
  show "thread_ok jobs' th" using assms(2) j l by (cases "(jobs, th)" rule: thread_ok.cases) auto
  show "left jobs' th = left jobs th"
    using assms(2) j by (cases "(jobs, th)" rule: thread_ok.cases) (simp_all add: Let_def)
qed

lemma jobs_same_refl [simp]: "jobs_same jobs jobs"
  by (simp add: jobs_same_def)

lemma jobs_same_used: "jobs_same jobs (jobs[i := (jobs ! i)\<lparr>pj_used := b\<rparr>])"
  by (cases "i < length jobs") (auto simp: jobs_same_def nth_list_update list_update_beyond)

text \<open>The documented behaviour of ring 3 code: it only prints.\<close>

definition ring3_quiet :: "'d ring3 \<Rightarrow> bool" where
  "ring3_quiet R \<longleftrightarrow> (\<forall>e t s. quiet (sys_k s) (sys_k (r3_enter R e t s)) \<and> ping_jobs (r3_enter R e t s) = ping_jobs s)"

definition next_ok :: "thread \<Rightarrow> ping_job list \<Rightarrow> after_block \<Rightarrow> bool" where
  "next_ok th jobs a \<longleftrightarrow> (case a of Return \<Rightarrow> True
     | Yield th' \<Rightarrow> thread_ok jobs th' \<and> left jobs th' < left jobs th \<and> is_workload th' = is_workload th
     | Goto th' \<Rightarrow> thread_ok jobs th' \<and> left jobs th' < left jobs th \<and> is_workload th' = is_workload th)"

definition block_spec :: "thread \<Rightarrow> 'd system \<Rightarrow> after_block \<times> 'd system \<Rightarrow> bool" where
  "block_spec th s r \<longleftrightarrow> (\<exists>k1. quiet (sys_k s) k1 \<and>
     sys_k (snd r) = k1\<lparr>k_active_workloads := k_active_workloads k1 - (if fst r = Return \<and> is_workload th then 1 else 0)\<rparr>) \<and>
     jobs_same (ping_jobs s) (ping_jobs (snd r)) \<and> next_ok th (ping_jobs s) (fst r)"

lemma block_specI:
  assumes "quiet (sys_k s) (sys_k s')" and "jobs_same (ping_jobs s) (ping_jobs s')" and "next_ok th (ping_jobs s) a"
    and "a = Return \<Longrightarrow> \<not> is_workload th"
  shows "block_spec th s (a, s')"
  unfolding block_spec_def using assms by (intro conjI exI [of _ "sys_k s'"]) auto

lemma suc_lt: "i < n \<Longrightarrow> unat (i + 1 :: u32) = unat i + 1" for i n :: u32
proof -
  assume "i < n"
  then have "unat i < unat n" by (simp add: word_less_nat_alt)
  moreover have "unat n < 2 ^ 32" using unsigned_less [of n, where 'a = nat] by simp
  ultimately show ?thesis by (subst unat_add_no_wrap) simp_all
qed

lemma workload_done_spec:
  assumes "is_workload th"
  shows "block_spec th s (Return, s\<lparr>sys_k := workload_done fmt args (sys_k s)\<rparr>)"
  unfolding block_spec_def using assms
  by (intro conjI exI [of _ "say fmt args (sys_k s)"]) (simp_all add: workload_done_def Let_def quiet_updates next_ok_def)

lemma counted_block:
  fixes i n :: u32
  assumes "i < n" and "\<And>j. left (ping_jobs s) (th j) = (unat n - unat j) + 1" and "\<And>j. thread_ok (ping_jobs s) (th j)"
    and "\<And>j. is_workload (th j) = w" and "quiet (sys_k s) k"
  shows "block_spec (th i) s (Yield (th (i + 1)), s\<lparr>sys_k := k\<rparr>)"
proof (rule block_specI)
  have "unat i < unat n" using assms(1) by (simp add: word_less_nat_alt)
  then show "next_ok (th i) (ping_jobs s) (Yield (th (i + 1)))"
    using assms(2-4) suc_lt [OF assms(1)] by (simp add: next_ok_def)
qed (use assms in simp_all)

lemma round_lt: "0 < c \<Longrightarrow> r = iv + 2 \<Longrightarrow> (c - 1) * r + iv + 2 < c * r + (1 :: nat)"
  by (cases c) auto

lemma ping_head_spec:
  assumes "thread_ok (ping_jobs s) (Ping_Head p)"
  shows "block_spec (Ping_Head p) s (ping_head p s)"
proof -
  let ?j = "ping_jobs s ! pl_job p"
  show ?thesis
  proof (cases "pl_seq p < pj_count ?j")
    case True
    obtain ok k where w: "netfs_write_path (Some ''/net/tx'') (Some (ping_payload (pj_target ?j) (pl_seq p))) (sys_k s) = (ok, k)" by fastforce
    have q: "quiet (sys_k s) (if ok then netfs_flush_tx k else k)"
      using quiet_write_path [OF w] by (auto simp: netfs_flush_tx_def intro: still_trans [OF _ quiet_flush])
    have lt: "unat (pl_seq p) < unat (pj_count ?j)" using True by (simp add: word_less_nat_alt)
    let ?c = "unat (pj_count ?j) - unat (pl_seq p)"
    have "(?c - 1) * ping_round ?j + (unat (pj_interval_ticks ?j) - 0) + 2 < ?c * ping_round ?j + 1"
      using round_lt [of ?c "ping_round ?j" "unat (pj_interval_ticks ?j)"] lt by (simp add: ping_round_def)
    then show ?thesis
      using True assms q w unfolding ping_head_def Let_def
      by (auto intro!: block_specI simp: next_ok_def Let_def)
  next
    case False
    then show ?thesis
      unfolding ping_head_def Let_def
      by (auto intro!: block_specI simp: next_ok_def upd_ping_job_def jobs_same_used quiet_updates)
  qed
qed

lemma ping_wait_spec:
  assumes "thread_ok (ping_jobs s) (Ping_Wait p)"
  shows "block_spec (Ping_Wait p) s (ping_wait p s)"
proof -
  let ?j = "ping_jobs s ! pl_job p"
  have ok: "pl_job p < length (ping_jobs s)" "pl_seq p < pj_count ?j" using assms by simp_all
  have seq: "unat (pl_seq p + 1) = unat (pl_seq p) + 1" by (rule suc_lt [OF ok(2)])
  show ?thesis
  proof (cases "pl_t p < pj_interval_ticks ?j")
    case True
    have t: "unat (pl_t p + 1) = unat (pl_t p) + 1" "unat (pl_t p) < unat (pj_interval_ticks ?j)"
      using suc_lt [OF True] True by (simp_all add: word_less_nat_alt)
    then show ?thesis using True ok unfolding ping_wait_def Let_def
      by (auto intro!: block_specI still_refl simp: next_ok_def Let_def)
  next
    case False
    have d: "unat (pj_count ?j) - (unat (pl_seq p) + 1) = unat (pj_count ?j) - unat (pl_seq p) - 1" by simp
    have nx: "next_ok (Ping_Wait p) (ping_jobs s) (Goto (Ping_Head (p\<lparr>pl_seq := pl_seq p + 1\<rparr>)))"
      "next_ok (Ping_Wait p) (ping_jobs s) (Goto (Ping_Head (p\<lparr>pl_received := pl_received p + 1, pl_seq := pl_seq p + 1\<rparr>)))"
      using ok by (simp_all add: next_ok_def Let_def seq d)
    show ?thesis using False nx unfolding ping_wait_def Let_def
      by (auto intro!: block_specI simp: quiet_updates still_refl split: option.split)
  qed
qed

lemma generic_done_frame [simp]: "sys_k (generic_done arg s) = sys_k s" "ping_jobs (generic_done arg s) = ping_jobs s"
  by (simp_all add: generic_done_def upd_generic_job_def)

lemma ring3_task_quiet:
  assumes "ring3_quiet R"
  shows "quiet (sys_k s) (sys_k (ring3_task R arg s))" "ping_jobs (ring3_task R arg s) = ping_jobs s"
proof -
  obtain st where "\<exists>rc s1 a. usermode_run_demo_stack R st s = (rc, s1) \<and>
     ring3_task R arg s = generic_done arg (upd_k (say (ln ''ring3exec rc=%d arg=%s'') [Num (if rc then 0 else -1), Str a]) s1)"
    unfolding ring3_task_def Let_def by (metis (no_types, lifting) case_prod_unfold surjective_pairing)
  then obtain rc s1 a where u: "usermode_run_demo_stack R st s = (rc, s1)"
    "ring3_task R arg s = generic_done arg (upd_k (say (ln ''ring3exec rc=%d arg=%s'') [Num (if rc then 0 else -1), Str a]) s1)" by blast
  have e: "quiet (sys_k s) (sys_k (r3_enter R (r3_demo_entry R) st (s\<lparr>um_active := True\<rparr>)))"
    "ping_jobs (r3_enter R (r3_demo_entry R) st (s\<lparr>um_active := True\<rparr>)) = ping_jobs s"
    using assms [unfolded ring3_quiet_def, rule_format, of "s\<lparr>um_active := True\<rparr>" "r3_demo_entry R" st] by simp_all
  have q: "quiet (sys_k s) (sys_k s1) \<and> ping_jobs s1 = ping_jobs s"
    using u(1) e still_trans [OF e(1) quiet_updates(1)]
    by (auto simp: usermode_run_demo_stack_def usermode_run_entry_stack_def Let_def still_refl split: if_splits)
  then show "quiet (sys_k s) (sys_k (ring3_task R arg s))" "ping_jobs (ring3_task R arg s) = ping_jobs s"
    using still_trans [OF _ quiet_updates(1)] by (auto simp: u(2))
qed

lemma start_spec:
  assumes R: "ring3_quiet R" and ok: "thread_ok (ping_jobs s) (At_Entry e arg)"
  shows "block_spec (At_Entry e arg) s (start_block R e arg s)"
proof (cases e)
  case Ping_Task
  then show ?thesis using ok unfolding start_block_def
    by (auto intro!: block_specI still_refl simp: next_ok_def Let_def)
next
  case Ring3_Task
  then show ?thesis unfolding start_block_def
    by (auto intro!: block_specI ring3_task_quiet [OF R] simp: next_ok_def ring3_task_quiet(2) [OF R])
next
  case Ps_Task
  then show ?thesis unfolding start_block_def by (auto intro!: block_specI quiet_dump simp: next_ok_def ps_task_def)
next
  case Netstat_Task
  then show ?thesis unfolding start_block_def
    by (auto intro!: block_specI quiet_updates(1) simp: next_ok_def netstat_task_def Let_def)
qed (auto intro!: block_specI still_refl simp: next_ok_def start_block_def)

lemma block_ok:
  assumes R: "ring3_quiet R" and ok: "thread_ok (ping_jobs s) th"
  shows "block_spec th s (block R th s)"
proof (cases th)
  case (Life slot i)
  have d: "block_spec (Life slot i) s (Return, s\<lparr>sys_k := workload_done f a (sys_k s)\<rparr>)" for f a by (rule workload_done_spec) simp
  have c: "i < 4 \<Longrightarrow> quiet (sys_k s) k \<Longrightarrow> block_spec (Life slot i) s (Yield (Life slot (i + 1)), s\<lparr>sys_k := k\<rparr>)" for k
    by (rule counted_block [where n = 4 and th = "Life slot"]) simp_all
  show ?thesis unfolding Life using d c by (auto simp: on_kernel_def lifecycle_child_def quiet_trace_record)
next
  case (Attack i)
  have d: "block_spec (Attack i) s (Return, s\<lparr>sys_k := workload_done f a (sys_k s)\<rparr>)" for f a by (rule workload_done_spec) simp
  have c: "i < 16 \<Longrightarrow> quiet (sys_k s) k \<Longrightarrow> block_spec (Attack i) s (Yield (Attack (i + 1)), s\<lparr>sys_k := k\<rparr>)" for k
    by (rule counted_block [where n = 16 and th = Attack]) simp_all
  show ?thesis unfolding Attack using d c by (auto simp: on_kernel_def attack_task_def quiet_trace_record)
next
  case (Sysload slot i)
  have d: "block_spec (Sysload slot i) s (Return, s\<lparr>sys_k := workload_done f a (sys_k s)\<rparr>)" for f a by (rule workload_done_spec) simp
  have c: "i < 32 \<Longrightarrow> quiet (sys_k s) k \<Longrightarrow> block_spec (Sysload slot i) s (Yield (Sysload slot (i + 1)), s\<lparr>sys_k := k\<rparr>)" for k
    by (rule counted_block [where n = 32 and th = "Sysload slot"]) simp_all
  show ?thesis unfolding Sysload using d c by (auto simp: on_kernel_def sysload_task_def quiet_trace_record)
next
  case (Fork_Stub parent i)
  have d: "block_spec (Fork_Stub parent i) s (Return, s)" by (rule block_specI) (simp_all add: still_refl next_ok_def)
  have c: "i < 3 \<Longrightarrow> quiet (sys_k s) k \<Longrightarrow> block_spec (Fork_Stub parent i) s (Yield (Fork_Stub parent (i + 1)), s\<lparr>sys_k := k\<rparr>)" for k
    by (rule counted_block [where n = 3 and th = "Fork_Stub parent" and w = False]) simp_all
  show ?thesis unfolding Fork_Stub using d c by (auto simp: on_kernel_def fork_stub_task_def quiet_updates)
qed (use assms ping_head_spec ping_wait_spec start_spec in simp_all)

section \<open>Steps of the machine\<close>

definition machine_inv :: "(u32 \<Rightarrow> nat) \<Rightarrow> 'd machine \<Rightarrow> bool" where
  "machine_inv ext m \<longleftrightarrow> sched_inv (k_sched (mk m)) \<and> accounted ext (mk m) \<and> \<not> rp_active (tr_replay (k_trace (mk m))) \<and>
     task_live (mtask m 0) \<and>
     (\<forall>i. 0 < i \<and> i < MAX_TASKS \<and> task_live (mtask m i) \<longrightarrow> thread_ok (ping_jobs (m_sys m)) (thread_of m i)) \<and>
     (\<forall>i < MAX_TASKS. \<not> task_live (mtask m i) \<longrightarrow> m_threads m i = None)"

text \<open>The blocks all tasks but the shell still have to run, and how many of them are workloads.\<close>

definition task_work :: "'d machine \<Rightarrow> nat \<Rightarrow> nat" where
  "task_work m i = (if task_live (mtask m i) then left (ping_jobs (m_sys m)) (thread_of m i) else 0)"

definition work :: "'d machine \<Rightarrow> nat" where
  "work m = (\<Sum>i \<in> {1..<MAX_TASKS}. task_work m i)"

definition workload_tasks :: "'d machine \<Rightarrow> nat set" where
  "workload_tasks m = {i. 0 < i \<and> i < MAX_TASKS \<and> task_live (mtask m i) \<and> is_workload (thread_of m i)}"

text \<open>Besides the shell there are workloads only.\<close>

definition all_workloads :: "'d machine \<Rightarrow> bool" where
  "all_workloads m \<longleftrightarrow> (\<forall>i. 0 < i \<and> i < MAX_TASKS \<and> task_live (mtask m i) \<longrightarrow> is_workload (thread_of m i))"

lemma left_pos: "0 < left jobs th"
  by (cases "(jobs, th)" rule: left.cases) (auto simp: Let_def split: task_entry.split)

lemma thread_of_same:
  assumes "program_of (mtask m' i) = program_of (mtask m i)" and "m_threads m' i = m_threads m i"
  shows "thread_of m' i = thread_of m i"
  using assms by (auto simp: thread_of_def program_of_def split: option.split)

text \<open>The effect of a block on the tasks: the current one advances or ends, the others stay.\<close>

lemma advance:
  assumes inv: "machine_inv ext m" and c: "current_task (k_sched (mk m)) = c" "c \<noteq> 0"
    and prog: "\<And>i. i < MAX_TASKS \<Longrightarrow> program_of (mtask m' i) = program_of (mtask m i)"
    and live: "\<And>i. i < MAX_TASKS \<Longrightarrow> task_live (mtask m' i) \<longleftrightarrow> task_live (mtask m i) \<and> \<not> (ret \<and> i = c)"
    and jobs: "jobs_same (ping_jobs (m_sys m)) (ping_jobs (m_sys m'))"
    and thr: "m_threads m' = (m_threads m)(c := if ret then None else Some th')"
    and nx: "\<not> ret \<Longrightarrow> thread_ok (ping_jobs (m_sys m)) th' \<and> left (ping_jobs (m_sys m)) th' < left (ping_jobs (m_sys m)) (thread_of m c) \<and>
       is_workload th' = is_workload (thread_of m c)"
  shows "\<forall>i. 0 < i \<and> i < MAX_TASKS \<and> task_live (mtask m' i) \<longrightarrow> thread_ok (ping_jobs (m_sys m')) (thread_of m' i)"
    and "work m' < work m"
    and "workload_tasks m' = (if ret then workload_tasks m - {c} else workload_tasks m)"
    and "\<forall>i < MAX_TASKS. \<not> task_live (mtask m' i) \<longrightarrow> m_threads m' i = None"
proof -
  let ?J = "ping_jobs (m_sys m)" and ?J' = "ping_jobs (m_sys m')"
  have si: "sched_inv (k_sched (mk m))" using inv by (simp add: machine_inv_def)
  have cl: "c < MAX_TASKS" "task_live (mtask m c)" using si c(1) live_iff [OF si, of c] by (auto simp: sched_inv_def mtask_def)
  have other: "thread_of m' i = thread_of m i" if "i < MAX_TASKS" "i \<noteq> c" for i
    using thr that by (intro thread_of_same prog) simp_all
  have own: "thread_of m' c = th'" if "\<not> ret" using that thr by (simp add: thread_of_def)
  have tok: "thread_ok ?J (thread_of m i)" if "0 < i" "i < MAX_TASKS" "task_live (mtask m i)" for i
    using inv that by (simp add: machine_inv_def)
  have ok: "thread_ok ?J (thread_of m' i)" if "0 < i" "i < MAX_TASKS" "task_live (mtask m' i)" for i
    using that live [OF that(2)] other tok own nx by (cases "i = c") auto
  then show "\<forall>i. 0 < i \<and> i < MAX_TASKS \<and> task_live (mtask m' i) \<longrightarrow> thread_ok ?J' (thread_of m' i)"
    using jobs_same_thread(1) [OF jobs] by blast
  have lf: "left ?J' (thread_of m' i) = left ?J (thread_of m' i)"
    if "0 < i" "i < MAX_TASKS" "task_live (mtask m' i)" for i using jobs_same_thread(2) [OF jobs ok] that by simp
  have same: "task_work m' i = task_work m i" if "0 < i" "i < MAX_TASKS" "i \<noteq> c" for i
  proof (cases "task_live (mtask m i)")
    case True
    then have "task_live (mtask m' i)" using live [OF that(2)] that(3) by simp
    then show ?thesis using True lf [OF that(1,2)] other [OF that(2,3)] by (simp add: task_work_def)
  qed (use live [OF that(2)] in \<open>simp add: task_work_def\<close>)
  have less: "task_work m' c < task_work m c"
  proof (cases ret)
    case True
    then show ?thesis using live [OF cl(1)] cl left_pos by (simp add: task_work_def)
  next
    case False
    then show ?thesis using live [OF cl(1)] cl c(2) lf [of c] own nx by (simp add: task_work_def)
  qed
  show "work m' < work m"
    unfolding work_def
  proof (rule sum_strict_mono_ex1)
    show "\<forall>i \<in> {1..<MAX_TASKS}. task_work m' i \<le> task_work m i"
    proof
      fix i assume "i \<in> {1..<MAX_TASKS}"
      then show "task_work m' i \<le> task_work m i" using same [of i] less by (cases "i = c") auto
    qed
    show "\<exists>i \<in> {1..<MAX_TASKS}. task_work m' i < task_work m i" using less cl(1) c(2) by (intro bexI [of _ c]) auto
  qed simp
  have "i \<in> workload_tasks m' \<longleftrightarrow> i \<in> workload_tasks m \<and> \<not> (ret \<and> i = c)" for i
    using live [of i] other [of i] own nx by (cases "i = c") (auto simp: workload_tasks_def)
  then show "workload_tasks m' = (if ret then workload_tasks m - {c} else workload_tasks m)" by auto
  show "\<forall>i < MAX_TASKS. \<not> task_live (mtask m' i) \<longrightarrow> m_threads m' i = None"
    using inv live cl(2) thr by (auto simp: machine_inv_def)
qed

lemma upd_sys_fields [simp]: "m_sys (upd_sys f m) = f (m_sys m)" "m_threads (upd_sys f m) = m_threads m"
  by (simp_all add: upd_sys_def)

text \<open>By how much the counter of active workloads exceeds their number.\<close>

definition surplus :: "'d machine \<Rightarrow> u32" where
  "surplus m = k_active_workloads (mk m) - word_of_nat (card (workload_tasks m))"

lemma workload_tasks_finite [simp]: "finite (workload_tasks m)"
  by (rule finite_subset [of _ "{..<MAX_TASKS}"]) (auto simp: workload_tasks_def)

lemma shell_ready:
  assumes "machine_inv ext m" and "current_task (k_sched (mk m)) \<noteq> 0"
  shows "task_ready (k_sched (mk m)) 0"
  using assms live_iff [of "k_sched (mk m)" 0] by (simp add: machine_inv_def mtask_def MAX_TASKS_def)

text \<open>A block followed by nothing, a yield or the end of the task, seen from the other tasks.\<close>

lemma after_quiet:
  assumes "quiet k k1" and "sched_inv (k_sched k)" and "i < MAX_TASKS"
  shows "program_of (tasks (k_sched (k1\<lparr>k_active_workloads := a\<rparr>)) ! i) = program_of (tasks (k_sched k) ! i)"
    "task_live (tasks (k_sched (k1\<lparr>k_active_workloads := a\<rparr>)) ! i) = task_live (tasks (k_sched k) ! i)"
    "task_ready (k_sched (k1\<lparr>k_active_workloads := a\<rparr>)) i = task_ready (k_sched k) i"
  using sched_same_D [of "k_sched k" "k_sched k1" i] assms by (simp_all add: quiet_def sched_inv_def)

lemma accounted_active [simp]: "accounted ext (k\<lparr>k_active_workloads := a\<rparr>) = accounted ext k"
  "accounted ext (say fmt args k) = accounted ext k"
  by (simp_all add: accounted_def)

lemma task_step_progress:
  assumes R: "ring3_quiet R" and inv: "machine_inv ext m" and c: "current_task (k_sched (mk m)) \<noteq> 0"
  shows "\<exists>m'. task_step R m = Some m' \<and> machine_inv ext m' \<and> work m' < work m \<and> surplus m' = surplus m \<and>
    (\<forall>i < MAX_TASKS. task_live (mtask m' i) \<longrightarrow> task_live (mtask m i)) \<and> (all_workloads m \<longrightarrow> all_workloads m')"
proof -
  let ?k = "mk m" and ?c = "current_task (k_sched (mk m))" and ?th = "thread_of m (current_task (k_sched (mk m)))"
  have si: "sched_inv (k_sched ?k)" and acc: "accounted ext ?k" and rp: "\<not> rp_active (tr_replay (k_trace ?k))"
    using inv by (simp_all add: machine_inv_def)
  have cl: "?c < MAX_TASKS" "task_live (mtask m ?c)" using si live_iff [OF si, of ?c] by (auto simp: sched_inv_def mtask_def)
  have ct: "cur_task (k_sched ?k) = mtask m ?c" by (simp add: mtask_def)
  have M: "0 < MAX_TASKS" using cl(1) by simp
  have ok: "thread_ok (ping_jobs (m_sys m)) ?th" using inv cl c by (simp add: machine_inv_def ct)
  obtain a s where b: "block R ?th (m_sys m) = (a, s)" by fastforce
  obtain k1 where q: "quiet ?k k1" and
    k: "sys_k s = k1\<lparr>k_active_workloads := k_active_workloads k1 - (if a = Return \<and> is_workload ?th then 1 else 0)\<rparr>"
    and js: "jobs_same (ping_jobs (m_sys m)) (ping_jobs s)" and nx: "next_ok ?th (ping_jobs (m_sys m)) a"
    using block_ok [OF R ok] by (auto simp: b block_spec_def)
  have si1: "sched_inv (k_sched (sys_k s))" and acc1: "accounted ext (sys_k s)" and rp1: "\<not> rp_active (tr_replay (k_trace (sys_k s)))"
    and ac: "k_active_workloads (sys_k s) = k_active_workloads ?k - (if a = Return \<and> is_workload ?th then 1 else 0)"
    and c1: "current_task (k_sched (sys_k s)) = ?c"
    using quiet_ok [OF q si acc] q rp by (simp_all add: k quiet_def sched_same_def)
  note aq = after_quiet [OF q si, of _ "k_active_workloads k1 - (if a = Return \<and> is_workload ?th then 1 else 0)", folded k]
  define ret where "ret \<longleftrightarrow> a = Return"
  define th' where "th' = (case a of Goto t \<Rightarrow> t | Yield t \<Rightarrow> t | Return \<Rightarrow> ?th)"
  obtain k' where st: "task_step R m = Some (m\<lparr>m_sys := s\<lparr>sys_k := k'\<rparr>, m_threads := (m_threads m)(?c := if ret then None else Some th')\<rparr>)"
    and ok': "sched_inv (k_sched k')" "accounted ext k'" "\<not> rp_active (tr_replay (k_trace k'))"
    and pr: "\<And>i. i < MAX_TASKS \<Longrightarrow> program_of (tasks (k_sched k') ! i) = program_of (mtask m i)"
    and lv: "\<And>i. i < MAX_TASKS \<Longrightarrow> task_live (tasks (k_sched k') ! i) \<longleftrightarrow> task_live (mtask m i) \<and> \<not> (ret \<and> i = ?c)"
    and ac': "k_active_workloads k' = k_active_workloads (sys_k s)"
  proof (cases a)
    case (Goto t)
    show ?thesis
    proof (rule that [of "sys_k s"])
      show "task_step R m = Some (m\<lparr>m_sys := s\<lparr>sys_k := sys_k s\<rparr>, m_threads := (m_threads m)(?c := if ret then None else Some th')\<rparr>)"
        using Goto b by (simp add: task_step_def ct ret_def th'_def)
    qed (use si1 acc1 rp1 aq Goto in \<open>simp_all add: mtask_def ret_def\<close>)
  next
    case (Yield t)
    obtain k2 where y: "sched_yield (sys_k s) = Some k2" "sched_inv (k_sched k2)" "\<not> rp_active (tr_replay (k_trace k2))"
      using yield_step [OF si1 rp1] by blast
    show ?thesis
    proof (rule that [of k2])
      show "task_step R m = Some (m\<lparr>m_sys := s\<lparr>sys_k := k2\<rparr>, m_threads := (m_threads m)(?c := if ret then None else Some th')\<rparr>)"
        using Yield b y(1) by (simp add: task_step_def ct ret_def th'_def set_kernel_def upd_sys_def)
      show "accounted ext k2" by (rule yield_accounted(1) [OF si1 rp1 acc1 y(1)])
    qed (use y aq Yield yield_program(1,2) [OF si1 rp1 y(1)] yield_program(3) [OF si1 rp1 y(1) cl(1)] in \<open>simp_all add: mtask_def ret_def\<close>)
  next
    case Return
    have r: "task_ready (k_sched (sys_k s)) 0" using aq(3) [OF M] shell_ready [OF inv c] by simp
    obtain k2 where y: "task_exit (sys_k s) = Some k2" "sched_inv (k_sched k2)" "accounted ext k2"
      using exit_step [OF si1 acc1 M r] by auto
    note ep = exit_program [OF si1 acc1 M r y(1)]
    show ?thesis
    proof (rule that [of k2])
      show "task_step R m = Some (m\<lparr>m_sys := s\<lparr>sys_k := k2\<rparr>, m_threads := (m_threads m)(?c := if ret then None else Some th')\<rparr>)"
        using Return b y(1) by (simp add: task_step_def ct ret_def th'_def set_kernel_def upd_sys_def)
      show "task_live (tasks (k_sched k2) ! i) \<longleftrightarrow> task_live (mtask m i) \<and> \<not> (ret \<and> i = ?c)" if "i < MAX_TASKS" for i
        using ep(2) [OF that] aq(2) [OF that] c1 Return by (auto simp: mtask_def ret_def)
      show "\<not> rp_active (tr_replay (k_trace k2))" "k_active_workloads k2 = k_active_workloads (sys_k s)" using ep(3,4) [OF cl(1)] rp1 by simp_all
      show "program_of (tasks (k_sched k2) ! i) = program_of (mtask m i)" if "i < MAX_TASKS" for i
        using ep(1) [OF that] aq(1) [OF that] by (simp add: mtask_def)
    qed (use y in simp_all)
  qed
  let ?m' = "m\<lparr>m_sys := s\<lparr>sys_k := k'\<rparr>, m_threads := (m_threads m)(?c := if ret then None else Some th')\<rparr>"
  have nx': "\<not> ret \<Longrightarrow> thread_ok (ping_jobs (m_sys m)) th' \<and> left (ping_jobs (m_sys m)) th' < left (ping_jobs (m_sys m)) (thread_of m ?c) \<and>
       is_workload th' = is_workload (thread_of m ?c)"
    using nx by (cases a) (simp_all add: next_ok_def ret_def th'_def ct)
  have t': "mtask ?m' i = tasks (k_sched k') ! i" for i by (simp add: mtask_def)
  have adv: "\<forall>i. 0 < i \<and> i < MAX_TASKS \<and> task_live (mtask ?m' i) \<longrightarrow> thread_ok (ping_jobs (m_sys ?m')) (thread_of ?m' i)"
    "work ?m' < work m" "workload_tasks ?m' = (if ret then workload_tasks m - {?c} else workload_tasks m)"
    "\<forall>i < MAX_TASKS. \<not> task_live (mtask ?m' i) \<longrightarrow> m_threads ?m' i = None"
    using advance [OF inv refl c, of ?m' ret th'] pr lv js nx' by (simp_all add: t')
  have "machine_inv ext ?m'" unfolding machine_inv_def using adv(1,4) ok' lv [OF M] c inv by (simp add: t' machine_inv_def mtask_def)
  moreover have "surplus ?m' = surplus m"
  proof (cases "ret \<and> is_workload ?th")
    case True
    then have "?c \<in> workload_tasks m" using cl c by (simp add: workload_tasks_def ct)
    then have "word_of_nat (card (workload_tasks m)) = (word_of_nat (card (workload_tasks m - {?c})) + 1 :: u32)"
      by (metis card_Suc_Diff1 of_nat_Suc workload_tasks_finite add.commute)
    then show ?thesis using adv(3) True ac ac' by (simp add: surplus_def ret_def)
  next
    case False
    then have "workload_tasks ?m' = workload_tasks m" using adv(3) by (auto simp: workload_tasks_def ct)
    then show ?thesis using False ac ac' by (auto simp: surplus_def ret_def)
  qed
  moreover have lv': "task_live (mtask ?m' i) \<Longrightarrow> task_live (mtask m i) \<and> \<not> (ret \<and> i = ?c)" if "i < MAX_TASKS" for i
    using lv [OF that] by (simp add: t')
  moreover have "all_workloads ?m'" if "all_workloads m"
    using that lv' adv(3) unfolding all_workloads_def workload_tasks_def by (auto split: if_splits)
  ultimately show ?thesis using st adv(2) by blast
qed

lemma run_others_returns:
  assumes R: "ring3_quiet R"
  shows "machine_inv ext m \<Longrightarrow> work m \<le> fuel \<Longrightarrow>
    \<exists>m'. run_others R fuel m = Some m' \<and> machine_inv ext m' \<and> current_task (k_sched (mk m')) = 0 \<and>
      (if current_task (k_sched (mk m)) = 0 then m' = m else work m' < work m) \<and> surplus m' = surplus m"
proof (induction fuel arbitrary: m)
  case 0
  show ?case
  proof (cases "current_task (k_sched (mk m)) = 0")
    case False
    then show ?thesis using task_step_progress [OF R 0(1)] 0(2) by auto
  qed (use 0 in simp)
next
  case (Suc fuel)
  show ?case
  proof (cases "current_task (k_sched (mk m)) = 0")
    case True
    then show ?thesis using Suc.prems by simp
  next
    case False
    obtain m1 where 1: "task_step R m = Some m1" "machine_inv ext m1" "work m1 < work m" "surplus m1 = surplus m"
      using task_step_progress [OF R Suc.prems(1) False] by blast
    then have "work m1 \<le> fuel" using Suc.prems(2) by simp
    from Suc.IH [OF 1(2) this] obtain m' where "run_others R fuel m1 = Some m'" "machine_inv ext m'"
      "current_task (k_sched (mk m')) = 0" "work m' \<le> work m1" "surplus m' = surplus m1"
      by (auto split: if_splits)
    with 1 False show ?thesis by (intro exI [of _ m']) auto
  qed
qed

text \<open>A yield of the shell while another task is ready.\<close>

lemma yield_keeps:
  assumes inv: "machine_inv ext m" and y: "sched_yield (mk m) = Some k'"
  defines "m' \<equiv> upd_sys (\<lambda>s. s\<lparr>sys_k := k'\<rparr>) m"
  shows "machine_inv ext m'" "work m' = work m" "surplus m' = surplus m"
proof -
  have si: "sched_inv (k_sched (mk m))" and acc: "accounted ext (mk m)" and rp: "\<not> rp_active (tr_replay (k_trace (mk m)))"
    using inv by (simp_all add: machine_inv_def)
  note p = yield_program [OF si rp y]
  have k': "mk m' = k'" "ping_jobs (m_sys m') = ping_jobs (m_sys m)" "m_threads m' = m_threads m" by (simp_all add: m'_def)
  have th: "thread_of m' i = thread_of m i" "task_live (mtask m' i) = task_live (mtask m i)" if "i < MAX_TASKS" for i
    using p [OF that] k' by (auto intro!: thread_of_same simp: mtask_def)
  have "sched_inv (k_sched k')" "\<not> rp_active (tr_replay (k_trace k'))" using yield_step [OF si rp] y by auto
  moreover have "accounted ext k'" by (rule yield_accounted(1) [OF si rp acc y])
  ultimately show "machine_inv ext m'" using inv th th(2) [of 0] by (auto simp: machine_inv_def k' MAX_TASKS_def)
  show "work m' = work m" unfolding work_def by (rule sum.cong) (auto simp: task_work_def th k')
  have "workload_tasks m' = workload_tasks m" using th by (auto simp: workload_tasks_def)
  then show "surplus m' = surplus m" using p(3) [of 0] by (simp add: surplus_def k' MAX_TASKS_def)
qed

lemma shell_yield_returns:
  assumes R: "ring3_quiet R" and inv: "machine_inv ext m" and c: "current_task (k_sched (mk m)) = 0"
    and rd: "sched_has_ready (mk m)" and f: "work m \<le> fuel"
  shows "\<exists>m'. shell_yield R fuel m = Some m' \<and> machine_inv ext m' \<and> current_task (k_sched (mk m')) = 0 \<and>
     work m' < work m \<and> surplus m' = surplus m"
proof -
  have si: "sched_inv (k_sched (mk m))" and rp: "\<not> rp_active (tr_replay (k_trace (mk m)))" using inv by (simp_all add: machine_inv_def)
  obtain n where n: "find_next_ready (k_sched (mk m)) = Some n" using rd by (auto simp: sched_has_ready_def)
  have "n \<noteq> 0" using n find_next_ready_Some [of "k_sched (mk m)" n] si c by (auto simp: sched_inv_def task_ready_def)
  then obtain k' where k': "sched_yield (mk m) = Some k'" "current_task (k_sched k') \<noteq> 0" using yield_step [OF si rp] n by auto
  let ?m = "upd_sys (\<lambda>s. s\<lparr>sys_k := k'\<rparr>) m"
  note yk = yield_keeps [OF inv k'(1)]
  obtain m' where "run_others R fuel ?m = Some m'" "machine_inv ext m'" "current_task (k_sched (mk m')) = 0"
    "work m' < work m" "surplus m' = surplus m"
    using run_others_returns [OF R yk(1)] f yk k'(2) by auto
  then show ?thesis by (auto simp: shell_yield_def set_kernel_def k'(1))
qed

definition only_shell :: "'d machine \<Rightarrow> bool" where
  "only_shell m \<longleftrightarrow> (\<forall>i < MAX_TASKS. task_live (mtask m i) \<longleftrightarrow> i = 0)"

lemma idle_only_shell:
  assumes "machine_inv ext m" and "current_task (k_sched (mk m)) = 0"
  shows "\<not> sched_has_ready (mk m) \<longleftrightarrow> only_shell m"
proof -
  have si: "sched_inv (k_sched (mk m))" using assms by (simp add: machine_inv_def)
  have "\<not> sched_has_ready (mk m) \<longleftrightarrow> (\<forall>i < MAX_TASKS. \<not> task_ready (k_sched (mk m)) i)"
    using find_next_ready_None [of "k_sched (mk m)"] assms(2) by (simp add: sched_has_ready_def MAX_TASKS_def)
  moreover have "t_state (tasks (k_sched (mk m)) ! 0) = Task_Running" using si assms(2) by (simp add: sched_inv_def MAX_TASKS_def)
  then have "\<not> task_ready (k_sched (mk m)) 0" by (simp add: task_ready_def)
  ultimately show ?thesis using live_iff [OF si] assms(2) by (auto simp: only_shell_def mtask_def)
qed

lemma only_shell_surplus:
  assumes "only_shell m"
  shows "k_active_workloads (mk m) = surplus m"
proof -
  have "workload_tasks m = {}" using assms by (auto simp: workload_tasks_def only_shell_def)
  then show ?thesis by (simp add: surplus_def)
qed

lemma wait_idle_loop_returns:
  assumes R: "ring3_quiet R"
  shows "machine_inv ext m \<Longrightarrow> current_task (k_sched (mk m)) = 0 \<Longrightarrow> work m \<le> fuel \<Longrightarrow> work m < n \<Longrightarrow>
    \<exists>m'. wait_idle_loop R fuel n m = Some (True, m') \<and> machine_inv ext m' \<and> only_shell m' \<and> surplus m' = surplus m"
proof (induction n arbitrary: m)
  case (Suc n)
  show ?case
  proof (cases "sched_has_ready (mk m)")
    case False
    then show ?thesis using Suc.prems idle_only_shell by auto
  next
    case True
    obtain m1 where 1: "shell_yield R fuel m = Some m1" "machine_inv ext m1" "current_task (k_sched (mk m1)) = 0"
      "work m1 < work m" "surplus m1 = surplus m"
      using shell_yield_returns [OF R Suc.prems(1,2) True Suc.prems(3)] by blast
    then obtain m' where "wait_idle_loop R fuel n m1 = Some (True, m')" "machine_inv ext m'" "only_shell m'" "surplus m' = surplus m1"
      using Suc.IH [OF 1(2,3)] Suc.prems(3,4) by auto
    with 1 True show ?thesis by auto
  qed
qed simp

lemma run_workloads_returns:
  assumes R: "ring3_quiet R"
  shows "machine_inv ext m \<Longrightarrow> current_task (k_sched (mk m)) = 0 \<Longrightarrow> surplus m = 0 \<Longrightarrow> work m \<le> fuel \<Longrightarrow> work m < n \<Longrightarrow>
    \<exists>m'. run_workloads_until_idle R fuel n m = Some m' \<and> machine_inv ext m' \<and> only_shell m' \<and> k_active_workloads (mk m') = 0"
proof (induction n arbitrary: m)
  case (Suc n)
  have rp: "\<not> rp_active (tr_replay (k_trace (mk m)))" using Suc.prems by (simp add: machine_inv_def)
  show ?case
  proof (cases "sched_has_ready (mk m)")
    case False
    then have o: "only_shell m" using Suc.prems idle_only_shell by blast
    with Suc.prems have "k_active_workloads (mk m) = 0" by (simp add: only_shell_surplus)
    then show ?thesis using False o Suc.prems by (auto simp: workload_has_active_def)
  next
    case True
    obtain m1 where 1: "shell_yield R fuel m = Some m1" "machine_inv ext m1" "current_task (k_sched (mk m1)) = 0"
      "work m1 < work m" "surplus m1 = 0"
      using shell_yield_returns [OF R Suc.prems(1,2) True Suc.prems(4)] Suc.prems(3) by auto
    then have "work m1 \<le> fuel" "work m1 < n" using Suc.prems(4,5) by simp_all
    from Suc.IH [OF 1(2,3,5) this] 1 True rp show ?thesis by auto
  qed
qed simp

lemma run_others_keeps:
  assumes R: "ring3_quiet R"
  shows "machine_inv ext m \<Longrightarrow> run_others R fuel m = Some m' \<Longrightarrow>
    machine_inv ext m' \<and> current_task (k_sched (mk m')) = 0 \<and> surplus m' = surplus m"
proof (induction fuel arbitrary: m)
  case 0
  then show ?case by (auto split: if_splits)
next
  case (Suc fuel)
  show ?case
  proof (cases "current_task (k_sched (mk m)) = 0")
    case True
    then show ?thesis using Suc.prems by auto
  next
    case False
    then obtain m1 where "task_step R m = Some m1" "machine_inv ext m1" "surplus m1 = surplus m"
      using task_step_progress [OF R Suc.prems(1)] by blast
    then show ?thesis using Suc.IH [of m1] Suc.prems(2) False by auto
  qed
qed

lemma shell_yield_keeps:
  assumes R: "ring3_quiet R" and inv: "machine_inv ext m" and y: "shell_yield R fuel m = Some m'"
  shows "machine_inv ext m' \<and> current_task (k_sched (mk m')) = 0 \<and> surplus m' = surplus m"
proof -
  obtain k' where k': "sched_yield (mk m) = Some k'"
    using y by (auto simp: shell_yield_def set_kernel_def split: option.splits)
  note yk = yield_keeps [OF inv k']
  show ?thesis using run_others_keeps [OF R yk(1)] y yk(3) by (auto simp: shell_yield_def set_kernel_def k')
qed

lemma run_workloads_stuck:
  assumes R: "ring3_quiet R"
  shows "machine_inv ext m \<Longrightarrow> current_task (k_sched (mk m)) = 0 \<Longrightarrow> surplus m \<noteq> 0 \<Longrightarrow> run_workloads_until_idle R fuel n m = None"
proof (induction n arbitrary: m)
  case (Suc n)
  have rp: "\<not> rp_active (tr_replay (k_trace (mk m)))" using Suc.prems(1) by (simp add: machine_inv_def)
  have go: "workload_has_active (mk m) \<or> sched_has_ready (mk m)"
    using idle_only_shell [OF Suc.prems(1,2)] only_shell_surplus [of m] Suc.prems(3) by (auto simp: workload_has_active_def)
  have "run_workloads_until_idle R fuel n m1 = None" if "shell_yield R fuel m = Some m1" for m1
    using shell_yield_keeps [OF R Suc.prems(1) that] Suc.IH [of m1] Suc.prems(3) by simp
  with go rp show ?case by (auto split: option.split)
qed simp

section \<open>Starting workloads\<close>

abbreviation on_mk :: "('d kernel \<Rightarrow> 'd kernel) \<Rightarrow> 'd machine \<Rightarrow> 'd machine" where
  "on_mk f m \<equiv> upd_sys (upd_k f) m"

text \<open>The shell can start \<open>n\<close> more tasks.\<close>

definition startable :: "(u32 \<Rightarrow> nat) \<Rightarrow> nat \<Rightarrow> 'd machine \<Rightarrow> bool" where
  "startable ext n m \<longleftrightarrow> machine_inv ext m \<and> (\<forall>a. ext a < 2 ^ 31) \<and> current_task (k_sched (mk m)) = 0 \<and>
     0 < next_pid (k_sched (mk m)) \<and> unat (next_pid (k_sched (mk m))) + n + 1 < 0xffffffff \<and>
     unat (next_aspace_id (k_vm (mk m))) + 1 < 2 ^ 32 \<and>
     kernel_aspace_id (k_vm (mk m)) \<noteq> 0 \<and> t_aspace_id (tasks (k_sched (mk m)) ! 0) = kernel_aspace_id (k_vm (mk m)) \<and>
     map_option ai_kind (aspace_map (k_vm (mk m)) (kernel_aspace_id (k_vm (mk m)))) = Some ASPACE_KIND_KERNEL \<and>
     n \<le> free_slots (k_sched (mk m))"

text \<open>One more live task at its entry point.\<close>

lemma spawned_task:
  assumes inv: "machine_inv ext m" and inv': "sched_inv (k_sched (mk m'))" "accounted ext (mk m')"
    "rp_active (tr_replay (k_trace (mk m'))) = rp_active (tr_replay (k_trace (mk m)))"
    and frame: "m_threads m' = m_threads m" "ping_jobs (m_sys m') = ping_jobs (m_sys m)"
    and j: "0 < j" "j < MAX_TASKS" "\<not> task_live (mtask m j)" "task_live (mtask m' j)"
    and same: "\<And>i. i < MAX_TASKS \<Longrightarrow> i \<noteq> j \<Longrightarrow> mtask m' i = mtask m i"
    and th: "thread_of m' j = At_Entry e a" "thread_ok (ping_jobs (m_sys m)) (At_Entry e a)"
  shows "machine_inv ext m'" "work m' = work m + left (ping_jobs (m_sys m)) (At_Entry e a)"
    "card (workload_tasks m') = card (workload_tasks m) + (if is_workload (At_Entry e a) then 1 else 0)"
proof -
  have tho: "thread_of m' i = thread_of m i" if "i < MAX_TASKS" "i \<noteq> j" for i
    using same [OF that] frame(1) by (simp add: thread_of_def split: option.split)
  show "machine_inv ext m'"
    unfolding machine_inv_def
  proof (intro conjI allI impI inv')
    show "task_live (mtask m' 0)" using same [of 0] j inv by (simp add: machine_inv_def)
    show "\<not> rp_active (tr_replay (k_trace (mk m')))" using inv inv'(3) by (simp add: machine_inv_def)
    fix i assume "0 < i \<and> i < MAX_TASKS \<and> task_live (mtask m' i)"
    then show "thread_ok (ping_jobs (m_sys m')) (thread_of m' i)"
      using tho [of i] same [of i] th inv by (cases "i = j") (auto simp: machine_inv_def frame(2))
  next
    fix i assume "i < MAX_TASKS" "\<not> task_live (mtask m' i)"
    then show "m_threads m' i = None" using same [of i] j inv frame(1) by (cases "i = j") (auto simp: machine_inv_def)
  qed
  have "work m' = task_work m' j + (\<Sum>i \<in> {1..<MAX_TASKS} - {j}. task_work m' i)"
    using j unfolding work_def by (intro sum.remove) auto
  also have "(\<Sum>i \<in> {1..<MAX_TASKS} - {j}. task_work m' i) = (\<Sum>i \<in> {1..<MAX_TASKS} - {j}. task_work m i)"
    by (rule sum.cong) (auto simp: task_work_def tho same frame(2))
  also have "(\<Sum>i \<in> {1..<MAX_TASKS} - {j}. task_work m i) = work m"
    using j sum.remove [of "{1..<MAX_TASKS}" j "task_work m"] by (simp add: work_def task_work_def)
  finally show "work m' = work m + left (ping_jobs (m_sys m)) (At_Entry e a)"
    using j(4) th(1) by (simp add: task_work_def frame(2))
  have "workload_tasks m' = (if is_workload (At_Entry e a) then insert j (workload_tasks m) else workload_tasks m)"
  proof (rule set_eqI)
    show "i \<in> workload_tasks m' \<longleftrightarrow> i \<in> (if is_workload (At_Entry e a) then insert j (workload_tasks m) else workload_tasks m)" for i
      using tho [of i] same [of i] j th(1) by (cases "i = j") (auto simp: workload_tasks_def)
  qed
  moreover have "j \<notin> workload_tasks m" using j(3) by (simp add: workload_tasks_def)
  ultimately show "card (workload_tasks m') = card (workload_tasks m) + (if is_workload (At_Entry e a) then 1 else 0)" by simp
qed

lemma workload_spawn_ok:
  assumes st: "startable ext (Suc n) m" and e: "e \<in> {Lifecycle_Child, Attack_Task, Sysload_Task}"
    and m'_def: "m' = on_mk (workload_spawn name e a fmt args) m"
  shows "startable ext n m'" "surplus m' = surplus m" "work m' = work m + left [] (At_Entry e 0)"
    "free_slots (k_sched (mk m)) = free_slots (k_sched (mk m')) + 1"
proof -
  let ?k = "mk m" and ?s = "k_sched (mk m)"
  let ?k0 = "?k\<lparr>k_active_workloads := k_active_workloads ?k + 1\<rparr>"
  note s = st [unfolded startable_def]
  have inv: "machine_inv ext m" using s by blast
  then have si: "sched_inv ?s" and acc: "accounted ext ?k" by (simp_all add: machine_inv_def)
  have len: "length (tasks ?s) = MAX_TASKS" "current_task ?s < MAX_TASKS" using si by (simp_all add: sched_inv_def)
  obtain i where i: "0 < i" "i < MAX_TASKS" "\<not> task_live (tasks ?s ! i)" using free_slots_pos [OF _ len(1)] s by auto
  have "spawn_slot_free (drop 1 (tasks ?s) ! (i - 1))" "i - 1 < length (drop 1 (tasks ?s))"
    using i len by (simp_all add: spawn_slot_free_def task_live_def)
  then have "find_index spawn_slot_free (drop 1 (tasks ?s)) \<noteq> None" unfolding find_index_None by (metis nth_mem)
  then obtain j where j: "find_index spawn_slot_free (drop 1 (tasks ?s)) = Some j" by auto
  have jl: "Suc j < MAX_TASKS" "\<not> task_live (tasks ?s ! Suc j)"
    using find_index_SomeD(1,2) [OF j] len by (auto simp: spawn_slot_free_def task_live_def)
  have cj: "Suc j \<noteq> current_task ?s" using s by simp
  have ka: "t_aspace_id (cur_task (k_sched ?k0)) = kernel_aspace_id (k_vm ?k)" "kernel_aspace_id (k_vm ?k) = kernel_aspace_id (k_vm ?k0)"
    "kernel_aspace_id (k_vm ?k) \<noteq> 0"
    "map_option ai_kind (aspace_map (k_vm ?k0) (kernel_aspace_id (k_vm ?k))) = Some ASPACE_KIND_KERNEL"
    using s by simp_all
  obtain t v where tv: "sched_spawn (Some name) e a ?k0 = (Some (next_pid ?s),
      ?k0\<lparr>k_vm := v, k_sched := ?s\<lparr>tasks := (tasks ?s)[Suc j := t], next_pid := next_pid ?s + 1\<rparr>\<rparr>)"
    "t_used t" "t_state t = Task_Ready" "t_pid t = next_pid ?s" "t_entry t = e" "t_arg t = a"
    "kernel_aspace_id v = kernel_aspace_id (k_vm ?k)" "map_option ai_kind (aspace_map v (kernel_aspace_id (k_vm ?k))) = Some ASPACE_KIND_KERNEL"
    using spawn_kernel_eq [OF _ ka, of j "Some name" e a] accountedD(1) [OF acc] j by auto
  let ?s' = "?s\<lparr>tasks := (tasks ?s)[Suc j := t], next_pid := next_pid ?s + 1\<rparr>"
  let ?k1 = "?k0\<lparr>k_vm := v, k_sched := ?s'\<rparr>"
  have k': "mk m' = say fmt (pid_arg (Some (next_pid ?s)) # args) ?k1"
    by (simp add: m'_def workload_spawn_def tv(1) upd_k_def)
  have fr: "m_threads m' = m_threads m" "ping_jobs (m_sys m') = ping_jobs (m_sys m)" by (simp_all add: m'_def upd_k_def)
  have u: "unat (next_pid ?s + 1) = unat (next_pid ?s) + 1" using s by (subst unat_add_no_wrap) simp_all
  have pl: "pids_left ?s" using s by (simp add: pids_left_def)
  have nv: "next_aspace_id v = next_aspace_id (k_vm ?k)"
    using spawn_next_aspace [OF ka(4,1), of "Some name" e a] by (simp add: tv(1))
  have "sched_inv ?s' \<and> accounted ext ?k1"
    using spawn_parent_ok(1) [of ?k0 ext "Some name" e a "sched_current_pid ?k0"] si pl acc s tv(1) by (simp add: sched_spawn_def)
  then have inv1: "sched_inv (k_sched (mk m'))" "accounted ext (mk m')" by (simp_all add: k')
  have live: "task_live t" using tv(2-4) pl by (auto simp: task_live_def task_visible_def pids_left_def)
  have mt: "mtask m' (Suc j) = t" "\<And>i. i \<noteq> Suc j \<Longrightarrow> mtask m' i = mtask m i" using jl len by (simp_all add: mtask_def k')
  have th: "thread_of m' (Suc j) = At_Entry e a"
  proof -
    have "m_threads m (Suc j) = None" using inv jl by (simp add: machine_inv_def mtask_def)
    then show ?thesis using tv(5,6) by (simp add: mt thread_of_def fr)
  qed
  have tok: "thread_ok (ping_jobs (m_sys m)) (At_Entry e a)" using e by auto
  note sp = spawned_task [OF inv inv1 _ fr _ jl(1) _ _ _ th tok]
  have mi: "machine_inv ext m'" and w: "work m' = work m + left (ping_jobs (m_sys m)) (At_Entry e a)"
    and cw: "card (workload_tasks m') = card (workload_tasks m) + 1"
    using sp jl live e mt by (auto simp: mtask_def k')
  show "work m' = work m + left [] (At_Entry e 0)" using w e by auto
  show "surplus m' = surplus m" unfolding surplus_def cw by (simp add: k')
  have fs: "free_slots ?s = free_slots ?s' + 1"
    using jl live len by (intro free_slots_spawn [of _ _ "Suc j"]) simp_all
  then show "free_slots (k_sched (mk m)) = free_slots (k_sched (mk m')) + 1" by (simp add: k')
  have "cur_task ?s' = cur_task ?s" using cj by simp
  moreover have "0 < next_pid ?s + 1" using u by (simp add: word_less_nat_alt)
  ultimately show "startable ext n m'" using mi s u tv(7,8) nv fs by (simp add: startable_def k' fr)
qed

lemma spawn_active: "k_active_workloads (snd (sched_spawn name e a k)) = k_active_workloads k"
  by (simp add: sched_spawn_def sched_spawn_with_parent_def sched_spawn_with_parent_aspace_def Let_def split: prod.split option.split)

lemma startable_mono: "startable ext (Suc n) m \<Longrightarrow> startable ext n m"
  by (auto simp: startable_def)

lemma three_workloads_ok:
  assumes "startable ext 3 m" and e: "e \<in> {Lifecycle_Child, Attack_Task, Sysload_Task}"
  shows "startable ext 0 (on_mk (fold (\<lambda>i. workload_spawn name e i fmt [Num i]) [0, 1, 2]) m)"
    "surplus (on_mk (fold (\<lambda>i. workload_spawn name e i fmt [Num i]) [0, 1, 2]) m) = surplus m"
    "work (on_mk (fold (\<lambda>i. workload_spawn name e i fmt [Num i]) [0, 1, 2]) m) = work m + 3 * left [] (At_Entry e 0)"
proof -
  let ?m1 = "on_mk (workload_spawn name e 0 fmt [Num 0]) m"
  let ?m2 = "on_mk (workload_spawn name e 1 fmt [Num 1]) ?m1"
  let ?m3 = "on_mk (workload_spawn name e 2 fmt [Num 2]) ?m2"
  have st: "startable ext (Suc (Suc (Suc 0))) m" using assms(1) by (simp add: numeral_3_eq_3)
  note s1 = workload_spawn_ok [OF st e refl, of name 0 fmt "[Num 0]"]
  note s2 = workload_spawn_ok [OF s1(1) e refl, of name 1 fmt "[Num 1]"]
  note s3 = workload_spawn_ok [OF s2(1) e refl, of name 2 fmt "[Num 2]"]
  have eq: "on_mk (fold (\<lambda>i. workload_spawn name e i fmt [Num i]) [0, 1, 2]) m = ?m3" by (simp add: upd_sys_def upd_k_def)
  show "startable ext 0 (on_mk (fold (\<lambda>i. workload_spawn name e i fmt [Num i]) [0, 1, 2]) m)"
    "surplus (on_mk (fold (\<lambda>i. workload_spawn name e i fmt [Num i]) [0, 1, 2]) m) = surplus m"
    "work (on_mk (fold (\<lambda>i. workload_spawn name e i fmt [Num i]) [0, 1, 2]) m) = work m + 3 * left [] (At_Entry e 0)"
    unfolding eq using s1 s2 s3 by simp_all
qed

lemma profile_ok:
  assumes st: "startable ext 3 m" and p: "p \<in> {WORKLOAD_PROFILE_ATTACK, WORKLOAD_PROFILE_SYSLOAD, WORKLOAD_PROFILE_LIFECYCLE}"
    and r: "workload_run_profile p (mk m) = (ok, k')"
  shows "ok" "startable ext 0 (on_mk (\<lambda>_. k') m)" "surplus (on_mk (\<lambda>_. k') m) = surplus m" "work (on_mk (\<lambda>_. k') m) \<le> work m + 102"
proof -
  have c: "on_mk (\<lambda>_. f (mk m)) m = on_mk f m" for f by (simp add: upd_sys_def upd_k_def)
  have st1: "startable ext (Suc (Suc (Suc 0))) m" using st by (simp add: numeral_3_eq_3)
  note a = workload_spawn_ok [OF st1 _ refl, of Attack_Task "''attack_sim''" 0 "ln ''attack_sim spawned pid=%u''" "[]", folded workload_attack_sim_def]
  note l = three_workloads_ok [OF st, of Lifecycle_Child "''life-child''" "ln ''lifecycle child spawned pid=%u slot=%lu''", folded workload_lifecycle_test_def [abs_def]]
  note s = three_workloads_ok [OF st, of Sysload_Task "''sysload''" "ln ''sysload spawned pid=%u worker=%lu''", folded workload_sysload_def [abs_def]]
  consider "k' = workload_attack_sim (mk m)" | "k' = workload_sysload (mk m)" | "k' = workload_lifecycle_test (mk m)"
    using p r by (auto simp: workload_run_profile_def split: if_splits)
  then have "startable ext 0 (on_mk (\<lambda>_. k') m) \<and> surplus (on_mk (\<lambda>_. k') m) = surplus m \<and> work (on_mk (\<lambda>_. k') m) \<le> work m + 102"
  proof cases
    case 1
    show ?thesis unfolding 1 c [of workload_attack_sim] using a by (auto simp: workload_attack_sim_def [abs_def] intro: startable_mono)
  next
    case 2
    show ?thesis unfolding 2 c [of workload_sysload] using s by (simp add: workload_sysload_def [abs_def])
  next
    case 3
    show ?thesis unfolding 3 c [of workload_lifecycle_test] using l by (simp add: workload_lifecycle_test_def [abs_def])
  qed
  then show "startable ext 0 (on_mk (\<lambda>_. k') m)" "surplus (on_mk (\<lambda>_. k') m) = surplus m" "work (on_mk (\<lambda>_. k') m) \<le> work m + 102" by simp_all
  show ok using p r by (auto simp: workload_run_profile_def split: if_splits)
qed

text \<open>A kernel after start-up, with the shell as the only task, and ring 3 code that does nothing.\<close>

definition demo_ring3 :: "unit ring3" where
  "demo_ring3 = \<lparr>r3_enter = (\<lambda>_ _ s. s), r3_demo_entry = 0x400000\<rparr>"

definition demo_machine :: "unit machine" where
  "demo_machine = \<lparr>m_sys = demo_system, m_threads = Map.empty\<rparr>"

definition add_child :: "unit machine \<Rightarrow> unit machine" where
  "add_child = on_mk (workload_spawn ''life-child'' Lifecycle_Child 0 (ln ''spawned pid=%u'') [])"

lemma demo_ring3_quiet: "ring3_quiet demo_ring3"
  by (simp add: ring3_quiet_def demo_ring3_def still_refl)

lemma demo_kernel_active: "k_active_workloads demo_kernel = 0"
  by (simp add: demo_kernel_def sched_init_def Let_def kernel_bss_def)

lemma demo_machine_ok:
  "startable (\<lambda>_. 0) 7 demo_machine" "surplus demo_machine = 0" "work demo_machine = 0" "free_slots (k_sched (mk demo_machine)) = 7"
proof -
  have k: "mk demo_machine = demo_kernel" "m_threads demo_machine = Map.empty"
    by (simp_all add: demo_machine_def demo_system_def system_bss_def)
  obtain t0 where t0: "tasks (k_sched demo_kernel) = t0 # replicate 7 task_zero" "t_aspace_id t0 = 1"
    using demo_kernel_tasks by blast
  have nl: "\<not> task_live (mtask demo_machine i)" if "0 < i" "i < MAX_TASKS" for i
    using that task_zero_free(2) by (cases i) (simp_all add: mtask_def k t0 task_live_def MAX_TASKS_def)
  have l0: "task_live (mtask demo_machine 0)"
    using live_iff [OF demo_kernel_ok(1), of 0] demo_kernel_ok(8) by (simp add: mtask_def k MAX_TASKS_def)
  have mi: "machine_inv (\<lambda>_. 0) demo_machine"
    using demo_kernel_ok nl l0 by (auto simp: machine_inv_def k)
  show fs: "free_slots (k_sched (mk demo_machine)) = 7"
    using task_zero_free(2) by (simp add: free_slots_def t0 task_live_def k)
  have "next_aspace_id demo_vm = 2" by (simp add: demo_vm_def init_table)
  with mi fs show "startable (\<lambda>_. 0) 7 demo_machine"
    using demo_kernel_ok demo_vm_facts t0 by (simp add: startable_def k)
  show "work demo_machine = 0" using nl by (simp add: work_def task_work_def)
  have "workload_tasks demo_machine = {}" using nl by (auto simp: workload_tasks_def)
  then show "surplus demo_machine = 0" by (simp add: surplus_def k demo_kernel_active)
qed

lemma add_children:
  "startable ext n m \<Longrightarrow> startable ext 0 ((add_child ^^ n) m) \<and> surplus ((add_child ^^ n) m) = surplus m \<and>
    work ((add_child ^^ n) m) = work m + 6 * n \<and> free_slots (k_sched (mk m)) = free_slots (k_sched (mk ((add_child ^^ n) m))) + n"
proof (induction n arbitrary: m)
  case (Suc n)
  note s = workload_spawn_ok [OF Suc.prems _ refl, of Lifecycle_Child "''life-child''" 0 "ln ''spawned pid=%u''" "[]", folded add_child_def]
  have "startable ext n (add_child m)" "surplus (add_child m) = surplus m" "work (add_child m) = work m + 6"
    "free_slots (k_sched (mk m)) = free_slots (k_sched (mk (add_child m))) + 1" using s by (simp_all add: add_child_def)
  with Suc.IH [of "add_child m"] show ?case by (simp add: funpow_swap1 del: funpow.simps) (simp add: funpow_Suc_right del: funpow.simps)
qed simp

section \<open>Termination\<close>

text \<open>C10: a workload profile runs to its end.  If the shell starts one of the three profiles while
  three task slots are free and the counter of active workloads is right, then
  \<open>run_workloads_until_idle\<close> returns, whatever other programs are running: all tasks but the
  shell have ended, the counter is zero and the scheduler is consistent.  The number of blocks
  the tasks run, and so the number of rounds of the loop, is at most the work that was left
  before plus 102.\<close>

theorem workload_profile_terminates:
  assumes R: "ring3_quiet R" and st: "startable ext 3 m" and su: "surplus m = 0"
    and p: "p \<in> {WORKLOAD_PROFILE_ATTACK, WORKLOAD_PROFILE_SYSLOAD, WORKLOAD_PROFILE_LIFECYCLE}"
    and r: "workload_run_profile p (mk m) = (ok, k')" and f: "work m + 102 \<le> fuel" "work m + 102 < n"
  shows "ok \<and> (\<exists>m'. run_workloads_until_idle R fuel n (on_mk (\<lambda>_. k') m) = Some m' \<and> machine_inv ext m' \<and> only_shell m' \<and>
    \<not> workload_has_active (mk m'))"
proof -
  let ?m = "on_mk (\<lambda>_. k') m"
  note ok = profile_ok [OF st p r]
  have "machine_inv ext ?m" "current_task (k_sched (mk ?m)) = 0" using ok(2) by (simp_all add: startable_def)
  from run_workloads_returns [OF R this] ok su f show ?thesis by (auto simp: workload_has_active_def)
qed

theorem workload_profile_terminates_witness:
  "\<exists>k' m'. workload_run_profile WORKLOAD_PROFILE_SYSLOAD demo_kernel = (True, k') \<and>
     run_workloads_until_idle demo_ring3 102 103 (on_mk (\<lambda>_. k') demo_machine) = Some m' \<and> only_shell m'"
proof -
  have k: "mk demo_machine = demo_kernel" by (simp add: demo_machine_def demo_system_def system_bss_def)
  obtain ok k' where r: "workload_run_profile WORKLOAD_PROFILE_SYSLOAD (mk demo_machine) = (ok, k')" by fastforce
  have "startable (\<lambda>_. 0) 3 demo_machine" using demo_machine_ok(1) by (auto simp: startable_def)
  from workload_profile_terminates [OF demo_ring3_quiet this demo_machine_ok(2) _ r, of 102 103] demo_machine_ok(3) r k
  show ?thesis by auto
qed

text \<open>Waiting until idle succeeds.  If the tasks other than the shell have at most 100000 blocks
  to run, \<open>sched_wait_until_idle\<close> called by the shell returns success within its 100001 rounds,
  with no live task left but the shell.\<close>

theorem wait_until_idle_terminates:
  assumes "ring3_quiet R" and "machine_inv ext m" and "current_task (k_sched (mk m)) = 0" and "work m \<le> fuel" and "work m \<le> 100000"
  shows "\<exists>m'. wait_until_idle R fuel m = Some (True, m') \<and> machine_inv ext m' \<and> only_shell m' \<and> surplus m' = surplus m"
  unfolding wait_until_idle_def using wait_idle_loop_returns [OF assms(1-4), of 100001] assms(5) by auto

theorem wait_until_idle_terminates_witness:
  "\<exists>m'. wait_until_idle demo_ring3 18 ((add_child ^^ 3) demo_machine) = Some (True, m') \<and> only_shell m'"
proof -
  let ?m = "(add_child ^^ 3) demo_machine"
  have "startable (\<lambda>_. 0) 3 demo_machine" using demo_machine_ok(1) by (auto simp: startable_def)
  from add_children [OF this] have a: "startable (\<lambda>_. 0) 0 ?m" "work ?m = 18" using demo_machine_ok(3) by simp_all
  have "machine_inv (\<lambda>_. 0) ?m" "current_task (k_sched (mk ?m)) = 0" using a(1) by (simp_all add: startable_def)
  from wait_until_idle_terminates [OF demo_ring3_quiet this, of 18] a(2) show ?thesis by auto
qed

text \<open>C40: a workload that cannot be started hangs the shell.  When all task slots are taken,
  \<open>workload_attack_sim\<close> still counts a workload as active although \<open>sched_spawn\<close> fails; no task
  will ever take it off the counter, and \<open>run_workloads_until_idle\<close> does not return, however long it runs.\<close>

theorem workload_failed_spawn_hangs:
  assumes R: "ring3_quiet R" and inv: "machine_inv ext m" and c: "current_task (k_sched (mk m)) = 0" and su: "surplus m = 0"
    and full: "free_slots (k_sched (mk m)) = 0" and pl: "pids_left (k_sched (mk m))" and small: "\<forall>a. ext a < 2 ^ 31"
    and nw: "unat (next_aspace_id (k_vm (mk m))) + 1 < 2 ^ 32"
  shows "run_workloads_until_idle R fuel n (on_mk workload_attack_sim m) = None"
proof -
  let ?k = "mk m" and ?m' = "on_mk workload_attack_sim m"
  let ?kc = "?k\<lparr>k_active_workloads := k_active_workloads ?k + 1\<rparr>"
  have si: "sched_inv (k_sched ?k)" and acc: "accounted ext ?k" using inv by (simp_all add: machine_inv_def)
  obtain r k1 where sp: "sched_spawn (Some ''attack_sim'') Attack_Task 0 ?kc = (r, k1)" by fastforce
  have len: "length (tasks (k_sched ?k)) = MAX_TASKS" using si by (simp add: sched_inv_def)
  have k1: "k_sched k1 = k_sched ?k" "accounted ext k1" "k_trace k1 = k_trace ?k"
    using spawn_parent_ok(1) [of ?kc ext "Some ''attack_sim''" Attack_Task 0 "sched_current_pid ?kc" r k1]
      si acc pl small nw sp free_slots_0 [OF len full] by (auto simp: sched_spawn_def)
  have ac: "k_active_workloads k1 = k_active_workloads ?k + 1" using spawn_active [of "Some ''attack_sim''" Attack_Task 0 ?kc] sp by simp
  have m': "workload_attack_sim ?k = say (ln ''attack_sim spawned pid=%u'') [pid_arg r] k1"
    by (simp add: workload_attack_sim_def workload_spawn_def sp)
  have fr: "m_threads ?m' = m_threads m" "ping_jobs (m_sys ?m') = ping_jobs (m_sys m)" by (simp_all add: upd_k_def)
  have mt: "mtask ?m' i = mtask m i" for i by (simp add: mtask_def m' k1)
  have tt: "thread_of ?m' i = thread_of m i" for i by (simp add: thread_of_def fr mt split: option.split)
  have "machine_inv ext ?m'" using inv k1 by (simp add: machine_inv_def mt tt fr m')
  moreover have "surplus ?m' = surplus m + 1" by (simp add: surplus_def workload_tasks_def mt tt m' ac)
  ultimately show ?thesis using run_workloads_stuck [OF R, of ext ?m'] c su by (simp add: m' k1)
qed

theorem workload_failed_spawn_hangs_witness:
  "run_workloads_until_idle demo_ring3 1000 1000 (on_mk workload_attack_sim ((add_child ^^ 7) demo_machine)) = None"
proof -
  let ?m = "(add_child ^^ 7) demo_machine"
  note a = add_children [OF demo_machine_ok(1)]
  have s: "startable (\<lambda>_. 0) 0 ?m" "surplus ?m = 0" "free_slots (k_sched (mk ?m)) = 0" using a demo_machine_ok by simp_all
  have "machine_inv (\<lambda>_. 0) ?m" "current_task (k_sched (mk ?m)) = 0" "unat (next_aspace_id (k_vm (mk ?m))) + 1 < 2 ^ 32"
    using s(1) by (simp_all add: startable_def)
  moreover have "pids_left (k_sched (mk ?m))" using s(1) by (simp add: startable_def pids_left_def)
  ultimately show ?thesis using workload_failed_spawn_hangs [OF demo_ring3_quiet, of "\<lambda>_. 0" ?m] s by simp
qed

end
