(* ===== verification/Mouse.thy ===== *)
theory Mouse
  imports Io
begin

text \<open>
  The PS/2 mouse of \<open>kernel/mouse.c\<close>: initialisation over the controller ports with bounded
  polling, and the packet decoder that the mouse interrupt feeds one byte at a time.  The
  position is a pair of \<open>s32\<close>, kept as words and read with \<open>sint\<close>.
\<close>

section \<open>Definitions\<close>

record mouse_state =
  ms_present :: u32
  ms_x :: u32
  ms_y :: u32
  ms_buttons :: u8
  ms_packets :: u64

record mouse =
  m_state :: mouse_state
  m_packet :: "u8 list"
  m_index :: nat

definition mouse_bss :: mouse where
  "mouse_bss = \<lparr>m_state = \<lparr>ms_present = 0, ms_x = 0, ms_y = 0, ms_buttons = 0, ms_packets = 0\<rparr>,
     m_packet = [0, 0, 0], m_index = 0\<rparr>"

text \<open>Polling loops: \<open>True\<close> is the return value 0, \<open>False\<close> is -1.\<close>

fun wait_read_loop :: "'h ports \<Rightarrow> nat \<Rightarrow> 'h \<Rightarrow> bool \<times> 'h" where
  "wait_read_loop P 0 h = (False, h)"
| "wait_read_loop P (Suc n) h =
     (let (v, h') = in_b P 0x64 h in if v AND 1 \<noteq> 0 then (True, h') else wait_read_loop P n h')"

fun wait_write_loop :: "'h ports \<Rightarrow> nat \<Rightarrow> 'h \<Rightarrow> bool \<times> 'h" where
  "wait_write_loop P 0 h = (False, h)"
| "wait_write_loop P (Suc n) h =
     (let (v, h') = in_b P 0x64 h in if v AND 2 = 0 then (True, h') else wait_write_loop P n h')"

definition wait_read :: "'h ports \<Rightarrow> 'h \<Rightarrow> bool \<times> 'h" where
  "wait_read P h = wait_read_loop P 100000 h"

definition wait_write :: "'h ports \<Rightarrow> 'h \<Rightarrow> bool \<times> 'h" where
  "wait_write P h = wait_write_loop P 100000 h"

text \<open>Wait for the controller and send a byte to a port.\<close>

definition send_to :: "'h ports \<Rightarrow> u16 \<Rightarrow> u8 \<Rightarrow> 'h \<Rightarrow> bool \<times> 'h" where
  "send_to P port v h = (let (ok, h1) = wait_write P h in if \<not> ok then (False, h1) else (True, out_b P port v h1))"

definition mouse_write :: "'h ports \<Rightarrow> u8 \<Rightarrow> 'h \<Rightarrow> bool \<times> 'h" where
  "mouse_write P v h = (let (ok, h1) = send_to P 0x64 0xd4 h in if \<not> ok then (False, h1) else send_to P 0x60 v h1)"

definition mouse_read :: "'h ports \<Rightarrow> 'h \<Rightarrow> u8 option \<times> 'h" where
  "mouse_read P h =
     (let (ok, h1) = wait_read P h in
      if \<not> ok then (None, h1) else (let (v, h2) = in_b P 0x60 h1 in (Some v, h2)))"

text \<open>A command and its acknowledgement.\<close>

definition mouse_command :: "'h ports \<Rightarrow> u8 \<Rightarrow> 'h \<Rightarrow> bool \<times> 'h" where
  "mouse_command P v h =
     (let (ok, h1) = mouse_write P v h in
      if \<not> ok then (False, h1) else (let (ack, h2) = mouse_read P h1 in (ack = Some 0xfa, h2)))"

definition mouse_setup :: "'h ports \<Rightarrow> 'h \<Rightarrow> bool \<times> 'h" where
  "mouse_setup P h =
     (let (ok1, h1) = send_to P 0x64 0xa8 h in
      if \<not> ok1 then (False, h1)
      else
        (let (ok2, h2) = send_to P 0x64 0x20 h1 in
         if \<not> ok2 then (False, h2)
         else
           (let (st, h3) = mouse_read P h2 in
            case st of
              None \<Rightarrow> (False, h3)
            | Some status \<Rightarrow>
                (let (ok4, h4) = send_to P 0x64 0x60 h3 in
                 if \<not> ok4 then (False, h4)
                 else
                   (let (ok5, h5) = send_to P 0x60 ((status OR 0x02) AND NOT 0x20) h4 in
                    if \<not> ok5 then (False, h5)
                    else
                      (let (ok6, h6) = mouse_command P 0xf6 h5 in
                       if \<not> ok6 then (False, h6) else mouse_command P 0xf4 h6))))))"

definition mouse_init :: "'h ports \<Rightarrow> mouse \<Rightarrow> 'h \<Rightarrow> mouse \<times> 'h" where
  "mouse_init P m h =
     (let (ok, h1) = mouse_setup P h in
      (m\<lparr>m_state := \<lparr>ms_present = (if ok then 1 else 0), ms_x = 40, ms_y = 12, ms_buttons = 0, ms_packets = 0\<rparr>, m_index := 0\<rparr>, h1))"

definition clamp :: "u32 \<Rightarrow> u32 \<Rightarrow> u32" where
  "clamp hi v = (if v <s 0 then 0 else if hi <s v then hi else v)"

definition mouse_handle_data :: "u8 \<Rightarrow> mouse \<Rightarrow> mouse" where
  "mouse_handle_data data m =
     (if ms_present (m_state m) = 0 then m
      else
        (let m1 = m\<lparr>m_packet := (m_packet m)[m_index m := data], m_index := m_index m + 1\<rparr> in
         if m_index m1 < 3 then m1
         else
           (let m2 = m1\<lparr>m_index := 0\<rparr>; p = m_packet m2; s = m_state m2 in
            if p ! 0 AND 0x08 = 0 then m2
            else m2\<lparr>m_state := s\<lparr>ms_buttons := p ! 0 AND 0x07, ms_x := clamp 79 (ms_x s + scast (p ! 1)),
                     ms_y := clamp 24 (ms_y s - scast (p ! 2)), ms_packets := ms_packets s + 1\<rparr>\<rparr>)))"

definition mouse_get_state :: "mouse \<Rightarrow> mouse_state" where
  "mouse_get_state m = m_state m"

section \<open>Specification\<close>

text \<open>A packet is its three bytes; the pointer moves on an 80 by 25 grid.\<close>

record pointer =
  pt_x :: int
  pt_y :: int
  pt_buttons :: u8

definition pointer_of :: "mouse \<Rightarrow> pointer" where
  "pointer_of m = \<lparr>pt_x = sint (ms_x (m_state m)), pt_y = sint (ms_y (m_state m)), pt_buttons = ms_buttons (m_state m)\<rparr>"

definition move_pointer :: "u8 \<times> u8 \<times> u8 \<Rightarrow> pointer \<Rightarrow> pointer" where
  "move_pointer = (\<lambda>(b, dx, dy) p.
     \<lparr>pt_x = max 0 (min 79 (pt_x p + sint dx)), pt_y = max 0 (min 24 (pt_y p - sint dy)), pt_buttons = b AND 0x07\<rparr>)"

definition packet_bytes :: "u8 \<times> u8 \<times> u8 \<Rightarrow> u8 list" where
  "packet_bytes = (\<lambda>(b, dx, dy). [b, dx, dy])"

definition mouse_inv :: "mouse \<Rightarrow> bool" where
  "mouse_inv m \<longleftrightarrow> length (m_packet m) = 3 \<and> m_index m < 3 \<and> 0 \<le> sint (ms_x (m_state m)) \<and> sint (ms_x (m_state m)) \<le> 79 \<and>
     0 \<le> sint (ms_y (m_state m)) \<and> sint (ms_y (m_state m)) \<le> 24"

section \<open>Lemmas\<close>

lemma sint_clamp:
  assumes "0 \<le> sint hi"
  shows "sint (clamp hi v) = max 0 (min (sint hi) (sint v))"
  using assms by (auto simp: clamp_def word_sless_alt)

lemma sint_s8: "- 128 \<le> sint (d :: u8)" "sint d \<le> 127"
  using sint_ge [of d] sint_lt [of d] by simp_all

lemma sint_of_range:
  assumes "- (2 ^ 31) \<le> n" and "n < 2 ^ 31"
  shows "sint (word_of_int n :: u32) = n"
  using assms by (simp add: signed_of_int signed_take_bit_int_eq_self)

lemma sint_add_s8:
  fixes x :: u32 and d :: u8
  assumes "0 \<le> sint x" and "sint x \<le> 1000"
  shows "sint (x + scast d) = sint x + sint d" "sint (x - scast d) = sint x - sint d"
proof -
  have "x + scast d = word_of_int (sint x + sint d)" "x - scast d = word_of_int (sint x - sint d)"
    by simp_all
  then show "sint (x + scast d) = sint x + sint d" "sint (x - scast d) = sint x - sint d"
    using assms sint_s8 [of d] by (simp_all only:) (rule sint_of_range; simp)+
qed

text \<open>A whole packet at a packet boundary.\<close>

lemma three_bytes:
  assumes inv: "mouse_inv m" and p: "ms_present (m_state m) \<noteq> 0" and i: "m_index m = 0"
  shows "fold mouse_handle_data [b, dx, dy] m =
    (let m' = m\<lparr>m_packet := [b, dx, dy]\<rparr>; s = m_state m in
     if b AND 0x08 = 0 then m'
     else m'\<lparr>m_state := s\<lparr>ms_buttons := b AND 0x07, ms_x := clamp 79 (ms_x s + scast dx),
       ms_y := clamp 24 (ms_y s - scast dy), ms_packets := ms_packets s + 1\<rparr>\<rparr>)"
proof -
  obtain a0 a1 a2 where a: "m_packet m = [a0, a1, a2]"
    using inv by (auto simp: mouse_inv_def numeral_3_eq_3 length_Suc_conv)
  obtain st pk ix where m: "m = \<lparr>m_state = st, m_packet = pk, m_index = ix\<rparr>" by (cases m)
  show ?thesis using p i a by (auto simp: m mouse_handle_data_def Let_def)
qed

lemma clamped_moves:
  assumes "mouse_inv m"
  shows "sint (clamp 79 (ms_x (m_state m) + scast (dx :: u8))) = max 0 (min 79 (sint (ms_x (m_state m)) + sint dx))"
    "sint (clamp 24 (ms_y (m_state m) - scast (dy :: u8))) = max 0 (min 24 (sint (ms_y (m_state m)) - sint dy))"
  using assms by (simp_all add: sint_clamp sint_add_s8 mouse_inv_def)

lemma handle_data_inv:
  assumes inv: "mouse_inv m"
  shows "mouse_inv (mouse_handle_data d m)"
proof -
  have i: "m_index m < 3" "length (m_packet m) = 3" using inv by (simp_all add: mouse_inv_def)
  have c: "0 \<le> sint (clamp 79 v)" "sint (clamp 79 v) \<le> 79" "0 \<le> sint (clamp 24 v)" "sint (clamp 24 v) \<le> 24" for v
    by (simp_all add: sint_clamp)
  show ?thesis using inv i c by (auto simp: mouse_handle_data_def Let_def mouse_inv_def)
qed

lemma packet_step:
  assumes inv: "mouse_inv m" and p: "ms_present (m_state m) \<noteq> 0" and i: "m_index m = 0" and b: "b AND 0x08 \<noteq> 0"
    and m'_def: "m' = fold mouse_handle_data (packet_bytes (b, dx, dy)) m"
  shows "mouse_inv m'" "ms_present (m_state m') = ms_present (m_state m)" "m_index m' = 0"
    "pointer_of m' = move_pointer (b, dx, dy) (pointer_of m)" "ms_packets (m_state m') = ms_packets (m_state m) + 1"
proof -
  have e: "m' = m\<lparr>m_packet := [b, dx, dy], m_state := (m_state m)\<lparr>ms_buttons := b AND 0x07, ms_x := clamp 79 (ms_x (m_state m) + scast dx),
       ms_y := clamp 24 (ms_y (m_state m) - scast dy), ms_packets := ms_packets (m_state m) + 1\<rparr>\<rparr>"
    using three_bytes [OF inv p i, of b dx dy] b unfolding m'_def packet_bytes_def prod.case by (simp only: Let_def if_False)
  show "mouse_inv m'" "ms_present (m_state m') = ms_present (m_state m)" "m_index m' = 0"
    "pointer_of m' = move_pointer (b, dx, dy) (pointer_of m)" "ms_packets (m_state m') = ms_packets (m_state m) + 1"
    unfolding e using i clamped_moves [OF inv] by (simp_all add: mouse_inv_def pointer_of_def move_pointer_def)
qed

lemma mouse_init_inv: "length (m_packet m) = 3 \<Longrightarrow> mouse_init P m h = (m', h') \<Longrightarrow> mouse_inv m'"
  by (auto simp: mouse_init_def mouse_inv_def Let_def split: prod.splits)

text \<open>The bytes of complete packets, read one byte late: the previous third byte comes first.\<close>

lemma shifted_packet:
  assumes inv: "mouse_inv m" and p: "ms_present (m_state m) \<noteq> 0" and i: "m_index m = 1"
    and b: "m_packet m ! 0 AND 0x08 = 0"
    and m'_def: "m' = fold mouse_handle_data [x, y, z] m"
  shows "mouse_inv m'" "m_state m' = m_state m" "m_index m' = 1" "m_packet m' ! 0 = z"
proof -
  obtain a0 a1 a2 where a: "m_packet m = [a0, a1, a2]"
    using inv by (auto simp: mouse_inv_def numeral_3_eq_3 length_Suc_conv)
  obtain st pk ix where m: "m = \<lparr>m_state = st, m_packet = pk, m_index = ix\<rparr>" by (cases m)
  have e: "m' = m\<lparr>m_packet := [z, x, y], m_index := 1\<rparr>"
    using p i a b unfolding m'_def by (simp add: m mouse_handle_data_def Let_def)
  show "mouse_inv m'" "m_state m' = m_state m" "m_index m' = 1" "m_packet m' ! 0 = z"
    using inv unfolding e by (simp_all add: mouse_inv_def)
qed

definition demo_mouse :: mouse where
  "demo_mouse = mouse_bss\<lparr>m_state := \<lparr>ms_present = 1, ms_x = 40, ms_y = 12, ms_buttons = 0, ms_packets = 0\<rparr>\<rparr>"

lemma demo_mouse_ok: "mouse_inv demo_mouse" "ms_present (m_state demo_mouse) \<noteq> 0" "m_index demo_mouse = 0"
  by (simp_all add: demo_mouse_def mouse_bss_def mouse_inv_def)

section \<open>Correctness\<close>

text \<open>C37: the decoder implements a pointer on the 80 by 25 grid.  Fed with the bytes of any sequence
  of well-formed packets from a packet boundary, it moves the pointer by the signed
  displacements, the vertical one upwards, clips it at the edges after every packet, reports the
  buttons of the last packet, counts the packets and is at a packet boundary again.\<close>

theorem mouse_packets_refine:
  assumes "mouse_inv m" and "ms_present (m_state m) \<noteq> 0" and "m_index m = 0" and "\<forall>(b, dx, dy) \<in> set ps. b AND 0x08 \<noteq> 0"
    and "m' = fold mouse_handle_data (concat (map packet_bytes ps)) m"
  shows "pointer_of m' = fold move_pointer ps (pointer_of m) \<and>
    ms_packets (m_state m') = ms_packets (m_state m) + word_of_nat (length ps) \<and> m_index m' = 0 \<and> mouse_inv m'"
  using assms
proof (induction ps arbitrary: m)
  case (Cons p ps)
  obtain b dx dy where p: "p = (b, dx, dy)" by (cases p)
  let ?m = "fold mouse_handle_data (packet_bytes p) m"
  have "b AND 0x08 \<noteq> 0" using Cons.prems(4) by (auto simp: p)
  note s = packet_step [OF Cons.prems(1-3) this refl, of dx dy, folded p]
  have "m' = fold mouse_handle_data (concat (map packet_bytes ps)) ?m" using Cons.prems(5) by simp
  from Cons.IH [OF s(1) _ s(3) _ this] Cons.prems(2,4) s show ?case by simp
qed simp

theorem mouse_packets_refine_witness:
  "pt_x (pointer_of (fold mouse_handle_data (concat (map packet_bytes [(0x09, 5, 0xff), (0x08, 100, 0)])) demo_mouse)) = 79"
proof -
  have s: "sint (5 :: u8) = 5" "sint (100 :: u8) = 100" by simp_all
  from mouse_packets_refine [OF demo_mouse_ok, of "[(0x09, 5, 0xff), (0x08, 100, 0)]" "fold mouse_handle_data (concat (map packet_bytes [(0x09, 5, 0xff), (0x08, 100, 0)])) demo_mouse"]
  have "pointer_of (fold mouse_handle_data (concat (map packet_bytes [(0x09, 5, 0xff), (0x08, 100, 0)])) demo_mouse)
    = fold move_pointer [(0x09, 5, 0xff), (0x08, 100, 0)] (pointer_of demo_mouse)" by simp
  then show ?thesis by (simp add: move_pointer_def pointer_of_def demo_mouse_def mouse_bss_def s)
qed

text \<open>The pointer never leaves the screen.  After \<open>mouse_init\<close>, whatever the controller answers
  and however its polling ends, and after any bytes whatsoever, the position is inside the 80 by
  25 grid and the packet index inside the packet array.\<close>

theorem mouse_stays_on_screen: "mouse_inv (fold mouse_handle_data bytes (fst (mouse_init P mouse_bss h)))"
proof -
  have "mouse_inv (fst (mouse_init P mouse_bss h))"
    using mouse_init_inv [of mouse_bss P h] by (cases "mouse_init P mouse_bss h") (simp add: mouse_bss_def)
  then show ?thesis by (induction bytes arbitrary: P h rule: rev_induct) (simp_all add: handle_data_inv)
qed

text \<open>A byte too many on the line is never recovered from.  If the decoder is one byte ahead (one
  spurious byte without the sync bit has arrived) then every following stream of well-formed
  packets without the sync bit in their last byte is discarded: the pointer, the buttons and the
  packet counter never change again, because the decoder only drops whole groups of three bytes.\<close>

theorem mouse_never_resynchronises:
  assumes "mouse_inv m" and "ms_present (m_state m) \<noteq> 0" and "m_index m = 1" and "m_packet m ! 0 AND 0x08 = 0"
    and "\<forall>(b, dx, dy) \<in> set ps. b AND 0x08 \<noteq> 0 \<and> dy AND 0x08 = 0"
  shows "mouse_get_state (fold mouse_handle_data (concat (map packet_bytes ps)) m) = mouse_get_state m"
  unfolding mouse_get_state_def using assms
proof (induction ps arbitrary: m)
  case (Cons p ps)
  obtain b dx dy where p: "p = (b, dx, dy)" by (cases p)
  note s = shifted_packet [OF Cons.prems(1-4) refl, of b dx dy]
  have "m_state (fold mouse_handle_data (concat (map packet_bytes ps)) (fold mouse_handle_data [b, dx, dy] m)) =
    m_state (fold mouse_handle_data [b, dx, dy] m)"
    using Cons.prems s by (intro Cons.IH) (auto simp: p simp del: fold_simps)
  then show ?case using s(2) by (simp add: p packet_bytes_def)
qed simp

theorem mouse_never_resynchronises_witness:
  "mouse_get_state (fold mouse_handle_data (concat (map packet_bytes [(0x08, 5, 2), (0x0a, 1, 1)])) (mouse_handle_data 0 demo_mouse))
    = mouse_get_state (mouse_handle_data 0 demo_mouse)"
proof -
  have i: "mouse_inv (mouse_handle_data 0 demo_mouse)" by (rule handle_data_inv [OF demo_mouse_ok(1)])
  have d: "(2 :: u8) AND 8 = 0" "(1 :: u8) AND 8 = 0" "(10 :: u8) AND 8 \<noteq> 0" by simp_all
  show ?thesis
    by (rule mouse_never_resynchronises [OF i])
      (simp_all add: d, simp_all add: mouse_handle_data_def demo_mouse_def mouse_bss_def)
qed

end
