(* ===== verification/Descriptors.thy ===== *)
theory Descriptors
  imports Prelude
begin

text \<open>
  The segment and interrupt descriptors of \<open>kernel/gdt.c\<close> and \<open>kernel/idt.c\<close>: the tables the
  kernel builds in memory, and what the processor reads from them.  The addresses of the tables,
  of the task state segment and of the interrupt stubs are parameters.
\<close>

section \<open>Definitions\<close>

definition GDT_KERNEL_CODE_SELECTOR :: u16 where "GDT_KERNEL_CODE_SELECTOR = 0x18"
definition GDT_KERNEL_DATA_SELECTOR :: u16 where "GDT_KERNEL_DATA_SELECTOR = 0x20"
definition GDT_USER_CODE_SELECTOR :: u16 where "GDT_USER_CODE_SELECTOR = 0x2b"
definition GDT_USER_DATA_SELECTOR :: u16 where "GDT_USER_DATA_SELECTOR = 0x33"
definition GDT_TSS_SELECTOR :: u16 where "GDT_TSS_SELECTOR = 0x38"

text \<open>\<open>TSS_SIZE\<close> is \<open>sizeof(struct tss64)\<close>; of its fields \<open>gdt_init\<close> sets two.\<close>

definition TSS_SIZE :: nat where "TSS_SIZE = 104"

record tss64 =
  tss_rsp0 :: u64
  tss_iomap_base :: u16

record gdt_state =
  gdt_entries :: "u64 list"
  kernel_tss :: tss64
  gdt_limit :: u16
  gdt_base :: u64
  data_selector :: u16
  task_register :: u16

definition tss_low :: "u64 \<Rightarrow> u32 \<Rightarrow> u64" where
  "tss_low base limit =
     (((((ucast limit AND 0xffff) OR push_bit 16 (base AND 0xffffff)) OR push_bit 40 0x89)
       OR push_bit 48 (ucast (drop_bit 16 limit AND 0x0f))) OR push_bit 56 (drop_bit 24 base AND 0xff))"

definition tss_high :: "u64 \<Rightarrow> u64" where
  "tss_high base = drop_bit 32 base AND 0xffffffff"

definition set_tss_descriptor :: "u64 \<Rightarrow> u32 \<Rightarrow> u64 list \<Rightarrow> u64 list" where
  "set_tss_descriptor base limit g = g[7 := tss_low base limit, 8 := tss_high base]"

definition gdt_init :: "u64 \<Rightarrow> u64 \<Rightarrow> u64 \<Rightarrow> gdt_state" where
  "gdt_init gdt_addr tss_addr stack_top =
     \<lparr>gdt_entries = set_tss_descriptor tss_addr (word_of_nat (TSS_SIZE - 1))
        ((replicate 9 0)[1 := 0x00cf9a000000ffff, 2 := 0x00cf92000000ffff, 3 := 0x00af9a000000ffff,
           4 := 0x00af92000000ffff, 5 := 0x00affa000000ffff, 6 := 0x00aff2000000ffff]),
      kernel_tss = \<lparr>tss_rsp0 = stack_top, tss_iomap_base = word_of_nat TSS_SIZE\<rparr>,
      gdt_limit = 9 * 8 - 1, gdt_base = gdt_addr, data_selector = GDT_KERNEL_DATA_SELECTOR, task_register = GDT_TSS_SELECTOR\<rparr>"

definition gdt_kernel_stack_top :: "gdt_state \<Rightarrow> u64" where
  "gdt_kernel_stack_top g = tss_rsp0 (kernel_tss g)"

record idt_entry =
  offset_low :: u16
  gate_selector :: u16
  gate_ist :: u8
  type_attr :: u8
  offset_mid :: u16
  offset_high :: u32
  gate_zero :: u32

definition idt_entry_zero :: idt_entry where
  "idt_entry_zero = \<lparr>offset_low = 0, gate_selector = 0, gate_ist = 0, type_attr = 0, offset_mid = 0, offset_high = 0, gate_zero = 0\<rparr>"

record idt_state =
  idt_table :: "idt_entry list"
  irq_counts :: "u64 list"
  idt_limit :: u16

definition set_gate :: "u8 \<Rightarrow> u64 \<Rightarrow> u8 \<Rightarrow> idt_entry list \<Rightarrow> idt_entry list" where
  "set_gate vector addr attr t =
     t[unat vector := \<lparr>offset_low = ucast (addr AND 0xffff), gate_selector = GDT_KERNEL_CODE_SELECTOR, gate_ist = 0,
         type_attr = attr, offset_mid = ucast (drop_bit 16 addr AND 0xffff), offset_high = ucast (drop_bit 32 addr), gate_zero = 0\<rparr>]"

definition idt_init :: "(nat \<Rightarrow> u64) \<Rightarrow> u64 \<Rightarrow> idt_state" where
  "idt_init isr_stub_table isr_stub_128 =
     (let t0 = replicate 256 idt_entry_zero;
          t1 = fold (\<lambda>i. set_gate (word_of_nat i) (isr_stub_table i) 0x8e) [0..<48] t0
      in \<lparr>idt_table = set_gate 0x80 isr_stub_128 0xee t1, irq_counts = replicate 256 0, idt_limit = 256 * 16 - 1\<rparr>)"

definition idt_irq_count :: "u8 \<Rightarrow> idt_state \<Rightarrow> u64" where
  "idt_irq_count vector s = irq_counts s ! unat vector"

definition idt_record_irq :: "u8 \<Rightarrow> idt_state \<Rightarrow> idt_state" where
  "idt_record_irq vector s = s\<lparr>irq_counts := (irq_counts s)[unat vector := irq_counts s ! unat vector + 1]\<rparr>"

section \<open>The processor's view\<close>

text \<open>A selector names an entry and a privilege level; the fields of a segment descriptor, of a
  system descriptor and of an interrupt gate, as the processor reads them.\<close>

definition selector_index :: "u16 \<Rightarrow> nat" where
  "selector_index s = unat (drop_bit 3 s)"

definition selector_rpl :: "u16 \<Rightarrow> nat" where
  "selector_rpl s = unat (s AND 3)"

definition seg_present :: "u64 \<Rightarrow> bool" where "seg_present d \<longleftrightarrow> bit d 47"
definition seg_dpl :: "u64 \<Rightarrow> nat" where "seg_dpl d = unat (drop_bit 45 d AND 3)"
definition seg_code :: "u64 \<Rightarrow> bool" where "seg_code d \<longleftrightarrow> bit d 44 \<and> bit d 43"
definition seg_data :: "u64 \<Rightarrow> bool" where "seg_data d \<longleftrightarrow> bit d 44 \<and> \<not> bit d 43"
definition seg_long :: "u64 \<Rightarrow> bool" where "seg_long d \<longleftrightarrow> bit d 53"

definition sys_base :: "u64 \<Rightarrow> u64 \<Rightarrow> u64" where
  "sys_base low high = (drop_bit 16 low AND 0xffffff) OR push_bit 24 (drop_bit 56 low AND 0xff) OR push_bit 32 (high AND 0xffffffff)"

definition sys_limit :: "u64 \<Rightarrow> u64" where
  "sys_limit low = (low AND 0xffff) OR push_bit 16 (drop_bit 48 low AND 0x0f)"

definition sys_type :: "u64 \<Rightarrow> u64" where
  "sys_type low = drop_bit 40 low AND 0x1f"

definition gate_target :: "idt_entry \<Rightarrow> u64" where
  "gate_target e = ucast (offset_low e) OR push_bit 16 (ucast (offset_mid e)) OR push_bit 32 (ucast (offset_high e))"

definition gate_present :: "idt_entry \<Rightarrow> bool" where "gate_present e \<longleftrightarrow> bit (type_attr e) 7"
definition gate_dpl :: "idt_entry \<Rightarrow> nat" where "gate_dpl e = unat (drop_bit 5 (type_attr e) AND 3)"
definition gate_interrupt :: "idt_entry \<Rightarrow> bool" where "gate_interrupt e \<longleftrightarrow> type_attr e AND 0x1f = 0x0e"

section \<open>Lemmas\<close>

lemma mask_bits:
  "bit (0xff :: u64) n \<longleftrightarrow> n < 8" "bit (0xffff :: u64) n \<longleftrightarrow> n < 16" "bit (0xffffff :: u64) n \<longleftrightarrow> n < 24"
  "bit (0xffffffff :: u64) n \<longleftrightarrow> n < 32" "bit (0x0f :: u64) n \<longleftrightarrow> n < 4" "bit (0xffff :: u16) n \<longleftrightarrow> n < 16"
proof -
  have m: "(0xff :: u64) = mask 8" "(0xffff :: u64) = mask 16" "(0xffffff :: u64) = mask 24" "(0xffffffff :: u64) = mask 32"
    "(0x0f :: u64) = mask 4" "(0xffff :: u16) = mask 16"
    by (simp_all add: mask_eq_exp_minus_1)
  show "bit (0xff :: u64) n \<longleftrightarrow> n < 8" "bit (0xffff :: u64) n \<longleftrightarrow> n < 16" "bit (0xffffff :: u64) n \<longleftrightarrow> n < 24"
    "bit (0xffffffff :: u64) n \<longleftrightarrow> n < 32" "bit (0x0f :: u64) n \<longleftrightarrow> n < 4" "bit (0xffff :: u16) n \<longleftrightarrow> n < 16"
    unfolding m by (auto simp: bit_mask_iff)
qed

lemmas field_bits = bit_or_iff bit_push_bit_iff bit_ucast_iff bit_and_iff bit_drop_bit_eq comp_def mask_bits

lemma literal_bits:
  "bit (0x89 :: u64) n \<longleftrightarrow> n = 0 \<or> n = 3 \<or> n = 7" "bit (0x09 :: u64) n \<longleftrightarrow> n = 0 \<or> n = 3" "bit (0x1f :: u64) n \<longleftrightarrow> n < 5"
  "bit (0x0f :: u32) n \<longleftrightarrow> n < 4" "bit (0xfffff :: u32) n \<longleftrightarrow> n < 20"
proof -
  have 1: "(0x89 :: u64) = push_bit 0 1 OR push_bit 3 1 OR push_bit 7 1" "(0x09 :: u64) = push_bit 0 1 OR push_bit 3 1" by simp_all
  have 2: "(0x1f :: u64) = mask 5" "(0x0f :: u32) = mask 4" "(0xfffff :: u32) = mask 20" by (simp_all add: mask_eq_exp_minus_1)
  show "bit (0x89 :: u64) n \<longleftrightarrow> n = 0 \<or> n = 3 \<or> n = 7" "bit (0x09 :: u64) n \<longleftrightarrow> n = 0 \<or> n = 3"
    unfolding 1 bit_or_iff bit_push_bit_iff bit_1_iff by auto
  show "bit (0x1f :: u64) n \<longleftrightarrow> n < 5" "bit (0x0f :: u32) n \<longleftrightarrow> n < 4" "bit (0xfffff :: u32) n \<longleftrightarrow> n < 20"
    unfolding 2 bit_mask_iff by auto
qed

lemma gate_address:
  assumes "unat v < length t"
  shows "gate_target (set_gate v a attr t ! unat v) = a"
proof (rule bit_word_eqI)
  fix n assume n: "n < LENGTH(64)"
  have e: "gate_target (set_gate v a attr t ! unat v) = ucast (ucast (a AND 0xffff) :: u16) OR
      push_bit 16 (ucast (ucast (drop_bit 16 a AND 0xffff) :: u16)) OR push_bit 32 (ucast (ucast (drop_bit 32 a) :: u32))"
    using assms by (simp only: gate_target_def set_gate_def nth_list_update_eq idt_entry.simps)
  consider "n < 16" | "16 \<le> n" "n < 32" | "32 \<le> n" by linarith
  then show "bit (gate_target (set_gate v a attr t ! unat v)) n \<longleftrightarrow> bit a n"
    unfolding e field_bits using n by cases auto
qed

text \<open>The processor reads the base back from the two halves of the descriptor.\<close>

lemma tss_base: "sys_base (tss_low b l) (tss_high b) = b"
proof (rule bit_word_eqI)
  fix n assume n: "n < LENGTH(64)"
  have l: "\<not> bit l m" if "32 \<le> m" for m using that bit_imp_le_length [of l m] by auto
  consider "n < 24" | "24 \<le> n" "n < 32" | "32 \<le> n" by linarith
  then show "bit (sys_base (tss_low b l) (tss_high b)) n \<longleftrightarrow> bit b n"
    unfolding sys_base_def tss_low_def tss_high_def field_bits literal_bits using n l by cases auto
qed

lemma tss_limit: "sys_limit (tss_low b l) = ucast (l AND 0xfffff)"
proof (rule bit_word_eqI)
  fix n assume n: "n < LENGTH(64)"
  consider "n < 16" | "16 \<le> n" "n < 20" | "20 \<le> n" by linarith
  then show "bit (sys_limit (tss_low b l)) n \<longleftrightarrow> bit (ucast (l AND 0xfffff) :: u64) n"
    unfolding sys_limit_def tss_low_def field_bits literal_bits using n by cases auto
qed

lemma tss_type: "sys_type (tss_low b l) = 0x09"
proof (rule bit_word_eqI)
  fix n assume n: "n < LENGTH(64)"
  show "bit (sys_type (tss_low b l)) n \<longleftrightarrow> bit (0x09 :: u64) n"
    unfolding sys_type_def tss_low_def field_bits literal_bits using n by auto
qed

lemma tss_present: "seg_present (tss_low b l)"
  unfolding seg_present_def tss_low_def field_bits literal_bits by auto

lemma gate_attributes:
  assumes "unat v < length t"
  shows "type_attr (set_gate v a attr t ! unat v) = attr" "gate_selector (set_gate v a attr t ! unat v) = GDT_KERNEL_CODE_SELECTOR"
  using assms by (simp_all add: set_gate_def)

lemma set_gate_other: "i \<noteq> unat v \<Longrightarrow> set_gate v a attr t ! i = t ! i" "length (set_gate v a attr t) = length t"
  by (simp_all add: set_gate_def)

lemma gates_loop:
  assumes "n \<le> 48" and "length t = 256"
  shows "length (fold (\<lambda>i. set_gate (word_of_nat i) (stub i) 0x8e) [0..<n] t) = 256 \<and>
    (\<forall>j < 256. fold (\<lambda>i. set_gate (word_of_nat i) (stub i) 0x8e) [0..<n] t ! j =
       (if j < n then set_gate (word_of_nat j) (stub j) 0x8e t ! j else t ! j))"
  using assms
proof (induction n)
  case (Suc n)
  have u: "unat (word_of_nat n :: u8) = n" using Suc.prems by (simp add: unat_word_of_nat_less)
  let ?t = "fold (\<lambda>i. set_gate (word_of_nat i) (stub i) 0x8e) [0..<n] t"
  have l: "length ?t = 256" and ih: "j < 256 \<Longrightarrow> ?t ! j = (if j < n then set_gate (word_of_nat j) (stub j) 0x8e t ! j else t ! j)" for j
    using Suc by simp_all
  have "set_gate (word_of_nat n) (stub n) 0x8e ?t ! j =
      (if j < Suc n then set_gate (word_of_nat j) (stub j) 0x8e t ! j else t ! j)" if "j < 256" for j
  proof (cases "j = n")
    case True
    then show ?thesis using l Suc.prems by (simp add: set_gate_def u)
  next
    case False
    then show ?thesis using ih [OF that] by (auto simp: set_gate_other u)
  qed
  then show ?case using l by (simp add: set_gate_other)
qed simp

section \<open>Correctness\<close>

text \<open>The segments the kernel installs are the ones its selectors claim.  In the table built by
  \<open>gdt_init\<close> the kernel selectors name a present 64-bit code segment and a present data segment of
  privilege 0, the user selectors a present 64-bit code segment and a data segment of privilege 3,
  requested with privilege 3, and the task register a present, available 64-bit task state segment
  whose base and limit are the kernel's, so that an interrupt from ring 3 runs on the privilege stack.\<close>

theorem gdt_selectors_correct:
  "let g = gdt_init gdt_addr tss_addr stack_top;
       d = (\<lambda>s. gdt_entries g ! selector_index s);
       low = d (task_register g);
       high = gdt_entries g ! (selector_index (task_register g) + 1)
   in seg_present (d GDT_KERNEL_CODE_SELECTOR) \<and> seg_code (d GDT_KERNEL_CODE_SELECTOR) \<and> seg_long (d GDT_KERNEL_CODE_SELECTOR) \<and>
      seg_dpl (d GDT_KERNEL_CODE_SELECTOR) = 0 \<and>
      seg_present (d (data_selector g)) \<and> seg_data (d (data_selector g)) \<and> seg_dpl (d (data_selector g)) = 0 \<and>
      seg_present (d GDT_USER_CODE_SELECTOR) \<and> seg_code (d GDT_USER_CODE_SELECTOR) \<and> seg_long (d GDT_USER_CODE_SELECTOR) \<and>
      seg_dpl (d GDT_USER_CODE_SELECTOR) = 3 \<and> selector_rpl GDT_USER_CODE_SELECTOR = 3 \<and>
      seg_present (d GDT_USER_DATA_SELECTOR) \<and> seg_data (d GDT_USER_DATA_SELECTOR) \<and> seg_dpl (d GDT_USER_DATA_SELECTOR) = 3 \<and>
      selector_rpl GDT_USER_DATA_SELECTOR = 3 \<and>
      seg_present low \<and> sys_type low = 0x09 \<and> sys_base low high = tss_addr \<and> sys_limit low = word_of_nat (TSS_SIZE - 1) \<and>
      gdt_kernel_stack_top g = stack_top \<and> unat (gdt_limit g) + 1 = 8 * length (gdt_entries g)"
proof -
  have i: "selector_index GDT_KERNEL_CODE_SELECTOR = 3" "selector_index GDT_KERNEL_DATA_SELECTOR = 4"
    "selector_index GDT_USER_CODE_SELECTOR = 5" "selector_index GDT_USER_DATA_SELECTOR = 6" "selector_index GDT_TSS_SELECTOR = 7"
    "selector_rpl GDT_USER_CODE_SELECTOR = 3" "selector_rpl GDT_USER_DATA_SELECTOR = 3"
    by (simp_all add: selector_index_def selector_rpl_def GDT_KERNEL_CODE_SELECTOR_def GDT_KERNEL_DATA_SELECTOR_def
        GDT_USER_CODE_SELECTOR_def GDT_USER_DATA_SELECTOR_def GDT_TSS_SELECTOR_def)
  define l where "l = (word_of_nat (TSS_SIZE - 1) :: u32)"
  have e: "gdt_entries (gdt_init gdt_addr tss_addr stack_top) = [0, 0x00cf9a000000ffff, 0x00cf92000000ffff, 0x00af9a000000ffff,
      0x00af92000000ffff, 0x00affa000000ffff, 0x00aff2000000ffff, tss_low tss_addr l, tss_high tss_addr]"
    by (simp add: gdt_init_def set_tss_descriptor_def l_def numeral_eq_Suc)
  have lim: "sys_limit (tss_low tss_addr l) = word_of_nat (TSS_SIZE - 1)"
    unfolding tss_limit by (simp add: l_def TSS_SIZE_def)
  have s: "data_selector (gdt_init gdt_addr tss_addr stack_top) = GDT_KERNEL_DATA_SELECTOR"
    "task_register (gdt_init gdt_addr tss_addr stack_top) = GDT_TSS_SELECTOR"
    "gdt_kernel_stack_top (gdt_init gdt_addr tss_addr stack_top) = stack_top" "unat (gdt_limit (gdt_init gdt_addr tss_addr stack_top)) = 71"
    by (simp_all add: gdt_init_def gdt_kernel_stack_top_def)
  show ?thesis
    unfolding Let_def s i e
    by (simp add: tss_base tss_type tss_present lim) (simp add: seg_present_def seg_code_def seg_data_def seg_long_def seg_dpl_def)
qed

text \<open>The interrupt gates.  After \<open>idt_init\<close> the gates of the vectors below 48 lead to their stubs and
  can only be used by the processor and by ring 0, the gate of vector 0x80 leads to the system
  call stub and is the only one open to ring 3, all of them are interrupt gates into the kernel
  code segment, and no other gate is present; the counters are zero.\<close>

theorem idt_gates_correct:
  assumes "j < 256" and "e = idt_table (idt_init stub sysstub) ! j"
  shows "(gate_present e \<longleftrightarrow> j < 48 \<or> j = 0x80) \<and>
    (gate_present e \<longrightarrow> gate_interrupt e \<and> gate_selector e = GDT_KERNEL_CODE_SELECTOR \<and>
       gate_target e = (if j = 0x80 then sysstub else stub j) \<and> (gate_dpl e = 3 \<longleftrightarrow> j = 0x80) \<and> gate_dpl e \<in> {0, 3}) \<and>
    idt_irq_count (word_of_nat j) (idt_init stub sysstub) = 0"
proof -
  let ?t = "replicate 256 idt_entry_zero"
  have u: "unat (word_of_nat j :: u8) = j" using assms(1) by (simp add: unat_word_of_nat_less)
  have g: "length (fold (\<lambda>i. set_gate (word_of_nat i) (stub i) 0x8e) [0..<48] ?t) = 256"
    "fold (\<lambda>i. set_gate (word_of_nat i) (stub i) 0x8e) [0..<48] ?t ! j = (if j < 48 then set_gate (word_of_nat j) (stub j) 0x8e ?t ! j else ?t ! j)"
    using gates_loop [of 48 ?t stub] assms(1) by (simp_all del: upt_conv_Cons_Cons)
  have 80: "unat (0x80 :: u8) = 0x80" by simp
  have e: "e = (if j = 0x80 then set_gate 0x80 sysstub 0xee (fold (\<lambda>i. set_gate (word_of_nat i) (stub i) 0x8e) [0..<48] ?t) ! j
      else if j < 48 then set_gate (word_of_nat j) (stub j) 0x8e ?t ! j else idt_entry_zero)"
    unfolding assms(2) using g(2) assms(1) by (simp add: idt_init_def Let_def set_gate_other del: upt.simps upt_rec_numeral)
  have c: "idt_irq_count (word_of_nat j) (idt_init stub sysstub) = 0"
    using assms(1) by (simp add: idt_irq_count_def idt_init_def Let_def u)
  consider "j = 0x80" | "j < 48" | "j \<noteq> 0x80" "\<not> j < 48" by blast
  then show ?thesis
  proof cases
    case 1
    have ee: "e = set_gate 0x80 sysstub 0xee (fold (\<lambda>i. set_gate (word_of_nat i) (stub i) 0x8e) [0..<48] ?t) ! unat (0x80 :: u8)"
      using e 1 by simp
    have l: "unat (0x80 :: u8) < length (fold (\<lambda>i. set_gate (word_of_nat i) (stub i) 0x8e) [0..<48] ?t)" using g(1) by simp
    have a: "gate_target e = sysstub" "type_attr e = 0xee" "gate_selector e = GDT_KERNEL_CODE_SELECTOR"
      unfolding ee by (rule gate_address [OF l], rule gate_attributes(1) [OF l], rule gate_attributes(2) [OF l])
    show ?thesis using 1 c a by (simp add: gate_present_def gate_interrupt_def gate_dpl_def)
  next
    case 2
    have ee: "e = set_gate (word_of_nat j) (stub j) 0x8e ?t ! unat (word_of_nat j :: u8)" using e 2 u by simp
    have l: "unat (word_of_nat j :: u8) < length ?t" using u assms(1) by simp
    have a: "gate_target e = stub j" "type_attr e = 0x8e" "gate_selector e = GDT_KERNEL_CODE_SELECTOR"
      unfolding ee by (rule gate_address [OF l], rule gate_attributes(1) [OF l], rule gate_attributes(2) [OF l])
    show ?thesis using 2 c a by (simp add: gate_present_def gate_interrupt_def gate_dpl_def)
  next
    case 3
    then show ?thesis using e c by (simp add: gate_present_def idt_entry_zero_def)
  qed
qed

theorem idt_gates_correct_witness:
  "gate_target (idt_table (idt_init (\<lambda>i. 0x100000 + 16 * word_of_nat i) 0x123456789abc) ! 0x80) = 0x123456789abc"
  using idt_gates_correct [of "0x80" _ "\<lambda>i. 0x100000 + 16 * word_of_nat i" "0x123456789abc"] by simp

end
