(* ===== verification/Platform.thy ===== *)
theory Platform
  imports Io
begin

text \<open>
  The rest of the platform code: the interrupt controllers of \<open>kernel/pic.c\<close>, the timer chip of
  \<open>kernel/pit.c\<close>, the initialisation and input side of \<open>kernel/serial.c\<close>, processor discovery in
  \<open>kernel/cpuid.c\<close>, \<open>kernel/apic.c\<close> and \<open>kernel/smp.c\<close>, and the spinlock of \<open>kernel/spinlock.c\<close>.
  The instructions \<open>cpuid\<close> and \<open>rdmsr\<close> are parameters; the lock is a step relation on the
  processors that compete for it.
\<close>

section \<open>Definitions\<close>

subsection \<open>Interrupt controllers, timer and serial port\<close>

definition io_wait :: "'h ports \<Rightarrow> 'h \<Rightarrow> 'h" where
  "io_wait P h = out_b P 0x80 0 h"

definition pic_init :: "'h ports \<Rightarrow> 'h \<Rightarrow> 'h" where
  "pic_init P h =
     (let h1 = fold (\<lambda>(port, v) h. io_wait P (out_b P port v h))
        [(0x20, 0x11), (0xa0, 0x11), (0x21, 0x20), (0xa1, 0x28), (0x21, 0x04), (0xa1, 0x02), (0x21, 0x01), (0xa1, 0x01)] h
      in out_b P 0xa1 0xef (out_b P 0x21 0xf8 h1))"

definition pic_eoi :: "'h ports \<Rightarrow> u8 \<Rightarrow> 'h \<Rightarrow> 'h" where
  "pic_eoi P irq h = out_b P 0x20 0x20 (if irq \<ge> 8 then out_b P 0xa0 0x20 h else h)"

text \<open>\<open>pit_init\<close> divides by its argument; the state is the frequency it stores.\<close>

definition pit_init :: "'h ports \<Rightarrow> u32 \<Rightarrow> 'h \<Rightarrow> u32 \<times> 'h" where
  "pit_init P hz h =
     (let divisor = ucast ((1193182 :: u32) div hz) :: u16
      in (hz, out_b P 0x40 (ucast (drop_bit 8 divisor)) (out_b P 0x40 (ucast (divisor AND 0xff)) (out_b P 0x43 0x36 h))))"

definition COM1 :: u16 where "COM1 = 0x3f8"

definition serial_init :: "'h ports \<Rightarrow> 'h \<Rightarrow> 'h" where
  "serial_init P h =
     fold (\<lambda>(offset, v). out_b P (COM1 + offset) v) [(1, 0x00), (3, 0x80), (0, 0x03), (1, 0x00), (3, 0x03), (2, 0xc7), (4, 0x0b)] h"

definition serial_ready :: "'h ports \<Rightarrow> 'h \<Rightarrow> bool \<times> 'h" where
  "serial_ready P h = (let (v, h1) = in_b P (COM1 + 5) h in (v AND 0x20 \<noteq> 0, h1))"

definition serial_read_nonblock :: "'h ports \<Rightarrow> 'h \<Rightarrow> u8 option \<times> 'h" where
  "serial_read_nonblock P h =
     (let (st, h1) = in_b P (COM1 + 5) h in
      if st AND 1 = 0 then (None, h1) else (let (v, h2) = in_b P COM1 h1 in (Some v, h2)))"

subsection \<open>Processor discovery\<close>

record cpuid_regs =
  r_eax :: u32
  r_ebx :: u32
  r_ecx :: u32
  r_edx :: u32

type_synonym cpuid_query = "u32 \<Rightarrow> u32 \<Rightarrow> cpuid_regs"

definition cpuid_max_basic_leaf :: "cpuid_query \<Rightarrow> u32" where
  "cpuid_max_basic_leaf cpuid = r_eax (cpuid 0 0)"

definition cpuid_vendor :: "cpuid_query \<Rightarrow> u8 list" where
  "cpuid_vendor cpuid = (let regs = cpuid 0 0 in le_bytes 4 (unat (r_ebx regs)) @ le_bytes 4 (unat (r_edx regs)) @ le_bytes 4 (unat (r_ecx regs)) @ [0])"

definition cpuid_logical_cpu_count :: "cpuid_query \<Rightarrow> u32" where
  "cpuid_logical_cpu_count cpuid =
     (if cpuid_max_basic_leaf cpuid \<ge> 1 then drop_bit 16 (r_ebx (cpuid 1 0)) AND 0xff else 1)"

definition cpuid_has_apic :: "cpuid_query \<Rightarrow> bool" where
  "cpuid_has_apic cpuid \<longleftrightarrow> cpuid_max_basic_leaf cpuid \<ge> 1 \<and> r_edx (cpuid 1 0) AND push_bit 9 1 \<noteq> 0"

definition cpuid_has_x2apic :: "cpuid_query \<Rightarrow> bool" where
  "cpuid_has_x2apic cpuid \<longleftrightarrow> cpuid_max_basic_leaf cpuid \<ge> 1 \<and> r_ecx (cpuid 1 0) AND push_bit 21 1 \<noteq> 0"

record apic_info =
  apic_present :: bool
  apic_x2apic :: bool
  apic_id :: u32
  apic_base_msr :: u64
  apic_mmio_base :: u64

definition apic_init :: "cpuid_query \<Rightarrow> (u32 \<Rightarrow> u64) \<Rightarrow> apic_info" where
  "apic_init cpuid rdmsr =
     (if cpuid_has_apic cpuid
      then \<lparr>apic_present = True, apic_x2apic = cpuid_has_x2apic cpuid, apic_id = drop_bit 24 (r_ebx (cpuid 1 0)) AND 0xff,
             apic_base_msr = rdmsr 0x1b, apic_mmio_base = rdmsr 0x1b AND 0xfffff000\<rparr>
      else \<lparr>apic_present = False, apic_x2apic = cpuid_has_x2apic cpuid, apic_id = 0, apic_base_msr = 0, apic_mmio_base = 0\<rparr>)"

definition SMP_MAX_CPUS :: nat where "SMP_MAX_CPUS = 8"

record smp_cpu_info =
  cpu_slot :: u32
  cpu_apic_id :: u32
  cpu_online :: u32
  cpu_bsp :: u32

record smp_state =
  smp_enabled :: u32
  discovered_cpus :: u32
  online_cpus :: u32
  bsp_apic_id :: u32
  cpu_state :: "smp_cpu_info list"

definition cpu_zero :: smp_cpu_info where
  "cpu_zero = \<lparr>cpu_slot = 0, cpu_apic_id = 0, cpu_online = 0, cpu_bsp = 0\<rparr>"

definition smp_init :: "cpuid_query \<Rightarrow> (u32 \<Rightarrow> u64) \<Rightarrow> smp_state" where
  "smp_init cpuid rdmsr =
     (let apic = apic_init cpuid rdmsr;
          logical = cpuid_logical_cpu_count cpuid;
          found = (if logical \<noteq> 0 then logical else 1);
          discovered = (if found > word_of_nat SMP_MAX_CPUS then word_of_nat SMP_MAX_CPUS else found);
          cpus0 = (replicate SMP_MAX_CPUS cpu_zero)[0 := \<lparr>cpu_slot = 0, cpu_apic_id = apic_id apic, cpu_online = 1, cpu_bsp = 1\<rparr>];
          cpus = fold (\<lambda>i cs. cs[i := \<lparr>cpu_slot = word_of_nat i, cpu_apic_id = word_of_nat i, cpu_online = 0, cpu_bsp = 0\<rparr>])
            [1..<unat discovered] cpus0
      in \<lparr>smp_enabled = c_bool (apic_present apic), discovered_cpus = discovered, online_cpus = 1, bsp_apic_id = apic_id apic, cpu_state = cpus\<rparr>)"

definition smp_snapshot_cpus :: "u32 \<Rightarrow> smp_state \<Rightarrow> smp_cpu_info list" where
  "smp_snapshot_cpus max_entries s =
     (let count = (if discovered_cpus s > max_entries then max_entries else discovered_cpus s)
      in map (\<lambda>i. cpu_state s ! i) [0..<unat count])"

subsection \<open>Spinlock\<close>

text \<open>Where a processor is: not interested, before the atomic exchange, in the inner waiting loop,
  or between \<open>spinlock_lock\<close> and \<open>spinlock_unlock\<close>.\<close>

datatype lock_pc = Outside | Exchange | Waiting | Inside

record lock_state =
  locked :: u32
  lock_pcs :: "nat \<Rightarrow> lock_pc"

definition spinlock_init :: "lock_state \<Rightarrow> lock_state" where
  "spinlock_init s = s\<lparr>locked := 0\<rparr>"

text \<open>The atomic exchange of \<open>spinlock_lock\<close> on the lock word, and the store of \<open>spinlock_unlock\<close>.\<close>

definition test_and_set :: "nat \<Rightarrow> lock_state \<Rightarrow> lock_state" where
  "test_and_set i s = \<lparr>locked = 1, lock_pcs = (lock_pcs s)(i := (if locked s \<noteq> 0 then Waiting else Inside))\<rparr>"

definition spinlock_unlock :: "nat \<Rightarrow> lock_state \<Rightarrow> lock_state" where
  "spinlock_unlock i s = \<lparr>locked = 0, lock_pcs = (lock_pcs s)(i := Outside)\<rparr>"

inductive lock_step :: "lock_state \<Rightarrow> lock_state \<Rightarrow> bool" where
  call: "lock_pcs s i = Outside \<Longrightarrow> lock_step s (s\<lparr>lock_pcs := (lock_pcs s)(i := Exchange)\<rparr>)"
| exchange: "lock_pcs s i = Exchange \<Longrightarrow> lock_step s (test_and_set i s)"
| wait: "lock_pcs s i = Waiting \<Longrightarrow> locked s \<noteq> 0 \<Longrightarrow> lock_step s s"
| retry: "lock_pcs s i = Waiting \<Longrightarrow> locked s = 0 \<Longrightarrow> lock_step s (s\<lparr>lock_pcs := (lock_pcs s)(i := Exchange)\<rparr>)"
| unlock: "lock_pcs s i = Inside \<Longrightarrow> lock_step s (spinlock_unlock i s)"

section \<open>The interrupt controllers as devices\<close>

text \<open>An 8259 after the data sheet: an initialisation sequence of four words, an interrupt mask, and
  the in-service bits, of which a non-specific end of interrupt clears the one of highest priority.\<close>

record pic_chip =
  pc_step :: nat
  pc_base :: u8
  pc_mask :: u8
  pc_isr :: "nat set"

definition chip_command :: "u8 \<Rightarrow> pic_chip \<Rightarrow> pic_chip" where
  "chip_command v c =
     (if v AND 0x10 \<noteq> 0 then c\<lparr>pc_step := 1, pc_mask := 0, pc_isr := {}\<rparr>
      else if v = 0x20 \<and> pc_isr c \<noteq> {} then c\<lparr>pc_isr := pc_isr c - {Min (pc_isr c)}\<rparr>
      else c)"

definition chip_data :: "u8 \<Rightarrow> pic_chip \<Rightarrow> pic_chip" where
  "chip_data v c =
     (if pc_step c = 0 then c\<lparr>pc_mask := v\<rparr>
      else if pc_step c = 1 then c\<lparr>pc_base := v AND 0xf8, pc_step := 2\<rparr>
      else if pc_step c = 2 then c\<lparr>pc_step := 3\<rparr>
      else c\<lparr>pc_step := 0\<rparr>)"

definition pic_out :: "u16 \<Rightarrow> u8 \<Rightarrow> pic_chip \<times> pic_chip \<Rightarrow> pic_chip \<times> pic_chip" where
  "pic_out port v = (\<lambda>(master, slave).
     if port = 0x20 then (chip_command v master, slave)
     else if port = 0x21 then (chip_data v master, slave)
     else if port = 0xa0 then (master, chip_command v slave)
     else if port = 0xa1 then (master, chip_data v slave)
     else (master, slave))"

definition pic_ports :: "(pic_chip \<times> pic_chip) ports" where
  "pic_ports = \<lparr>in_b = (\<lambda>_ h. (0, h)), out_b = pic_out, in_w = (\<lambda>_ h. (0, h)), out_w = (\<lambda>_ _ h. h)\<rparr>"

text \<open>Line \<open>irq\<close> reaches the processor, at which vector, and what it sets in service.\<close>

definition irq_enabled :: "nat \<Rightarrow> pic_chip \<times> pic_chip \<Rightarrow> bool" where
  "irq_enabled irq = (\<lambda>(master, slave).
     if irq < 8 then \<not> bit (pc_mask master) irq else \<not> bit (pc_mask slave) (irq - 8) \<and> \<not> bit (pc_mask master) 2)"

definition irq_vector :: "nat \<Rightarrow> pic_chip \<times> pic_chip \<Rightarrow> nat" where
  "irq_vector irq = (\<lambda>(master, slave). if irq < 8 then unat (pc_base master) + irq else unat (pc_base slave) + (irq - 8))"

definition irq_accept :: "nat \<Rightarrow> pic_chip \<times> pic_chip \<Rightarrow> pic_chip \<times> pic_chip" where
  "irq_accept irq = (\<lambda>(master, slave).
     if irq < 8 then (master\<lparr>pc_isr := insert irq (pc_isr master)\<rparr>, slave)
     else (master\<lparr>pc_isr := insert 2 (pc_isr master)\<rparr>, slave\<lparr>pc_isr := insert (irq - 8) (pc_isr slave)\<rparr>))"

section \<open>Lemmas\<close>

lemma pic_init_chips:
  "pic_init pic_ports (m, s) = (m\<lparr>pc_step := 0, pc_base := 0x20, pc_mask := 0xf8, pc_isr := {}\<rparr>,
     s\<lparr>pc_step := 0, pc_base := 0x28, pc_mask := 0xef, pc_isr := {}\<rparr>)"
  by (simp add: pic_init_def Let_def io_wait_def pic_ports_def pic_out_def chip_command_def chip_data_def)

lemma cpus_loop:
  assumes "n \<le> length cs"
  shows "length (fold (\<lambda>i cs. cs[i := f i]) [1..<n] cs) = length cs"
    "j < length cs \<Longrightarrow> fold (\<lambda>i cs. cs[i := f i]) [1..<n] cs ! j = (if 1 \<le> j \<and> j < n then f j else cs ! j)"
proof -
  have "length (fold (\<lambda>i cs. cs[i := f i]) [1..<n] cs) = length cs \<and>
    (\<forall>j < length cs. fold (\<lambda>i cs. cs[i := f i]) [1..<n] cs ! j = (if 1 \<le> j \<and> j < n then f j else cs ! j))"
    using assms
  proof (induction n)
    case (Suc n)
    then show ?case by (cases "1 \<le> n") (auto simp: nth_list_update less_Suc_eq)
  qed simp
  then show "length (fold (\<lambda>i cs. cs[i := f i]) [1..<n] cs) = length cs"
    "j < length cs \<Longrightarrow> fold (\<lambda>i cs. cs[i := f i]) [1..<n] cs ! j = (if 1 \<le> j \<and> j < n then f j else cs ! j)" by blast+
qed

lemma smp_init_cpus:
  fixes cpuid rdmsr
  defines "s \<equiv> smp_init cpuid rdmsr"
  shows "1 \<le> unat (discovered_cpus s)" "unat (discovered_cpus s) \<le> 8" "length (cpu_state s) = 8"
    "cpu_state s ! 0 = \<lparr>cpu_slot = 0, cpu_apic_id = bsp_apic_id s, cpu_online = 1, cpu_bsp = 1\<rparr>"
    "0 < i \<Longrightarrow> i < unat (discovered_cpus s) \<Longrightarrow>
       cpu_state s ! i = \<lparr>cpu_slot = word_of_nat i, cpu_apic_id = word_of_nat i, cpu_online = 0, cpu_bsp = 0\<rparr>"
proof -
  let ?l = "cpuid_logical_cpu_count cpuid"
  let ?f = "if ?l \<noteq> 0 then ?l else 1"
  let ?d = "if ?f > word_of_nat SMP_MAX_CPUS then word_of_nat SMP_MAX_CPUS else ?f"
  have d: "discovered_cpus s = ?d" by (simp add: s_def smp_init_def Let_def)
  have b: "1 \<le> unat ?d" "unat ?d \<le> 8"
    by (auto simp: SMP_MAX_CPUS_def word_less_nat_alt unat_gt_0 Suc_le_eq)
  show "1 \<le> unat (discovered_cpus s)" "unat (discovered_cpus s) \<le> 8" using b d by simp_all
  let ?cs = "(replicate SMP_MAX_CPUS cpu_zero)[0 := \<lparr>cpu_slot = 0, cpu_apic_id = bsp_apic_id s, cpu_online = 1, cpu_bsp = 1\<rparr>]"
  let ?c = "\<lambda>i. \<lparr>cpu_slot = word_of_nat i, cpu_apic_id = word_of_nat i, cpu_online = 0, cpu_bsp = 0\<rparr>"
  have c: "cpu_state s = fold (\<lambda>i cs. cs[i := ?c i]) [1..<unat ?d] ?cs" by (simp add: s_def smp_init_def Let_def)
  have n: "unat ?d \<le> length ?cs" using b by (simp add: SMP_MAX_CPUS_def)
  note l = cpus_loop [OF n, where f = ?c, folded c]
  show "length (cpu_state s) = 8" using l(1) by (simp add: SMP_MAX_CPUS_def)
  show "cpu_state s ! 0 = \<lparr>cpu_slot = 0, cpu_apic_id = bsp_apic_id s, cpu_online = 1, cpu_bsp = 1\<rparr>"
    using l(2) [of 0] by (simp add: SMP_MAX_CPUS_def)
  show "cpu_state s ! i = ?c i" if "0 < i" "i < unat (discovered_cpus s)"
    using l(2) [of i] that b d n by simp
qed

definition lock_inv :: "lock_state \<Rightarrow> bool" where
  "lock_inv s \<longleftrightarrow> (locked s \<noteq> 0 \<longleftrightarrow> (\<exists>i. lock_pcs s i = Inside)) \<and> (\<forall>i j. lock_pcs s i = Inside \<and> lock_pcs s j = Inside \<longrightarrow> i = j)"

lemma lock_inv_move:
  assumes "lock_pcs s i \<noteq> Inside" and "p \<noteq> Inside"
  shows "lock_inv (s\<lparr>lock_pcs := (lock_pcs s)(i := p)\<rparr>) = lock_inv s"
proof -
  have "((lock_pcs s)(i := p)) j = Inside \<longleftrightarrow> lock_pcs s j = Inside" for j using assms by simp
  then show ?thesis by (simp add: lock_inv_def)
qed

lemma lock_step_inv: "lock_step s s' \<Longrightarrow> lock_inv s \<Longrightarrow> lock_inv s'"
proof (induction rule: lock_step.induct)
  case (call s i)
  then show ?case by (simp add: lock_inv_move)
next
  case (exchange s i)
  show ?case
  proof (cases "locked s = 0")
    case True
    then have "\<not> (\<exists>j. lock_pcs s j = Inside)" using exchange by (simp add: lock_inv_def)
    then show ?thesis using True by (auto simp: lock_inv_def test_and_set_def)
  next
    case False
    then obtain k where k: "lock_pcs s k = Inside" using exchange by (auto simp: lock_inv_def)
    then have "k \<noteq> i" using exchange(1) by auto
    with k have i: "\<exists>k. (if k = i then Waiting else lock_pcs s k) = Inside" by (intro exI [of _ k]) simp
    then show ?thesis using exchange False by (auto simp: lock_inv_def test_and_set_def split: if_splits)
  qed
next
  case (retry s i)
  then show ?case by (simp add: lock_inv_move)
next
  case (unlock s i)
  then show ?case by (auto simp: lock_inv_def spinlock_unlock_def)
qed

section \<open>Correctness\<close>

text \<open>The interrupt lines arrive where the dispatcher expects them.  Whatever state the two
  controllers are in, after \<open>pic_init\<close> line \<open>n\<close> is delivered at vector \<open>32 + n\<close>, exactly the timer,
  the keyboard, the cascade and the mouse are enabled, and nothing is in service; accepting any line
  and then running \<open>pic_eoi\<close> for it leaves nothing in service, so no line is blocked afterwards.\<close>

theorem pic_remaps_and_acknowledges:
  assumes "irq < 16" and "c = pic_init pic_ports h"
  shows "irq_vector irq c = 32 + irq \<and> (irq_enabled irq c \<longleftrightarrow> irq \<in> {0, 1, 2, 12}) \<and>
    pic_eoi pic_ports (word_of_nat irq) (irq_accept irq c) = c"
proof -
  obtain m s where h: "h = (m, s)" by fastforce
  let ?m = "m\<lparr>pc_step := 0, pc_base := 0x20, pc_mask := 0xf8, pc_isr := {}\<rparr>" and ?s = "s\<lparr>pc_step := 0, pc_base := 0x28, pc_mask := 0xef, pc_isr := {}\<rparr>"
  have c: "c = (?m, ?s)" using assms(2) by (simp add: h pic_init_chips)
  have u: "unat (word_of_nat irq :: u8) = irq" using assms(1) by (simp add: unat_word_of_nat_less)
  have ge: "(word_of_nat irq :: u8) \<ge> 8 \<longleftrightarrow> \<not> irq < 8" by (simp add: word_le_nat_alt u not_less)
  have "irq = 0 \<or> irq = 1 \<or> irq = 2 \<or> irq = 3 \<or> irq = 4 \<or> irq = 5 \<or> irq = 6 \<or> irq = 7 \<or> irq = 8 \<or> irq = 9 \<or> irq = 10 \<or>
    irq = 11 \<or> irq = 12 \<or> irq = 13 \<or> irq = 14 \<or> irq = 15" using assms(1) by arith
  then have en: "irq_enabled irq c \<longleftrightarrow> irq \<in> {0, 1, 2, 12}"
    unfolding c irq_enabled_def by (elim disjE) simp_all
  have eoi: "chip_command 0x20 (x\<lparr>pc_isr := {i}\<rparr>) = x\<lparr>pc_isr := {}\<rparr>" for x :: pic_chip and i
    by (simp add: chip_command_def)
  have "pic_eoi pic_ports (word_of_nat irq) (irq_accept irq c) = c"
    using eoi [where x = ?m] eoi [where x = ?s] by (simp add: c pic_eoi_def ge irq_accept_def pic_ports_def pic_out_def)
  then show ?thesis using en by (simp add: c irq_vector_def)
qed

definition demo_chip :: pic_chip where
  "demo_chip = \<lparr>pc_step = 0, pc_base = 8, pc_mask = 0, pc_isr = {0}\<rparr>"

theorem pic_remaps_and_acknowledges_witness:
  "irq_vector 12 (pic_init pic_ports (demo_chip, demo_chip)) = 44"
  using pic_remaps_and_acknowledges [of 12 _ "(demo_chip, demo_chip)"] by simp

text \<open>C36: the spinlock excludes.  In every state that any number of processors can reach from an
  initialised lock, however their steps interleave, at most one of them is between lock and
  unlock, and the lock word is set exactly while one is.\<close>

theorem spinlock_mutual_exclusion:
  assumes "lock_step\<^sup>*\<^sup>* (spinlock_init \<lparr>locked = x, lock_pcs = (\<lambda>_. Outside)\<rparr>) s"
  shows "(\<forall>i j. lock_pcs s i = Inside \<and> lock_pcs s j = Inside \<longrightarrow> i = j) \<and> (locked s \<noteq> 0 \<longleftrightarrow> (\<exists>i. lock_pcs s i = Inside))"
proof -
  have "lock_inv s"
    using assms
  proof (induction rule: rtranclp_induct)
    case base
    show ?case by (simp add: lock_inv_def spinlock_init_def)
  qed (rule lock_step_inv)
  then show ?thesis by (simp add: lock_inv_def)
qed

theorem spinlock_mutual_exclusion_witness:
  "\<exists>s :: lock_state. lock_pcs s 0 = Inside \<and> lock_pcs s 1 = Waiting \<and> locked s \<noteq> 0 \<and> (\<forall>i. lock_pcs s i = Inside \<longrightarrow> i = 0)"
proof -
  let ?s0 = "spinlock_init \<lparr>locked = 5, lock_pcs = (\<lambda>_. Outside)\<rparr>"
  let ?s1 = "?s0\<lparr>lock_pcs := (lock_pcs ?s0)(0 := Exchange)\<rparr>"
  let ?s2 = "test_and_set 0 ?s1"
  let ?s3 = "?s2\<lparr>lock_pcs := (lock_pcs ?s2)(1 := Exchange)\<rparr>"
  let ?s4 = "test_and_set 1 ?s3"
  have "lock_step ?s0 ?s1" by (rule call) (simp add: spinlock_init_def)
  moreover have "lock_step ?s1 ?s2" by (rule exchange) simp
  moreover have "lock_step ?s2 ?s3" by (rule call) (simp add: test_and_set_def spinlock_init_def)
  moreover have "lock_step ?s3 ?s4" by (rule exchange) simp
  moreover define s where "s = ?s4"
  ultimately have r: "lock_step\<^sup>*\<^sup>* ?s0 s" unfolding s_def by (meson converse_rtranclp_into_rtranclp rtranclp.rtrancl_refl)
  have f: "lock_pcs s 0 = Inside" "lock_pcs s 1 = Waiting" "locked s \<noteq> 0"
    by (simp_all add: s_def test_and_set_def spinlock_init_def)
  have "i = 0" if "lock_pcs s i = Inside" for i using spinlock_mutual_exclusion [OF r, THEN conjunct1] f(1) that by (elim allE [of _ i] allE [of _ 0]) simp
  with f show ?thesis by (intro exI [of _ s]) simp
qed

text \<open>Processor discovery.  Whatever \<open>cpuid\<close> and \<open>rdmsr\<close> answer, \<open>smp_init\<close> finds between one and
  eight processors, fills exactly their slots inside the table, and marks exactly the first one as
  online and as the boot processor, with the identifier of the local controller; a snapshot is a
  prefix of these slots and no longer than asked for.\<close>

theorem smp_init_slots:
  "let s = smp_init cpuid rdmsr; n = unat (discovered_cpus s); snap = smp_snapshot_cpus k s
   in 1 \<le> n \<and> n \<le> SMP_MAX_CPUS \<and> length (cpu_state s) = SMP_MAX_CPUS \<and>
      (\<forall>i < n. unat (cpu_slot (cpu_state s ! i)) = i \<and> (cpu_online (cpu_state s ! i) = 1 \<longleftrightarrow> i = 0) \<and> (cpu_bsp (cpu_state s ! i) = 1 \<longleftrightarrow> i = 0)) \<and>
      cpu_apic_id (cpu_state s ! 0) = bsp_apic_id s \<and> length snap = min n (unat k) \<and> snap = take (length snap) (cpu_state s)"
proof -
  let ?s = "smp_init cpuid rdmsr"
  note p = smp_init_cpus [where cpuid = cpuid and rdmsr = rdmsr]
  have i: "unat (cpu_slot (cpu_state ?s ! i)) = i \<and> (cpu_online (cpu_state ?s ! i) = 1 \<longleftrightarrow> i = 0) \<and> (cpu_bsp (cpu_state ?s ! i) = 1 \<longleftrightarrow> i = 0)"
    if "i < unat (discovered_cpus ?s)" for i
    using that p(2,4) p(5) [of i] by (cases "i = 0") (simp_all add: unat_word_of_nat_less)
  have l: "length (smp_snapshot_cpus k ?s) = min (unat (discovered_cpus ?s)) (unat k)"
    by (auto simp: smp_snapshot_cpus_def Let_def word_less_nat_alt)
  have "smp_snapshot_cpus k ?s = take (length (smp_snapshot_cpus k ?s)) (cpu_state ?s)"
  proof (rule nth_equalityI)
    show "length (smp_snapshot_cpus k ?s) = length (take (length (smp_snapshot_cpus k ?s)) (cpu_state ?s))" using l p(2,3) by simp
    show "smp_snapshot_cpus k ?s ! j = take (length (smp_snapshot_cpus k ?s)) (cpu_state ?s) ! j" if "j < length (smp_snapshot_cpus k ?s)" for j
      using that by (simp add: smp_snapshot_cpus_def Let_def split: if_splits)
  qed
  then show ?thesis using p i l by (simp add: Let_def SMP_MAX_CPUS_def)
qed

text \<open>The identifiers are only guessed for the other slots: when the boot processor does not have
  identifier 0 but one below the number of processors, two slots get the same identifier.\<close>

theorem smp_init_duplicate_ids:
  assumes "s = smp_init cpuid rdmsr" and "i = unat (bsp_apic_id s)" and "0 < i" and "i < unat (discovered_cpus s)"
  shows "cpu_apic_id (cpu_state s ! i) = cpu_apic_id (cpu_state s ! 0)"
  using smp_init_cpus(4,5) [where cpuid = cpuid and rdmsr = rdmsr] assms by simp

definition demo_cpuid :: cpuid_query where
  "demo_cpuid leaf subleaf = \<lparr>r_eax = 1, r_ebx = 0x02040000, r_ecx = 0, r_edx = 0x200\<rparr>"

theorem smp_init_duplicate_ids_witness:
  "cpu_apic_id (cpu_state (smp_init demo_cpuid (\<lambda>_. 0)) ! 2) = cpu_apic_id (cpu_state (smp_init demo_cpuid (\<lambda>_. 0)) ! 0)"
proof -
  have "bsp_apic_id (smp_init demo_cpuid (\<lambda>_. 0)) = 2" "discovered_cpus (smp_init demo_cpuid (\<lambda>_. 0)) = 4"
    by (simp_all add: smp_init_def apic_init_def Let_def cpuid_has_apic_def cpuid_logical_cpu_count_def cpuid_max_basic_leaf_def
        demo_cpuid_def SMP_MAX_CPUS_def)
  then show ?thesis using smp_init_duplicate_ids [of _ demo_cpuid "\<lambda>_. 0" 2] by simp
qed

end
