(* ===== verification/Interrupts.thy ===== *)
theory Interrupts
  imports Tasks Keyboard Mouse Descriptors Platform
begin

text \<open>
  Interrupt dispatch (\<open>kernel/interrupts.c\<close>) and the system calls of ring 3
  (\<open>usermode_handle_syscall\<close> in \<open>kernel/usermode.c\<close>).  The state is the system, the interrupt
  counters, the mouse and the devices behind the ports; the memory a user program passes to a
  system call is a parameter.
\<close>

section \<open>Definitions\<close>

record interrupt_frame =
  f_r15 :: u64
  f_r14 :: u64
  f_r13 :: u64
  f_r12 :: u64
  f_r11 :: u64
  f_r10 :: u64
  f_r9 :: u64
  f_r8 :: u64
  f_rsi :: u64
  f_rdi :: u64
  f_rbp :: u64
  f_rdx :: u64
  f_rcx :: u64
  f_rbx :: u64
  f_rax :: u64
  f_vector :: u64
  f_error_code :: u64
  f_rip :: u64
  f_cs :: u64
  f_rflags :: u64
  f_rsp :: u64
  f_ss :: u64

record ('d, 'h) board =
  b_sys :: "'d system"
  b_idt :: idt_state
  b_mouse :: mouse
  b_hw :: 'h

abbreviation bk :: "('d, 'h) board \<Rightarrow> 'd kernel" where
  "bk b \<equiv> sys_k (b_sys b)"

definition upd_bk :: "('d kernel \<Rightarrow> 'd kernel) \<Rightarrow> ('d, 'h) board \<Rightarrow> ('d, 'h) board" where
  "upd_bk f b = b\<lparr>b_sys := upd_k f (b_sys b)\<rparr>"

text \<open>How a handler ends: back to the interrupted code with its registers, or at the saved kernel stack.\<close>

datatype isr_result = Resume interrupt_frame | Leave u64

text \<open>A message on the console alone.\<close>

definition say_console :: "char list \<Rightarrow> fmt_arg list \<Rightarrow> 'd kernel \<Rightarrow> 'd kernel" where
  "say_console fmt args k = (case console_printf fmt args (k_con k) of None \<Rightarrow> k | Some c \<Rightarrow> k\<lparr>k_con := c\<rparr>)"

definition both_putc :: "char \<Rightarrow> 'd kernel \<Rightarrow> 'd kernel" where
  "both_putc c k = k\<lparr>k_con := console_putc c (k_con k), k_ser := serial_putc c (if c = LF then serial_putc (CHR 0x0D) (k_ser k) else k_ser k)\<rparr>"

definition syscall_write_string :: "(u64 \<Rightarrow> char) \<Rightarrow> u64 \<Rightarrow> u64 \<Rightarrow> 'd kernel \<Rightarrow> 'd kernel" where
  "syscall_write_string mem src len k =
     (if src = 0 then k
      else fold both_putc (map (\<lambda>i. mem (src + word_of_nat i)) [0..<unat (if len > 256 then 256 else len)]) k)"

definition usermode_handle_syscall :: "(u64 \<Rightarrow> char) \<Rightarrow> interrupt_frame \<Rightarrow> 'd system \<Rightarrow> isr_result \<times> 'd system" where
  "usermode_handle_syscall mem frame s =
     (if f_rax frame = 1 then (Resume (frame\<lparr>f_rax := 0\<rparr>), upd_k (syscall_write_string mem (f_rbx frame) (f_rcx frame)) s)
      else if f_rax frame = 2 then (Resume (frame\<lparr>f_rax := f_rip frame\<rparr>), s)
      else if f_rax frame = 3 then (Leave (usermode_kernel_rsp s), s)
      else (Resume (frame\<lparr>f_rax := -1\<rparr>), upd_k (say (ln ''user syscall unknown=%lu'') [Num (f_rax frame)]) s))"

definition interrupts_init :: "'h ports \<Rightarrow> (nat \<Rightarrow> u64) \<Rightarrow> u64 \<Rightarrow> ('d, 'h) board \<Rightarrow> ('d, 'h) board" where
  "interrupts_init P stubs sysstub b =
     (let (hz, h) = pit_init P 100 (pic_init P (b_hw b))
      in upd_bk (\<lambda>k. k\<lparr>k_hz := hz\<rparr>) (b\<lparr>b_idt := idt_init stubs sysstub, b_hw := h\<rparr>))"

definition eoi :: "'h ports \<Rightarrow> u8 \<Rightarrow> ('d, 'h) board \<Rightarrow> ('d, 'h) board" where
  "eoi P irq b = b\<lparr>b_hw := pic_eoi P irq (b_hw b)\<rparr>"

text \<open>The body of the switch over the vector.\<close>

definition isr_body :: "'h ports \<Rightarrow> (u64 \<Rightarrow> char) \<Rightarrow> interrupt_frame \<Rightarrow> ('d, 'h) board \<Rightarrow> isr_result \<times> ('d, 'h) board" where
  "isr_body P mem frame b =
     (let v = f_vector frame in
      if v = 14 then
        (Resume frame, upd_bk (\<lambda>k. say_console (ln ''page fault err=%lx rip=%lx'') [Num (f_error_code frame), Num (f_rip frame)]
           (k\<lparr>k_vm := (k_vm k)\<lparr>vm_mem := memory_record_page_fault (vm_mem (k_vm k))\<rparr>\<rparr>)) b)
      else if v = 32 then (Resume frame, eoi P 0 (upd_bk (\<lambda>k. sched_tick (power_tick_hook (pit_handle_tick k))) b))
      else if v = 33 then
        (let (code, h) = in_b P 0x60 (b_hw b)
         in (Resume frame, eoi P 1 (upd_bk (keyboard_handle_scancode (ucast code)) (b\<lparr>b_hw := h\<rparr>))))
      else if v = 44 then
        (let (data, h) = in_b P 0x60 (b_hw b)
         in (Resume frame, eoi P 12 (b\<lparr>b_hw := h, b_mouse := mouse_handle_data data (b_mouse b)\<rparr>)))
      else if v = 0x80 then
        (let (r, s) = usermode_handle_syscall mem frame (b_sys b) in (r, b\<lparr>b_sys := s\<rparr>))
      else if v \<ge> 32 \<and> v \<le> 47 then (Resume frame, eoi P (ucast (v - 32)) b)
      else (Resume frame, upd_bk (say_console (ln ''exception vec=%lu err=%lx rip=%lx'')
              [Num v, Num (f_error_code frame), Num (f_rip frame)]) b))"

definition isr_dispatch :: "'h ports \<Rightarrow> (u64 \<Rightarrow> char) \<Rightarrow> interrupt_frame \<Rightarrow> ('d, 'h) board \<Rightarrow> isr_result \<times> ('d, 'h) board" where
  "isr_dispatch P mem frame b =
     (let v = f_vector frame in
      if rp_active (tr_replay (k_trace (bk b))) \<and> v \<ge> 32 \<and> v \<le> 47 then (Resume frame, eoi P (ucast (v - 32)) b)
      else isr_body P mem frame
             (upd_bk (trace_record TRACE_EVENT_IRQ 0 v (f_error_code frame)) (b\<lparr>b_idt := idt_record_irq (ucast v) (b_idt b)\<rparr>)))"

section \<open>Interrupts leave the tasks alone\<close>

text \<open>The relation only looks at the address spaces, the scheduler, the recorder, the file system and the
  workload counter, so updates of the devices on either side do not matter.\<close>

lemma quiet_devices [simp]:
  "quiet (k\<lparr>k_con := c\<rparr>) k' = quiet k k'" "quiet (k\<lparr>k_ser := r\<rparr>) k' = quiet k k'" "quiet (k\<lparr>k_power := p\<rparr>) k' = quiet k k'"
  "quiet (k\<lparr>k_kbd := d\<rparr>) k' = quiet k k'" "quiet (k\<lparr>k_ticks := t\<rparr>) k' = quiet k k'"
  "quiet k (k'\<lparr>k_con := c\<rparr>) = quiet k k'" "quiet k (k'\<lparr>k_ser := r\<rparr>) = quiet k k'" "quiet k (k'\<lparr>k_power := p\<rparr>) = quiet k k'"
  "quiet k (k'\<lparr>k_kbd := d\<rparr>) = quiet k k'" "quiet k (k'\<lparr>k_ticks := t\<rparr>) = quiet k k'"
  by (simp_all add: quiet_def rec_same_def)

lemma quiet_from: "quiet k' k'' \<Longrightarrow> quiet k k' \<Longrightarrow> quiet k k''"
  by (rule still_trans)

lemma quiet_say_console [quiet_intros]: "quiet k (say_console fmt args k)"
  by (simp add: say_console_def still_refl split: option.split)

lemma quiet_both_putc: "quiet k (both_putc c k)"
  by (simp add: both_putc_def still_refl)

lemma quiet_putc: "quiet k (fold both_putc cs k)"
  by (induction cs arbitrary: k) (auto intro: still_refl still_trans [OF quiet_both_putc])

lemma quiet_key_flush: "quiet k (keyboard_flush_loop n k)"
proof (induction n arbitrary: k)
  case (Suc n)
  obtain ch p where p: "kq_pop (k_power k) = (ch, p)" by fastforce
  have "quiet (k\<lparr>k_power := p, k_kbd := keyboard_buffer_put ch (k_kbd k)\<rparr>)
      (keyboard_flush_loop n (k\<lparr>k_power := p, k_kbd := keyboard_buffer_put ch (k_kbd k)\<rparr>))" by (rule Suc.IH)
  then show ?case by (simp add: p)
qed (simp add: still_refl)

lemma quiet_flush_now: "quiet k (keyboard_flush_now k)"
  unfolding keyboard_flush_now_def Let_def
  by (auto intro: still_refl still_trans [OF quiet_updates(4) still_trans [OF quiet_key_flush quiet_updates(4)]])

lemma quiet_net_tick: "quiet k (netfs_power_tick k)"
  by (auto simp: netfs_power_tick_def intro: still_refl quiet_flush)

lemma quiet_power_tick: "quiet k (power_tick_hook k)"
proof -
  let ?k1 = "k\<lparr>k_power := (k_power k)\<lparr>p_ticks_since_flush := p_ticks_since_flush (k_power k) + 1\<rparr>\<rparr>"
  have "quiet ?k1 (netfs_power_tick (keyboard_flush_now ?k1))" by (rule still_trans [OF quiet_flush_now quiet_net_tick])
  then show ?thesis by (simp add: power_tick_hook_def Let_def still_refl)
qed

lemma quiet_sched_tick: "quiet k (sched_tick k)"
  by (auto simp: quiet_def rec_same_def same_spaces_ops sched_same_def sched_tick_def Let_def ident_def nth_upd_task)

lemma quiet_timer: "quiet k (sched_tick (power_tick_hook (pit_handle_tick k)))"
proof -
  have "quiet k (power_tick_hook (pit_handle_tick k))"
    using quiet_power_tick [of "pit_handle_tick k"] by (simp add: pit_handle_tick_def)
  from still_trans [OF this quiet_sched_tick] show ?thesis .
qed

lemma quiet_key_char: "quiet k (power_keyboard_char c k)"
  by (simp add: power_keyboard_char_def Let_def upd_pstats_def still_refl)

lemma quiet_scancode: "quiet k (keyboard_handle_scancode code k)"
proof -
  have "quiet k (power_keyboard_char c (keyboard_trace_char c code (upd_kbd f k)))" for c f
  proof -
    have "quiet (upd_kbd f k) (keyboard_trace_char c code (upd_kbd f k))" by (simp add: keyboard_trace_char_def quiet_trace_record)
    from still_trans [OF this quiet_key_char] show ?thesis by (simp add: upd_kbd_def)
  qed
  note a = this [where f = "\<lambda>b. b\<lparr>kb_extended_prefix := False\<rparr>"]
  have b: "quiet k (power_keyboard_char c (keyboard_trace_char c code k))" for c
    using still_trans [OF quiet_trace_record quiet_key_char] by (simp add: keyboard_trace_char_def)
  show ?thesis using a b by (simp add: keyboard_handle_scancode_def Let_def upd_kbd_def still_refl)
qed

lemma quiet_write_string: "quiet k (syscall_write_string mem src len k)"
  by (simp add: syscall_write_string_def still_refl quiet_putc)

text \<open>The system calls keep everything but the output.\<close>

lemma syscall_quiet:
  assumes "usermode_handle_syscall mem frame s = (r, s')"
  shows "quiet (sys_k s) (sys_k s')" "ping_jobs s' = ping_jobs s"
  using assms quiet_write_string quiet_updates(1) still_refl
  by (auto simp: usermode_handle_syscall_def split: if_splits)

lemma quiet_page_fault: "quiet k (k\<lparr>k_vm := (k_vm k)\<lparr>vm_mem := m\<rparr>\<rparr>)"
  by (simp add: quiet_def rec_same_def sched_same_def same_spaces_table)

lemma isr_body_quiet:
  assumes "isr_body P mem frame b = (r, b')"
  shows "quiet (bk b) (bk b') \<and> ping_jobs (b_sys b') = ping_jobs (b_sys b)"
proof -
  have pf: "quiet k (say_console f a (k\<lparr>k_vm := (k_vm k)\<lparr>vm_mem := m\<rparr>\<rparr>))" for k :: "'a kernel" and f a m
    by (rule still_trans [OF quiet_page_fault quiet_say_console])
  show ?thesis
    using assms pf quiet_timer quiet_scancode syscall_quiet quiet_say_console still_refl
    by (auto simp: isr_body_def Let_def upd_bk_def eoi_def split: if_splits prod.splits)
qed

lemma isr_quiet:
  assumes "isr_dispatch P mem frame b = (r, b')"
  shows "quiet (bk b) (bk b') \<and> ping_jobs (b_sys b') = ping_jobs (b_sys b)"
proof (cases "rp_active (tr_replay (k_trace (bk b))) \<and> f_vector frame \<ge> 32 \<and> f_vector frame \<le> 47")
  case True
  then show ?thesis using assms by (auto simp: isr_dispatch_def Let_def eoi_def still_refl)
next
  case False
  let ?b = "upd_bk (trace_record TRACE_EVENT_IRQ 0 (f_vector frame) (f_error_code frame)) (b\<lparr>b_idt := idt_record_irq (ucast (f_vector frame)) (b_idt b)\<rparr>)"
  have "isr_body P mem frame ?b = (r, b')" using assms False by (auto simp: isr_dispatch_def Let_def)
  from isr_body_quiet [OF this] have "quiet (bk ?b) (bk b')" "ping_jobs (b_sys b') = ping_jobs (b_sys b)" by (simp_all add: upd_bk_def)
  moreover have "quiet (bk b) (bk ?b)" by (simp add: upd_bk_def quiet_trace_record)
  ultimately show ?thesis by (auto intro: still_trans)
qed

text \<open>Hence the machine of the tasks is as far as before.\<close>

lemma isr_machine:
  assumes inv: "machine_inv ext m" and d: "isr_dispatch P mem frame b = (r, b')" and b: "b_sys b = m_sys m"
  shows "machine_inv ext (m\<lparr>m_sys := b_sys b'\<rparr>)" "work (m\<lparr>m_sys := b_sys b'\<rparr>) = work m" "surplus (m\<lparr>m_sys := b_sys b'\<rparr>) = surplus m"
    "current_task (k_sched (mk (m\<lparr>m_sys := b_sys b'\<rparr>))) = current_task (k_sched (mk m))"
proof -
  let ?m = "m\<lparr>m_sys := b_sys b'\<rparr>"
  have si: "sched_inv (k_sched (mk m))" and acc: "accounted ext (mk m)" and rp: "\<not> rp_active (tr_replay (k_trace (mk m)))"
    using inv by (simp_all add: machine_inv_def)
  have q: "quiet (mk m) (mk ?m)" and j: "ping_jobs (m_sys ?m) = ping_jobs (m_sys m)" using isr_quiet [OF d] b by simp_all
  have ss: "sched_same (k_sched (mk m)) (k_sched (mk ?m))" using q by (simp add: quiet_def)
  have len: "length (tasks (k_sched (mk m))) = MAX_TASKS" using si by (simp add: sched_inv_def)
  have t: "task_live (mtask ?m i) = task_live (mtask m i)" "thread_of ?m i = thread_of m i" if "i < MAX_TASKS" for i
    using sched_same_D [OF ss, of i] len that by (auto simp: mtask_def intro!: thread_of_same)
  show "current_task (k_sched (mk ?m)) = current_task (k_sched (mk m))" using ss by (simp add: sched_same_def)
  have "\<not> rp_active (tr_replay (k_trace (mk ?m)))" using q rp by (simp add: quiet_def)
  then show "machine_inv ext ?m"
    using quiet_ok [OF q si acc] inv t t(1) [of 0] j by (auto simp: machine_inv_def MAX_TASKS_def)
  show "work ?m = work m" unfolding work_def by (rule sum.cong) (use j in \<open>auto simp: task_work_def t\<close>)
  have "workload_tasks ?m = workload_tasks m" using t by (auto simp: workload_tasks_def)
  moreover have "k_active_workloads (mk ?m) = k_active_workloads (mk m)" using q by (simp add: quiet_def)
  ultimately show "surplus ?m = surplus m" by (simp add: surplus_def)
qed

section \<open>Tasks and interrupts together\<close>

text \<open>An execution between two turns of the shell: blocks of the current task and hardware
  interrupts in any order, until the shell is current again.\<close>

datatype event = Block | Irq interrupt_frame

fun run_events :: "'d ring3 \<Rightarrow> 'h ports \<Rightarrow> (u64 \<Rightarrow> char) \<Rightarrow> event list \<Rightarrow> 'd machine \<times> idt_state \<times> mouse \<times> 'h \<Rightarrow>
    ('d machine \<times> idt_state \<times> mouse \<times> 'h) option" where
  "run_events R P mem [] x = Some x"
| "run_events R P mem (Block # es) (m, i, ms, h) =
     (if current_task (k_sched (mk m)) = 0 then Some (m, i, ms, h)
      else (case task_step R m of None \<Rightarrow> None | Some m' \<Rightarrow> run_events R P mem es (m', i, ms, h)))"
| "run_events R P mem (Irq frame # es) (m, i, ms, h) =
     (let (r, b) = isr_dispatch P mem frame \<lparr>b_sys = m_sys m, b_idt = i, b_mouse = ms, b_hw = h\<rparr>
      in run_events R P mem es (m\<lparr>m_sys := b_sys b\<rparr>, b_idt b, b_mouse b, b_hw b))"

definition demo_frame :: interrupt_frame where
  "demo_frame = \<lparr>f_r15 = 0, f_r14 = 0, f_r13 = 0, f_r12 = 0, f_r11 = 0, f_r10 = 0, f_r9 = 0, f_r8 = 0, f_rsi = 0, f_rdi = 0, f_rbp = 0,
     f_rdx = 0, f_rcx = 0, f_rbx = 0, f_rax = 0, f_vector = 32, f_error_code = 0, f_rip = 0x100000, f_cs = 0x18, f_rflags = 0x202,
     f_rsp = 0x200000, f_ss = 0x20\<rparr>"

text \<open>C11: interrupts do not disturb the tasks.  Between two turns of the shell the processor runs blocks of
  the other tasks, with timer, keyboard, mouse, fault and other interrupts anywhere between them.
  However these interleave, no step gets stuck, the scheduler invariant, the accounting of address
  spaces and the counter of workloads are kept, and as soon as the number of blocks reaches the work
  that was left, the shell is running again.\<close>

theorem interrupts_keep_tasks_going:
  assumes "ring3_quiet R" and "machine_inv ext m" and "work m \<le> length (filter (\<lambda>e. e = Block) es)"
    and "\<forall>f. Irq f \<in> set es \<longrightarrow> f_vector f \<noteq> 0x80"
  shows "\<exists>m' y. run_events R P mem es (m, i, ms, h) = Some (m', y) \<and> machine_inv ext m' \<and>
    current_task (k_sched (mk m')) = 0 \<and> surplus m' = surplus m"
  using assms
proof (induction es arbitrary: m i ms h)
  case Nil
  have "current_task (k_sched (mk m)) = 0"
    using task_step_progress [OF Nil(1,2)] Nil(3) by (metis filter.simps(1) le_zero_eq list.size(3) not_less_zero)
  then show ?case using Nil by simp
next
  case (Cons e es)
  show ?case
  proof (cases e)
    case Block
    show ?thesis
    proof (cases "current_task (k_sched (mk m)) = 0")
      case True
      then show ?thesis using Cons.prems Block by simp
    next
      case False
      obtain m1 where m1: "task_step R m = Some m1" "machine_inv ext m1" "work m1 < work m" "surplus m1 = surplus m"
        using task_step_progress [OF Cons.prems(1,2) False] by blast
      have "work m1 \<le> length (filter (\<lambda>e. e = Block) es)" using Cons.prems(3) m1(3) Block by simp
      from Cons.IH [OF Cons.prems(1) m1(2) this] Cons.prems(4) m1(1,4) Block False show ?thesis by simp
    qed
  next
    case (Irq f)
    obtain r b where d: "isr_dispatch P mem f \<lparr>b_sys = m_sys m, b_idt = i, b_mouse = ms, b_hw = h\<rparr> = (r, b)" by fastforce
    note im = isr_machine [OF Cons.prems(2) d]
    let ?m = "m\<lparr>m_sys := b_sys b\<rparr>"
    have "machine_inv ext ?m" "work ?m \<le> length (filter (\<lambda>e. e = Block) es)" using im Cons.prems(3) Irq by simp_all
    from Cons.IH [OF Cons.prems(1) this] Cons.prems(4) im(3) Irq d show ?thesis by simp
  qed
qed

theorem interrupts_keep_tasks_going_witness:
  "\<exists>m' y. run_events demo_ring3 pic_ports (\<lambda>_. NUL) (concat (replicate 18 [Block, Irq demo_frame]))
     ((add_child ^^ 3) demo_machine, idt_init (\<lambda>_. 0) 0, mouse_bss, (demo_chip, demo_chip)) = Some (m', y) \<and>
     current_task (k_sched (mk m')) = 0"
proof -
  let ?m = "(add_child ^^ 3) demo_machine" and ?es = "concat (replicate 18 [Block, Irq demo_frame])"
  have "startable (\<lambda>_. 0) 3 demo_machine" using demo_machine_ok(1) by (auto simp: startable_def)
  from add_children [OF this] have a: "startable (\<lambda>_. 0) 0 ?m" "work ?m = 18" using demo_machine_ok(3) by simp_all
  have i: "machine_inv (\<lambda>_. 0) ?m" using a(1) by (simp add: startable_def)
  have n: "length (filter (\<lambda>e. e = Block) ?es) = 18" by (simp add: numeral_eq_Suc)
  have f: "\<forall>f. Irq f \<in> set ?es \<longrightarrow> f_vector f \<noteq> 0x80" by (auto simp: demo_frame_def)
  have w: "work ?m \<le> length (filter (\<lambda>e. e = Block) ?es)" unfolding n a(2) by simp
  from interrupts_keep_tasks_going [OF demo_ring3_quiet i w f, where P = pic_ports and mem = "\<lambda>_. NUL" and i = "idt_init (\<lambda>_. 0) 0"
      and ms = mouse_bss and h = "(demo_chip, demo_chip)"]
  show ?thesis by blast
qed

text \<open>C35: the system calls of ring 3.  Call 1 writes the first 256 bytes at most of the given memory to
  the serial line, with line ends expanded, and returns 0; call 2 returns the instruction pointer;
  call 3 continues at the kernel stack saved when ring 3 was entered; every other number returns
  -1.  No call changes a register but \<open>rax\<close>, and none touches the scheduler, the address spaces or
  the job tables.\<close>

theorem syscall_correct:
  assumes "usermode_handle_syscall mem frame s = (r, s')"
  shows "(f_rax frame = 3 \<longleftrightarrow> r = Leave (um_kernel_rsp s)) \<and>
    (f_rax frame \<noteq> 3 \<longrightarrow> r = Resume (frame\<lparr>f_rax := (if f_rax frame = 1 then 0 else if f_rax frame = 2 then f_rip frame else -1)\<rparr>)) \<and>
    (f_rax frame = 1 \<and> f_rbx frame \<noteq> 0 \<longrightarrow> k_ser (sys_k s') = k_ser (sys_k s) @
       crlf (map (\<lambda>i. mem (f_rbx frame + word_of_nat i)) [0..<min 256 (unat (f_rcx frame))])) \<and>
    quiet (sys_k s) (sys_k s') \<and> ping_jobs s' = ping_jobs s \<and> generic_jobs s' = generic_jobs s"
proof -
  have ser: "k_ser (fold both_putc cs k) = k_ser k @ crlf cs" for cs and k :: "'a kernel"
    by (induction cs arbitrary: k) (simp_all add: both_putc_def serial_putc_def crlf_def)
  have n: "unat (if f_rcx frame > 256 then 256 else f_rcx frame) = min 256 (unat (f_rcx frame))" by (simp add: word_less_nat_alt)
  have g: "generic_jobs s' = generic_jobs s" using assms by (auto simp: usermode_handle_syscall_def split: if_splits)
  have w: "k_ser (sys_k s') = k_ser (sys_k s) @ crlf (map (\<lambda>i. mem (f_rbx frame + word_of_nat i)) [0..<min 256 (unat (f_rcx frame))])"
    if "f_rax frame = 1" "f_rbx frame \<noteq> 0"
    using assms that by (auto simp: usermode_handle_syscall_def syscall_write_string_def ser n)
  have r: "r = (if f_rax frame = 3 then Leave (um_kernel_rsp s)
      else Resume (frame\<lparr>f_rax := (if f_rax frame = 1 then 0 else if f_rax frame = 2 then f_rip frame else -1)\<rparr>))"
    using assms by (auto simp: usermode_handle_syscall_def usermode_kernel_rsp_def split: if_splits)
  show ?thesis using syscall_quiet [OF assms] g w r by auto
qed

theorem syscall_correct_witness:
  "k_ser (sys_k (snd (usermode_handle_syscall (\<lambda>_. LF) (demo_frame\<lparr>f_rax := 1, f_rbx := 0x400000, f_rcx := 2\<rparr>) demo_system)))
     = k_ser demo_kernel @ [CHR 0x0D, LF, CHR 0x0D, LF]"
proof -
  let ?f = "demo_frame\<lparr>f_rax := 1, f_rbx := 0x400000, f_rcx := 2\<rparr>"
  obtain r s' where e: "usermode_handle_syscall (\<lambda>_. LF) ?f demo_system = (r, s')" by fastforce
  have u: "[0..<2] = [0, 1 :: nat]" by (simp add: upt_rec)
  have "k_ser (sys_k s') = k_ser (sys_k demo_system) @ crlf (map (\<lambda>i. LF) [0..<min 256 (unat (2 :: u64))])"
    using syscall_correct [OF e] by simp
  moreover have "sys_k demo_system = demo_kernel" by (simp add: demo_system_def system_bss_def)
  ultimately show ?thesis by (simp add: e u crlf_def)
qed

end
