(* ===== verification/Frame.thy ===== *)
theory Frame
  imports Console Io Text_Buffer
begin

text \<open>
  The text memory of the display, as \<open>kernel/console.c\<close> writes it.  The VGA text memory is a
  write-only device, so a drawing routine is the sequence of stores it makes, each the index into
  the frame and the 16-bit cell stored there; \<open>store_all\<close> applies the stores to a frame.  Here are
  the primitive writers, the cursor ports, and the loop that draws the visible lines of the log;
  the window frame and the status bars, which read the rest of the kernel, are in \<open>Screen\<close>.
\<close>

section \<open>Definitions\<close>

subsection \<open>Stores to the frame\<close>

type_synonym store = "nat \<times> u16"
type_synonym frame = "u16 list"

definition color :: u8 where "color = 0x0f"

definition cell :: "u8 \<Rightarrow> char \<Rightarrow> u16" where
  "cell attr ch = push_bit 8 (ucast attr) OR of_char ch"

definition put_at :: "nat \<Rightarrow> nat \<Rightarrow> char \<Rightarrow> u8 \<Rightarrow> store" where
  "put_at r c ch attr = (r * SCREEN_W + c, cell attr ch)"

fun write_at :: "nat \<Rightarrow> nat \<Rightarrow> char list \<Rightarrow> u8 \<Rightarrow> store list" where
  "write_at r c [] attr = []"
| "write_at r c (ch # s) attr =
     (if ch \<noteq> NUL \<and> c < SCREEN_W then put_at r c ch attr # write_at r (c + 1) s attr else [])"

text \<open>The digits in \<open>tmp\<close> are those of \<open>dec_loop\<close>, the same loop in \<open>netfs.c\<close>.\<close>

fun put_digits :: "nat \<Rightarrow> nat \<Rightarrow> char list \<Rightarrow> u8 \<Rightarrow> store list" where
  "put_digits r c [] attr = []"
| "put_digits r c (d # ds) attr =
     (if c < SCREEN_W then put_at r c d attr # put_digits r (c + 1) ds attr else [])"

definition write_u64_at :: "nat \<Rightarrow> nat \<Rightarrow> u64 \<Rightarrow> u8 \<Rightarrow> store list" where
  "write_u64_at r c value attr =
     (if value = 0 then [put_at r c CHR ''0'' attr]
      else put_digits r c (rev (dec_loop 32 value)) attr)"

definition move_cursor :: "'h ports \<Rightarrow> console_state \<Rightarrow> 'h \<Rightarrow> 'h" where
  "move_cursor P c h =
     (let pos = word_of_nat (row c * SCREEN_W + col c) :: u16;
          h1 = out_b P 0x3d4 0x0f h;
          h2 = out_b P 0x3d5 (ucast (pos AND 0xff)) h1;
          h3 = out_b P 0x3d4 0x0e h2
      in out_b P 0x3d5 (ucast (drop_bit 8 pos AND 0xff)) h3)"

subsection \<open>The text\<close>

definition start_line :: "console_state \<Rightarrow> nat" where
  "start_line c =
     (if log_count c > visible_height c + viewport_offset c
      then log_count c - visible_height c - viewport_offset c else 0)"

definition text_attr :: "console_state \<Rightarrow> u8" where
  "text_attr c = (if gui_mode c then 0x1f else color)"

text \<open>One turn of the loop over the visible rows.\<close>

definition draw_row :: "console_state \<Rightarrow> nat \<Rightarrow> store list" where
  "draw_row cs view =
     (let width = visible_width cs; r = content_row0 cs + view; c0 = content_col0 cs; attr = text_attr cs;
          logical = start_line cs + view
      in map (\<lambda>c. put_at r (c0 + c) CHR '' '' attr) [0..<width] @
         (if logical \<ge> log_count cs then []
          else let idx = (log_start cs + logical) mod LOG_LINES
               in map (\<lambda>c. put_at r (c0 + c) (log_lines cs ! idx ! c) attr) [0..<min (log_lens cs ! idx) width]))"

subsection \<open>What the screen shows\<close>

definition store_all :: "store list \<Rightarrow> frame \<Rightarrow> frame" where
  "store_all ws V = fold (\<lambda>(i, v) V. V[i := v]) ws V"

definition stores_ok :: "store list \<Rightarrow> bool" where
  "stores_ok ws = list_all (\<lambda>(i, _). i < SCREEN_W * SCREEN_H) ws"

definition frame_row :: "frame \<Rightarrow> nat \<Rightarrow> nat \<Rightarrow> nat \<Rightarrow> u16 list" where
  "frame_row V r c n = take n (drop (r * SCREEN_W + c) V)"

text \<open>The text area of a frame, row by row, and what it is meant to hold: the lines of the log
  from \<open>start_line\<close> on, each padded with blanks.\<close>

definition text_area :: "console_state \<Rightarrow> frame \<Rightarrow> u16 list list" where
  "text_area cs V = map (\<lambda>view. frame_row V (content_row0 cs + view) (content_col0 cs) (visible_width cs)) [0..<visible_height cs]"

definition padded :: "nat \<Rightarrow> 'a \<Rightarrow> 'a list \<Rightarrow> 'a list" where
  "padded n x xs = take n xs @ replicate (n - length xs) x"

definition window :: "console_state \<Rightarrow> char list list" where
  "window cs = padded (visible_height cs) [] (drop (start_line cs) (log_view cs))"

section \<open>Lemmas\<close>

subsection \<open>Sequences of stores\<close>

lemma store_all_Nil [simp]: "store_all [] V = V"
  and store_all_Cons [simp]: "store_all ((i, v) # ws) V = store_all ws (V[i := v])"
  and store_all_append: "store_all (ws @ ws') V = store_all ws' (store_all ws V)"
  by (simp_all add: store_all_def)

lemma length_store_all [simp]: "length (store_all ws V) = length V"
  by (induction ws arbitrary: V) auto

lemma store_all_nth:
  "i < length V \<Longrightarrow> store_all ws V ! i = (case map_of (rev ws) i of Some v \<Rightarrow> v | None \<Rightarrow> V ! i)"
proof (induction ws rule: rev_induct)
  case Nil
  then show ?case by simp
next
  case (snoc w ws)
  then show ?case by (cases w) (auto simp: store_all_append nth_list_update)
qed

text \<open>Stores that reach every cell leave nothing of the old frame.\<close>

lemma store_all_covers:
  assumes "length V = length W" and "{0..<length W} \<subseteq> fst ` set ws"
  shows "store_all ws V = store_all ws W"
proof (rule nth_equalityI)
  fix i assume i: "i < length (store_all ws V)"
  then have "i \<in> fst ` set (rev ws)" using assms by (auto simp: subset_iff)
  then have "map_of (rev ws) i \<noteq> None" by (simp add: map_of_eq_None_iff)
  with i assms show "store_all ws V ! i = store_all ws W ! i"
    by (auto simp: store_all_nth)
qed (use assms in simp)

text \<open>A block of consecutive cells.\<close>

definition blit :: "nat \<Rightarrow> u16 list \<Rightarrow> frame \<Rightarrow> frame" where
  "blit p xs V = take p V @ xs @ drop (p + length xs) V"

lemma length_blit: "p + length xs \<le> length V \<Longrightarrow> length (blit p xs V) = length V"
  by (simp add: blit_def)

lemma store_all_block:
  assumes "p + length xs \<le> length V"
  shows "store_all (map (\<lambda>i. (p + i, xs ! i)) [0..<length xs]) V = blit p xs V"
  using assms
proof (induction xs rule: rev_induct)
  case Nil
  then show ?case by (simp add: blit_def)
next
  case (snoc x xs)
  have "map (\<lambda>i. (p + i, (xs @ [x]) ! i)) [0..<length xs] = map (\<lambda>i. (p + i, xs ! i)) [0..<length xs]"
    by (simp add: nth_append)
  then have "store_all (map (\<lambda>i. (p + i, (xs @ [x]) ! i)) [0..<length (xs @ [x])]) V
      = (blit p xs V)[p + length xs := x]"
    using snoc by (simp only: store_all_append upt_Suc_append length_append_singleton map_append) simp
  also have "\<dots> = blit p (xs @ [x]) V"
    using snoc.prems
    by (simp add: blit_def list_update_append Cons_nth_drop_Suc [symmetric])
  finally show ?case .
qed

lemma blit_again:
  assumes "length ys \<le> length xs" and "p + length xs \<le> length V"
  shows "blit p ys (blit p xs V) = blit p (ys @ drop (length ys) xs) V"
  using assms by (simp add: blit_def)

lemma frame_row_blit:
  assumes "r * SCREEN_W + c + length xs \<le> length V"
  shows "frame_row (blit (r * SCREEN_W + c) xs V) r c (length xs) = xs"
  using assms by (simp add: frame_row_def blit_def)

lemma frame_row_blit_other:
  assumes "p + length xs \<le> length V" and "r * SCREEN_W + c + n \<le> p \<or> p + length xs \<le> r * SCREEN_W + c"
  shows "frame_row (blit p xs V) r c n = frame_row V r c n"
  unfolding frame_row_def
proof (rule nth_equalityI)
  show "length (take n (drop (r * SCREEN_W + c) (blit p xs V))) = length (take n (drop (r * SCREEN_W + c) V))"
    using assms(1) by (simp add: length_blit)
  fix i assume "i < length (take n (drop (r * SCREEN_W + c) (blit p xs V)))"
  then have i: "i < n" "r * SCREEN_W + c + i < length V" using assms(1) by (auto simp: length_blit)
  have "blit p xs V ! (r * SCREEN_W + c + i) = V ! (r * SCREEN_W + c + i)"
    using assms i by (auto simp: blit_def nth_append min_def ac_simps)
  with i assms(1) show "take n (drop (r * SCREEN_W + c) (blit p xs V)) ! i = take n (drop (r * SCREEN_W + c) V) ! i"
    by (simp add: length_blit)
qed

subsection \<open>The text area\<close>

lemma put_row_blit:
  assumes "r * SCREEN_W + c + n \<le> length V"
  shows "store_all (map (\<lambda>i. put_at r (c + i) (f i) attr) [0..<n]) V
    = blit (r * SCREEN_W + c) (map (\<lambda>i. cell attr (f i)) [0..<n]) V"
proof -
  let ?xs = "map (\<lambda>i. cell attr (f i)) [0..<n]"
  have eq: "map (\<lambda>i. put_at r (c + i) (f i) attr) [0..<n] = map (\<lambda>i. (r * SCREEN_W + c + i, ?xs ! i)) [0..<length ?xs]"
    by (simp add: put_at_def ac_simps)
  show ?thesis unfolding eq by (rule store_all_block) (use assms in simp)
qed

lemma length_padded [simp]: "length (padded n x xs) = n"
  by (simp add: padded_def)

lemma padded_nth: "i < n \<Longrightarrow> padded n x xs ! i = (if i < length xs then xs ! i else x)"
  by (simp add: padded_def nth_append)

lemma map_padded: "map f (padded n x xs) = padded n (f x) (map f xs)"
  by (simp add: padded_def take_map)

text \<open>The text area lies inside the frame.\<close>

lemma text_area_fits:
  assumes "view < visible_height cs"
  shows "content_row0 cs + view < SCREEN_H" and "content_col0 cs + visible_width cs \<le> SCREEN_W"
    and "(content_row0 cs + view) * SCREEN_W + content_col0 cs + visible_width cs \<le> SCREEN_W * SCREEN_H"
  using assms
  by (auto simp: content_row0_def content_col0_def visible_height_def visible_width_def console_consts)

lemma log_view_nth:
  assumes "console_inv cs" and "n < log_count cs"
  defines "idx \<equiv> (log_start cs + n) mod LOG_LINES"
  shows "log_view cs ! n = take (log_lens cs ! idx) (log_lines cs ! idx)"
    and "length (log_view cs ! n) = log_lens cs ! idx" and "log_lens cs ! idx \<le> length (log_lines cs ! idx)"
proof -
  have idx: "idx < LOG_LINES" by (simp add: idx_def)
  show eq: "log_view cs ! n = take (log_lens cs ! idx) (log_lines cs ! idx)"
    using line_texts_nth(1) [OF assms(1) idx] assms(2) by (simp add: log_view_def ring_list_nth idx_def)
  show "log_lens cs ! idx \<le> length (log_lines cs ! idx)"
    using console_inv_lens [OF assms(1) idx] by simp
  then show "length (log_view cs ! n) = log_lens cs ! idx" by (simp add: eq)
qed

lemma length_window: "length (window cs) = visible_height cs"
  by (simp add: window_def)

lemma window_nth:
  assumes "view < visible_height cs"
  shows "window cs ! view
    = (if start_line cs + view < log_count cs then log_view cs ! (start_line cs + view) else [])"
  using assms by (simp add: window_def padded_nth less_diff_conv add.commute)

text \<open>One row: blanks over the width of the text area, then the characters of the line.\<close>

lemma draw_row_blit:
  assumes inv: "console_inv cs" and view: "view < visible_height cs" and V: "length V = SCREEN_W * SCREEN_H"
  shows "store_all (draw_row cs view) V
    = blit ((content_row0 cs + view) * SCREEN_W + content_col0 cs)
        (map (cell (text_attr cs)) (padded (visible_width cs) CHR '' '' (window cs ! view))) V"
proof -
  let ?w = "visible_width cs" and ?r = "content_row0 cs + view" and ?c = "content_col0 cs" and ?a = "text_attr cs"
  let ?n = "start_line cs + view"
  let ?p = "?r * SCREEN_W + ?c" and ?blank = "map (\<lambda>c. cell ?a CHR '' '') [0..<?w]"
  have fits: "?p + ?w \<le> length V" using text_area_fits(3) [OF view] V by simp
  have blank: "store_all (map (\<lambda>c. put_at ?r (?c + c) CHR '' '' ?a) [0..<?w]) V = blit ?p ?blank V"
    by (rule put_row_blit) (use fits in simp)
  show ?thesis
  proof (cases "?n < log_count cs")
    case False
    then show ?thesis
      by (simp add: draw_row_def Let_def blank window_nth [OF view] padded_def map_replicate_const)
  next
    case True
    let ?idx = "(log_start cs + ?n) mod LOG_LINES"
    let ?m = "min (log_lens cs ! ?idx) ?w"
    let ?ys = "map (\<lambda>c. cell ?a (log_lines cs ! ?idx ! c)) [0..<?m]"
    note ln = log_view_nth [OF inv True]
    have "store_all (draw_row cs view) V = blit ?p ?ys (blit ?p ?blank V)"
      using True fits
      by (simp add: draw_row_def Let_def store_all_append blank put_row_blit length_blit not_le)
    also have "\<dots> = blit ?p (?ys @ drop ?m ?blank) V"
      using blit_again [of ?ys ?blank ?p V] fits by simp
    also have "?ys @ drop ?m ?blank = map (cell ?a) (padded ?w CHR '' '' (log_view cs ! ?n))"
      using ln by (intro nth_equalityI) (auto simp: nth_append padded_nth)
    finally show ?thesis using True by (simp add: window_nth [OF view])
  qed
qed

lemma draw_rows_text:
  assumes inv: "console_inv cs" and V: "length V = SCREEN_W * SCREEN_H" and n: "n \<le> visible_height cs" and view: "view < n"
  shows "frame_row (store_all (concat (map (draw_row cs) [0..<n])) V) (content_row0 cs + view) (content_col0 cs) (visible_width cs)
    = map (cell (text_attr cs)) (padded (visible_width cs) CHR '' '' (window cs ! view))"
  using n view
proof (induction n)
  case 0
  then show ?case by simp
next
  case (Suc n)
  let ?V = "store_all (concat (map (draw_row cs) [0..<n])) V" and ?w = "visible_width cs"
  let ?row = "\<lambda>v. map (cell (text_attr cs)) (padded ?w CHR '' '' (window cs ! v))"
  let ?p = "(content_row0 cs + n) * SCREEN_W + content_col0 cs"
  have n: "n < visible_height cs" using Suc.prems by simp
  have step: "store_all (concat (map (draw_row cs) [0..<Suc n])) V = blit ?p (?row n) ?V"
    using draw_row_blit [OF inv n, of ?V] V by (simp add: store_all_append)
  have fits: "?p + ?w \<le> length ?V" using text_area_fits(3) [OF n] V by simp
  show ?case
  proof (cases "view = n")
    case True
    then show ?thesis
      unfolding step using frame_row_blit [of "content_row0 cs + n" "content_col0 cs" "?row n" ?V] fits by simp
  next
    case False
    then have v: "view < n" using Suc.prems by simp
    then have "content_row0 cs + view + 1 \<le> content_row0 cs + n" by simp
    then have "(content_row0 cs + view + 1) * SCREEN_W \<le> (content_row0 cs + n) * SCREEN_W" by (rule mult_le_mono1)
    then have "(content_row0 cs + view) * SCREEN_W + content_col0 cs + ?w \<le> ?p"
      using text_area_fits(2) [OF n] by simp
    then have "frame_row (blit ?p (?row n) ?V) (content_row0 cs + view) (content_col0 cs) ?w
        = frame_row ?V (content_row0 cs + view) (content_col0 cs) ?w"
      using fits by (intro frame_row_blit_other) simp_all
    then show ?thesis unfolding step using Suc.IH v Suc.prems by simp
  qed
qed

lemma draw_rows_area:
  assumes "console_inv cs" and "length V = SCREEN_W * SCREEN_H"
  shows "text_area cs (store_all (concat (map (draw_row cs) [0..<visible_height cs])) V)
    = map (\<lambda>l. map (cell (text_attr cs)) (padded (visible_width cs) CHR '' '' l)) (window cs)"
proof (rule nth_equalityI)
  show "length (text_area cs (store_all (concat (map (draw_row cs) [0..<visible_height cs])) V))
      = length (map (\<lambda>l. map (cell (text_attr cs)) (padded (visible_width cs) CHR '' '' l)) (window cs))"
    by (simp add: text_area_def window_def)
next
  fix i
  assume "i < length (text_area cs (store_all (concat (map (draw_row cs) [0..<visible_height cs])) V))"
  then have "i < visible_height cs" by (simp add: text_area_def)
  then show "text_area cs (store_all (concat (map (draw_row cs) [0..<visible_height cs])) V) ! i
      = map (\<lambda>l. map (cell (text_attr cs)) (padded (visible_width cs) CHR '' '' l)) (window cs) ! i"
    by (simp add: text_area_def length_window draw_rows_text [OF assms])
qed

subsection \<open>Bounds of the stores\<close>

lemma stores_ok_simps [simp]:
  "stores_ok []" "stores_ok (w # ws) \<longleftrightarrow> fst w < SCREEN_W * SCREEN_H \<and> stores_ok ws"
  "stores_ok (ws @ ws') \<longleftrightarrow> stores_ok ws \<and> stores_ok ws'"
  by (auto simp: stores_ok_def split: prod.splits)

lemma stores_ok_concat: "stores_ok (concat wss) \<longleftrightarrow> list_all stores_ok wss"
  by (induction wss) auto

lemma stores_ok_map: "stores_ok (map f xs) \<longleftrightarrow> (\<forall>x \<in> set xs. fst (f x) < SCREEN_W * SCREEN_H)"
  by (induction xs) auto

lemma put_at_ok: "r < SCREEN_H \<Longrightarrow> c < SCREEN_W \<Longrightarrow> fst (put_at r c ch attr) < SCREEN_W * SCREEN_H"
  by (simp add: put_at_def console_consts)

lemma put_digits_ok: "r < SCREEN_H \<Longrightarrow> stores_ok (put_digits r c s attr)"
  by (induction r c s attr rule: put_digits.induct) (auto intro: put_at_ok)

lemma write_at_digits: "write_at r c s attr = put_digits r c (c_str s) attr"
  by (induction r c s attr rule: write_at.induct) (auto simp: c_str_def)

lemma write_at_ok: "r < SCREEN_H \<Longrightarrow> stores_ok (write_at r c s attr)"
  by (simp add: write_at_digits put_digits_ok)

lemma write_u64_at_ok: "r < SCREEN_H \<Longrightarrow> c < SCREEN_W \<Longrightarrow> stores_ok (write_u64_at r c v attr)"
  by (simp add: write_u64_at_def put_digits_ok put_at_ok)

lemma draw_row_ok:
  assumes "view < visible_height cs"
  shows "stores_ok (draw_row cs view)"
  using text_area_fits(1,2) [OF assms] by (auto simp: draw_row_def Let_def stores_ok_map intro!: put_at_ok)

subsection \<open>Numbers\<close>

lemma write_u64_digits: "write_u64_at r c v attr = put_digits r c (emit_unsigned v 10) attr" if "c < SCREEN_W"
proof -
  have "unat v < 10 ^ 32" using unsigned_less [of v, where 'a = nat] by simp
  then show ?thesis using that by (simp add: write_u64_at_def emit_unsigned_def dec_loop_digits)
qed

lemma put_digits_map:
  "put_digits r c s attr = map (\<lambda>i. put_at r (c + i) (s ! i) attr) [0..<min (length s) (SCREEN_W - c)]"
proof (induction r c s attr rule: put_digits.induct)
  case (1 r c attr)
  then show ?case by simp
next
  case (2 r c d ds attr)
  show ?case
  proof (cases "c < SCREEN_W")
    case True
    then have "min (length (d # ds)) (SCREEN_W - c) = Suc (min (length ds) (SCREEN_W - (c + 1)))" by simp
    then show ?thesis using 2 True by (simp add: map_upt_Suc del: upt_Suc)
  qed simp
qed

lemma put_digits_blit:
  assumes "r < SCREEN_H" and "c < SCREEN_W" and "length V = SCREEN_W * SCREEN_H"
  shows "store_all (put_digits r c s attr) V = blit (r * SCREEN_W + c) (map (cell attr) (take (SCREEN_W - c) s)) V"
proof -
  have "r * SCREEN_W + c + min (length s) (SCREEN_W - c) \<le> length V"
    using assms by (simp add: console_consts)
  then have "store_all (put_digits r c s attr) V
      = blit (r * SCREEN_W + c) (map (\<lambda>i. cell attr (s ! i)) [0..<min (length s) (SCREEN_W - c)]) V"
    unfolding put_digits_map by (rule put_row_blit)
  also have "map (\<lambda>i. cell attr (s ! i)) [0..<min (length s) (SCREEN_W - c)] = map (cell attr) (take (SCREEN_W - c) s)"
    by (intro nth_equalityI) simp_all
  finally show ?thesis .
qed

subsection \<open>The cursor\<close>

text \<open>The CRT controller behind ports \<open>0x3d4\<close> (register index) and \<open>0x3d5\<close> (register value);
  registers 14 and 15 hold the cursor position.\<close>

definition crtc_out :: "u16 \<Rightarrow> u8 \<Rightarrow> u8 \<times> (u8 \<Rightarrow> u8) \<Rightarrow> u8 \<times> (u8 \<Rightarrow> u8)" where
  "crtc_out port v = (\<lambda>(i, R). if port = 0x3d4 then (v, R) else if port = 0x3d5 then (i, R(i := v)) else (i, R))"

definition crtc_ports :: "(u8 \<times> (u8 \<Rightarrow> u8)) ports" where
  "crtc_ports = \<lparr>in_b = (\<lambda>_ h. (0, h)), out_b = crtc_out, in_w = (\<lambda>_ h. (0, h)), out_w = (\<lambda>_ _ h. h)\<rparr>"

definition cursor_at :: "u8 \<times> (u8 \<Rightarrow> u8) \<Rightarrow> nat" where
  "cursor_at h = 256 * unat (snd h 0x0e) + unat (snd h 0x0f)"

lemma unat_low_byte: "unat (ucast (w AND 0xff) :: u8) = unat w mod 256" for w :: u16
proof -
  have "w AND 0xff = take_bit 8 w" by (simp add: take_bit_eq_mask mask_numeral)
  then show ?thesis by (simp add: unsigned_ucast_eq unsigned_take_bit_eq take_bit_eq_mod unat_mod)
qed

lemma move_cursor_at:
  assumes "row c < SCREEN_H" and "col c < SCREEN_W"
  shows "cursor_at (move_cursor crtc_ports c h) = row c * SCREEN_W + col c"
proof -
  define n where "n = row c * SCREEN_W + col c"
  have n: "n < 2000" using assms by (simp add: n_def console_consts)
  then have u: "unat (word_of_nat n :: u16) = n" by (simp add: unat_word_of_nat_less)
  have high: "unat (drop_bit 8 (word_of_nat n :: u16)) mod 256 = n div 256"
    using n by (simp add: unat_drop_bit_word u)
  show ?thesis
    unfolding cursor_at_def move_cursor_def Let_def crtc_ports_def crtc_out_def n_def [symmetric]
    by (simp add: unat_low_byte u high split: prod.split)
qed

subsection \<open>What a piece of text leaves in a row\<close>

lemma blit_nth:
  assumes "p + length xs \<le> length V" and "i < length V"
  shows "blit p xs V ! i = (if p \<le> i \<and> i < p + length xs then xs ! (i - p) else V ! i)"
  using assms by (auto simp: blit_def nth_append min_def)

lemma length_frame_row [simp]:
  "r < SCREEN_H \<Longrightarrow> c + n \<le> SCREEN_W \<Longrightarrow> length V = SCREEN_W * SCREEN_H \<Longrightarrow> length (frame_row V r c n) = n"
  by (simp add: frame_row_def console_consts)

lemma frame_row_nth:
  "r < SCREEN_H \<Longrightarrow> c + n \<le> SCREEN_W \<Longrightarrow> length V = SCREEN_W * SCREEN_H \<Longrightarrow> i < n
    \<Longrightarrow> frame_row V r c n ! i = V ! (r * SCREEN_W + c + i)"
  by (simp add: frame_row_def console_consts ac_simps)

lemma put_digits_shows:
  assumes "r < SCREEN_H" and "c' \<le> c" and "c + n \<le> c' + length s" and "c + n \<le> SCREEN_W" and "0 < n"
    and V: "length V = SCREEN_W * SCREEN_H"
  shows "frame_row (store_all (put_digits r c' s attr) V) r c n = map (cell attr) (take n (drop (c - c') s))"
proof (rule nth_equalityI)
  let ?V = "store_all (put_digits r c' s attr) V"
  show "length (frame_row ?V r c n) = length (map (cell attr) (take n (drop (c - c') s)))"
    using assms by simp
  fix i assume "i < length (frame_row ?V r c n)"
  then have i: "i < n" using assms by simp
  have bound: "r * SCREEN_W + c + i < length V" "c' < SCREEN_W"
    "r * SCREEN_W + c' + length (map (cell attr) (take (SCREEN_W - c') s)) \<le> length V"
    using assms i by (auto simp: console_consts)
  define j where "j = c - c' + i"
  have j: "r * SCREEN_W + c + i = r * SCREEN_W + c' + j" "j < length s" "j < SCREEN_W - c'"
    using assms i by (simp_all add: j_def)
  have "?V ! (r * SCREEN_W + c' + j) = cell attr (s ! j)"
    using j bound by (simp add: put_digits_blit [OF assms(1) bound(2) V] blit_nth)
  then have "?V ! (r * SCREEN_W + c + i) = cell attr (s ! (c - c' + i))"
    by (simp only: j(1) j_def [symmetric])
  then show "frame_row ?V r c n ! i = map (cell attr) (take n (drop (c - c') s)) ! i"
    using assms i by (simp add: frame_row_nth)
qed

lemma put_digits_keeps:
  assumes "r < SCREEN_H" and "r' < SCREEN_H" and "c' < SCREEN_W" and "c + n \<le> SCREEN_W"
    and apart: "r' \<noteq> r \<or> c + n \<le> c' \<or> c' + length s \<le> c" and V: "length V = SCREEN_W * SCREEN_H"
  shows "frame_row (store_all (put_digits r' c' s attr) V) r c n = frame_row V r c n"
  unfolding put_digits_blit [OF assms(2,3) V]
proof (rule frame_row_blit_other)
  show "r' * SCREEN_W + c' + length (map (cell attr) (take (SCREEN_W - c') s)) \<le> length V"
    using assms by (auto simp: console_consts)
  consider "r' < r" | "r < r'" | "c + n \<le> c' \<or> c' + length s \<le> c" "r' = r"
    using apart by linarith
  then show "r * SCREEN_W + c + n \<le> r' * SCREEN_W + c' \<or>
      r' * SCREEN_W + c' + length (map (cell attr) (take (SCREEN_W - c') s)) \<le> r * SCREEN_W + c"
    using assms(1-4) by cases (auto simp: console_consts)
qed

lemma frame_row_split: "frame_row V r c (n + m) = frame_row V r c n @ frame_row V r (c + n) m"
  by (simp only: frame_row_def take_add drop_drop) (simp add: ac_simps)

lemma draw_rows_keep:
  assumes inv: "console_inv cs" and V: "length V = SCREEN_W * SCREEN_H" and k: "k \<le> visible_height cs"
    and below: "content_row0 cs + visible_height cs \<le> r" and r: "r < SCREEN_H" "c + n \<le> SCREEN_W"
  shows "frame_row (store_all (concat (map (draw_row cs) [0..<k])) V) r c n = frame_row V r c n"
  using k
proof (induction k)
  case 0
  then show ?case by simp
next
  case (Suc k)
  let ?V = "store_all (concat (map (draw_row cs) [0..<k])) V"
  let ?p = "(content_row0 cs + k) * SCREEN_W + content_col0 cs"
  let ?xs = "map (cell (text_attr cs)) (padded (visible_width cs) CHR '' '' (window cs ! k))"
  have k: "k < visible_height cs" using Suc.prems by simp
  have "content_row0 cs + k + 1 \<le> r" using k below by simp
  then have "(content_row0 cs + k + 1) * SCREEN_W \<le> r * SCREEN_W" by (rule mult_le_mono1)
  then have "?p + length ?xs \<le> r * SCREEN_W + c" using text_area_fits(2) [OF k] by simp
  moreover have "?p + length ?xs \<le> length ?V" using text_area_fits(3) [OF k] V by simp
  ultimately have "frame_row (blit ?p ?xs ?V) r c n = frame_row ?V r c n"
    by (intro frame_row_blit_other) simp_all
  then show ?case using draw_row_blit [OF inv k, of ?V] V Suc by (simp add: store_all_append)
qed

lemma length_digit_loop_ge: "2 \<le> base \<Longrightarrow> base ^ n \<le> v \<Longrightarrow> n < length (digit_loop v base)"
proof (induction n arbitrary: v)
  case 0
  then show ?case by (simp add: digit_loop.simps [of v])
next
  case (Suc n)
  have "base ^ n \<le> v div base"
    using Suc.prems by (simp add: less_eq_div_iff_mult_less_eq mult.commute)
  moreover have "0 < v" using Suc.prems by (metis gr_zeroI le_zero_eq power_not_zero not_numeral_le_zero)
  ultimately show ?case using Suc by (simp add: digit_loop.simps [of v])
qed

section \<open>Properties\<close>



end
