(* ===== verification/Screen.thy ===== *)
theory Screen
  imports Interrupts Frame
begin

text \<open>
  The drawing half of \<open>render_output\<close> of \<open>kernel/console.c\<close>: the window frame, the status bars, which
  show the counters of the other components, and the text area.  The other half, which places the
  cursor, is \<open>Console.render_output\<close>; \<open>render_screen\<close> is the whole.
\<close>

section \<open>Definitions\<close>

subsection \<open>The window frame and the status bars\<close>

definition refresh_gui_chrome :: "mouse \<Rightarrow> 'd kernel \<Rightarrow> store list" where
  "refresh_gui_chrome m k =
     (let ts = sched_snapshot 8 k; task_count = word_of_nat (length ts) :: u64;
          runnable = word_of_nat (length (filter (\<lambda>t. t_state t = Task_Ready \<or> t_state t = Task_Running) ts)) :: u64;
          net = netfs_get_stats k; pw = power_get_stats k; mem = vm_mem (k_vm k); c = k_con k
      in concat (map (\<lambda>x. [put_at 0 x CHR '' '' 0x30, put_at 1 x CHR '' '' 0x17,
             put_at 22 x CHR '' '' 0x17, put_at 24 x CHR '' '' 0x10]) [0..<SCREEN_W]) @
         concat [
           write_at 0 2 '' BB workstation '' 0x30,
           write_at 0 27 ''ticks='' 0x30, write_u64_at 0 33 (pit_ticks k) 0x30,
           write_at 0 43 ''mem='' 0x30, write_u64_at 0 47 (used_bytes mem div 1024) 0x30, write_at 0 53 ''K'' 0x30,
           write_at 0 57 ''tasks='' 0x30, write_u64_at 0 63 task_count 0x30,
           write_at 0 66 ''/'' 0x30, write_u64_at 0 67 runnable 0x30,
           write_at 1 2 ''shell'' 0x17,
           write_at 1 10 ''trace='' 0x17, write_u64_at 1 16 (st_events (tr_stats (k_trace k))) 0x17,
           write_at 1 26 ''tx='' 0x17, write_u64_at 1 29 (ns_tx_packets net) 0x17,
           write_at 1 35 ''rx='' 0x17, write_u64_at 1 38 (ns_rx_packets net) 0x17,
           write_at 1 44 ''q='' 0x17, write_u64_at 1 46 (ucast (ns_queue_depth net)) 0x17,
           write_at 1 50 ''pwr='' 0x17, write_at 1 54 (power_mode_name k) 0x17,
           write_at 1 66 ''w='' 0x17, write_u64_at 1 68 (pw_wakeups pw) 0x17,
           write_at 22 2 ''proc='' 0x17, write_u64_at 22 7 (ucast (sched_current_pid k)) 0x17,
           write_at 22 12 ''aspace='' 0x17, write_u64_at 22 19 (ucast (sched_current_aspace k)) 0x17,
           write_at 22 24 ''pf='' 0x17, write_u64_at 22 27 (page_faults mem) 0x17,
           write_at 22 34 ''free='' 0x17, write_u64_at 22 39 (memory_free_bytes mem div 1024) 0x17, write_at 22 45 ''K'' 0x17,
           write_at 22 48 ''keys='' 0x17, write_u64_at 22 53 (ucast (pw_pending_keys pw)) 0x17,
           write_at 22 57 ''txq='' 0x17, write_u64_at 22 61 (ucast (pw_pending_tx_packets pw)) 0x17,
           write_at 22 65 ''m='' 0x17, write_at 22 67 (if ms_present (mouse_get_state m) \<noteq> 0 then ''on'' else ''off'') 0x17,
           if viewport_offset c \<noteq> 0 then
             write_at 24 60 ''READ '' 0x10 @ write_u64_at 24 65 (word_of_nat (viewport_offset c)) 0x10 @
             write_at 24 70 ''/'' 0x10 @ write_u64_at 24 71 (word_of_nat (max_viewport_offset c)) 0x10
           else [],
           write_at 24 2 ''PgUp/PgDn scroll  Home/End jump  help, man, ping, ps, netstat'' 0x10])"

definition draw_frame :: "mouse \<Rightarrow> 'd kernel \<Rightarrow> store list" where
  "draw_frame m k =
     (if \<not> gui_mode (k_con k) then map (\<lambda>i. (i, cell color CHR '' '')) [0..<SCREEN_W * SCREEN_H]
      else
        concat (map (\<lambda>r. map (\<lambda>c. put_at r c CHR '' '' 0x17) [0..<SCREEN_W]) [0..<SCREEN_H]) @
        concat (map (\<lambda>r. [put_at r (GUI_LEFT - 2) CHR '' '' 0x70, put_at r (GUI_RIGHT + 1) CHR '' '' 0x70])
          [GUI_TOP - 1..<Suc (GUI_BOTTOM + 1)]) @
        concat (map (\<lambda>c. [put_at (GUI_TOP - 1) c CHR '' '' 0x70, put_at (GUI_BOTTOM + 1) c CHR '' '' 0x70])
          [GUI_LEFT - 1..<Suc GUI_RIGHT]) @
        concat (map (\<lambda>r. map (\<lambda>c. put_at r c CHR '' '' 0x1f) [GUI_LEFT..<Suc GUI_RIGHT]) [GUI_TOP..<Suc GUI_BOTTOM]) @
        refresh_gui_chrome m k)"

definition draw_output :: "mouse \<Rightarrow> 'd kernel \<Rightarrow> store list" where
  "draw_output m k = draw_frame m k @ concat (map (draw_row (k_con k)) [0..<visible_height (k_con k)])"

text \<open>The whole of \<open>render_output\<close>: the frame, the cursor variables, and the cursor ports.\<close>

definition render_screen :: "'h ports \<Rightarrow> mouse \<Rightarrow> 'd kernel \<Rightarrow> frame \<Rightarrow> 'h \<Rightarrow> 'd kernel \<times> frame \<times> 'h" where
  "render_screen P m k V h =
     (let V' = store_all (draw_output m k) V; c = render_output (k_con k)
      in (k\<lparr>k_con := c\<rparr>, V', move_cursor P c h))"

section \<open>Lemmas\<close>

text \<open>The writers are used through \<open>write_at_ok\<close>, \<open>write_u64_at_ok\<close> and \<open>put_digits_blit\<close>.\<close>

declare write_at.simps [simp del] put_digits.simps [simp del]

lemma refresh_gui_chrome_ok: "stores_ok (refresh_gui_chrome m k)"
  by (simp add: refresh_gui_chrome_def Let_def stores_ok_concat list_all_iff put_at_def write_at_ok
      write_u64_at_ok console_consts)

lemma draw_frame_ok: "stores_ok (draw_frame m k)"
  by (simp add: draw_frame_def stores_ok_concat stores_ok_map list_all_iff refresh_gui_chrome_ok)
    (auto simp: put_at_def console_consts)

lemma draw_output_ok: "stores_ok (draw_output m k)"
  by (simp add: draw_output_def draw_frame_ok stores_ok_concat list_all_iff draw_row_ok)

text \<open>The background is drawn over the whole frame first.\<close>

lemma draw_frame_covers: "{0..<SCREEN_W * SCREEN_H} \<subseteq> fst ` set (draw_frame m k)"
proof
  fix i assume i: "i \<in> {0..<SCREEN_W * SCREEN_H}"
  show "i \<in> fst ` set (draw_frame m k)"
  proof (cases "gui_mode (k_con k)")
    case True
    let ?bg = "concat (map (\<lambda>r. map (\<lambda>c. put_at r c CHR '' '' 0x17) [0..<SCREEN_W]) [0..<SCREEN_H])"
    have "i div SCREEN_W < SCREEN_H" "i mod SCREEN_W < SCREEN_W" "i = i div SCREEN_W * SCREEN_W + i mod SCREEN_W"
      using i by (simp_all add: console_consts less_mult_imp_div_less)
    then have "put_at (i div SCREEN_W) (i mod SCREEN_W) CHR '' '' 0x17 \<in> set ?bg"
      by simp (metis atLeast0LessThan imageI lessThan_iff)
    then have "fst (put_at (i div SCREEN_W) (i mod SCREEN_W) CHR '' '' 0x17) \<in> fst ` set ?bg"
      by (rule imageI)
    moreover have "fst (put_at (i div SCREEN_W) (i mod SCREEN_W) CHR '' '' 0x17) = i"
      by (simp add: put_at_def)
    ultimately have "i \<in> fst ` set ?bg" by (simp only:)
    then show ?thesis
      unfolding draw_frame_def using True by (simp only: simp_thms if_False set_append image_Un Un_iff)
  next
    case False
    with i show ?thesis by (auto simp: draw_frame_def image_iff)
  qed
qed

text \<open>The text area after a redraw.\<close>

lemma draw_output_text:
  assumes "console_inv (k_con k)" and "length V = SCREEN_W * SCREEN_H"
  shows "text_area (k_con k) (store_all (draw_output m k) V)
    = map (\<lambda>l. map (cell (text_attr (k_con k))) (padded (visible_width (k_con k)) CHR '' '' l)) (window (k_con k))"
  using draw_rows_area [OF assms(1), of "store_all (draw_frame m k) V"] assms(2)
  by (simp add: draw_output_def store_all_append)

lemma draw_output_forgets:
  assumes "length V = SCREEN_W * SCREEN_H" and "length W = SCREEN_W * SCREEN_H"
  shows "store_all (draw_output m k) V = store_all (draw_output m k) W"
proof -
  have "store_all (draw_frame m k) V = store_all (draw_frame m k) W"
    by (rule store_all_covers) (use draw_frame_covers assms in simp_all)
  then show ?thesis by (simp add: draw_output_def store_all_append)
qed

text \<open>\<open>Console.render_output\<close> changes only the cursor, so the drawing it belongs to is the same.\<close>

lemma render_output_window [simp]:
  "visible_width (render_output c) = visible_width c" "visible_height (render_output c) = visible_height c"
  "window (render_output c) = window c" "text_attr (render_output c) = text_attr c"
  "text_area (render_output c) V = text_area c V" "max_viewport_offset (render_output c) = max_viewport_offset c"
  by (simp_all add: visible_width_def visible_height_def window_def start_line_def text_attr_def text_area_def
      content_row0_def content_col0_def max_viewport_offset_def)

text \<open>At the bottom of the log the cursor stands in the row of the last line.\<close>

lemma cursor_row:
  assumes inv: "console_inv c" and bottom: "viewport_offset c = 0"
  defines "view \<equiv> min (log_count c) (visible_height c) - 1"
  shows "view < visible_height c" and "window c ! view = last (log_view c)"
    and "row (render_output c) = content_row0 c + view"
    and "col (render_output c) = content_col0 c + min (length (last (log_view c))) (visible_width c - 1)"
proof -
  have n: "1 \<le> log_count c" and h: "1 \<le> visible_height c"
    using inv by (simp_all add: console_inv_def visible_height_def console_consts)
  then have view: "Suc view = min (log_count c) (visible_height c)" by (simp add: view_def)
  then show v: "view < visible_height c" by simp
  have "start_line c + view = log_count c - 1"
    using n h bottom by (auto simp: start_line_def view_def min_def)
  then show "window c ! view = last (log_view c)"
    using n last_conv_nth [of "log_view c"] length_log_view [of c]
    by (cases "log_view c = []") (simp_all add: window_nth [OF v])
  show "row (render_output c) = content_row0 c + view"
    using n h bottom by (simp add: render_output_def Let_def view_def min_def)
  have w: "1 \<le> visible_width c" using visible_width_bounds(1) [of c] by simp
  then show "col (render_output c) = content_col0 c + min (length (last (log_view c))) (visible_width c - 1)"
    using bottom by (auto simp: render_output_def Let_def log_view_last(2) [OF inv])
qed

text \<open>Scrolling to a given offset.\<close>

lemma console_scroll_to:
  assumes "n \<le> max_viewport_offset c"
  shows "console_scroll (int (viewport_offset c) - int n) c = render_output (c\<lparr>viewport_offset := n\<rparr>)"
proof -
  have "nat (int a - int b) = a - b" for a b by arith
  then show ?thesis using assms by (auto simp: console_scroll_def Let_def)
qed

lemma line_in_window:
  assumes inv: "console_inv c" and i: "i < log_count c"
  obtains n where "n \<le> max_viewport_offset c" and "log_view c ! i \<in> set (window (c\<lparr>viewport_offset := n\<rparr>))"
proof
  let ?h = "visible_height c"
  let ?n = "if log_count c \<le> ?h then 0 else log_count c - ?h - min i (log_count c - ?h)"
  let ?c = "c\<lparr>viewport_offset := ?n\<rparr>"
  show "?n \<le> max_viewport_offset c" by (auto simp: max_viewport_offset_def)
  have h: "visible_height ?c = ?h" "1 \<le> ?h" and view: "log_view ?c = log_view c"
    by (simp_all add: visible_height_def log_view_def console_consts)
  have start: "start_line ?c \<le> i" "i - start_line ?c < ?h"
    using i h by (auto simp: start_line_def min_def)
  then have "window ?c ! (i - start_line ?c) = log_view c ! i"
    using i by (simp add: window_nth h view)
  then show "log_view c ! i \<in> set (window ?c)"
    using start by (metis h(1) length_window nth_mem)
qed

lemma draw_output_bar:
  assumes "console_inv (k_con k)" and "length V = SCREEN_W * SCREEN_H" and "gui_mode (k_con k)"
    and "22 \<le> r" "r < SCREEN_H" "c + n \<le> SCREEN_W"
  shows "frame_row (store_all (draw_output m k) V) r c n = frame_row (store_all (draw_frame m k) V) r c n"
proof -
  have "content_row0 (k_con k) + visible_height (k_con k) \<le> r"
    using assms by (simp add: content_row0_def visible_height_def console_consts)
  then show ?thesis
    using draw_rows_keep [OF assms(1) _ order_refl _ assms(5,6), of "store_all (draw_frame m k) V"] assms(2)
    by (simp add: draw_output_def store_all_append)
qed

text \<open>The status bars are drawn after the window frame.\<close>

lemma draw_frame_chrome:
  assumes "gui_mode (k_con k)" and "length V = SCREEN_W * SCREEN_H"
  obtains W where "length W = SCREEN_W * SCREEN_H" and "store_all (draw_frame m k) V = store_all (refresh_gui_chrome m k) W"
  using assms by (intro that) (simp_all add: draw_frame_def store_all_append)

section \<open>Properties\<close>

text \<open>C9: \<open>render_output\<close> shows the log.  Whatever was on the screen before, every store falls inside
  the 80 by 25 frame, and afterwards the text area holds, line for line, the window of the log that
  the scroll position selects, each line cut or padded with blanks to the width of the area.  The
  position written to the CRT controller is the cursor's cell; at the bottom of the log it stands in
  the row that shows the last line, right after its text.\<close>

theorem screen_shows_log:
  assumes inv: "console_inv (k_con k)" and V: "length V = SCREEN_W * SCREEN_H"
    and run: "render_screen crtc_ports m k V h = (k', V', h')"
  defines "c \<equiv> k_con k"
  shows "stores_ok (draw_output m k) \<and> length V' = SCREEN_W * SCREEN_H \<and>
    text_area c V' = map (\<lambda>l. map (cell (text_attr c)) (padded (visible_width c) CHR '' '' l)) (window c) \<and>
    cursor_at h' = row (k_con k') * SCREEN_W + col (k_con k') \<and> cursor_at h' < SCREEN_W * SCREEN_H \<and>
    (if viewport_offset c = 0
     then \<exists>view < visible_height c. window c ! view = last (log_view c) \<and> row (k_con k') = content_row0 c + view \<and>
       col (k_con k') = content_col0 c + min (length (last (log_view c))) (visible_width c - 1)
     else row (k_con k') = content_row0 c + visible_height c - 1 \<and> col (k_con k') = content_col0 c)"
proof -
  have V': "V' = store_all (draw_output m k) V" and k': "k_con k' = render_output c"
    and h': "h' = move_cursor crtc_ports (render_output c) h"
    using run by (auto simp: render_screen_def Let_def c_def)
  note cursor = render_output_cursor [of c]
  have at: "cursor_at h' = row (render_output c) * SCREEN_W + col (render_output c)"
    unfolding h' by (rule move_cursor_at) (rule cursor)+
  have "cursor_at h' < SCREEN_W * SCREEN_H"
    using cursor unfolding at by (simp add: console_consts)
  moreover have "if viewport_offset c = 0
     then \<exists>view < visible_height c. window c ! view = last (log_view c) \<and> row (k_con k') = content_row0 c + view \<and>
       col (k_con k') = content_col0 c + min (length (last (log_view c))) (visible_width c - 1)
     else row (k_con k') = content_row0 c + visible_height c - 1 \<and> col (k_con k') = content_col0 c"
    using cursor_row [of c] inv unfolding k' c_def [symmetric]
    by (auto simp: render_output_def Let_def)
  ultimately show ?thesis
    using draw_output_text [OF inv V, of m] V at
    by (simp add: V' draw_output_ok k' flip: c_def)
qed

text \<open>No line of the log is out of reach: for every stored line there is a scroll step after
  which the redrawn text area shows it.\<close>

theorem every_line_reachable:
  assumes inv: "console_inv (k_con k)" and V: "length V = SCREEN_W * SCREEN_H" and i: "i < length (log_view (k_con k))"
  shows "\<exists>delta. let c = console_scroll delta (k_con k) in
    map (cell (text_attr c)) (padded (visible_width c) CHR '' '' (log_view (k_con k) ! i))
      \<in> set (text_area c (store_all (draw_output m (k\<lparr>k_con := c\<rparr>)) V))"
proof -
  let ?c0 = "k_con k"
  obtain n where n: "n \<le> max_viewport_offset ?c0" and mem: "log_view ?c0 ! i \<in> set (window (?c0\<lparr>viewport_offset := n\<rparr>))"
    using line_in_window [OF inv] i by auto
  define c where "c = console_scroll (int (viewport_offset ?c0) - int n) ?c0"
  have c: "c = render_output (?c0\<lparr>viewport_offset := n\<rparr>)" using console_scroll_to [OF n] by (simp add: c_def)
  have "console_inv c" using console_scroll_inv(1) [OF inv] by (simp add: c_def)
  then have "text_area c (store_all (draw_output m (k\<lparr>k_con := c\<rparr>)) V)
      = map (\<lambda>l. map (cell (text_attr c)) (padded (visible_width c) CHR '' '' l)) (window c)"
    using draw_output_text [of "k\<lparr>k_con := c\<rparr>" V m] V by simp
  moreover have "log_view ?c0 ! i \<in> set (window c)" using mem by (simp add: c)
  ultimately show ?thesis unfolding Let_def by (intro exI [of _ "int (viewport_offset ?c0) - int n"]) (simp flip: c_def)
qed

text \<open>Two defects of the status bars.  The help text at column 2 of the bottom row is 61 characters
  long and is written last, so while the view is scrolled back it covers the first three letters of
  the marker \<open>READ\<close> at column 60.  The field of the free memory has room for six digits before its
  unit, so from 1000000 KiB on the unit covers the seventh digit and the figure shown is too small
  by a factor of ten or more.\<close>

theorem gui_help_covers_marker:
  assumes "console_inv (k_con k)" and V: "length V = SCREEN_W * SCREEN_H" and gui: "gui_mode (k_con k)"
    and scrolled: "viewport_offset (k_con k) \<noteq> 0"
  shows "frame_row (store_all (draw_output m k) V) 24 60 5 = map (cell 0x10) ''tatD ''"
proof -
  obtain W where W: "length W = SCREEN_W * SCREEN_H" and eq: "store_all (draw_frame m k) V = store_all (refresh_gui_chrome m k) W"
    using draw_frame_chrome [OF gui V] .
  have "frame_row (store_all (refresh_gui_chrome m k) W) 24 60 3 = map (cell 0x10) ''tat''"
    "frame_row (store_all (refresh_gui_chrome m k) W) 24 63 2 = map (cell 0x10) ''D ''"
    using W scrolled
    by (simp_all add: refresh_gui_chrome_def Let_def store_all_append write_at_digits write_u64_digits c_str_def
        put_digits_shows put_digits_keeps console_consts del: map_map)
  then show ?thesis
    using draw_output_bar [OF assms(1) V gui, of 24 60 5 m] frame_row_split [of "store_all (draw_frame m k) V" 24 60 3 2]
    by (simp add: eq console_consts)
qed

theorem gui_free_memory_cut:
  assumes "console_inv (k_con k)" and V: "length V = SCREEN_W * SCREEN_H" and gui: "gui_mode (k_con k)"
    and large: "10 ^ 6 \<le> unat (memory_free_bytes (vm_mem (k_vm k)) div 1024)"
  shows "frame_row (store_all (draw_output m k) V) 22 39 7
    = map (cell 0x17) (take 6 (emit_unsigned (memory_free_bytes (vm_mem (k_vm k)) div 1024) 10) @ ''K'')"
proof -
  let ?free = "memory_free_bytes (vm_mem (k_vm k)) div 1024"
  obtain W where W: "length W = SCREEN_W * SCREEN_H" and eq: "store_all (draw_frame m k) V = store_all (refresh_gui_chrome m k) W"
    using draw_frame_chrome [OF gui V] .
  have "?free \<noteq> 0" using large by auto
  then have "6 < length (emit_unsigned ?free 10)"
    using length_digit_loop_ge [of 10 6 "unat ?free"] large by (simp add: emit_unsigned_def)
  then have "frame_row (store_all (refresh_gui_chrome m k) W) 22 39 6 = map (cell 0x17) (take 6 (emit_unsigned ?free 10))"
    "frame_row (store_all (refresh_gui_chrome m k) W) 22 45 1 = map (cell 0x17) ''K''"
    using W
    by (simp_all add: refresh_gui_chrome_def Let_def store_all_append write_at_digits write_u64_digits c_str_def
        put_digits_shows put_digits_keeps console_consts del: map_map)
  then show ?thesis
    using draw_output_bar [OF assms(1) V gui, of 22 39 7 m] frame_row_split [of "store_all (draw_frame m k) V" 22 39 6 1]
    by (simp add: eq console_consts)
qed

section \<open>Examples\<close>

text \<open>A console on which one character has been typed.\<close>

definition typed_kernel :: "unit kernel" where
  "typed_kernel = demo_kernel\<lparr>k_con := console_putc CHR ''a'' (console_init console_boot)\<rparr>"

lemma typed_kernel_view:
  "console_inv (k_con typed_kernel)" "log_view (k_con typed_kernel) = [''a'']" "gui_mode (k_con typed_kernel)"
  "log_count (k_con typed_kernel) = 1" "visible_width (k_con typed_kernel) = 73" "visible_height (k_con typed_kernel) = 19"
proof -
  have w: "visible_width console_boot = 73"
    by (simp add: visible_width_def console_boot_def GUI_RIGHT_def GUI_LEFT_def)
  note step = console_putc_step [OF console_init_view(1), of "CHR ''a''" console_boot]
  show "console_inv (k_con typed_kernel)" using step(1) by (simp add: typed_kernel_def)
  show view: "log_view (k_con typed_kernel) = [''a'']"
    using step(2) by (simp add: typed_kernel_def console_init_view view_putc_def view_put_def view_snoc_def w)
  show "log_count (k_con typed_kernel) = 1" using view length_log_view [of "k_con typed_kernel"] by simp
  show width: "visible_width (k_con typed_kernel) = 73" using w by (simp add: typed_kernel_def)
  then show "gui_mode (k_con typed_kernel)" by (simp add: visible_width_def console_consts split: if_splits)
  then show "visible_height (k_con typed_kernel) = 19" by (simp add: visible_height_def console_consts)
qed

theorem screen_shows_log_witness:
  "fst (snd (render_screen crtc_ports demo_mouse typed_kernel (replicate 2000 0) (0, \<lambda>_. 0)))
     = store_all (draw_output demo_mouse typed_kernel) (replicate 2000 0) \<and>
   hd (text_area (k_con typed_kernel) (store_all (draw_output demo_mouse typed_kernel) (replicate 2000 0)))
     = map (cell 0x1f) (padded 73 CHR '' '' ''a'')"
proof -
  let ?V = "replicate 2000 0 :: frame"
  obtain k' V' h' where run: "render_screen crtc_ports demo_mouse typed_kernel ?V (0, \<lambda>_. 0) = (k', V', h')"
    by (metis prod.exhaust)
  have V: "length ?V = SCREEN_W * SCREEN_H" by (simp add: console_consts)
  have "hd (window (k_con typed_kernel)) = ''a''"
    using typed_kernel_view by (simp add: window_def padded_def start_line_def)
  moreover have "text_attr (k_con typed_kernel) = 0x1f" by (simp add: text_attr_def typed_kernel_view)
  moreover have "window (k_con typed_kernel) \<noteq> []"
    using length_window [of "k_con typed_kernel"] typed_kernel_view by auto
  ultimately have "hd (text_area (k_con typed_kernel) V') = map (cell 0x1f) (padded 73 CHR '' '' ''a'')"
    using screen_shows_log [OF typed_kernel_view(1) V run] typed_kernel_view(5) by (simp add: hd_map)
  then show ?thesis using run by (simp add: render_screen_def Let_def)
qed

theorem every_line_reachable_witness:
  "\<exists>delta. let c = console_scroll delta (k_con typed_kernel) in
    map (cell (text_attr c)) (padded (visible_width c) CHR '' '' ''a'')
      \<in> set (text_area c (store_all (draw_output demo_mouse (typed_kernel\<lparr>k_con := c\<rparr>)) (replicate 2000 0)))"
  using every_line_reachable [OF typed_kernel_view(1), of "replicate 2000 0" 0 demo_mouse] typed_kernel_view(2)
  by (simp add: console_consts)

end
