(* ===== verification/Manual.thy ===== *)
theory Manual
  imports C_String
begin

text \<open>
  The built-in manual of \<open>kernel/manual.c\<close>: the list of commands, the pages and the lookup by
  topic.  A text is written as the list of its lines.
\<close>

section \<open>Definitions\<close>

definition text_lines :: "char list list \<Rightarrow> char list" where
  "text_lines ls = concat (map (\<lambda>l. l @ [LF]) ls)"

definition all_commands :: "char list list" where
  "all_commands = [''help'', ''man'', ''ls'', ''cat'', ''write'', ''open'', ''readfd'', ''writefd'', ''close'', ''fork'',
     ''execve'', ''run'', ''waitpid'', ''ping'', ''ps'', ''netstat'', ''mouse status'', ''power status'',
     ''power perf'', ''power balanced'', ''power saver'', ''sim'', ''net send'', ''net inject'', ''net loopback'',
     ''clear'', ''gui on'', ''gui off'', ''uname'', ''uptime'', ''fsinfo'', ''state'', ''smpinfo'', ''explain'',
     ''posix status'', ''perf'', ''demo record'', ''demo replay'', ''trace start'', ''trace stop'',
     ''trace list'', ''trace stats'', ''traceview'', ''replay session'', ''meminfo'', ''irqstat'', ''attack_sim'',
     ''sysload'', ''lifecycle_test'', ''proc'']"

definition manual_command_list :: "char list" where
  "manual_command_list = text_lines all_commands"

definition page_help :: "char list list" where
  "page_help = [''NAME'', ''  help - show the command surface in one line'', '''', ''USAGE'', ''  help'', '''',
     ''DESCRIPTION'', ''  Prints all commands one per line. Use 'man <command>' for a full manual page.'']"

definition page_man :: "char list list" where
  "page_man = [''NAME'', ''  man - print a built-in manual page'', '''', ''USAGE'', ''  man <topic>'', '''', ''TOPICS'',
     ''  commands, help, ls, cat, write, open, readfd, writefd, close, fork, execve, run, waitpid,'',
     ''  ping, ps, netstat, mouse, power, sim, gui, trace, demo, proc, posix, perf'']"

definition page_commands :: "char list list" where
  "page_commands = [''COMMANDS'', ''  help'', ''  man'', ''  ls'', ''  cat'', ''  write'', ''  open'', ''  readfd'',
     ''  writefd'', ''  close'', ''  fork'', ''  execve'', ''  run'', ''  waitpid'', ''  ping'', ''  ps'',
     ''  netstat'', ''  mouse status'', ''  power status'', ''  power perf'', ''  power balanced'',
     ''  power saver'', ''  sim'', ''  net send'', ''  net inject'', ''  net loopback'', ''  clear'',
     ''  gui on'', ''  gui off'', ''  uname'', ''  uptime'', ''  fsinfo'', ''  state'', ''  smpinfo'',
     ''  explain'', ''  posix status'', ''  perf'', ''  demo record'', ''  demo replay'', ''  trace start'',
     ''  trace stop'', ''  trace list'', ''  trace stats'', ''  traceview'', ''  replay session'', ''  meminfo'',
     ''  irqstat'', ''  attack_sim'', ''  sysload'', ''  lifecycle_test'', ''  proc'']"

definition page_ls :: "char list list" where
  "page_ls = [''NAME'', ''  ls - list kernel namespaces and virtual directories'', '''', ''USAGE'', ''  ls'', ''  ls /'',
     ''  ls /bin'', ''  ls /trace'', ''  ls /net'', ''  ls /proc'', '''', ''DESCRIPTION'',
     ''  Lists the root VFS layout or a supported namespace. '/bin' lists file-backed executable paths.'',
     ''  '/trace' lists recorded trace sessions. '/net' lists packet files. '/proc' lists live kernel views.'']"

definition page_cat :: "char list list" where
  "page_cat = [''NAME'', ''  cat - read a VFS path through the syscall layer'', '''', ''USAGE'', ''  cat <path>'', '''',
     ''DESCRIPTION'',
     ''  Reads virtual files such as '/proc/tasks', '/proc/aspace', '/net/stats', '/trace/index','',
     ''  '/bin/ping', and '/bin/ring3demo'. Useful for inspecting the kernel state without leaving the shell.'']"

definition page_write :: "char list list" where
  "page_write = [''NAME'', ''  write - write text into a writable VFS path'', '''', ''USAGE'', ''  write /net/tx <payload>'',
     ''  write /net/rx/inject <payload>'', ''  write /net/config/loopback <0|1>'', '''', ''DESCRIPTION'',
     ''  Sends packets, injects receive packets, or updates simple network configuration by treating'',
     ''  those interfaces as writable files.'']"

definition page_open :: "char list list" where
  "page_open = [''NAME'', ''  open - open a VFS path and return a file descriptor'', '''', ''USAGE'',
     ''  open <path> <r|w|rw>'', ''  open /net/stats r'', '''', ''DESCRIPTION'',
     ''  Opens a VFS path through the descriptor layer. Use 'man readfd', 'man writefd', and'',
     ''  'man close' for the rest of the descriptor workflow.'']"

definition page_readfd :: "char list list" where
  "page_readfd = [''NAME'', ''  readfd - read data from an open file descriptor'', '''', ''USAGE'', ''  readfd <fd>'',
     ''  readfd 0'', '''', ''DESCRIPTION'',
     ''  Reads bytes from an open descriptor. Works with VFS-backed namespaces such as /net, /proc,'',
     ''  /trace, and /bin.'']"

definition page_writefd :: "char list list" where
  "page_writefd = [''NAME'', ''  writefd - write data to an open file descriptor'', '''', ''USAGE'', ''  writefd <fd> <data>'',
     ''  writefd 0 hello'', '''', ''DESCRIPTION'',
     ''  Writes bytes to an open writable descriptor. Use with paths opened by 'open <path> w' or'',
     ''  'open <path> rw'.'']"

definition page_close :: "char list list" where
  "page_close = [''NAME'', ''  close - close an open file descriptor'', '''', ''USAGE'', ''  close <fd>'', ''  close 0'',
     '''', ''DESCRIPTION'', ''  Closes a descriptor opened through the VFS layer.'']"

definition page_fork :: "char list list" where
  "page_fork = [''NAME'', ''  fork - spawn a child kernel task'', '''', ''USAGE'', ''  fork'', '''', ''DESCRIPTION'',
     ''  Creates a child task for scheduler and lifecycle testing. Current semantics are kernel-task style,'',
     ''  not full process-memory cloning.'']"

definition page_execve :: "char list list" where
  "page_execve = [''NAME'', ''  execve, run - start a built-in executable path'', '''', ''USAGE'',
     ''  execve /bin/ping loopback 2'', ''  run /bin/ring3demo'', ''  run /bin/ps'', ''  run /bin/netstat'', '''',
     ''DESCRIPTION'',
     ''  '/bin' paths now expose file-backed executable images. The stable user-facing paths are 'run /bin/ping','',
     ''  'run /bin/ps', 'run /bin/netstat', and 'run /bin/ring3demo'. The deeper spawned-task exec path remains'',
     ''  a prototype ABI surface rather than a full POSIX process loader.'']"

definition page_waitpid :: "char list list" where
  "page_waitpid = [''NAME'', ''  waitpid - wait for a task to finish'', '''', ''USAGE'', ''  waitpid <pid>'', '''',
     ''DESCRIPTION'', ''  Waits until the chosen task reaches zombie state or the shell timeout expires.'']"

definition page_ping :: "char list list" where
  "page_ping = [''NAME'', ''  ping - send ICMP-like loopback traffic through /net'', '''', ''USAGE'', ''  ping loopback 1'',
     ''  ping loopback 4'', '''', ''DESCRIPTION'',
     ''  Uses the stable shell networking path and can also be reached through 'run /bin/ping'. Packets are'',
     ''  emitted as file writes into '/net/tx', looped back, and counted through the network filesystem.'']"

definition page_ps :: "char list list" where
  "page_ps = [''NAME'', ''  ps - print the task table'', '''', ''USAGE'', ''  ps'', '''', ''DESCRIPTION'',
     ''  Prints PID, parent PID, state, CPU accounting, and command identity for kernel tasks. It is available'',
     ''  directly as a shell command and through 'run /bin/ps'.'']"

definition page_netstat :: "char list list" where
  "page_netstat = [''NAME'', ''  netstat - print network counters'', '''', ''USAGE'', ''  netstat'', '''', ''DESCRIPTION'',
     ''  Prints packet counts, bytes, queue depth, drops, and loopback status from the network filesystem. It is'',
     ''  available directly as a shell command and through 'run /bin/netstat'.'']"

definition page_mouse :: "char list list" where
  "page_mouse = [''NAME'', ''  mouse status - inspect the PS/2 mouse integration state'', '''', ''USAGE'', ''  mouse status'',
     '''', ''DESCRIPTION'',
     ''  Shows whether a PS/2 mouse was initialized, the current cursor coordinates tracked by packet input,'',
     ''  button mask, and the number of packets seen.'']"

definition page_power :: "char list list" where
  "page_power = [''NAME'', ''  power - inspect or change the CPU wakeup coalescing policy'', '''', ''USAGE'',
     ''  power status'', ''  power perf'', ''  power balanced'', ''  power saver'', '''', ''DESCRIPTION'',
     ''  Ports the RESEARCH-OS wakeup-reduction idea into BB. Keyboard delivery and /net transmit are'',
     ''  coalesced in balanced and saver modes so the kernel processes fewer wakeups and larger batches.'']"

definition page_sim :: "char list list" where
  "page_sim = [''NAME'', ''  sim - simulate bursty /net transmit traffic and show flush metrics'', '''', ''USAGE'',
     ''  sim'', ''  sim 32'', ''  sim 100'', '''', ''DESCRIPTION'',
     ''  Enqueues a burst of small writes to '/net/tx' using the current power mode, lets the kernel flush'',
     ''  them naturally, and then prints the updated power and network counters.'']"

definition page_gui :: "char list list" where
  "page_gui = [''NAME'', ''  gui on, gui off - toggle the VGA dashboard shell frame'', '''', ''USAGE'', ''  gui on'',
     ''  gui off'', '''', ''DESCRIPTION'',
     ''  'gui on' enables the framed dashboard with live counters. The shell screen now supports scrollback.'',
     ''  Use PageUp and PageDown to scroll, and Home or End to jump to the oldest or newest visible output.'']"

definition page_trace :: "char list list" where
  "page_trace = [''NAME'', ''  trace - control execution trace recording and inspection'', '''', ''USAGE'', ''  trace start'',
     ''  trace stop'', ''  trace list'', ''  trace stats'', ''  traceview <id>'', '''', ''DESCRIPTION'',
     ''  Starts or stops recording trace events, lists saved sessions, prints trace counters, or shows a'',
     ''  short decoded preview of one recorded session.'']"

definition page_demo :: "char list list" where
  "page_demo = [''NAME'', ''  demo - record or replay built-in workloads'', '''', ''USAGE'', ''  demo record attack'',
     ''  demo record sysload'', ''  demo replay <session-id>'', '''', ''DESCRIPTION'',
     ''  Runs built-in workload profiles to generate repeatable kernel activity and persistent trace sessions.'']"

definition page_proc :: "char list list" where
  "page_proc = [''NAME'', ''  proc, /proc/tasks, /proc/meminfo, /proc/aspace - live kernel process views'', '''', ''USAGE'',
     ''  proc'', ''  cat /proc/tasks'', ''  cat /proc/meminfo'', ''  cat /proc/aspace'', '''', ''DESCRIPTION'',
     ''  Shows task state, memory allocator state, and address-space metadata including CR3 roots and user stack tops.'']"

definition page_posix :: "char list list" where
  "page_posix = [''NAME'', ''  posix status - report the current Unix-like surface area'', '''', ''USAGE'',
     ''  posix status'', '''', ''DESCRIPTION'',
     ''  Summarizes which parts of a POSIX-like kernel are already present and which parts remain incomplete.'']"

definition page_perf :: "char list list" where
  "page_perf = [''NAME'', ''  perf - print a compact kernel performance matrix'', '''', ''USAGE'', ''  perf'', '''',
     ''DESCRIPTION'',
     ''  Shows timer, task, trace, memory, filesystem, and network counters in one line-oriented report.'']"

definition pages :: "(char list \<times> char list list) list" where
  "pages = [(''help'', page_help),
     (''man'', page_man),
     (''commands'', page_commands),
     (''ls'', page_ls),
     (''cat'', page_cat),
     (''write'', page_write),
     (''open'', page_open),
     (''readfd'', page_readfd),
     (''writefd'', page_writefd),
     (''close'', page_close),
     (''fork'', page_fork),
     (''execve'', page_execve),
     (''waitpid'', page_waitpid),
     (''ping'', page_ping),
     (''ps'', page_ps),
     (''netstat'', page_netstat),
     (''mouse'', page_mouse),
     (''power'', page_power),
     (''sim'', page_sim),
     (''gui'', page_gui),
     (''trace'', page_trace),
     (''demo'', page_demo),
     (''proc'', page_proc),
     (''posix'', page_posix),
     (''perf'', page_perf)]"

text \<open>The page a topic leads to after the aliases.\<close>

definition manual_alias :: "char list \<Rightarrow> char list" where
  "manual_alias topic =
     (if strcmp topic ''run'' = 0 then ''execve''
      else if strcmp topic ''mouse status'' = 0 then ''mouse''
      else if strcmp topic ''power status'' = 0 \<or> strcmp topic ''power perf'' = 0 \<or>
        strcmp topic ''power balanced'' = 0 \<or> strcmp topic ''power saver'' = 0 then ''power''
      else if strcmp topic ''trace start'' = 0 \<or> strcmp topic ''trace stop'' = 0 \<or>
        strcmp topic ''trace list'' = 0 \<or> strcmp topic ''trace stats'' = 0 then ''trace''
      else if strcmp topic ''demo record'' = 0 \<or> strcmp topic ''demo replay'' = 0 then ''demo''
      else topic)"

text \<open>\<open>manual_print\<close>: the text handed to \<open>emit\<close>, or \<open>None\<close> for the return value -1.\<close>

definition manual_print :: "char list \<Rightarrow> char list option" where
  "manual_print topic =
     map_option (\<lambda>p. text_lines (snd p)) (find (\<lambda>p. strcmp (manual_alias topic) (fst p) = 0) pages)"

section \<open>Correctness\<close>

lemmas manual_simps = manual_print_def manual_alias_def pages_def strcmp_eq_0_iff_c_str c_str_def

text \<open>The manual covers the topics it names.  Every topic the usage message of \<open>man\<close> lists has a page,
  and the page printed for it is the one under that name or, for the commands \<open>run\<close>, \<open>power ...\<close>,
  \<open>trace ...\<close>, \<open>demo ...\<close> and \<open>mouse status\<close>, the page of their group; of the commands \<open>help\<close> prints
  exactly twenty have no page, although it advertises \<open>man <command>\<close> for each of them.\<close>

theorem manual_coverage:
  "list_all (\<lambda>(t, b). manual_print t = Some (text_lines b)) pages \<and>
   manual_print ''run'' = Some (text_lines page_execve) \<and> manual_print ''power saver'' = Some (text_lines page_power) \<and>
   manual_print ''trace stats'' = Some (text_lines page_trace) \<and> manual_print ''demo replay'' = Some (text_lines page_demo) \<and>
   manual_print ''mouse status'' = Some (text_lines page_mouse) \<and>
   filter (\<lambda>c. manual_print c = None) all_commands =
     [''net send'', ''net inject'', ''net loopback'', ''clear'', ''gui on'', ''gui off'', ''uname'', ''uptime'', ''fsinfo'',
      ''state'', ''smpinfo'', ''explain'', ''posix status'', ''traceview'', ''replay session'', ''meminfo'', ''irqstat'',
      ''attack_sim'', ''sysload'', ''lifecycle_test'']"
proof -
  have a: "list_all (\<lambda>(t, b). manual_print t = Some (text_lines b)) pages"
    by (simp add: manual_simps)
  have b: "manual_print ''run'' = Some (text_lines page_execve)" "manual_print ''power saver'' = Some (text_lines page_power)"
    "manual_print ''trace stats'' = Some (text_lines page_trace)" "manual_print ''demo replay'' = Some (text_lines page_demo)"
    "manual_print ''mouse status'' = Some (text_lines page_mouse)"
    by (simp_all add: manual_simps)
  show ?thesis unfolding all_commands_def
    by (intro conjI a b) (simp add: manual_simps)
qed

end
