(* ===== verification/Reports.thy ===== *)
theory Reports
  imports Interrupts
begin

text \<open>
  The reports the kernel prints on the console and the serial line: the listings of
  \<open>kernel/fs.c\<close> and \<open>kernel/trace.c\<close>, the result of a replay, and the counters shown by the shell
  (\<open>kernel/shell.c\<close>).  A report changes the two output streams and, where it reads the disk, the
  state of the disk driver.
\<close>

section \<open>Definitions\<close>

subsection \<open>Files and traces\<close>

definition fs_list_root :: "'d kernel \<Rightarrow> 'd kernel" where
  "fs_list_root k = fold (\<lambda>s. say (ln s) []) [''/'', ''  trace/'', ''  bin/'', ''  net/'', ''  proc/''] k"

definition fs_list_traces :: "'d kernel \<Rightarrow> 'd kernel" where
  "fs_list_traces k =
     (if \<not> fs_online (k_fs k) then say (ln ''/trace unavailable'') [] k
      else fold (\<lambda>i. say (ln ''  session-%u.bin (%u bytes, %lu events)'')
              [Num (ucast (i_session_id i)), Num (ucast (i_size_bytes i)), Num (i_event_count i)])
            (filter is_trace (inodes (k_fs k))) (say (ln ''/trace'') [] k))"

definition event_args :: "trace_event \<Rightarrow> fmt_arg list" where
  "event_args e = [Num (ev_data0 e), Num (ev_data1 e)]"

text \<open>The events are read into an array of 128; \<open>Overrun\<close> when the session is longer.\<close>

definition fs_traceview :: "'d blockdev \<Rightarrow> u32 \<Rightarrow> 'd kernel \<Rightarrow> 'd kernel outcome" where
  "fs_traceview B sid k =
     (case fs_traceview_read B sid (k_fs k) of
        (Read_Overrun, fs) \<Rightarrow> Overrun
      | (Read_Fail buf, fs) \<Rightarrow> Done (say (ln ''traceview: session %u not found'') [Num (ucast sid)] (k\<lparr>k_fs := fs\<rparr>))
      | (Read_Ok bytes buf, fs) \<Rightarrow>
          (let k1 = k\<lparr>k_fs := fs\<rparr>; count = bytes div word_of_nat EVENT_SIZE;
               k2 = (case fs_get_trace_session_info sid fs of
                   Some info \<Rightarrow> say (ln ''traceview session %u count=%u start=%lu dur=%lu hash=%lx'')
                     [Num (ucast sid), Num (ucast count), Num (si_start_ticks info), Num (si_duration_ticks info), Num (si_sequence_hash info)] k1
                 | None \<Rightarrow> say (ln ''traceview session %u count=%u'') [Num (ucast sid), Num (ucast count)] k1);
               events = get_events (unat count) buf
           in Done (fold (\<lambda>i. let e = events ! i in say (ln ''  [%u] eid=%lu pid=%u type=%u ts=%lu d0=%lx d1=%lx'')
                ([Num (word_of_nat i), Num (ev_id e), Num (ucast (ev_pid e)), Num (ucast (ev_type e)), Num (ev_timestamp e)] @ event_args e))
              [0..<min 16 (unat count)] k2)))"

definition trace_list_sessions :: "'d kernel \<Rightarrow> 'd kernel" where
  "trace_list_sessions k =
     fold (\<lambda>s. say (ln ''  id=%u profile=%u events=%u bytes=%u start=%lu dur=%lu hash=%lx'')
         [Num (ucast (si_session_id s)), Num (ucast (si_profile_id s)), Num (ucast (si_event_count s)), Num (ucast (si_size_bytes s)),
          Num (si_start_ticks s), Num (si_duration_ticks s), Num (si_sequence_hash s)])
       (take (min (unat (st_sessions (tr_stats (k_trace k)))) TRACE_SESSION_CAP) (tr_sessions (k_trace k)))
       (say (ln ''trace sessions:'') [] k)"

definition trace_replay_session_report :: "'d blockdev \<Rightarrow> u8 list \<Rightarrow> u32 \<Rightarrow> 'd kernel \<Rightarrow> 'd kernel outcome" where
  "trace_replay_session_report B buf sid k =
     (case trace_replay_session B sid buf (k_fs k) of
        None \<Rightarrow> Overrun
      | Some (None, fs) \<Rightarrow> Done (say (ln ''replay: session %u not found'') [Num (ucast sid)] (k\<lparr>k_fs := fs\<rparr>))
      | Some (Some (events, replay_hash, stored), fs) \<Rightarrow>
          (let k1 = say (ln ''replay session %u events=%u hash=%lx stored=%lx match=%u%%'')
                 [Num (ucast sid), Num (word_of_nat (length events)), Num replay_hash, Num stored, Num (if replay_hash = stored then 100 else 0)]
                 (k\<lparr>k_fs := fs\<rparr>)
           in Done (fold (\<lambda>e. say (ln ''  eid=%lu type=%u pid=%u t=%lu d0=%lx d1=%lx'')
                ([Num (ev_id e), Num (ucast (ev_type e)), Num (ucast (ev_pid e)), Num (ev_timestamp e)] @ event_args e)) (take 8 events) k1)))"

definition trace_replay_end_report :: "'d kernel \<Rightarrow> 'd kernel" where
  "trace_replay_end_report k =
     (let rp0 = tr_replay (k_trace k) in
      if \<not> rp_active rp0 then k
      else
        (let tr = trace_replay_end (k_trace k); rp = tr_replay tr; exp = rp_expected rp; got = rp_actual rp;
             k1 = k\<lparr>k_trace := tr\<rparr> in
         if rp_failed rp
         then say (ln ''replay diverged session=%u idx=%u exp[type=%u pid=%u d0=%lx d1=%lx] got[type=%u pid=%u d0=%lx d1=%lx]'')
                ([Num (ucast (rp_session_id rp)), Num (ucast (rp_event_index rp)), Num (ucast (ev_type exp)), Num (ucast (ev_pid exp))] @ event_args exp @
                 [Num (ucast (ev_type got)), Num (ucast (ev_pid got))] @ event_args got) k1
         else say (ln ''replay executed session=%u matched_events=%u/%u profile=%u'')
                [Num (ucast (rp_session_id rp)), Num (ucast (rp_event_index rp)), Num (ucast (rp_event_count rp)),
                 Num (ucast (si_profile_id (rp_info rp)))] k1))"

subsection \<open>Counters\<close>

definition shell_netstat_run :: "'d kernel \<Rightarrow> 'd kernel" where
  "shell_netstat_run k = (let st = netfs_get_stats k in
     say (ln ''netstat tx=%lu/%luB rx=%lu/%luB drop=%lu q=%u loopback=%u last=%lu'')
       [Num (ns_tx_packets st), Num (ns_tx_bytes st), Num (ns_rx_packets st), Num (ns_rx_bytes st), Num (ns_dropped_packets st),
        Num (ucast (ns_queue_depth st)), Num (ucast (ns_loopback_enabled st)), Num (ns_last_packet_id st)] k)"

definition wakeups_saved :: "power_stats \<Rightarrow> u64" where
  "wakeups_saved st =
     (let events = pw_keyboard_events st + pw_net_tx_enqueued st in
      if events \<noteq> 0 \<and> events \<ge> pw_wakeups st then (events - pw_wakeups st) * 100 div events else 0)"

definition shell_power_status :: "'d kernel \<Rightarrow> 'd kernel" where
  "shell_power_status k =
     (let st = power_get_stats k
      in fold (\<lambda>(fmt, a). say (ln fmt) [a])
        [(''power mode: %s'', Str (power_mode_name k)), (''cpu wakeups: %lu'', Num (pw_wakeups st)),
         (''keyboard events: %lu'', Num (pw_keyboard_events st)), (''keyboard coalesced: %lu'', Num (pw_keyboard_coalesced st)),
         (''keyboard flushes: %lu'', Num (pw_keyboard_flushes st)), (''net writes enqueued: %lu'', Num (pw_net_tx_enqueued st)),
         (''net flushes: %lu'', Num (pw_net_flushes st)), (''net writes flushed: %lu'', Num (pw_net_tx_flushed st)),
         (''pending keys: %u'', Num (ucast (pw_pending_keys st))), (''pending tx packets: %u'', Num (ucast (pw_pending_tx_packets st))),
         (''pending tx bytes: %u'', Num (ucast (pw_pending_tx_bytes st))), (''mode switches: %lu'', Num (pw_mode_switches st)),
         (''wakeups saved: %lu%%'', Num (wakeups_saved st))] k)"

definition report_fsinfo :: "'d kernel \<Rightarrow> 'd kernel" where
  "report_fsinfo k = (let st = fs_get_stats (k_fs k) in
     say (ln ''fs online=%u version=%u total_sectors=%u data_lba=%u next_free_lba=%u trace_files=%u'')
       [Num (ucast (fss_online st)), Num (ucast (fss_version st)), Num (ucast (fss_total_sectors st)), Num (ucast (fss_data_start_lba st)),
        Num (ucast (fss_next_free_lba st)), Num (ucast (fss_trace_files st))] k)"

definition report_state :: "'d kernel \<Rightarrow> 'd kernel" where
  "report_state k =
     say (ln ''state: ticks=%lu current_pid=%u replay_active=%u replay_failed=%u workloads=%u'')
       [Num (pit_ticks k), Num (ucast (sched_current_pid k)), Num (c_bool (rp_active (tr_replay (k_trace k)))),
        Num (c_bool (rp_failed (tr_replay (k_trace k)))), Num (c_bool (workload_has_active k))] k"

definition report_perf :: "'d kernel \<Rightarrow> 'd kernel" where
  "report_perf k =
     (let ts = sched_snapshot 8 k; runnable = length (filter (\<lambda>t. t_state t = Task_Ready \<or> t_state t = Task_Running) ts);
          st = tr_stats (k_trace k); mem = vm_mem (k_vm k); fs = fs_get_stats (k_fs k); net = netfs_get_stats k;
          k1 = say (ln ''perf x86 ticks=%lu pit_hz=%u tasks=%u runnable=%u trace_events=%lu dropped=%lu mem_used=%lu mem_free=%lu'')
            [Num (pit_ticks k), Num (ucast (k_hz k)), Num (word_of_nat (length ts)), Num (word_of_nat runnable), Num (st_events st),
             Num (st_dropped st), Num (used_bytes mem), Num (memory_free_bytes mem)] k
      in say (ln ''perf fs online=%u traces=%u net tx=%lu/%luB rx=%lu/%luB q=%u drop=%lu loopback=%u'')
        [Num (ucast (fss_online fs)), Num (ucast (fss_trace_files fs)), Num (ns_tx_packets net), Num (ns_tx_bytes net), Num (ns_rx_packets net),
         Num (ns_rx_bytes net), Num (ucast (ns_queue_depth net)), Num (ns_dropped_packets net), Num (ucast (ns_loopback_enabled net))] k1)"

definition report_trace_stats :: "'d kernel \<Rightarrow> 'd kernel" where
  "report_trace_stats k =
     (let st = tr_stats (k_trace k);
          eps = (if st_last_duration_ticks st \<noteq> 0 then st_events st * 100 div st_last_duration_ticks st else 0);
          util = st_last_buffer_peak st * 100 div 4096
      in say (ln ''trace events=%lu dropped=%lu bytes=%lu sessions=%lu last_dur=%lu hash=%lx eps_x100=%lu buf_util=%lu%%'')
        [Num (st_events st), Num (st_dropped st), Num (st_bytes st), Num (st_sessions st), Num (st_last_duration_ticks st),
         Num (st_last_hash st), Num eps, Num util] k)"

definition report_meminfo :: "'d kernel \<Rightarrow> 'd kernel" where
  "report_meminfo k = (let m = vm_mem (k_vm k) in
     say (ln ''mem total=%lu used=%lu free=%lu page_faults=%lu regions=%lu alloc=[%lx..%lx)'')
       [Num (total_bytes m), Num (used_bytes m), Num (memory_free_bytes m), Num (page_faults m), Num (region_count m),
        Num (alloc_base m), Num (alloc_limit m)] k)"

definition report_irqstat :: "idt_state \<Rightarrow> 'd kernel \<Rightarrow> 'd kernel" where
  "report_irqstat idt k =
     fold (\<lambda>v. say (ln ''irq vec=%u count=%lu'') [Num (word_of_nat v), Num (idt_irq_count (word_of_nat v) idt)]) [32..<48] k"

definition report_mouse :: "mouse \<Rightarrow> 'd kernel \<Rightarrow> 'd kernel" where
  "report_mouse m k = (let ms = mouse_get_state m in
     say (ln ''mouse present=%u x=%ld y=%ld buttons=%u packets=%lu'')
       [Num (ucast (ms_present ms)), Num (scast (ms_x ms)), Num (scast (ms_y ms)), Num (ucast (ms_buttons ms)), Num (ms_packets ms)] k)"

definition report_smpinfo :: "smp_state \<Rightarrow> apic_info \<Rightarrow> 'd kernel \<Rightarrow> 'd kernel" where
  "report_smpinfo s a k =
     fold (\<lambda>c. say (ln ''cpu slot=%u apic_id=%u online=%u bsp=%u'')
         [Num (ucast (cpu_slot c)), Num (ucast (cpu_apic_id c)), Num (ucast (cpu_online c)), Num (ucast (cpu_bsp c))])
       (smp_snapshot_cpus (word_of_nat SMP_MAX_CPUS) s)
       (say (ln ''smp enabled=%u discovered=%u online=%u current_cpu=%u bsp_apic=%u apic_present=%u x2apic=%u apic_base=%lx'')
         [Num (ucast (smp_enabled s)), Num (ucast (discovered_cpus s)), Num (ucast (online_cpus s)), Num 0, Num (ucast (bsp_apic_id s)),
          Num (c_bool (apic_present a)), Num (c_bool (apic_x2apic a)), Num (apic_mmio_base a)] k)"

section \<open>Lemmas\<close>

text \<open>A report keeps everything but the console and the serial line.\<close>

definition prints_only :: "'d kernel \<Rightarrow> 'd kernel \<Rightarrow> bool" where
  "prints_only k k' \<longleftrightarrow> (\<exists>c s. k' = k\<lparr>k_con := c, k_ser := k_ser k @ s\<rparr>)"

named_theorems prints_intros

lemma prints_refl [prints_intros]: "prints_only k k"
  unfolding prints_only_def by (rule exI [of _ "k_con k"], rule exI [of _ "[]"]) simp

lemma prints_trans: "prints_only a b \<Longrightarrow> prints_only b c \<Longrightarrow> prints_only a c"
  unfolding prints_only_def by (elim exE, simp) (metis append_assoc kernel.surjective kernel.update_convs(1) kernel.update_convs(2))

lemma prints_out: "prints_only k (k\<lparr>k_con := c, k_ser := k_ser k @ s\<rparr>)"
  unfolding prints_only_def by blast

lemma prints_say [prints_intros]: "prints_only k (say fmt args k)"
  by (auto simp: say_def both_printf_def serial_printf_def fold_serial_putc prints_refl prints_out split: option.split)

lemma prints_fold: "(\<And>x k. prints_only k (f x k)) \<Longrightarrow> prints_only k (fold f xs k)"
  by (induction xs arbitrary: k) (auto intro: prints_refl prints_trans)

end
