(* ===== verification/Shell.thy ===== *)
theory Shell
  imports Reports Manual
begin

text \<open>
  The shell of \<open>kernel/shell.c\<close> and the system call wrappers of \<open>kernel/syscall.c\<close> it goes through:
  splitting the arguments, every command, the dispatch over the command line and the line editor.
  The shell is task 0; where a command yields, the other tasks run until the shell is current
  again.  \<open>None\<close> is an access outside an array or a run that does not come back within the fuel.
\<close>

section \<open>State\<close>

text \<open>What the shell can reach: the tasks and the system, the interrupt counters, the mouse, the devices
  behind the ports and the result of processor discovery.\<close>

record ('d, 'h) world =
  w_m :: "'d machine"
  w_idt :: idt_state
  w_mouse :: mouse
  w_hw :: 'h
  w_smp :: smp_state
  w_apic :: apic_info

text \<open>Its surroundings: ring 3, the ports, the disk, the contents of local arrays before they are written,
  and the fuel of loops that depend on other tasks.\<close>

record ('d, 'h) env =
  e_ring3 :: "'d ring3"
  e_ports :: "'h ports"
  e_dev :: "'d blockdev"
  e_loc :: vfs_locals
  e_replay_buf :: "u8 list"
  e_fuel :: nat

abbreviation wsys :: "('d, 'h) world \<Rightarrow> 'd system" where
  "wsys w \<equiv> m_sys (w_m w)"

abbreviation wk :: "('d, 'h) world \<Rightarrow> 'd kernel" where
  "wk w \<equiv> sys_k (wsys w)"

definition set_m :: "('d, 'h) world \<Rightarrow> 'd machine \<Rightarrow> ('d, 'h) world" where
  "set_m w m = w\<lparr>w_m := m\<rparr>"

definition set_sys :: "('d, 'h) world \<Rightarrow> 'd system \<Rightarrow> ('d, 'h) world" where
  "set_sys w s = set_m w ((w_m w)\<lparr>m_sys := s\<rparr>)"

definition set_k :: "('d, 'h) world \<Rightarrow> 'd kernel \<Rightarrow> ('d, 'h) world" where
  "set_k w k = set_sys w ((wsys w)\<lparr>sys_k := k\<rparr>)"

definition on_k :: "('d kernel \<Rightarrow> 'd kernel) \<Rightarrow> ('d, 'h) world \<Rightarrow> ('d, 'h) world" where
  "on_k f w = set_k w (f (wk w))"

section \<open>System calls\<close>

definition syscall_init :: "'d system \<Rightarrow> 'd system" where
  "syscall_init s = builtin_exec_init s"

definition sys_open :: "char list \<Rightarrow> u32 \<Rightarrow> 'd system \<Rightarrow> nat option \<times> 'd system" where
  "sys_open path flags s = vfs_open (Some path) flags s"

definition sys_read :: "'d blockdev \<Rightarrow> vfs_locals \<Rightarrow> int \<Rightarrow> u64 \<Rightarrow> 'd system \<Rightarrow> u8 list outcome \<times> 'd system" where
  "sys_read B loc fd bytes s = vfs_read B loc fd bytes s"

definition sys_write :: "int \<Rightarrow> char list \<Rightarrow> u64 \<Rightarrow> 'd system \<Rightarrow> nat option \<times> 'd system" where
  "sys_write fd buf bytes s = vfs_write fd buf bytes s"

definition sys_close :: "int \<Rightarrow> 'd system \<Rightarrow> bool \<times> 'd system" where
  "sys_close fd s = vfs_close fd s"

definition sys_execve :: "char list \<Rightarrow> char list \<Rightarrow> 'd system \<Rightarrow> u32 option \<times> 'd system" where
  "sys_execve path arg s = builtin_exec_spawn path (Some arg) s"

section \<open>Arguments and output\<close>

text \<open>The digits at the start of the string; unlike the parser of \<open>builtin_exec.c\<close> it accepts anything behind them.\<close>

definition shell_parse_u32 :: "char list \<Rightarrow> u32" where
  "shell_parse_u32 s = session_digits 0 s"

definition parse_profile :: "char list \<Rightarrow> u32" where
  "parse_profile s =
     (if strcmp s ''attack'' = 0 then WORKLOAD_PROFILE_ATTACK
      else if strcmp s ''sysload'' = 0 then WORKLOAD_PROFILE_SYSLOAD
      else if strcmp s ''lifecycle'' = 0 then WORKLOAD_PROFILE_LIFECYCLE
      else WORKLOAD_PROFILE_NONE)"

definition skip_spaces :: "char list \<Rightarrow> char list" where
  "skip_spaces s = dropWhile (\<lambda>c. c = CHR '' '' \<or> c = CHR 0x09) s"

text \<open>The loop that copies a word into an array with room for \<open>n\<close> characters and the terminator.\<close>

fun take_word :: "nat \<Rightarrow> char list \<Rightarrow> char list \<times> char list" where
  "take_word 0 s = ([], s)"
| "take_word (Suc n) s =
     (if cdref s = NUL \<or> isspace (cdref s) then ([], s)
      else (let (w, r) = take_word n (tl s) in (cdref s # w, r)))"

text \<open>\<open>while (args[i] && !isspace(args[i]) && i + 1 < sizeof(path)) ...; args = skip_spaces(args + i);\<close>\<close>

definition split_arg :: "nat \<Rightarrow> char list \<Rightarrow> char list \<times> char list" where
  "split_arg cap s = (let (w, r) = take_word (cap - 1) s in (w, skip_spaces r))"

definition shell_putc :: "char \<Rightarrow> 'd kernel \<Rightarrow> 'd kernel" where
  "shell_putc c k = both_putc c k"

definition shell_write :: "char list \<Rightarrow> 'd kernel \<Rightarrow> 'd kernel" where
  "shell_write s k = both_write s k"

definition shell_write_n :: "char list \<Rightarrow> 'd kernel \<Rightarrow> 'd kernel" where
  "shell_write_n s k = fold shell_putc s k"

definition fd_arg :: "nat option \<Rightarrow> fmt_arg" where
  "fd_arg r = Num (case r of None \<Rightarrow> -1 | Some i \<Rightarrow> word_of_nat i)"

definition rc_arg :: "bool \<Rightarrow> fmt_arg" where
  "rc_arg ok = Num (if ok then 0 else -1)"

text \<open>\<open>n\<close> calls of \<open>sched_yield\<close> in a row.\<close>

fun shell_yields :: "'d ring3 \<Rightarrow> nat \<Rightarrow> nat \<Rightarrow> 'd machine \<Rightarrow> 'd machine option" where
  "shell_yields R fuel 0 m = Some m"
| "shell_yields R fuel (Suc n) m = (case shell_yield R fuel m of None \<Rightarrow> None | Some m' \<Rightarrow> shell_yields R fuel n m')"

section \<open>Commands\<close>

subsection \<open>Files\<close>

text \<open>The loop of \<open>shell_cat_path\<close>, with a bound on its rounds.\<close>

fun cat_loop :: "'d blockdev \<Rightarrow> vfs_locals \<Rightarrow> char list \<Rightarrow> int \<Rightarrow> nat \<Rightarrow> 'd system \<Rightarrow> 'd system option" where
  "cat_loop B loc path fd 0 s = None"
| "cat_loop B loc path fd (Suc n) s =
     (case sys_read B loc fd 256 s of
        (Overrun, s1) \<Rightarrow> None
      | (Fail, s1) \<Rightarrow> Some (upd_k (say (ln ''cat: read failed %s'') [Str path]) s1)
      | (Done buf, s1) \<Rightarrow>
          if buf = [] then Some s1
          else cat_loop B loc path fd n (upd_k (shell_write_n (map char_of_byte buf)) s1))"

definition shell_cat_path :: "'d blockdev \<Rightarrow> vfs_locals \<Rightarrow> nat \<Rightarrow> char list \<Rightarrow> 'd system \<Rightarrow> 'd system option" where
  "shell_cat_path B loc n path s =
     (case sys_open path VFS_O_RDONLY s of
        (None, s1) \<Rightarrow> Some (upd_k (say (ln ''cat: cannot open %s'') [Str path]) s1)
      | (Some fd, s1) \<Rightarrow> map_option (\<lambda>s2. snd (sys_close (int fd) s2)) (cat_loop B loc path (int fd) n s1))"

definition cmd_cat :: "('d, 'h) env \<Rightarrow> char list \<Rightarrow> ('d, 'h) world \<Rightarrow> ('d, 'h) world option" where
  "cmd_cat E path w = map_option (set_sys w) (shell_cat_path (e_dev E) (e_loc E) (e_fuel E) path (wsys w))"

definition cmd_ls_all :: "('d, 'h) world \<Rightarrow> ('d, 'h) world option" where
  "cmd_ls_all w = map_option (set_k w) (netfs_list (Some ''/net'') (fs_list_traces (fs_list_root (wk w))))"

definition cmd_ls :: "('d, 'h) env \<Rightarrow> char list \<Rightarrow> ('d, 'h) world \<Rightarrow> ('d, 'h) world option" where
  "cmd_ls E path w =
     (if strcmp path ''/'' = 0 then Some (on_k fs_list_root w)
      else if strncmp path ''/trace'' 6 = 0
      then (if strcmp path ''/trace'' = 0 \<or> strcmp path ''/trace/'' = 0 then Some (on_k fs_list_traces w)
            else cmd_cat E ''/trace/index'' w)
      else if strncmp path ''/bin'' 4 = 0 then cmd_cat E ''/bin/index'' w
      else if strncmp path ''/net'' 4 = 0 then map_option (set_k w) (netfs_list (Some path) (wk w))
      else if strncmp path ''/proc'' 5 = 0
      then Some (on_k (shell_write (ln ''/proc'' @ ln ''  tasks'' @ ln ''  meminfo'' @ ln ''  aspace'')) w)
      else Some (on_k (say (ln ''ls: unsupported path %s'') [Str path]) w))"

definition cmd_write :: "char list \<Rightarrow> ('d, 'h) world \<Rightarrow> ('d, 'h) world" where
  "cmd_write args w =
     (let (path, data) = split_arg 48 args in
      if path = [] \<or> cdref data = NUL then on_k (shell_write (ln ''write usage: write <path> <data>'')) w
      else
        (let failed = upd_k (say (ln ''write: failed for %s'') [Str path]) in
         case sys_open path VFS_O_WRONLY (wsys w) of
           (None, s1) \<Rightarrow> set_sys w (failed s1)
         | (Some fd, s1) \<Rightarrow>
             (let (r, s2) = sys_write (int fd) data (word_of_nat (strlen data)) s1
              in set_sys w (snd (sys_close (int fd) (if r = None then failed s2 else s2))))))"

definition cmd_open :: "char list \<Rightarrow> ('d, 'h) world \<Rightarrow> ('d, 'h) world" where
  "cmd_open args w =
     (let (path, rest) = split_arg 48 args; (mode, _) = take_word 7 rest;
          flags = (if strcmp mode ''w'' = 0 then VFS_O_WRONLY else if strcmp mode ''rw'' = 0 then VFS_O_RDWR else VFS_O_RDONLY);
          (fd, s1) = sys_open path flags (wsys w)
      in set_sys w (upd_k (say (ln ''open %s => fd=%d'') [Str path, fd_arg fd]) s1))"

definition cmd_readfd :: "('d, 'h) env \<Rightarrow> char list \<Rightarrow> ('d, 'h) world \<Rightarrow> ('d, 'h) world option" where
  "cmd_readfd E args w =
     (let fd = shell_parse_u32 args in
      case sys_read (e_dev E) (e_loc E) (sint fd) 256 (wsys w) of
        (Overrun, s1) \<Rightarrow> None
      | (Fail, s1) \<Rightarrow> Some (set_sys w (upd_k (say (ln ''readfd failed fd=%d'') [Num (ucast fd)]) s1))
      | (Done buf, s1) \<Rightarrow>
          Some (set_sys w (upd_k (if buf = [] then say (ln ''readfd fd=%d eof'') [Num (ucast fd)]
                                  else shell_write_n (map char_of_byte buf)) s1)))"

definition cmd_writefd :: "char list \<Rightarrow> ('d, 'h) world \<Rightarrow> ('d, 'h) world" where
  "cmd_writefd args w =
     (let fd = shell_parse_u32 args;
          data = skip_spaces (dropWhile (\<lambda>c. c \<noteq> NUL \<and> \<not> isspace c) args);
          (r, s1) = sys_write (sint fd) data (word_of_nat (strlen data)) (wsys w)
      in set_sys w (if r = None then upd_k (say (ln ''writefd failed fd=%d'') [Num (ucast fd)]) s1 else s1))"

definition cmd_close :: "char list \<Rightarrow> ('d, 'h) world \<Rightarrow> ('d, 'h) world" where
  "cmd_close args w =
     (let fd = shell_parse_u32 args; (ok, s1) = sys_close (sint fd) (wsys w)
      in set_sys w (upd_k (say (ln ''close fd=%d rc=%d'') [Num (ucast fd), rc_arg ok]) s1))"

subsection \<open>Tasks and programs\<close>

definition cmd_fork :: "('d, 'h) world \<Rightarrow> ('d, 'h) world" where
  "cmd_fork w = (let (pid, k) = sys_fork (wk w) in set_k w (say (ln ''fork => child pid=%d'') [pid_arg pid] k))"

definition cmd_execve :: "char list \<Rightarrow> ('d, 'h) world \<Rightarrow> ('d, 'h) world" where
  "cmd_execve args w =
     (let (path, rest) = split_arg 48 args in
      if strcmp path ''/bin/ring3demo'' = 0
      then on_k (say (ln ''execve %s unsupported: use run /bin/ring3demo'') [Str path]) w
      else (let (pid, s1) = sys_execve path rest (wsys w)
            in set_sys w (upd_k (say (ln ''execve %s => pid=%d'') [Str path, pid_arg pid]) s1)))"

definition run_sync :: "('d, 'h) env \<Rightarrow> char list \<Rightarrow> fmt_arg list \<Rightarrow> char list \<Rightarrow> ('d, 'h) world \<Rightarrow> ('d, 'h) world option" where
  "run_sync E fmt args path w =
     (case builtin_exec_run_sync (e_dev E) (r3_enter (e_ring3 E)) (loc_image (e_loc E)) (Some path) (wsys w) of
        (Overrun, s1) \<Rightarrow> None
      | (r, s1) \<Rightarrow> Some (set_sys w (upd_k (say fmt (args @ [rc_arg (r = Done ())])) s1)))"

text \<open>\<open>payload\<close> of \<open>shell_ping_run\<close>.\<close>

definition dec_digit :: "nat \<Rightarrow> char" where
  "dec_digit d = char_of (48 + d mod 10)"

definition shell_ping_payload :: "char list \<Rightarrow> nat \<Rightarrow> char list" where
  "shell_ping_payload target seq =
     (let tlen0 = strlen target; tlen = (if 9 + tlen0 + 32 \<ge> 96 then 96 - 9 - 32 else tlen0)
      in ''icmp dst='' @ take tlen target @ '' seq='' @ (if seq \<ge> 10 then [dec_digit (seq div 10)] else []) @ [dec_digit seq])"

text \<open>The rounds of the loop over \<open>seq\<close>; the counters are \<open>sent\<close> and \<open>received\<close>.\<close>

fun shell_ping_loop :: "'d ring3 \<Rightarrow> nat \<Rightarrow> char list \<Rightarrow> nat list \<Rightarrow> u64 \<times> u64 \<Rightarrow> 'd machine \<Rightarrow> ((u64 \<times> u64) \<times> 'd machine) option" where
  "shell_ping_loop R fuel target [] counts m = Some (counts, m)"
| "shell_ping_loop R fuel target (seq # seqs) (sent, received) m =
     (let before = netfs_get_stats (mk m);
          (ok, k1) = netfs_write_path (Some ''/net/tx'') (Some (shell_ping_payload target seq)) (mk m);
          k2 = (if ok then netfs_flush_tx k1 else k1);
          sent' = (if ok then sent + 1 else sent)
      in case shell_yields R fuel 5 (upd_sys (\<lambda>s. s\<lparr>sys_k := k2\<rparr>) m) of
           None \<Rightarrow> None
         | Some m1 \<Rightarrow>
             (let after = netfs_get_stats (mk m1); sq = Num (word_of_nat seq) in
              case (if ns_rx_packets after > ns_rx_packets before then netfs_peek_last_rx (mk m1) else None) of
                Some pkt \<Rightarrow> shell_ping_loop R fuel target seqs (sent', received + 1)
                  (upd_sys (upd_k (say (ln ''ping %s seq=%u reply id=%lu len=%u'')
                     [Str target, sq, Num (np_packet_id pkt), Num (ucast (np_len pkt))])) m1)
              | None \<Rightarrow> shell_ping_loop R fuel target seqs (sent', received)
                  (upd_sys (upd_k (say (ln ''ping %s seq=%u timeout'') [Str target, sq])) m1)))"

definition shell_ping_run :: "('d, 'h) env \<Rightarrow> char list \<Rightarrow> ('d, 'h) world \<Rightarrow> ('d, 'h) world option" where
  "shell_ping_run E args w =
     (let start = pit_ticks (wk w); usage = Some (on_k (shell_write (ln ''ping usage: ping <target> [count]'')) w);
          (target, rest) = split_arg 32 args; parsed = shell_parse_u32 rest;
          count = (if cdref rest \<noteq> NUL \<and> 0 < parsed \<and> parsed < 32 then unat parsed else 4) in
      if cdref args = NUL \<or> target = [] then usage
      else
        (case shell_ping_loop (e_ring3 E) (e_fuel E) target [0..<count] (0, 0) (w_m w) of
           None \<Rightarrow> None
         | Some ((sent, received), m1) \<Rightarrow>
             Some (on_k (\<lambda>k. say (ln ''ping summary target=%s sent=%lu recv=%lu loss=%lu%% dur_ticks=%lu'')
               [Str target, Num sent, Num received, Num (if sent \<noteq> 0 then (sent - received) * 100 div sent else 0),
                Num (pit_ticks k - start)] k) (set_m w m1))))"

definition shell_ps_run :: "'d kernel \<Rightarrow> 'd kernel" where
  "shell_ps_run k = sched_dump k"

definition cmd_run :: "('d, 'h) env \<Rightarrow> char list \<Rightarrow> ('d, 'h) world \<Rightarrow> ('d, 'h) world option" where
  "cmd_run E args w =
     (let (path, rest) = split_arg 48 args in
      if strcmp path ''/bin/ring3demo'' = 0 then run_sync E (ln ''run %s => rc=%d'') [Str path] path w
      else if strcmp path ''/bin/ping'' = 0 then shell_ping_run E rest w
      else if strcmp path ''/bin/ps'' = 0 then Some (on_k shell_ps_run w)
      else if strcmp path ''/bin/netstat'' = 0 then Some (on_k shell_netstat_run w)
      else
        (case sys_execve path rest (wsys w) of
           (None, s1) \<Rightarrow> Some (set_sys w (upd_k (say (ln ''run %s failed'') [Str path]) s1))
         | (Some pid, s1) \<Rightarrow>
             map_option (\<lambda>(_, m). set_m w m) (sys_waitpid (e_ring3 E) (e_fuel E) pid 500 ((w_m w)\<lparr>m_sys := s1\<rparr>))))"

definition cmd_waitpid :: "('d, 'h) env \<Rightarrow> char list \<Rightarrow> ('d, 'h) world \<Rightarrow> ('d, 'h) world option" where
  "cmd_waitpid E args w =
     (let pid = shell_parse_u32 args in
      map_option (\<lambda>(ok, m). on_k (say (ln ''waitpid %u => rc=%d'') [Num (ucast pid), rc_arg ok]) (set_m w m))
        (sys_waitpid (e_ring3 E) (e_fuel E) pid 1000 (w_m w)))"

subsection \<open>Power and network\<close>

definition cmd_power :: "u32 \<Rightarrow> 'd kernel \<Rightarrow> 'd kernel" where
  "cmd_power mode k = shell_power_status (power_set_mode mode k)"

definition sim_payload :: "nat \<Rightarrow> char list" where
  "sim_payload i = ''sim-'' @ (if i \<ge> 100 then [dec_digit (i div 100)] else []) @ (if i \<ge> 10 then [dec_digit (i div 10)] else []) @ [dec_digit i]"

fun sim_loop :: "nat list \<Rightarrow> 'd kernel \<Rightarrow> 'd kernel" where
  "sim_loop [] k = k"
| "sim_loop (i # is) k =
     (case netfs_write_path (Some ''/net/tx'') (Some (sim_payload i)) k of
        (True, k1) \<Rightarrow> sim_loop is k1
      | (False, k1) \<Rightarrow> say (ln ''sim: write failed at i=%u'') [Num (word_of_nat i)] k1)"

definition sim_count :: "char list \<Rightarrow> nat" where
  "sim_count args =
     (let s = skip_spaces args; parsed = shell_parse_u32 s
      in if cdref s \<noteq> NUL \<and> 0 < parsed \<and> parsed \<le> 256 then unat parsed else 100)"

definition sim_result :: "netfs_stats \<Rightarrow> 'd kernel \<Rightarrow> 'd kernel" where
  "sim_result before k =
     (let after = netfs_get_stats k in
      fold (\<lambda>(fmt, args). say (ln fmt) args)
        [(''sim result:'', []), (''  tx packets delta: %lu'', [Num (ns_tx_packets after - ns_tx_packets before)]),
         (''  tx bytes delta: %lu'', [Num (ns_tx_bytes after - ns_tx_bytes before)]),
         (''  rx packets delta: %lu'', [Num (ns_rx_packets after - ns_rx_packets before)]),
         (''  queue depth now: %u'', [Num (ucast (ns_queue_depth after))])] k)"

definition shell_sim_run :: "('d, 'h) env \<Rightarrow> char list \<Rightarrow> ('d, 'h) world \<Rightarrow> ('d, 'h) world option" where
  "shell_sim_run E args w =
     (let count = sim_count args; before = netfs_get_stats (wk w);
          w1 = on_k (\<lambda>k. say (ln ''sim: mode=%s writes=%u'') [Str (power_mode_name k), Num (word_of_nat count)] k) w;
          w2 = on_k (sim_loop [0..<count]) w1
      in map_option (\<lambda>m. on_k (\<lambda>k. shell_power_status (sim_result before k)) (set_m w m))
           (shell_yields (e_ring3 E) (e_fuel E) 32 (w_m w2)))"

definition cmd_net :: "char list \<Rightarrow> char list \<Rightarrow> char list \<Rightarrow> 'd kernel \<Rightarrow> 'd kernel" where
  "cmd_net path message data k =
     (let (ok, k1) = netfs_write_path (Some path) (Some data) k in if ok then k1 else shell_write (ln message) k1)"

definition cmd_net_loopback :: "('d, 'h) env \<Rightarrow> char list \<Rightarrow> ('d, 'h) world \<Rightarrow> ('d, 'h) world option" where
  "cmd_net_loopback E v w =
     (let (ok, k1) = netfs_write_path (Some ''/net/config/loopback'') (Some v) (wk w) in
      if ok then cmd_cat E ''/net/config/loopback'' (set_k w k1)
      else Some (set_k w (shell_write (ln ''net loopback expects 0 or 1'') k1)))"

subsection \<open>Traces\<close>

definition cmd_trace_start :: "'d kernel \<Rightarrow> 'd kernel" where
  "cmd_trace_start k = shell_write (ln ''trace recording enabled'') (k\<lparr>k_trace := trace_start (pit_ticks k) (k_trace k)\<rparr>)"

definition stop_trace :: "'d blockdev \<Rightarrow> 'd kernel \<Rightarrow> 'd kernel option" where
  "stop_trace B k =
     map_option (\<lambda>(tr, fs). k\<lparr>k_trace := tr, k_fs := fs\<rparr>) (trace_stop B (pit_ticks k) (k_trace k, k_fs k))"

definition cmd_trace_stop :: "('d, 'h) env \<Rightarrow> ('d, 'h) world \<Rightarrow> ('d, 'h) world option" where
  "cmd_trace_stop E w =
     map_option (\<lambda>k. set_k w (shell_write (ln ''trace recording stopped'') k)) (stop_trace (e_dev E) (wk w))"

definition of_outcome :: "'a outcome \<Rightarrow> 'a option" where
  "of_outcome r = (case r of Done x \<Rightarrow> Some x | _ \<Rightarrow> None)"

definition cmd_replay_session :: "('d, 'h) env \<Rightarrow> char list \<Rightarrow> ('d, 'h) world \<Rightarrow> ('d, 'h) world option" where
  "cmd_replay_session E arg w =
     map_option (set_k w) (of_outcome (trace_replay_session_report (e_dev E) (e_replay_buf E) (shell_parse_u32 arg) (wk w)))"

definition cmd_traceview :: "('d, 'h) env \<Rightarrow> char list \<Rightarrow> ('d, 'h) world \<Rightarrow> ('d, 'h) world option" where
  "cmd_traceview E arg w = map_option (set_k w) (of_outcome (fs_traceview (e_dev E) (shell_parse_u32 arg) (wk w)))"

text \<open>The workload of a profile, until no workload is left.\<close>

definition run_profile :: "('d, 'h) env \<Rightarrow> u32 \<Rightarrow> ('d, 'h) world \<Rightarrow> ('d, 'h) world option" where
  "run_profile E profile w =
     (let w1 = on_k (\<lambda>k. snd (workload_run_profile profile k)) w
      in map_option (set_m w1) (run_workloads_until_idle (e_ring3 E) (e_fuel E) (Suc (e_fuel E)) (w_m w1)))"

definition cmd_demo_record :: "('d, 'h) env \<Rightarrow> char list \<Rightarrow> ('d, 'h) world \<Rightarrow> ('d, 'h) world option" where
  "cmd_demo_record E arg w =
     (let profile = parse_profile arg in
      if profile = WORKLOAD_PROFILE_NONE then Some (on_k (shell_write (ln ''unknown demo profile'')) w)
      else
        (let w1 = on_k sched_prepare_replay w;
             w2 = on_k (\<lambda>k. k\<lparr>k_trace := trace_start_profile profile (pit_ticks k) (k_trace k)\<rparr>) w1
         in case run_profile E profile w2 of
              None \<Rightarrow> None
            | Some w3 \<Rightarrow>
                map_option (\<lambda>k. set_k w3 (say (ln ''demo record profile=%s complete'') [Str (workload_profile_name profile)] k))
                  (stop_trace (e_dev E) (wk w3))))"

definition cmd_demo_replay :: "('d, 'h) env \<Rightarrow> char list \<Rightarrow> ('d, 'h) world \<Rightarrow> ('d, 'h) world option" where
  "cmd_demo_replay E arg w =
     (let sid = shell_parse_u32 arg; k = wk w in
      case trace_replay_begin (e_dev E) sid (k_trace k, k_fs k) of
        None \<Rightarrow> None
      | Some (ok, tr, fs) \<Rightarrow>
          (let w1 = set_k w (k\<lparr>k_trace := tr, k_fs := fs\<rparr>); profile = si_profile_id (rp_info (tr_replay tr)) in
           if \<not> ok then Some (on_k (say (ln ''demo replay: session %u not found'') [Num (ucast sid)]) w1)
           else if profile = WORKLOAD_PROFILE_NONE
           then Some (on_k (\<lambda>k. trace_replay_end_report
                  (say (ln ''demo replay: session %u has no replayable profile'') [Num (ucast sid)] k)) w1)
           else
             map_option (on_k trace_replay_end_report)
               (run_profile E profile
                 (on_k (\<lambda>k. say (ln ''demo replay session=%u profile=%s'') [Num (ucast sid), Str (workload_profile_name profile)]
                    (sched_prepare_replay k)) w1))))"

subsection \<open>Texts\<close>

definition cmd_help :: "'d kernel \<Rightarrow> 'd kernel" where
  "cmd_help k = fold shell_write [ln ''commands:'', manual_command_list, ln ''use: man <command>''] k"

definition cmd_man_usage :: "'d kernel \<Rightarrow> 'd kernel" where
  "cmd_man_usage k = fold shell_write [ln ''usage: man <topic>'',
     ln ''topics: commands, help, ls, cat, write, open, readfd, writefd, close, fork, execve, run, waitpid, ping, ps, netstat, mouse, power, sim, gui, trace, demo, proc, posix, perf''] k"

definition cmd_man :: "char list \<Rightarrow> 'd kernel \<Rightarrow> 'd kernel" where
  "cmd_man topic k =
     (case manual_print topic of
        Some txt \<Rightarrow> shell_write txt k
      | None \<Rightarrow> say (ln ''man: unknown topic %s'') [Str topic] k)"

definition cmd_uname :: "'d kernel \<Rightarrow> 'd kernel" where
  "cmd_uname k = say (ln ''%s %s x86_64 monolithic research kernel'') [Str ''BB'', Str ''0.3''] k"

definition cmd_uptime :: "'d kernel \<Rightarrow> 'd kernel" where
  "cmd_uptime k = say (ln ''uptime ticks=%lu pit_hz=%u'') [Num (pit_ticks k), Num (ucast (k_hz k))] k"

definition cmd_posix_status :: "'d kernel \<Rightarrow> 'd kernel" where
  "cmd_posix_status k = fold shell_write
     [ln ''posix profile:'',
      ln ''  syscall abi: open/read/write/close, fork, execve, waitpid'',
      ln ''  vfs namespaces: /trace /bin /net /proc exposed through fd-backed reads/writes'',
      ln ''  protected exec: runtime gdt/tss, dpl3 int 0x80 gate, and stable run /bin/ring3demo transition/return path'',
      ln ''  executable model: file-backed /bin images with disk-backed elf loading for /bin/ring3demo'',
      ln ''  unix-like commands: ls cat write open readfd writefd close proc ping ps netstat man mouse status power status'',
      ln ''  missing for full posix: spawned process execution, full per-process vm, signals, fork/exec semantics, permissions''] k"

definition topics :: "(char list \<times> char list) list" where
  "topics =
    [(''kernel'', ''kernel: monolithic x86_64 BIOS-boot kernel with shell, irq handling, task scheduler, trace recorder, and ata-backed trace fs''),
     (''scheduler'', ''scheduler: cooperative round-robin kernel task scheduler with states ready/running/zombie and forced replay ordering''),
     (''trace'', ''trace: records irq, shell, scheduler, workload, keyboard, and fault events; persists sessions and supports replay validation/execution''),
     (''fs'', ''fs: tiny ata-backed trace filesystem with superblock, inode table, and contiguous trace extents''),
     (''replay'', ''replay: virtualizes time, forces recorded scheduler decisions for replayable workload profiles, and reports divergence on mismatch''),
     (''proc'', ''proc: kernel tasks act as lightweight processes with pid, lifecycle state, runtime counters, and cleanup via zombie reuse''),
     (''smp'', ''smp: groundwork only right now; cpuid/apic discovery, per-cpu table scaffolding, and spinlock infrastructure are present, but only the bsp is online''),
     (''net'', ''net: netfs exposes packet i/o via files under /net so transmit, receive, and network control are operated with read/write path semantics''),
     (''posix'', ''posix: shell supports path-based ls/cat/write commands and unix-like introspection commands while full userspace/syscall compatibility remains future work''),
     (''power'', ''power: coalesces keyboard delivery and /net transmit batching to reduce CPU wakeups in balanced and saver modes'')]"

definition explain_topic :: "char list \<Rightarrow> 'd kernel \<Rightarrow> 'd kernel" where
  "explain_topic topic k =
     (case find (\<lambda>t. strcmp topic (fst t) = 0) topics of
        Some t \<Rightarrow> shell_write (ln (snd t)) k
      | None \<Rightarrow> shell_write (ln ''topics: kernel scheduler trace fs replay proc smp net posix power'') k)"

section \<open>Dispatch\<close>

text \<open>The chain of \<open>exec_command\<close>: \<open>is\<close> compares the whole line, \<open>starts\<close> its beginning; the argument of
  a command is what follows its name and the blanks behind it.\<close>

text \<open>The end of the chain: the state of the system, traces and demonstrations, workloads.\<close>

definition exec_system :: "('d, 'h) env \<Rightarrow> char list \<Rightarrow> ('d, 'h) world \<Rightarrow> ('d, 'h) world option" where
  "exec_system E cmd w =
     (let is = (\<lambda>s. strcmp cmd s = 0); starts = (\<lambda>p. strncmp cmd p (length p) = 0);
          arg = (\<lambda>n. skip_spaces (drop n cmd)); k = (\<lambda>f. Some (on_k f w)) in
      if is ''uname'' then k cmd_uname
      else if is ''uptime'' then k cmd_uptime
      else if is ''fsinfo'' then k report_fsinfo
      else if is ''state'' then k report_state
      else if is ''posix status'' then k cmd_posix_status
      else if is ''perf'' then k report_perf
      else if is ''smpinfo'' then k (report_smpinfo (w_smp w) (w_apic w))
      else if starts ''explain '' then k (explain_topic (drop 8 cmd))
      else if is ''trace start'' then k cmd_trace_start
      else if is ''trace stop'' then cmd_trace_stop E w
      else if is ''trace list'' then k trace_list_sessions
      else if starts ''replay session '' then cmd_replay_session E (drop 15 cmd) w
      else if starts ''demo record '' then cmd_demo_record E (drop 12 cmd) w
      else if starts ''demo replay '' then cmd_demo_replay E (drop 12 cmd) w
      else if is ''trace stats'' then k report_trace_stats
      else if is ''meminfo'' then k report_meminfo
      else if is ''irqstat'' then k (report_irqstat (w_idt w))
      else if is ''attack_sim'' then k workload_attack_sim
      else if is ''sysload'' then k workload_sysload
      else if is ''lifecycle_test'' then k workload_lifecycle_test
      else if is ''proc'' then k sched_dump
      else if starts ''traceview '' then cmd_traceview E (drop 10 cmd) w
      else if cdref cmd \<noteq> NUL then k (say (ln ''unknown command: %s'') [Str cmd])
      else Some w)"

text \<open>The middle: the network, power, mouse and display.\<close>

definition exec_devices :: "('d, 'h) env \<Rightarrow> char list \<Rightarrow> ('d, 'h) world \<Rightarrow> ('d, 'h) world option" where
  "exec_devices E cmd w =
     (let is = (\<lambda>s. strcmp cmd s = 0); starts = (\<lambda>p. strncmp cmd p (length p) = 0);
          arg = (\<lambda>n. skip_spaces (drop n cmd)); k = (\<lambda>f. Some (on_k f w)) in
      if starts ''ping '' then shell_ping_run E (arg 5) w
      else if is ''ring3demo'' then run_sync E (ln ''ring3demo rc=%d'') [] ''/bin/ring3demo'' w
      else if is ''ps'' then k shell_ps_run
      else if is ''netstat'' then k shell_netstat_run
      else if is ''mouse status'' then k (report_mouse (w_mouse w))
      else if is ''power status'' \<or> is ''power stats'' then k shell_power_status
      else if is ''power perf'' then k (cmd_power POWER_MODE_PERFORMANCE)
      else if is ''power balanced'' then k (cmd_power POWER_MODE_BALANCED)
      else if is ''power saver'' then k (cmd_power POWER_MODE_ENERGY_SAVER)
      else if is ''sim'' then shell_sim_run E [] w
      else if starts ''sim '' then shell_sim_run E (arg 4) w
      else if starts ''net send '' then k (cmd_net ''/net/tx'' ''net send failed'' (arg 9))
      else if starts ''net inject '' then k (cmd_net ''/net/rx/inject'' ''net inject failed'' (arg 11))
      else if starts ''net loopback '' then cmd_net_loopback E (arg 13) w
      else if is ''clear'' then k (\<lambda>k. k\<lparr>k_con := console_clear (k_con k)\<rparr>)
      else if is ''gui on'' then k (\<lambda>k. k\<lparr>k_con := console_set_gui True (k_con k)\<rparr>)
      else if is ''gui off'' then k (\<lambda>k. k\<lparr>k_con := console_set_gui False (k_con k)\<rparr>)
      else exec_system E cmd w)"

text \<open>The whole of \<open>exec_command\<close>; it begins with the manual, files and processes.\<close>

definition exec_command :: "('d, 'h) env \<Rightarrow> char list \<Rightarrow> ('d, 'h) world \<Rightarrow> ('d, 'h) world option" where
  "exec_command E cmd w =
     (let is = (\<lambda>s. strcmp cmd s = 0); starts = (\<lambda>p. strncmp cmd p (length p) = 0);
          arg = (\<lambda>n. skip_spaces (drop n cmd)); k = (\<lambda>f. Some (on_k f w)) in
      if is ''help'' then k cmd_help
      else if is ''man'' then k cmd_man_usage
      else if starts ''man '' then k (cmd_man (arg 4))
      else if is ''ls'' then cmd_ls_all w
      else if starts ''ls '' then cmd_ls E (arg 3) w
      else if starts ''cat '' \<or> starts ''read '' then cmd_cat E (arg (if cdref cmd = CHR ''c'' then 4 else 5)) w
      else if starts ''write '' then Some (cmd_write (arg 6) w)
      else if starts ''open '' then Some (cmd_open (arg 5) w)
      else if starts ''readfd '' then cmd_readfd E (arg 7) w
      else if starts ''writefd '' then Some (cmd_writefd (arg 8) w)
      else if starts ''close '' then Some (cmd_close (arg 6) w)
      else if is ''fork'' then Some (cmd_fork w)
      else if starts ''execve '' then Some (cmd_execve (arg 7) w)
      else if starts ''run '' then cmd_run E (arg 4) w
      else if starts ''waitpid '' then cmd_waitpid E (arg 8) w
      else exec_devices E cmd w)"

section \<open>The line editor\<close>

record ('d, 'h) shell =
  sh_line :: "char list"
  sh_len :: nat
  sh_world :: "('d, 'h) world"

text \<open>The keyboard delivers signed characters, the serial line unsigned ones; -1 is no input.\<close>

definition shell_read_char :: "('d, 'h) env \<Rightarrow> ('d, 'h) world \<Rightarrow> int \<times> ('d, 'h) world" where
  "shell_read_char E w =
     (let (key, kb) = keyboard_getchar (k_kbd (wk w)); w1 = on_k (\<lambda>k. k\<lparr>k_kbd := kb\<rparr>) w;
          ch = (case key of None \<Rightarrow> -1 | Some c \<Rightarrow> sint (byte_of_char c)) in
      if ch \<ge> 0 then (ch, w1)
      else
        (let (byte, h) = serial_read_nonblock (e_ports E) (w_hw w1);
             ch = (case byte of None \<Rightarrow> -1 | Some b \<Rightarrow> uint b)
         in (if ch = 13 then 10 else if ch = 0x7f then 8 else ch, w1\<lparr>w_hw := h\<rparr>)))"

text \<open>\<open>if (sched_has_ready()) sched_yield();\<close>\<close>

definition yield_if_ready :: "('d, 'h) env \<Rightarrow> ('d, 'h) world \<Rightarrow> ('d, 'h) world option" where
  "yield_if_ready E w =
     (if sched_has_ready (wk w) then map_option (set_m w) (shell_yield (e_ring3 E) (e_fuel E) (w_m w)) else Some w)"

definition prompt :: "'d kernel \<Rightarrow> 'd kernel" where
  "prompt k = shell_write ''BB> '' k"

text \<open>The end of a line: echo, trace, execute, yield, prompt.\<close>

definition shell_enter :: "('d, 'h) env \<Rightarrow> ('d, 'h) shell \<Rightarrow> ('d, 'h) shell option" where
  "shell_enter E sh =
     (let line = (sh_line sh)[sh_len sh := NUL];
          w1 = on_k (shell_putc LF) (sh_world sh);
          w2 = (if strncmp line ''demo '' 5 \<noteq> 0 then on_k (trace_record TRACE_EVENT_SHELL 0 (word_of_nat (sh_len sh)) 0) w1 else w1)
      in case exec_command E line w2 of
           None \<Rightarrow> None
         | Some w3 \<Rightarrow> map_option (\<lambda>w4. \<lparr>sh_line = line, sh_len = 0, sh_world = on_k prompt w4\<rparr>) (yield_if_ready E w3))"

text \<open>What the editor does with a character other than the end of the line.\<close>

definition shell_edit :: "int \<Rightarrow> ('d, 'h) shell \<Rightarrow> ('d, 'h) shell" where
  "shell_edit ch sh =
     (if ch = 8
      then (if sh_len sh \<noteq> 0 then sh\<lparr>sh_len := sh_len sh - 1,
               sh_world := on_k (shell_write [CHR 0x08, CHR '' '', CHR 0x08]) (sh_world sh)\<rparr> else sh)
      else if sh_len sh + 1 < 128 \<and> ch \<ge> 32 \<and> ch < 127
      then sh\<lparr>sh_line := (sh_line sh)[sh_len sh := char_of (nat ch)], sh_len := sh_len sh + 1,
             sh_world := on_k (shell_putc (char_of (nat ch))) (sh_world sh)\<rparr>
      else sh)"

text \<open>One round of the loop of \<open>shell_run\<close>; without input and ready tasks the processor waits for an interrupt.\<close>

definition shell_step :: "('d, 'h) env \<Rightarrow> ('d, 'h) shell \<Rightarrow> ('d, 'h) shell option" where
  "shell_step E sh =
     (let (ch, w) = shell_read_char E (sh_world sh); sh1 = sh\<lparr>sh_world := w\<rparr> in
      if ch < 0 then map_option (\<lambda>w'. sh1\<lparr>sh_world := w'\<rparr>) (yield_if_ready E w)
      else if ch = 10 then shell_enter E sh1
      else Some (shell_edit ch sh1))"

text \<open>The start of \<open>shell_run\<close>; the array is not initialised.\<close>

definition shell_start :: "char list \<Rightarrow> ('d, 'h) world \<Rightarrow> ('d, 'h) shell" where
  "shell_start line w = \<lparr>sh_line = line, sh_len = 0, sh_world = on_k prompt w\<rparr>"

end
