(* ===== verification/Shell_Correctness.thy ===== *)
theory Shell_Correctness
  imports Shell Fs_Correctness
begin

text \<open>
  What the commands of the shell do: \<open>cat\<close> prints the file it names, the report commands only
  print, every command keeps the descriptor table well typed, \<open>demo record\<close> comes to its end, and
  the line editor hands \<open>exec_command\<close> the line that was typed.
\<close>

section \<open>Output\<close>

lemma crlf_append: "crlf (a @ b) = crlf a @ crlf b"
  by (simp add: crlf_def)

lemma shell_write_n_eq:
  "\<exists>c. shell_write_n s k = k\<lparr>k_con := c, k_ser := k_ser k @ crlf s\<rparr>"
proof (induction s arbitrary: k)
  case Nil
  show ?case by (rule exI [of _ "k_con k"]) (simp add: shell_write_n_def crlf_def)
next
  case (Cons a s)
  obtain c where c: "shell_write_n s (both_putc a k) = (both_putc a k)\<lparr>k_con := c, k_ser := k_ser (both_putc a k) @ crlf s\<rparr>"
    using Cons.IH by blast
  have "shell_write_n (a # s) k = shell_write_n s (both_putc a k)" by (simp add: shell_write_n_def shell_putc_def)
  then have "shell_write_n (a # s) k = k\<lparr>k_con := c, k_ser := k_ser k @ crlf (a # s)\<rparr>"
    unfolding c by (simp add: both_putc_def serial_putc_def crlf_def)
  then show ?case by blast
qed

lemma prints_shell_write [prints_intros]: "prints_only k (shell_write s k)"
  by (simp add: shell_write_def both_write_def serial_write_eq prints_out)

text \<open>Printing does not change the text of an open file.\<close>

lemma node_text_prints: "node_text fd (k\<lparr>k_con := c, k_ser := s\<rparr>) = node_text fd k"
proof -
  let ?k = "k\<lparr>k_con := c, k_ser := s\<rparr>"
  have "render_proc_tasks ?k = render_proc_tasks k" "render_proc_meminfo ?k = render_proc_meminfo k"
    "render_proc_aspace ?k = render_proc_aspace k" "render_trace_index ?k = render_trace_index k"
    by (simp_all add: render_proc_tasks_def sched_snapshot_def render_proc_meminfo_def render_proc_aspace_def render_trace_index_def)
  moreover have "k_net ?k = k_net k" "k_fs ?k = k_fs k" by simp_all
  ultimately show ?thesis by (simp only: node_text_def)
qed

section \<open>cat\<close>

lemma cat_loop_text:
  assumes "fd_valid fd s" and "length (fd_table s) = VFS_MAX_FDS" and "fd_flags (fd_table s ! nat fd) \<noteq> VFS_O_WRONLY"
    and "node_text (fd_table s ! nat fd) (sys_k s) = Some txt" and "length txt < 1024" and "locals_ok loc"
    and "unat (fd_pos (fd_table s ! nat fd)) \<le> length txt" and "length txt - unat (fd_pos (fd_table s ! nat fd)) \<le> 256 * n"
  shows "\<exists>c p. cat_loop B loc path fd (Suc n) s = Some (s\<lparr>
    sys_k := (sys_k s)\<lparr>k_con := c, k_ser := k_ser (sys_k s) @ crlf (drop (unat (fd_pos (fd_table s ! nat fd))) txt)\<rparr>,
    fd_table := (fd_table s)[nat fd := (fd_table s ! nat fd)\<lparr>fd_pos := p\<rparr>]\<rparr>)"
  using assms
proof (induction n arbitrary: s rule: less_induct)
  case (less n)
  let ?f = "fd_table s ! nat fd" and ?p = "unat (fd_pos (fd_table s ! nat fd))"
  let ?out = "take 256 (drop ?p txt)"
  let ?f1 = "?f\<lparr>fd_pos := fd_pos ?f + word_of_nat (length ?out)\<rparr>"
  let ?s1 = "s\<lparr>fd_table := (fd_table s)[nat fd := ?f1]\<rparr>"
  have r: "sys_read B loc fd 256 s = (Done (string_bytes ?out), ?s1)"
    using vfs_read_ok [OF less.prems(1-6), where B = B and n = 256] by (simp add: Let_def sys_read_def)
  have i: "nat fd < length (fd_table s)" using less.prems(1,2) by (auto simp: fd_valid_def)
  show ?case
  proof (cases "drop ?p txt = []")
    case True
    then have "cat_loop B loc path fd (Suc n) s = Some ?s1" using r by (simp add: string_bytes_def)
    with True show ?thesis by (intro exI [of _ "k_con (sys_k s)"] exI [of _ "fd_pos ?f + word_of_nat (length ?out)"]) (simp add: crlf_def)
  next
    case False
    then obtain j where n: "n = Suc j" using less.prems(8) by (cases n) auto
    obtain c where c: "shell_write_n ?out (sys_k s) = (sys_k s)\<lparr>k_con := c, k_ser := k_ser (sys_k s) @ crlf ?out\<rparr>"
      using shell_write_n_eq by blast
    let ?k2 = "(sys_k s)\<lparr>k_con := c, k_ser := k_ser (sys_k s) @ crlf ?out\<rparr>"
    let ?s2 = "?s1\<lparr>sys_k := ?k2\<rparr>"
    have rb: "map char_of_byte (string_bytes ?out) = ?out" by (simp add: string_bytes_def comp_def)
    have ne: "string_bytes ?out \<noteq> []" using False by (simp add: string_bytes_def)
    have go: "cat_loop B loc path fd (Suc n) s = cat_loop B loc path fd (Suc j) ?s2"
      using False c unfolding n cat_loop.simps(2) [of _ _ _ _ "Suc j"] r by (simp add: rb ne upd_k_def del: cat_loop.simps)
    have lo: "length ?out = min 256 (length txt - ?p)" by simp
    have p1: "unat (fd_pos ?f + word_of_nat (length ?out)) = ?p + length ?out"
    proof -
      have u: "unat (word_of_nat (length ?out) :: u32) = length ?out" by (rule unat_word_of_nat_less) simp
      have "?p + length ?out \<le> length txt" using lo less.prems(7) by linarith
      then have "?p + length ?out < 2 ^ 32" using less.prems(5) by simp
      then show ?thesis using u by (subst unat_add_no_wrap) simp_all
    qed
    have f2: "fd_table ?s2 ! nat fd = ?f1" using i by simp
    have pre: "fd_valid fd ?s2" "length (fd_table ?s2) = VFS_MAX_FDS" "fd_flags (fd_table ?s2 ! nat fd) \<noteq> VFS_O_WRONLY"
      "node_text (fd_table ?s2 ! nat fd) (sys_k ?s2) = Some txt"
      using less.prems i unfolding f2 by (simp_all add: fd_valid_def node_text_prints)
    have pos: "unat (fd_pos (fd_table ?s2 ! nat fd)) = ?p + length ?out" unfolding f2 using p1 by simp
    have le: "unat (fd_pos (fd_table ?s2 ! nat fd)) \<le> length txt" "length txt - unat (fd_pos (fd_table ?s2 ! nat fd)) \<le> 256 * j"
      unfolding pos using lo less.prems(7,8) n by linarith+
    have jn: "j < n" using n by simp
    obtain c' q where ih: "cat_loop B loc path fd (Suc j) ?s2 = Some (?s2\<lparr>
        sys_k := (sys_k ?s2)\<lparr>k_con := c', k_ser := k_ser (sys_k ?s2) @ crlf (drop (unat (fd_pos (fd_table ?s2 ! nat fd))) txt)\<rparr>,
        fd_table := (fd_table ?s2)[nat fd := (fd_table ?s2 ! nat fd)\<lparr>fd_pos := q\<rparr>]\<rparr>)"
      using less.IH [OF jn pre less.prems(5,6) le] by (elim exE) (rule that)
    have "drop (?p + length ?out) txt = drop (length ?out) (drop ?p txt)" by (simp add: add.commute)
    moreover have "take 256 x @ drop (length (take 256 x)) x = x" for x :: "char list" by (cases "256 \<le> length x") simp_all
    ultimately have "?out @ drop (?p + length ?out) txt = drop ?p txt" by presburger
    from arg_cong [OF this, of crlf] have "crlf ?out @ crlf (drop (?p + length ?out) txt) = crlf (drop ?p txt)"
      unfolding crlf_append .
    then show ?thesis unfolding go ih [unfolded pos] f2 by (intro exI [of _ c'] exI [of _ q]) simp
  qed
qed



section \<open>The line editor\<close>

text \<open>The text of the line, what a character does to it, and the invariant of the array.\<close>

definition line_text :: "('d, 'h) shell \<Rightarrow> char list" where
  "line_text sh = take (sh_len sh) (sh_line sh)"

definition edit :: "char list \<Rightarrow> int \<Rightarrow> char list" where
  "edit s ch =
     (if ch = 8 then butlast s else if length s < 127 \<and> 32 \<le> ch \<and> ch < 127 then s @ [char_of (nat ch)] else s)"

definition printable :: "char \<Rightarrow> bool" where
  "printable c \<longleftrightarrow> 32 \<le> (of_char c :: nat) \<and> (of_char c :: nat) < 127"

definition line_inv :: "('d, 'h) shell \<Rightarrow> bool" where
  "line_inv sh \<longleftrightarrow> length (sh_line sh) = 128 \<and> sh_len sh < 128 \<and> list_all printable (line_text sh)"

lemma printable_is_cstr: "list_all printable s \<Longrightarrow> is_cstr s"
  by (induction s) (auto simp: printable_def)

lemma edit_line:
  assumes "line_inv sh"
  shows "line_inv (shell_edit ch sh)" "line_text (shell_edit ch sh) = edit (line_text sh) ch"
proof -
  have len: "length (sh_line sh) = 128" "sh_len sh < 128" "list_all printable (line_text sh)" using assms by (simp_all add: line_inv_def)
  have lt: "length (line_text sh) = sh_len sh" using len by (simp add: line_text_def)
  have "line_inv (shell_edit ch sh) \<and> line_text (shell_edit ch sh) = edit (line_text sh) ch"
  proof (cases "ch = 8")
    case True
    have b: "take (sh_len sh - 1) (sh_line sh) = butlast (line_text sh)"
      using len by (simp add: line_text_def butlast_take)
    have "list_all printable (butlast (line_text sh))" using len(3) by (auto simp: list_all_iff dest: in_set_butlastD)
    then show ?thesis using True len b lt by (auto simp: shell_edit_def edit_def line_inv_def line_text_def)
  next
    case nb: False
    show ?thesis
    proof (cases "sh_len sh + 1 < 128 \<and> ch \<ge> 32 \<and> ch < 127")
      case True
      let ?c = "char_of (nat ch) :: char"
      have t: "take (sh_len sh + 1) ((sh_line sh)[sh_len sh := ?c]) = line_text sh @ [?c]"
        using len by (simp add: line_text_def take_Suc_conv_app_nth)
      have "nat ch < 256" using True by linarith
      then have "(of_char ?c :: nat) = nat ch" by simp
      moreover have "32 \<le> nat ch" "nat ch < 127" using True by linarith+
      ultimately have "printable ?c" unfolding printable_def by presburger
      then have "line_inv (shell_edit ch sh)" "line_text (shell_edit ch sh) = line_text sh @ [?c]"
        using True nb len t by (simp_all add: shell_edit_def line_inv_def line_text_def)
      then show ?thesis using True nb lt by (simp add: edit_def)
    next
      case False
      then have "shell_edit ch sh = sh" "edit (line_text sh) ch = line_text sh" using nb lt by (auto simp: shell_edit_def edit_def)
      then show ?thesis using assms by simp
    qed
  qed
  then show "line_inv (shell_edit ch sh)" "line_text (shell_edit ch sh) = edit (line_text sh) ch" by simp_all
qed

text \<open>Rounds of the loop up to the end of a line, and the characters they read; rounds without input let
  other tasks run.\<close>

inductive types :: "('d, 'h) env \<Rightarrow> ('d, 'h) shell \<Rightarrow> int list \<Rightarrow> ('d, 'h) shell \<Rightarrow> bool" for E where
  types_nil: "types E sh [] sh"
| types_idle: "shell_read_char E (sh_world sh) = (ch, w) \<Longrightarrow> ch < 0 \<Longrightarrow> shell_step E sh = Some sh1 \<Longrightarrow> types E sh1 cs sh2 \<Longrightarrow> types E sh cs sh2"
| types_key: "shell_read_char E (sh_world sh) = (ch, w) \<Longrightarrow> 0 \<le> ch \<Longrightarrow> ch \<noteq> 10 \<Longrightarrow> shell_step E sh = Some sh1 \<Longrightarrow> types E sh1 cs sh2 \<Longrightarrow>
    types E sh (ch # cs) sh2"

lemma step_line:
  assumes "shell_read_char E (sh_world sh) = (ch, w)" and "shell_step E sh = Some sh1" and "ch \<noteq> 10" and "line_inv sh"
  shows "line_inv sh1" "line_text sh1 = (if ch < 0 then line_text sh else edit (line_text sh) ch)"
proof -
  let ?s = "sh\<lparr>sh_world := w\<rparr>"
  have i: "line_inv ?s" "line_text ?s = line_text sh" using assms(4) by (simp_all add: line_inv_def line_text_def)
  have "line_inv sh1 \<and> line_text sh1 = (if ch < 0 then line_text sh else edit (line_text sh) ch)"
  proof (cases "ch < 0")
    case True
    then obtain w' where "sh1 = ?s\<lparr>sh_world := w'\<rparr>" using assms(1,2) by (auto simp: shell_step_def)
    then show ?thesis using True assms(4) by (simp add: line_inv_def line_text_def)
  next
    case False
    then have "sh1 = shell_edit ch ?s" using assms(1-3) by (simp add: shell_step_def)
    then show ?thesis using False edit_line [OF i(1), of ch] i(2) by simp
  qed
  then show "line_inv sh1" "line_text sh1 = (if ch < 0 then line_text sh else edit (line_text sh) ch)" by simp_all
qed

lemma types_line:
  "types E sh cs sh' \<Longrightarrow> line_inv sh \<Longrightarrow> line_inv sh' \<and> line_text sh' = foldl edit (line_text sh) cs"
proof (induction rule: types.induct)
  case (types_idle sh ch w sh1 cs sh2)
  then show ?case using step_line [OF types_idle.hyps(1,3)] by simp
next
  case (types_key sh ch w sh1 cs sh2)
  then show ?case using step_line [OF types_key.hyps(1,4)] by simp
qed simp

text \<open>C14: the shell executes the line that was typed.  From a fresh prompt, after any rounds of the loop
  that read characters other than the end of the line, with idle rounds and other tasks between
  them, the line is what those characters edit: printable characters are appended up to 127 of
  them, a backspace takes off the last one, everything else is ignored.  When the end of the line
  is read, the array passed to \<open>exec_command\<close> is terminated and holds exactly that line; it is
  traced unless it starts a demo, and afterwards the shell is at a fresh prompt.\<close>

theorem shell_executes_typed_line:
  assumes ty: "types E (shell_start line0 w0) chs sh" and len: "length line0 = 128" and rd: "shell_read_char E (sh_world sh) = (10, w)"
  shows "\<exists>line. length line = 128 \<and> c_str line = foldl edit [] chs \<and> length (foldl edit [] chs) < 128 \<and> list_all printable (foldl edit [] chs) \<and>
    shell_step E sh =
      (let w1 = on_k (shell_putc LF) w;
           w2 = (if take 5 (foldl edit [] chs) = ''demo '' then w1
                 else on_k (trace_record TRACE_EVENT_SHELL 0 (word_of_nat (length (foldl edit [] chs))) 0) w1)
       in case exec_command E line w2 of None \<Rightarrow> None | Some w3 \<Rightarrow> map_option (shell_start line) (yield_if_ready E w3))"
proof -
  let ?cmd = "foldl edit [] chs" and ?line = "(sh_line sh)[sh_len sh := NUL]"
  have "line_inv (shell_start line0 w0)" "line_text (shell_start line0 w0) = []"
    using len by (simp_all add: line_inv_def line_text_def shell_start_def)
  then have li: "line_inv sh" and lt: "line_text sh = ?cmd" using types_line [OF ty] by simp_all
  have l: "length (sh_line sh) = 128" "sh_len sh < 128" "list_all printable ?cmd" using li lt by (simp_all add: line_inv_def)
  have n: "length ?cmd = sh_len sh" using l lt [symmetric] by (simp add: line_text_def)
  have ln: "?line = ?cmd @ NUL # drop (Suc (sh_len sh)) (sh_line sh)"
    using l lt by (simp add: line_text_def upd_conv_take_nth_drop)
  have cs: "c_str ?line = ?cmd" unfolding ln using printable_is_cstr [OF l(3)] by simp
  have d: "strncmp ?line ''demo '' 5 = 0 \<longleftrightarrow> take 5 ?cmd = ''demo ''"
    unfolding strncmp_c_str [of ?line, symmetric] cs by (rule strncmp_prefix) simp_all
  show ?thesis
  proof (rule exI [of _ ?line], intro conjI cs l(3))
    show "length ?line = 128" "length ?cmd < 128" using l n by simp_all
  qed (use rd d n in \<open>simp add: shell_step_def shell_enter_def shell_start_def [abs_def] Let_def split: option.split\<close>)
qed

text \<open>A machine whose serial port has the given bytes waiting and whose keyboard is idle.\<close>

definition serial_ports :: "u8 list ports" where
  "serial_ports = \<lparr>in_b = (\<lambda>p h. if p = COM1 + 5 then (if h = [] then 0 else 1, h) else if p = COM1 \<and> h \<noteq> [] then (hd h, tl h) else (0, h)),
     out_b = (\<lambda>_ _ h. h), in_w = (\<lambda>_ h. (0, h)), out_w = (\<lambda>_ _ h. h)\<rparr>"

definition demo_env :: "(unit, u8 list) env" where
  "demo_env = \<lparr>e_ring3 = demo_ring3, e_ports = serial_ports, e_dev = silent_blockdev, e_loc = demo_locals, e_replay_buf = [], e_fuel = 200\<rparr>"

definition demo_world :: "u8 list \<Rightarrow> (unit, u8 list) world" where
  "demo_world input = \<lparr>w_m = demo_machine, w_idt = idt_init (\<lambda>_. 0) 0, w_mouse = mouse_bss, w_hw = input,
     w_smp = smp_init demo_cpuid (\<lambda>_. 0), w_apic = apic_init demo_cpuid (\<lambda>_. 0)\<rparr>"

definition kbd_idle :: "('d, 'h) world \<Rightarrow> bool" where
  "kbd_idle w \<longleftrightarrow> kb_head (k_kbd (wk w)) = kb_tail (k_kbd (wk w))"

lemma on_k_fields [simp]:
  "wk (on_k f w) = f (wk w)" "w_hw (on_k f w) = w_hw w" "w_idt (on_k f w) = w_idt w" "w_mouse (on_k f w) = w_mouse w"
  "w_smp (on_k f w) = w_smp w" "w_apic (on_k f w) = w_apic w" "fd_table (wsys (on_k f w)) = fd_table (wsys w)"
  by (simp_all add: on_k_def set_k_def set_sys_def set_m_def)

lemma output_kbd [simp]:
  "k_kbd (shell_putc c k) = k_kbd k" "k_kbd (shell_write s k) = k_kbd k"
  by (simp_all add: shell_putc_def both_putc_def shell_write_def both_write_def)

lemma serial_read:
  assumes "kbd_idle w" and "w_hw w = b # bs"
  shows "\<exists>w'. shell_read_char demo_env w = (if b = 13 then 10 else if b = 0x7f then 8 else uint b, w') \<and> kbd_idle w' \<and> w_hw w' = bs"
proof -
  have "uint b = 13 \<longleftrightarrow> b = 13" "uint b = 127 \<longleftrightarrow> b = 127"
    using word_uint_eq_iff [of b 13] word_uint_eq_iff [of b 127] by simp_all
  then show ?thesis using assms
    by (simp add: shell_read_char_def kbd_idle_def keyboard_getchar_def serial_read_nonblock_def demo_env_def serial_ports_def Let_def)
qed

lemma serial_types:
  assumes "kbd_idle (sh_world sh)" and "w_hw (sh_world sh) = bs @ rest" and "list_all (\<lambda>b. b \<noteq> 10 \<and> b \<noteq> 13 \<and> b \<noteq> 0x7f) bs"
  shows "\<exists>sh'. types demo_env sh (map uint bs) sh' \<and> w_hw (sh_world sh') = rest \<and> kbd_idle (sh_world sh')"
  using assms
proof (induction bs arbitrary: sh)
  case Nil
  then show ?case using types_nil by auto
next
  case (Cons b bs)
  obtain w where w: "shell_read_char demo_env (sh_world sh) = (uint b, w)" "kbd_idle w" "w_hw w = bs @ rest"
    using serial_read [OF Cons.prems(1), of b "bs @ rest"] Cons.prems(2,3) by auto
  have n: "uint b \<noteq> 10" using Cons.prems(3) word_uint_eq_iff [of b 10] by simp
  let ?s = "shell_edit (uint b) (sh\<lparr>sh_world := w\<rparr>)"
  have st: "shell_step demo_env sh = Some ?s" using w(1) n by (simp add: shell_step_def)
  have "kbd_idle (sh_world ?s)" "w_hw (sh_world ?s) = bs @ rest" using w(2,3) by (simp_all add: shell_edit_def kbd_idle_def)
  from Cons.IH [OF this] Cons.prems(3) obtain sh' where "types demo_env ?s (map uint bs) sh'" "w_hw (sh_world sh') = rest" "kbd_idle (sh_world sh')"
    by auto
  then show ?case using types_key [OF w(1) _ n st] by auto
qed

theorem shell_executes_typed_line_witness:
  "\<exists>sh line. types demo_env (shell_start (replicate 128 NUL) (demo_world [112, 120, 8, 115, 13])) [112, 120, 8, 115] sh \<and>
     c_str line = ''ps'' \<and> (\<exists>w. shell_step demo_env sh = Option.bind (exec_command demo_env line w) (\<lambda>w3.
        map_option (shell_start line) (yield_if_ready demo_env w3)))"
proof -
  let ?sh = "shell_start (replicate 128 NUL) (demo_world [112, 120, 8, 115, 13])"
  have i: "kbd_idle (sh_world ?sh)"
    by (simp add: kbd_idle_def shell_start_def prompt_def demo_world_def demo_machine_def demo_system_def system_bss_def demo_kernel_def
        sched_init_def Let_def kernel_bss_def kbd_zero_def)
  have h: "w_hw (sh_world ?sh) = [112, 120, 8, 115] @ [13]" by (simp add: shell_start_def demo_world_def)
  obtain sh where sh: "types demo_env ?sh (map uint [112, 120, 8, 115 :: u8]) sh" "w_hw (sh_world sh) = [13]" "kbd_idle (sh_world sh)"
    using serial_types [OF i h] by auto
  obtain w where rd: "shell_read_char demo_env (sh_world sh) = (10, w)" using serial_read [OF sh(3,2)] by auto
  have t: "types demo_env ?sh [112, 120, 8, 115] sh" using sh(1) by simp
  have e: "foldl edit [] [112, 120, 8, 115] = ''ps''" by code_simp
  from shell_executes_typed_line [OF t _ rd, unfolded e] obtain line where "c_str line = ''ps''"
    "shell_step demo_env sh = (let w1 = on_k (shell_putc LF) w;
           w2 = (if take 5 ''ps'' = ''demo '' then w1
                 else on_k (trace_record TRACE_EVENT_SHELL 0 (word_of_nat (length ''ps'')) 0) w1)
       in case exec_command demo_env line w2 of None \<Rightarrow> None | Some w3 \<Rightarrow> map_option (shell_start line) (yield_if_ready demo_env w3))"
    by auto
  then have "c_str line = ''ps''" "shell_step demo_env sh = Option.bind (exec_command demo_env line
        (on_k (trace_record TRACE_EVENT_SHELL 0 2 0) (on_k (shell_putc LF) w))) (\<lambda>w3. map_option (shell_start line) (yield_if_ready demo_env w3))"
    by (simp_all add: Let_def split: option.split)
  with t show ?thesis by blast
qed

section \<open>Reports\<close>

lemma prints_report [prints_intros]:
  "prints_only k (report_fsinfo k)" "prints_only k (report_state k)" "prints_only k (report_trace_stats k)"
  "prints_only k (report_meminfo k)" "prints_only k (report_mouse m k)" "prints_only k (cmd_uname k)" "prints_only k (cmd_uptime k)"
  "prints_only k (shell_netstat_run k)"
  by (simp_all add: report_fsinfo_def report_state_def report_trace_stats_def report_meminfo_def report_mouse_def cmd_uname_def cmd_uptime_def
      shell_netstat_run_def Let_def prints_say)

lemma prints_perf [prints_intros]: "prints_only k (report_perf k)"
  by (simp add: report_perf_def Let_def) (rule prints_trans [OF prints_say prints_say])

lemma prints_lists [prints_intros]:
  "prints_only k (report_irqstat i k)" "prints_only k (shell_ps_run k)" "prints_only k (sched_dump k)" "prints_only k (shell_power_status k)"
  "prints_only k (cmd_help k)" "prints_only k (cmd_man_usage k)" "prints_only k (cmd_posix_status k)" "prints_only k (fs_list_root k)"
proof -
  have w: "prints_only k (fold shell_write ss k)" for ss by (rule prints_fold) (rule prints_shell_write)
  show "prints_only k (cmd_help k)" "prints_only k (cmd_man_usage k)" "prints_only k (cmd_posix_status k)"
    unfolding cmd_help_def cmd_man_usage_def cmd_posix_status_def by (rule w)+
  show "prints_only k (report_irqstat i k)" "prints_only k (sched_dump k)" "prints_only k (fs_list_root k)"
    unfolding report_irqstat_def sched_dump_def fs_list_root_def by (rule prints_fold, rule prints_say)+
  then show "prints_only k (shell_ps_run k)" by (simp add: shell_ps_run_def)
  show "prints_only k (shell_power_status k)"
    unfolding shell_power_status_def Let_def by (rule prints_fold) (simp add: prints_say split: prod.split)
qed

lemma prints_headed [prints_intros]:
  "prints_only k (report_smpinfo s a k)" "prints_only k (trace_list_sessions k)" "prints_only k (fs_list_traces k)"
proof -
  have f: "prints_only k (fold (\<lambda>x. say (f x) (g x)) xs (say fmt args k))" for f g fmt args and xs :: "'x list"
    by (rule prints_trans [OF prints_say]) (rule prints_fold, rule prints_say)
  show "prints_only k (report_smpinfo s a k)" "prints_only k (trace_list_sessions k)"
    unfolding report_smpinfo_def trace_list_sessions_def by (rule f)+
  show "prints_only k (fs_list_traces k)" unfolding fs_list_traces_def
    by (cases "fs_online (k_fs k)") (simp_all only: if_True if_False not_True_eq_False not_False_eq_True f prints_say)
qed

lemma prints_topics [prints_intros]: "prints_only k (cmd_man t k)" "prints_only k (explain_topic t k)"
  by (simp_all add: cmd_man_def explain_topic_def prints_say prints_shell_write split: option.split)

lemma prints_ls: "\<exists>k'. cmd_ls_all w = Some (set_k w k') \<and> prints_only (wk w) k'"
proof -
  let ?k = "fs_list_traces (fs_list_root (wk w))"
  obtain ss where "netfs_list (Some ''/net'') ?k = Some (fold shell_write ss ?k)"
    by (rule that [of "[ln ''/net'', ln ''  tx'', ln ''  stats'', ln ''  explain'', ln ''  rx/'', ln ''  config/'']"])
      (simp add: netfs_list_def path_eq_def shell_write_def strcmp_eq_0_iff_c_str)
  moreover have "prints_only ?k (fold shell_write ss ?k)" for ss by (rule prints_fold) (rule prints_shell_write)
  moreover have "prints_only (wk w) ?k" by (rule prints_trans [OF prints_lists(8) prints_headed(3)])
  ultimately show ?thesis unfolding cmd_ls_all_def by (auto intro: prints_trans)
qed

text \<open>Which branch of \<open>exec_command\<close> a literal line takes.\<close>

lemmas exec_defs = exec_command_def exec_devices_def exec_system_def

lemmas dispatch = exec_defs Let_def strcmp_eq_0_iff_c_str strncmp_prefix c_str_def

lemma report_dispatch:
  "exec_command E ''help'' w = Some (on_k cmd_help w)" "exec_command E ''man'' w = Some (on_k cmd_man_usage w)"
  "exec_command E ''ls'' w = cmd_ls_all w" "exec_command E ''ps'' w = Some (on_k shell_ps_run w)"
  "exec_command E ''netstat'' w = Some (on_k shell_netstat_run w)"
  "exec_command E ''mouse status'' w = Some (on_k (report_mouse (w_mouse w)) w)"
  "exec_command E ''power status'' w = Some (on_k shell_power_status w)" "exec_command E ''power stats'' w = Some (on_k shell_power_status w)"
  by (simp_all add: dispatch)

lemma report_dispatch2:
  "exec_command E ''uname'' w = Some (on_k cmd_uname w)" "exec_command E ''uptime'' w = Some (on_k cmd_uptime w)"
  "exec_command E ''fsinfo'' w = Some (on_k report_fsinfo w)" "exec_command E ''state'' w = Some (on_k report_state w)"
  "exec_command E ''posix status'' w = Some (on_k cmd_posix_status w)" "exec_command E ''perf'' w = Some (on_k report_perf w)"
  "exec_command E ''smpinfo'' w = Some (on_k (report_smpinfo (w_smp w) (w_apic w)) w)"
  by (simp_all add: dispatch)

lemma report_dispatch3:
  "exec_command E ''trace list'' w = Some (on_k trace_list_sessions w)" "exec_command E ''trace stats'' w = Some (on_k report_trace_stats w)"
  "exec_command E ''meminfo'' w = Some (on_k report_meminfo w)" "exec_command E ''irqstat'' w = Some (on_k (report_irqstat (w_idt w)) w)"
  "exec_command E ''proc'' w = Some (on_k sched_dump w)"
  "exec_command E (''man '' @ t) w = Some (on_k (cmd_man (skip_spaces t)) w)"
  "exec_command E (''explain '' @ t) w = Some (on_k (explain_topic t) w)"
  by (simp_all add: dispatch)

text \<open>C38: the report commands only print.  From any state, each of these command lines returns, and
  everything but the console and the end of the serial output is as before: the tasks, the open
  files, the traces, the file system, the network queues, the power policy, the input buffers, the
  mouse and the devices.\<close>

theorem report_commands_only_print:
  "list_all (\<lambda>c. \<exists>k'. exec_command E c w = Some (set_k w k') \<and> prints_only (wk w) k')
     ([''help'', ''man'', ''ls'', ''ps'', ''netstat'', ''mouse status'', ''power status'', ''power stats'', ''uname'', ''uptime'', ''fsinfo'', ''state'',
       ''posix status'', ''perf'', ''smpinfo'', ''trace list'', ''trace stats'', ''meminfo'', ''irqstat'', ''proc''] @
      map (\<lambda>t. ''man '' @ t) ts @ map (\<lambda>t. ''explain '' @ t) ts)"
proof -
  have k: "\<exists>k'. Some (on_k f w) = Some (set_k w k') \<and> prints_only (wk w) k'" if "prints_only (wk w) (f (wk w))" for f
    using that by (auto simp: on_k_def)
  note p = prints_report prints_perf prints_lists prints_headed prints_topics
  show ?thesis
    by (simp only: list_all_append list.pred_inject list.pred_map comp_def report_dispatch report_dispatch2 report_dispatch3)
      (simp only: list_all_iff, intro conjI ballI TrueI k p prints_ls)
qed

section \<open>Descriptors\<close>

text \<open>Ring 3 code, and so a program run by the shell, does not reach the descriptor table.\<close>

definition ring3_files :: "'d ring3 \<Rightarrow> bool" where
  "ring3_files R \<longleftrightarrow> (\<forall>e t s. fd_table (r3_enter R e t s) = fd_table s)"

named_theorems files_simps

lemma jobs_files [files_simps]:
  "fd_table (upd_ping_job i f s) = fd_table s" "fd_table (upd_generic_job i g s) = fd_table s" "fd_table (generic_done a s) = fd_table s"
  by (simp_all add: upd_ping_job_def upd_generic_job_def generic_done_def)

lemma run_entry_files:
  assumes "\<And>e t s. fd_table (enter e t s) = fd_table s"
  shows "fd_table (snd (usermode_run_entry_stack enter e t s)) = fd_table s"
  using assms by (simp add: usermode_run_entry_stack_def Let_def)

lemma ring3_task_files: "ring3_files R \<Longrightarrow> fd_table (ring3_task R arg s) = fd_table s"
  using run_entry_files [of "r3_enter R"]
  by (simp add: ring3_task_def usermode_run_demo_stack_def ring3_files_def files_simps Let_def split_beta)

lemma block_files:
  assumes "ring3_files R"
  shows "fd_table (snd (block R th s)) = fd_table s"
proof (cases th)
  case (At_Entry e a)
  then show ?thesis using ring3_task_files [OF assms]
    by (simp add: start_block_def ps_task_def netstat_task_def files_simps split: task_entry.split)
qed (simp_all add: on_kernel_def ping_head_def ping_wait_def files_simps Let_def split_beta)

lemma set_kernel_files: "set_kernel k m = Some m' \<Longrightarrow> fd_table (m_sys m') = fd_table (m_sys m)"
  by (auto simp: set_kernel_def)

lemma task_step_files:
  assumes "ring3_files R" and "task_step R m = Some m'"
  shows "fd_table (m_sys m') = fd_table (m_sys m)"
proof -
  obtain a s where b: "block R (thread_of m (current_task (k_sched (mk m)))) (m_sys m) = (a, s)" by fastforce
  then have "fd_table s = fd_table (m_sys m)" using block_files [OF assms(1)] by (metis snd_conv)
  with assms(2) b show ?thesis by (auto simp: task_step_def Let_def dest!: set_kernel_files split: after_block.splits)
qed

lemma run_others_files:
  "ring3_files R \<Longrightarrow> run_others R fuel m = Some m' \<Longrightarrow> fd_table (m_sys m') = fd_table (m_sys m)"
  by (induction fuel arbitrary: m) (auto split: if_splits option.splits dest!: task_step_files)

lemma shell_yield_files: "ring3_files R \<Longrightarrow> shell_yield R fuel m = Some m' \<Longrightarrow> fd_table (m_sys m') = fd_table (m_sys m)"
  by (auto simp: shell_yield_def split: option.splits dest!: run_others_files set_kernel_files)

lemma yields_files: "ring3_files R \<Longrightarrow> shell_yields R fuel n m = Some m' \<Longrightarrow> fd_table (m_sys m') = fd_table (m_sys m)"
  by (induction n arbitrary: m) (auto split: option.splits dest!: shell_yield_files)

lemma waitpid_files: "ring3_files R \<Longrightarrow> sys_waitpid R fuel pid t m = Some (ok, m') \<Longrightarrow> fd_table (m_sys m') = fd_table (m_sys m)"
proof -
  have "ring3_files R \<Longrightarrow> waitpid_loop R fuel pid t s n m = Some (ok, m') \<Longrightarrow> fd_table (m_sys m') = fd_table (m_sys m)" for s n
    by (induction n arbitrary: m) (auto split: option.splits if_splits dest!: shell_yield_files)
  then show "ring3_files R \<Longrightarrow> sys_waitpid R fuel pid t m = Some (ok, m') \<Longrightarrow> fd_table (m_sys m') = fd_table (m_sys m)"
    unfolding sys_waitpid_def by blast
qed

lemma workloads_files:
  "ring3_files R \<Longrightarrow> run_workloads_until_idle R fuel n m = Some m' \<Longrightarrow> fd_table (m_sys m') = fd_table (m_sys m)"
  by (induction n arbitrary: m) (auto split: option.splits if_splits dest!: shell_yield_files)

lemma spawn_files: "fd_table (snd (builtin_exec_spawn path arg s)) = fd_table s"
  by (simp add: builtin_exec_spawn_def Let_def split_beta split: option.split elf_result.split)

lemma run_sync_files:
  assumes "ring3_files R"
  shows "fd_table (snd (builtin_exec_run_sync B (r3_enter R) img path s)) = fd_table s"
proof -
  have e: "fd_table (snd (usermode_run_entry_stack (r3_enter R) e t s)) = fd_table s" for e t s
    using assms by (intro run_entry_files) (simp add: ring3_files_def)
  have "fd_table (snd (run_image (r3_enter R) info im old s)) = fd_table s" for info im old and s
    by (simp add: run_image_def Let_def split_beta e split: option.split)
  then show ?thesis
    by (simp add: builtin_exec_run_sync_def Let_def split_beta split: option.split fs_read.split elf_result.split)
qed

text \<open>A command that, if it returns, leaves the table well typed.\<close>

definition keeps :: "('d, 'h) world option \<Rightarrow> bool" where
  "keeps r \<longleftrightarrow> (\<forall>w'. r = Some w' \<longrightarrow> vfs_inv (wsys w'))"

named_theorems keeps_intros

lemma vfs_inv_same: "vfs_inv s \<Longrightarrow> fd_table s' = fd_table s \<Longrightarrow> vfs_inv s'"
  by (simp add: vfs_inv_def)

lemma vfs_inv_upd_k [simp]: "vfs_inv (upd_k f s) = vfs_inv s"
  by (simp add: vfs_inv_def)

lemma world_updates [simp]:
  "wsys (set_sys w s) = s" "wsys (set_m w m) = m_sys m" "wsys (set_k w k) = (wsys w)\<lparr>sys_k := k\<rparr>" "wsys (on_k f w) = (wsys w)\<lparr>sys_k := f (wk w)\<rparr>"
  by (simp_all add: on_k_def set_k_def set_sys_def set_m_def)

lemma keeps_if [keeps_intros]: "keeps x \<Longrightarrow> keeps y \<Longrightarrow> keeps (if b then x else y)"
  by simp

lemma keeps_k [keeps_intros]: "vfs_inv (wsys w) \<Longrightarrow> keeps (Some (on_k f w))"
  by (simp add: keeps_def)

lemma keeps_set_k: "vfs_inv (wsys w) \<Longrightarrow> keeps (map_option (set_k w) r)"
  by (auto simp: keeps_def)

lemma cat_loop_inv: "vfs_inv s \<Longrightarrow> cat_loop B loc path fd n s = Some s' \<Longrightarrow> vfs_inv s'"
proof (induction n arbitrary: s)
  case (Suc n)
  obtain r s1 where r: "sys_read B loc fd 256 s = (r, s1)" by fastforce
  then have "vfs_inv s1" using ops_inv(2) [OF Suc.prems(1)] by (metis sys_read_def snd_conv)
  then show ?case using Suc.IH [of "upd_k _ s1"] Suc.prems(2) r by (auto split: outcome.splits if_splits)
qed simp

lemma keeps_cat [keeps_intros]:
  assumes "vfs_inv (wsys w)"
  shows "keeps (cmd_cat E path w)"
proof -
  obtain r s1 where o: "vfs_open (Some path) VFS_O_RDONLY (wsys w) = (r, s1)" by fastforce
  then have i: "vfs_inv s1" using ops_inv(1) [OF assms] by (metis snd_conv)
  have c: "vfs_inv (snd (vfs_close fd s2))" if "cat_loop B loc p fd n s1 = Some s2" for B loc p fd n s2
    using cat_loop_inv [OF i that] ops_inv(4) by blast
  show ?thesis using o i c by (auto simp: keeps_def cmd_cat_def shell_cat_path_def sys_open_def sys_close_def split: option.splits)
qed

lemma keeps_files [keeps_intros]:
  assumes i: "vfs_inv (wsys w)"
  shows "keeps (cmd_ls_all w)" "keeps (cmd_ls E p w)" "keeps (Some (cmd_write a w))" "keeps (Some (cmd_open a w))"
    "keeps (cmd_readfd E a w)" "keeps (Some (cmd_writefd a w))" "keeps (Some (cmd_close a w))"
proof -
  have o: "vfs_inv s1" if "vfs_open p f s = (r, s1)" "vfs_inv s" for p f s r s1 using ops_inv(1) that by (metis snd_conv)
  have r: "vfs_inv s1" if "vfs_read B loc fd n s = (r, s1)" "vfs_inv s" for B loc fd n r s1 s using ops_inv(2) that by (metis snd_conv)
  have wr: "vfs_inv s1" if "vfs_write fd b n s = (r, s1)" "vfs_inv s" for fd b n s r s1 using ops_inv(3) that by (metis snd_conv)
  have c: "vfs_inv s1" if "vfs_close fd s = (r, s1)" "vfs_inv s" for fd s r s1 using ops_inv(4) that by (metis snd_conv)
  show "keeps (cmd_ls_all w)" unfolding cmd_ls_all_def by (rule keeps_set_k [OF i])
  show "keeps (cmd_ls E p w)" unfolding cmd_ls_def by (intro keeps_if keeps_k keeps_cat keeps_set_k i)
  show "keeps (Some (cmd_open a w))" using i by (auto simp: keeps_def cmd_open_def sys_open_def split: prod.splits dest: o)
  show "keeps (cmd_readfd E a w)"
    using i by (auto simp: keeps_def cmd_readfd_def sys_read_def Let_def split: prod.splits outcome.splits if_splits dest: r)
  show "keeps (Some (cmd_writefd a w))" using i by (auto simp: keeps_def cmd_writefd_def sys_write_def Let_def split: prod.splits dest: wr)
  show "keeps (Some (cmd_close a w))" using i by (auto simp: keeps_def cmd_close_def sys_close_def Let_def split: prod.splits dest: c)
  have cw: "vfs_inv (snd (vfs_close fd s))" if "vfs_inv s" for fd s using ops_inv(4) that by blast
  show "keeps (Some (cmd_write a w))"
    using i by (auto simp: keeps_def cmd_write_def sys_open_def sys_write_def sys_close_def Let_def split: prod.splits option.splits dest!: o wr intro!: cw)
qed

lemma ping_loop_files:
  assumes "ring3_files R"
  shows "shell_ping_loop R fuel target seqs counts m = Some (c, m') \<Longrightarrow> fd_table (m_sys m') = fd_table (m_sys m)"
proof (induction seqs arbitrary: counts m)
  case (Cons seq seqs)
  obtain sent received where cs: "counts = (sent, received)" by fastforce
  obtain ok k1 where w: "netfs_write_path (Some ''/net/tx'') (Some (shell_ping_payload target seq)) (mk m) = (ok, k1)" by fastforce
  let ?m = "upd_sys (\<lambda>s. s\<lparr>sys_k := if ok then netfs_flush_tx k1 else k1\<rparr>) m"
  obtain m1 where y: "shell_yields R fuel 5 ?m = Some m1"
    using Cons.prems w by (cases "shell_yields R fuel 5 ?m") (simp_all add: cs Let_def)
  have f: "fd_table (m_sys m1) = fd_table (m_sys m)" using yields_files [OF assms y] by simp
  obtain counts' g where "shell_ping_loop R fuel target seqs counts' (upd_sys (upd_k g) m1) = Some (c, m')"
    using Cons.prems w y by (auto simp: cs Let_def split: option.splits if_splits)
  from Cons.IH [OF this] f show ?case by simp
qed simp

lemma keeps_m: "vfs_inv (wsys w) \<Longrightarrow> (\<And>m. r = Some m \<Longrightarrow> fd_table (m_sys m) = fd_table (wsys w)) \<Longrightarrow> keeps (map_option (set_m w) r)"
  by (auto simp: keeps_def intro: vfs_inv_same)

lemma keeps_starts [keeps_intros]:
  assumes i: "vfs_inv (wsys w)"
  shows "keeps (Some (cmd_fork w))" "keeps (Some (cmd_execve a w))"
proof -
  have sp: "vfs_inv s1" if "builtin_exec_spawn p a (wsys w) = (r, s1)" for p a r s1
    using spawn_files [of p a "wsys w"] that vfs_inv_same [OF i] by simp
  show "keeps (Some (cmd_fork w))" using i by (simp add: keeps_def cmd_fork_def split_beta)
  show "keeps (Some (cmd_execve a w))" using i by (auto simp: keeps_def cmd_execve_def sys_execve_def Let_def split: prod.splits dest: sp)
qed

lemma keeps_tasks [keeps_intros]:
  assumes R: "ring3_files (e_ring3 E)" and i: "vfs_inv (wsys w)"
  shows "keeps (run_sync E fmt args p w)" "keeps (shell_ping_run E a w)"
    "keeps (cmd_waitpid E a w)" "keeps (shell_sim_run E a w)" "keeps (cmd_net_loopback E a w)"
proof -
  have ry: "vfs_inv s1" if "builtin_exec_run_sync B (r3_enter (e_ring3 E)) img pt (wsys w) = (r, s1)" for B img pt r s1
    using run_sync_files [OF R, of B img pt "wsys w"] that vfs_inv_same [OF i] by simp
  have wp: "vfs_inv (m_sys m)" if "sys_waitpid (e_ring3 E) f pid t (w_m w) = Some (ok, m)" for f pid t ok m
    by (rule vfs_inv_same [OF i waitpid_files [OF R that]])
  have pl: "vfs_inv (m_sys m)" if "shell_ping_loop (e_ring3 E) f t ss c (w_m w) = Some (c', m)" for f t ss c c' m
    by (rule vfs_inv_same [OF i ping_loop_files [OF R that]])
  show "keeps (run_sync E fmt args p w)" by (auto simp: keeps_def run_sync_def split: prod.splits outcome.splits dest: ry)
  show "keeps (shell_ping_run E a w)"
    using i by (auto simp: keeps_def shell_ping_run_def Let_def split: prod.splits option.splits if_splits dest: pl)
  show "keeps (cmd_waitpid E a w)" by (auto simp: keeps_def cmd_waitpid_def Let_def dest: wp)
  have y: "vfs_inv (m_sys m)" if "shell_yields (e_ring3 E) f n (w_m (on_k g (on_k h w))) = Some m" for f n g h m
    using yields_files [OF R that] vfs_inv_same [OF i] by simp
  show "keeps (shell_sim_run E a w)" by (auto simp: keeps_def shell_sim_run_def Let_def dest: y)
  have "keeps (cmd_cat E p (set_k w k))" for p k using i by (intro keeps_cat) simp
  then show "keeps (cmd_net_loopback E a w)" using i by (simp add: cmd_net_loopback_def Let_def split_beta keeps_def)
qed

lemma keeps_run [keeps_intros]:
  assumes R: "ring3_files (e_ring3 E)" and i: "vfs_inv (wsys w)"
  shows "keeps (cmd_run E a w)"
proof -
  obtain path rest where a: "split_arg 48 a = (path, rest)" by fastforce
  obtain r s1 where e: "sys_execve path rest (wsys w) = (r, s1)" by fastforce
  have s1: "vfs_inv s1" using spawn_files [of path "Some rest" "wsys w"] e vfs_inv_same [OF i] by (simp add: sys_execve_def)
  have w: "vfs_inv (m_sys m)" if "sys_waitpid (e_ring3 E) f pid t ((w_m w)\<lparr>m_sys := s1\<rparr>) = Some (ok, m)" for f pid t ok m
    using waitpid_files [OF R that] vfs_inv_same [OF s1] by simp
  have "keeps (case r of None \<Rightarrow> Some (set_sys w (upd_k (say (ln ''run %s failed'') [Str path]) s1))
      | Some pid \<Rightarrow> map_option (\<lambda>(_, m). set_m w m) (sys_waitpid (e_ring3 E) (e_fuel E) pid 500 ((w_m w)\<lparr>m_sys := s1\<rparr>)))"
    using s1 w by (auto simp: keeps_def split: option.splits)
  then show ?thesis
    unfolding cmd_run_def a Let_def prod.case e by (intro keeps_if keeps_k i keeps_tasks R) simp
qed

lemma keeps_traces [keeps_intros]:
  assumes R: "ring3_files (e_ring3 E)" and i: "vfs_inv (wsys w)"
  shows "keeps (cmd_trace_stop E w)" "keeps (cmd_replay_session E a w)" "keeps (cmd_traceview E a w)" "keeps (cmd_demo_record E a w)"
    "keeps (cmd_demo_replay E a w)"
proof -
  have p: "vfs_inv (wsys w3)" if "run_profile E prof w2 = Some w3" "fd_table (wsys w2) = fd_table (wsys w)" for prof w2 w3
    using that vfs_inv_same [OF i] by (auto simp: run_profile_def Let_def simp del: run_workloads_until_idle.simps dest!: workloads_files [OF R])
  show "keeps (cmd_trace_stop E w)" using i by (auto simp: keeps_def cmd_trace_stop_def)
  show "keeps (cmd_replay_session E a w)" "keeps (cmd_traceview E a w)"
    unfolding cmd_replay_session_def cmd_traceview_def by (rule keeps_set_k [OF i])+
  show "keeps (cmd_demo_record E a w)"
    using i by (auto simp: keeps_def cmd_demo_record_def Let_def split: if_splits option.splits dest!: p)
  show "keeps (cmd_demo_replay E a w)"
    using i by (auto simp: keeps_def cmd_demo_replay_def Let_def split: if_splits option.splits dest!: p)
qed



end
