(* ===== verification/Boot.thy ===== *)
theory Boot
  imports Shell_Correctness
begin

text \<open>
  The start of the kernel (\<open>kernel_main\<close> in \<open>kernel/kernel.c\<close>): the initialisation of every
  component in the order of the code, up to the first prompt of the shell.  What the loader and
  the processor supply, the memory map, the answers of \<open>cpuid\<close> and \<open>rdmsr\<close>, the addresses of the
  descriptor tables and of the interrupt stubs, are parameters.
\<close>

section \<open>Definitions\<close>

record ('d, 'h) boot =
  bt_env :: "('d, 'h) env"
  bt_e820 :: "e820_entry list"
  bt_cpuid :: cpuid_query
  bt_rdmsr :: "u32 \<Rightarrow> u64"
  bt_gdt_addr :: u64
  bt_tss_addr :: u64
  bt_stack_top :: u64
  bt_stubs :: "nat \<Rightarrow> u64"
  bt_sysstub :: u64
  bt_line :: "char list"

text \<open>The components that keep their state in the kernel record, from \<open>console_init\<close> to \<open>netfs_init\<close>.\<close>

definition init_kernel :: "e820_entry list \<Rightarrow> 'd kernel \<Rightarrow> 'd kernel" where
  "init_kernel entries k =
     (let k1 = k\<lparr>k_con := console_clear (console_init (k_con k))\<rparr>;
          k2 = k1\<lparr>k_vm := aspace_init ((k_vm k1)\<lparr>vm_mem := memory_init entries (vm_mem (k_vm k1))\<rparr>)\<rparr>;
          k3 = sched_init (power_init (keyboard_init k2))
      in netfs_init (k3\<lparr>k_trace := trace_init (k_trace k3)\<rparr>))"

definition init_system :: "'d system \<Rightarrow> 'd system" where
  "init_system s = usermode_init (syscall_init (vfs_init s))"

text \<open>\<open>fs_init\<close> with its messages.\<close>

definition init_files :: "'d blockdev \<Rightarrow> 'd kernel \<Rightarrow> 'd kernel" where
  "init_files B k =
     (let (r, fs) = fs_init B (k_fs k); k1 = k\<lparr>k_fs := fs\<rparr>
      in case r of
           Fs_No_Ata \<Rightarrow> say (ln ''fs: ata unavailable'') [] k1
         | Fs_Format_Failed \<Rightarrow> say (ln ''fs: format failed'') [] k1
         | Fs_Ready \<Rightarrow> k1)"

definition banner :: "'d kernel \<Rightarrow> 'd kernel" where
  "banner k =
     (let k1 = both_write (ln ''BB kernel booted'') k; m = vm_mem (k_vm k1)
      in say (ln ''memory=%lu bytes regions=%lu'') [Num (total_bytes m), Num (region_count m)] k1)"

text \<open>The interrupt table before \<open>idt_init\<close>.\<close>

definition idt_bss :: idt_state where
  "idt_bss = \<lparr>idt_table = replicate 256 idt_entry_zero, irq_counts = replicate 256 0, idt_limit = 0\<rparr>"

definition kernel_main :: "('d, 'h) boot \<Rightarrow> 'h \<Rightarrow> 'd kernel \<Rightarrow> gdt_state \<times> ('d, 'h) shell" where
  "kernel_main b h k =
     (let P = e_ports (bt_env b);
          gdt = gdt_init (bt_gdt_addr b) (bt_tss_addr b) (bt_stack_top b);
          (ms, h1) = mouse_init P mouse_bss (serial_init P h);
          s = upd_k (init_files (e_dev (bt_env b))) (init_system (system_bss (init_kernel (bt_e820 b) k)));
          bd = interrupts_init P (bt_stubs b) (bt_sysstub b)
            \<lparr>b_sys = s, b_idt = idt_bss, b_mouse = ms, b_hw = h1\<rparr>;
          w = \<lparr>w_m = \<lparr>m_sys = b_sys bd, m_threads = Map.empty\<rparr>, w_idt = b_idt bd, w_mouse = b_mouse bd, w_hw = b_hw bd,
               w_smp = smp_init (bt_cpuid b) (bt_rdmsr b), w_apic = apic_init (bt_cpuid b) (bt_rdmsr b)\<rparr>
      in (gdt, shell_start (bt_line b) (on_k banner w)))"

text \<open>\<open>kernel_panic\<close>: the message; the processor then halts forever.\<close>

definition kernel_panic :: "char list \<Rightarrow> 'd kernel \<Rightarrow> 'd kernel" where
  "kernel_panic message k = say (ln ''PANIC: %s'') [Str message] k"

section \<open>Correctness\<close>

lemma init_kernel_fields:
  assumes k_def: "k = init_kernel es (kernel_bss v fs)"
  shows "\<exists>v'. k_vm k = aspace_init v' \<and> k_sched k = k_sched (sched_init (kernel_bss (aspace_init v') fs)) \<and> vm_mem v' = memory_init es (vm_mem v)"
    "k_net k = k_net (netfs_init k)" "kb_head (k_kbd k) = kb_tail (k_kbd k)" "tr_replay (k_trace k) = replay_zero"
    "\<not> tr_recording (k_trace k)" "k_active_workloads k = 0" "k_fs k = fs" "k_ser k = []"
proof -
  let ?v = "v\<lparr>vm_mem := memory_init es (vm_mem v)\<rparr>"
  have "k_vm k = aspace_init ?v \<and> k_sched k = k_sched (sched_init (kernel_bss (aspace_init ?v) fs)) \<and> vm_mem ?v = memory_init es (vm_mem v)"
    by (simp add: k_def init_kernel_def kernel_bss_def netfs_init_def sched_init_def power_init_def keyboard_init_def Let_def)
  then show "\<exists>v'. k_vm k = aspace_init v' \<and> k_sched k = k_sched (sched_init (kernel_bss (aspace_init v') fs)) \<and> vm_mem v' = memory_init es (vm_mem v)" by blast
qed (simp_all add: k_def init_kernel_def kernel_bss_def netfs_init_def sched_init_def power_init_def keyboard_init_def trace_init_def trace_boot_def Let_def)

lemma init_files_fields [simp]:
  "k_vm (init_files B k) = k_vm k" "k_sched (init_files B k) = k_sched k" "k_net (init_files B k) = k_net k" "k_kbd (init_files B k) = k_kbd k"
  "k_trace (init_files B k) = k_trace k" "k_active_workloads (init_files B k) = k_active_workloads k"
  by (simp_all add: init_files_def Let_def split: prod.split fs_boot.split)

lemma banner_fields [simp]:
  "k_vm (banner k) = k_vm k" "k_sched (banner k) = k_sched k" "k_net (banner k) = k_net k" "k_kbd (banner k) = k_kbd k"
  "k_trace (banner k) = k_trace k" "k_active_workloads (banner k) = k_active_workloads k" "k_hz (banner k) = k_hz k"
  by (simp_all add: banner_def Let_def both_write_def)

lemma prompt_fields [simp]:
  "k_vm (prompt k) = k_vm k" "k_sched (prompt k) = k_sched k" "k_net (prompt k) = k_net k" "k_kbd (prompt k) = k_kbd k"
  "k_trace (prompt k) = k_trace k" "k_active_workloads (prompt k) = k_active_workloads k" "k_hz (prompt k) = k_hz k"
  by (simp_all add: prompt_def shell_write_def both_write_def)

text \<open>A machine whose only task is the shell, fresh from \<open>sched_init\<close>.\<close>

lemma fresh_machine:
  assumes s: "k_sched (mk m) = k_sched (sched_init (kernel_bss (aspace_init v) fs))" and vm: "k_vm (mk m) = aspace_init v"
    and t: "m_threads m = Map.empty" and rp: "\<not> rp_active (tr_replay (k_trace (mk m)))" and ac: "k_active_workloads (mk m) = 0"
  shows "startable (\<lambda>_. 0) 7 m" "surplus m = 0" "work m = 0"
proof -
  let ?k0 = "kernel_bss (aspace_init v) fs"
  have k0: "k_vm ?k0 = aspace_init v" "k_sched ?k0 = sched_zero" by (simp_all add: kernel_bss_def)
  note ok = sched_init_ok [OF k0]
  obtain t0 where t0: "tasks (k_sched (mk m)) = t0 # replicate 7 task_zero" "t_aspace_id t0 = 1"
    by (simp add: s sched_init_def kernel_bss_def sched_zero_def Let_def MAX_TASKS_def replicate_8 init_table) (simp add: numeral_eq_Suc)
  have c: "current_task (k_sched (mk m)) = 0" "next_pid (k_sched (mk m)) = 2"
    by (simp_all add: s sched_init_def kernel_bss_def sched_zero_def Let_def)
  have si: "sched_inv (k_sched (mk m))" using ok s by simp
  have "accounted (\<lambda>_. 0) (mk m) = accounted (\<lambda>_. 0) (sched_init ?k0)" unfolding accounted_def s vm ok(6) ..
  then have acc: "accounted (\<lambda>_. 0) (mk m)" using ok(2) by simp
  have nl: "\<not> task_live (mtask m i)" if "0 < i" "i < MAX_TASKS" for i
    using that task_zero_free(2) by (cases i) (simp_all add: mtask_def t0 task_live_def MAX_TASKS_def)
  have l0: "task_live (mtask m 0)" using live_iff [OF si, of 0] c by (simp add: mtask_def MAX_TASKS_def)
  have mi: "machine_inv (\<lambda>_. 0) m" using si acc rp nl l0 t by (auto simp: machine_inv_def)
  have fs: "free_slots (k_sched (mk m)) = 7" using task_zero_free(2) by (simp add: free_slots_def t0 task_live_def)
  have a: "next_aspace_id (k_vm (mk m)) = 2" "kernel_aspace_id (k_vm (mk m)) = 1" by (simp_all add: vm init_table)
  show "startable (\<lambda>_. 0) 7 m" using mi fs a c t0 by (simp add: startable_def) (simp add: vm init_map)
  show "work m = 0" using nl by (simp add: work_def task_work_def)
  have "workload_tasks m = {}" using nl by (auto simp: workload_tasks_def)
  then show "surplus m = 0" by (simp add: surplus_def ac)
qed


definition demo_boot :: "(unit, u8 list) boot" where
  "demo_boot = \<lparr>bt_env = demo_env, bt_e820 = [\<lparr>e_base = 0x100000, e_length = 0x7f00000, e_type = 1, e_acpi = 0\<rparr>], bt_cpuid = demo_cpuid,
     bt_rdmsr = (\<lambda>_. 0xfee00900), bt_gdt_addr = 0x6000, bt_tss_addr = 0x6100, bt_stack_top = 0x9f000, bt_stubs = (\<lambda>i. 0x10000 + word_of_nat i * 16),
     bt_sysstub = 0x10800, bt_line = replicate 128 NUL\<rparr>"


end
