(* ===== verification/Recording.thy ===== *)
theory Recording
  imports Tasks
begin

text \<open>
  While tasks run and are scheduled, the recorder keeps recording: its session, profile and start
  time stay, its buffers stay in bounds, and no file is written.
\<close>

lemma rec_same_fields [simp]:
  "rec_same k (k'\<lparr>k_vm := v\<rparr>) = rec_same k k'" "rec_same k (k'\<lparr>k_sched := s\<rparr>) = rec_same k k'"
  "rec_same k (k'\<lparr>k_active_workloads := a\<rparr>) = rec_same k k'" "rec_same k (say fmt args k') = rec_same k k'"
  "rec_same (k\<lparr>k_vm := v\<rparr>) k' = rec_same k k'" "rec_same (k\<lparr>k_sched := s\<rparr>) k' = rec_same k k'"
  "rec_same (k\<lparr>k_active_workloads := a\<rparr>) k' = rec_same k k'"
  by (simp_all add: rec_same_def)

lemma rec_same_switch: "switch_to n k = Some k' \<Longrightarrow> rec_same k k'"
  by (auto simp: switch_to_def Let_def intro: rec_same_trans [OF _ rec_same_trace_record] split: if_splits)

lemma rec_same_yield: "sched_yield k = Some k' \<Longrightarrow> rec_same k k'"
  by (auto simp: sched_yield_def Let_def dest!: rec_same_switch split: if_splits)

lemma rec_same_exit: "task_exit k = Some k' \<Longrightarrow> rec_same k k'"
  by (auto simp: task_exit_def Let_def dest!: rec_same_switch split: option.splits)

lemma rec_same_spawn: "rec_same k (snd (sched_spawn name e a k))"
  by (simp add: sched_spawn_def sched_spawn_with_parent_def sched_spawn_with_parent_aspace_def Let_def split: prod.split option.split)

lemma rec_same_profile: "workload_run_profile p k = (ok, k') \<Longrightarrow> rec_same k k'"
proof -
  have w: "rec_same k (workload_spawn name e a fmt args k)" for name e a fmt args and k :: "'a kernel"
    using rec_same_spawn [of "k\<lparr>k_active_workloads := k_active_workloads k + 1\<rparr>" "Some name" e a]
    by (auto simp: workload_spawn_def Let_def rec_same_def split: prod.split)
  have f: "rec_same k (fold (\<lambda>i. workload_spawn name e i fmt [Num i]) is k)" for name e fmt "is" and k :: "'a kernel"
    by (induction "is" arbitrary: k) (auto intro: rec_same_trans [OF w])
  show "workload_run_profile p k = (ok, k') \<Longrightarrow> rec_same k k'"
    unfolding workload_run_profile_def workload_attack_sim_def workload_sysload_def workload_lifecycle_test_def
    using f w by (auto simp del: fold.simps split: if_splits)
qed

lemma task_step_rec:
  assumes R: "ring3_quiet R" and inv: "machine_inv ext m" and c: "current_task (k_sched (mk m)) \<noteq> 0" and st: "task_step R m = Some m'"
  shows "rec_same (mk m) (mk m')"
proof -
  let ?c = "current_task (k_sched (mk m))"
  obtain a s where b: "block R (thread_of m ?c) (m_sys m) = (a, s)" by fastforce
  have si: "sched_inv (k_sched (mk m))" using inv by (simp add: machine_inv_def)
  then have "?c < MAX_TASKS" "task_live (mtask m ?c)" using live_iff [OF si, of ?c] by (auto simp: sched_inv_def mtask_def)
  then have ok: "thread_ok (ping_jobs (m_sys m)) (thread_of m ?c)" using inv c by (simp add: machine_inv_def)
  have "rec_same (mk m) (sys_k s)"
    using block_ok [OF R ok] b by (auto simp: block_spec_def quiet_def)
  moreover have "rec_same (sys_k s) (mk m')"
    using st b by (cases a) (auto simp: task_step_def Let_def set_kernel_def intro: rec_same_yield rec_same_exit)
  ultimately show ?thesis by (rule rec_same_trans)
qed

lemma run_others_rec:
  assumes R: "ring3_quiet R"
  shows "machine_inv ext m \<Longrightarrow> run_others R fuel m = Some m' \<Longrightarrow> rec_same (mk m) (mk m')"
proof (induction fuel arbitrary: m)
  case 0
  then show ?case by (auto split: if_splits)
next
  case (Suc fuel)
  show ?case
  proof (cases "current_task (k_sched (mk m)) = 0")
    case True
    then show ?thesis using Suc.prems by auto
  next
    case False
    then obtain m1 where m1: "task_step R m = Some m1" "machine_inv ext m1"
      using task_step_progress [OF R Suc.prems(1)] by blast
    then have "rec_same (mk m1) (mk m')" using Suc.IH [of m1] Suc.prems(2) False by simp
    then show ?thesis using task_step_rec [OF R Suc.prems(1) False m1(1)] by (rule rec_same_trans [rotated])
  qed
qed

lemma shell_yield_rec:
  assumes R: "ring3_quiet R" and inv: "machine_inv ext m" and y: "shell_yield R fuel m = Some m'"
  shows "rec_same (mk m) (mk m')"
proof -
  obtain k' where k': "sched_yield (mk m) = Some k'"
    using y by (auto simp: shell_yield_def set_kernel_def split: option.splits)
  let ?m = "upd_sys (\<lambda>s. s\<lparr>sys_k := k'\<rparr>) m"
  have "rec_same (mk ?m) (mk m')"
    using run_others_rec [OF R yield_keeps(1) [OF inv k']] y by (simp add: shell_yield_def set_kernel_def k')
  then show ?thesis using rec_same_yield [OF k'] by (auto intro: rec_same_trans)
qed

lemma run_workloads_rec:
  assumes R: "ring3_quiet R"
  shows "machine_inv ext m \<Longrightarrow> run_workloads_until_idle R fuel n m = Some m' \<Longrightarrow> rec_same (mk m) (mk m')"
proof (induction n arbitrary: m)
  case (Suc n)
  show ?case
  proof (cases "(workload_has_active (mk m) \<or> sched_has_ready (mk m)) \<and>
      \<not> (rp_active (tr_replay (k_trace (mk m))) \<and> rp_failed (tr_replay (k_trace (mk m))))")
    case False
    then show ?thesis using Suc.prems(2) by (auto split: if_splits)
  next
    case True
    then obtain m1 where m1: "shell_yield R fuel m = Some m1" "run_workloads_until_idle R fuel n m1 = Some m'"
      using Suc.prems(2) by (auto split: option.splits if_splits)
    have "machine_inv ext m1" using shell_yield_keeps [OF R Suc.prems(1) m1(1)] by simp
    from Suc.IH [OF this m1(2)] shell_yield_rec [OF R Suc.prems(1) m1(1)] show ?thesis
      by (rule rec_same_trans [rotated])
  qed
qed simp

section \<open>A fresh start of the scheduler\<close>

text \<open>With the shell alone, \<open>sched_prepare_replay\<close> keeps all invariants although it resets the pids.\<close>

lemma prepare_replay_tasks:
  assumes len: "length (tasks s) = MAX_TASKS"
    and s'_def: "s' = k_sched (sched_prepare_replay (k\<lparr>k_sched := s\<rparr>))"
  shows "length (tasks s') = MAX_TASKS" "tasks s' ! 0 = tasks s ! 0" "current_task s' = current_task s" "next_pid s' = 2"
    "\<And>i. 0 < i \<Longrightarrow> i < MAX_TASKS \<Longrightarrow>
      tasks s' ! i = (if task_visible (tasks s ! i) \<and> t_state (tasks s ! i) = Task_Zombie then task_zero else tasks s ! i)"
    "live s' a = live s a" "free_slots s' = free_slots s"
proof -
  let ?clear = "\<lambda>t. if task_visible t \<and> t_state t = Task_Zombie then task_zero else t"
  obtain t0 ts where ts: "tasks s = t0 # ts" using len by (cases "tasks s") (auto simp: MAX_TASKS_def)
  have s': "tasks s' = t0 # map ?clear ts" by (simp add: s'_def sched_prepare_replay_def Let_def ts)
  show "length (tasks s') = MAX_TASKS" "tasks s' ! 0 = tasks s ! 0" using len by (simp_all add: s' ts)
  show "current_task s' = current_task s" "next_pid s' = 2" by (simp_all add: s'_def sched_prepare_replay_def Let_def)
  show "tasks s' ! i = (if task_visible (tasks s ! i) \<and> t_state (tasks s ! i) = Task_Zombie then task_zero else tasks s ! i)"
    if "0 < i" "i < MAX_TASKS" for i
    using that len by (cases i) (simp_all add: s' ts)
  have c: "task_live (?clear t) = task_live t" "task_live t \<Longrightarrow> ?clear t = t" for t
    using task_zero_free(2) by (auto simp: task_live_def)
  have "length (filter (\<lambda>t. task_live t \<and> t_aspace_id t = a) (map ?clear xs)) = length (filter (\<lambda>t. task_live t \<and> t_aspace_id t = a) xs)" for xs
    using task_zero_free(2) by (induction xs) (auto simp: task_live_def)
  then show "live s' a = live s a" by (simp add: live_def s' ts)
  have "length (filter (\<lambda>t. \<not> task_live t) (map ?clear xs)) = length (filter (\<lambda>t. \<not> task_live t) xs)" for xs
    using c by (induction xs) auto
  then show "free_slots s' = free_slots s" by (simp add: free_slots_def s' ts)
qed

lemma only_shell_work:
  assumes "only_shell m" shows "work m = 0"
  using assms by (simp add: work_def task_work_def only_shell_def)

lemma only_shell_slots:
  assumes "only_shell m" and "length (tasks (k_sched (mk m))) = MAX_TASKS"
  shows "free_slots (k_sched (mk m)) = 7"
proof -
  have "filter (\<lambda>t. \<not> task_live t) (drop 1 (tasks (k_sched (mk m)))) = drop 1 (tasks (k_sched (mk m)))"
    using assms by (auto simp: filter_id_conv in_set_conv_nth only_shell_def mtask_def MAX_TASKS_def)
  then show ?thesis using assms(2) by (simp add: free_slots_def MAX_TASKS_def)
qed

lemma prepare_replay_startable:
  assumes st: "startable ext n m" and alone: "only_shell m" and pid: "t_pid (mtask m 0) = 1"
  defines "m' \<equiv> on_mk sched_prepare_replay m"
  shows "startable ext 7 m'" "only_shell m'" "surplus m' = surplus m"
proof -
  let ?s = "k_sched (mk m)" and ?s' = "k_sched (mk m')"
  note sd = st [unfolded startable_def]
  have mi: "machine_inv ext m" and c0: "current_task ?s = 0" using sd by blast+
  then have si: "sched_inv ?s" and acc: "accounted ext (mk m)" by (simp_all add: machine_inv_def)
  have len: "length (tasks ?s) = MAX_TASKS" using si by (simp add: sched_inv_def)
  have k': "mk m' = sched_prepare_replay (mk m)" "m_threads m' = m_threads m" "ping_jobs (m_sys m') = ping_jobs (m_sys m)"
    by (simp_all add: m'_def upd_k_def)
  have same: "k_vm (mk m') = k_vm (mk m)" "k_trace (mk m') = k_trace (mk m)" "k_active_workloads (mk m') = k_active_workloads (mk m)"
    by (simp_all add: k' sched_prepare_replay_def Let_def)
  have s': "?s' = k_sched (sched_prepare_replay ((mk m)\<lparr>k_sched := ?s\<rparr>))" by (simp add: k')
  note p = prepare_replay_tasks [OF len s']
  have live0: "\<not> task_live (tasks ?s ! i)" if "0 < i" "i < MAX_TASKS" for i using alone that by (simp add: only_shell_def mtask_def)
  have other: "\<not> task_visible (tasks ?s' ! i)" "t_state (tasks ?s' ! i) \<noteq> Task_Running" if "0 < i" "i < MAX_TASKS" for i
    using p(5) [OF that] live0 [OF that] task_zero_free si that c0
    by (auto simp: task_live_def sched_inv_def task_zero_def)
  have "sched_inv ?s'"
    unfolding sched_inv_def p(1,3,4) c0
  proof (intro conjI allI impI)
    show "(0::nat) < MAX_TASKS" by (simp add: MAX_TASKS_def)
    show "task_visible (tasks ?s' ! 0)" using si c0 p(2) by (simp add: sched_inv_def)
    show "t_state (tasks ?s' ! i) = Task_Running \<longleftrightarrow> i = 0" if "i < MAX_TASKS" for i
      using other(2) [of i] p(2) si c0 that by (cases i) (auto simp: sched_inv_def)
    show "t_pid (tasks ?s' ! i) < 2" if "i < MAX_TASKS" "task_visible (tasks ?s' ! i)" for i
      using other(1) [of i] p(2) pid that by (cases i) (auto simp: mtask_def)
    show "i = j" if "i < MAX_TASKS" "j < MAX_TASKS" "task_visible (tasks ?s' ! i) \<and> task_visible (tasks ?s' ! j) \<and> t_pid (tasks ?s' ! i) = t_pid (tasks ?s' ! j)" for i j
      using other(1) [of i] other(1) [of j] that by (cases i; cases j) auto
  qed simp
  moreover have "accounted ext (mk m')" using acc unfolding accounted_def same p(6) .
  moreover have lv: "task_live (mtask m' i) = task_live (mtask m i)" if "i < MAX_TASKS" for i
    using other(1) [of i] live0 [of i] p(2) that by (cases i) (auto simp: mtask_def task_live_def)
  moreover have th0: "thread_of m' i = thread_of m i" if "i = 0" for i
    using p(2) that by (simp add: thread_of_def k' mtask_def split: option.split)
  ultimately have mi': "machine_inv ext m'"
    using mi alone by (auto simp: machine_inv_def same k'(2) only_shell_def MAX_TASKS_def)
  show only': "only_shell m'" using alone lv by (simp add: only_shell_def)
  show "surplus m' = surplus m"
    using only_shell_surplus [OF alone] only_shell_surplus [OF only'] same by simp
  have "free_slots ?s' = 7" using only_shell_slots [OF only'] p(1) by simp
  then show "startable ext 7 m'"
    using mi' sd p(2) by (simp add: startable_def same p(3,4))
qed

text \<open>Everything that says how the tasks stand depends on these parts of the machine only.\<close>

lemma machine_frame:
  assumes "k_sched (mk m') = k_sched (mk m)" and "k_vm (mk m') = k_vm (mk m)" and "m_threads m' = m_threads m"
    and "ping_jobs (m_sys m') = ping_jobs (m_sys m)" and "tr_replay (k_trace (mk m')) = tr_replay (k_trace (mk m))"
    and "k_active_workloads (mk m') = k_active_workloads (mk m)"
  shows "machine_inv ext m' = machine_inv ext m" "only_shell m' = only_shell m" "startable ext n m' = startable ext n m"
    "surplus m' = surplus m"
proof -
  have mt: "mtask m' i = mtask m i" for i by (simp add: mtask_def assms)
  then have th: "thread_of m' i = thread_of m i" for i by (simp add: thread_of_def assms split: option.split)
  have ac: "accounted ext (mk m') = accounted ext (mk m)" by (simp only: accounted_def assms)
  show mi: "machine_inv ext m' = machine_inv ext m" by (simp add: machine_inv_def mt th ac assms)
  show "only_shell m' = only_shell m" by (simp add: only_shell_def mt)
  show "startable ext n m' = startable ext n m" by (simp only: startable_def mi assms)
  show "surplus m' = surplus m" by (simp add: surplus_def workload_tasks_def mt th assms)
qed

end
