(* ===== verification/Determinism.thy ===== *)
theory Determinism
  imports Recording "HOL-Library.Sublist"
begin

text \<open>
  Why a replay repeats the recording.  A replaying kernel is related to a recording one when the
  same tasks live in the same slots with the same programs and states, and the replay has matched
  exactly the events recorded so far.  The relation is kept by \<open>trace_record\<close>, by the scheduler,
  which follows the recorded switches, and by the code of the workloads; so a replay that starts
  from a related state runs through the whole session without a difference.
\<close>

section \<open>The relation\<close>

text \<open>Two schedulers that differ in bookkeeping and in dead slots only.\<close>

definition tasks_sim :: "sched_state \<Rightarrow> sched_state \<Rightarrow> bool" where
  "tasks_sim s s' \<longleftrightarrow> length (tasks s) = MAX_TASKS \<and> length (tasks s') = MAX_TASKS \<and> current_task s' = current_task s \<and> next_pid s' = next_pid s \<and>
     (\<forall>i < MAX_TASKS. task_live (tasks s' ! i) = task_live (tasks s ! i) \<and>
        (task_live (tasks s ! i) \<longrightarrow> program_of (tasks s' ! i) = program_of (tasks s ! i) \<and> t_state (tasks s' ! i) = t_state (tasks s ! i)))"

text \<open>\<open>E\<close> is the recorded session; the replay is as far in it as the recorder.\<close>

definition trace_sim :: "trace_event list \<Rightarrow> trace_state \<Rightarrow> trace_state \<Rightarrow> bool" where
  "trace_sim E t t' \<longleftrightarrow> tr_recording t \<and> trace_inv t \<and> \<not> rp_active (tr_replay t) \<and>
     rp_active (tr_replay t') \<and> \<not> rp_failed (tr_replay t') \<and> replay_events t' = E \<and> trace_inv t' \<and>
     unat (rp_event_index (tr_replay t')) = length (recorded t)"

definition ksim :: "trace_event list \<Rightarrow> 'd kernel \<Rightarrow> 'd kernel \<Rightarrow> bool" where
  "ksim E k r \<longleftrightarrow> tasks_sim (k_sched k) (k_sched r) \<and> trace_sim E (k_trace k) (k_trace r) \<and>
     used_bytes (vm_mem (k_vm r)) = used_bytes (vm_mem (k_vm k)) \<and> k_active_workloads r = k_active_workloads k"

abbreviation recs :: "'d kernel \<Rightarrow> trace_event list" where
  "recs k \<equiv> recorded (k_trace k)"

section \<open>Events\<close>

lemma ksim_say [simp]: "ksim E (say f a k) r = ksim E k r" "ksim E k (say f a r) = ksim E k r"
  by (simp_all add: ksim_def)

lemma sim_pid:
  assumes "tasks_sim (k_sched k) (k_sched r)" and "sched_inv (k_sched k)"
  shows "sched_current_pid r = sched_current_pid k" "task_live (cur_task (k_sched k))"
proof -
  have c: "current_task (k_sched k) < MAX_TASKS" using assms(2) by (simp add: sched_inv_def)
  show "task_live (cur_task (k_sched k))" using live_iff [OF assms(2) c] by simp
  then show "sched_current_pid r = sched_current_pid k"
    using assms(1) c by (simp add: tasks_sim_def sched_current_pid_def program_of_def)
qed

lemma record_key:
  assumes "tr_recording t" "trace_inv t" "\<not> rp_active (tr_replay t)" "ty \<noteq> TRACE_EVENT_IRQ" "length (recorded t) < TRACE_BUFFER_CAP"
    and "trace_step ty pid ticks a b t = (t', c)"
  shows "\<exists>e. recorded t' = recorded t @ [e] \<and> event_key e = (pid, ty, a, b)" "tr_recording t'" "trace_inv t'" "\<not> rp_active (tr_replay t')"
proof -
  let ?e = "\<lparr>ev_id = tr_next_event_id t, ev_timestamp = ticks, ev_pid = pid, ev_type = ty,
     ev_size = word_of_nat EVENT_SIZE, ev_data0 = a, ev_data1 = b\<rparr>"
  let ?t1 = "t\<lparr>tr_next_event_id := tr_next_event_id t + 1\<rparr>"
  have t1: "trace_inv ?t1" "tr_recording ?t1" "recorded ?t1 = recorded t" "tr_replay ?t1 = tr_replay t"
    using assms by (simp_all add: trace_inv_def recorded_def)
  have t': "t' = fst (record_step ?e ?t1)"
    using assms(3,4,6) by (simp add: trace_step_def Let_def prod_eq_iff split: if_splits)
  note k = record_step_keeps [OF t1(1,2), of ?e, folded t']
  show "\<exists>e. recorded t' = recorded t @ [e] \<and> event_key e = (pid, ty, a, b)"
    using k(8) t1(3) assms(5) by (intro exI [of _ ?e]) (simp add: event_key_def)
  show "tr_recording t'" "trace_inv t'" "\<not> rp_active (tr_replay t')" using k(1-3) t1(4) assms(3) by simp_all
qed

text \<open>A replay step against the event at the current index.\<close>

lemma replay_key:
  assumes act: "rp_active (tr_replay t)" and nf: "\<not> rp_failed (tr_replay t)" and inv: "trace_inv t" and ty: "ty \<noteq> TRACE_EVENT_IRQ"
    and n: "unat (rp_event_index (tr_replay t)) = n" "n < length (replay_events t)" and key: "event_key (replay_events t ! n) = (pid, ty, a, b)"
    and st: "trace_step ty pid ticks a b t = (t', c)"
  shows "rp_active (tr_replay t')" "\<not> rp_failed (tr_replay t')" "trace_inv t'" "replay_events t' = replay_events t"
    "unat (rp_event_index (tr_replay t')) = n + 1" "c = None"
proof -
  have cnt: "n < unat (rp_event_count (tr_replay t))" "n < length (tr_replay_buffer t)"
    using n(2) by (simp_all add: replay_events_def)
  have ev: "replay_events t ! n = tr_replay_buffer t ! n" using cnt by (simp add: replay_events_def)
  have lt: "\<not> rp_event_index (tr_replay t) \<ge> rp_event_count (tr_replay t)" using n(1) cnt by (simp add: word_le_nat_alt)
  have suc: "unat (rp_event_index (tr_replay t) + 1) = n + 1"
    using n(1) cnt inv by (subst unat_add_no_wrap) (simp_all add: trace_inv_def TRACE_BUFFER_CAP_def)
  define rp where "rp = tr_replay t"
  have t': "t' = t\<lparr>tr_next_event_id := tr_next_event_id t + 1, tr_replay := rp\<lparr>rp_expected := tr_replay_buffer t ! n,
      rp_virtual_ticks := ev_timestamp (tr_replay_buffer t ! n),
      rp_actual := \<lparr>ev_id = ev_id (tr_replay_buffer t ! n), ev_timestamp = ev_timestamp (tr_replay_buffer t ! n), ev_pid = pid, ev_type = ty,
        ev_size = word_of_nat EVENT_SIZE, ev_data0 = a, ev_data1 = b\<rparr>,
      rp_event_index := rp_event_index rp + 1\<rparr>\<rparr>" "c = None"
    using st act ty lt n(1) key [unfolded ev]
    by (auto simp: trace_step_def replay_step_def Let_def event_differs_def event_key_def rp_def)
  show "rp_active (tr_replay t')" "\<not> rp_failed (tr_replay t')" "trace_inv t'" "replay_events t' = replay_events t"
    "unat (rp_event_index (tr_replay t')) = n + 1" "c = None"
    using act nf inv suc t'(2) by (simp_all add: t'(1) rp_def trace_inv_def replay_events_def)
qed

lemma tasks_sim_same:
  assumes sim: "tasks_sim s s'" and same: "sched_same s s1" "sched_same s' s1'"
  shows "tasks_sim s1 s1'"
proof -
  have len: "length (tasks s) = MAX_TASKS" "length (tasks s') = MAX_TASKS" using sim by (simp_all add: tasks_sim_def)
  have st: "t_state (tasks s1 ! i) = t_state (tasks s ! i)" "t_state (tasks s1' ! i) = t_state (tasks s' ! i)" if "i < MAX_TASKS" for i
    using same that len by (simp_all add: sched_same_def ident_def)
  note d = sched_same_D [OF same(1)] sched_same_D [OF same(2)]
  show ?thesis
    using sim same d st len unfolding tasks_sim_def by (simp add: sched_same_def)
qed

text \<open>What a running system adds: at most \<open>n\<close> events; the memory, the kinds of the address spaces and
  the shell's identity stay.\<close>

definition extends :: "nat \<Rightarrow> 'd kernel \<Rightarrow> 'd kernel \<Rightarrow> bool" where
  "extends n k k' \<longleftrightarrow> prefix (recs k) (recs k') \<and> length (recs k') \<le> length (recs k) + n \<and>
     vm_mem (k_vm k') = vm_mem (k_vm k) \<and> kernel_aspace_id (k_vm k') = kernel_aspace_id (k_vm k) \<and> next_aspace_id (k_vm k') = next_aspace_id (k_vm k) \<and>
     next_pid (k_sched k') = next_pid (k_sched k) \<and>
     (\<forall>a x. aspace_map (k_vm k') a = Some x \<longrightarrow> map_option ai_kind (aspace_map (k_vm k) a) = Some (ai_kind x)) \<and>
     program_of (tasks (k_sched k') ! 0) = program_of (tasks (k_sched k) ! 0) \<and>
     t_aspace_id (tasks (k_sched k') ! 0) = t_aspace_id (tasks (k_sched k) ! 0)"

lemma extends_refl [simp]: "extends n k k"
  by (simp add: extends_def)

lemma extends_trans:
  assumes "extends a k k1" and "extends b k1 k2" and "a + b \<le> n"
  shows "extends n k k2"
  using assms unfolding extends_def by (auto intro: prefix_order.trans) (metis map_option_eq_Some)

lemma extends_fields [simp]:
  "extends n k (say f a k') = extends n k k'" "extends n k (k'\<lparr>k_active_workloads := c\<rparr>) = extends n k k'"
  "extends n (say f a k) k' = extends n k k'" "extends n (k\<lparr>k_active_workloads := c\<rparr>) k' = extends n k k'"
  by (simp_all add: extends_def)

lemma extends_same_trace:
  assumes "k_trace k' = k_trace k" and "aspace_map (k_vm k') = aspace_map (k_vm k)" and "vm_mem (k_vm k') = vm_mem (k_vm k)"
    and "kernel_aspace_id (k_vm k') = kernel_aspace_id (k_vm k)" and "next_aspace_id (k_vm k') = next_aspace_id (k_vm k)"
    and "next_pid (k_sched k') = next_pid (k_sched k)" and "program_of (tasks (k_sched k') ! 0) = program_of (tasks (k_sched k) ! 0)"
    and "t_aspace_id (tasks (k_sched k') ! 0) = t_aspace_id (tasks (k_sched k) ! 0)"
  shows "extends n k k'"
  using assms by (simp add: extends_def)

text \<open>Recording an event on one side and replaying it on the other.\<close>

lemma ksim_record:
  assumes sim: "ksim E k r" and cp: "sched_current_pid r = sched_current_pid k" and len: "length (recs k) < TRACE_BUFFER_CAP"
    and ty: "ty \<noteq> TRACE_EVENT_IRQ" and k': "k' = trace_record ty pid a b k"
  shows "\<exists>e. recs k' = recs k @ [e] \<and> event_key e = (if pid = 0 then sched_current_pid k else pid, ty, a, b)"
    and "extends 1 k k'"
    and "prefix (recs k') E \<Longrightarrow> ksim E k' (trace_record ty pid a b r)"
proof -
  let ?pid = "if pid = 0 then sched_current_pid k else pid"
  let ?r' = "trace_record ty pid a b r"
  have ts: "trace_sim E (k_trace k) (k_trace r)" "tasks_sim (k_sched k) (k_sched r)" using sim by (simp_all add: ksim_def)
  obtain t c where t: "trace_step ty ?pid (pit_ticks k) a b (k_trace k) = (t, c)" by fastforce
  obtain u d where u: "trace_step ty ?pid (pit_ticks r) a b (k_trace r) = (u, d)" by fastforce
  have tr: "k_trace k' = t" "k_trace ?r' = u"
    unfolding k' trace_record_def cp Let_def t u prod.case by (simp_all add: sched_set_current_event_count_def split: option.split)
  note rk = record_key [of "k_trace k", OF _ _ _ ty len t]
  obtain e where e: "recorded t = recs k @ [e]" "event_key e = (?pid, ty, a, b)"
    using rk(1) ts by (auto simp: trace_sim_def)
  then show "\<exists>e. recs k' = recs k @ [e] \<and> event_key e = (?pid, ty, a, b)" by (simp add: tr)
  have q: "sched_same (k_sched k) (k_sched k')" "sched_same (k_sched r) (k_sched ?r')"
    using quiet_trace_record [of k ty pid a b] quiet_trace_record [of r ty pid a b] by (simp_all add: quiet_def k')
  have "length (tasks (k_sched k)) = MAX_TASKS" using ts by (simp add: tasks_sim_def)
  then have "0 < length (tasks (k_sched k))" by (simp add: MAX_TASKS_def)
  note s0 = sched_same_D [OF q(1) this]
  have vm: "k_vm k' = k_vm k" by (simp add: k')
  show "extends 1 k k'" using s0 e q(1) by (simp add: extends_def tr vm sched_same_def)
  assume "prefix (recs k') E"
  then obtain es where E: "E = recs k' @ es" by (auto simp: prefix_def)
  then have n: "length (recs k) < length (replay_events (k_trace r))" "event_key (replay_events (k_trace r) ! length (recs k)) = (?pid, ty, a, b)"
    using ts e by (simp_all add: trace_sim_def tr nth_append)
  have "trace_sim E t u"
    using replay_key [of "k_trace r", OF _ _ _ ty _ n u] rk ts e by (simp add: trace_sim_def)
  moreover have "tasks_sim (k_sched k') (k_sched ?r')" by (rule tasks_sim_same [OF ts(2) q])
  moreover have "k_active_workloads ?r' = k_active_workloads k'"
    using quiet_trace_record [of r ty pid a b] quiet_trace_record [of k ty pid a b] sim by (simp add: quiet_def k' ksim_def)
  ultimately show "ksim E k' ?r'" using sim by (simp add: ksim_def tr) (simp add: k')
qed

lemma event_irq: "TRACE_EVENT_SCHED \<noteq> TRACE_EVENT_IRQ" "TRACE_EVENT_WORKLOAD \<noteq> TRACE_EVENT_IRQ"
  by (simp_all add: TRACE_EVENT_SCHED_def TRACE_EVENT_WORKLOAD_def TRACE_EVENT_IRQ_def)

section \<open>Switching tasks\<close>

lemma tasks_sim_switch:
  assumes sim: "tasks_sim s s'" and n: "n < MAX_TASKS" "task_live (tasks s ! n)" and c: "current_task s < MAX_TASKS"
    and cur: "task_live (cur_task s) \<or> t_state (cur_task s) = Task_Zombie \<and> t_state (cur_task s') = Task_Zombie"
  shows "tasks_sim (switch_tasks n s) (switch_tasks n s')"
proof -
  have f: "length (tasks (switch_tasks n x)) = length (tasks x)" "current_task (switch_tasks n x) = n" "next_pid (switch_tasks n x) = next_pid x" for x
    by (simp_all add: switch_tasks_def Let_def)
  have len: "length (tasks s) = MAX_TASKS" "length (tasks s') = MAX_TASKS" "current_task s' = current_task s" using sim by (simp_all add: tasks_sim_def)
  have i: "task_live (tasks s' ! i) = task_live (tasks s ! i)"
    "task_live (tasks s ! i) \<Longrightarrow> program_of (tasks s' ! i) = program_of (tasks s ! i) \<and> t_state (tasks s' ! i) = t_state (tasks s ! i)"
    if "i < MAX_TASKS" for i using sim that by (simp_all add: tasks_sim_def)
  have st: "task_live (t\<lparr>t_state := x\<rparr>) \<longleftrightarrow> t_used t \<and> t_pid t > 0 \<and> t_pid t \<noteq> 0xffffffff \<and> x \<in> {Task_Ready, Task_Running}" for t x
    by (auto simp: task_live_def task_visible_def)
  have used: "task_live t \<Longrightarrow> t_used t \<and> t_pid t > 0 \<and> t_pid t \<noteq> 0xffffffff" for t by (simp add: task_live_def task_visible_def)
  show ?thesis
    unfolding tasks_sim_def f
  proof (intro conjI allI impI)
    fix j assume j: "j < MAX_TASKS"
    have nth: "tasks (switch_tasks n x) ! j = (if j = n then (tasks x ! j)\<lparr>t_state := Task_Running\<rparr>
        else if j = current_task x \<and> t_used (tasks x ! j) \<and> t_state (tasks x ! j) = Task_Running
        then (tasks x ! j)\<lparr>t_state := Task_Ready\<rparr> else tasks x ! j)" if "length (tasks x) = MAX_TASKS" for x
      using switch_tasks_nth [of j x n] that j by simp
    have p: "program_of (t\<lparr>t_state := x\<rparr>) = program_of t" for t x by (simp add: program_of_def)
    consider (new) "j = n" | (cur) "j \<noteq> n" "j = current_task s" | (other) "j \<noteq> n" "j \<noteq> current_task s" by blast
    then have "task_live (tasks (switch_tasks n s') ! j) = task_live (tasks (switch_tasks n s) ! j) \<and>
      (task_live (tasks (switch_tasks n s) ! j) \<longrightarrow> program_of (tasks (switch_tasks n s') ! j) = program_of (tasks (switch_tasks n s) ! j) \<and>
         t_state (tasks (switch_tasks n s') ! j) = t_state (tasks (switch_tasks n s) ! j))"
    proof cases
      case new
      then show ?thesis
        using i [OF n(1)] n(2) used [of "tasks s ! n"] used [of "tasks s' ! n"] unfolding nth [OF len(1)] nth [OF len(2)] by (simp add: st p)
    next
      case cur
      then show ?thesis
        using i [OF j] assms(5) used [of "tasks s ! j"] used [of "tasks s' ! j"] len(3) unfolding nth [OF len(1)] nth [OF len(2)]
        by (auto simp: st p)
    next
      case other
      then show ?thesis using i [OF j] len(3) unfolding nth [OF len(1)] nth [OF len(2)] by simp
    qed
    then show "task_live (tasks (switch_tasks n s') ! j) = task_live (tasks (switch_tasks n s) ! j)"
      and "task_live (tasks (switch_tasks n s) ! j) \<Longrightarrow> program_of (tasks (switch_tasks n s') ! j) = program_of (tasks (switch_tasks n s) ! j)"
      and "task_live (tasks (switch_tasks n s) ! j) \<Longrightarrow> t_state (tasks (switch_tasks n s') ! j) = t_state (tasks (switch_tasks n s) ! j)"
      by blast+
  qed (use len sim in \<open>simp_all add: tasks_sim_def\<close>)
qed

lemma ksim_switch:
  assumes sim: "ksim E k r" and n: "n < MAX_TASKS" "n \<noteq> current_task (k_sched k)" "task_live (tasks (k_sched k) ! n)"
    and c: "current_task (k_sched k) < MAX_TASKS" and len: "length (recs k) < TRACE_BUFFER_CAP"
    and cur: "task_live (cur_task (k_sched k)) \<or> t_state (cur_task (k_sched k)) = Task_Zombie \<and> t_state (cur_task (k_sched r)) = Task_Zombie"
    and sw: "switch_to (int n) k = Some k'"
  shows "\<exists>e. recs k' = recs k @ [e] \<and> ev_type e = TRACE_EVENT_SCHED \<and> ev_data1 e = word_of_nat n"
    and "extends 1 k k'"
    and "prefix (recs k') E \<Longrightarrow> \<exists>r'. switch_to (int n) r = Some r' \<and> ksim E k' r'"
proof -
  let ?k1 = "k\<lparr>k_sched := switch_tasks n (k_sched k), k_vm := snd (aspace_switch (t_aspace_id (tasks (switch_tasks n (k_sched k)) ! n)) (k_vm k))\<rparr>"
  let ?r1 = "r\<lparr>k_sched := switch_tasks n (k_sched r), k_vm := snd (aspace_switch (t_aspace_id (tasks (switch_tasks n (k_sched r)) ! n)) (k_vm r))\<rparr>"
  have ts: "tasks_sim (k_sched k) (k_sched r)" using sim by (simp add: ksim_def)
  have cr: "current_task (k_sched r) = current_task (k_sched k)" using ts by (simp add: tasks_sim_def)
  have ts1: "tasks_sim (switch_tasks n (k_sched k)) (switch_tasks n (k_sched r))"
    by (rule tasks_sim_switch [OF ts n(1,3) c]) (use cur cr in simp)
  have len8: "length (tasks (k_sched k)) = MAX_TASKS" "length (tasks (k_sched r)) = MAX_TASKS" using ts by (simp_all add: tasks_sim_def)
  have pid: "t_pid (tasks (switch_tasks n (k_sched r)) ! n) = t_pid (tasks (switch_tasks n (k_sched k)) ! n)"
    using ts n switch_tasks_nth [of n "k_sched k" n] switch_tasks_nth [of n "k_sched r" n] len8 by (simp add: tasks_sim_def program_of_def)
  have cpid: "sched_current_pid ?r1 = sched_current_pid ?k1"
    using pid by (simp add: sched_current_pid_def switch_tasks_def Let_def)
  have sim1: "ksim E ?k1 ?r1" using sim ts1 by (simp add: ksim_def)
  let ?p = "t_pid (tasks (switch_tasks n (k_sched k)) ! n)"
  have k': "k' = trace_record TRACE_EVENT_SCHED ?p (word_of_nat (current_task (k_sched k))) (word_of_nat n) ?k1"
    using sw switch_to_eq [OF n(1,2)] by simp
  have r': "switch_to (int n) r = Some (trace_record TRACE_EVENT_SCHED ?p (word_of_nat (current_task (k_sched k))) (word_of_nat n) ?r1)"
    using switch_to_eq [of n r] n pid cr by simp
  note rec = ksim_record [OF sim1 cpid _ event_irq(1) k']
  show "\<exists>e. recs k' = recs k @ [e] \<and> ev_type e = TRACE_EVENT_SCHED \<and> ev_data1 e = word_of_nat n"
    using rec(1) len by (auto simp: event_key_def)
  have "extends 0 k ?k1"
    using aspace_switch_map switch_tasks_nth [of 0 "k_sched k" n] len8
    by (intro extends_same_trace) (simp_all add: program_of_def MAX_TASKS_def, simp add: switch_tasks_def Let_def)
  then show "extends 1 k k'" by (rule extends_trans [OF _ rec(2)]) (use len in simp_all)
  show "prefix (recs k') E \<Longrightarrow> \<exists>r'. switch_to (int n) r = Some r' \<and> ksim E k' r'"
    using rec(3) len r' by auto
qed

section \<open>Yield, exit and the blocks of the workloads\<close>

lemma sim_ready:
  assumes "tasks_sim s s'"
  shows "find_next_ready s' = find_next_ready s"
proof -
  have r: "task_ready x i \<longleftrightarrow> task_live (tasks x ! i) \<and> t_state (tasks x ! i) = Task_Ready" for x i
    by (auto simp: task_ready_def task_live_def)
  have "task_visible (tasks s' ! i) \<and> t_state (tasks s' ! i) = Task_Ready \<longleftrightarrow> task_visible (tasks s ! i) \<and> t_state (tasks s ! i) = Task_Ready"
    if "i < MAX_TASKS" for i
    using assms that r [of s i] r [of s' i] unfolding task_ready_def tasks_sim_def by metis
  note vis = this
  have c: "current_task s' = current_task s" using assms by (simp add: tasks_sim_def)
  have bound: "i < MAX_TASKS" if "i \<in> set (map (\<lambda>j. (current_task s + j) mod MAX_TASKS) [1..<Suc MAX_TASKS])" for i
    using that by (auto simp: MAX_TASKS_def)
  show ?thesis unfolding find_next_ready_def c by (rule find_cong [OF refl]) (rule vis [OF bound])
qed

lemma expected_sim:
  assumes "trace_sim E t t'" and "length (recorded t) < length E" and "ev_type (E ! length (recorded t)) = TRACE_EVENT_SCHED"
  shows "trace_replay_expected_next_task t' = Some (ev_data1 (E ! length (recorded t)))"
proof -
  have n: "unat (rp_event_index (tr_replay t')) = length (recorded t)" "rp_active (tr_replay t')" and E: "E = replay_events t'"
    using assms(1) by (simp_all add: trace_sim_def)
  have l: "length (recorded t) < unat (rp_event_count (tr_replay t'))" using assms(2) by (simp add: E replay_events_def)
  then have "\<not> rp_event_index (tr_replay t') \<ge> rp_event_count (tr_replay t')" using n(1) by (simp add: word_le_nat_alt)
  moreover have "E ! length (recorded t) = tr_replay_buffer t' ! length (recorded t)" using l by (simp add: E replay_events_def)
  ultimately show ?thesis using n assms(3) by (simp add: trace_replay_expected_next_task_def Let_def)
qed

lemma small_sint: "n < MAX_TASKS \<Longrightarrow> sint (ucast (word_of_nat n :: u64) :: u32) = int n"
proof -
  assume "n < MAX_TASKS"
  then have "n \<in> {0, 1, 2, 3, 4, 5, 6, 7}" by (auto simp: MAX_TASKS_def)
  then show ?thesis by auto
qed

lemma ksim_yield:
  assumes sim: "ksim E k r" and inv: "sched_inv (k_sched k)" and n: "find_next_ready (k_sched k) = Some n"
    and len: "length (recs k) < TRACE_BUFFER_CAP" and y: "sched_yield k = Some k'"
  shows "extends 1 k k'" and "prefix (recs k') E \<Longrightarrow> \<exists>r'. sched_yield r = Some r' \<and> ksim E k' r'"
proof -
  let ?bump = "\<lambda>s. upd_task (current_task s) (\<lambda>t. t\<lparr>t_yields := t_yields t + 1\<rparr>) s"
  let ?k1 = "k\<lparr>k_sched := ?bump (k_sched k)\<rparr>" and ?r1 = "r\<lparr>k_sched := ?bump (k_sched r)\<rparr>"
  have ts: "tasks_sim (k_sched k) (k_sched r)" and tr: "trace_sim E (k_trace k) (k_trace r)" using sim by (simp_all add: ksim_def)
  have same: "sched_same s (?bump s)" for s by (auto simp: sched_same_def ident_def nth_upd_task)
  have sim1: "ksim E ?k1 ?r1" using sim tasks_sim_same [OF ts same same] by (simp add: ksim_def)
  have inv1: "sched_inv (?bump (k_sched k))" by (rule sched_same_inv [OF same inv])
  have c: "current_task (k_sched k) < MAX_TASKS" using inv by (simp add: sched_inv_def)
  have fn: "find_next_ready (?bump (k_sched k)) = Some n" using n by (simp add: bookkeeping_sched)
  have nn: "n < MAX_TASKS" "task_ready (?bump (k_sched k)) n" using fn find_next_ready_Some [of "?bump (k_sched k)" n] c by auto
  then have live: "task_live (tasks (?bump (k_sched k)) ! n)" "n \<noteq> current_task (?bump (k_sched k))" "task_live (cur_task (?bump (k_sched k)))"
    using live_iff [OF inv1] inv1 c by (auto simp: sched_inv_def task_ready_def)
  have a: "\<not> rp_active (tr_replay (k_trace k))" "rp_active (tr_replay (k_trace r))" using tr by (simp_all add: trace_sim_def)
  have sw: "switch_to (int n) ?k1 = Some k'" using y fn a by (simp add: sched_yield_def Let_def next_task_def)
  note s = ksim_switch [OF sim1 nn(1) _ _ _ _ _ sw]
  have "length (tasks (k_sched k)) = MAX_TASKS" using ts by (simp add: tasks_sim_def)
  then have e0: "extends 0 k ?k1" by (intro extends_same_trace) (simp_all add: nth_upd_task program_of_def MAX_TASKS_def)
  show "extends 1 k k'" by (rule extends_trans [OF e0 s(2)]) (use live c len in simp_all)
  assume p: "prefix (recs k') E"
  obtain r' where r': "switch_to (int n) ?r1 = Some r'" "ksim E k' r'" using s(3) live c len p by auto
  obtain e where e: "recs k' = recs k @ [e]" "ev_type e = TRACE_EVENT_SCHED" "ev_data1 e = word_of_nat n" using s(1) live c len by auto
  obtain es where E: "E = recs k @ e # es" using p e(1) by (auto simp: prefix_def)
  have x: "trace_replay_expected_next_task (k_trace r) = Some (word_of_nat n)" using expected_sim [OF tr] e by (simp add: E nth_append)
  have "sched_yield r = switch_to (int n) ?r1"
    using x a small_sint [OF nn(1)] by (simp add: sched_yield_def Let_def next_task_def)
  then show "\<exists>r'. sched_yield r = Some r' \<and> ksim E k' r'" using r' by simp
qed

lemma release_extends:
  assumes "aspace_inv v"
  shows "kernel_aspace_id (snd (aspace_release a v)) = kernel_aspace_id v"
    "aspace_map (snd (aspace_release a v)) b = Some x \<Longrightarrow> map_option ai_kind (aspace_map v b) = Some (ai_kind x)"
proof -
  have "kernel_aspace_id (snd (aspace_release a v)) = kernel_aspace_id v \<and>
    (aspace_map (snd (aspace_release a v)) b = Some x \<longrightarrow> map_option ai_kind (aspace_map v b) = Some (ai_kind x))"
  proof (cases "aspace_map v a")
    case None
    then show ?thesis using release_None [OF None] by simp
  next
    case (Some y)
    then show ?thesis using release_Some [OF assms Some] by (auto simp: released_def Let_def split: if_splits)
  qed
  then show "kernel_aspace_id (snd (aspace_release a v)) = kernel_aspace_id v"
    "aspace_map (snd (aspace_release a v)) b = Some x \<Longrightarrow> map_option ai_kind (aspace_map v b) = Some (ai_kind x)" by simp_all
qed

lemma ksim_exit:
  assumes sim: "ksim E k r" and inv: "sched_inv (k_sched k)" and sp: "aspace_inv (k_vm k)" and c0: "current_task (k_sched k) \<noteq> 0"
    and rd: "task_ready (k_sched k) 0" and len: "length (recs k) < TRACE_BUFFER_CAP" and x: "task_exit k = Some k'"
  shows "extends 1 k k'" and "prefix (recs k') E \<Longrightarrow> \<exists>r'. task_exit r = Some r' \<and> ksim E k' r'"
proof -
  let ?z = "\<lambda>s. upd_task (current_task s) zombify s"
  let ?kill = "\<lambda>k. k\<lparr>k_vm := snd (aspace_release (t_aspace_id (tasks (k_sched k) ! current_task (k_sched k))) (k_vm k)), k_sched := ?z (k_sched k)\<rparr>"
  have ts: "tasks_sim (k_sched k) (k_sched r)" using sim by (simp add: ksim_def)
  have len8: "length (tasks (k_sched k)) = MAX_TASKS" "length (tasks (k_sched r)) = MAX_TASKS" "current_task (k_sched r) = current_task (k_sched k)"
    using ts by (simp_all add: tasks_sim_def)
  have c: "current_task (k_sched k) < MAX_TASKS" using inv by (simp add: sched_inv_def)
  have dead: "\<not> task_live (zombify t)" "t_state (zombify t) = Task_Zombie" for t by (simp_all add: zombify_def task_live_def)
  have nz: "tasks (upd_task j zombify s) ! i = (if i = j then zombify (tasks s ! i) else tasks s ! i)" if "i < length (tasks s)" for s i j
    using that by (simp add: nth_upd_task)
  have ts1: "tasks_sim (?z (k_sched k)) (?z (k_sched r))"
    using ts len8 unfolding tasks_sim_def by (simp add: nz dead)
  have sim1: "ksim E (?kill k) (?kill r)" using sim ts1 by (simp add: ksim_def)
  obtain n where n: "find_next_ready (?z (k_sched k)) = Some n"
    using find_next_ready_None [of "?z (k_sched k)"] c rd ready_zombify [OF inv] by (cases "find_next_ready (?z (k_sched k))") (auto simp: MAX_TASKS_def)
  then have nn: "n < MAX_TASKS" "task_ready (?z (k_sched k)) n" using find_next_ready_Some [of "?z (k_sched k)" n] c by auto
  then have live: "task_live (tasks (?z (k_sched k)) ! n)" "n \<noteq> current_task (?z (k_sched k))"
    using nz [of n "k_sched k" "current_task (k_sched k)"] len8 dead by (auto simp: task_ready_def task_live_def)
  have zc: "t_state (cur_task (?z (k_sched k))) = Task_Zombie \<and> t_state (cur_task (?z (k_sched r))) = Task_Zombie"
    using nz [of "current_task (k_sched k)"] len8 c dead by (simp add: len8)
  have ex: "task_exit y = (case find_next_ready (?z (k_sched y)) of None \<Rightarrow> Some (?kill y) | Some n \<Rightarrow> switch_to (int n) (?kill y))" for y :: "'a kernel"
  proof -
    have z: "zombify = (\<lambda>t. t\<lparr>t_state := Task_Zombie, t_exited_ticks := t_cpu_ticks t\<rparr>)" by (rule ext) (simp add: zombify_def)
    show ?thesis unfolding task_exit_def Let_def z by simp
  qed
  have sw: "switch_to (int n) (?kill k) = Some k'" using x n by (simp add: ex)
  note s = ksim_switch [OF sim1 nn(1) _ _ _ _ _ sw]
  have "tasks (?z (k_sched k)) ! 0 = tasks (k_sched k) ! 0" using nz [of 0 "k_sched k" "current_task (k_sched k)"] len8 c0 by (simp add: MAX_TASKS_def)
  then have e0: "extends 0 k (?kill k)" using release_extends [OF sp] by (simp add: extends_def)
  show "extends 1 k k'" by (rule extends_trans [OF e0 s(2)]) (use live zc c len in simp_all)
  assume p: "prefix (recs k') E"
  have "task_exit r = switch_to (int n) (?kill r)" using n sim_ready [OF ts1] by (simp add: ex)
  then show "\<exists>r'. task_exit r = Some r' \<and> ksim E k' r'" using s(3) live zc c len p by auto
qed

text \<open>The blocks of the workloads.\<close>

lemma ksim_event:
  assumes sim: "ksim E k r" and inv: "sched_inv (k_sched k)" and len: "length (recs k) < TRACE_BUFFER_CAP" and ty: "ty \<noteq> TRACE_EVENT_IRQ"
  shows "extends 1 k (trace_record ty (sched_current_pid k) a b k)"
    and "prefix (recs (trace_record ty (sched_current_pid k) a b k)) E \<Longrightarrow>
      ksim E (trace_record ty (sched_current_pid k) a b k) (trace_record ty (sched_current_pid r) a b r)"
proof -
  have p: "sched_current_pid r = sched_current_pid k" using sim inv by (intro sim_pid) (simp_all add: ksim_def)
  show "extends 1 k (trace_record ty (sched_current_pid k) a b k)"
    "prefix (recs (trace_record ty (sched_current_pid k) a b k)) E \<Longrightarrow>
      ksim E (trace_record ty (sched_current_pid k) a b k) (trace_record ty (sched_current_pid r) a b r)"
    unfolding p using ksim_record(2,3) [OF sim p len ty refl] by blast+
qed

lemma ksim_done: "ksim E k r \<Longrightarrow> ksim E (workload_done f a k) (workload_done g b r)"
  by (simp add: workload_done_def Let_def ksim_def)

lemma workload_done_frame [simp]: "extends n k (workload_done f a k)" "recs (workload_done f a k) = recs k"
  by (simp_all add: workload_done_def Let_def)

lemma ksim_block:
  assumes sim: "ksim E (sys_k s) (sys_k q)" and inv: "sched_inv (k_sched (sys_k s))" and w: "is_workload th"
    and len: "length (recs (sys_k s)) < TRACE_BUFFER_CAP" and b: "block R th s = (a, s')"
  shows "extends 1 (sys_k s) (sys_k s')"
    and "prefix (recs (sys_k s')) E \<Longrightarrow> \<exists>q'. block R th q = (a, q') \<and> ksim E (sys_k s') (sys_k q')"
proof -
  have ub: "used_bytes (vm_mem (k_vm (sys_k q))) = used_bytes (vm_mem (k_vm (sys_k s)))" using sim by (simp add: ksim_def)
  note ev = ksim_event [OF sim inv len event_irq(1)] ksim_event [OF sim inv len event_irq(2)]
  have "extends 1 (sys_k s) (sys_k s') \<and> (prefix (recs (sys_k s')) E \<longrightarrow> (\<exists>q'. block R th q = (a, q') \<and> ksim E (sys_k s') (sys_k q')))"
  proof (cases th)
    case (Life slot i)
    then show ?thesis using b ev ksim_done [OF sim]
      by (auto simp: on_kernel_def lifecycle_child_def split: if_splits)
  next
    case (Attack i)
    then show ?thesis using b ev ksim_done [OF sim]
      by (auto simp: on_kernel_def attack_task_def split: if_splits)
  next
    case (Sysload slot i)
    then show ?thesis using b ev ksim_done [OF sim] ub
      by (auto simp: on_kernel_def sysload_task_def split: if_splits)
  next
    case (At_Entry e arg)
    then show ?thesis using b w sim by (auto simp: start_block_def)
  qed (use w in simp_all)
  then show "extends 1 (sys_k s) (sys_k s')"
    and "prefix (recs (sys_k s')) E \<Longrightarrow> \<exists>q'. block R th q = (a, q') \<and> ksim E (sys_k s') (sys_k q')" by blast+
qed

section \<open>The machine\<close>

text \<open>A recording kernel can always be related to a replay that has come as far.\<close>

definition rec_on :: "'d kernel \<Rightarrow> bool" where
  "rec_on k \<longleftrightarrow> tr_recording (k_trace k) \<and> trace_inv (k_trace k) \<and> \<not> rp_active (tr_replay (k_trace k))"

lemma mirror:
  assumes "rec_on k" and "length (tasks (k_sched k)) = MAX_TASKS"
  shows "\<exists>E t. ksim E k (k\<lparr>k_trace := t\<rparr>)"
proof -
  let ?t = "(k_trace k)\<lparr>tr_replay_buffer := tr_buffer (k_trace k), tr_replay := (tr_replay (k_trace k))\<lparr>rp_active := True, rp_failed := False,
     rp_event_count := tr_current_events (k_trace k), rp_event_index := tr_current_events (k_trace k)\<rparr>\<rparr>"
  have "trace_sim (recs k) (k_trace k) ?t"
    using assms(1) by (simp add: trace_sim_def rec_on_def trace_inv_def replay_events_def recorded_def)
  then have "ksim (recs k) k (k\<lparr>k_trace := ?t\<rparr>)" using assms(2) by (simp add: ksim_def tasks_sim_def)
  then show ?thesis by blast
qed

lemma rec_on_same: "rec_same k k' \<Longrightarrow> rec_on k \<Longrightarrow> \<not> rp_active (tr_replay (k_trace k')) \<Longrightarrow> rec_on k'"
  by (simp add: rec_on_def rec_same_def recorder_def)

definition msim :: "trace_event list \<Rightarrow> 'd machine \<Rightarrow> 'd machine \<Rightarrow> bool" where
  "msim E m q \<longleftrightarrow> ksim E (mk m) (mk q) \<and> (\<forall>i. 0 < i \<and> i < MAX_TASKS \<and> task_live (mtask m i) \<longrightarrow> m_threads q i = m_threads m i)"

lemma msim_thread:
  assumes "msim E m q" and "0 < i" "i < MAX_TASKS" "task_live (mtask m i)"
  shows "thread_of q i = thread_of m i"
  using assms by (intro thread_of_same) (simp_all add: msim_def ksim_def tasks_sim_def mtask_def)

lemma msimI:
  assumes "msim E m q" and "ksim E (mk m') (mk q')" and "m_threads m' = (m_threads m)(c := x)" and "m_threads q' = (m_threads q)(c := x)"
    and "\<And>i. i < MAX_TASKS \<Longrightarrow> task_live (mtask m' i) \<Longrightarrow> task_live (mtask m i)"
  shows "msim E m' q'"
  using assms by (auto simp: msim_def)

text \<open>The scheduler after a block.\<close>

definition reschedule :: "bool \<Rightarrow> 'd kernel \<Rightarrow> 'd kernel option" where
  "reschedule ret = (if ret then task_exit else sched_yield)"

lemma ksim_reschedule:
  assumes inv: "sched_inv (k_sched k)" "aspace_inv (k_vm k)" and c: "current_task (k_sched k) \<noteq> 0" and rd: "task_ready (k_sched k) 0"
    and len: "length (recs k) < TRACE_BUFFER_CAP" and on: "rec_on k" and y: "reschedule ret k = Some k'"
  shows "extends 1 k k'" "ksim E k r \<Longrightarrow> prefix (recs k') E \<Longrightarrow> \<exists>r'. reschedule ret r = Some r' \<and> ksim E k' r'"
proof -
  obtain E0 t where mi: "ksim E0 k (k\<lparr>k_trace := t\<rparr>)" using mirror [OF on] inv(1) by (auto simp: sched_inv_def)
  have "current_task (k_sched k) < MAX_TASKS" using inv(1) by (simp add: sched_inv_def)
  then obtain n where n: "find_next_ready (k_sched k) = Some n"
    using find_next_ready_None [of "k_sched k"] rd by (cases "find_next_ready (k_sched k)") (auto simp: MAX_TASKS_def)
  note ye = ksim_yield [OF _ inv(1) n len, of _ _ k'] and ex = ksim_exit [OF _ inv c rd len, of _ _ k']
  show "extends 1 k k'" "ksim E k r \<Longrightarrow> prefix (recs k') E \<Longrightarrow> \<exists>r'. reschedule ret r = Some r' \<and> ksim E k' r'"
    using y ye(1) [OF mi] ex(1) [OF mi] ye(2) [of E r] ex(2) [of E r] by (cases ret; simp add: reschedule_def)+
qed

text \<open>One step as a block and, unless it only goes on, the scheduler.\<close>

lemma task_step_eq:
  assumes "current_task (k_sched (mk m)) = c" and "block R (thread_of m c) (m_sys m) = (a, s)"
  shows "task_step R m = (case a of Goto t \<Rightarrow> Some (m\<lparr>m_threads := (m_threads m)(c \<mapsto> t), m_sys := s\<rparr>)
    | Yield t \<Rightarrow> map_option (\<lambda>k. m\<lparr>m_threads := (m_threads m)(c \<mapsto> t), m_sys := s\<lparr>sys_k := k\<rparr>\<rparr>) (reschedule False (sys_k s))
    | Return \<Rightarrow> map_option (\<lambda>k. m\<lparr>m_threads := (m_threads m)(c := None), m_sys := s\<lparr>sys_k := k\<rparr>\<rparr>) (reschedule True (sys_k s)))"
  using assms by (cases a) (simp_all add: task_step_def reschedule_def set_kernel_def upd_sys_def)

lemma block_states:
  assumes R: "ring3_quiet R" and inv: "machine_inv ext m" and c: "current_task (k_sched (mk m)) \<noteq> 0" and on: "rec_on (mk m)"
    and b: "block R (thread_of m (current_task (k_sched (mk m)))) (m_sys m) = (a, s)"
  shows "sched_inv (k_sched (sys_k s))" "aspace_inv (k_vm (sys_k s))" "current_task (k_sched (sys_k s)) = current_task (k_sched (mk m))"
    "task_ready (k_sched (sys_k s)) 0" "rec_on (sys_k s)"
proof -
  let ?c = "current_task (k_sched (mk m))"
  have si: "sched_inv (k_sched (mk m))" and acc: "accounted ext (mk m)" using inv by (simp_all add: machine_inv_def)
  have "?c < MAX_TASKS" "task_live (mtask m ?c)" using si live_iff [OF si, of ?c] by (auto simp: sched_inv_def mtask_def)
  then have ok: "thread_ok (ping_jobs (m_sys m)) (thread_of m ?c)" using inv c by (simp add: machine_inv_def)
  obtain k1 n where q: "quiet (mk m) k1" and k: "sys_k s = k1\<lparr>k_active_workloads := k_active_workloads k1 - n\<rparr>"
    using block_ok [OF R ok] by (auto simp: b block_spec_def)
  show "sched_inv (k_sched (sys_k s))" "aspace_inv (k_vm (sys_k s))" "current_task (k_sched (sys_k s)) = ?c"
    using quiet_ok [OF q si acc] q accountedD(1) [of ext k1] by (simp_all add: k quiet_def sched_same_def)
  show "task_ready (k_sched (sys_k s)) 0" using after_quiet(3) [OF q si, of 0] shell_ready [OF inv c] by (simp add: k MAX_TASKS_def)
  show "rec_on (sys_k s)" using on q rec_on_same [of "mk m" k1] by (simp add: k quiet_def rec_on_def)
qed

lemma msim_step:
  assumes R: "ring3_quiet R" and inv: "machine_inv ext m" and wl: "all_workloads m" and c: "current_task (k_sched (mk m)) \<noteq> 0"
    and sim: "msim E m q" and len: "length (recs (mk m)) + 1 < TRACE_BUFFER_CAP" and st: "task_step R m = Some m'"
  shows "extends 2 (mk m) (mk m') \<and> (prefix (recs (mk m')) E \<longrightarrow> (\<exists>q'. task_step R q = Some q' \<and> msim E m' q'))"
proof -
  let ?c = "current_task (k_sched (mk m))" and ?th = "thread_of m (current_task (k_sched (mk m)))"
  have si: "sched_inv (k_sched (mk m))" using inv by (simp add: machine_inv_def)
  have cl: "0 < ?c" "?c < MAX_TASKS" "task_live (mtask m ?c)" using si live_iff [OF si, of ?c] c by (auto simp: sched_inv_def mtask_def)
  have ks: "ksim E (mk m) (mk q)" using sim by (simp add: msim_def)
  then have on: "rec_on (mk m)" by (simp add: ksim_def trace_sim_def rec_on_def)
  have w: "is_workload ?th" using wl cl by (simp add: all_workloads_def)
  have cq: "current_task (k_sched (mk q)) = ?c" "thread_of q ?c = ?th"
    using ks msim_thread [OF sim cl] by (simp_all add: ksim_def tasks_sim_def)
  have down: "task_live (mtask m' i) \<Longrightarrow> task_live (mtask m i)" if "i < MAX_TASKS" for i
    using task_step_progress [OF R inv c] st that by auto
  obtain a s where b: "block R ?th (m_sys m) = (a, s)" by fastforce
  note kb = ksim_block [OF ks si w _ b] and bs = block_states [OF R inv c on b]
  have e1: "extends 1 (mk m) (sys_k s)" using kb(1) len by simp
  then have len1: "length (recs (sys_k s)) < TRACE_BUFFER_CAP" using len by (simp add: extends_def)
  define x where "x = (case a of Return \<Rightarrow> None | Yield t \<Rightarrow> Some t | Goto t \<Rightarrow> Some t)"
  define after :: "'a kernel \<Rightarrow> 'a kernel option" where "after = (case a of Goto t \<Rightarrow> Some | Yield t \<Rightarrow> reschedule False | Return \<Rightarrow> reschedule True)"
  have step: "task_step R z = map_option (\<lambda>k. z\<lparr>m_threads := (m_threads z)(?c := x), m_sys := u\<lparr>sys_k := k\<rparr>\<rparr>) (after (sys_k u))"
    if "current_task (k_sched (mk z)) = ?c" "block R (thread_of z ?c) (m_sys z) = (a, u)" for z u
    using task_step_eq [OF that] by (cases a) (simp_all add: x_def after_def)
  obtain k' where y: "after (sys_k s) = Some k'" and m': "m' = m\<lparr>m_threads := (m_threads m)(?c := x), m_sys := s\<lparr>sys_k := k'\<rparr>\<rparr>"
    using step [OF refl b] st by (cases "after (sys_k s)") auto
  have af: "extends 1 (sys_k s) k'" "ksim E (sys_k s) r \<Longrightarrow> prefix (recs k') E \<Longrightarrow> \<exists>r'. after r = Some r' \<and> ksim E k' r'" for r
    using y ksim_reschedule(1) [OF bs(1,2) _ bs(4) len1 bs(5), where k' = k'] bs(3) c
      ksim_reschedule(2) [OF bs(1,2) _ bs(4) len1 bs(5), where k' = k' and E = E and r = r] by (cases a; simp add: after_def)+
  have "\<exists>q'. task_step R q = Some q' \<and> msim E m' q'" if p: "prefix (recs (mk m')) E"
  proof -
    have p': "prefix (recs k') E" "prefix (recs (sys_k s)) E" using p af(1) by (auto simp: m' extends_def intro: prefix_order.trans)
    obtain u where u: "block R ?th (m_sys q) = (a, u)" "ksim E (sys_k s) (sys_k u)" using kb(2) p' len by auto
    obtain r' where r': "after (sys_k u) = Some r'" "ksim E k' r'" using af(2) [OF u(2) p'(1)] by blast
    let ?q = "q\<lparr>m_threads := (m_threads q)(?c := x), m_sys := u\<lparr>sys_k := r'\<rparr>\<rparr>"
    have "task_step R q = Some ?q" using step [of q u] cq u(1) r'(1) by simp
    moreover have "msim E m' ?q" by (rule msimI [OF sim, where c = ?c and x = x]) (use r'(2) m' down in simp_all)
    ultimately show ?thesis by blast
  qed
  moreover have "extends 2 (mk m) (mk m')" using extends_trans [OF e1 af(1)] by (simp add: m')
  ultimately show ?thesis by blast
qed

section \<open>Runs\<close>

text \<open>A session in progress.  A block takes at most three events with the switch before it, so the
  buffer has room for the rest of the work.\<close>

definition session :: "(u32 \<Rightarrow> nat) \<Rightarrow> 'd machine \<Rightarrow> bool" where
  "session ext m \<longleftrightarrow> machine_inv ext m \<and> all_workloads m \<and> rec_on (mk m) \<and>
     length (recs (mk m)) + 3 * work m + (if current_task (k_sched (mk m)) = 0 then 1 else 0) \<le> TRACE_BUFFER_CAP"

definition grows :: "'d kernel \<Rightarrow> 'd kernel \<Rightarrow> bool" where
  "grows k k' \<longleftrightarrow> (\<exists>n. extends n k k')"

lemma grows_refl [simp]: "grows k k"
  unfolding grows_def using extends_refl by blast

lemma grows_trans: "grows a b \<Longrightarrow> grows b c \<Longrightarrow> grows a c"
  unfolding grows_def using extends_trans by blast

lemma grows_prefix: "grows k k' \<Longrightarrow> prefix (recs k') E \<Longrightarrow> prefix (recs k) E"
  by (auto simp: grows_def extends_def intro: prefix_order.trans)

lemma sim_current: "msim E m q \<Longrightarrow> current_task (k_sched (mk q)) = current_task (k_sched (mk m))"
  by (simp add: msim_def ksim_def tasks_sim_def)

lemma session_step:
  assumes R: "ring3_quiet R" and s: "session ext m" and c: "current_task (k_sched (mk m)) \<noteq> 0" and st: "task_step R m = Some m'"
  shows "session ext m'" "grows (mk m) (mk m')"
    "msim E m q \<Longrightarrow> prefix (recs (mk m')) E \<Longrightarrow> \<exists>q'. task_step R q = Some q' \<and> msim E m' q'"
proof -
  have inv: "machine_inv ext m" and wl: "all_workloads m" and on: "rec_on (mk m)" and pot: "length (recs (mk m)) + 3 * work m \<le> TRACE_BUFFER_CAP"
    using s c by (simp_all add: session_def)
  have p: "machine_inv ext m'" "work m' < work m" "all_workloads m'" using task_step_progress [OF R inv c] st wl by auto
  have len: "length (recs (mk m)) + 1 < TRACE_BUFFER_CAP" using pot p(2) by linarith
  obtain E0 r0 where "ksim E0 (mk m) r0" using mirror [OF on] inv by (auto simp: machine_inv_def sched_inv_def)
  then have "msim E0 m (m\<lparr>m_sys := (m_sys m)\<lparr>sys_k := r0\<rparr>\<rparr>)" by (simp add: msim_def)
  then have e: "extends 2 (mk m) (mk m')" using msim_step [OF R inv wl c _ len st] by blast
  then show "grows (mk m) (mk m')" by (auto simp: grows_def)
  have "rec_on (mk m')" using rec_on_same [OF task_step_rec [OF R inv c st] on] p(1) by (simp add: machine_inv_def)
  moreover have "length (recs (mk m')) \<le> length (recs (mk m)) + 2" using e by (simp add: extends_def)
  then have "length (recs (mk m')) + 3 * work m' + 1 \<le> TRACE_BUFFER_CAP" using pot p(2) by linarith
  ultimately show "session ext m'" using p by (simp add: session_def)
  show "msim E m q \<Longrightarrow> prefix (recs (mk m')) E \<Longrightarrow> \<exists>q'. task_step R q = Some q' \<and> msim E m' q'"
    using msim_step [OF R inv wl c _ len st] by blast
qed

lemma session_others:
  assumes R: "ring3_quiet R"
  shows "session ext m \<Longrightarrow> run_others R fuel m = Some m' \<Longrightarrow> session ext m' \<and> grows (mk m) (mk m') \<and>
    (msim E m q \<longrightarrow> prefix (recs (mk m')) E \<longrightarrow> (\<exists>q'. run_others R fuel q = Some q' \<and> msim E m' q'))"
proof (induction fuel arbitrary: m q)
  case 0
  then show ?case using sim_current [of E m q] by (auto split: if_splits)
next
  case (Suc fuel)
  show ?case
  proof (cases "current_task (k_sched (mk m)) = 0")
    case True
    then show ?thesis using Suc.prems sim_current [of E m q] by auto
  next
    case False
    then obtain m1 where m1: "task_step R m = Some m1" "run_others R fuel m1 = Some m'"
      using Suc.prems(2) by (auto split: option.splits)
    note st = session_step [OF R Suc.prems(1) False m1(1)]
    note ih = Suc.IH [OF st(1) m1(2)]
    have g: "grows (mk m1) (mk m')" using ih by blast
    have "\<exists>q'. run_others R (Suc fuel) q = Some q' \<and> msim E m' q'" if sim: "msim E m q" and p: "prefix (recs (mk m')) E"
    proof -
      obtain q1 where q1: "task_step R q = Some q1" "msim E m1 q1" using st(3) [OF sim grows_prefix [OF g p]] by blast
      then show ?thesis using ih p False sim_current [OF sim] by simp
    qed
    then show ?thesis using ih grows_trans [OF st(2) g] by blast
  qed
qed

lemma session_yield:
  assumes s: "session ext m" and c: "current_task (k_sched (mk m)) = 0" and rd: "sched_has_ready (mk m)"
    and y: "sched_yield (mk m) = Some k'"
  defines "m' \<equiv> upd_sys (\<lambda>s. s\<lparr>sys_k := k'\<rparr>) m"
  shows "session ext m'" "grows (mk m) k'"
    "msim E m q \<Longrightarrow> prefix (recs k') E \<Longrightarrow> \<exists>r'. sched_yield (mk q) = Some r' \<and> msim E m' (upd_sys (\<lambda>s. s\<lparr>sys_k := r'\<rparr>) q)"
proof -
  have inv: "machine_inv ext m" and wl: "all_workloads m" and on: "rec_on (mk m)" and pot: "length (recs (mk m)) + 3 * work m + 1 \<le> TRACE_BUFFER_CAP"
    using s c by (simp_all add: session_def)
  have si: "sched_inv (k_sched (mk m))" and rp: "\<not> rp_active (tr_replay (k_trace (mk m)))" using inv by (simp_all add: machine_inv_def)
  obtain n where n: "find_next_ready (k_sched (mk m)) = Some n" using rd by (auto simp: sched_has_ready_def)
  have n0: "n \<noteq> 0" using n find_next_ready_Some [of "k_sched (mk m)" n] si c by (auto simp: sched_inv_def task_ready_def)
  have len: "length (recs (mk m)) < TRACE_BUFFER_CAP" using pot by simp
  note yk = yield_keeps [OF inv y, folded m'_def]
  note p = yield_program [OF si rp y]
  obtain E0 r0 where "ksim E0 (mk m) r0" using mirror [OF on] si by (auto simp: sched_inv_def)
  then have e: "extends 1 (mk m) k'" using ksim_yield(1) [OF _ si n len y] by blast
  then show "grows (mk m) k'" by (auto simp: grows_def)
  have live: "task_live (mtask m' i) = task_live (mtask m i)" "thread_of m' i = thread_of m i" if "i < MAX_TASKS" for i
    using p [OF that] by (auto intro!: thread_of_same simp: mtask_def m'_def)
  then have "all_workloads m'" using wl by (auto simp: all_workloads_def)
  moreover have "rec_on (mk m')" using rec_on_same [OF rec_same_yield [OF y] on] yk(1) by (simp add: machine_inv_def m'_def)
  moreover have "length (recs k') \<le> length (recs (mk m)) + 1" using e by (simp add: extends_def)
  then have "length (recs k') + 3 * work m' \<le> TRACE_BUFFER_CAP" using pot yk(2) by linarith
  moreover have "current_task (k_sched k') \<noteq> 0" using yield_step [OF si rp] n n0 y by auto
  ultimately show "session ext m'" using yk(1) by (simp add: session_def) (simp add: m'_def)
  assume sim: "msim E m q" and pre: "prefix (recs k') E"
  then have "ksim E (mk m) (mk q)" by (simp add: msim_def)
  then obtain r' where r': "sched_yield (mk q) = Some r'" "ksim E k' r'" using ksim_yield(2) [OF _ si n len y pre] by blast
  have "msim E m' (upd_sys (\<lambda>s. s\<lparr>sys_k := r'\<rparr>) q)" using sim r'(2) live(1) by (auto simp: msim_def m'_def)
  then show "\<exists>r'. sched_yield (mk q) = Some r' \<and> msim E m' (upd_sys (\<lambda>s. s\<lparr>sys_k := r'\<rparr>) q)" using r'(1) by blast
qed

lemma session_shell:
  assumes R: "ring3_quiet R" and s: "session ext m" and c: "current_task (k_sched (mk m)) = 0" and rd: "sched_has_ready (mk m)"
    and y: "shell_yield R fuel m = Some m'"
  shows "session ext m' \<and> grows (mk m) (mk m') \<and>
    (msim E m q \<longrightarrow> prefix (recs (mk m')) E \<longrightarrow> (\<exists>q'. shell_yield R fuel q = Some q' \<and> msim E m' q'))"
proof -
  obtain k' where k': "sched_yield (mk m) = Some k'" using y by (auto simp: shell_yield_def set_kernel_def split: option.splits)
  let ?m = "upd_sys (\<lambda>s. s\<lparr>sys_k := k'\<rparr>) m"
  have r: "run_others R fuel ?m = Some m'" using y by (simp add: shell_yield_def set_kernel_def k')
  note yk = session_yield [OF s c rd k']
  note o = session_others [OF R yk(1) r]
  have g: "grows k' (mk m')" using o by simp
  have "\<exists>q'. shell_yield R fuel q = Some q' \<and> msim E m' q'" if sim: "msim E m q" and p: "prefix (recs (mk m')) E"
    using yk(3) [OF sim grows_prefix [OF g p]] o p by (auto simp: shell_yield_def set_kernel_def)
  then show ?thesis using o grows_trans [OF yk(2) g] by blast
qed

lemma session_run:
  assumes R: "ring3_quiet R"
  shows "session ext m \<Longrightarrow> current_task (k_sched (mk m)) = 0 \<Longrightarrow> surplus m = 0 \<Longrightarrow> run_workloads_until_idle R fuel n m = Some m' \<Longrightarrow>
    session ext m' \<and> grows (mk m) (mk m') \<and>
    (msim E m q \<longrightarrow> prefix (recs (mk m')) E \<longrightarrow> (\<exists>q'. run_workloads_until_idle R fuel n q = Some q' \<and> msim E m' q'))"
proof (induction n arbitrary: m q)
  case (Suc n)
  have inv: "machine_inv ext m" and rp: "\<not> rp_active (tr_replay (k_trace (mk m)))" using Suc.prems(1) by (simp_all add: session_def machine_inv_def)
  have q: "sched_has_ready (mk q) = sched_has_ready (mk m)" "workload_has_active (mk q) = workload_has_active (mk m)"
    "\<not> rp_failed (tr_replay (k_trace (mk q)))" if "msim E m q"
    using that sim_ready [of "k_sched (mk m)" "k_sched (mk q)"]
    by (simp_all add: msim_def ksim_def trace_sim_def sched_has_ready_def workload_has_active_def)
  show ?case
  proof (cases "sched_has_ready (mk m)")
    case False
    then have "only_shell m" using idle_only_shell [OF inv Suc.prems(2)] by simp
    then have "\<not> workload_has_active (mk m)" using Suc.prems(3) by (simp add: only_shell_surplus workload_has_active_def)
    then show ?thesis using False Suc.prems q by auto
  next
    case True
    then obtain m1 where m1: "shell_yield R fuel m = Some m1" "run_workloads_until_idle R fuel n m1 = Some m'"
      using Suc.prems(4) rp by (auto split: option.splits)
    note sh = session_shell [OF R Suc.prems(1,2) True m1(1)]
    have k: "current_task (k_sched (mk m1)) = 0" "surplus m1 = 0" using shell_yield_keeps [OF R inv m1(1)] Suc.prems(3) by simp_all
    note ih = Suc.IH [OF _ k m1(2)]
    have s1: "session ext m1" and g1: "grows (mk m) (mk m1)" and g: "grows (mk m1) (mk m')" using sh ih by blast+
    have "\<exists>q'. run_workloads_until_idle R fuel (Suc n) q = Some q' \<and> msim E m' q'" if sim: "msim E m q" and p: "prefix (recs (mk m')) E"
    proof -
      obtain q1 where q1: "shell_yield R fuel q = Some q1" "msim E m1 q1" using sh sim grows_prefix [OF g p] by blast
      then obtain q' where "run_workloads_until_idle R fuel n q1 = Some q'" "msim E m' q'" using ih [OF s1] p by blast
      then show ?thesis using q [OF sim] True q1(1) by auto
    qed
    then show ?thesis using ih [OF s1] grows_trans [OF g1 g] by blast
  qed
qed simp

section \<open>The start of a profile\<close>

text \<open>The shell runs in the kernel's address space; all other tasks run workloads.\<close>

definition shell_spawns :: "'d kernel \<Rightarrow> bool" where
  "shell_spawns k \<longleftrightarrow> aspace_inv (k_vm k) \<and> current_task (k_sched k) = 0 \<and>
     t_aspace_id (tasks (k_sched k) ! 0) = kernel_aspace_id (k_vm k) \<and> kernel_aspace_id (k_vm k) \<noteq> 0 \<and>
     map_option ai_kind (aspace_map (k_vm k) (kernel_aspace_id (k_vm k))) = Some ASPACE_KIND_KERNEL"

definition workload_entries :: "'d kernel \<Rightarrow> bool" where
  "workload_entries k \<longleftrightarrow> (\<forall>i. 0 < i \<and> i < MAX_TASKS \<and> task_live (tasks (k_sched k) ! i) \<longrightarrow>
     t_entry (tasks (k_sched k) ! i) \<in> {Lifecycle_Child, Attack_Task, Sysload_Task})"

text \<open>What spawning leaves alone.\<close>

definition spawn_frame :: "'d kernel \<Rightarrow> 'd kernel \<Rightarrow> bool" where
  "spawn_frame k k' \<longleftrightarrow> k_trace k' = k_trace k \<and> k_fs k' = k_fs k \<and> vm_mem (k_vm k') = vm_mem (k_vm k) \<and> tasks (k_sched k') ! 0 = tasks (k_sched k) ! 0"

lemma startable_spawns: "startable ext n m \<Longrightarrow> shell_spawns (mk m)"
  by (simp add: startable_def shell_spawns_def machine_inv_def accounted_def)

lemma startable_slot:
  assumes "startable ext (Suc n) m"
  shows "\<exists>j. find_index spawn_slot_free (drop 1 (tasks (k_sched (mk m)))) = Some j"
proof -
  have len: "length (tasks (k_sched (mk m))) = MAX_TASKS" using assms by (simp add: startable_def machine_inv_def sched_inv_def)
  obtain i where i: "0 < i" "i < MAX_TASKS" "\<not> task_live (tasks (k_sched (mk m)) ! i)"
    using free_slots_pos [OF _ len] assms by (auto simp: startable_def)
  have "spawn_slot_free (drop 1 (tasks (k_sched (mk m))) ! (i - 1))" "i - 1 < length (drop 1 (tasks (k_sched (mk m))))"
    using i len by (simp_all add: spawn_slot_free_def task_live_def)
  then have "find_index spawn_slot_free (drop 1 (tasks (k_sched (mk m)))) \<noteq> None" unfolding find_index_None by (metis nth_mem)
  then show ?thesis by simp
qed

lemma sim_slot:
  assumes "tasks_sim s s'"
  shows "find_index spawn_slot_free (drop 1 (tasks s')) = find_index spawn_slot_free (drop 1 (tasks s))"
proof -
  have f: "spawn_slot_free t \<longleftrightarrow> \<not> task_live t" for t by (simp add: spawn_slot_free_def task_live_def)
  have "find_index P xs = find_index P ys" if "map P xs = map P ys" for P :: "task \<Rightarrow> bool" and xs ys
    using that
  proof (induction xs arbitrary: ys)
    case (Cons x xs)
    then obtain y ys' where "ys = y # ys'" "P x = P y" "map P xs = map P ys'" by (cases ys) auto
    then show ?case using Cons.IH [of ys'] by simp
  qed simp
  moreover have "map spawn_slot_free (drop 1 (tasks s')) = map spawn_slot_free (drop 1 (tasks s))"
    using assms by (intro nth_equalityI) (auto simp: tasks_sim_def f)
  ultimately show ?thesis by blast
qed

lemma spawn_one:
  assumes sp: "shell_spawns k" and j: "find_index spawn_slot_free (drop 1 (tasks (k_sched k))) = Some j"
  shows "\<exists>t v. workload_spawn name e a f args k = say f (pid_arg (Some (next_pid (k_sched k))) # args)
      (k\<lparr>k_active_workloads := k_active_workloads k + 1, k_vm := v,
         k_sched := (k_sched k)\<lparr>tasks := (tasks (k_sched k))[Suc j := t], next_pid := next_pid (k_sched k) + 1\<rparr>\<rparr>) \<and>
    t_used t \<and> t_state t = Task_Ready \<and> t_pid t = next_pid (k_sched k) \<and> t_entry t = e \<and> t_arg t = a \<and> vm_mem v = vm_mem (k_vm k)"
    and "shell_spawns (workload_spawn name e a f args k)" and "spawn_frame k (workload_spawn name e a f args k)"
proof -
  let ?k = "k\<lparr>k_active_workloads := k_active_workloads k + 1\<rparr>"
  obtain t v where tv: "sched_spawn (Some name) e a ?k = (Some (next_pid (k_sched k)),
      ?k\<lparr>k_vm := v, k_sched := (k_sched k)\<lparr>tasks := (tasks (k_sched k))[Suc j := t], next_pid := next_pid (k_sched k) + 1\<rparr>\<rparr>)"
    "t_used t \<and> t_state t = Task_Ready \<and> t_pid t = next_pid (k_sched k) \<and> t_entry t = e \<and> t_arg t = a \<and> vm_mem v = vm_mem (k_vm k)"
    "aspace_inv v" "kernel_aspace_id v = kernel_aspace_id (k_vm k)"
    "map_option ai_kind (aspace_map v (kernel_aspace_id (k_vm k))) = Some ASPACE_KIND_KERNEL"
  proof -
    have "aspace_inv (k_vm ?k)" "t_aspace_id (cur_task (k_sched ?k)) = kernel_aspace_id (k_vm k)" "kernel_aspace_id (k_vm k) = kernel_aspace_id (k_vm ?k)"
      "kernel_aspace_id (k_vm k) \<noteq> 0" "map_option ai_kind (aspace_map (k_vm ?k) (kernel_aspace_id (k_vm k))) = Some ASPACE_KIND_KERNEL"
      "find_index spawn_slot_free (drop 1 (tasks (k_sched ?k))) = Some j"
      using sp j by (simp_all add: shell_spawns_def)
    from spawn_kernel_eq [OF this, of "Some name" e a] that show ?thesis by auto
  qed
  let ?k' = "say f (pid_arg (Some (next_pid (k_sched k))) # args)
      (k\<lparr>k_active_workloads := k_active_workloads k + 1, k_vm := v,
         k_sched := (k_sched k)\<lparr>tasks := (tasks (k_sched k))[Suc j := t], next_pid := next_pid (k_sched k) + 1\<rparr>\<rparr>)"
  have k': "workload_spawn name e a f args k = ?k'" by (simp add: workload_spawn_def tv(1))
  then show "\<exists>t v. workload_spawn name e a f args k = say f (pid_arg (Some (next_pid (k_sched k))) # args)
      (k\<lparr>k_active_workloads := k_active_workloads k + 1, k_vm := v,
         k_sched := (k_sched k)\<lparr>tasks := (tasks (k_sched k))[Suc j := t], next_pid := next_pid (k_sched k) + 1\<rparr>\<rparr>) \<and>
    t_used t \<and> t_state t = Task_Ready \<and> t_pid t = next_pid (k_sched k) \<and> t_entry t = e \<and> t_arg t = a \<and> vm_mem v = vm_mem (k_vm k)"
    using tv(2) by blast
  show "shell_spawns (workload_spawn name e a f args k)" using sp tv(3-5) by (simp add: k' shell_spawns_def)
  show "spawn_frame k (workload_spawn name e a f args k)" using tv(2) by (simp add: k' spawn_frame_def)
qed

definition spawn_sim :: "trace_event list \<Rightarrow> 'd kernel \<Rightarrow> 'd kernel \<Rightarrow> bool" where
  "spawn_sim E k r \<longleftrightarrow> ksim E k r \<and> shell_spawns r \<and> workload_entries k"

lemma spawn_sim_one:
  assumes st: "startable ext (Suc n) m" and e: "e \<in> {Lifecycle_Child, Attack_Task, Sysload_Task}" and sim: "spawn_sim E (mk m) r"
  shows "spawn_sim E (mk (on_mk (workload_spawn name e a f args) m)) (workload_spawn name e a f args r)"
    "spawn_frame (mk m) (mk (on_mk (workload_spawn name e a f args) m))"
proof -
  let ?k = "mk m" and ?k' = "workload_spawn name e a f args (mk m)" and ?r' = "workload_spawn name e a f args r"
  have mk': "mk (on_mk (workload_spawn name e a f args) m) = ?k'" by (simp add: upd_k_def)
  have ts: "tasks_sim (k_sched ?k) (k_sched r)" and ks: "ksim E ?k r" and we: "workload_entries ?k" and rs: "shell_spawns r"
    using sim by (simp_all add: spawn_sim_def ksim_def)
  obtain j where j: "find_index spawn_slot_free (drop 1 (tasks (k_sched ?k))) = Some j" using startable_slot [OF st] by blast
  have jr: "find_index spawn_slot_free (drop 1 (tasks (k_sched r))) = Some j" using sim_slot [OF ts] j by simp
  have len: "length (tasks (k_sched ?k)) = MAX_TASKS" "length (tasks (k_sched r)) = MAX_TASKS" using ts by (simp_all add: tasks_sim_def)
  have jl: "Suc j < MAX_TASKS" using find_index_SomeD(1) [OF j] len by simp
  note o = spawn_one [OF startable_spawns [OF st] j, of name e a f args] and p = spawn_one [OF rs jr, of name e a f args]
  show "spawn_frame ?k (mk (on_mk (workload_spawn name e a f args) m))" unfolding mk' by (rule o(3))
  obtain t v where k': "?k' = say f (pid_arg (Some (next_pid (k_sched ?k))) # args)
      (?k\<lparr>k_active_workloads := k_active_workloads ?k + 1, k_vm := v,
         k_sched := (k_sched ?k)\<lparr>tasks := (tasks (k_sched ?k))[Suc j := t], next_pid := next_pid (k_sched ?k) + 1\<rparr>\<rparr>)"
    and t: "t_used t" "t_state t = Task_Ready" "t_pid t = next_pid (k_sched ?k)" "t_entry t = e" "t_arg t = a" "vm_mem v = vm_mem (k_vm ?k)"
    using o(1) by blast
  obtain u w where r': "?r' = say f (pid_arg (Some (next_pid (k_sched r))) # args)
      (r\<lparr>k_active_workloads := k_active_workloads r + 1, k_vm := w,
         k_sched := (k_sched r)\<lparr>tasks := (tasks (k_sched r))[Suc j := u], next_pid := next_pid (k_sched r) + 1\<rparr>\<rparr>)"
    and u: "t_used u" "t_state u = Task_Ready" "t_pid u = next_pid (k_sched r)" "t_entry u = e" "t_arg u = a" "vm_mem w = vm_mem (k_vm r)"
    using p(1) by blast
  have np: "next_pid (k_sched r) = next_pid (k_sched ?k)" using ts by (simp add: tasks_sim_def)
  have tu: "task_live u = task_live t" "program_of u = program_of t" "t_state u = t_state t"
    using t u np by (simp_all add: task_live_def task_visible_def program_of_def)
  have "tasks_sim (k_sched ?k') (k_sched ?r')"
    using ts len tu np jl unfolding k' r' by (auto simp: tasks_sim_def nth_list_update)
  then have "ksim E ?k' ?r'" using ks t(6) u(6) by (simp add: ksim_def) (simp add: k' r')
  moreover have "workload_entries ?k'"
    using we e t(4) len jl by (auto simp: workload_entries_def k' nth_list_update)
  ultimately show "spawn_sim E (mk (on_mk (workload_spawn name e a f args) m)) ?r'" using p(2) by (simp add: spawn_sim_def mk')
qed

lemma spawn_frame_trans: "spawn_frame a b \<Longrightarrow> spawn_frame b c \<Longrightarrow> spawn_frame a c"
  by (simp add: spawn_frame_def)

lemma spawn_sim_profile:
  assumes st: "startable ext 3 m" and p: "p \<in> {WORKLOAD_PROFILE_ATTACK, WORKLOAD_PROFILE_SYSLOAD, WORKLOAD_PROFILE_LIFECYCLE}"
    and sim: "spawn_sim E (mk m) r"
  shows "spawn_sim E (snd (workload_run_profile p (mk m))) (snd (workload_run_profile p r)) \<and>
    spawn_frame (mk m) (snd (workload_run_profile p (mk m)))"
proof -
  have S: "startable ext (Suc (Suc (Suc 0))) m" using st by (simp add: numeral_3_eq_3)
  have one: "spawn_sim E (workload_spawn nm e a f args (mk m)) (workload_spawn nm e a f args r) \<and> spawn_frame (mk m) (workload_spawn nm e a f args (mk m))"
    if "e \<in> {Lifecycle_Child, Attack_Task, Sysload_Task}" for nm e a f args
    using spawn_sim_one [OF S that sim, of nm a f args] by (simp add: upd_k_def)
  have three: "spawn_sim E (fold (\<lambda>i. workload_spawn nm e i f [Num i]) [0, 1, 2] (mk m)) (fold (\<lambda>i. workload_spawn nm e i f [Num i]) [0, 1, 2] r) \<and>
      spawn_frame (mk m) (fold (\<lambda>i. workload_spawn nm e i f [Num i]) [0, 1, 2] (mk m))"
    if e: "e \<in> {Lifecycle_Child, Attack_Task, Sysload_Task}" for nm e f
  proof -
    note w1 = workload_spawn_ok(1) [OF S e refl, of nm 0 f "[Num 0]"] and s1 = spawn_sim_one [OF S e sim, of nm 0 f "[Num 0]"]
    note w2 = workload_spawn_ok(1) [OF w1 e refl, of nm 1 f "[Num 1]"] and s2 = spawn_sim_one [OF w1 e s1(1), of nm 1 f "[Num 1]"]
    note s3 = spawn_sim_one [OF w2 e s2(1), of nm 2 f "[Num 2]"]
    show ?thesis using s3(1) spawn_frame_trans [OF s1(2) spawn_frame_trans [OF s2(2) s3(2)]] by (simp add: upd_k_def)
  qed
  show ?thesis
    using p one [of Attack_Task] three [of Lifecycle_Child] three [of Sysload_Task]
    by (auto simp: workload_run_profile_def workload_attack_sim_def workload_lifecycle_test_def workload_sysload_def simp del: fold.simps)
qed

section \<open>A whole profile\<close>

lemma grows_startable:
  assumes st: "startable ext 0 m" and g: "grows (mk m) (mk m')" and inv: "machine_inv ext m'" "only_shell m'" "current_task (k_sched (mk m')) = 0"
  shows "startable ext 0 m'"
proof -
  note s = st [unfolded startable_def]
  let ?a = "kernel_aspace_id (k_vm (mk m'))"
  have e: "?a = kernel_aspace_id (k_vm (mk m))" "next_aspace_id (k_vm (mk m')) = next_aspace_id (k_vm (mk m))"
    "next_pid (k_sched (mk m')) = next_pid (k_sched (mk m))" "t_aspace_id (tasks (k_sched (mk m')) ! 0) = t_aspace_id (tasks (k_sched (mk m)) ! 0)"
    and kinds: "\<And>a x. aspace_map (k_vm (mk m')) a = Some x \<Longrightarrow> map_option ai_kind (aspace_map (k_vm (mk m)) a) = Some (ai_kind x)"
    using g by (auto simp: grows_def extends_def)
  have len: "length (tasks (k_sched (mk m'))) = MAX_TASKS" and acc: "accounted ext (mk m')" using inv(1) by (simp_all add: machine_inv_def sched_inv_def)
  have "task_live (tasks (k_sched (mk m')) ! 0)" using inv(2) by (simp add: only_shell_def mtask_def MAX_TASKS_def)
  moreover have "tasks (k_sched (mk m')) ! 0 \<in> set (tasks (k_sched (mk m')))" using len by (simp add: MAX_TASKS_def)
  moreover have "t_aspace_id (tasks (k_sched (mk m')) ! 0) = ?a" using s e by simp
  ultimately have "filter (\<lambda>t. task_live t \<and> t_aspace_id t = ?a) (tasks (k_sched (mk m'))) \<noteq> []" by (auto simp: filter_empty_conv)
  then have "0 < live (k_sched (mk m')) ?a" by (simp add: live_def)
  then have "0 < refs (k_vm (mk m')) ?a" using accountedD(2) [OF acc] by simp
  then obtain x where x: "aspace_map (k_vm (mk m')) ?a = Some x" by (auto simp: refs_def split: option.splits)
  then have "map_option ai_kind (aspace_map (k_vm (mk m')) ?a) = Some ASPACE_KIND_KERNEL" using kinds [OF x] s e by simp
  then show ?thesis using s e inv by (simp add: startable_def)
qed

text \<open>Recording a profile, and what a related machine does with the recorded events.\<close>

lemma profile_repeats:
  assumes R: "ring3_quiet R" and st: "startable ext 3 m" and alone: "only_shell m" and su: "surplus m = 0"
    and on: "rec_on (mk m)" "recs (mk m) = []" and f: "102 \<le> F"
    and p: "p \<in> {WORKLOAD_PROFILE_ATTACK, WORKLOAD_PROFILE_SYSLOAD, WORKLOAD_PROFILE_LIFECYCLE}"
    and m1_def: "m1 = on_mk (\<lambda>_. snd (workload_run_profile p (mk m))) m"
  shows "\<exists>m'. run_workloads_until_idle R F (Suc F) m1 = Some m' \<and> startable ext 0 m' \<and> only_shell m' \<and> surplus m' = 0 \<and>
     k_active_workloads (mk m') = 0 \<and> rec_on (mk m') \<and> grows (mk m1) (mk m') \<and> spawn_frame (mk m) (mk m1) \<and>
     (\<forall>E q. msim E m1 q \<longrightarrow> prefix (recs (mk m')) E \<longrightarrow> (\<exists>q'. run_workloads_until_idle R F (Suc F) q = Some q' \<and> msim E m' q'))"
proof -
  obtain ok k' where r: "workload_run_profile p (mk m) = (ok, k')" by fastforce
  have m1: "m1 = on_mk (\<lambda>_. k') m" by (simp add: m1_def r)
  have mk1: "mk m1 = k'" by (simp add: m1 upd_k_def)
  note pr = profile_ok [OF st p r, folded m1]
  have inv: "machine_inv ext m1" "current_task (k_sched (mk m1)) = 0" using pr(2) by (simp_all add: startable_def)
  have wk: "work m1 \<le> F" "work m1 < Suc F" "work m1 \<le> 102" using pr(4) only_shell_work [OF alone] f by simp_all
  obtain m' where m': "run_workloads_until_idle R F (Suc F) m1 = Some m'"
    "machine_inv ext m'" "only_shell m'" "k_active_workloads (mk m') = 0"
    using run_workloads_returns [OF R inv _ wk(1,2)] pr(3) su by auto
  have len: "length (tasks (k_sched (mk m))) = MAX_TASKS" using st by (simp add: startable_def machine_inv_def sched_inv_def)
  obtain E0 t where "ksim E0 (mk m) ((mk m)\<lparr>k_trace := t\<rparr>)" using mirror [OF on(1) len] by blast
  then have "spawn_sim E0 (mk m) ((mk m)\<lparr>k_trace := t\<rparr>)"
    using startable_spawns [OF st] alone by (auto simp: spawn_sim_def shell_spawns_def workload_entries_def only_shell_def mtask_def)
  from spawn_sim_profile [OF st p this] have we: "workload_entries k'" and fr: "spawn_frame (mk m) k'" by (simp_all add: r spawn_sim_def)
  have "all_workloads m1"
    unfolding all_workloads_def
  proof (intro allI impI)
    fix i assume i: "0 < i \<and> i < MAX_TASKS \<and> task_live (mtask m1 i)"
    have "m_threads m1 i = None" using st alone i by (simp add: m1 startable_def machine_inv_def only_shell_def)
    then show "is_workload (thread_of m1 i)" using we i by (simp add: thread_of_def workload_entries_def mtask_def mk1 r)
  qed
  then have ses: "session ext m1"
    using inv wk(3) on fr by (simp add: session_def mk1 rec_on_def spawn_frame_def TRACE_BUFFER_CAP_def)
  have s0: "surplus m1 = 0" using pr(3) su by simp
  note sr = session_run [OF R ses inv(2) s0 m'(1)]
  have g: "grows (mk m1) (mk m')" and se: "session ext m'" using sr by blast+
  have c': "current_task (k_sched (mk m')) = 0"
    using m'(2,3) live_iff [of "k_sched (mk m')" "current_task (k_sched (mk m'))"]
    by (auto simp: machine_inv_def only_shell_def mtask_def sched_inv_def)
  have "startable ext 0 m'" by (rule grows_startable [OF pr(2) g m'(2,3) c'])
  moreover have "surplus m' = 0" using only_shell_surplus [OF m'(3)] m'(4) by simp
  ultimately show ?thesis using m' g se sr fr by (auto simp: session_def mk1)
qed

text \<open>Two shells that start the same profile: one with the recorder on, one with a loaded session.\<close>

lemma prepared_sim:
  assumes m: "startable ext n m" "only_shell m" "t_pid (mtask m 0) = 1" and q: "startable ext' n' q" "only_shell q"
    and same: "program_of (mtask q 0) = program_of (mtask m 0)" "used_bytes (vm_mem (k_vm (mk q))) = used_bytes (vm_mem (k_vm (mk m)))"
      "k_active_workloads (mk q) = k_active_workloads (mk m)"
    and k: "k_sched k = k_sched (sched_prepare_replay (mk m))" "k_vm k = k_vm (mk m)" "k_active_workloads k = k_active_workloads (mk m)"
    and r: "k_sched r = k_sched (sched_prepare_replay (mk q))" "k_vm r = k_vm (mk q)" "k_active_workloads r = k_active_workloads (mk q)"
    and tr: "trace_sim E (k_trace k) (k_trace r)"
  shows "spawn_sim E k r"
proof -
  have q1: "t_pid (mtask q 0) = 1" using same(1) m(3) by (simp add: program_of_def)
  note pm = prepare_replay_startable [OF m] and pq = prepare_replay_startable [OF q q1]
  let ?m = "on_mk sched_prepare_replay m" and ?q = "on_mk sched_prepare_replay q"
  have mk: "mk ?m = sched_prepare_replay (mk m)" "mk ?q = sched_prepare_replay (mk q)" by (simp_all add: upd_k_def)
  have len: "length (tasks (k_sched (mk m))) = MAX_TASKS" "length (tasks (k_sched (mk q))) = MAX_TASKS"
    using m(1) q(1) by (simp_all add: startable_def machine_inv_def sched_inv_def)
  have km: "k_sched k = k_sched (sched_prepare_replay ((mk m)\<lparr>k_sched := k_sched (mk m)\<rparr>))"
    and rq: "k_sched r = k_sched (sched_prepare_replay ((mk q)\<lparr>k_sched := k_sched (mk q)\<rparr>))" by (simp_all add: k r)
  note tm = prepare_replay_tasks [OF len(1) km] and tq = prepare_replay_tasks [OF len(2) rq]
  have c: "current_task (k_sched (mk m)) = 0" "current_task (k_sched (mk q)) = 0" using m(1) q(1) by (simp_all add: startable_def)
  have run: "t_state (tasks (k_sched k) ! 0) = Task_Running" "t_state (tasks (k_sched r) ! 0) = Task_Running"
    using m(1) q(1) c tm(2) tq(2) by (simp_all add: startable_def machine_inv_def sched_inv_def MAX_TASKS_def)
  have live: "task_live (tasks (k_sched k) ! i) \<longleftrightarrow> i = 0" "task_live (tasks (k_sched r) ! i) \<longleftrightarrow> i = 0" if "i < MAX_TASKS" for i
    using pm(2) pq(2) that by (simp_all add: only_shell_def mtask_def mk k r)
  have "tasks_sim (k_sched k) (k_sched r)"
    unfolding tasks_sim_def tm(1,3,4) tq(1,3,4) c using live run same(1) tm(2) tq(2) by (simp add: mtask_def)
  then have "ksim E k r" using tr same k r by (simp add: ksim_def)
  moreover have "shell_spawns r"
    using startable_spawns [OF q(1)] tq(2,3) by (simp add: shell_spawns_def r(2))
  moreover have "workload_entries k" using live by (auto simp: workload_entries_def)
  ultimately show ?thesis by (simp add: spawn_sim_def)
qed

end
