(* ===== verification/Demo.thy ===== *)
theory Demo
  imports Boot Replay Determinism
begin

text \<open>
  The recorded demonstration of \<open>kernel/shell.c\<close> end to end: \<open>demo record\<close> prepares the scheduler,
  starts the recorder, runs a workload profile until the shell is alone again and stores the
  session on disk; \<open>demo replay\<close> loads it, runs the profile again under the recorded schedule and
  reports the verdict.
\<close>

lemma trace_stop_inv:
  assumes "trace_stop B ticks (tr, fs) = Some (tr1, fs1)" and "trace_inv tr"
  shows "trace_inv tr1" "\<not> tr_recording tr1"
  using assms by (auto simp: trace_stop_def Let_def trace_inv_def split: prod.splits option.splits if_splits)

text \<open>A full buffer of 4096 events takes 320 sectors.\<close>

lemma session_room:
  assumes "unat (sb_next_free_lba (superblock fs)) + 320 \<le> 6144" and "unat bytes \<le> 163840"
  shows "\<not> fs_no_room (sector_count_for bytes) fs"
proof -
  have s: "unat (sector_count_for bytes) \<le> 320"
    using assms(2) by (subst unat_sector_count_for) auto
  have "unat (sb_next_free_lba (superblock fs) + sector_count_for bytes)
      = unat (sb_next_free_lba (superblock fs)) + unat (sector_count_for bytes)"
    using assms(1) s by (subst unat_add_no_wrap) simp_all
  then have "unat (sb_next_free_lba (superblock fs) + sector_count_for bytes) \<le> 6144" using assms(1) s by simp
  then show ?thesis by (simp add: fs_no_room_def word_less_nat_alt fs_consts)
qed

lemma demo_record_dispatch: "exec_command E (''demo record '' @ arg) w = cmd_demo_record E arg w"
  by (simp add: dispatch)

lemma parse_profile_cases:
  assumes "parse_profile arg \<noteq> WORKLOAD_PROFILE_NONE"
  shows "parse_profile arg \<in> {WORKLOAD_PROFILE_ATTACK, WORKLOAD_PROFILE_SYSLOAD, WORKLOAD_PROFILE_LIFECYCLE}"
  using assms by (auto simp: parse_profile_def)

lemma run_profile_eq:
  "run_profile E p w = map_option (set_m (on_k (\<lambda>k. snd (workload_run_profile p k)) w))
     (run_workloads_until_idle (e_ring3 E) (e_fuel E) (Suc (e_fuel E)) (on_mk (\<lambda>_. snd (workload_run_profile p (wk w))) (w_m w)))"
  by (simp add: run_profile_def Let_def on_k_def set_k_def set_sys_def set_m_def upd_sys_def upd_k_def)

text \<open>The profile runs to its end with the recorder on, and a machine that replays the recorded
  events runs along.\<close>

lemma run_profile_records:
  assumes R: "ring3_quiet (e_ring3 E)" and st: "startable ext 3 (w_m w)" and alone: "only_shell (w_m w)" and su: "surplus (w_m w) = 0"
    and on: "rec_on (wk w)" "recs (wk w) = []"
    and p: "p \<in> {WORKLOAD_PROFILE_ATTACK, WORKLOAD_PROFILE_SYSLOAD, WORKLOAD_PROFILE_LIFECYCLE}" and f: "102 \<le> e_fuel E"
  shows "\<exists>w'. run_profile E p w = Some w' \<and> startable ext 0 (w_m w') \<and> only_shell (w_m w') \<and> surplus (w_m w') = 0 \<and>
    k_active_workloads (wk w') = 0 \<and> rec_same (wk w) (wk w') \<and> vm_mem (k_vm (wk w')) = vm_mem (k_vm (wk w)) \<and>
    program_of (mtask (w_m w') 0) = program_of (mtask (w_m w) 0) \<and>
    (\<forall>v. spawn_sim (recs (wk w')) (wk w) (wk v) \<and> (\<forall>i. 0 < i \<and> i < MAX_TASKS \<longrightarrow> m_threads (w_m v) i = None) \<longrightarrow>
      (\<exists>v'. run_profile E p v = Some v' \<and> msim (recs (wk w')) (w_m w') (w_m v')))"
proof -
  let ?start = "\<lambda>w :: ('a, 'b) world. on_mk (\<lambda>_. snd (workload_run_profile p (wk w))) (w_m w)"
  let ?run = "run_workloads_until_idle (e_ring3 E) (e_fuel E) (Suc (e_fuel E))"
  obtain m' where m': "?run (?start w) = Some m'" "startable ext 0 m'" "only_shell m'" "surplus m' = 0" "k_active_workloads (mk m') = 0"
    "grows (mk (?start w)) (mk m')" "spawn_frame (wk w) (mk (?start w))"
    "\<And>E q. msim E (?start w) q \<Longrightarrow> prefix (recs (mk m')) E \<Longrightarrow> \<exists>q'. ?run q = Some q' \<and> msim E m' q'"
    using profile_repeats [OF R st alone su on f p refl] by blast
  obtain ok k' where pk: "workload_run_profile p (wk w) = (ok, k')" by fastforce
  have rs: "rec_same (wk w) (mk (?start w))" using rec_same_profile [OF pk] by (simp add: upd_k_def pk)
  have "machine_inv ext (?start w)" using profile_ok(2) [OF st p pk] by (simp add: startable_def pk)
  then have rec: "rec_same (wk w) (mk m')" using rec_same_trans [OF rs run_workloads_rec [OF R _ m'(1)]] by blast
  have threads: "m_threads (w_m w) i = None" if "0 < i" "i < MAX_TASKS" for i
    using st alone that by (simp add: startable_def machine_inv_def only_shell_def)
  have rep: "\<exists>v'. run_profile E p v = Some v' \<and> msim (recs (mk m')) m' (w_m v')"
    if sim: "spawn_sim (recs (mk m')) (wk w) (wk v)" and th: "\<forall>i. 0 < i \<and> i < MAX_TASKS \<longrightarrow> m_threads (w_m v) i = None" for v
  proof -
    have "ksim (recs (mk m')) (mk (?start w)) (mk (?start v))"
      using spawn_sim_profile [OF st p sim] by (simp add: spawn_sim_def upd_k_def)
    then have "msim (recs (mk m')) (?start w) (?start v)" using th threads by (simp add: msim_def)
    then obtain q' where "?run (?start v) = Some q'" "msim (recs (mk m')) m' q'" using m'(8) by blast
    then show ?thesis unfolding run_profile_eq by (auto simp: set_m_def)
  qed
  show ?thesis
    using m' rec rep
    by (intro exI [of _ "set_m (on_k (\<lambda>k. snd (workload_run_profile p k)) w) m'"])
      (auto simp: run_profile_eq set_m_def grows_def extends_def spawn_frame_def mtask_def)
qed

text \<open>The state in which the profile of a demonstration starts.\<close>

lemma demo_record_start:
  assumes "startable ext n (w_m w)" and "only_shell (w_m w)" and "t_pid (mtask (w_m w) 0) = 1" and "surplus (w_m w) = 0"
    and w2_def: "w2 = on_k (\<lambda>k. k\<lparr>k_trace := trace_start_profile p (pit_ticks k) (k_trace k)\<rparr>) (on_k sched_prepare_replay w)"
  shows "startable ext 3 (w_m w2)" "only_shell (w_m w2)" "surplus (w_m w2) = 0" "k_fs (wk w2) = k_fs (wk w)"
    "recorder (k_trace (wk w2)) = (True, st_sessions (tr_stats (k_trace (wk w))) + 1, p, pit_ticks (wk w))"
    "trace_inv (k_trace (wk w)) \<Longrightarrow> rec_on (wk w2)" "recs (wk w2) = []"
    "k_sched (wk w2) = k_sched (sched_prepare_replay (wk w))" "k_vm (wk w2) = k_vm (wk w)" "k_active_workloads (wk w2) = k_active_workloads (wk w)"
proof -
  let ?m1 = "on_mk sched_prepare_replay (w_m w)"
  note p = prepare_replay_startable [OF assms(1-3)]
  have p3: "startable ext 3 ?m1" using p(1) by (simp add: startable_def)
  have w2: "w_m w2 = on_mk (\<lambda>k. k\<lparr>k_trace := trace_start_profile p (pit_ticks k) (k_trace k)\<rparr>) ?m1"
    by (simp add: w2_def on_k_def set_k_def set_sys_def set_m_def upd_sys_def upd_k_def)
  let ?k1 = "mk ?m1"
  have k: "mk (w_m w2) = ?k1\<lparr>k_trace := trace_start_profile p (pit_ticks ?k1) (k_trace ?k1)\<rparr>" by (simp add: w2 upd_k_def)
  have same: "k_sched (mk (w_m w2)) = k_sched ?k1" "k_vm (mk (w_m w2)) = k_vm ?k1" "m_threads (w_m w2) = m_threads ?m1"
    "ping_jobs (m_sys (w_m w2)) = ping_jobs (m_sys ?m1)" "tr_replay (k_trace (mk (w_m w2))) = tr_replay (k_trace ?k1)"
    "k_active_workloads (mk (w_m w2)) = k_active_workloads ?k1"
    by (simp_all add: k trace_start_profile_def) (simp_all add: w2 upd_k_def)
  note frame = machine_frame [OF same]
  show "startable ext 3 (w_m w2)" "only_shell (w_m w2)" "surplus (w_m w2) = 0"
    using p p3 assms(4) by (simp_all add: frame)
  have k1: "k_fs (sched_prepare_replay (wk w)) = k_fs (wk w)" "k_trace (sched_prepare_replay (wk w)) = k_trace (wk w)"
    "pit_ticks (sched_prepare_replay (wk w)) = pit_ticks (wk w)" "k_vm (sched_prepare_replay (wk w)) = k_vm (wk w)"
    "k_active_workloads (sched_prepare_replay (wk w)) = k_active_workloads (wk w)"
    by (simp_all add: sched_prepare_replay_def Let_def pit_ticks_def)
  have rp: "\<not> rp_active (tr_replay (k_trace (wk w)))" using assms(1) by (simp add: startable_def machine_inv_def)
  show "k_fs (wk w2) = k_fs (wk w)"
    "recorder (k_trace (wk w2)) = (True, st_sessions (tr_stats (k_trace (wk w))) + 1, p, pit_ticks (wk w))"
    "trace_inv (k_trace (wk w)) \<Longrightarrow> rec_on (wk w2)" "recs (wk w2) = []"
    "k_sched (wk w2) = k_sched (sched_prepare_replay (wk w))" "k_vm (wk w2) = k_vm (wk w)" "k_active_workloads (wk w2) = k_active_workloads (wk w)"
    using rp by (simp_all add: k k1 upd_k_def recorder_def rec_on_def recorded_def trace_start_profile_def trace_inv_def)
qed

text \<open>\<open>demo record\<close> as a whole: \<open>w2\<close> is the state when the profile starts, \<open>w'\<close> the state after the command.\<close>

lemma demo_record_run:
  assumes R: "ring3_quiet (e_ring3 E)" and fuel: "102 \<le> e_fuel E" and p: "parse_profile arg \<noteq> WORKLOAD_PROFILE_NONE"
    and st: "startable ext n (w_m w)" and alone: "only_shell (w_m w)" and pid: "t_pid (mtask (w_m w) 0) = 1"
    and su: "surplus (w_m w) = 0"
    and tr: "trace_inv (k_trace (wk w))" and ns: "st_sessions (tr_stats (k_trace (wk w))) \<noteq> - 1"
    and dev: "reliable_block_device (e_dev E) sec good N" "6144 \<le> N" "N < 2 ^ 32"
    and fs: "fs_inv (k_fs (wk w))" "fs_online (k_fs (wk w))" "good (disk (k_fs (wk w)))" "\<exists>i \<in> set (inodes (k_fs (wk w))). i_used i = 0"
    and room: "unat (sb_next_free_lba (superblock (k_fs (wk w)))) + 320 \<le> 6144"
    and sid_def: "sid = sb_next_session_id (superblock (k_fs (wk w)))"
    and w2_def: "w2 = on_k (\<lambda>k. k\<lparr>k_trace := trace_start_profile (parse_profile arg) (pit_ticks k) (k_trace k)\<rparr>) (on_k sched_prepare_replay w)"
  shows "\<exists>w' events tr3 fs3. exec_command E (''demo record '' @ arg) w = Some w' \<and>
    startable ext 0 (w_m w') \<and> only_shell (w_m w') \<and> surplus (w_m w') = 0 \<and> program_of (mtask (w_m w') 0) = program_of (mtask (w_m w) 0) \<and>
    vm_mem (k_vm (wk w')) = vm_mem (k_vm (wk w)) \<and> \<not> tr_recording (k_trace (wk w')) \<and>
    fs_sessions sec (k_fs (wk w')) sid = Some (put_events events) \<and> length events \<le> TRACE_BUFFER_CAP \<and>
    trace_replay_begin (e_dev E) sid (k_trace (wk w'), k_fs (wk w')) = Some (True, tr3, fs3) \<and>
    replay_events tr3 = events \<and> trace_inv tr3 \<and> rp_active (tr_replay tr3) \<and> \<not> rp_failed (tr_replay tr3) \<and>
    rp_event_index (tr_replay tr3) = 0 \<and> si_profile_id (rp_info (tr_replay tr3)) = parse_profile arg \<and>
    (\<forall>v. spawn_sim events (wk w2) (wk v) \<and> (\<forall>i. 0 < i \<and> i < MAX_TASKS \<longrightarrow> m_threads (w_m v) i = None) \<longrightarrow>
      (\<exists>m v'. run_profile E (parse_profile arg) v = Some v' \<and> recs (mk m) = events \<and> only_shell m \<and> k_active_workloads (mk m) = 0 \<and>
        msim events m (w_m v')))"
proof -
  let ?p = "parse_profile arg" and ?B = "e_dev E"
  note start = demo_record_start [OF st alone pid su w2_def]
  obtain w3 where w3: "run_profile E ?p w2 = Some w3" "startable ext 0 (w_m w3)" "only_shell (w_m w3)" "surplus (w_m w3) = 0"
    "k_active_workloads (wk w3) = 0" "rec_same (wk w2) (wk w3)" "vm_mem (k_vm (wk w3)) = vm_mem (k_vm (wk w2))"
    "program_of (mtask (w_m w3) 0) = program_of (mtask (w_m w2) 0)"
    and rep: "\<And>v. spawn_sim (recs (wk w3)) (wk w2) (wk v) \<Longrightarrow> \<forall>i. 0 < i \<and> i < MAX_TASKS \<longrightarrow> m_threads (w_m v) i = None \<Longrightarrow>
      \<exists>v'. run_profile E ?p v = Some v' \<and> msim (recs (wk w3)) (w_m w3) (w_m v')"
    using run_profile_records [OF R start(1-3,6) _ parse_profile_cases [OF p] fuel] start(7) tr by blast
  let ?tr = "k_trace (wk w3)" and ?fs = "k_fs (wk w3)"
  have inv0: "trace_inv (k_trace (wk w2))" using start(6) [OF tr] by (simp add: rec_on_def)
  have fs3: "?fs = k_fs (wk w)" and inv: "trace_inv ?tr" using w3(6) start(4) inv0 by (simp_all add: rec_same_def)
  have "recorder ?tr = (True, st_sessions (tr_stats (k_trace (wk w))) + 1, ?p, pit_ticks (wk w))"
    using w3(6) start(5) by (simp add: rec_same_def)
  then have rec: "st_sessions (tr_stats ?tr) \<noteq> 0" "tr_current_profile ?tr = ?p"
    using ns by (auto simp: recorder_def eq_neg_iff_add_eq_0)
  have rm: "\<not> fs_no_room (sector_count_for (tr_current_events ?tr * word_of_nat EVENT_SIZE)) ?fs"
    by (rule session_room) (use room fs3 trace_bytes(3) [OF inv] in simp_all)
  note replay = reliable_block_device.stop_then_replay [OF dev(1) inv _ rec(1) fs [folded fs3] rm dev(2,3), where ticks = "pit_ticks (wk w3)", folded fs3]
  obtain tr1 fs1 where stop: "trace_stop ?B (pit_ticks (wk w3)) (?tr, ?fs) = Some (tr1, fs1)"
    using replay [OF inv] by blast
  note tr1 = trace_stop_inv [OF stop inv]
  obtain tr3 fs3' where r: "trace_replay_begin ?B sid (tr1, fs1) = Some (True, tr3, fs3')" "replay_events tr3 = recorded ?tr"
    "fs_sessions sec fs1 sid = Some (put_events (recorded ?tr))" "si_profile_id (rp_info (tr_replay tr3)) = ?p"
    "trace_inv tr3" "rp_active (tr_replay tr3)" "\<not> rp_failed (tr_replay tr3)" "rp_event_index (tr_replay tr3) = 0"
    using replay [OF tr1(1)] stop rec(2) sid_def fs3 by auto
  let ?k' = "say (ln ''demo record profile=%s complete'') [Str (workload_profile_name ?p)] ((wk w3)\<lparr>k_trace := tr1, k_fs := fs1\<rparr>)"
  have run: "exec_command E (''demo record '' @ arg) w = Some (set_k w3 ?k')"
    unfolding demo_record_dispatch cmd_demo_record_def Let_def
    using p w3(1) stop by (simp add: w2_def [symmetric] stop_trace_def)
  have k': "wk (set_k w3 ?k') = ?k'" by (simp add: set_k_def set_sys_def set_m_def)
  have rp1: "tr_replay tr1 = tr_replay ?tr" using stop by (auto simp: trace_stop_def Let_def split: prod.splits option.splits if_splits)
  have mf: "startable ext 0 (w_m (set_k w3 ?k'))" "only_shell (w_m (set_k w3 ?k'))" "surplus (w_m (set_k w3 ?k')) = 0"
    using machine_frame(2,3,4) [of "w_m (set_k w3 ?k')" "w_m w3"] w3(2-4) rp1 by (simp_all add: set_k_def set_sys_def set_m_def)
  have "mtask (w_m w2) 0 = mtask (w_m w) 0" 
    using start(8) st by (simp add: mtask_def sched_prepare_replay_def Let_def startable_def machine_inv_def sched_inv_def MAX_TASKS_def nth_append)
  moreover have "mtask (w_m (set_k w3 ?k')) 0 = mtask (w_m w3) 0" by (simp add: mtask_def k')
  moreover have "length (recorded ?tr) \<le> TRACE_BUFFER_CAP" using inv by (simp add: recorded_def trace_inv_def)
  moreover have "\<exists>m v'. run_profile E ?p v = Some v' \<and> recs (mk m) = recorded ?tr \<and> only_shell m \<and> k_active_workloads (mk m) = 0 \<and>
      msim (recorded ?tr) m (w_m v')"
    if "spawn_sim (recorded ?tr) (wk w2) (wk v)" "\<forall>i. 0 < i \<and> i < MAX_TASKS \<longrightarrow> m_threads (w_m v) i = None" for v
    using rep [OF that] w3(3,5) by blast
  ultimately show ?thesis
    using run r tr1 w3(7,8) mf start(9)
    by (intro exI [of _ "set_k w3 ?k'"] exI [of _ "recorded ?tr"] exI [of _ tr3] exI [of _ fs3'])
      (auto simp: k')
qed

lemma on_k_set_k: "on_k f (set_k w k) = set_k w (f k)"
  by (simp add: on_k_def set_k_def set_sys_def set_m_def)

lemma demo_replay_dispatch: "exec_command E (''demo replay '' @ arg) w = cmd_demo_replay E arg w"
  by (simp add: dispatch)

text \<open>A related replay that has seen all recorded events ends without a difference.\<close>

lemma replay_report:
  assumes sim: "msim events m (w_m v)" and all: "recs (mk m) = events" and alone: "only_shell m" and act: "k_active_workloads (mk m) = 0"
  defines "v' \<equiv> on_k trace_replay_end_report v"
  shows "only_shell (w_m v')" "\<not> workload_has_active (wk v')" "\<not> rp_active (tr_replay (k_trace (wk v')))" "\<not> rp_failed (tr_replay (k_trace (wk v')))"
    "rp_event_index (tr_replay (k_trace (wk v'))) = rp_event_count (tr_replay (k_trace (wk v')))" "replay_events (k_trace (wk v')) = events"
proof -
  let ?t = "k_trace (wk v)"
  have ts: "trace_sim events (k_trace (mk m)) ?t" and tk: "tasks_sim (k_sched (mk m)) (k_sched (wk v))" and
    ac: "k_active_workloads (wk v) = 0" using sim act by (simp_all add: msim_def ksim_def)
  have rp: "rp_active (tr_replay ?t)" "\<not> rp_failed (tr_replay ?t)" "replay_events ?t = events" "trace_inv ?t"
    "unat (rp_event_index (tr_replay ?t)) = length events" using ts all by (simp_all add: trace_sim_def)
  have "length (replay_events ?t) = unat (rp_event_count (tr_replay ?t))" using rp(4) by (simp add: replay_events_def trace_inv_def)
  then have "unat (rp_event_index (tr_replay ?t)) = unat (rp_event_count (tr_replay ?t))" using rp(3,5) by simp
  then have eq: "rp_event_index (tr_replay ?t) = rp_event_count (tr_replay ?t)" by (rule unsigned_word_eqI)
  have k: "wk v' = trace_replay_end_report (wk v)" by (simp add: v'_def on_k_def set_k_def set_sys_def set_m_def)
  have t: "k_trace (wk v') = trace_replay_end ?t" "k_sched (wk v') = k_sched (wk v)" "k_active_workloads (wk v') = 0"
    using rp(1) ac by (simp_all add: k trace_replay_end_report_def Let_def)
  show "only_shell (w_m v')" using alone tk by (simp add: only_shell_def mtask_def t tasks_sim_def)
  show "\<not> workload_has_active (wk v')" by (simp add: workload_has_active_def t)
  show "\<not> rp_active (tr_replay (k_trace (wk v')))" "\<not> rp_failed (tr_replay (k_trace (wk v')))"
    "rp_event_index (tr_replay (k_trace (wk v'))) = rp_event_count (tr_replay (k_trace (wk v')))" "replay_events (k_trace (wk v')) = events"
    using rp eq by (simp_all add: t trace_replay_end_def Let_def replay_events_def)
qed

section \<open>Properties\<close>

text \<open>C3: \<open>demo record\<close> records a demonstration that can be replayed.  With the shell as the only
  task, a working disk with a free inode and room for a full buffer, the
  command returns for each of the three profiles: all its workloads have run to their end and the
  recorder is off.  The session it stored under the next free id holds the recorded events, and
  \<open>trace_replay_begin\<close> loads exactly these events together with the profile that produced them.\<close>

theorem demo_record_stores_session:
  assumes R: "ring3_quiet (e_ring3 E)" and fuel: "102 \<le> e_fuel E" and p: "parse_profile arg \<noteq> WORKLOAD_PROFILE_NONE"
    and st: "startable ext m (w_m w)" and alone: "only_shell (w_m w)" and pid: "t_pid (mtask (w_m w) 0) = 1"
    and su: "surplus (w_m w) = 0"
    and tr: "trace_inv (k_trace (wk w))" and ns: "st_sessions (tr_stats (k_trace (wk w))) \<noteq> - 1"
    and dev: "reliable_block_device (e_dev E) sec good n" "6144 \<le> n" "n < 2 ^ 32"
    and fs: "fs_inv (k_fs (wk w))" "fs_online (k_fs (wk w))" "good (disk (k_fs (wk w)))" "\<exists>i \<in> set (inodes (k_fs (wk w))). i_used i = 0"
    and room: "unat (sb_next_free_lba (superblock (k_fs (wk w)))) + 320 \<le> 6144"
    and sid_def: "sid = sb_next_session_id (superblock (k_fs (wk w)))"
  shows "\<exists>w' events tr3 fs3. exec_command E (''demo record '' @ arg) w = Some w' \<and>
    startable ext 0 (w_m w') \<and> only_shell (w_m w') \<and> \<not> workload_has_active (wk w') \<and> \<not> tr_recording (k_trace (wk w')) \<and>
    fs_sessions sec (k_fs (wk w')) sid = Some (put_events events) \<and> length events \<le> TRACE_BUFFER_CAP \<and>
    trace_replay_begin (e_dev E) sid (k_trace (wk w'), k_fs (wk w')) = Some (True, tr3, fs3) \<and>
    replay_events tr3 = events \<and> si_profile_id (rp_info (tr_replay tr3)) = parse_profile arg"
proof -
  have act: "\<not> workload_has_active (wk w')" if "only_shell (w_m w')" "surplus (w_m w') = 0" for w' :: "('a, 'b) world"
    using only_shell_surplus [OF that(1)] that(2) by (simp add: workload_has_active_def)
  show ?thesis
    using demo_record_run [OF R fuel p st alone pid su tr ns dev fs room sid_def refl] act by (elim exE conjE) blast
qed

text \<open>C1: Replaying a recorded demonstration repeats it.  With the shell as the only task, a working disk
  with a free inode and room for a full buffer, \<open>demo record\<close> followed by \<open>demo replay\<close> of the session
  it stored returns for each of the three profiles, with all workloads ended and the shell alone again.
  The replay compared each of its events with the stored one (process, type and data words), saw as many
  as were recorded and found no difference.  (No interrupt arrives during the two commands.)\<close>

theorem demo_replay_repeats_recording:
  assumes R: "ring3_quiet (e_ring3 E)" and fuel: "102 \<le> e_fuel E" and p: "parse_profile arg \<noteq> WORKLOAD_PROFILE_NONE"
    and st: "startable ext m (w_m w)" and alone: "only_shell (w_m w)" and pid: "t_pid (mtask (w_m w) 0) = 1"
    and su: "surplus (w_m w) = 0"
    and tr: "trace_inv (k_trace (wk w))" and ns: "st_sessions (tr_stats (k_trace (wk w))) \<noteq> - 1"
    and dev: "reliable_block_device (e_dev E) sec good n" "6144 \<le> n" "n < 2 ^ 32"
    and fs: "fs_inv (k_fs (wk w))" "fs_online (k_fs (wk w))" "good (disk (k_fs (wk w)))" "\<exists>i \<in> set (inodes (k_fs (wk w))). i_used i = 0"
    and room: "unat (sb_next_free_lba (superblock (k_fs (wk w)))) + 320 \<le> 6144"
    and digits: "shell_parse_u32 ds = sb_next_session_id (superblock (k_fs (wk w)))"
  shows "\<exists>w' v. exec_command E (''demo record '' @ arg) w = Some w' \<and> exec_command E (''demo replay '' @ ds) w' = Some v \<and>
    fs_sessions sec (k_fs (wk w')) (shell_parse_u32 ds) = Some (put_events (replay_events (k_trace (wk v)))) \<and>
    \<not> rp_failed (tr_replay (k_trace (wk v))) \<and> rp_event_index (tr_replay (k_trace (wk v))) = rp_event_count (tr_replay (k_trace (wk v))) \<and>
    \<not> rp_active (tr_replay (k_trace (wk v))) \<and> only_shell (w_m v) \<and> \<not> workload_has_active (wk v)"
proof -
  let ?p = "parse_profile arg"
  define w2 where "w2 = on_k (\<lambda>k. k\<lparr>k_trace := trace_start_profile ?p (pit_ticks k) (k_trace k)\<rparr>) (on_k sched_prepare_replay w)"
  note start = demo_record_start [OF st alone pid su w2_def]
  obtain w' events tr3 fs3 where w': "exec_command E (''demo record '' @ arg) w = Some w'" "startable ext 0 (w_m w')" "only_shell (w_m w')"
    "surplus (w_m w') = 0" "program_of (mtask (w_m w') 0) = program_of (mtask (w_m w) 0)" "vm_mem (k_vm (wk w')) = vm_mem (k_vm (wk w))"
    "fs_sessions sec (k_fs (wk w')) (shell_parse_u32 ds) = Some (put_events events)"
    "trace_replay_begin (e_dev E) (shell_parse_u32 ds) (k_trace (wk w'), k_fs (wk w')) = Some (True, tr3, fs3)"
    and t3: "replay_events tr3 = events" "trace_inv tr3" "rp_active (tr_replay tr3)" "\<not> rp_failed (tr_replay tr3)" "rp_event_index (tr_replay tr3) = 0"
      "si_profile_id (rp_info (tr_replay tr3)) = ?p"
    and rep: "\<And>v. spawn_sim events (wk w2) (wk v) \<Longrightarrow> \<forall>i. 0 < i \<and> i < MAX_TASKS \<longrightarrow> m_threads (w_m v) i = None \<Longrightarrow>
      \<exists>m v'. run_profile E ?p v = Some v' \<and> recs (mk m) = events \<and> only_shell m \<and> k_active_workloads (mk m) = 0 \<and> msim events m (w_m v')"
    using demo_record_run [OF R fuel p st alone pid su tr ns dev fs room digits w2_def] by (elim exE conjE) blast
  define r where "r = say (ln ''demo replay session=%u profile=%s'') [Num (ucast (shell_parse_u32 ds)), Str (workload_profile_name ?p)]
      (sched_prepare_replay ((wk w')\<lparr>k_trace := tr3, k_fs := fs3\<rparr>))"
  let ?v = "set_k w' r"
  have wv: "wk ?v = r" "m_threads (w_m ?v) = m_threads (w_m w')" by (simp_all add: set_k_def set_sys_def set_m_def)
  have rf: "k_sched r = k_sched (sched_prepare_replay (wk w'))" "k_vm r = k_vm (wk w')" "k_active_workloads r = k_active_workloads (wk w')" "k_trace r = tr3"
    by (simp_all add: r_def sched_prepare_replay_def Let_def)
  have act: "k_active_workloads (wk w') = k_active_workloads (wk w)"
    using only_shell_surplus [OF w'(3)] only_shell_surplus [OF alone] w'(4) su by simp
  have ts: "trace_sim events (k_trace (wk w2)) (k_trace r)"
    using start(6) [OF tr] start(7) t3 by (simp add: trace_sim_def rec_on_def rf)
  have "spawn_sim events (wk w2) r"
    by (rule prepared_sim [OF st alone pid w'(2,3,5) _ act start(8-10) rf(1-3) ts]) (simp add: w'(6))
  moreover have "m_threads (w_m w') i = None" if "0 < i" "i < MAX_TASKS" for i
    using w'(2,3) that by (simp add: startable_def machine_inv_def only_shell_def)
  ultimately obtain m v1 where v1: "run_profile E ?p ?v = Some v1" "recs (mk m) = events" "only_shell m" "k_active_workloads (mk m) = 0" "msim events m (w_m v1)"
    using rep [of ?v] by (auto simp: wv)
  have v: "exec_command E (''demo replay '' @ ds) w' = Some (on_k trace_replay_end_report v1)"
    unfolding demo_replay_dispatch cmd_demo_replay_def Let_def
    using w'(8) t3(6) p v1(1) by (simp add: on_k_set_k r_def)
  note rp = replay_report [OF v1(5,2,3,4)]
  show ?thesis using w'(1,7) v rp by (intro exI [of _ w'] exI [of _ "on_k trace_replay_end_report v1"]) simp
qed

text \<open>A machine after start-up on an emulated drive with an empty file system.\<close>

definition record_machine :: "emu ata machine" where
  "record_machine = \<lparr>m_sys = system_bss (sched_init (kernel_bss (aspace_init demo_vm) demo_fs)), m_threads = Map.empty\<rparr>"

definition record_env :: "(emu ata, u8 list) env" where
  "record_env = \<lparr>e_ring3 = \<lparr>r3_enter = (\<lambda>_ _ s. s), r3_demo_entry = 0x400000\<rparr>, e_ports = serial_ports,
     e_dev = ata_blockdev emu_ports, e_loc = demo_locals, e_replay_buf = [], e_fuel = 102\<rparr>"

definition record_world :: "(emu ata, u8 list) world" where
  "record_world = \<lparr>w_m = record_machine, w_idt = idt_init (\<lambda>_. 0) 0, w_mouse = mouse_bss, w_hw = [],
     w_smp = smp_init demo_cpuid (\<lambda>_. 0), w_apic = apic_init demo_cpuid (\<lambda>_. 0)\<rparr>"

lemma record_machine_ok:
  "startable (\<lambda>_. 0) 3 record_machine" "only_shell record_machine" "t_pid (mtask record_machine 0) = 1" "surplus record_machine = 0"
  "k_fs (mk record_machine) = demo_fs" "k_trace (mk record_machine) = trace_boot"
proof -
  have k: "mk record_machine = sched_init (kernel_bss (aspace_init demo_vm) demo_fs)" "m_threads record_machine = Map.empty"
    by (simp_all add: record_machine_def system_bss_def)
  have f: "k_vm (mk record_machine) = aspace_init demo_vm" "k_fs (mk record_machine) = demo_fs" "k_trace (mk record_machine) = trace_boot"
    "k_active_workloads (mk record_machine) = 0"
    by (simp_all add: k sched_init_def Let_def kernel_bss_def)
  have rp: "\<not> rp_active (tr_replay (k_trace (mk record_machine)))" by (simp add: f trace_boot_inv)
  have s: "k_sched (mk record_machine) = k_sched (sched_init (kernel_bss (aspace_init demo_vm) demo_fs))" by (simp add: k)
  note fm = fresh_machine [OF s f(1) k(2) rp f(4)]
  show "startable (\<lambda>_. 0) 3 record_machine" using fm(1) by (auto simp: startable_def)
  show "surplus record_machine = 0" by (rule fm(2))
  show "t_pid (mtask record_machine 0) = 1"
    by (simp add: mtask_def k sched_init_def Let_def kernel_bss_def sched_zero_def MAX_TASKS_def)
  have inv: "machine_inv (\<lambda>_. 0) record_machine" using fm(1) by (simp add: startable_def)
  have "task_work record_machine i = 0" if "0 < i" "i < MAX_TASKS" for i
    using fm(3) that by (simp add: work_def)
  then show "only_shell record_machine"
    using inv left_pos by (auto simp: only_shell_def task_work_def machine_inv_def split: if_splits) (metis gr0I less_irrefl)+
  show "k_fs (mk record_machine) = demo_fs" "k_trace (mk record_machine) = trace_boot" by (rule f)+
qed

lemma record_world_ok:
  "ring3_quiet (e_ring3 record_env)" "102 \<le> e_fuel record_env" "parse_profile ''sysload'' \<noteq> WORKLOAD_PROFILE_NONE"
  "trace_inv (k_trace (wk record_world))" "st_sessions (tr_stats (k_trace (wk record_world))) \<noteq> - 1"
  "reliable_block_device (e_dev record_env) (ata_sectors emu_view) emu_good EMU_SECTORS"
  "fs_inv (k_fs (wk record_world))" "fs_online (k_fs (wk record_world))" "emu_good (disk (k_fs (wk record_world)))"
  "\<exists>i \<in> set (inodes (k_fs (wk record_world))). i_used i = 0" "unat (sb_next_free_lba (superblock (k_fs (wk record_world)))) + 320 \<le> 6144"
  "sb_next_session_id (superblock (k_fs (wk record_world))) = 1"
proof -
  have w: "w_m record_world = record_machine" and E: "e_dev record_env = ata_blockdev emu_ports" "102 \<le> e_fuel record_env"
    by (simp_all add: record_world_def record_env_def)
  note m = record_machine_ok
  show "ring3_quiet (e_ring3 record_env)" by (simp add: record_env_def ring3_quiet_def still_refl)
  show "102 \<le> e_fuel record_env" by (rule E)
  show "parse_profile ''sysload'' \<noteq> WORKLOAD_PROFILE_NONE" by code_simp
  show "trace_inv (k_trace (wk record_world))" "st_sessions (tr_stats (k_trace (wk record_world))) \<noteq> - 1"
    by (simp_all add: w m trace_boot_inv) (simp add: trace_boot_def stats_zero_def)
  show "fs_inv (k_fs (wk record_world))" "fs_online (k_fs (wk record_world))" "emu_good (disk (k_fs (wk record_world)))"
    "\<exists>i \<in> set (inodes (k_fs (wk record_world))). i_used i = 0" "unat (sb_next_free_lba (superblock (k_fs (wk record_world)))) + 320 \<le> 6144"
    "sb_next_session_id (superblock (k_fs (wk record_world))) = 1"
    using demo_fs_ok demo_fs_slot by (simp_all add: w m) (simp_all add: demo_fs_def formatted_super_def fs_consts)
  show "reliable_block_device (e_dev record_env) (ata_sectors emu_view) emu_good EMU_SECTORS"
    unfolding E by (rule emu_disk.reliable_block_device_axioms)
qed

lemma record_world_machine: "w_m record_world = record_machine"
  by (simp add: record_world_def)

theorem demo_record_stores_session_witness:
  "\<exists>w'. exec_command record_env ''demo record sysload'' record_world = Some w' \<and> only_shell (w_m w') \<and>
     fs_sessions (ata_sectors emu_view) (k_fs (wk w')) 1 \<noteq> None"
proof -
  note m = record_machine_ok [folded record_world_machine] and o = record_world_ok
  from demo_record_stores_session [OF o(1-3) m(1-4) o(4-6) emu_disk_size o(7-11) o(12) [symmetric]] show ?thesis by auto
qed

theorem demo_replay_repeats_recording_witness:
  "\<exists>w' v. exec_command record_env ''demo record sysload'' record_world = Some w' \<and> exec_command record_env ''demo replay 1'' w' = Some v \<and>
     \<not> rp_failed (tr_replay (k_trace (wk v))) \<and> only_shell (w_m v)"
proof -
  note m = record_machine_ok [folded record_world_machine] and o = record_world_ok
  have "shell_parse_u32 ''1'' = 1" by code_simp
  then have ds: "shell_parse_u32 ''1'' = sb_next_session_id (superblock (k_fs (wk record_world)))" using o(12) by simp
  from demo_replay_repeats_recording [OF o(1-3) m(1-4) o(4-6) emu_disk_size o(7-11) ds] show ?thesis by auto
qed

end
