(* ===== verification/Spec2Isabelle.thy ===== *)
theory Spec2Isabelle
  imports Prelude C_String Fmt Memory Console Elf Trace_Types Block_Device Fs Io Ata Fs_Correctness
    Trace Replay Aspace Serial Kernel_State Sched Text_Buffer Bounded_Queue Power_Policy Netfs Keyboard System_State Builtin_Exec Vfs Tasks
    Mouse Descriptors Platform Interrupts Frame Screen Manual Reports Shell Shell_Correctness Boot Recording Determinism Demo
begin

text \<open>
  \<^bold>\<open>Verification of the BB kernel.\<close>

  BB is a monolithic x86-64 research kernel in C (\<open>src/kernel\<close>, headers in \<open>src/include\<close>).  It boots
  to a shell, runs kernel tasks under a round-robin scheduler, records every interesting event into
  a trace, stores traces as sessions in a small file system on an ATA disk, and can replay a
  recorded workload, checking each event against the recording.  Around this core are address
  spaces with reference counts, an ELF loader, files under \<open>/net\<close>, \<open>/proc\<close>, \<open>/trace\<close> and \<open>/bin\<close>, a
  power policy that batches keys and packets, drivers for console, serial line, keyboard and
  mouse, and interrupt dispatch.

  \<^bold>\<open>How the code is modelled.\<close>  A C structure is a record with the same fields, an enumeration a
  datatype, an unsigned integer a word of its width (so arithmetic wraps as in C), a fixed array a
  list of its length, a string a \<open>char list\<close> that ends at the first \<open>NUL\<close> or at the end of the
  list.  A function that changes state takes the state and returns it.  A return value of -1 is
  \<open>None\<close> or \<open>False\<close>; an access outside an array, which C leaves undefined, is a value of its own
  (\<open>Overrun\<close>, \<open>Elf_OOB\<close>, \<open>Read_Overrun\<close>, or \<open>None\<close> where the definition says so), so a theorem that
  a function returns a proper value also says that it stays inside its arrays.  What is not C code
  of the kernel is a parameter: the devices behind the ports (\<open>'h ports\<close>), the disk (\<open>'d blockdev\<close>),
  \<open>cpuid\<close> and \<open>rdmsr\<close>, ring 3 code (\<open>'d ring3\<close>), uninitialised local arrays.  Their contracts are
  named hypotheses or locales, and each is met by an instance: an emulated ATA drive, a model of
  the two interrupt controllers, a serial line with waiting bytes, ring 3 code that does nothing.

  \<^bold>\<open>Theories, from the bottom up.\<close>
  \<^item> \<open>Prelude\<close>: words, little-endian fields, searching a table, ring buffers.  \<open>C_String\<close> (\<open>string.c\<close>), \<open>Fmt\<close>
    (\<open>fmt.c\<close>), \<open>Text_Buffer\<close> (the bounded append functions of \<open>vfs.c\<close>, \<open>netfs.c\<close>, \<open>builtin_exec.c\<close>): the
    printers read back and stay in their buffers.
  \<^item> \<open>Memory\<close> (\<open>memory.c\<close>): pages handed out are aligned, disjoint and inside a usable region.
    \<open>Aspace\<close> (\<open>aspace.c\<close>): the table refines a map with reference counts; page tables are bytes of
    physical memory.  \<open>Elf\<close> (\<open>elf.c\<close>): the parser and where it reads outside its image.
  \<^item> \<open>Block_Device\<close> (the interface, as a locale), \<open>Io\<close>, \<open>Ata\<close> (\<open>ata.c\<close>): the driver implements the interface
    on every drive that follows the register protocol.  \<open>Fs\<close>, \<open>Fs_Correctness\<close> (\<open>fs.c\<close>): the file system
    refines a map from session ids to bytes, keeps its invariant on every path and finds its
    sessions again after a restart.
  \<^item> \<open>Trace_Types\<close>, \<open>Trace\<close>, \<open>Replay\<close> (\<open>trace.c\<close>): recorder, hash and replay, and the round trip through the
    disk: a recorded session replays exactly when the same calls are repeated.
  \<^item> \<open>Console\<close>, \<open>Serial\<close> (\<open>console.c\<close>, \<open>serial.c\<close>): the log ring refines a list of lines; serial output is the
    list of characters sent.  \<open>Kernel_State\<close>: the record of the whole kernel, clock and \<open>trace_record\<close>.
  \<^item> \<open>Frame\<close>, \<open>Screen\<close> (\<open>console.c\<close>): the VGA text memory as the sequence of stores made to it; a redraw
    shows exactly the window of the log, inside the frame, and the status bars show their numbers.
  \<^item> \<open>Sched\<close> (\<open>sched.c\<close>): scheduler invariant, round robin, no starvation, spawning and ending tasks with
    balanced address-space references.
  \<^item> \<open>Bounded_Queue\<close> (ring buffers as a locale with its interpretations), \<open>Power_Policy\<close>, \<open>Netfs\<close>, \<open>Keyboard\<close>
    (\<open>power.c\<close>, \<open>netfs.c\<close>, \<open>keyboard.c\<close>): keys and packets are delivered in order through the batching
    queues.  \<open>Mouse\<close> (\<open>mouse.c\<close>): the decoder moves a pointer that stays on the screen.
  \<^item> \<open>System_State\<close>, \<open>Builtin_Exec\<close> (\<open>builtin_exec.c\<close>, \<open>usermode.c\<close>), \<open>Vfs\<close> (\<open>vfs.c\<close>): programs, job slots, running an
    image in ring 3, and the descriptor table as a map of open files.
  \<^item> \<open>Tasks\<close> (\<open>workload.c\<close>, the task bodies of \<open>builtin_exec.c\<close>, \<open>syscall.c\<close>): the code of the tasks, cut at its
    calls of \<open>sched_yield\<close>, and its interleaving.  A thread per task slot says where the task goes
    on; \<open>task_step\<close> runs one block and the scheduler.  Workloads end, waiting until idle succeeds.
  \<^item> \<open>Descriptors\<close> (\<open>gdt.c\<close>, \<open>idt.c\<close>), \<open>Platform\<close> (\<open>pic.c\<close>, \<open>pit.c\<close>, \<open>serial.c\<close>, \<open>cpuid.c\<close>, \<open>apic.c\<close>, \<open>smp.c\<close>,
    \<open>spinlock.c\<close>), \<open>Interrupts\<close> (\<open>interrupts.c\<close>, \<open>usermode.c\<close>): tables and chips are programmed as the
    manuals of the devices say; interrupts between any two blocks leave the tasks alone.
  \<^item> \<open>Manual\<close> (\<open>manual.c\<close>), \<open>Reports\<close> (the listings of \<open>fs.c\<close>, \<open>trace.c\<close>, \<open>shell.c\<close>), \<open>Shell\<close>, \<open>Shell_Correctness\<close>
    (\<open>shell.c\<close>, \<open>syscall.c\<close>): every command, the dispatch and the line editor.  \<open>Boot\<close> (\<open>kernel.c\<close>): the
    start-up establishes the invariants the other theories assume.
  \<^item> \<open>Recording\<close>, \<open>Determinism\<close>, \<open>Demo\<close> (\<open>demo record\<close> and \<open>demo replay\<close> of \<open>shell.c\<close> with \<open>workload.c\<close>, \<open>sched.c\<close>,
    \<open>trace.c\<close>, \<open>fs.c\<close>): the recorder keeps recording while tasks run; a replaying kernel stays related to
    the recorded one through every block, switch and exit; so a recorded demonstration is stored, can be
    loaded again and replays without a difference.

  \<^bold>\<open>Fuel and bounds.\<close>  Loops with a bound in the code (polling a drive, 100001 rounds of waiting, scans of a
    table) recurse over that bound.  Loops without one have fuel and a theorem that a stated amount
    is enough: \<open>run_others\<close> needs as much as the blocks the tasks have left (\<open>work\<close>), \<open>run_workloads_until_idle\<close>
    one round more than that, \<open>cat\<close> five rounds for a text below 1024 characters.  \<open>sys_waitpid\<close> waits for a
    clock that only interrupts move, so out of fuel it is \<open>None\<close>.

  \<^bold>\<open>Not modelled.\<close>  The assembly files (boot loader, stack switch, interrupt stubs, entry to ring 3) and with
    them registers and stacks of a task: a switch of tasks is a change of the current index.  The wait
    for the serial transmitter.  Interrupts inside a block: the theorems on tasks place them between
    blocks.  \<open>bootinfo.c\<close>, which keeps one pointer, and accessors that return a field.
\<close>

end
